(* ===== verification/Prelude.thy ===== *)
theory Prelude
  imports Main "HOL-Library.Word"
begin

text \<open>
  Shared vocabulary of the development.

  \<^item> \<open>result\<close>: what a fallible Rust function returns. \<open>Ok\<close> and \<open>Err\<close> are the source's own
    constructors; \<open>Panic\<close> is the outcome of a failed \<open>assert!\<close>, an \<open>expect\<close> on \<open>None\<close> or an
    arithmetic overflow (the workspace builds with \<open>overflow-checks = true\<close> in every profile, so
    overflow is a panic and not a wrap-around).
  \<^item> \<open>rbind\<close> is the \<open>?\<close> operator; \<open>sbind\<close> is \<open>?\<close> in a method that takes \<open>&mut self\<close>: the state
    reached so far is kept when an error is propagated, as it is in Rust.
  \<^item> \<open>usize\<close>: the 64-bit machine word of both targets, read as a natural number below
    \<open>2 ^ 64\<close>, with checked arithmetic and the bitwise operators at that width.
  \<^item> generic lemmas on powers of two, alignment and sorted lists of ranges that the component
    theories share.
\<close>

unbundle bit_operations_syntax

section \<open>Results and panics\<close>

datatype ('a, 'e) result = Ok 'a | Err 'e | Panic

fun rbind :: "('a, 'e) result \<Rightarrow> ('a \<Rightarrow> ('b, 'e) result) \<Rightarrow> ('b, 'e) result" where
  "rbind (Ok x) k = k x"
| "rbind (Err e) k = Err e"
| "rbind Panic k = Panic"

fun map_err :: "('e \<Rightarrow> 'f) \<Rightarrow> ('a, 'e) result \<Rightarrow> ('a, 'f) result" where
  "map_err f (Ok x) = Ok x"
| "map_err f (Err e) = Err (f e)"
| "map_err f Panic = Panic"

fun ok_or :: "'a option \<Rightarrow> 'e \<Rightarrow> ('a, 'e) result" where
  "ok_or (Some x) e = Ok x"
| "ok_or None e = Err e"

fun expect :: "'a option \<Rightarrow> ('a, 'e) result" where
  "expect (Some x) = Ok x"
| "expect None = Panic"

fun is_ok :: "('a, 'e) result \<Rightarrow> bool" where
  "is_ok (Ok x) = True"
| "is_ok (Err e) = False"
| "is_ok Panic = False"

lemma rbind_eq_Ok [simp]: "rbind m k = Ok y \<longleftrightarrow> (\<exists>x. m = Ok x \<and> k x = Ok y)"
  by (cases m) auto

lemma rbind_eq_Err: "rbind m k = Err e \<longleftrightarrow> m = Err e \<or> (\<exists>x. m = Ok x \<and> k x = Err e)"
  by (cases m) auto

lemma rbind_eq_Panic: "rbind m k = Panic \<longleftrightarrow> m = Panic \<or> (\<exists>x. m = Ok x \<and> k x = Panic)"
  by (cases m) auto

lemma rbind_Ok_right [simp]: "rbind m Ok = m"
  by (cases m) auto

lemma rbind_assoc: "rbind (rbind m k) h = rbind m (\<lambda>x. rbind (k x) h)"
  by (cases m) auto

lemma map_err_eq_Ok [simp]: "map_err f m = Ok x \<longleftrightarrow> m = Ok x"
  by (cases m) auto

lemma map_err_eq_Err: "map_err f m = Err e \<longleftrightarrow> (\<exists>e'. m = Err e' \<and> e = f e')"
  by (cases m) auto

lemma map_err_eq_Panic [simp]: "map_err f m = Panic \<longleftrightarrow> m = Panic"
  by (cases m) auto

lemma ok_or_eq_Ok [simp]: "ok_or x e = Ok y \<longleftrightarrow> x = Some y"
  by (cases x) auto

lemma ok_or_not_Panic [simp]: "ok_or x e \<noteq> Panic"
  by (cases x) auto

lemma ok_or_eq_Err: "ok_or x e = Err e' \<longleftrightarrow> x = None \<and> e = e'"
  by (cases x) auto

lemma expect_eq_Ok [simp]: "expect x = Ok y \<longleftrightarrow> x = Some y"
  by (cases x) auto

lemma expect_not_Err [simp]: "expect x \<noteq> Err e"
  by (cases x) auto

lemma is_ok_iff: "is_ok r \<longleftrightarrow> (\<exists>x. r = Ok x)"
  by (cases r) auto

subsection \<open>Methods on a mutable receiver\<close>

type_synonym ('s, 'a, 'e) action = "'s \<Rightarrow> ('a, 'e) result \<times> 's"

definition sreturn :: "'a \<Rightarrow> ('s, 'a, 'e) action" where
  "sreturn x s = (Ok x, s)"

definition sfail :: "'e \<Rightarrow> ('s, 'a, 'e) action" where
  "sfail e s = (Err e, s)"

definition spanic :: "('s, 'a, 'e) action" where
  "spanic s = (Panic, s)"

definition slift :: "('a, 'e) result \<Rightarrow> ('s, 'a, 'e) action" where
  "slift r s = (r, s)"

definition sget :: "('s \<Rightarrow> 'a) \<Rightarrow> ('s, 'a, 'e) action" where
  "sget f s = (Ok (f s), s)"

definition sread :: "('s \<Rightarrow> ('a, 'e) result) \<Rightarrow> ('s, 'a, 'e) action" where
  "sread f s = (f s, s)"

definition smodify :: "('s \<Rightarrow> 's) \<Rightarrow> ('s, unit, 'e) action" where
  "smodify f s = (Ok (), f s)"

definition sbind ::
  "('s, 'a, 'e) action \<Rightarrow> ('a \<Rightarrow> ('s, 'b, 'e) action) \<Rightarrow> ('s, 'b, 'e) action" where
  "sbind m k s =
     (case m s of
        (Ok x, s') \<Rightarrow> k x s'
      | (Err e, s') \<Rightarrow> (Err e, s')
      | (Panic, s') \<Rightarrow> (Panic, s'))"

definition sseq ::
  "('s, 'a, 'e) action \<Rightarrow> ('s, 'b, 'e) action \<Rightarrow> ('s, 'b, 'e) action" where
  "sseq m k = sbind m (\<lambda>_. k)"

definition swhen :: "bool \<Rightarrow> ('s, unit, 'e) action \<Rightarrow> ('s, unit, 'e) action" where
  "swhen b m = (if b then m else sreturn ())"

primrec sforeach :: "('x \<Rightarrow> ('s, unit, 'e) action) \<Rightarrow> 'x list \<Rightarrow> ('s, unit, 'e) action" where
  "sforeach f [] = sreturn ()"
| "sforeach f (x # xs) = sseq (f x) (sforeach f xs)"

text \<open>Recovery from an error, and the conversion of errors at the boundary of a module.\<close>

definition scatch :: "('s, 'a, 'e) action \<Rightarrow> ('e \<Rightarrow> ('s, 'a, 'f) action) \<Rightarrow> ('s, 'a, 'f) action" where
  "scatch m h s =
     (case m s of
        (Ok x, s') \<Rightarrow> (Ok x, s')
      | (Err e, s') \<Rightarrow> h e s'
      | (Panic, s') \<Rightarrow> (Panic, s'))"

definition smap_err :: "('e \<Rightarrow> 'f) \<Rightarrow> ('s, 'a, 'e) action \<Rightarrow> ('s, 'a, 'f) action" where
  "smap_err f m s = (let (r, s') = m s in (map_err f r, s'))"

lemmas action_defs = sreturn_def sfail_def spanic_def slift_def sget_def sread_def smodify_def

lemma sbind_Ok: "m s = (Ok x, s') \<Longrightarrow> sbind m k s = k x s'"
  by (simp add: sbind_def)

lemma sbind_Err: "m s = (Err e, s') \<Longrightarrow> sbind m k s = (Err e, s')"
  by (simp add: sbind_def)

lemma sbind_eq_Ok:
  "sbind m k s = (Ok y, t) \<longleftrightarrow> (\<exists>x s'. m s = (Ok x, s') \<and> k x s' = (Ok y, t))"
  by (auto simp: sbind_def split: prod.splits result.splits)

lemma sseq_Ok: "m s = (Ok x, s') \<Longrightarrow> sseq m k s = k s'"
  by (simp add: sseq_def sbind_def)

lemma sseq_eq_Ok:
  "sseq m k s = (Ok y, t) \<longleftrightarrow> (\<exists>x s'. m s = (Ok x, s') \<and> k s' = (Ok y, t))"
  by (simp add: sseq_def sbind_eq_Ok)

lemma sbind_sreturn [simp]: "sbind (sreturn x) k = k x"
  by (rule ext) (simp add: sbind_def sreturn_def)

lemma sbind_sget [simp]: "sbind (sget f) k s = k (f s) s"
  by (simp add: sbind_def sget_def)

lemma sbind_slift_Ok [simp]: "sbind (slift (Ok x)) k = k x"
  by (rule ext) (simp add: sbind_def slift_def)

lemma sbind_sread_Ok [simp]: "f s = Ok x \<Longrightarrow> sbind (sread f) k s = k x s"
  by (simp add: sbind_def sread_def)

lemma sseq_smodify [simp]: "sseq (smodify f) k s = k (f s)"
  by (simp add: sseq_def sbind_def smodify_def)

lemma swhen_True [simp]: "swhen True m = m"
  by (simp add: swhen_def)

lemma swhen_False [simp]: "swhen False m = sreturn ()"
  by (simp add: swhen_def)

lemma sforeach_append:
  "sforeach f (xs @ ys) = sseq (sforeach f xs) (sforeach f ys)"
proof (induction xs)
  case Nil
  show ?case by (simp add: sseq_def)
next
  case (Cons x xs)
  show ?case
    by (rule ext) (simp add: Cons sseq_def sbind_def split: prod.splits result.splits)
qed


section \<open>The machine word of the targets\<close>

type_synonym usize = nat
type_synonym u64 = nat
type_synonym u32 = nat
type_synonym u16 = nat
type_synonym u8 = "8 word"

definition usize_MAX :: usize where
  "usize_MAX = 18446744073709551615"

definition u32_MAX :: nat where
  "u32_MAX = 4294967295"

definition u16_MAX :: nat where
  "u16_MAX = 65535"

definition checked_add :: "usize \<Rightarrow> usize \<Rightarrow> usize option" where
  "checked_add a b = (if a + b \<le> usize_MAX then Some (a + b) else None)"

definition checked_sub :: "usize \<Rightarrow> usize \<Rightarrow> usize option" where
  "checked_sub a b = (if b \<le> a then Some (a - b) else None)"

definition checked_mul :: "usize \<Rightarrow> usize \<Rightarrow> usize option" where
  "checked_mul a b = (if a * b \<le> usize_MAX then Some (a * b) else None)"

definition saturating_sub :: "usize \<Rightarrow> usize \<Rightarrow> usize" where
  "saturating_sub a b = (if b \<le> a then a - b else 0)"

definition saturating_add :: "usize \<Rightarrow> usize \<Rightarrow> usize" where
  "saturating_add a b = (if a + b \<le> usize_MAX then a + b else usize_MAX)"

text \<open>The plain operators: they panic on overflow.\<close>

definition add_usize :: "usize \<Rightarrow> usize \<Rightarrow> (usize, 'e) result" where
  "add_usize a b = expect (checked_add a b)"

definition sub_usize :: "usize \<Rightarrow> usize \<Rightarrow> (usize, 'e) result" where
  "sub_usize a b = expect (checked_sub a b)"

definition mul_usize :: "usize \<Rightarrow> usize \<Rightarrow> (usize, 'e) result" where
  "mul_usize a b = expect (checked_mul a b)"

text \<open>The complement \<open>!m\<close> at 64 bits.\<close>

definition usize_not :: "usize \<Rightarrow> usize" where
  "usize_not m = usize_MAX - m"

definition is_power_of_two :: "usize \<Rightarrow> bool" where
  "is_power_of_two n \<longleftrightarrow> n \<noteq> 0 \<and> n AND (n - 1) = 0"

lemma usize_MAX_eq: "usize_MAX = 2 ^ 64 - 1"
  by (simp add: usize_MAX_def)

lemma Suc_usize_MAX: "Suc usize_MAX = 2 ^ 64"
  by (simp add: usize_MAX_def)

lemma le_usize_MAX_iff: "n \<le> usize_MAX \<longleftrightarrow> n < 2 ^ 64"
  by (simp add: usize_MAX_def less_Suc_eq_le [symmetric])

lemma checked_add_eq_Some [simp]:
  "checked_add a b = Some c \<longleftrightarrow> a + b \<le> usize_MAX \<and> c = a + b"
  by (auto simp: checked_add_def)

lemma checked_add_eq_None [simp]: "checked_add a b = None \<longleftrightarrow> usize_MAX < a + b"
  by (auto simp: checked_add_def)

lemma checked_sub_eq_Some [simp]: "checked_sub a b = Some c \<longleftrightarrow> b \<le> a \<and> c = a - b"
  by (auto simp: checked_sub_def)

lemma checked_sub_eq_None [simp]: "checked_sub a b = None \<longleftrightarrow> a < b"
  by (auto simp: checked_sub_def)

lemma checked_mul_eq_Some [simp]:
  "checked_mul a b = Some c \<longleftrightarrow> a * b \<le> usize_MAX \<and> c = a * b"
  by (auto simp: checked_mul_def)

lemma checked_mul_eq_None [simp]: "checked_mul a b = None \<longleftrightarrow> usize_MAX < a * b"
  by (auto simp: checked_mul_def)

lemma saturating_sub_eq [simp]: "saturating_sub a b = a - b"
  by (simp add: saturating_sub_def)

lemma add_usize_Ok: "a + b \<le> usize_MAX \<Longrightarrow> add_usize a b = Ok (a + b)"
  by (simp add: add_usize_def)

lemma sub_usize_Ok: "b \<le> a \<Longrightarrow> sub_usize a b = Ok (a - b)"
  by (simp add: sub_usize_def)

lemma mul_usize_Ok: "a * b \<le> usize_MAX \<Longrightarrow> mul_usize a b = Ok (a * b)"
  by (simp add: mul_usize_def)

subsection \<open>Powers of two and alignment\<close>

lemma and_exp_pred: "(n::nat) AND (2 ^ k - 1) = n mod 2 ^ k"
  by (metis mask_eq_exp_minus_1 take_bit_eq_mask take_bit_eq_mod)

lemma power_of_two_and_pred: "(2::nat) ^ k AND (2 ^ k - 1) = 0"
  by (simp only: and_exp_pred mod_self)

lemma is_power_of_two_exp [simp, intro]: "is_power_of_two (2 ^ k)"
  by (simp add: is_power_of_two_def power_of_two_and_pred [simplified])

lemma even_and_pred:
  fixes n :: nat
  assumes "n \<noteq> 0"
  shows "(2 * n) AND (2 * n - 1) = 2 * (n AND (n - 1))"
proof -
  have "2 * n - 1 = Suc (2 * (n - 1))"
    using assms by arith
  then show ?thesis
    by (simp add: and_nat_rec [of "2 * n"])
qed

lemma odd_and_pred:
  fixes n :: nat
  assumes "odd n"
  shows "n AND (n - 1) = n - 1"
proof -
  obtain m where "n = Suc (2 * m)"
    using assms by (auto elim: oddE)
  then show ?thesis
    by (simp add: and_nat_rec [of "Suc (2 * m)"])
qed

lemma is_power_of_two_iff: "is_power_of_two n \<longleftrightarrow> (\<exists>k. n = 2 ^ k)"
proof
  show "is_power_of_two n \<Longrightarrow> \<exists>k. n = 2 ^ k"
  proof (induction n rule: less_induct)
    case (less n)
    show ?case
    proof (cases "even n")
      case True
      then obtain m where m: "n = 2 * m" by blast
      then have "m \<noteq> 0" "m < n" "is_power_of_two m"
        using less.prems even_and_pred [of m] by (auto simp: is_power_of_two_def)
      with less.IH obtain k where "m = 2 ^ k" by blast
      with m show ?thesis by (auto intro: exI [of _ "Suc k"])
    next
      case False
      with less.prems odd_and_pred have "n = 1"
        by (auto simp: is_power_of_two_def)
      then show ?thesis by (auto intro: exI [of _ 0])
    qed
  qed
qed auto

lemma is_power_of_two_pos: "is_power_of_two n \<Longrightarrow> 0 < n"
  by (simp add: is_power_of_two_def)

lemma and_pred_mod: "is_power_of_two al \<Longrightarrow> (n::nat) AND (al - 1) = n mod al"
  by (auto simp only: is_power_of_two_iff and_exp_pred)

text \<open>Clearing the low bits with \<open>& !(alignment - 1)\<close> rounds down to a multiple.\<close>

lemma usize_not_exp_pred:
  assumes "k \<le> 64"
  shows "usize_not (2 ^ k - 1) = push_bit k (mask (64 - k))"
proof -
  have "(2::nat) ^ (64 - k) * 2 ^ k = 2 ^ 64"
    using assms by (simp add: power_add [symmetric])
  then show ?thesis
    by (simp add: usize_not_def usize_MAX_eq push_bit_eq_mult mask_eq_exp_minus_1
        diff_mult_distrib del: usize_MAX_def)
qed

lemma and_push_bit_mask:
  fixes n :: nat
  shows "n AND push_bit k (mask m) = push_bit k (take_bit m (drop_bit k n))"
  by (rule bit_eqI) (auto simp: bit_and_iff bit_push_bit_iff bit_take_bit_iff bit_drop_bit_eq bit_mask_iff)

lemma align_mask_exp:
  assumes "n \<le> usize_MAX" "k \<le> 64"
  shows "n AND usize_not (2 ^ k - 1) = n div 2 ^ k * 2 ^ k"
proof -
  have "n < 2 ^ (64 - k) * 2 ^ k"
    using assms by (simp add: le_usize_MAX_iff power_add [symmetric])
  then have "n div 2 ^ k < 2 ^ (64 - k)"
    by (simp add: less_mult_imp_div_less)
  then show ?thesis
    by (simp only: usize_not_exp_pred [OF assms(2)] and_push_bit_mask)
      (simp add: push_bit_eq_mult drop_bit_eq_div take_bit_eq_mod)
qed

lemma power_of_two_le_usize_MAX:
  assumes "is_power_of_two al" "al \<le> usize_MAX"
  obtains k where "al = 2 ^ k" "k < 64"
proof -
  obtain k where k: "al = 2 ^ k"
    using assms by (auto simp: is_power_of_two_iff)
  then have "(2::nat) ^ k < 2 ^ 64"
    using assms by (simp add: le_usize_MAX_iff)
  then have "k < 64"
    by (rule power_less_imp_less_exp [rotated]) simp
  with k show ?thesis by (rule that)
qed

lemma align_mask:
  assumes "is_power_of_two al" "al \<le> usize_MAX" "n \<le> usize_MAX"
  shows "n AND usize_not (al - 1) = n div al * al"
  using assms by (auto elim!: power_of_two_le_usize_MAX simp: align_mask_exp [simplified])

text \<open>Rounding down and up as arithmetic.\<close>

definition round_down :: "nat \<Rightarrow> nat \<Rightarrow> nat" where
  "round_down al n = n div al * al"

definition round_up :: "nat \<Rightarrow> nat \<Rightarrow> nat" where
  "round_up al n = (n + (al - 1)) div al * al"

lemma align_mask_round:
  assumes "is_power_of_two al" "al \<le> usize_MAX" "n \<le> usize_MAX"
  shows "n AND usize_not (al - Suc 0) = round_down al n"
  using align_mask [OF assms] by (simp add: round_down_def)

lemma round_down_le: "round_down al n \<le> n"
  by (simp add: round_down_def)

lemma round_down_dvd [simp]: "al dvd round_down al n"
  by (simp add: round_down_def)

lemma round_down_greatest: "al dvd m \<Longrightarrow> m \<le> n \<Longrightarrow> m \<le> round_down al n"
  by (metis round_down_def div_le_mono dvd_div_mult_self mult_le_mono1)

lemma less_round_down_add: "0 < al \<Longrightarrow> n < round_down al n + al"
  using dividend_less_div_times [of al n] by (simp add: round_down_def add.commute)

lemma round_down_dvd_id [simp]: "al dvd n \<Longrightarrow> round_down al n = n"
  by (simp add: round_down_def)

lemma round_up_dvd [simp]: "al dvd round_up al n"
  by (simp add: round_up_def)

lemma round_up_eq_down: "round_up al n = round_down al (n + (al - 1))"
  by (simp add: round_up_def round_down_def)

lemma le_round_up: "0 < al \<Longrightarrow> n \<le> round_up al n"
  using less_round_down_add [of al "n + (al - 1)"] by (simp add: round_up_eq_down)

lemma round_up_le: "round_up al n \<le> n + (al - 1)"
  by (simp add: round_up_eq_down round_down_le)

lemma round_up_least:
  assumes "al dvd m" "n \<le> m" "0 < al"
  shows "round_up al n \<le> m"
proof -
  obtain q where q: "m = q * al"
    using assms(1) by (metis dvd_div_mult_self)
  have "n + (al - 1) < (q + 1) * al"
    using assms(2,3) q by simp
  then have "(n + (al - 1)) div al < q + 1"
    by (rule less_mult_imp_div_less)
  then show ?thesis
    unfolding round_up_def q by (intro mult_le_mono1) simp
qed

lemma round_up_dvd_id [simp]: "al dvd n \<Longrightarrow> 0 < al \<Longrightarrow> round_up al n = n"
  by (simp add: antisym le_round_up round_up_least)

text \<open>Two multiples of the same step are equal or a whole step apart.\<close>

lemma dvd_gap: "al dvd m \<Longrightarrow> al dvd n \<Longrightarrow> m < n \<Longrightarrow> m + al \<le> (n::nat)"
  by (metis add.commute dvd_diff_nat dvd_imp_le le_add_diff_inverse less_imp_le nat_add_left_cancel_le zero_less_diff)

lemma dvd_less_gap: "al dvd m \<Longrightarrow> al dvd n \<Longrightarrow> m < n + al \<Longrightarrow> m \<le> (n::nat)"
  using dvd_gap not_le by blast

section \<open>Growable arrays\<close>

text \<open>\<open>Vec::insert\<close>, \<open>Vec::remove\<close> and \<open>Vec::swap_remove\<close> at an index in range, and the search for an index.\<close>

definition vec_insert :: "nat \<Rightarrow> 'a \<Rightarrow> 'a list \<Rightarrow> 'a list" where
  "vec_insert i x xs = take i xs @ x # drop i xs"

definition vec_remove :: "nat \<Rightarrow> 'a list \<Rightarrow> 'a list" where
  "vec_remove i xs = take i xs @ drop (Suc i) xs"

definition vec_swap_remove :: "nat \<Rightarrow> 'a list \<Rightarrow> 'a list" where
  "vec_swap_remove i xs = butlast (xs[i := last xs])"

fun position :: "('a \<Rightarrow> bool) \<Rightarrow> 'a list \<Rightarrow> nat option" where
  "position P [] = None"
| "position P (x # xs) = (if P x then Some 0 else map_option Suc (position P xs))"

lemma length_vec_insert [simp]: "length (vec_insert i x xs) = Suc (length xs)"
  by (simp add: vec_insert_def)

lemma length_vec_remove [simp]: "i < length xs \<Longrightarrow> length (vec_remove i xs) = length xs - 1"
  by (simp add: vec_remove_def)

lemma set_vec_insert [simp]: "set (vec_insert i x xs) = insert x (set xs)"
proof -
  have "set (vec_insert i x xs) = insert x (set (take i xs @ drop i xs))"
    by (simp add: vec_insert_def del: append_take_drop_id)
  then show ?thesis by simp
qed

lemma vec_remove_insert:
  "i \<le> length xs \<Longrightarrow> vec_remove i (vec_insert i x xs) = xs"
  by (simp add: vec_remove_def vec_insert_def)

lemma position_Some:
  "position P xs = Some i \<Longrightarrow> i < length xs \<and> P (xs ! i)"
  by (induction xs arbitrary: i) (auto split: if_splits)

lemma position_None: "position P xs = None \<longleftrightarrow> (\<forall>x \<in> set xs. \<not> P x)"
  by (induction xs) auto

lemma set_vec_swap_remove:
  assumes "distinct xs" "i < length xs"
  shows "set (vec_swap_remove i xs) = set xs - {xs ! i}" "distinct (vec_swap_remove i xs)"
proof -
  obtain ys y where xs: "xs = ys @ [y]" using assms(2) by (cases xs rule: rev_cases) auto
  have "set (vec_swap_remove i xs) = set xs - {xs ! i} \<and> distinct (vec_swap_remove i xs)"
  proof (cases "i < length ys")
    case True
    then have "vec_swap_remove i xs = ys[i := y]" by (simp add: vec_swap_remove_def xs list_update_append)
    with True assms show ?thesis
      by (auto simp: xs nth_append set_update_distinct distinct_list_update)
  next
    case False
    with assms have "i = length ys" by (simp add: xs)
    with assms(1) show ?thesis by (auto simp: vec_swap_remove_def xs)
  qed
  then show "set (vec_swap_remove i xs) = set xs - {xs ! i}" "distinct (vec_swap_remove i xs)" by auto
qed

section \<open>Freedom of panics\<close>

text \<open>Actions that never panic.\<close>

definition panic_free :: "('s, 'a, 'e) action \<Rightarrow> bool" where
  "panic_free m \<longleftrightarrow> (\<forall>s. fst (m s) \<noteq> Panic)"

lemma panic_free_sbind: "panic_free m \<Longrightarrow> (\<And>x. panic_free (f x)) \<Longrightarrow> panic_free (sbind m f)"
  by (simp add: panic_free_def sbind_def split: prod.splits result.splits) (metis fst_conv)

lemma panic_free_sseq: "panic_free m \<Longrightarrow> panic_free m' \<Longrightarrow> panic_free (sseq m m')"
  by (simp add: sseq_def panic_free_sbind)

lemma panic_free_slift: "r \<noteq> Panic \<Longrightarrow> panic_free (slift r)"
  by (simp add: panic_free_def slift_def)

lemma panic_free_smap_err: "panic_free m \<Longrightarrow> panic_free (smap_err f m)"
  by (simp add: panic_free_def smap_err_def split: prod.splits result.splits) (metis fst_conv)

lemma panic_free_sreturn: "panic_free (sreturn x)"
  by (simp add: panic_free_def sreturn_def)

lemma panic_free_ok_or: "ok_or x e \<noteq> Panic"
  by (cases x) simp_all


end
