(* ===== verification/Address.thy ===== *)
theory Address
  imports Prelude
begin

text \<open>
  Addresses, pages, frames and half-open ranges: \<open>mm/src/address.rs\<close>, \<open>virtual_address.rs\<close>,
  \<open>frame.rs\<close>, \<open>virtual_page.rs\<close>, \<open>range.rs\<close>, \<open>virtual_range.rs\<close> and \<open>layout.rs\<close>.

  The transparent newtypes around \<open>usize\<close> are synonyms of \<open>usize\<close>, so their constructor \<open>new\<close> and
  projection \<open>get\<close> are the identity. A range is a record of its two bounds; \<open>PhysRange_new\<close> is the
  only way the code builds one, and it refuses \<open>start > end\<close>, which is what makes the subtraction
  in \<open>size\<close> total. The lemmas relate alignment by masking to rounding, and the range predicates to
  the sets of addresses the ranges denote.
\<close>

section \<open>Addresses\<close>

type_synonym PhysAddr = usize
type_synonym VirtAddr = usize

definition PAGE_SHIFT :: usize where
  "PAGE_SHIFT = 12"

definition PAGE_SIZE :: usize where
  "PAGE_SIZE = push_bit PAGE_SHIFT 1"

definition PhysAddr_checked_add :: "PhysAddr \<Rightarrow> usize \<Rightarrow> PhysAddr option" where
  "PhysAddr_checked_add self value =
     (case checked_add self value of Some address \<Rightarrow> Some address | None \<Rightarrow> None)"

definition PhysAddr_align_down :: "PhysAddr \<Rightarrow> usize \<Rightarrow> PhysAddr option" where
  "PhysAddr_align_down self alignment =
     (if \<not> is_power_of_two alignment then None
      else Some (self AND usize_not (alignment - 1)))"

definition PhysAddr_align_up :: "PhysAddr \<Rightarrow> usize \<Rightarrow> PhysAddr option" where
  "PhysAddr_align_up self alignment =
     (if \<not> is_power_of_two alignment then None
      else (let mask = alignment - 1 in
        case checked_add self mask of
          Some address \<Rightarrow> Some (address AND usize_not mask)
        | None \<Rightarrow> None))"

definition PhysAddr_checked_sub :: "PhysAddr \<Rightarrow> usize \<Rightarrow> PhysAddr option" where
  "PhysAddr_checked_sub self value =
     (case checked_sub self value of Some address \<Rightarrow> Some address | None \<Rightarrow> None)"

definition PhysAddr_is_aligned :: "PhysAddr \<Rightarrow> usize \<Rightarrow> bool" where
  "PhysAddr_is_aligned self alignment \<longleftrightarrow>
     alignment \<noteq> 0 \<and> is_power_of_two alignment \<and> self AND (alignment - 1) = 0"

definition VirtAddr_checked_add :: "VirtAddr \<Rightarrow> usize \<Rightarrow> VirtAddr option" where
  "VirtAddr_checked_add self value =
     (case checked_add self value of Some address \<Rightarrow> Some address | None \<Rightarrow> None)"

definition VirtAddr_checked_sub :: "VirtAddr \<Rightarrow> usize \<Rightarrow> VirtAddr option" where
  "VirtAddr_checked_sub self value =
     (case checked_sub self value of Some address \<Rightarrow> Some address | None \<Rightarrow> None)"

definition VirtAddr_align_down :: "VirtAddr \<Rightarrow> usize \<Rightarrow> VirtAddr option" where
  "VirtAddr_align_down self alignment =
     (if alignment = 0 \<or> \<not> is_power_of_two alignment then None
      else Some (self AND usize_not (alignment - 1)))"

definition VirtAddr_align_up :: "VirtAddr \<Rightarrow> usize \<Rightarrow> VirtAddr option" where
  "VirtAddr_align_up self alignment =
     (if alignment = 0 \<or> \<not> is_power_of_two alignment then None
      else (let mask = alignment - 1 in
        case checked_add self mask of
          Some address \<Rightarrow> Some (address AND usize_not mask)
        | None \<Rightarrow> None))"

definition VirtAddr_is_aligned :: "VirtAddr \<Rightarrow> usize \<Rightarrow> bool" where
  "VirtAddr_is_aligned self alignment \<longleftrightarrow>
     alignment \<noteq> 0 \<and> is_power_of_two alignment \<and> self AND (alignment - 1) = 0"

section \<open>Physical ranges\<close>

record PhysRange =
  pr_start :: PhysAddr
  pr_end :: PhysAddr

definition PhysRange_new :: "PhysAddr \<Rightarrow> PhysAddr \<Rightarrow> PhysRange option" where
  "PhysRange_new start end =
     (if start \<le> end then Some \<lparr>pr_start = start, pr_end = end\<rparr> else None)"

definition PhysRange_from_start_size :: "PhysAddr \<Rightarrow> usize \<Rightarrow> PhysRange option" where
  "PhysRange_from_start_size start sz =
     (case PhysAddr_checked_add start sz of
        Some end \<Rightarrow> PhysRange_new start end
      | None \<Rightarrow> None)"

definition PhysRange_size :: "PhysRange \<Rightarrow> usize" where
  "PhysRange_size self = pr_end self - pr_start self"

definition PhysRange_is_empty :: "PhysRange \<Rightarrow> bool" where
  "PhysRange_is_empty self \<longleftrightarrow> pr_start self = pr_end self"

definition PhysRange_contains :: "PhysRange \<Rightarrow> PhysAddr \<Rightarrow> bool" where
  "PhysRange_contains self address \<longleftrightarrow> pr_start self \<le> address \<and> address < pr_end self"

definition PhysRange_overlaps :: "PhysRange \<Rightarrow> PhysRange \<Rightarrow> bool" where
  "PhysRange_overlaps self other \<longleftrightarrow>
     pr_start self < pr_end other \<and> pr_start other < pr_end self"

definition PhysRange_page_aligned_inside :: "PhysRange \<Rightarrow> PhysRange option" where
  "PhysRange_page_aligned_inside self =
     (case PhysAddr_align_up (pr_start self) PAGE_SIZE of
        None \<Rightarrow> None
      | Some start \<Rightarrow>
          (case PhysAddr_align_down (pr_end self) PAGE_SIZE of
             None \<Rightarrow> None
           | Some end \<Rightarrow> if end \<le> start then None else PhysRange_new start end))"

definition PhysRange_covering_pages :: "PhysRange \<Rightarrow> PhysRange option" where
  "PhysRange_covering_pages self =
     (case PhysAddr_align_down (pr_start self) PAGE_SIZE of
        None \<Rightarrow> None
      | Some start \<Rightarrow>
          (case PhysAddr_align_up (pr_end self) PAGE_SIZE of
             None \<Rightarrow> None
           | Some end \<Rightarrow> PhysRange_new start end))"

definition PhysRange_touches_or_overlaps :: "PhysRange \<Rightarrow> PhysRange \<Rightarrow> bool" where
  "PhysRange_touches_or_overlaps self other \<longleftrightarrow>
     pr_start self \<le> pr_end other \<and> pr_start other \<le> pr_end self"

definition PhysRange_span :: "PhysRange \<Rightarrow> PhysRange \<Rightarrow> PhysRange" where
  "PhysRange_span self other =
     \<lparr>pr_start = (if pr_start self \<le> pr_start other then pr_start self else pr_start other),
      pr_end = (if pr_end other \<le> pr_end self then pr_end self else pr_end other)\<rparr>"

definition PhysRange_is_page_aligned :: "PhysRange \<Rightarrow> bool" where
  "PhysRange_is_page_aligned self \<longleftrightarrow>
     pr_start self mod PAGE_SIZE = 0 \<and> pr_end self mod PAGE_SIZE = 0"

definition PhysRange_contains_range :: "PhysRange \<Rightarrow> PhysRange \<Rightarrow> bool" where
  "PhysRange_contains_range self other \<longleftrightarrow>
     pr_start self \<le> pr_start other \<and> pr_end other \<le> pr_end self"

section \<open>Virtual ranges\<close>

record VirtRange =
  vr_start :: VirtAddr
  vr_end :: VirtAddr

definition VirtRange_new :: "VirtAddr \<Rightarrow> VirtAddr \<Rightarrow> VirtRange option" where
  "VirtRange_new start end =
     (if start \<le> end then Some \<lparr>vr_start = start, vr_end = end\<rparr> else None)"

definition VirtRange_from_bounds :: "usize \<Rightarrow> usize \<Rightarrow> (VirtRange, 'e) result" where
  "VirtRange_from_bounds start end =
     (if start \<le> end then Ok \<lparr>vr_start = start, vr_end = end\<rparr> else Panic)"

definition VirtRange_from_start_size :: "VirtAddr \<Rightarrow> usize \<Rightarrow> VirtRange option" where
  "VirtRange_from_start_size start sz =
     (case VirtAddr_checked_add start sz of
        Some end \<Rightarrow> VirtRange_new start end
      | None \<Rightarrow> None)"

definition VirtRange_size :: "VirtRange \<Rightarrow> usize" where
  "VirtRange_size self = vr_end self - vr_start self"

definition VirtRange_is_empty :: "VirtRange \<Rightarrow> bool" where
  "VirtRange_is_empty self \<longleftrightarrow> vr_start self = vr_end self"

definition VirtRange_contains :: "VirtRange \<Rightarrow> VirtAddr \<Rightarrow> bool" where
  "VirtRange_contains self address \<longleftrightarrow> vr_start self \<le> address \<and> address < vr_end self"

definition VirtRange_contains_range :: "VirtRange \<Rightarrow> VirtRange \<Rightarrow> bool" where
  "VirtRange_contains_range self other \<longleftrightarrow>
     vr_start self \<le> vr_start other \<and> vr_end other \<le> vr_end self"

definition VirtRange_overlaps :: "VirtRange \<Rightarrow> VirtRange \<Rightarrow> bool" where
  "VirtRange_overlaps self other \<longleftrightarrow>
     vr_start self < vr_end other \<and> vr_start other < vr_end self"

definition VirtRange_last :: "VirtRange \<Rightarrow> VirtAddr option" where
  "VirtRange_last self = (if VirtRange_is_empty self then None else Some (vr_end self - 1))"

definition VirtRange_is_page_aligned :: "VirtRange \<Rightarrow> bool" where
  "VirtRange_is_page_aligned self \<longleftrightarrow>
     VirtAddr_is_aligned (vr_start self) PAGE_SIZE \<and> VirtAddr_is_aligned (vr_end self) PAGE_SIZE"

section \<open>Frames and pages\<close>

record PhysFrame =
  pf_start :: PhysAddr

definition PhysFrame_from_start_address :: "PhysAddr \<Rightarrow> PhysFrame option" where
  "PhysFrame_from_start_address start =
     (if PhysAddr_is_aligned start PAGE_SIZE then Some \<lparr>pf_start = start\<rparr> else None)"

definition PhysFrame_containing_address :: "PhysAddr \<Rightarrow> PhysFrame" where
  "PhysFrame_containing_address address = \<lparr>pf_start = address AND usize_not (PAGE_SIZE - 1)\<rparr>"

definition PhysFrame_number :: "PhysFrame \<Rightarrow> usize" where
  "PhysFrame_number self = pf_start self div PAGE_SIZE"

definition PhysFrame_range :: "PhysFrame \<Rightarrow> (PhysRange, 'e) result" where
  "PhysFrame_range self =
     rbind (expect (PhysAddr_checked_add (pf_start self) PAGE_SIZE)) (\<lambda>end.
       expect (PhysRange_new (pf_start self) end))"

record FrameBlock =
  fb_start :: PhysFrame
  fb_count :: usize

definition FrameBlock_new :: "PhysFrame \<Rightarrow> usize \<Rightarrow> FrameBlock option" where
  "FrameBlock_new start count =
     (if count = 0 then None
      else (case checked_mul count PAGE_SIZE of
        None \<Rightarrow> None
      | Some bytes \<Rightarrow>
          (if PhysAddr_checked_add (pf_start start) bytes = None then None
           else Some \<lparr>fb_start = start, fb_count = count\<rparr>)))"

definition FrameBlock_size :: "FrameBlock \<Rightarrow> (usize, 'e) result" where
  "FrameBlock_size self = mul_usize (fb_count self) PAGE_SIZE"

definition FrameBlock_range :: "FrameBlock \<Rightarrow> (PhysRange, 'e) result" where
  "FrameBlock_range self =
     (let start = pf_start (fb_start self) in
      rbind (FrameBlock_size self) (\<lambda>size.
      rbind (expect (PhysAddr_checked_add start size)) (\<lambda>end.
        expect (PhysRange_new start end))))"

record VirtPage =
  vp_start :: VirtAddr

definition VirtPage_from_start_address :: "VirtAddr \<Rightarrow> VirtPage option" where
  "VirtPage_from_start_address start =
     (if VirtAddr_is_aligned start PAGE_SIZE then Some \<lparr>vp_start = start\<rparr> else None)"

definition VirtPage_containing_address :: "VirtAddr \<Rightarrow> VirtPage" where
  "VirtPage_containing_address address = \<lparr>vp_start = address AND usize_not (PAGE_SIZE - 1)\<rparr>"

definition VirtPage_number :: "VirtPage \<Rightarrow> usize" where
  "VirtPage_number self = drop_bit PAGE_SHIFT (vp_start self)"

definition VirtPage_range :: "VirtPage \<Rightarrow> (VirtRange, 'e) result" where
  "VirtPage_range self = expect (VirtRange_from_start_size (vp_start self) PAGE_SIZE)"

section \<open>Virtual address space layout\<close>

record VirtualRegion =
  region_name :: string
  region_range :: VirtRange

datatype VirtualLayoutError =
    EmptyRegion string
  | UnalignedRegion string
  | AddressOutsideArchitecture string VirtAddr
  | OverlappingRegions string string
  | AddressOutsideRegion string VirtAddr string

text \<open>One iteration of the first loop of \<open>validate_regions\<close>.\<close>

definition validate_region ::
  "(VirtAddr \<Rightarrow> bool) \<Rightarrow> VirtualRegion \<Rightarrow> (unit, VirtualLayoutError) result" where
  "validate_region address_is_allowed region =
     (let range = region_range region; name = region_name region in
      if VirtRange_is_empty range then Err (EmptyRegion name)
      else if \<not> VirtRange_is_page_aligned range then Err (UnalignedRegion name)
      else if \<not> address_is_allowed (vr_start range)
        then Err (AddressOutsideArchitecture name (vr_start range))
      else rbind (expect (VirtRange_last range)) (\<lambda>last.
        if \<not> address_is_allowed last then Err (AddressOutsideArchitecture name last)
        else Ok ()))"

fun validate_each ::
  "(VirtAddr \<Rightarrow> bool) \<Rightarrow> VirtualRegion list \<Rightarrow> (unit, VirtualLayoutError) result" where
  "validate_each allowed [] = Ok ()"
| "validate_each allowed (r # rs) =
     rbind (validate_region allowed r) (\<lambda>_. validate_each allowed rs)"

fun validate_against ::
  "VirtualRegion \<Rightarrow> VirtualRegion list \<Rightarrow> (unit, VirtualLayoutError) result" where
  "validate_against left [] = Ok ()"
| "validate_against left (right # rs) =
     (if VirtRange_overlaps (region_range left) (region_range right)
      then Err (OverlappingRegions (region_name left) (region_name right))
      else validate_against left rs)"

fun validate_pairs :: "VirtualRegion list \<Rightarrow> (unit, VirtualLayoutError) result" where
  "validate_pairs [] = Ok ()"
| "validate_pairs (left # rs) = rbind (validate_against left rs) (\<lambda>_. validate_pairs rs)"

definition validate_regions ::
  "VirtualRegion list \<Rightarrow> (VirtAddr \<Rightarrow> bool) \<Rightarrow> (unit, VirtualLayoutError) result" where
  "validate_regions regions address_is_allowed =
     rbind (validate_each address_is_allowed regions) (\<lambda>_. validate_pairs regions)"

definition require_address_in_region ::
  "string \<Rightarrow> VirtAddr \<Rightarrow> string \<Rightarrow> VirtRange \<Rightarrow> (unit, VirtualLayoutError) result" where
  "require_address_in_region name address rname region =
     (if VirtRange_contains region address then Ok ()
      else Err (AddressOutsideRegion name address rname))"

section \<open>Lemmas: pages and alignment\<close>

lemma PAGE_SIZE_exp: "PAGE_SIZE = 2 ^ 12"
  by (simp add: PAGE_SIZE_def PAGE_SHIFT_def)

lemma PAGE_SIZE_eq: "PAGE_SIZE = 4096"
  by (simp add: PAGE_SIZE_exp)

lemma PAGE_SIZE_pos [simp]: "0 < PAGE_SIZE"
  by (simp add: PAGE_SIZE_eq)

lemma PAGE_SIZE_neq_0 [simp]: "PAGE_SIZE \<noteq> 0"
  by (simp add: PAGE_SIZE_eq)

lemma PAGE_SIZE_le_MAX [simp]: "PAGE_SIZE \<le> usize_MAX"
  by (simp add: PAGE_SIZE_eq usize_MAX_def)

lemma PAGE_SIZE_power_of_two [simp]: "is_power_of_two PAGE_SIZE"
  by (simp only: PAGE_SIZE_exp is_power_of_two_exp)

lemma PhysAddr_checked_add_eq [simp]: "PhysAddr_checked_add a n = checked_add a n"
  by (simp add: PhysAddr_checked_add_def checked_add_def checked_sub_def)

lemma VirtAddr_checked_add_eq [simp]: "VirtAddr_checked_add a n = checked_add a n"
  by (simp add: VirtAddr_checked_add_def checked_add_def checked_sub_def)

lemma PhysAddr_checked_sub_eq [simp]: "PhysAddr_checked_sub a n = checked_sub a n"
  by (simp add: PhysAddr_checked_sub_def checked_add_def checked_sub_def)

lemma VirtAddr_checked_sub_eq [simp]: "VirtAddr_checked_sub a n = checked_sub a n"
  by (simp add: VirtAddr_checked_sub_def checked_add_def checked_sub_def)

lemma PhysAddr_is_aligned_iff:
  "PhysAddr_is_aligned a al \<longleftrightarrow> is_power_of_two al \<and> al dvd a"
  by (auto simp: PhysAddr_is_aligned_def and_pred_mod [simplified] mod_eq_0_iff_dvd dest: is_power_of_two_pos)

lemma VirtAddr_is_aligned_iff:
  "VirtAddr_is_aligned a al \<longleftrightarrow> is_power_of_two al \<and> al dvd a"
  by (auto simp: VirtAddr_is_aligned_def and_pred_mod [simplified] mod_eq_0_iff_dvd dest: is_power_of_two_pos)

lemma PhysAddr_align_down_eq:
  assumes "a \<le> usize_MAX" "al \<le> usize_MAX"
  shows "PhysAddr_align_down a al = (if is_power_of_two al then Some (round_down al a) else None)"
  using assms by (simp add: PhysAddr_align_down_def align_mask_round)

lemma PhysAddr_align_up_eq:
  assumes "al \<le> usize_MAX"
  shows "PhysAddr_align_up a al =
    (if is_power_of_two al \<and> a + (al - 1) \<le> usize_MAX then Some (round_up al a) else None)"
  using assms by (auto simp: PhysAddr_align_up_def Let_def checked_add_def align_mask_round round_up_eq_down)

lemma VirtAddr_align_down_eq:
  assumes "a \<le> usize_MAX" "al \<le> usize_MAX"
  shows "VirtAddr_align_down a al = (if is_power_of_two al then Some (round_down al a) else None)"
  using assms
  by (auto simp: VirtAddr_align_down_def align_mask_round dest: is_power_of_two_pos)

lemma VirtAddr_align_up_eq:
  assumes "al \<le> usize_MAX"
  shows "VirtAddr_align_up a al =
    (if is_power_of_two al \<and> a + (al - 1) \<le> usize_MAX then Some (round_up al a) else None)"
  using assms
  by (auto simp: VirtAddr_align_up_def Let_def checked_add_def align_mask_round round_up_eq_down
      dest: is_power_of_two_pos)

lemma VirtRange_is_page_aligned_iff:
  "VirtRange_is_page_aligned r \<longleftrightarrow> PAGE_SIZE dvd vr_start r \<and> PAGE_SIZE dvd vr_end r"
  by (simp add: VirtRange_is_page_aligned_def VirtAddr_is_aligned_iff)

lemma PhysRange_is_page_aligned_iff:
  "PhysRange_is_page_aligned r \<longleftrightarrow> PAGE_SIZE dvd pr_start r \<and> PAGE_SIZE dvd pr_end r"
  by (simp add: PhysRange_is_page_aligned_def mod_eq_0_iff_dvd)

section \<open>Lemmas: ranges as sets of addresses\<close>

definition PhysRange_set :: "PhysRange \<Rightarrow> PhysAddr set" where
  "PhysRange_set r = {pr_start r..<pr_end r}"

definition VirtRange_set :: "VirtRange \<Rightarrow> VirtAddr set" where
  "VirtRange_set r = {vr_start r..<vr_end r}"

definition PhysRange_ok :: "PhysRange \<Rightarrow> bool" where
  "PhysRange_ok r \<longleftrightarrow> pr_start r \<le> pr_end r \<and> pr_end r \<le> usize_MAX"

definition VirtRange_ok :: "VirtRange \<Rightarrow> bool" where
  "VirtRange_ok r \<longleftrightarrow> vr_start r \<le> vr_end r \<and> vr_end r \<le> usize_MAX"

lemma PhysRange_new_eq_Some [simp]:
  "PhysRange_new a b = Some r \<longleftrightarrow> a \<le> b \<and> r = \<lparr>pr_start = a, pr_end = b\<rparr>"
  by (auto simp: PhysRange_new_def)

lemma VirtRange_new_eq_Some [simp]:
  "VirtRange_new a b = Some r \<longleftrightarrow> a \<le> b \<and> r = \<lparr>vr_start = a, vr_end = b\<rparr>"
  by (auto simp: VirtRange_new_def)

lemma PhysRange_contains_iff: "PhysRange_contains r a \<longleftrightarrow> a \<in> PhysRange_set r"
  by (simp add: PhysRange_contains_def PhysRange_set_def)

lemma VirtRange_contains_iff: "VirtRange_contains r a \<longleftrightarrow> a \<in> VirtRange_set r"
  by (simp add: VirtRange_contains_def VirtRange_set_def)

lemma PhysRange_overlaps_iff:
  "pr_start r < pr_end r \<Longrightarrow> pr_start s < pr_end s \<Longrightarrow>
   PhysRange_overlaps r s \<longleftrightarrow> PhysRange_set r \<inter> PhysRange_set s \<noteq> {}"
  by (auto simp: PhysRange_overlaps_def PhysRange_set_def Int_atLeastLessThan)

lemma VirtRange_overlaps_iff:
  "vr_start r < vr_end r \<Longrightarrow> vr_start s < vr_end s \<Longrightarrow>
   VirtRange_overlaps r s \<longleftrightarrow> VirtRange_set r \<inter> VirtRange_set s \<noteq> {}"
  by (auto simp: VirtRange_overlaps_def VirtRange_set_def Int_atLeastLessThan)

lemma VirtRange_overlaps_sym: "VirtRange_overlaps r s \<longleftrightarrow> VirtRange_overlaps s r"
  by (auto simp: VirtRange_overlaps_def)

lemma VirtRange_contains_range_iff:
  "vr_start s < vr_end s \<Longrightarrow>
   VirtRange_contains_range r s \<longleftrightarrow> VirtRange_set s \<subseteq> VirtRange_set r"
  by (auto simp: VirtRange_contains_range_def VirtRange_set_def)

lemma PhysRange_set_empty_iff: "PhysRange_set r = {} \<longleftrightarrow> pr_end r \<le> pr_start r"
  by (simp add: PhysRange_set_def not_less)

lemma card_PhysRange_set: "card (PhysRange_set r) = PhysRange_size r"
  by (simp add: PhysRange_set_def PhysRange_size_def)

lemma PhysRange_page_aligned_inside_eq:
  assumes "PhysRange_ok r"
  shows "PhysRange_page_aligned_inside r =
    (if pr_start r + (PAGE_SIZE - 1) \<le> usize_MAX
        \<and> round_up PAGE_SIZE (pr_start r) < round_down PAGE_SIZE (pr_end r)
     then Some \<lparr>pr_start = round_up PAGE_SIZE (pr_start r), pr_end = round_down PAGE_SIZE (pr_end r)\<rparr>
     else None)"
  using assms
  by (simp add: PhysRange_page_aligned_inside_def PhysAddr_align_up_eq PhysAddr_align_down_eq
      PhysRange_ok_def PhysRange_new_def)

lemma PhysRange_covering_pages_eq:
  assumes "PhysRange_ok r"
  shows "PhysRange_covering_pages r =
    (if pr_end r + (PAGE_SIZE - 1) \<le> usize_MAX
     then Some \<lparr>pr_start = round_down PAGE_SIZE (pr_start r), pr_end = round_up PAGE_SIZE (pr_end r)\<rparr>
     else None)"
proof -
  have "round_down PAGE_SIZE (pr_start r) \<le> round_up PAGE_SIZE (pr_end r)"
    using assms round_down_le [of PAGE_SIZE "pr_start r"] le_round_up [of PAGE_SIZE "pr_end r"]
    by (simp add: PhysRange_ok_def)
  then show ?thesis
    using assms
    by (simp add: PhysRange_covering_pages_def PhysAddr_align_up_eq PhysAddr_align_down_eq
        PhysRange_ok_def PhysRange_new_def)
qed

end
