(* ===== verification/Mapping_Options.thy ===== *)
theory Mapping_Options
  imports Address
begin

text \<open>
  Architecture-independent mapping semantics, \<open>mm/src/paging/mapping.rs\<close>: permission bits, memory
  types and the policy every mapping passes before it reaches a page table.
\<close>

type_synonym PagePermissions = "8 word"

definition PagePermissions_READ :: PagePermissions where
  "PagePermissions_READ = push_bit 0 1"

definition PagePermissions_WRITE :: PagePermissions where
  "PagePermissions_WRITE = push_bit 1 1"

definition PagePermissions_EXECUTE :: PagePermissions where
  "PagePermissions_EXECUTE = push_bit 2 1"

definition PagePermissions_empty :: PagePermissions where
  "PagePermissions_empty = 0"

definition PagePermissions_read_only :: PagePermissions where
  "PagePermissions_read_only = PagePermissions_READ"

definition PagePermissions_read_write :: PagePermissions where
  "PagePermissions_read_write = PagePermissions_READ OR PagePermissions_WRITE"

definition PagePermissions_read_execute :: PagePermissions where
  "PagePermissions_read_execute = PagePermissions_READ OR PagePermissions_EXECUTE"

definition PagePermissions_read_write_execute :: PagePermissions where
  "PagePermissions_read_write_execute =
     PagePermissions_READ OR PagePermissions_WRITE OR PagePermissions_EXECUTE"

definition PagePermissions_union :: "PagePermissions \<Rightarrow> PagePermissions \<Rightarrow> PagePermissions" where
  "PagePermissions_union self other = self OR other"

definition PagePermissions_contains :: "PagePermissions \<Rightarrow> PagePermissions \<Rightarrow> bool" where
  "PagePermissions_contains self permission \<longleftrightarrow> self AND permission = permission"

definition PagePermissions_is_empty :: "PagePermissions \<Rightarrow> bool" where
  "PagePermissions_is_empty self \<longleftrightarrow> self = 0"

definition PagePermissions_is_readable :: "PagePermissions \<Rightarrow> bool" where
  "PagePermissions_is_readable self = PagePermissions_contains self PagePermissions_READ"

definition PagePermissions_is_writable :: "PagePermissions \<Rightarrow> bool" where
  "PagePermissions_is_writable self = PagePermissions_contains self PagePermissions_WRITE"

definition PagePermissions_is_executable :: "PagePermissions \<Rightarrow> bool" where
  "PagePermissions_is_executable self = PagePermissions_contains self PagePermissions_EXECUTE"

datatype MemoryType = Normal | Device | Uncached

datatype MappingOptionsError =
    NoPermissions
  | WritableWithoutRead
  | UserGlobalMapping
  | WritableExecutableMapping
  | ExecutableDeviceMapping

record MappingOptions =
  mo_permissions :: PagePermissions
  mo_memory_type :: MemoryType
  mo_user :: bool
  mo_global :: bool

definition MappingOptions_new :: "PagePermissions \<Rightarrow> MappingOptions" where
  "MappingOptions_new permissions =
     \<lparr>mo_permissions = permissions, mo_memory_type = Normal, mo_user = False, mo_global = False\<rparr>"

definition MappingOptions_with_memory_type :: "MemoryType \<Rightarrow> MappingOptions \<Rightarrow> MappingOptions" where
  "MappingOptions_with_memory_type memory_type self = self\<lparr>mo_memory_type := memory_type\<rparr>"

definition MappingOptions_with_user :: "bool \<Rightarrow> MappingOptions \<Rightarrow> MappingOptions" where
  "MappingOptions_with_user user self = self\<lparr>mo_user := user\<rparr>"

definition MappingOptions_with_global :: "bool \<Rightarrow> MappingOptions \<Rightarrow> MappingOptions" where
  "MappingOptions_with_global global self = self\<lparr>mo_global := global\<rparr>"

definition MappingOptions_validate :: "MappingOptions \<Rightarrow> (unit, MappingOptionsError) result" where
  "MappingOptions_validate self =
     (let p = mo_permissions self in
      if PagePermissions_is_empty p then Err NoPermissions
      else if PagePermissions_is_writable p \<and> \<not> PagePermissions_is_readable p
        then Err WritableWithoutRead
      else if mo_user self \<and> mo_global self then Err UserGlobalMapping
      else if \<not> mo_user self \<and> PagePermissions_is_writable p \<and> PagePermissions_is_executable p
        then Err WritableExecutableMapping
      else if mo_memory_type self = Device \<and> PagePermissions_is_executable p
        then Err ExecutableDeviceMapping
      else Ok ())"

definition MappingOptions_kernel_code :: MappingOptions where
  "MappingOptions_kernel_code =
     MappingOptions_with_global True (MappingOptions_new PagePermissions_read_execute)"

definition MappingOptions_kernel_rodata :: MappingOptions where
  "MappingOptions_kernel_rodata =
     MappingOptions_with_global True (MappingOptions_new PagePermissions_read_only)"

definition MappingOptions_kernel_data :: MappingOptions where
  "MappingOptions_kernel_data =
     MappingOptions_with_global True (MappingOptions_new PagePermissions_read_write)"

definition MappingOptions_kernel_device :: MappingOptions where
  "MappingOptions_kernel_device =
     MappingOptions_with_global True
       (MappingOptions_with_memory_type Device (MappingOptions_new PagePermissions_read_write))"

definition MappingOptions_user_code :: MappingOptions where
  "MappingOptions_user_code =
     MappingOptions_with_user True (MappingOptions_new PagePermissions_read_execute)"

definition MappingOptions_user_data :: MappingOptions where
  "MappingOptions_user_data =
     MappingOptions_with_user True (MappingOptions_new PagePermissions_read_write)"

lemmas permission_defs = PagePermissions_READ_def PagePermissions_WRITE_def PagePermissions_EXECUTE_def
  PagePermissions_empty_def PagePermissions_read_only_def PagePermissions_read_write_def
  PagePermissions_read_execute_def PagePermissions_read_write_execute_def PagePermissions_contains_def
  PagePermissions_is_empty_def PagePermissions_is_readable_def PagePermissions_is_writable_def
  PagePermissions_is_executable_def PagePermissions_union_def

lemmas mapping_option_defs = MappingOptions_new_def MappingOptions_with_memory_type_def
  MappingOptions_with_user_def MappingOptions_with_global_def

text \<open>Every predefined kernel and user option set passes the policy.\<close>

lemma predefined_options_valid:
  "o' \<in> {MappingOptions_kernel_code, MappingOptions_kernel_rodata, MappingOptions_kernel_data,
     MappingOptions_kernel_device, MappingOptions_user_code, MappingOptions_user_data} \<Longrightarrow>
   MappingOptions_validate o' = Ok ()"
  by (auto simp: MappingOptions_validate_def Let_def permission_defs mapping_option_defs
      MappingOptions_kernel_code_def MappingOptions_kernel_rodata_def MappingOptions_kernel_data_def
      MappingOptions_kernel_device_def MappingOptions_user_code_def MappingOptions_user_data_def)

text \<open>Write-xor-execute holds for every accepted kernel mapping.\<close>

lemma validated_kernel_mapping_wx:
  "MappingOptions_validate mo = Ok () \<Longrightarrow> \<not> mo_user mo \<Longrightarrow>
   \<not> (PagePermissions_is_writable (mo_permissions mo) \<and> PagePermissions_is_executable (mo_permissions mo))"
  by (auto simp: MappingOptions_validate_def Let_def split: if_splits)

end
