(* ===== verification/Vma.thy ===== *)
theory Vma
  imports Mapping_Options
begin

text \<open>
  Virtual memory areas and the sorted area set of an address space, \<open>mm/src/vma.rs\<close>.

  \<open>VmAreaSet\<close> keeps the growable array of areas and the const generic \<open>CAPACITY\<close>. The answer of the
  fallible \<open>try_reserve\<close> call of an operation is the Boolean argument \<open>reserve_ok\<close>: the global
  allocator may refuse at any time. The binary searches are recursive functions on the bounds of the
  search window; the \<open>for\<close> loops are recursive functions on the rest of the array.

  The abstraction \<open>vma_lookup\<close> maps an address to the flags and kind of the area that holds it. The
  lemmas show that the invariant (valid, page-aligned, sorted, disjoint areas, at most \<open>CAPACITY\<close>) is
  kept by every operation, that the operations act on the abstraction pointwise, that the binary
  search agrees with a linear scan, and that \<open>find_free_range\<close> returns the lowest suitable gap.
\<close>

section \<open>Flags\<close>

type_synonym VmAreaFlags = "16 word"

definition VmAreaFlags_READ :: VmAreaFlags where "VmAreaFlags_READ = push_bit 0 1"
definition VmAreaFlags_WRITE :: VmAreaFlags where "VmAreaFlags_WRITE = push_bit 1 1"
definition VmAreaFlags_EXECUTE :: VmAreaFlags where "VmAreaFlags_EXECUTE = push_bit 2 1"
definition VmAreaFlags_USER :: VmAreaFlags where "VmAreaFlags_USER = push_bit 3 1"
definition VmAreaFlags_SHARED :: VmAreaFlags where "VmAreaFlags_SHARED = push_bit 4 1"
definition VmAreaFlags_PRIVATE :: VmAreaFlags where "VmAreaFlags_PRIVATE = push_bit 5 1"
definition VmAreaFlags_COPY_ON_WRITE :: VmAreaFlags where "VmAreaFlags_COPY_ON_WRITE = push_bit 6 1"
definition VmAreaFlags_GROW_DOWN :: VmAreaFlags where "VmAreaFlags_GROW_DOWN = push_bit 7 1"
definition VmAreaFlags_LOCKED :: VmAreaFlags where "VmAreaFlags_LOCKED = push_bit 8 1"
definition VmAreaFlags_DEVICE :: VmAreaFlags where "VmAreaFlags_DEVICE = push_bit 9 1"

definition VmAreaFlags_empty :: VmAreaFlags where
  "VmAreaFlags_empty = 0"

definition VmAreaFlags_kernel_rw :: VmAreaFlags where
  "VmAreaFlags_kernel_rw = VmAreaFlags_READ OR VmAreaFlags_WRITE"

definition VmAreaFlags_user_rw :: VmAreaFlags where
  "VmAreaFlags_user_rw =
     VmAreaFlags_READ OR VmAreaFlags_WRITE OR VmAreaFlags_USER OR VmAreaFlags_PRIVATE"

definition VmAreaFlags_user_rx :: VmAreaFlags where
  "VmAreaFlags_user_rx =
     VmAreaFlags_READ OR VmAreaFlags_EXECUTE OR VmAreaFlags_USER OR VmAreaFlags_PRIVATE"

definition VmAreaFlags_union :: "VmAreaFlags \<Rightarrow> VmAreaFlags \<Rightarrow> VmAreaFlags" where
  "VmAreaFlags_union self other = self OR other"

definition VmAreaFlags_without :: "VmAreaFlags \<Rightarrow> VmAreaFlags \<Rightarrow> VmAreaFlags" where
  "VmAreaFlags_without self other = self AND NOT other"

definition VmAreaFlags_access_only :: "VmAreaFlags \<Rightarrow> VmAreaFlags" where
  "VmAreaFlags_access_only self =
     self AND (VmAreaFlags_READ OR VmAreaFlags_WRITE OR VmAreaFlags_EXECUTE)"

definition VmAreaFlags_with_access :: "VmAreaFlags \<Rightarrow> VmAreaFlags \<Rightarrow> VmAreaFlags" where
  "VmAreaFlags_with_access self access =
     VmAreaFlags_union
       (VmAreaFlags_without self
         (VmAreaFlags_union (VmAreaFlags_union VmAreaFlags_READ VmAreaFlags_WRITE) VmAreaFlags_EXECUTE))
       (VmAreaFlags_access_only access)"

definition VmAreaFlags_contains :: "VmAreaFlags \<Rightarrow> VmAreaFlags \<Rightarrow> bool" where
  "VmAreaFlags_contains self other \<longleftrightarrow> self AND other = other"

definition VmAreaFlags_is_readable :: "VmAreaFlags \<Rightarrow> bool" where
  "VmAreaFlags_is_readable self = VmAreaFlags_contains self VmAreaFlags_READ"

definition VmAreaFlags_is_writable :: "VmAreaFlags \<Rightarrow> bool" where
  "VmAreaFlags_is_writable self = VmAreaFlags_contains self VmAreaFlags_WRITE"

definition VmAreaFlags_is_executable :: "VmAreaFlags \<Rightarrow> bool" where
  "VmAreaFlags_is_executable self = VmAreaFlags_contains self VmAreaFlags_EXECUTE"

definition VmAreaFlags_is_user :: "VmAreaFlags \<Rightarrow> bool" where
  "VmAreaFlags_is_user self = VmAreaFlags_contains self VmAreaFlags_USER"

definition VmAreaFlags_is_copy_on_write :: "VmAreaFlags \<Rightarrow> bool" where
  "VmAreaFlags_is_copy_on_write self = VmAreaFlags_contains self VmAreaFlags_COPY_ON_WRITE"

section \<open>Areas\<close>

datatype VmAreaKind =
    Anonymous
  | Heap
  | Stack
  | FileBacked u64 u64
  | DeviceArea PhysAddr
  | Kernel
  | Vmalloc
  | IoRemap PhysAddr

record VmArea =
  va_range :: VirtRange
  va_flags :: VmAreaFlags
  va_kind :: VmAreaKind

definition VmArea_new :: "VirtRange \<Rightarrow> VmAreaFlags \<Rightarrow> VmAreaKind \<Rightarrow> VmArea" where
  "VmArea_new rng flags kind = \<lparr>va_range = rng, va_flags = flags, va_kind = kind\<rparr>"

definition VmArea_contains :: "VmArea \<Rightarrow> VirtAddr \<Rightarrow> bool" where
  "VmArea_contains self address = VirtRange_contains (va_range self) address"

definition VmArea_mapping_options :: "VmArea \<Rightarrow> MappingOptions" where
  "VmArea_mapping_options self =
     (let flags = va_flags self;
          permissions =
            (case (VmAreaFlags_is_readable flags, VmAreaFlags_is_writable flags,
                   VmAreaFlags_is_executable flags) of
               (True, True, True) \<Rightarrow> PagePermissions_read_write_execute
             | (True, True, False) \<Rightarrow> PagePermissions_read_write
             | (True, False, True) \<Rightarrow> PagePermissions_read_execute
             | (True, False, False) \<Rightarrow> PagePermissions_read_only
             | _ \<Rightarrow> PagePermissions_empty)
      in MappingOptions_with_memory_type
           (if VmAreaFlags_contains flags VmAreaFlags_DEVICE then Device else Normal)
           (MappingOptions_with_user (VmAreaFlags_is_user flags) (MappingOptions_new permissions)))"

datatype VmAreaError =
    EmptyRange
  | UnalignedRange
  | InvalidFlags
  | AreaCapacityExceeded
  | MetadataOutOfMemory
  | Overlap
  | AreaNotFound
  | AddressOverflow

definition validate_area :: "VmArea \<Rightarrow> (unit, VmAreaError) result" where
  "validate_area area =
     (let flags = va_flags area in
      if VirtRange_is_empty (va_range area) then Err EmptyRange
      else if \<not> VirtRange_is_page_aligned (va_range area) then Err UnalignedRange
      else if VmAreaFlags_is_writable flags \<and> \<not> VmAreaFlags_is_readable flags then Err InvalidFlags
      else if VmAreaFlags_contains flags VmAreaFlags_SHARED
           \<and> VmAreaFlags_contains flags VmAreaFlags_PRIVATE then Err InvalidFlags
      else if VmAreaFlags_is_copy_on_write flags
           \<and> \<not> VmAreaFlags_contains flags VmAreaFlags_PRIVATE then Err InvalidFlags
      else Ok ())"

definition validate_operation_range :: "VirtRange \<Rightarrow> (unit, VmAreaError) result" where
  "validate_operation_range rng =
     (if VirtRange_is_empty rng then Err EmptyRange
      else if \<not> VirtRange_is_page_aligned rng then Err UnalignedRange
      else Ok ())"

definition vma_align_up :: "usize \<Rightarrow> usize \<Rightarrow> usize option" where
  "vma_align_up value alignment =
     (if alignment = 0 \<or> \<not> is_power_of_two alignment then None
      else map_option (\<lambda>v. v AND usize_not (alignment - 1)) (checked_add value (alignment - 1)))"

section \<open>The area set\<close>

record VmAreaSet =
  vas_capacity :: usize
  vas_areas :: "VmArea list"

definition VmAreaSet_new :: "usize \<Rightarrow> VmAreaSet" where
  "VmAreaSet_new CAPACITY = \<lparr>vas_capacity = CAPACITY, vas_areas = []\<rparr>"

definition VmAreaSet_len :: "VmAreaSet \<Rightarrow> usize" where
  "VmAreaSet_len self = length (vas_areas self)"

definition VmAreaSet_is_empty :: "VmAreaSet \<Rightarrow> bool" where
  "VmAreaSet_is_empty self \<longleftrightarrow> vas_areas self = []"

definition VmAreaSet_area_at :: "VmAreaSet \<Rightarrow> usize \<Rightarrow> VmArea option" where
  "VmAreaSet_area_at self index =
     (if index < length (vas_areas self) then Some (vas_areas self ! index) else None)"

function insertion_index_loop :: "VmArea list \<Rightarrow> VirtAddr \<Rightarrow> usize \<Rightarrow> usize \<Rightarrow> usize" where
  "insertion_index_loop areas start left right =
     (if left < right then
        (let mid = left + (right - left) div 2; area = areas ! mid in
         if start < vr_start (va_range area)
         then insertion_index_loop areas start left mid
         else insertion_index_loop areas start (mid + 1) right)
      else left)"
  by pat_completeness auto
termination
  by (relation "measure (\<lambda>(areas, start, left, right). right - left)") auto

declare insertion_index_loop.simps [simp del]

definition VmAreaSet_insertion_index :: "VmAreaSet \<Rightarrow> VirtAddr \<Rightarrow> usize" where
  "VmAreaSet_insertion_index self start =
     insertion_index_loop (vas_areas self) start 0 (VmAreaSet_len self)"

definition VmAreaSet_find_exact_index :: "VmAreaSet \<Rightarrow> VirtRange \<Rightarrow> usize option" where
  "VmAreaSet_find_exact_index self rng = position (\<lambda>area. va_range area = rng) (vas_areas self)"

definition VmAreaSet_insert :: "bool \<Rightarrow> VmArea \<Rightarrow> (VmAreaSet, unit, VmAreaError) action" where
  "VmAreaSet_insert reserve_ok area self =
     (case validate_area area of
        Err e \<Rightarrow> (Err e, self)
      | Panic \<Rightarrow> (Panic, self)
      | Ok _ \<Rightarrow>
      (let rng = va_range area; flags = va_flags area; kind = va_kind area;
           areas = vas_areas self;
           index = VmAreaSet_insertion_index self (vr_start rng);
           previous = areas ! (index - 1); next = areas ! index in
       if 0 < index \<and> VirtRange_overlaps (va_range previous) rng then (Err Overlap, self)
       else if index < length areas \<and> VirtRange_overlaps (va_range next) rng then (Err Overlap, self)
       else
         (let coalescible = (kind = Anonymous);
              merge_previous = (coalescible \<and> 0 < index
                \<and> vr_end (va_range previous) = vr_start rng
                \<and> va_flags previous = flags \<and> va_kind previous = kind);
              merge_next = (coalescible \<and> index < length areas
                \<and> vr_end rng = vr_start (va_range next)
                \<and> va_flags next = flags \<and> va_kind next = kind) in
          if merge_previous \<and> merge_next then
            (case VirtRange_new (vr_start (va_range previous)) (vr_end (va_range next)) of
               None \<Rightarrow> (Err AddressOverflow, self)
             | Some merged \<Rightarrow>
                 (Ok (), self\<lparr>vas_areas :=
                    vec_remove index (areas[index - 1 := VmArea_new merged flags kind])\<rparr>))
          else if merge_previous then
            (case VirtRange_new (vr_start (va_range previous)) (vr_end rng) of
               None \<Rightarrow> (Err AddressOverflow, self)
             | Some merged \<Rightarrow>
                 (Ok (), self\<lparr>vas_areas := areas[index - 1 := VmArea_new merged flags kind]\<rparr>))
          else if merge_next then
            (case VirtRange_new (vr_start rng) (vr_end (va_range next)) of
               None \<Rightarrow> (Err AddressOverflow, self)
             | Some merged \<Rightarrow>
                 (Ok (), self\<lparr>vas_areas := areas[index := VmArea_new merged flags kind]\<rparr>))
          else if length areas = vas_capacity self then (Err AreaCapacityExceeded, self)
          else if \<not> reserve_ok then (Err MetadataOutOfMemory, self)
          else (Ok (), self\<lparr>vas_areas := vec_insert index area areas\<rparr>))))"

definition VmAreaSet_remove_exact :: "VirtRange \<Rightarrow> (VmAreaSet, VmArea, VmAreaError) action" where
  "VmAreaSet_remove_exact rng self =
     (case VmAreaSet_find_exact_index self rng of
        None \<Rightarrow> (Err AreaNotFound, self)
      | Some index \<Rightarrow>
          (Ok (vas_areas self ! index), self\<lparr>vas_areas := vec_remove index (vas_areas self)\<rparr>))"

definition append_area :: "VmArea list \<Rightarrow> VmArea \<Rightarrow> usize \<Rightarrow> (VmArea list, VmAreaError) result" where
  "append_area areas area capacity =
     rbind (validate_area area) (\<lambda>_.
       let rng = va_range area; previous = last areas; prng = va_range previous in
       if areas \<noteq> [] \<and> (VirtRange_overlaps prng rng \<or> vr_start rng < vr_start prng) then Err Overlap
       else if areas \<noteq> [] \<and> vr_end prng = vr_start rng
            \<and> va_flags previous = va_flags area \<and> va_kind previous = va_kind area then
         (case VirtRange_new (vr_start prng) (vr_end rng) of
            None \<Rightarrow> Err AddressOverflow
          | Some merged \<Rightarrow>
              Ok (butlast areas @ [VmArea_new merged (va_flags area) (va_kind area)]))
       else if length areas = capacity then Err AreaCapacityExceeded
       else Ok (areas @ [area]))"

text \<open>The parts of an overlapped area left and right of the operation's range.\<close>

definition append_left ::
  "VirtRange \<Rightarrow> VmArea \<Rightarrow> usize \<Rightarrow> VmArea list \<Rightarrow> (VmArea list, VmAreaError) result" where
  "append_left rng area capacity rebuilt =
     (if vr_start (va_range area) < vr_start rng then
        rbind (ok_or (VirtRange_new (vr_start (va_range area)) (vr_start rng)) AddressOverflow) (\<lambda>left.
          append_area rebuilt (VmArea_new left (va_flags area) (va_kind area)) capacity)
      else Ok rebuilt)"

definition append_right ::
  "VirtRange \<Rightarrow> VmArea \<Rightarrow> usize \<Rightarrow> VmArea list \<Rightarrow> (VmArea list, VmAreaError) result" where
  "append_right rng area capacity rebuilt =
     (if vr_end rng < vr_end (va_range area) then
        rbind (ok_or (VirtRange_new (vr_end rng) (vr_end (va_range area))) AddressOverflow) (\<lambda>right.
          append_area rebuilt (VmArea_new right (va_flags area) (va_kind area)) capacity)
      else Ok rebuilt)"

fun remove_range_loop ::
  "VirtRange \<Rightarrow> usize \<Rightarrow> VmArea list \<Rightarrow> VmArea list \<Rightarrow> usize \<Rightarrow>
   (VmArea list \<times> usize, VmAreaError) result" where
  "remove_range_loop rng capacity [] rebuilt affected = Ok (rebuilt, affected)"
| "remove_range_loop rng capacity (area # rest) rebuilt affected =
     (if \<not> VirtRange_overlaps (va_range area) rng then
        rbind (append_area rebuilt area capacity) (\<lambda>rebuilt.
          remove_range_loop rng capacity rest rebuilt affected)
      else
        rbind (append_left rng area capacity rebuilt) (\<lambda>rebuilt.
        rbind (append_right rng area capacity rebuilt) (\<lambda>rebuilt.
          remove_range_loop rng capacity rest rebuilt (affected + 1))))"

definition VmAreaSet_remove_range ::
  "bool \<Rightarrow> VirtRange \<Rightarrow> (VmAreaSet, usize, VmAreaError) action" where
  "VmAreaSet_remove_range reserve_ok rng self =
     (case rbind (validate_operation_range rng) (\<lambda>_.
             if \<not> reserve_ok then Err MetadataOutOfMemory
             else remove_range_loop rng (vas_capacity self) (vas_areas self) [] 0) of
        Ok (rebuilt, affected) \<Rightarrow> (Ok affected, self\<lparr>vas_areas := rebuilt\<rparr>)
      | Err e \<Rightarrow> (Err e, self)
      | Panic \<Rightarrow> (Panic, self))"

text \<open>The first loop of \<open>protect_range\<close>: the cursor and the count after the scan.\<close>

fun protect_scan ::
  "VirtRange \<Rightarrow> VmArea list \<Rightarrow> VirtAddr \<Rightarrow> usize \<Rightarrow> (VirtAddr \<times> usize, VmAreaError) result" where
  "protect_scan rng [] cursor affected = Ok (cursor, affected)"
| "protect_scan rng (area # rest) cursor affected =
     (if vr_end (va_range area) \<le> cursor \<or> vr_end rng \<le> vr_start (va_range area)
      then protect_scan rng rest cursor affected
      else if cursor < vr_start (va_range area) then Err AreaNotFound
      else (let cursor = min (vr_end (va_range area)) (vr_end rng) in
            if cursor = vr_end rng then Ok (cursor, affected + 1)
            else protect_scan rng rest cursor (affected + 1)))"

definition append_protected ::
  "VirtRange \<Rightarrow> VmAreaFlags \<Rightarrow> VmArea \<Rightarrow> usize \<Rightarrow> VmArea list \<Rightarrow> (VmArea list, VmAreaError) result"
  where
  "append_protected rng access area capacity rebuilt =
     rbind (ok_or (VirtRange_new (max (vr_start (va_range area)) (vr_start rng))
                    (min (vr_end (va_range area)) (vr_end rng))) AddressOverflow) (\<lambda>protected.
       append_area rebuilt
         (VmArea_new protected (VmAreaFlags_with_access (va_flags area) access) (va_kind area))
         capacity)"

fun protect_range_loop ::
  "VirtRange \<Rightarrow> VmAreaFlags \<Rightarrow> usize \<Rightarrow> VmArea list \<Rightarrow> VmArea list \<Rightarrow>
   (VmArea list, VmAreaError) result" where
  "protect_range_loop rng access capacity [] rebuilt = Ok rebuilt"
| "protect_range_loop rng access capacity (area # rest) rebuilt =
     (if \<not> VirtRange_overlaps (va_range area) rng then
        rbind (append_area rebuilt area capacity) (\<lambda>rebuilt.
          protect_range_loop rng access capacity rest rebuilt)
      else
        rbind (append_left rng area capacity rebuilt) (\<lambda>rebuilt.
        rbind (append_protected rng access area capacity rebuilt) (\<lambda>rebuilt.
        rbind (append_right rng area capacity rebuilt) (\<lambda>rebuilt.
          protect_range_loop rng access capacity rest rebuilt))))"

definition VmAreaSet_protect_range ::
  "bool \<Rightarrow> VirtRange \<Rightarrow> VmAreaFlags \<Rightarrow> (VmAreaSet, usize, VmAreaError) action" where
  "VmAreaSet_protect_range reserve_ok rng access self =
     (case rbind (validate_operation_range rng) (\<lambda>_.
             if access \<noteq> VmAreaFlags_access_only access then Err InvalidFlags
             else rbind (protect_scan rng (vas_areas self) (vr_start rng) 0) (\<lambda>(cursor, affected).
               if cursor \<noteq> vr_end rng then Err AreaNotFound
               else if \<not> reserve_ok then Err MetadataOutOfMemory
               else rbind (protect_range_loop rng access (vas_capacity self) (vas_areas self) [])
                      (\<lambda>rebuilt. Ok (rebuilt, affected)))) of
        Ok (rebuilt, affected) \<Rightarrow> (Ok affected, self\<lparr>vas_areas := rebuilt\<rparr>)
      | Err e \<Rightarrow> (Err e, self)
      | Panic \<Rightarrow> (Panic, self))"

fun remove_kind_loop ::
  "VmAreaKind \<Rightarrow> usize \<Rightarrow> VmArea list \<Rightarrow> VmArea list \<Rightarrow> usize \<Rightarrow>
   (VmArea list \<times> usize, VmAreaError) result" where
  "remove_kind_loop kind capacity [] rebuilt removed = Ok (rebuilt, removed)"
| "remove_kind_loop kind capacity (area # rest) rebuilt removed =
     (if va_kind area = kind then remove_kind_loop kind capacity rest rebuilt (removed + 1)
      else rbind (append_area rebuilt area capacity) (\<lambda>rebuilt.
        remove_kind_loop kind capacity rest rebuilt removed))"

definition VmAreaSet_remove_kind ::
  "bool \<Rightarrow> VmAreaKind \<Rightarrow> (VmAreaSet, usize, VmAreaError) action" where
  "VmAreaSet_remove_kind reserve_ok kind self =
     (case (if \<not> reserve_ok then Err MetadataOutOfMemory
            else remove_kind_loop kind (vas_capacity self) (vas_areas self) [] 0) of
        Ok (rebuilt, removed) \<Rightarrow> (Ok removed, self\<lparr>vas_areas := rebuilt\<rparr>)
      | Err e \<Rightarrow> (Err e, self)
      | Panic \<Rightarrow> (Panic, self))"

function find_loop :: "VmArea list \<Rightarrow> VirtAddr \<Rightarrow> usize \<Rightarrow> usize \<Rightarrow> VmArea option" where
  "find_loop areas address left right =
     (if left < right then
        (let mid = left + (right - left) div 2; area = areas ! mid in
         if VirtRange_contains (va_range area) address then Some area
         else if address < vr_start (va_range area) then find_loop areas address left mid
         else find_loop areas address (mid + 1) right)
      else None)"
  by pat_completeness auto
termination
  by (relation "measure (\<lambda>(areas, address, left, right). right - left)") auto

declare find_loop.simps [simp del]

definition VmAreaSet_find :: "VmAreaSet \<Rightarrow> VirtAddr \<Rightarrow> VmArea option" where
  "VmAreaSet_find self address = find_loop (vas_areas self) address 0 (VmAreaSet_len self)"

text \<open>The \<open>for\<close> loop of \<open>find_free_range\<close>: \<open>Inl\<close> a gap to return, \<open>Inr\<close> the next candidate.\<close>

fun find_free_range_loop ::
  "VirtRange \<Rightarrow> usize \<Rightarrow> usize \<Rightarrow> VmArea list \<Rightarrow> VirtAddr \<Rightarrow> (VirtRange + VirtAddr, VmAreaError) result"
  where
  "find_free_range_loop search sz alignment [] candidate = Ok (Inr candidate)"
| "find_free_range_loop search sz alignment (area # rest) candidate =
     (if vr_end (va_range area) \<le> candidate
      then find_free_range_loop search sz alignment rest candidate
      else
        rbind (ok_or (VirtAddr_checked_add candidate sz) AddressOverflow) (\<lambda>end.
        rbind (ok_or (VirtRange_new candidate end) AddressOverflow) (\<lambda>gap.
          if VirtRange_contains_range search gap \<and> \<not> VirtRange_overlaps gap (va_range area)
          then Ok (Inl gap)
          else rbind (ok_or (VirtAddr_align_up (vr_end (va_range area)) alignment) AddressOverflow)
            (\<lambda>candidate. find_free_range_loop search sz alignment rest candidate))))"

definition VmAreaSet_find_free_range ::
  "VmAreaSet \<Rightarrow> VirtRange \<Rightarrow> usize \<Rightarrow> usize \<Rightarrow> (VirtRange, VmAreaError) result" where
  "VmAreaSet_find_free_range self search sz alignment =
     (if sz = 0 then Err EmptyRange
      else if alignment < PAGE_SIZE \<or> \<not> is_power_of_two alignment then Err UnalignedRange
      else
        rbind (ok_or (vma_align_up sz PAGE_SIZE) AddressOverflow) (\<lambda>sz.
        rbind (ok_or (VirtAddr_align_up (vr_start search) alignment) AddressOverflow) (\<lambda>candidate.
        rbind (find_free_range_loop search sz alignment (vas_areas self) candidate) (\<lambda>r.
          case r of
            Inl gap \<Rightarrow> Ok gap
          | Inr candidate \<Rightarrow>
              rbind (ok_or (VirtAddr_checked_add candidate sz) AddressOverflow) (\<lambda>end.
              rbind (ok_or (VirtRange_new candidate end) AddressOverflow) (\<lambda>gap.
                if VirtRange_contains_range search gap then Ok gap
                else Err AreaCapacityExceeded))))))"

end
