(* ===== verification/Vma_Facts.thy ===== *)
theory Vma_Facts
  imports Vma
begin

text \<open>
  The invariant of the area set, its abstraction to a partial map from addresses to attributes, and
  the correctness of every operation of \<open>mm/src/vma.rs\<close>. The loops that rebuild the array are shown
  to append a list of fragments one by one; that list is a valid area list by itself, and appending
  with coalescing changes neither validity nor the abstraction.
\<close>

section \<open>Invariant and abstraction\<close>

definition area_ok :: "VmArea \<Rightarrow> bool" where
  "area_ok a \<longleftrightarrow> validate_area a = Ok () \<and> VirtRange_ok (va_range a)"

definition area_before :: "VmArea \<Rightarrow> VmArea \<Rightarrow> bool" where
  "area_before a b \<longleftrightarrow> vr_end (va_range a) \<le> vr_start (va_range b)"

definition areas_inv :: "VmArea list \<Rightarrow> bool" where
  "areas_inv xs \<longleftrightarrow> (\<forall>a \<in> set xs. area_ok a) \<and> sorted_wrt area_before xs"

definition VmAreaSet_inv :: "VmAreaSet \<Rightarrow> bool" where
  "VmAreaSet_inv s \<longleftrightarrow> areas_inv (vas_areas s) \<and> length (vas_areas s) \<le> vas_capacity s"

type_synonym area_attrs = "VmAreaFlags \<times> VmAreaKind"

definition attrs :: "VmArea \<Rightarrow> area_attrs" where
  "attrs a = (va_flags a, va_kind a)"

fun vma_lookup :: "VmArea list \<Rightarrow> VirtAddr \<Rightarrow> area_attrs option" where
  "vma_lookup [] addr = None"
| "vma_lookup (a # xs) addr =
     (if VirtRange_contains (va_range a) addr then Some (attrs a) else vma_lookup xs addr)"

abbreviation VmAreaSet_lookup :: "VmAreaSet \<Rightarrow> VirtAddr \<Rightarrow> area_attrs option" where
  "VmAreaSet_lookup s \<equiv> vma_lookup (vas_areas s)"

text \<open>A conservative range for an operation: not empty and page aligned.\<close>

definition page_range :: "VirtRange \<Rightarrow> bool" where
  "page_range r \<longleftrightarrow> VirtRange_ok r \<and> vr_start r < vr_end r \<and> VirtRange_is_page_aligned r"

lemma validate_operation_range_iff:
  "VirtRange_ok r \<Longrightarrow> validate_operation_range r = Ok () \<longleftrightarrow> page_range r"
  by (auto simp: validate_operation_range_def page_range_def VirtRange_is_empty_def VirtRange_ok_def)

lemma area_ok_range: "area_ok a \<Longrightarrow> page_range (va_range a)"
  by (auto simp: area_ok_def validate_area_def Let_def page_range_def VirtRange_is_empty_def
      VirtRange_ok_def split: if_splits)

lemma area_ok_nonempty: "area_ok a \<Longrightarrow> vr_start (va_range a) < vr_end (va_range a)"
  using area_ok_range by (auto simp: page_range_def)

lemma area_ok_resize:
  "area_ok a \<Longrightarrow> page_range r \<Longrightarrow> area_ok (VmArea_new r (va_flags a) (va_kind a))"
  by (auto simp: area_ok_def validate_area_def Let_def VmArea_new_def page_range_def
      VirtRange_is_empty_def split: if_splits)

lemma VmArea_new_simps [simp]:
  "va_range (VmArea_new r f k) = r" "va_flags (VmArea_new r f k) = f" "va_kind (VmArea_new r f k) = k"
  by (simp_all add: VmArea_new_def)

lemma VmArea_new_id [simp]: "VmArea_new (va_range a) (va_flags a) (va_kind a) = a"
  by (simp add: VmArea_new_def)

lemma areas_inv_Nil [simp]: "areas_inv []"
  by (simp add: areas_inv_def)

lemma areas_inv_Cons:
  "areas_inv (a # xs) \<longleftrightarrow> area_ok a \<and> (\<forall>b \<in> set xs. area_before a b) \<and> areas_inv xs"
  by (auto simp: areas_inv_def)

lemma areas_inv_append:
  "areas_inv (xs @ ys) \<longleftrightarrow> areas_inv xs \<and> areas_inv ys \<and> (\<forall>a \<in> set xs. \<forall>b \<in> set ys. area_before a b)"
  by (auto simp: areas_inv_def sorted_wrt_append)

lemma areas_inv_member: "areas_inv xs \<Longrightarrow> a \<in> set xs \<Longrightarrow> area_ok a"
  by (simp add: areas_inv_def)

lemma areas_inv_nth:
  "areas_inv xs \<Longrightarrow> i < j \<Longrightarrow> j < length xs \<Longrightarrow>
   vr_end (va_range (xs ! i)) \<le> vr_start (va_range (xs ! j))"
  by (auto simp: areas_inv_def area_before_def dest: sorted_wrt_nth_less)

lemma areas_inv_nth_nonempty:
  "areas_inv xs \<Longrightarrow> i < length xs \<Longrightarrow> vr_start (va_range (xs ! i)) < vr_end (va_range (xs ! i))"
  by (simp add: areas_inv_def area_ok_nonempty)

lemma area_before_trans: "area_before a b \<Longrightarrow> area_before b c \<Longrightarrow> area_ok b \<Longrightarrow> area_before a c"
  using area_ok_nonempty by (fastforce simp: area_before_def)

section \<open>Lookup\<close>

lemma vma_lookup_append:
  "vma_lookup (xs @ ys) addr =
     (case vma_lookup xs addr of None \<Rightarrow> vma_lookup ys addr | Some p \<Rightarrow> Some p)"
  by (induction xs) auto

lemma vma_lookup_None_iff:
  "vma_lookup xs addr = None \<longleftrightarrow> (\<forall>a \<in> set xs. \<not> VirtRange_contains (va_range a) addr)"
  by (induction xs) auto

lemma vma_lookup_SomeD:
  "vma_lookup xs addr = Some p \<Longrightarrow> \<exists>a \<in> set xs. VirtRange_contains (va_range a) addr \<and> p = attrs a"
  by (induction xs) (auto split: if_splits)

lemma contains_unique:
  assumes "areas_inv xs" "a \<in> set xs" "b \<in> set xs"
    and "VirtRange_contains (va_range a) addr" "VirtRange_contains (va_range b) addr"
  shows "a = b"
  using assms
  by (induction xs) (auto simp: areas_inv_Cons area_before_def VirtRange_contains_def)

lemma vma_lookup_Some_iff:
  assumes "areas_inv xs"
  shows "vma_lookup xs addr = Some p \<longleftrightarrow>
    (\<exists>a \<in> set xs. VirtRange_contains (va_range a) addr \<and> p = attrs a)"
proof
  assume "\<exists>a \<in> set xs. VirtRange_contains (va_range a) addr \<and> p = attrs a"
  then obtain a where a: "a \<in> set xs" "VirtRange_contains (va_range a) addr" "p = attrs a" by blast
  then obtain q where q: "vma_lookup xs addr = Some q"
    using vma_lookup_None_iff by blast
  then obtain b where "b \<in> set xs" "VirtRange_contains (va_range b) addr" "q = attrs b"
    using vma_lookup_SomeD by blast
  with a q contains_unique [OF assms] show "vma_lookup xs addr = Some p" by blast
qed (rule vma_lookup_SomeD)

text \<open>Two adjacent areas with equal attributes are the same as their union.\<close>

definition merged_area :: "VmArea \<Rightarrow> VmArea \<Rightarrow> VmArea" where
  "merged_area p a = VmArea_new \<lparr>vr_start = vr_start (va_range p), vr_end = vr_end (va_range a)\<rparr>
     (va_flags a) (va_kind a)"

definition mergeable :: "VmArea \<Rightarrow> VmArea \<Rightarrow> bool" where
  "mergeable p a \<longleftrightarrow> vr_end (va_range p) = vr_start (va_range a)
     \<and> va_flags p = va_flags a \<and> va_kind p = va_kind a"

lemma merged_area_ok:
  assumes "area_ok p" "area_ok a" "mergeable p a"
  shows "area_ok (merged_area p a)"
  unfolding merged_area_def
  using assms area_ok_range [of p] area_ok_range [of a]
  by (intro area_ok_resize)
    (auto simp: page_range_def mergeable_def VirtRange_ok_def VirtRange_is_page_aligned_def)

lemma merged_area_simps [simp]:
  "vr_start (va_range (merged_area p a)) = vr_start (va_range p)"
  "vr_end (va_range (merged_area p a)) = vr_end (va_range a)"
  "attrs (merged_area p a) = attrs a"
  "va_flags (merged_area p a) = va_flags a"
  "va_kind (merged_area p a) = va_kind a"
  by (simp_all add: merged_area_def attrs_def)

lemma merge_adjacent_inv:
  assumes "areas_inv (us @ p # a # vs)" "mergeable p a"
  shows "areas_inv (us @ merged_area p a # vs)"
  using assms merged_area_ok [of p a]
  by (auto simp: areas_inv_append areas_inv_Cons area_before_def)

lemma merge_adjacent_lookup:
  assumes "areas_inv (us @ p # a # vs)" "mergeable p a"
  shows "vma_lookup (us @ merged_area p a # vs) = vma_lookup (us @ p # a # vs)"
proof -
  have eq: "vma_lookup (merged_area p a # vs) addr = vma_lookup (p # a # vs) addr" for addr
    using assms area_ok_nonempty [of p] area_ok_nonempty [of a]
    by (auto simp: areas_inv_append areas_inv_Cons VirtRange_contains_def mergeable_def attrs_def)
  show ?thesis
    by (rule ext) (simp only: vma_lookup_append eq)
qed

section \<open>Binary search\<close>

lemma find_loop_Some:
  "find_loop xs addr l r = Some a \<Longrightarrow> r \<le> length xs \<Longrightarrow>
   a \<in> set xs \<and> VirtRange_contains (va_range a) addr"
proof (induction xs addr l r rule: find_loop.induct)
  case (1 xs addr l r)
  then show ?case
    by (subst (asm) (3) find_loop.simps) (auto simp: Let_def split: if_splits)
qed

lemma find_loop_None:
  "find_loop xs addr l r = None \<Longrightarrow> areas_inv xs \<Longrightarrow> r \<le> length xs \<Longrightarrow> l \<le> i \<Longrightarrow> i < r \<Longrightarrow>
   \<not> VirtRange_contains (va_range (xs ! i)) addr"
proof (induction xs addr l r rule: find_loop.induct)
  case (1 xs addr l r)
  define mid where "mid = l + (r - l) div 2"
  have mid: "l \<le> mid" "mid < r" using 1(6,7) by (auto simp: mid_def)
  have unfolded: "\<not> VirtRange_contains (va_range (xs ! mid)) addr"
    "addr < vr_start (va_range (xs ! mid)) \<Longrightarrow> find_loop xs addr l mid = None"
    "\<not> addr < vr_start (va_range (xs ! mid)) \<Longrightarrow> find_loop xs addr (mid + 1) r = None"
    using 1(3) mid by (subst (asm) find_loop.simps, simp add: Let_def mid_def split: if_splits)+
  show ?case
  proof (cases "addr < vr_start (va_range (xs ! mid))")
    case True
    show ?thesis
    proof (cases "i < mid")
      case False
      then have "vr_start (va_range (xs ! mid)) \<le> vr_start (va_range (xs ! i))"
        using areas_inv_nth [OF 1(4), of mid i] areas_inv_nth_nonempty [OF 1(4), of mid] 1(5,7) mid
        by (cases "i = mid") auto
      with True show ?thesis by (simp add: VirtRange_contains_def)
    qed (use 1(1) [OF _ mid_def refl unfolded(1) True unfolded(2) [OF True] 1(4)] 1(5,6) mid in simp)
  next
    case False
    show ?thesis
    proof (cases "mid < i")
      case False': False
      then have "vr_end (va_range (xs ! i)) \<le> vr_end (va_range (xs ! mid))"
        using areas_inv_nth [OF 1(4), of i mid] areas_inv_nth_nonempty [OF 1(4), of mid] 1(5) mid
        by (cases "i = mid") auto
      with False unfolded(1) show ?thesis by (simp add: VirtRange_contains_def)
    qed (use 1(2) [OF _ mid_def refl unfolded(1) False unfolded(3) [OF False] 1(4,5) _ 1(7)] mid in simp)
  qed
qed

lemma VmAreaSet_find_Some_iff:
  assumes "areas_inv (vas_areas s)"
  shows "VmAreaSet_find s addr = Some a \<longleftrightarrow>
    a \<in> set (vas_areas s) \<and> VirtRange_contains (va_range a) addr"
proof (cases "VmAreaSet_find s addr")
  case None
  then show ?thesis
    using find_loop_None [of "vas_areas s" addr 0 "length (vas_areas s)"] assms
    by (auto simp: VmAreaSet_find_def VmAreaSet_len_def in_set_conv_nth)
next
  case (Some b)
  then have "b \<in> set (vas_areas s)" "VirtRange_contains (va_range b) addr"
    using find_loop_Some by (fastforce simp: VmAreaSet_find_def VmAreaSet_len_def)+
  with Some show ?thesis using contains_unique [OF assms] by auto
qed

lemma insertion_index_bounds:
  "l \<le> r \<Longrightarrow> l \<le> insertion_index_loop xs start l r \<and> insertion_index_loop xs start l r \<le> r"
proof (induction xs start l r rule: insertion_index_loop.induct)
  case (1 xs start l r)
  then show ?case
    by (subst (1 2) insertion_index_loop.simps) (fastforce simp: Let_def)
qed


lemma insertion_index_below:
  "areas_inv xs \<Longrightarrow> r \<le> length xs \<Longrightarrow> l \<le> i \<Longrightarrow> i < insertion_index_loop xs start l r \<Longrightarrow>
   vr_start (va_range (xs ! i)) \<le> start"
proof (induction xs start l r rule: insertion_index_loop.induct)
  case (1 xs start l r)
  define mid where "mid = l + (r - l) div 2"
  have lr: "l < r"
    using 1(5,6) by (subst (asm) insertion_index_loop.simps) (auto split: if_splits)
  then have mid: "l \<le> mid" "mid < r" by (auto simp: mid_def)
  show ?case
  proof (cases "start < vr_start (va_range (xs ! mid))")
    case True
    then have "insertion_index_loop xs start l r = insertion_index_loop xs start l mid"
      using lr by (subst insertion_index_loop.simps) (simp add: Let_def mid_def)
    with 1(1) [OF lr mid_def refl True 1(3) _ 1(5)] 1(4,6) mid show ?thesis by simp
  next
    case False
    then have "insertion_index_loop xs start l r = insertion_index_loop xs start (mid + 1) r"
      using lr by (subst insertion_index_loop.simps) (simp add: Let_def mid_def)
    moreover have "vr_start (va_range (xs ! i)) \<le> start" if "i \<le> mid"
      using that False areas_inv_nth [OF 1(3), of i mid] areas_inv_nth_nonempty [OF 1(3), of i] mid 1(4)
      by (cases "i = mid") auto
    ultimately show ?thesis
      using 1(2) [OF lr mid_def refl False 1(3,4)] 1(6) by (cases "i \<le> mid") simp_all
  qed
qed

lemma insertion_index_above:
  "areas_inv xs \<Longrightarrow> r \<le> length xs \<Longrightarrow> insertion_index_loop xs start l r \<le> i \<Longrightarrow> i < r \<Longrightarrow> l \<le> r \<Longrightarrow>
   start < vr_start (va_range (xs ! i))"
proof (induction xs start l r rule: insertion_index_loop.induct)
  case (1 xs start l r)
  define mid where "mid = l + (r - l) div 2"
  have lr: "l < r"
    using 1(5-7) by (subst (asm) insertion_index_loop.simps) (auto split: if_splits)
  then have mid: "l \<le> mid" "mid < r" by (auto simp: mid_def)
  show ?case
  proof (cases "start < vr_start (va_range (xs ! mid))")
    case True
    then have "insertion_index_loop xs start l r = insertion_index_loop xs start l mid"
      using lr by (subst insertion_index_loop.simps) (simp add: Let_def mid_def)
    moreover have "start < vr_start (va_range (xs ! i))" if "mid \<le> i"
      using that True areas_inv_nth [OF 1(3), of mid i] areas_inv_nth_nonempty [OF 1(3), of mid] 1(4,6)
      by (cases "i = mid") auto
    ultimately show ?thesis
      using 1(1) [OF lr mid_def refl True 1(3)] 1(4,5) mid by (cases "mid \<le> i") simp_all
  next
    case False
    then have "insertion_index_loop xs start l r = insertion_index_loop xs start (mid + 1) r"
      using lr by (subst insertion_index_loop.simps) (simp add: Let_def mid_def)
    with 1(2) [OF lr mid_def refl False 1(3,4) _ 1(6)] 1(5) mid show ?thesis by simp
  qed
qed

text \<open>The array splits at the insertion index.\<close>

lemma insertion_split:
  assumes "areas_inv (vas_areas s)"
  obtains ps ss where "vas_areas s = ps @ ss" "VmAreaSet_insertion_index s start = length ps"
    "\<forall>a \<in> set ps. vr_start (va_range a) \<le> start" "\<forall>a \<in> set ss. start < vr_start (va_range a)"
proof -
  let ?xs = "vas_areas s" and ?k = "VmAreaSet_insertion_index s start"
  have k: "?k \<le> length ?xs"
    using insertion_index_bounds [of 0 "length ?xs" ?xs start]
    by (simp add: VmAreaSet_insertion_index_def VmAreaSet_len_def)
  have "\<forall>a \<in> set (take ?k ?xs). vr_start (va_range a) \<le> start"
    using insertion_index_below [OF assms, of "length ?xs" 0 _ start]
    by (auto simp: in_set_conv_nth VmAreaSet_insertion_index_def VmAreaSet_len_def)
  moreover have "\<forall>a \<in> set (drop ?k ?xs). start < vr_start (va_range a)"
    using insertion_index_above [OF assms, of "length ?xs" start 0] k
    by (auto simp: in_set_conv_nth VmAreaSet_insertion_index_def VmAreaSet_len_def)
  ultimately show ?thesis
    using k by (intro that [of "take ?k ?xs" "drop ?k ?xs"]) auto
qed

section \<open>Insertion\<close>

text \<open>If the neighbours do not overlap the new area, it fits between them.\<close>

lemma areas_inv_between:
  assumes "areas_inv (ps @ ss)" "area_ok area"
    and "\<forall>a \<in> set ps. vr_start (va_range a) \<le> vr_start (va_range area)"
    and "\<forall>a \<in> set ss. vr_start (va_range area) < vr_start (va_range a)"
    and "ps \<noteq> [] \<Longrightarrow> \<not> VirtRange_overlaps (va_range (last ps)) (va_range area)"
    and "ss \<noteq> [] \<Longrightarrow> \<not> VirtRange_overlaps (va_range (hd ss)) (va_range area)"
  shows "areas_inv (ps @ area # ss)"
proof -
  note ne = area_ok_nonempty [OF assms(2)]
  have before: "area_before a area" if "a \<in> set ps" for a
  proof (cases ps rule: rev_cases)
    case (snoc us p)
    have p: "area_before p area" "area_ok p"
      using assms(1,3,5) ne snoc
      by (auto simp: VirtRange_overlaps_def area_before_def areas_inv_append areas_inv_Cons)
    show ?thesis
      using that snoc p assms(1) area_before_trans [OF _ p(1) p(2)]
      by (auto simp: areas_inv_append)
  qed (use that in simp)
  moreover have "area_before area b" if "b \<in> set ss" for b
  proof (cases ss)
    case (Cons h ts)
    have h: "area_before area h" "area_ok h"
      using assms(1,4,6) ne Cons area_ok_nonempty [of h]
      by (auto simp: VirtRange_overlaps_def area_before_def areas_inv_append areas_inv_Cons)
    show ?thesis
      using that Cons h assms(1) area_before_trans [OF h(1) _ h(2)]
      by (auto simp: areas_inv_append areas_inv_Cons)
  qed (use that in simp)
  ultimately show ?thesis
    using assms(1,2) by (auto simp: areas_inv_append areas_inv_Cons)
qed

lemma vma_lookup_insert:
  assumes "areas_inv (ps @ area # ss)"
  shows "vma_lookup (ps @ area # ss) addr =
    (if addr \<in> VirtRange_set (va_range area) then Some (attrs area) else vma_lookup (ps @ ss) addr)"
proof (cases "addr \<in> VirtRange_set (va_range area)")
  case True
  then show ?thesis
    using vma_lookup_Some_iff [OF assms, of addr "attrs area"] by (auto simp: VirtRange_contains_iff)
next
  case False
  then show ?thesis
    by (simp add: vma_lookup_append VirtRange_contains_iff split: option.split)
qed

lemma vma_lookup_insert_free:
  assumes "areas_inv (ps @ area # ss)" "addr \<in> VirtRange_set (va_range area)"
  shows "vma_lookup (ps @ ss) addr = None"
  using assms
  by (force simp: vma_lookup_None_iff areas_inv_append areas_inv_Cons area_before_def
      VirtRange_contains_def VirtRange_set_def)


text \<open>The array after an insertion: at most one merge with each neighbour.\<close>

definition fit_previous :: "VmArea \<Rightarrow> VmArea list \<Rightarrow> bool" where
  "fit_previous area ps \<longleftrightarrow> va_kind area = Anonymous \<and> ps \<noteq> [] \<and> mergeable (last ps) area"

definition fit_next :: "VmArea \<Rightarrow> VmArea list \<Rightarrow> bool" where
  "fit_next area ss \<longleftrightarrow> va_kind area = Anonymous \<and> ss \<noteq> [] \<and> mergeable area (hd ss)"

definition inserted :: "VmArea list \<Rightarrow> VmArea \<Rightarrow> VmArea list \<Rightarrow> VmArea list" where
  "inserted ps area ss =
     (if fit_previous area ps then butlast ps else ps)
     @ (let a = (if fit_previous area ps then merged_area (last ps) area else area) in
        if fit_next area ss then merged_area a (hd ss) # tl ss else a # ss)"

lemma inserted_correct:
  assumes "areas_inv (ps @ area # ss)"
  shows "areas_inv (inserted ps area ss) \<and> vma_lookup (inserted ps area ss) = vma_lookup (ps @ area # ss)"
proof -
  define us where "us = (if fit_previous area ps then butlast ps else ps)"
  define a where "a = (if fit_previous area ps then merged_area (last ps) area else area)"
  have ins: "inserted ps area ss = us @ (if fit_next area ss then merged_area a (hd ss) # tl ss else a # ss)"
    by (simp add: inserted_def us_def a_def)
  have left: "areas_inv (us @ a # ss) \<and> vma_lookup (us @ a # ss) = vma_lookup (ps @ area # ss)"
  proof (cases "fit_previous area ps")
    case True
    then have "ps = us @ [last ps]" "mergeable (last ps) area"
      by (simp_all add: us_def fit_previous_def)
    with assms merge_adjacent_inv [of us "last ps" area ss] merge_adjacent_lookup [of us "last ps" area ss] True
    show ?thesis by (simp add: a_def) (metis append.assoc append_Cons append_Nil)
  qed (simp add: us_def a_def assms)
  show ?thesis
  proof (cases "fit_next area ss")
    case True
    then have "ss = hd ss # tl ss" "mergeable a (hd ss)"
      by (auto simp: a_def fit_next_def mergeable_def)
    with left merge_adjacent_inv [of us a "hd ss" "tl ss"] merge_adjacent_lookup [of us a "hd ss" "tl ss"] True
    show ?thesis by (simp add: ins)
  qed (simp add: ins left)
qed

lemma length_inserted:
  "length (inserted ps area ss) \<le> Suc (length (ps @ ss))"
  "fit_previous area ps \<or> fit_next area ss \<Longrightarrow> length (inserted ps area ss) \<le> length (ps @ ss)"
  by (auto simp: inserted_def fit_previous_def fit_next_def Let_def)

lemma VirtRange_new_start_end [simp]:
  "a \<le> b \<Longrightarrow> VirtRange_new a b = Some \<lparr>vr_start = a, vr_end = b\<rparr>"
  by simp

lemma merged_area_eq:
  "merged_area p a = VmArea_new \<lparr>vr_start = vr_start (va_range p), vr_end = vr_end (va_range a)\<rparr>
     (va_flags a) (va_kind a)"
  by (simp add: merged_area_def)

lemma VmAreaSet_insert_eq:
  assumes "vas_areas s = ps @ ss" "VmAreaSet_insertion_index s (vr_start (va_range area)) = length ps"
    and "validate_area area = Ok ()" "areas_inv (ps @ ss)" "area_ok area"
    and fits: "areas_inv (ps @ area # ss)"
  shows "VmAreaSet_insert ok area s =
    (if fit_previous area ps \<or> fit_next area ss then (Ok (), s\<lparr>vas_areas := inserted ps area ss\<rparr>)
     else if length (vas_areas s) = vas_capacity s then (Err AreaCapacityExceeded, s)
     else if \<not> ok then (Err MetadataOutOfMemory, s)
     else (Ok (), s\<lparr>vas_areas := inserted ps area ss\<rparr>))"
proof -
  have before: "area_before (last ps) area \<and> area_ok (last ps)" if "ps \<noteq> []"
    using that fits last_in_set [of ps] areas_inv_member [of ps "last ps"]
    unfolding areas_inv_append areas_inv_Cons by simp
  have after: "area_before area (hd ss) \<and> area_ok (hd ss)" if "ss \<noteq> []"
    using that fits hd_in_set [of ss] areas_inv_member [of ss "hd ss"]
    unfolding areas_inv_append areas_inv_Cons by simp
  note ne = area_ok_nonempty [OF assms(5)]
  let ?prev = "(ps @ ss) ! (length ps - 1)" and ?next = "(ps @ ss) ! length ps"
  have prev: "?prev = last ps" if "ps \<noteq> []"
    using that by (simp add: nth_append last_conv_nth)
  have nxt: "?next = hd ss" if "ss \<noteq> []"
    using that by (simp add: nth_append hd_conv_nth)
  have no_overlap: "(0 < length ps \<and> VirtRange_overlaps (va_range ?prev) (va_range area)) = False"
    "(length ps < length (ps @ ss) \<and> VirtRange_overlaps (va_range ?next) (va_range area)) = False"
    using before after prev nxt by (auto simp: area_before_def VirtRange_overlaps_def)
  have mp: "(va_kind area = Anonymous \<and> 0 < length ps \<and> vr_end (va_range ?prev) = vr_start (va_range area)
      \<and> va_flags ?prev = va_flags area \<and> va_kind ?prev = va_kind area) = fit_previous area ps"
    using prev by (auto simp: fit_previous_def mergeable_def)
  have mn: "(va_kind area = Anonymous \<and> length ps < length (ps @ ss)
      \<and> vr_end (va_range area) = vr_start (va_range ?next)
      \<and> va_flags ?next = va_flags area \<and> va_kind ?next = va_kind area) = fit_next area ss"
    using nxt by (auto simp: fit_next_def mergeable_def)
  have upd: "(ps @ ss)[length ps - 1 := x] = butlast ps @ x # ss" if "ps \<noteq> []" for x
    using that by (cases ps rule: rev_cases) (auto simp: list_update_append)
  have both: "vec_remove (length ps) ((ps @ ss)[length ps - 1 := x]) = butlast ps @ x # tl ss"
    if "ps \<noteq> []" for x
    using that by (cases ps rule: rev_cases) (auto simp: list_update_append vec_remove_def drop_Suc)
  have upd': "(ps @ ss)[length ps := x] = ps @ x # tl ss" if "ss \<noteq> []" for x
    using that by (cases ss) auto
  have start: "vr_start (va_range (last ps)) \<le> vr_end (va_range area)" if "ps \<noteq> []"
    using before [OF that] ne area_ok_nonempty [of "last ps"] by (simp add: area_before_def)
  have stop: "vr_end (va_range area) < vr_end (va_range (hd ss))" if "ss \<noteq> []"
    using after [OF that] area_ok_nonempty [of "hd ss"] by (auto simp: area_before_def)
  note step = VmAreaSet_insert_def assms(1-3) Let_def result.case no_overlap if_False mp mn
  show ?thesis
  proof (cases "fit_previous area ps"; cases "fit_next area ss")
    assume *: "fit_previous area ps" "fit_next area ss"
    then have "ps \<noteq> []" "ss \<noteq> []" "mergeable area (hd ss)"
      by (simp_all add: fit_previous_def fit_next_def)
    with * show ?thesis
      using start stop prev nxt both unfolding step
      by (simp add: inserted_def Let_def merged_area_eq mergeable_def)
  next
    assume *: "fit_previous area ps" "\<not> fit_next area ss"
    then have "ps \<noteq> []" by (simp add: fit_previous_def)
    with * show ?thesis
      using start prev upd unfolding step by (simp add: inserted_def Let_def merged_area_eq)
  next
    assume *: "\<not> fit_previous area ps" "fit_next area ss"
    then have "ss \<noteq> []" "mergeable area (hd ss)" by (simp_all add: fit_next_def)
    with * show ?thesis
      using ne stop nxt upd' unfolding step
      by (simp add: inserted_def Let_def merged_area_eq mergeable_def)
  next
    assume *: "\<not> fit_previous area ps" "\<not> fit_next area ss"
    then show ?thesis
      unfolding step by (simp add: inserted_def Let_def vec_insert_def)
  qed
qed


lemma VmAreaSet_insert_overlap:
  assumes "VmAreaSet_inv s" "area_ok area"
    and "addr \<in> VirtRange_set (va_range area)" "VmAreaSet_lookup s addr \<noteq> None"
  shows "VmAreaSet_insert ok area s = (Err Overlap, s)"
proof -
  have inv: "areas_inv (vas_areas s)" using assms(1) by (simp add: VmAreaSet_inv_def)
  obtain ps ss where split: "vas_areas s = ps @ ss"
    "VmAreaSet_insertion_index s (vr_start (va_range area)) = length ps"
    "\<forall>a \<in> set ps. vr_start (va_range a) \<le> vr_start (va_range area)"
    "\<forall>a \<in> set ss. vr_start (va_range area) < vr_start (va_range a)"
    by (rule insertion_split [OF inv])
  have "\<not> areas_inv (ps @ area # ss)"
    using assms(3,4) vma_lookup_insert_free [of ps area ss addr] by (auto simp: split)
  with areas_inv_between [of ps ss area] inv assms(2) split
  have "ps \<noteq> [] \<and> VirtRange_overlaps (va_range (last ps)) (va_range area)
      \<or> ss \<noteq> [] \<and> VirtRange_overlaps (va_range (hd ss)) (va_range area)" by auto
  moreover have "validate_area area = Ok ()" using assms(2) by (simp add: area_ok_def)
  moreover have "(ps @ ss) ! (length ps - Suc 0) = last ps" if "ps \<noteq> []"
    using that by (simp add: nth_append last_conv_nth)
  moreover have "(ps @ ss) ! length ps = hd ss" if "ss \<noteq> []"
    using that by (simp add: nth_append hd_conv_nth)
  ultimately show ?thesis
    by (elim disjE conjE) (simp_all add: VmAreaSet_insert_def split(1,2) Let_def del: if_split)
qed

lemma VmAreaSet_insert_cases:
  assumes "VmAreaSet_inv s" "VirtRange_ok (va_range area)"
  shows "case VmAreaSet_insert ok area s of
      (Ok _, s') \<Rightarrow> VmAreaSet_inv s' \<and> vas_capacity s' = vas_capacity s
        \<and> (\<forall>addr. VmAreaSet_lookup s' addr =
              (if addr \<in> VirtRange_set (va_range area) then Some (attrs area)
               else VmAreaSet_lookup s addr))
        \<and> (\<forall>addr \<in> VirtRange_set (va_range area). VmAreaSet_lookup s addr = None)
    | (Err e, s') \<Rightarrow> s' = s \<and>
        (validate_area area = Err e
         \<or> e = Overlap \<and> (\<exists>addr \<in> VirtRange_set (va_range area). VmAreaSet_lookup s addr \<noteq> None)
         \<or> e = AreaCapacityExceeded \<and> VmAreaSet_len s = vas_capacity s
         \<or> e = MetadataOutOfMemory \<and> \<not> ok)
    | (Panic, s') \<Rightarrow> False"
proof (cases "validate_area area = Ok ()")
  case False
  moreover have "validate_area area \<noteq> Panic" by (simp add: validate_area_def Let_def)
  ultimately show ?thesis
    by (auto simp: VmAreaSet_insert_def split: result.splits)
next
  case valid: True
  then have ok: "area_ok area" using assms(2) by (simp add: area_ok_def)
  have inv: "areas_inv (vas_areas s)" using assms(1) by (simp add: VmAreaSet_inv_def)
  show ?thesis
  proof (cases "\<exists>addr \<in> VirtRange_set (va_range area). VmAreaSet_lookup s addr \<noteq> None")
    case True
    with VmAreaSet_insert_overlap [OF assms(1) ok] show ?thesis by auto
  next
    case False
    obtain ps ss where split: "vas_areas s = ps @ ss"
      "VmAreaSet_insertion_index s (vr_start (va_range area)) = length ps"
      "\<forall>a \<in> set ps. vr_start (va_range a) \<le> vr_start (va_range area)"
      "\<forall>a \<in> set ss. vr_start (va_range area) < vr_start (va_range a)"
      by (rule insertion_split [OF inv])
    have free: "\<not> VirtRange_overlaps (va_range b) (va_range area)" if "b \<in> set (ps @ ss)" for b
      using that False inv ok area_ok_nonempty
      by (fastforce simp: split(1) vma_lookup_None_iff VirtRange_contains_iff areas_inv_def
          VirtRange_overlaps_iff)
    have fits: "areas_inv (ps @ area # ss)"
      using areas_inv_between [OF _ ok split(3,4)] inv split(1) free last_in_set hd_in_set by auto
    note ins = inserted_correct [OF fits] vma_lookup_insert [OF fits] length_inserted [where ps = ps and area = area and ss = ss]
    show ?thesis
      using ins assms(1) vma_lookup_insert_free [OF fits]
      by (auto simp: VmAreaSet_insert_eq [OF split(1,2) valid _ ok fits] inv [unfolded split(1)]
          VmAreaSet_inv_def VmAreaSet_len_def split(1))
  qed
qed

section \<open>Rebuilding the array\<close>

fun append_all :: "usize \<Rightarrow> VmArea list \<Rightarrow> VmArea list \<Rightarrow> (VmArea list, VmAreaError) result" where
  "append_all cap xs [] = Ok xs"
| "append_all cap xs (f # fs) = rbind (append_area xs f cap) (\<lambda>xs. append_all cap xs fs)"

lemma append_all_append:
  "append_all cap xs (fs @ gs) = rbind (append_all cap xs fs) (\<lambda>xs. append_all cap xs gs)"
  by (induction fs arbitrary: xs) (simp_all add: rbind_assoc)

definition appended :: "VmArea list \<Rightarrow> VmArea \<Rightarrow> VmArea list" where
  "appended xs a =
     (if xs \<noteq> [] \<and> mergeable (last xs) a then butlast xs @ [merged_area (last xs) a] else xs @ [a])"

lemma append_area_eq:
  assumes "areas_inv (xs @ a # fs)"
  shows "append_area xs a cap =
    (if length (appended xs a) \<le> length xs then Ok (appended xs a)
     else if length xs = cap then Err AreaCapacityExceeded else Ok (appended xs a))"
proof (cases xs rule: rev_cases)
  case Nil
  with assms show ?thesis
    by (auto simp: append_area_def appended_def areas_inv_Cons area_ok_def)
next
  case (snoc us p)
  with assms have *: "area_before p a" "area_ok p" "area_ok a"
    by (auto simp: areas_inv_append areas_inv_Cons)
  then have "\<not> VirtRange_overlaps (va_range p) (va_range a)"
    "\<not> vr_start (va_range a) < vr_start (va_range p)"
    "vr_start (va_range p) \<le> vr_end (va_range a)" "validate_area a = Ok ()"
    using area_ok_nonempty [of p] area_ok_nonempty [of a]
    by (auto simp: area_before_def VirtRange_overlaps_def area_ok_def)
  then show ?thesis
    by (simp add: append_area_def appended_def snoc Let_def mergeable_def merged_area_eq)
qed

lemma appended_correct:
  assumes "areas_inv (xs @ a # fs)"
  shows "areas_inv (appended xs a @ fs)" "vma_lookup (appended xs a @ fs) = vma_lookup (xs @ a # fs)"
  using assms merge_adjacent_inv [of "butlast xs" "last xs" a fs]
    merge_adjacent_lookup [of "butlast xs" "last xs" a fs]
  by (auto simp: appended_def) (metis append.assoc append_Cons append_Nil append_butlast_last_id)+

lemma append_all_correct:
  assumes "areas_inv (xs @ fs)" "length xs \<le> cap"
  shows "case append_all cap xs fs of
      Ok ys \<Rightarrow> areas_inv ys \<and> vma_lookup ys = vma_lookup (xs @ fs) \<and> length ys \<le> cap
    | Err e \<Rightarrow> e = AreaCapacityExceeded \<and> cap < length (xs @ fs)
    | Panic \<Rightarrow> False"
  using assms
proof (induction fs arbitrary: xs)
  case (Cons f fs)
  note app = append_area_eq [OF Cons.prems(1), of cap] appended_correct [OF Cons.prems(1)]
  have len: "length (appended xs f) \<le> Suc (length xs)" by (simp add: appended_def)
  show ?case
  proof (cases "length (appended xs f) \<le> length xs \<or> length xs \<noteq> cap")
    case True
    with len Cons.prems(2) have "length (appended xs f) \<le> cap" by auto
    with True Cons.IH [OF app(2)] len app show ?thesis
      by (auto split: result.splits)
  next
    case False
    with app(1) show ?thesis by simp
  qed
qed simp


text \<open>The fragments an area leaves behind.\<close>

definition left_frag :: "VirtRange \<Rightarrow> VmArea \<Rightarrow> VmArea list" where
  "left_frag rng a =
     (if vr_start (va_range a) < vr_start rng
      then [VmArea_new \<lparr>vr_start = vr_start (va_range a), vr_end = vr_start rng\<rparr> (va_flags a) (va_kind a)]
      else [])"

definition right_frag :: "VirtRange \<Rightarrow> VmArea \<Rightarrow> VmArea list" where
  "right_frag rng a =
     (if vr_end rng < vr_end (va_range a)
      then [VmArea_new \<lparr>vr_start = vr_end rng, vr_end = vr_end (va_range a)\<rparr> (va_flags a) (va_kind a)]
      else [])"

definition mid_frag :: "VirtRange \<Rightarrow> VmAreaFlags \<Rightarrow> VmArea \<Rightarrow> VmArea list" where
  "mid_frag rng access a =
     [VmArea_new \<lparr>vr_start = max (vr_start (va_range a)) (vr_start rng),
                  vr_end = min (vr_end (va_range a)) (vr_end rng)\<rparr>
        (VmAreaFlags_with_access (va_flags a) access) (va_kind a)]"

definition remove_frags :: "VirtRange \<Rightarrow> VmArea \<Rightarrow> VmArea list" where
  "remove_frags rng a =
     (if VirtRange_overlaps (va_range a) rng then left_frag rng a @ right_frag rng a else [a])"

definition protect_frags :: "VirtRange \<Rightarrow> VmAreaFlags \<Rightarrow> VmArea \<Rightarrow> VmArea list" where
  "protect_frags rng access a =
     (if VirtRange_overlaps (va_range a) rng
      then left_frag rng a @ mid_frag rng access a @ right_frag rng a else [a])"

definition touched :: "VirtRange \<Rightarrow> VmArea list \<Rightarrow> nat" where
  "touched rng xs = length (filter (\<lambda>a. VirtRange_overlaps (va_range a) rng) xs)"

lemma append_left_eq: "append_left rng a cap xs = append_all cap xs (left_frag rng a)"
  by (simp add: append_left_def left_frag_def)

lemma append_right_eq: "append_right rng a cap xs = append_all cap xs (right_frag rng a)"
  by (simp add: append_right_def right_frag_def)

lemma append_protected_eq:
  assumes "page_range rng" "vr_start (va_range a) < vr_end (va_range a)" "VirtRange_overlaps (va_range a) rng"
  shows "append_protected rng access a cap xs = append_all cap xs (mid_frag rng access a)"
  using assms by (simp add: append_protected_def mid_frag_def page_range_def VirtRange_overlaps_def)

lemma remove_range_loop_eq:
  "remove_range_loop rng cap xs ys n =
     rbind (append_all cap ys (concat (map (remove_frags rng) xs))) (\<lambda>ys. Ok (ys, n + touched rng xs))"
proof (induction xs arbitrary: ys n)
  case Nil
  show ?case by (simp add: touched_def)
next
  case (Cons a xs)
  show ?case
    by (simp add: Cons append_left_eq append_right_eq remove_frags_def append_all_append rbind_assoc
        touched_def)
qed

lemma protect_range_loop_eq:
  assumes "page_range rng" "\<forall>a \<in> set xs. vr_start (va_range a) < vr_end (va_range a)"
  shows "protect_range_loop rng access cap xs ys =
     append_all cap ys (concat (map (protect_frags rng access) xs))"
  using assms(2)
proof (induction xs arbitrary: ys)
  case (Cons a xs)
  then have "protect_range_loop rng access cap xs =
    (\<lambda>ys. append_all cap ys (concat (map (protect_frags rng access) xs)))"
    by (intro ext) simp
  with Cons.prems assms(1) show ?case
    by (simp add: append_left_eq append_right_eq append_protected_eq protect_frags_def [of rng access a]
        append_all_append rbind_assoc)
qed simp

lemma remove_kind_loop_eq:
  "remove_kind_loop kind cap xs ys n =
     rbind (append_all cap ys (filter (\<lambda>a. va_kind a \<noteq> kind) xs))
       (\<lambda>ys. Ok (ys, n + length (filter (\<lambda>a. va_kind a = kind) xs)))"
  by (induction xs arbitrary: ys n) (simp_all add: rbind_assoc)

definition inside :: "VmArea \<Rightarrow> VmArea list \<Rightarrow> bool" where
  "inside a fs \<longleftrightarrow> areas_inv fs \<and>
     (\<forall>f \<in> set fs. vr_start (va_range a) \<le> vr_start (va_range f) \<and> vr_end (va_range f) \<le> vr_end (va_range a))"

lemma areas_inv_concat:
  assumes "areas_inv xs" "\<forall>a \<in> set xs. inside a (f a)"
  shows "areas_inv (concat (map f xs))"
  using assms
proof (induction xs)
  case (Cons a xs)
  have "area_before g h" if "g \<in> set (f a)" "b \<in> set xs" "h \<in> set (f b)" for g b h
    using that Cons.prems by (fastforce simp: areas_inv_Cons inside_def area_before_def)
  with Cons show ?case
    by (auto simp: areas_inv_append areas_inv_Cons inside_def)
qed simp

lemma lookup_concat:
  assumes "areas_inv xs" "g None = None"
    and "\<forall>a \<in> set xs. vma_lookup (f a) addr =
           (if VirtRange_contains (va_range a) addr then g (Some (attrs a)) else None)"
  shows "vma_lookup (concat (map f xs)) addr = g (vma_lookup xs addr)"
  using assms(1,3)
proof (induction xs)
  case (Cons a xs)
  have "vma_lookup xs addr = None" if "VirtRange_contains (va_range a) addr"
    using that Cons.prems(1)
    by (fastforce simp: vma_lookup_None_iff areas_inv_Cons area_before_def VirtRange_contains_def)
  with Cons assms(2) show ?case
    by (auto simp: vma_lookup_append areas_inv_Cons split: option.split)
qed (simp add: assms(2))

lemma left_frag_inside:
  assumes "area_ok a" "page_range rng" "VirtRange_overlaps (va_range a) rng"
  shows "inside a (left_frag rng a)" "inside a (right_frag rng a)"
  using assms area_ok_range [OF assms(1)]
  by (auto simp: inside_def left_frag_def right_frag_def areas_inv_Cons VirtRange_overlaps_def
      intro!: area_ok_resize)
    (auto simp: page_range_def VirtRange_ok_def VirtRange_is_page_aligned_iff)

lemma frag_lookup:
  assumes "page_range rng" "VirtRange_overlaps (va_range a) rng"
  shows "vma_lookup (left_frag rng a) addr =
      (if VirtRange_contains (va_range a) addr \<and> addr < vr_start rng then Some (attrs a) else None)"
    "vma_lookup (right_frag rng a) addr =
      (if VirtRange_contains (va_range a) addr \<and> vr_end rng \<le> addr then Some (attrs a) else None)"
    "vma_lookup (mid_frag rng access a) addr =
      (if VirtRange_contains (va_range a) addr \<and> addr \<in> VirtRange_set rng
       then Some (VmAreaFlags_with_access (va_flags a) access, va_kind a) else None)"
  using assms
  by (auto simp: left_frag_def right_frag_def mid_frag_def VirtRange_contains_def attrs_def page_range_def
      VirtRange_overlaps_def VirtRange_set_def)

lemma frags_disjoint_range:
  "\<not> VirtRange_overlaps (va_range a) rng \<Longrightarrow> VirtRange_contains (va_range a) addr \<Longrightarrow>
   page_range rng \<Longrightarrow> addr \<notin> VirtRange_set rng"
  by (auto simp: VirtRange_overlaps_def VirtRange_contains_def VirtRange_set_def page_range_def)

lemma remove_frags_inside:
  assumes "area_ok a" "page_range rng"
  shows "inside a (remove_frags rng a)"
proof (cases "VirtRange_overlaps (va_range a) rng")
  case True
  with left_frag_inside [OF assms True] assms(2) show ?thesis
    by (auto simp: inside_def remove_frags_def areas_inv_append left_frag_def right_frag_def
        area_before_def page_range_def)
qed (simp add: remove_frags_def inside_def areas_inv_Cons assms)

lemma remove_frags_lookup:
  assumes "page_range rng"
  shows "vma_lookup (remove_frags rng a) addr =
    (if VirtRange_contains (va_range a) addr
     then (if addr \<in> VirtRange_set rng then None else Some (attrs a)) else None)"
  using assms frag_lookup [OF assms, where a = a and addr = addr] frags_disjoint_range [of a rng addr]
  by (auto simp: remove_frags_def vma_lookup_append VirtRange_set_def split: option.split)


section \<open>Flag bits\<close>

lemma VmAreaFlags_contains_bit: "n < 16 \<Longrightarrow> VmAreaFlags_contains f (push_bit n 1) \<longleftrightarrow> bit f n"
proof
  assume "n < 16" "VmAreaFlags_contains f (push_bit n 1)"
  then have "bit (f AND push_bit n 1) n = bit (push_bit n 1 :: 16 word) n"
    by (simp add: VmAreaFlags_contains_def)
  with \<open>n < 16\<close> show "bit f n" by (simp add: bit_simps)
next
  assume "n < 16" "bit f n"
  then show "VmAreaFlags_contains f (push_bit n 1)"
    unfolding VmAreaFlags_contains_def by (intro bit_word_eqI) (auto simp: bit_simps)
qed

lemma access_mask: "VmAreaFlags_READ OR VmAreaFlags_WRITE OR VmAreaFlags_EXECUTE = mask 3"
  by (simp add: VmAreaFlags_READ_def VmAreaFlags_WRITE_def VmAreaFlags_EXECUTE_def mask_eq_exp_minus_1)

lemma VmAreaFlags_with_access_bit:
  "n < 16 \<Longrightarrow> bit (VmAreaFlags_with_access f acc) n \<longleftrightarrow> (if n < 3 then bit acc n else bit f n)"
  by (simp add: VmAreaFlags_with_access_def VmAreaFlags_union_def VmAreaFlags_without_def
      VmAreaFlags_access_only_def or.assoc access_mask bit_simps)

lemma flag_contains:
  "VmAreaFlags_contains f VmAreaFlags_READ \<longleftrightarrow> bit f 0"
  "VmAreaFlags_contains f VmAreaFlags_WRITE \<longleftrightarrow> bit f 1"
  "VmAreaFlags_contains f VmAreaFlags_EXECUTE \<longleftrightarrow> bit f 2"
  "VmAreaFlags_contains f VmAreaFlags_USER \<longleftrightarrow> bit f 3"
  "VmAreaFlags_contains f VmAreaFlags_SHARED \<longleftrightarrow> bit f 4"
  "VmAreaFlags_contains f VmAreaFlags_PRIVATE \<longleftrightarrow> bit f 5"
  "VmAreaFlags_contains f VmAreaFlags_COPY_ON_WRITE \<longleftrightarrow> bit f 6"
  "VmAreaFlags_contains f VmAreaFlags_DEVICE \<longleftrightarrow> bit f 9"
  unfolding VmAreaFlags_READ_def VmAreaFlags_WRITE_def VmAreaFlags_EXECUTE_def VmAreaFlags_USER_def
    VmAreaFlags_SHARED_def VmAreaFlags_PRIVATE_def VmAreaFlags_COPY_ON_WRITE_def VmAreaFlags_DEVICE_def
  by (rule VmAreaFlags_contains_bit, simp)+

lemmas flag_bits =
  VmAreaFlags_is_readable_def VmAreaFlags_is_writable_def VmAreaFlags_is_executable_def
  VmAreaFlags_is_user_def VmAreaFlags_is_copy_on_write_def flag_contains

definition access_ok :: "VmAreaFlags \<Rightarrow> bool" where
  "access_ok acc \<longleftrightarrow> acc = VmAreaFlags_access_only acc
     \<and> (VmAreaFlags_is_writable acc \<longrightarrow> VmAreaFlags_is_readable acc)"

lemma area_ok_protect:
  assumes "area_ok a" "page_range r"
  shows "area_ok (VmArea_new r (VmAreaFlags_with_access (va_flags a) acc) k) \<longleftrightarrow>
    (VmAreaFlags_is_writable acc \<longrightarrow> VmAreaFlags_is_readable acc)"
  using assms
  by (auto simp: area_ok_def validate_area_def Let_def page_range_def VirtRange_is_empty_def flag_bits
      VmAreaFlags_with_access_bit split: if_splits)

lemma protect_frags_inside:
  assumes "area_ok a" "page_range rng" "VmAreaFlags_is_writable acc \<longrightarrow> VmAreaFlags_is_readable acc"
  shows "inside a (protect_frags rng acc a)"
proof (cases "VirtRange_overlaps (va_range a) rng")
  case True
  let ?m = "\<lparr>vr_start = max (vr_start (va_range a)) (vr_start rng), vr_end = min (vr_end (va_range a)) (vr_end rng)\<rparr>"
  have "page_range ?m"
    using True assms(2) area_ok_range [OF assms(1)]
    by (auto simp: page_range_def VirtRange_overlaps_def VirtRange_ok_def VirtRange_is_page_aligned_iff
        max_def min_def)
  then have "inside a (mid_frag rng acc a)"
    using area_ok_protect [OF assms(1)] assms(3) by (simp add: inside_def mid_frag_def areas_inv_Cons)
  moreover have "\<forall>x \<in> set (left_frag rng a). \<forall>y \<in> set (mid_frag rng acc a @ right_frag rng a). area_before x y"
    "\<forall>x \<in> set (mid_frag rng acc a). \<forall>y \<in> set (right_frag rng a). area_before x y"
    using assms(2)
    by (auto simp: left_frag_def mid_frag_def right_frag_def area_before_def page_range_def)
  ultimately show ?thesis
    using left_frag_inside [OF assms(1,2) True] True
    by (simp only: inside_def protect_frags_def if_True areas_inv_append set_append) blast
qed (simp add: protect_frags_def inside_def areas_inv_Cons assms)

definition reprotect :: "VmAreaFlags \<Rightarrow> area_attrs \<Rightarrow> area_attrs" where
  "reprotect acc = (\<lambda>(f, k). (VmAreaFlags_with_access f acc, k))"

lemma protect_frags_lookup:
  assumes "page_range rng"
  shows "vma_lookup (protect_frags rng acc a) addr =
    (if VirtRange_contains (va_range a) addr
     then (if addr \<in> VirtRange_set rng then Some (reprotect acc (attrs a)) else Some (attrs a)) else None)"
  using assms frag_lookup [OF assms, where a = a and addr = addr] frags_disjoint_range [of a rng addr]
  by (auto simp: protect_frags_def vma_lookup_append VirtRange_set_def reprotect_def attrs_def
      split: option.split)

lemma protect_scan_correct:
  assumes "areas_inv xs" "c < vr_end rng"
  shows "case protect_scan rng xs c n of
      Ok (c', n') \<Rightarrow> (c' = vr_end rng \<longleftrightarrow> (\<forall>addr. c \<le> addr \<and> addr < vr_end rng \<longrightarrow> vma_lookup xs addr \<noteq> None))
    | Err e \<Rightarrow> e = AreaNotFound \<and> (\<exists>addr. c \<le> addr \<and> addr < vr_end rng \<and> vma_lookup xs addr = None)
    | Panic \<Rightarrow> False"
  using assms
proof (induction xs arbitrary: c n)
  case Nil
  then show ?case by auto
next
  case (Cons a xs)
  let ?a = "va_range a"
  have inv: "areas_inv xs" and after: "\<forall>b \<in> set xs. vr_end ?a \<le> vr_start (va_range b)"
    and ne: "vr_start ?a < vr_end ?a"
    using Cons.prems(1) area_ok_nonempty by (auto simp: areas_inv_Cons area_before_def)
  consider (skip) "vr_end ?a \<le> c \<or> vr_end rng \<le> vr_start ?a"
    | (hole) "c < vr_end ?a" "vr_start ?a < vr_end rng" "c < vr_start ?a"
    | (last) "vr_start ?a \<le> c" "vr_end rng \<le> vr_end ?a"
    | (more) "vr_start ?a \<le> c" "c < vr_end ?a" "vr_end ?a < vr_end rng"
    by linarith
  then show ?case
  proof cases
    case skip
    then have "vma_lookup (a # xs) addr = vma_lookup xs addr" if "c \<le> addr" "addr < vr_end rng" for addr
      using that by (auto simp: VirtRange_contains_def)
    with Cons.IH [OF inv Cons.prems(2), of n] skip show ?thesis
      by (auto simp del: vma_lookup.simps split: result.splits) 
  next
    case hole
    then have "vma_lookup (a # xs) c = None"
      using after ne by (fastforce simp: vma_lookup_None_iff VirtRange_contains_def)
    with hole Cons.prems(2) show ?thesis by (auto simp del: vma_lookup.simps)
  next
    case last
    with Cons.prems(2) show ?thesis by (auto simp: VirtRange_contains_def Let_def min_def)
  next
    case more
    have "(\<forall>addr. c \<le> addr \<and> addr < vr_end rng \<longrightarrow> vma_lookup (a # xs) addr \<noteq> None) \<longleftrightarrow>
      (\<forall>addr. vr_end ?a \<le> addr \<and> addr < vr_end rng \<longrightarrow> vma_lookup xs addr \<noteq> None)"
      using more by (auto simp: VirtRange_contains_def not_le)
    moreover have "protect_scan rng (a # xs) c n = protect_scan rng xs (vr_end ?a) (n + 1)"
      using more by (simp add: Let_def min_def)
    ultimately show ?thesis
      using Cons.IH [OF inv more(3), of "n + 1"] more(1,2)
      by (auto simp del: vma_lookup.simps split: result.splits)
  qed
qed


section \<open>Unmapping and protection\<close>

lemma remove_frags_whole:
  assumes "areas_inv xs" "page_range rng"
  shows "areas_inv (concat (map (remove_frags rng) xs))"
    "vma_lookup (concat (map (remove_frags rng) xs)) addr =
       (if addr \<in> VirtRange_set rng then None else vma_lookup xs addr)"
proof -
  show "areas_inv (concat (map (remove_frags rng) xs))"
    using assms remove_frags_inside areas_inv_member by (intro areas_inv_concat) auto
  show "vma_lookup (concat (map (remove_frags rng) xs)) addr =
       (if addr \<in> VirtRange_set rng then None else vma_lookup xs addr)"
    using lookup_concat [OF assms(1), of "\<lambda>v. if addr \<in> VirtRange_set rng then None else v"]
      remove_frags_lookup [OF assms(2)] by auto
qed

lemma protect_frags_whole:
  assumes "areas_inv xs" "page_range rng" "access_ok acc"
  shows "areas_inv (concat (map (protect_frags rng acc) xs))"
    "vma_lookup (concat (map (protect_frags rng acc) xs)) addr =
       (if addr \<in> VirtRange_set rng then map_option (reprotect acc) (vma_lookup xs addr)
        else vma_lookup xs addr)"
proof -
  show "areas_inv (concat (map (protect_frags rng acc) xs))"
    using assms protect_frags_inside areas_inv_member
    by (intro areas_inv_concat) (auto simp: access_ok_def)
  show "vma_lookup (concat (map (protect_frags rng acc) xs)) addr =
       (if addr \<in> VirtRange_set rng then map_option (reprotect acc) (vma_lookup xs addr)
        else vma_lookup xs addr)"
    using lookup_concat [OF assms(1), of
        "\<lambda>v. if addr \<in> VirtRange_set rng then map_option (reprotect acc) v else v"]
      protect_frags_lookup [OF assms(2)] by auto
qed

lemma touched_le: "touched rng xs \<le> length xs"
  by (simp add: touched_def)

text \<open>An operation range meets two interior ends, so a valid array grows by one (or two) areas.\<close>

lemma length_remove_frags1:
  "length (remove_frags rng a) \<le> 2"
  "vr_start rng \<le> vr_start (va_range a) \<Longrightarrow> length (remove_frags rng a) \<le> 1"
  "vr_end (va_range a) \<le> vr_start rng \<Longrightarrow> length (remove_frags rng a) = 1"
  by (simp_all add: remove_frags_def left_frag_def right_frag_def VirtRange_overlaps_def)

lemma length_remove_frags:
  assumes "areas_inv xs"
  shows "length (concat (map (remove_frags rng) xs)) \<le> Suc (length xs)"
proof -
  have later: "length (concat (map (remove_frags rng) xs)) \<le> length xs"
    if "\<forall>b \<in> set xs. vr_start rng \<le> vr_start (va_range b)" for xs
    using that
  proof (induction xs)
    case (Cons a xs)
    with length_remove_frags1(2) [of rng a] show ?case by simp
  qed simp
  show ?thesis
    using assms
  proof (induction xs)
    case (Cons a xs)
    show ?case
    proof (cases "vr_start rng < vr_end (va_range a)")
      case True
      with Cons.prems have "\<forall>b \<in> set xs. vr_start rng \<le> vr_start (va_range b)"
        by (auto simp: areas_inv_Cons area_before_def)
      with later [of xs] length_remove_frags1(1) [of rng a] show ?thesis by simp
    next
      case False
      with Cons length_remove_frags1(3) [of a rng] show ?thesis by (simp add: areas_inv_Cons)
    qed
  qed simp
qed

lemma VmAreaSet_remove_range_cases:
  assumes "VmAreaSet_inv s" "VirtRange_ok rng"
  shows "case VmAreaSet_remove_range ok rng s of
      (Ok n, s') \<Rightarrow> VmAreaSet_inv s' \<and> vas_capacity s' = vas_capacity s
        \<and> (\<forall>addr. VmAreaSet_lookup s' addr =
              (if addr \<in> VirtRange_set rng then None else VmAreaSet_lookup s addr))
        \<and> n = touched rng (vas_areas s)
    | (Err e, s') \<Rightarrow> s' = s \<and>
        (validate_operation_range rng = Err e \<or> e = MetadataOutOfMemory \<and> \<not> ok
         \<or> e = AreaCapacityExceeded \<and> VmAreaSet_len s = vas_capacity s)
    | (Panic, s') \<Rightarrow> False"
proof (cases "page_range rng \<and> ok")
  case True
  have inv: "areas_inv (vas_areas s)" "length (vas_areas s) \<le> vas_capacity s"
    using assms(1) by (simp_all add: VmAreaSet_inv_def)
  let ?fs = "concat (map (remove_frags rng) (vas_areas s))"
  have valid: "validate_operation_range rng = Ok ()"
    using True assms(2) by (simp add: validate_operation_range_iff)
  note whole = remove_frags_whole [OF inv(1), of rng] length_remove_frags [OF inv(1), of rng]
  from append_all_correct [of "[]" ?fs "vas_capacity s"] True whole inv(2) show ?thesis
    by (auto simp: VmAreaSet_remove_range_def valid remove_range_loop_eq VmAreaSet_inv_def
        VmAreaSet_len_def split: result.splits)
next
  case False
  moreover have "validate_operation_range rng \<noteq> Panic" by (simp add: validate_operation_range_def)
  ultimately show ?thesis
    using validate_operation_range_iff [OF assms(2)]
    by (cases "validate_operation_range rng") (auto simp: VmAreaSet_remove_range_def)
qed

lemma VmAreaSet_protect_range_cases:
  assumes "VmAreaSet_inv s" "page_range rng" "access_ok acc"
  shows "case VmAreaSet_protect_range ok rng acc s of
      (Ok n, s') \<Rightarrow> VmAreaSet_inv s' \<and> vas_capacity s' = vas_capacity s
        \<and> (\<forall>addr \<in> VirtRange_set rng. VmAreaSet_lookup s addr \<noteq> None)
        \<and> (\<forall>addr. VmAreaSet_lookup s' addr =
              (if addr \<in> VirtRange_set rng then map_option (reprotect acc) (VmAreaSet_lookup s addr)
               else VmAreaSet_lookup s addr))
    | (Err e, s') \<Rightarrow> s' = s
        \<and> (e = AreaNotFound \<longleftrightarrow> (\<exists>addr \<in> VirtRange_set rng. VmAreaSet_lookup s addr = None))
        \<and> (e = AreaNotFound \<or> e = MetadataOutOfMemory \<and> \<not> ok \<or> e = AreaCapacityExceeded)
    | (Panic, s') \<Rightarrow> False"
proof -
  have inv: "areas_inv (vas_areas s)" "length (vas_areas s) \<le> vas_capacity s"
    using assms(1) by (simp_all add: VmAreaSet_inv_def)
  have valid: "validate_operation_range rng = Ok ()" "vr_start rng < vr_end rng"
    using assms(2) by (simp_all add: validate_operation_range_iff [symmetric] page_range_def
        validate_operation_range_def VirtRange_is_empty_def)
  have acc: "acc = VmAreaFlags_access_only acc" using assms(3) by (simp add: access_ok_def)
  let ?fs = "concat (map (protect_frags rng acc) (vas_areas s))"
  have loop: "protect_range_loop rng acc (vas_capacity s) (vas_areas s) [] = append_all (vas_capacity s) [] ?fs"
    using assms(2) inv(1) by (intro protect_range_loop_eq) (auto dest: areas_inv_member area_ok_nonempty)
  note scan = protect_scan_correct [OF inv(1) valid(2), of 0]
  note rebuilt = append_all_correct [of "[]" ?fs "vas_capacity s"] protect_frags_whole [OF inv(1) assms(2,3)]
  show ?thesis
  proof (cases "\<forall>addr \<in> VirtRange_set rng. VmAreaSet_lookup s addr \<noteq> None")
    case True
    then have mapped: "\<forall>addr. vr_start rng \<le> addr \<and> addr < vr_end rng \<longrightarrow> VmAreaSet_lookup s addr \<noteq> None"
      by (simp add: VirtRange_set_def)
    obtain n where "protect_scan rng (vas_areas s) (vr_start rng) 0 = Ok (vr_end rng, n)"
      using scan mapped by (cases "protect_scan rng (vas_areas s) (vr_start rng) 0") auto
    with True rebuilt show ?thesis
      by (auto simp: VmAreaSet_protect_range_def valid(1) acc [symmetric] loop VmAreaSet_inv_def
          split: result.splits)
  next
    case False
    then obtain addr where addr: "addr \<in> VirtRange_set rng" "VmAreaSet_lookup s addr = None" by blast
    with scan have "VmAreaSet_protect_range ok rng acc s = (Err AreaNotFound, s)"
      by (cases "protect_scan rng (vas_areas s) (vr_start rng) 0")
        (auto simp: VmAreaSet_protect_range_def valid(1) acc [symmetric] VirtRange_set_def)
    with addr show ?thesis by auto
  qed
qed

section \<open>Exact removal and removal by kind\<close>

lemma vma_lookup_vec_remove:
  assumes "areas_inv xs" "i < length xs"
  shows "areas_inv (vec_remove i xs)"
    "vma_lookup (vec_remove i xs) addr =
       (if addr \<in> VirtRange_set (va_range (xs ! i)) then None else vma_lookup xs addr)"
proof -
  have split: "xs = take i xs @ xs ! i # drop (Suc i) xs"
    using assms(2) by (simp add: id_take_nth_drop [symmetric])
  then have inv: "areas_inv (take i xs @ xs ! i # drop (Suc i) xs)" using assms(1) by simp
  then show "areas_inv (vec_remove i xs)"
    by (auto simp: vec_remove_def areas_inv_append areas_inv_Cons)
  show "vma_lookup (vec_remove i xs) addr =
       (if addr \<in> VirtRange_set (va_range (xs ! i)) then None else vma_lookup xs addr)"
    using vma_lookup_insert [OF inv, of addr] vma_lookup_insert_free [OF inv, of addr] split
    by (simp add: vec_remove_def)
qed

lemma VmAreaSet_remove_exact_correct:
  assumes "VmAreaSet_inv s"
  shows "case VmAreaSet_remove_exact rng s of
      (Ok a, s') \<Rightarrow> VmAreaSet_inv s' \<and> vas_capacity s' = vas_capacity s
        \<and> a \<in> set (vas_areas s) \<and> va_range a = rng
        \<and> (\<forall>addr. VmAreaSet_lookup s' addr =
              (if addr \<in> VirtRange_set rng then None else VmAreaSet_lookup s addr))
    | (Err e, s') \<Rightarrow> s' = s \<and> e = AreaNotFound \<and> (\<forall>a \<in> set (vas_areas s). va_range a \<noteq> rng)
    | (Panic, s') \<Rightarrow> False"
proof (cases "VmAreaSet_find_exact_index s rng")
  case None
  then have "\<forall>a \<in> set (vas_areas s). va_range a \<noteq> rng"
    by (simp add: VmAreaSet_find_exact_index_def position_None)
  with None show ?thesis
    by (simp add: VmAreaSet_remove_exact_def)
next
  case (Some i)
  then have i: "i < length (vas_areas s)" "va_range (vas_areas s ! i) = rng"
    using position_Some by (fastforce simp: VmAreaSet_find_exact_index_def)+
  with Some assms vma_lookup_vec_remove [of "vas_areas s" i] show ?thesis
    by (auto simp: VmAreaSet_remove_exact_def VmAreaSet_inv_def)
qed

lemma VmAreaSet_remove_kind_correct:
  assumes "VmAreaSet_inv s"
  shows "case VmAreaSet_remove_kind ok kind s of
      (Ok n, s') \<Rightarrow> VmAreaSet_inv s' \<and> vas_capacity s' = vas_capacity s
        \<and> (\<forall>addr. VmAreaSet_lookup s' addr =
              (case VmAreaSet_lookup s addr of
                 Some (f, k) \<Rightarrow> if k = kind then None else Some (f, k) | None \<Rightarrow> None))
        \<and> n = length (filter (\<lambda>a. va_kind a = kind) (vas_areas s))
    | (Err e, s') \<Rightarrow> s' = s \<and> e = MetadataOutOfMemory \<and> \<not> ok
    | (Panic, s') \<Rightarrow> False"
proof -
  let ?f = "\<lambda>a. if va_kind a = kind then [] else [a]"
  have inv: "areas_inv (vas_areas s)" "length (vas_areas s) \<le> vas_capacity s"
    using assms by (simp_all add: VmAreaSet_inv_def)
  have conc: "filter (\<lambda>a. va_kind a \<noteq> kind) xs = concat (map ?f xs)" for xs
    by (induction xs) auto
  have "areas_inv (concat (map ?f (vas_areas s)))"
    using inv(1) by (intro areas_inv_concat) (auto simp: inside_def areas_inv_Cons areas_inv_def)
  moreover have "vma_lookup (concat (map ?f (vas_areas s))) addr =
      (case VmAreaSet_lookup s addr of
         Some (f, k) \<Rightarrow> if k = kind then None else Some (f, k) | None \<Rightarrow> None)" for addr
    by (rule lookup_concat [OF inv(1)]) (auto simp: attrs_def)
  moreover have "length (concat (map ?f (vas_areas s))) \<le> vas_capacity s"
    using inv(2) length_filter_le [of "\<lambda>a. va_kind a \<noteq> kind" "vas_areas s"]
    unfolding conc [symmetric] by (rule le_trans [rotated])
  ultimately show ?thesis
    using append_all_correct [of "[]" "concat (map ?f (vas_areas s))" "vas_capacity s"]
    by (auto simp: VmAreaSet_remove_kind_def remove_kind_loop_eq conc VmAreaSet_inv_def
        split: result.splits)
qed

end
