(* ===== verification/Vma_Search.thy ===== *)
theory Vma_Search
  imports Vma_Facts
begin

text \<open>
  Searching the area set of \<open>mm/src/vma.rs\<close>: the binary search of \<open>find\<close> against a linear scan, and
  the first-fit search of \<open>find_free_range\<close> against the set of all suitable gaps.
\<close>

section \<open>Alignment of multiples below the end of the address space\<close>

lemma multiple_room:
  assumes "is_power_of_two al" "al \<le> usize_MAX" "al dvd c" "c \<le> usize_MAX"
  shows "c + (al - 1) \<le> usize_MAX"
proof -
  obtain k where k: "al = 2 ^ k" "k < 64"
    using assms(1,2) by (rule power_of_two_le_usize_MAX)
  then have "al dvd 2 ^ 64" by (metis le_imp_power_dvd less_imp_le)
  then have "c + al \<le> 2 ^ 64"
    using assms(4) by (intro dvd_gap [OF assms(3)]) (simp_all add: usize_MAX_def)
  then show ?thesis
    using is_power_of_two_pos [OF assms(1)] by (simp add: usize_MAX_def)
qed

text \<open>A multiple above \<open>a\<close> bounds the rounded value, and rounding does not overflow.\<close>

lemma align_up_below_multiple:
  assumes "is_power_of_two al" "al \<le> usize_MAX" "al dvd c" "c \<le> usize_MAX" "a \<le> c"
  shows "VirtAddr_align_up a al = Some (round_up al a) \<and> round_up al a \<le> c"
  using multiple_room [OF assms(1-4)] assms is_power_of_two_pos [OF assms(1)]
  by (simp add: VirtAddr_align_up_eq round_up_least)

lemma vma_align_up_eq:
  "vma_align_up n PAGE_SIZE = (if n + (PAGE_SIZE - 1) \<le> usize_MAX then Some (round_up PAGE_SIZE n) else None)"
  by (simp add: vma_align_up_def checked_add_def align_mask_round round_up_eq_down)

lemma VirtAddr_align_up_Some:
  assumes "VirtAddr_align_up a al = Some c" "al \<le> usize_MAX"
  shows "al dvd c" "a \<le> c" "c \<le> usize_MAX" "c = round_up al a"
proof -
  have *: "is_power_of_two al" "a + (al - 1) \<le> usize_MAX" "c = round_up al a"
    using assms by (auto simp: VirtAddr_align_up_eq split: if_splits)
  then show "al dvd c" "a \<le> c" "c \<le> usize_MAX" "c = round_up al a"
    using le_round_up [of al a] round_up_le [of al a] is_power_of_two_pos [of al] by auto
qed

section \<open>Gaps\<close>

definition free_gap :: "VmArea list \<Rightarrow> VirtRange \<Rightarrow> usize \<Rightarrow> usize \<Rightarrow> VirtAddr \<Rightarrow> bool" where
  "free_gap xs search n al c \<longleftrightarrow> al dvd c \<and> vr_start search \<le> c \<and> c + n \<le> vr_end search
     \<and> (\<forall>addr. c \<le> addr \<and> addr < c + n \<longrightarrow> vma_lookup xs addr = None)"

lemma free_gap_dvd: "free_gap xs search n al c \<Longrightarrow> al dvd c"
  by (simp add: free_gap_def)

lemma free_gap_skip:
  "vr_end (va_range a) \<le> c \<Longrightarrow> free_gap (a # xs) search n al c \<longleftrightarrow> free_gap xs search n al c"
  by (auto simp: free_gap_def VirtRange_contains_def)

lemma free_gap_after_area:
  assumes "free_gap (a # xs) search n al c" "vr_start (va_range a) < c + n" "0 < n" "area_ok a"
  shows "vr_end (va_range a) \<le> c"
proof (rule ccontr)
  assume "\<not> vr_end (va_range a) \<le> c"
  then have "VirtRange_contains (va_range a) (max c (vr_start (va_range a)))"
    using area_ok_nonempty [OF assms(4)] by (simp add: VirtRange_contains_def)
  moreover have "vma_lookup (a # xs) (max c (vr_start (va_range a))) = None"
    using assms(1-3) unfolding free_gap_def by (metis less_add_same_cancel1 max.cobounded1 max_less_iff_conj)
  ultimately show False by simp
qed

lemma free_gap_before_areas:
  assumes "areas_inv (a # xs)" "al dvd c" "vr_start search \<le> c" "c + n \<le> vr_end search"
    "c + n \<le> vr_start (va_range a)"
  shows "free_gap (a # xs) search n al c"
  using assms area_ok_nonempty [of a]
  by (fastforce simp: free_gap_def vma_lookup_None_iff areas_inv_Cons area_before_def VirtRange_contains_def)

definition gap_outcome ::
  "VmArea list \<Rightarrow> VirtRange \<Rightarrow> usize \<Rightarrow> usize \<Rightarrow> VirtAddr \<Rightarrow> (VirtRange + VirtAddr, VmAreaError) result \<Rightarrow> bool"
  where
  "gap_outcome xs search n al cand r =
     (case r of
        Ok (Inl gap) \<Rightarrow> vr_end gap = vr_start gap + n \<and> cand \<le> vr_start gap
          \<and> free_gap xs search n al (vr_start gap)
          \<and> (\<forall>c. cand \<le> c \<longrightarrow> free_gap xs search n al c \<longrightarrow> vr_start gap \<le> c)
      | Ok (Inr c0) \<Rightarrow> al dvd c0 \<and> cand \<le> c0 \<and> c0 \<le> usize_MAX
          \<and> (\<forall>a \<in> set xs. vr_end (va_range a) \<le> c0)
          \<and> (\<forall>c. cand \<le> c \<longrightarrow> free_gap xs search n al c \<longrightarrow> c0 \<le> c)
      | Err e \<Rightarrow> (\<forall>c. cand \<le> c \<longrightarrow> \<not> free_gap xs search n al c)
      | Panic \<Rightarrow> False)"

lemma gap_outcome_skip:
  assumes "gap_outcome xs search n al cand' r" "vr_end (va_range a) \<le> cand'" "cand \<le> cand'"
    and "\<And>c. cand \<le> c \<Longrightarrow> free_gap (a # xs) search n al c \<Longrightarrow> cand' \<le> c"
  shows "gap_outcome (a # xs) search n al cand r"
  using assms free_gap_skip [of a _ xs search n al]
  by (fastforce simp: gap_outcome_def split: result.splits sum.splits)

lemma find_free_range_loop_correct:
  assumes "areas_inv xs" "VirtRange_ok search" "is_power_of_two al" "al \<le> usize_MAX" "0 < n"
    and "al dvd cand" "vr_start search \<le> cand" "cand \<le> usize_MAX"
  shows "gap_outcome xs search n al cand (find_free_range_loop search n al xs cand)"
  using assms(1,6-8)
proof (induction xs arbitrary: cand)
  case Nil
  then show ?case by (simp add: gap_outcome_def)
next
  case (Cons a xs)
  let ?a = "va_range a"
  have inv: "areas_inv xs" and ok: "area_ok a"
    using Cons.prems(1) by (simp_all add: areas_inv_Cons)
  have top: "c + n \<le> usize_MAX" if "free_gap (a # xs) search n al c" for c
    using that assms(2) by (simp add: free_gap_def VirtRange_ok_def)
  consider (skip) "vr_end ?a \<le> cand" | (overflow) "cand < vr_end ?a" "usize_MAX < cand + n"
    | (found) "cand < vr_end ?a" "cand + n \<le> vr_end search" "cand + n \<le> vr_start ?a" "cand + n \<le> usize_MAX"
    | (advance) "cand < vr_end ?a" "cand + n \<le> usize_MAX" "vr_end search < cand + n \<or> vr_start ?a < cand + n"
    by linarith
  then show ?case
  proof cases
    case skip
    from Cons.IH [OF inv Cons.prems(2-4)] skip show ?thesis
      by (auto intro: gap_outcome_skip)
  next
    case overflow
    with top show ?thesis by (force simp: gap_outcome_def checked_add_def)
  next
    case found
    then have "find_free_range_loop search n al (a # xs) cand = Ok (Inl \<lparr>vr_start = cand, vr_end = cand + n\<rparr>)"
      using Cons.prems(3)
      by (simp add: checked_add_def VirtRange_contains_range_def VirtRange_overlaps_def)
    then show ?thesis
      using free_gap_before_areas [OF Cons.prems(1,2,3) found(2,3)] by (simp add: gap_outcome_def)
  next
    case advance
    have far: "vr_end ?a \<le> c" if "cand \<le> c" "free_gap (a # xs) search n al c" for c
      using that advance(3) free_gap_after_area [OF that(2) _ assms(5) ok]
      by (auto simp: free_gap_def)
    have loop: "find_free_range_loop search n al (a # xs) cand =
        rbind (ok_or (VirtAddr_align_up (vr_end ?a) al) AddressOverflow)
          (\<lambda>c. find_free_range_loop search n al xs c)"
      using advance Cons.prems(3)
      by (auto simp: checked_add_def VirtRange_contains_range_def VirtRange_overlaps_def)
    have bound: "VirtAddr_align_up (vr_end ?a) al = Some (round_up al (vr_end ?a)) \<and> round_up al (vr_end ?a) \<le> c"
      if "cand \<le> c" "free_gap (a # xs) search n al c" for c
      using top [OF that(2)] free_gap_dvd [OF that(2)]
      by (intro align_up_below_multiple [OF assms(3,4) _ _ far [OF that]]) simp_all
    show ?thesis
    proof (cases "VirtAddr_align_up (vr_end ?a) al")
      case None
      with bound have "\<not> free_gap (a # xs) search n al c" if "cand \<le> c" for c
        using that by auto
      then show ?thesis unfolding loop None by (simp add: gap_outcome_def)
    next
      case (Some c')
      note c' = VirtAddr_align_up_Some [OF Some assms(4)]
      show ?thesis
        unfolding loop Some ok_or.simps rbind.simps
        using Cons.IH [OF inv c'(1) _ c'(3)] c'(2) advance(1) Cons.prems(3) bound c'(4)
        by (intro gap_outcome_skip [of xs search n al c']) auto
    qed
  qed
qed

lemma VmAreaSet_find_free_range_cases:
  assumes "VmAreaSet_inv s" "VirtRange_ok search" "0 < sz" "PAGE_SIZE \<le> al" "is_power_of_two al"
    and "al \<le> usize_MAX"
  defines "gap_at \<equiv> free_gap (vas_areas s) search (round_up PAGE_SIZE sz) al"
  shows "case VmAreaSet_find_free_range s search sz al of
      Ok gap \<Rightarrow> gap_at (vr_start gap) \<and> vr_end gap = vr_start gap + round_up PAGE_SIZE sz
        \<and> (\<forall>c. gap_at c \<longrightarrow> vr_start gap \<le> c)
    | Err e \<Rightarrow> (\<forall>c. \<not> gap_at c)
    | Panic \<Rightarrow> False"
proof -
  let ?n = "round_up PAGE_SIZE sz"
  have inv: "areas_inv (vas_areas s)" using assms(1) by (simp add: VmAreaSet_inv_def)
  have n: "0 < ?n" using le_round_up [of PAGE_SIZE sz] assms(3) by simp
  have top: "c + ?n \<le> usize_MAX" "vr_start search \<le> c" "al dvd c" "c + ?n \<le> vr_end search" if "gap_at c" for c
    using that assms(2) by (auto simp: gap_at_def free_gap_def VirtRange_ok_def)
  have guards: "sz \<noteq> 0" "\<not> (al < PAGE_SIZE \<or> \<not> is_power_of_two al)" using assms(3-5) by auto
  show ?thesis
  proof (cases "sz + (PAGE_SIZE - 1) \<le> usize_MAX")
    case False
    have "\<not> gap_at c" for c
      using False top(1) [of c] multiple_room [of PAGE_SIZE ?n] le_round_up [of PAGE_SIZE sz] by auto
    with False guards show ?thesis by (simp add: VmAreaSet_find_free_range_def vma_align_up_eq)
  next
    case size: True
    show ?thesis
    proof (cases "VirtAddr_align_up (vr_start search) al")
      case None
      have "\<not> gap_at c" for c
        using None align_up_below_multiple [OF assms(5,6), of c "vr_start search"] top [of c] by auto
      with size guards None show ?thesis
        by (simp add: VmAreaSet_find_free_range_def vma_align_up_eq)
    next
      case (Some cand)
      note cand = VirtAddr_align_up_Some [OF Some assms(6)]
      have least: "cand \<le> c" if "gap_at c" for c
        using align_up_below_multiple [OF assms(5,6), of c "vr_start search"] top [OF that] cand(4) by auto
      note outcome = find_free_range_loop_correct [OF inv assms(2,5,6) n cand(1-3)]
      have last: "gap_at c0" if "al dvd c0" "vr_start search \<le> c0" "c0 + ?n \<le> vr_end search"
          "\<forall>a \<in> set (vas_areas s). vr_end (va_range a) \<le> c0" for c0
        using that by (auto simp: gap_at_def free_gap_def vma_lookup_None_iff VirtRange_contains_def)
      have expand: "VmAreaSet_find_free_range s search sz al =
        rbind (find_free_range_loop search ?n al (vas_areas s) cand) (\<lambda>r. case r of
            Inl gap \<Rightarrow> Ok gap
          | Inr c0 \<Rightarrow>
              if usize_MAX < c0 + ?n then Err AddressOverflow
              else if c0 + ?n \<le> vr_end search \<and> vr_start search \<le> c0
                then Ok \<lparr>vr_start = c0, vr_end = c0 + ?n\<rparr> else Err AreaCapacityExceeded)"
        using guards size
        by (auto simp: VmAreaSet_find_free_range_def vma_align_up_eq Some checked_add_def
            VirtRange_contains_range_def intro!: arg_cong [where f = "rbind _"] split: sum.split)
      show ?thesis
      proof (cases "find_free_range_loop search ?n al (vas_areas s) cand")
        case (Ok r)
        show ?thesis
        proof (cases r)
          case (Inl gap)
          with outcome least Ok show ?thesis by (simp add: expand gap_outcome_def gap_at_def)
        next
          case (Inr c0)
          with outcome Ok have c0: "al dvd c0" "cand \<le> c0" "\<forall>a \<in> set (vas_areas s). vr_end (va_range a) \<le> c0"
            "\<And>c. cand \<le> c \<Longrightarrow> gap_at c \<Longrightarrow> c0 \<le> c"
            by (auto simp: gap_outcome_def gap_at_def)
          have lower: "c0 \<le> c" if "gap_at c" for c using that c0(4) least by blast
          have "vr_start search \<le> c0" using c0(2) cand(2) by simp
          moreover have "\<not> gap_at c" if "usize_MAX < c0 + ?n \<or> vr_end search < c0 + ?n" for c
            using that lower [of c] top(1,4) [of c] by linarith
          ultimately show ?thesis
            using last [OF c0(1) _ _ c0(3)] lower by (auto simp: expand Ok Inr not_le)
        qed
      next
        case (Err e)
        with outcome least show ?thesis by (auto simp: expand gap_outcome_def gap_at_def)
      next
        case Panic
        with outcome show ?thesis by (simp add: gap_outcome_def)
      qed
    qed
  qed
qed


section \<open>Properties\<close>

text \<open>
  C10. Inserting an area: on success the range was unmapped, the set stays valid (sorted, disjoint,
  page aligned, within capacity), and exactly the addresses of the range gain the area's flags and kind,
  whether or not the area was coalesced with its neighbours. An error is returned only for an invalid
  area, for a range that meets a mapped address, for a full set or for a refused allocation, and then
  nothing changes.
\<close>

theorem VmAreaSet_insert_correct:
  assumes "VmAreaSet_inv s" "VirtRange_ok (va_range area)"
  shows "case VmAreaSet_insert ok area s of
      (Ok _, s') \<Rightarrow> VmAreaSet_inv s' \<and> vas_capacity s' = vas_capacity s
        \<and> (\<forall>addr. VmAreaSet_lookup s' addr =
              (if addr \<in> VirtRange_set (va_range area) then Some (attrs area)
               else VmAreaSet_lookup s addr))
        \<and> (\<forall>addr \<in> VirtRange_set (va_range area). VmAreaSet_lookup s addr = None)
    | (Err e, s') \<Rightarrow> s' = s \<and>
        (validate_area area = Err e
         \<or> e = Overlap \<and> (\<exists>addr \<in> VirtRange_set (va_range area). VmAreaSet_lookup s addr \<noteq> None)
         \<or> e = AreaCapacityExceeded \<and> VmAreaSet_len s = vas_capacity s
         \<or> e = MetadataOutOfMemory \<and> \<not> ok)
    | (Panic, s') \<Rightarrow> False"
  by (rule VmAreaSet_insert_cases [OF assms])

text \<open>
  C11. Unmapping a range (the core of \<open>munmap\<close>): on success exactly the addresses of the range lose
  their mapping, every other address keeps its flags and kind, the set stays valid and the returned
  number is the number of areas that met the range. Holes are accepted. A valid range with an available
  allocation and one spare slot always succeeds; a failure leaves the set as it was.
\<close>

theorem VmAreaSet_remove_range_correct:
  assumes "VmAreaSet_inv s" "VirtRange_ok rng"
  shows "case VmAreaSet_remove_range ok rng s of
      (Ok n, s') \<Rightarrow> VmAreaSet_inv s' \<and> vas_capacity s' = vas_capacity s
        \<and> (\<forall>addr. VmAreaSet_lookup s' addr =
              (if addr \<in> VirtRange_set rng then None else VmAreaSet_lookup s addr))
        \<and> n = touched rng (vas_areas s)
    | (Err e, s') \<Rightarrow> s' = s \<and>
        (validate_operation_range rng = Err e \<or> e = MetadataOutOfMemory \<and> \<not> ok
         \<or> e = AreaCapacityExceeded \<and> VmAreaSet_len s = vas_capacity s)
    | (Panic, s') \<Rightarrow> False"
  by (rule VmAreaSet_remove_range_cases [OF assms])

text \<open>
  C12. Changing access rights (the core of \<open>mprotect\<close>): on success the whole range was mapped, its
  addresses get the new read/write/execute bits and keep every other flag and their kind, every other
  address is untouched and the set stays valid. A failure leaves the set as it was; the range is
  reported as not found exactly when it has a hole.
\<close>

theorem VmAreaSet_protect_range_correct:
  assumes "VmAreaSet_inv s" "page_range rng" "access_ok acc"
  shows "case VmAreaSet_protect_range ok rng acc s of
      (Ok n, s') \<Rightarrow> VmAreaSet_inv s' \<and> vas_capacity s' = vas_capacity s
        \<and> (\<forall>addr \<in> VirtRange_set rng. VmAreaSet_lookup s addr \<noteq> None)
        \<and> (\<forall>addr. VmAreaSet_lookup s' addr =
              (if addr \<in> VirtRange_set rng then map_option (reprotect acc) (VmAreaSet_lookup s addr)
               else VmAreaSet_lookup s addr))
    | (Err e, s') \<Rightarrow> s' = s
        \<and> (e = AreaNotFound \<longleftrightarrow> (\<exists>addr \<in> VirtRange_set rng. VmAreaSet_lookup s addr = None))
        \<and> (e = AreaNotFound \<or> e = MetadataOutOfMemory \<and> \<not> ok \<or> e = AreaCapacityExceeded)
    | (Panic, s') \<Rightarrow> False"
  by (rule VmAreaSet_protect_range_cases [OF assms])

text \<open>
  C13. Searching for free address space (the placement step of \<open>mmap\<close>): the result is the lowest
  aligned range of the requested size, rounded up to whole pages, that lies in the search window and
  meets no mapped address; an error is returned only when there is no such range. Neither the page
  rounding, the alignment nor the end computation ever wraps.
\<close>

theorem VmAreaSet_find_free_range_correct:
  assumes "VmAreaSet_inv s" "VirtRange_ok search" "0 < sz" "PAGE_SIZE \<le> al" "is_power_of_two al"
    and "al \<le> usize_MAX"
  shows "case VmAreaSet_find_free_range s search sz al of
      Ok gap \<Rightarrow> free_gap (vas_areas s) search (round_up PAGE_SIZE sz) al (vr_start gap) \<and> vr_end gap = vr_start gap + round_up PAGE_SIZE sz
        \<and> (\<forall>c. free_gap (vas_areas s) search (round_up PAGE_SIZE sz) al c \<longrightarrow> vr_start gap \<le> c)
    | Err e \<Rightarrow> (\<forall>c. \<not> free_gap (vas_areas s) search (round_up PAGE_SIZE sz) al c)
    | Panic \<Rightarrow> False"
  by (rule VmAreaSet_find_free_range_cases [OF assms])

text \<open>
  C40. The binary search of \<open>find\<close> returns what a linear scan returns: the area that contains the
  address if there is one, and nothing otherwise.
\<close>

theorem VmAreaSet_find_linear:
  assumes "VmAreaSet_inv s"
  shows "VmAreaSet_find s addr = List.find (\<lambda>a. VirtRange_contains (va_range a) addr) (vas_areas s)"
proof -
  have inv: "areas_inv (vas_areas s)" using assms by (simp add: VmAreaSet_inv_def)
  let ?P = "\<lambda>a. VirtRange_contains (va_range a) addr"
  show ?thesis
  proof (cases "List.find ?P (vas_areas s)")
    case None
    then have "\<forall>a \<in> set (vas_areas s). \<not> ?P a" by (auto simp: find_None_iff)
    then have "VmAreaSet_find s addr = None"
      using VmAreaSet_find_Some_iff [OF inv, of addr] by (cases "VmAreaSet_find s addr") auto
    with None show ?thesis by simp
  next
    case (Some a)
    then have "a \<in> set (vas_areas s)" "?P a" by (auto simp: find_Some_iff)
    with Some VmAreaSet_find_Some_iff [OF inv] show ?thesis by simp
  qed
qed

section \<open>Concrete sets\<close>

abbreviation va_at :: "nat \<Rightarrow> nat \<Rightarrow> VirtRange" where
  "va_at i j \<equiv> \<lparr>vr_start = 4096 * i, vr_end = 4096 * j\<rparr>"

text \<open>Two areas: a text segment and an anonymous mapping, with a hole between them.\<close>

abbreviation two_areas :: VmAreaSet where
  "two_areas \<equiv> \<lparr>vas_capacity = 4, vas_areas =
     [\<lparr>va_range = va_at 1 3, va_flags = 45, va_kind = Kernel\<rparr>,
      \<lparr>va_range = va_at 5 9, va_flags = 43, va_kind = Anonymous\<rparr>]\<rparr>"

lemmas vma_eval = VmAreaSet_inv_def areas_inv_def area_ok_def validate_area_def Let_def VirtRange_ok_def
  VirtRange_is_empty_def VirtRange_is_page_aligned_iff PAGE_SIZE_eq usize_MAX_def area_before_def
  VmAreaFlags_contains_def VmAreaFlags_is_writable_def VmAreaFlags_is_readable_def
  VmAreaFlags_is_copy_on_write_def VmAreaFlags_READ_def VmAreaFlags_WRITE_def VmAreaFlags_SHARED_def
  VmAreaFlags_PRIVATE_def VmAreaFlags_COPY_ON_WRITE_def VmAreaFlags_EXECUTE_def

lemma two_areas_inv: "VmAreaSet_inv two_areas"
  by (simp add: vma_eval)

theorem VmAreaSet_find_linear_witness:
  "VmAreaSet_find two_areas 20481 = Some \<lparr>va_range = va_at 5 9, va_flags = 43, va_kind = Anonymous\<rparr>"
  using VmAreaSet_find_linear [OF two_areas_inv, of 20481] by (simp add: VirtRange_contains_def)

theorem VmAreaSet_find_free_range_witness:
  "VmAreaSet_find_free_range two_areas (va_at 1 20) 5000 4096 = Ok (va_at 3 5)
   \<and> free_gap (vas_areas two_areas) (va_at 1 20) 8192 4096 12288"
proof -
  have "VmAreaSet_find_free_range two_areas (va_at 1 20) 5000 4096 = Ok (va_at 3 5)"
    using PAGE_SIZE_power_of_two
    by (simp add: VmAreaSet_find_free_range_def vma_align_up_eq [unfolded PAGE_SIZE_eq] VirtAddr_align_up_eq PAGE_SIZE_eq
        usize_MAX_def round_up_def checked_add_def VirtRange_new_def VirtRange_contains_range_def
        VirtRange_overlaps_def)
  with VmAreaSet_find_free_range_correct [OF two_areas_inv, of "va_at 1 20" 5000 4096]
    PAGE_SIZE_power_of_two
  show ?thesis by (simp add: VirtRange_ok_def PAGE_SIZE_eq usize_MAX_def round_up_def)
qed


theorem VmAreaSet_insert_witness:
  "VmAreaSet_insert True \<lparr>va_range = va_at 3 5, va_flags = 43, va_kind = Anonymous\<rparr> two_areas =
     (Ok (), \<lparr>vas_capacity = 4, vas_areas =
       [\<lparr>va_range = va_at 1 3, va_flags = 45, va_kind = Kernel\<rparr>,
        \<lparr>va_range = va_at 3 9, va_flags = 43, va_kind = Anonymous\<rparr>]\<rparr>)
   \<and> VmAreaSet_lookup two_areas 12288 = None"
proof -
  have *: "VmAreaSet_insert True \<lparr>va_range = va_at 3 5, va_flags = 43, va_kind = Anonymous\<rparr> two_areas =
     (Ok (), \<lparr>vas_capacity = 4, vas_areas =
       [\<lparr>va_range = va_at 1 3, va_flags = 45, va_kind = Kernel\<rparr>,
        \<lparr>va_range = va_at 3 9, va_flags = 43, va_kind = Anonymous\<rparr>]\<rparr>)"
    by (simp add: VmAreaSet_insert_def VmAreaSet_insertion_index_def VmAreaSet_len_def
        insertion_index_loop.simps vma_eval VirtRange_overlaps_def VmArea_new_def)
  with VmAreaSet_insert_correct [OF two_areas_inv,
      of "\<lparr>va_range = va_at 3 5, va_flags = 43, va_kind = Anonymous\<rparr>" True]
  show ?thesis by (simp add: VirtRange_ok_def usize_MAX_def VirtRange_set_def)
qed

theorem VmAreaSet_remove_range_witness:
  "VmAreaSet_remove_range True (va_at 2 7) two_areas =
     (Ok 2, \<lparr>vas_capacity = 4, vas_areas =
       [\<lparr>va_range = va_at 1 2, va_flags = 45, va_kind = Kernel\<rparr>,
        \<lparr>va_range = va_at 7 9, va_flags = 43, va_kind = Anonymous\<rparr>]\<rparr>)
   \<and> touched (va_at 2 7) (vas_areas two_areas) = 2"
proof -
  have *: "VmAreaSet_remove_range True (va_at 2 7) two_areas =
     (Ok 2, \<lparr>vas_capacity = 4, vas_areas =
       [\<lparr>va_range = va_at 1 2, va_flags = 45, va_kind = Kernel\<rparr>,
        \<lparr>va_range = va_at 7 9, va_flags = 43, va_kind = Anonymous\<rparr>]\<rparr>)"
    by (simp add: VmAreaSet_remove_range_def validate_operation_range_def append_left_def append_right_def
        append_area_def vma_eval VirtRange_overlaps_def VmArea_new_def)
  with VmAreaSet_remove_range_correct [OF two_areas_inv, of "va_at 2 7" True]
  show ?thesis by (simp add: VirtRange_ok_def usize_MAX_def)
qed

theorem VmAreaSet_protect_range_witness:
  "VmAreaSet_protect_range True (va_at 6 7) 1 two_areas =
     (Ok 1, \<lparr>vas_capacity = 4, vas_areas =
       [\<lparr>va_range = va_at 1 3, va_flags = 45, va_kind = Kernel\<rparr>,
        \<lparr>va_range = va_at 5 6, va_flags = 43, va_kind = Anonymous\<rparr>,
        \<lparr>va_range = va_at 6 7, va_flags = 41, va_kind = Anonymous\<rparr>,
        \<lparr>va_range = va_at 7 9, va_flags = 43, va_kind = Anonymous\<rparr>]\<rparr>)
   \<and> VmAreaSet_lookup two_areas 24576 \<noteq> None"
proof -
  have *: "VmAreaSet_protect_range True (va_at 6 7) 1 two_areas =
     (Ok 1, \<lparr>vas_capacity = 4, vas_areas =
       [\<lparr>va_range = va_at 1 3, va_flags = 45, va_kind = Kernel\<rparr>,
        \<lparr>va_range = va_at 5 6, va_flags = 43, va_kind = Anonymous\<rparr>,
        \<lparr>va_range = va_at 6 7, va_flags = 41, va_kind = Anonymous\<rparr>,
        \<lparr>va_range = va_at 7 9, va_flags = 43, va_kind = Anonymous\<rparr>]\<rparr>)"
    by (simp add: VmAreaSet_protect_range_def validate_operation_range_def append_left_def append_right_def
        append_protected_def append_area_def vma_eval VirtRange_overlaps_def VmArea_new_def
        VmAreaFlags_access_only_def VmAreaFlags_with_access_def VmAreaFlags_union_def
        VmAreaFlags_without_def)
  have "page_range (va_at 6 7)" "access_ok 1"
    by (simp_all add: page_range_def access_ok_def VmAreaFlags_access_only_def vma_eval)
  from VmAreaSet_protect_range_correct [OF two_areas_inv this, of True] *
  show ?thesis by (simp add: VirtRange_set_def)
qed

end
