(* ===== verification/Address_Space.thy ===== *)
theory Address_Space
  imports Vma_Search
begin

text \<open>
  Address spaces: the user range, the area set and the program break of \<open>mm/src/address_space.rs\<close>,
  and the guarded kernel virtual allocator of \<open>mm/src/vmalloc.rs\<close>, both clients of the area set.

  The contract they rely on is the locale \<open>area_store\<close>: a store of areas seen through its lookup
  function. It is interpreted on the area set of theory \<open>Vma\<close>, with an allocator that grants every
  request; that is the situation after a removal, because a vector keeps the slot of a removed element.
\<close>

section \<open>The contract of an area store\<close>

locale area_store =
  fixes insert :: "VmArea \<Rightarrow> ('s, unit, VmAreaError) action"
    and remove :: "VirtRange \<Rightarrow> ('s, VmArea, VmAreaError) action"
    and lookup :: "'s \<Rightarrow> VirtAddr \<Rightarrow> area_attrs option"
    and inv :: "'s \<Rightarrow> bool"
    and spare :: "'s \<Rightarrow> bool"
  assumes remove_ok: "inv s \<Longrightarrow> remove r s = (Ok a, s') \<Longrightarrow>
      inv s' \<and> spare s' \<and> va_range a = r \<and> area_ok a
      \<and> (\<forall>addr \<in> VirtRange_set r. lookup s addr = Some (attrs a))
      \<and> (\<forall>addr. lookup s' addr = (if addr \<in> VirtRange_set r then None else lookup s addr))"
    and remove_err: "inv s \<Longrightarrow> remove r s = (Err e, s') \<Longrightarrow> s' = s"
    and remove_total: "inv s \<Longrightarrow> remove r s \<noteq> (Panic, s')"
    and insert_ok: "inv s \<Longrightarrow> VirtRange_ok (va_range a) \<Longrightarrow> insert a s = (Ok u, s') \<Longrightarrow>
      inv s' \<and> (\<forall>addr \<in> VirtRange_set (va_range a). lookup s addr = None)
      \<and> (\<forall>addr. lookup s' addr =
            (if addr \<in> VirtRange_set (va_range a) then Some (attrs a) else lookup s addr))"
    and insert_err: "inv s \<Longrightarrow> VirtRange_ok (va_range a) \<Longrightarrow> insert a s = (Err e, s') \<Longrightarrow> s' = s"
    and insert_total: "inv s \<Longrightarrow> spare s \<Longrightarrow> area_ok a \<Longrightarrow>
      \<forall>addr \<in> VirtRange_set (va_range a). lookup s addr = None \<Longrightarrow> \<exists>s'. insert a s = (Ok (), s')"
begin

text \<open>Putting a removed area back succeeds and restores the lookup function.\<close>

lemma restore:
  assumes "inv s" "remove r s = (Ok a, s')"
  obtains s'' where "insert a s' = (Ok (), s'')" "inv s''" "lookup s'' = lookup s"
proof -
  note rem = remove_ok [OF assms]
  then obtain s'' where ins: "insert a s' = (Ok (), s'')"
    using insert_total [of s' a] by auto
  moreover have "VirtRange_ok (va_range a)" using rem by (auto simp: area_ok_def)
  ultimately have "inv s''" "lookup s'' = lookup s"
    using insert_ok [of s' a "()" s''] rem by (auto intro!: ext)
  with ins show ?thesis by (rule that)
qed

end

definition VmAreaSet_spare :: "VmAreaSet \<Rightarrow> bool" where
  "VmAreaSet_spare s \<longleftrightarrow> length (vas_areas s) < vas_capacity s"

lemma vma_lookup_member:
  "areas_inv xs \<Longrightarrow> a \<in> set xs \<Longrightarrow> addr \<in> VirtRange_set (va_range a) \<Longrightarrow> vma_lookup xs addr = Some (attrs a)"
  by (auto simp: vma_lookup_Some_iff VirtRange_contains_iff)

lemma VmAreaSet_insert_total:
  assumes "VmAreaSet_inv s" "VmAreaSet_spare s" "area_ok a"
    and "\<forall>addr \<in> VirtRange_set (va_range a). VmAreaSet_lookup s addr = None"
  shows "\<exists>s'. VmAreaSet_insert True a s = (Ok (), s')"
proof -
  obtain r s' where step: "VmAreaSet_insert True a s = (r, s')" by fastforce
  have "VirtRange_ok (va_range a)" "validate_area a = Ok ()" using assms(3) by (auto simp: area_ok_def)
  with VmAreaSet_insert_cases [OF assms(1) this(1), of True] assms(2,4) step
  show ?thesis
    by (cases r) (auto simp: VmAreaSet_spare_def VmAreaSet_len_def)
qed


lemma VmAreaSet_insert_OkD:
  assumes "VmAreaSet_inv s" "VirtRange_ok (va_range a)" "VmAreaSet_insert ok a s = (Ok u, s')"
  shows "VmAreaSet_inv s'" "vas_capacity s' = vas_capacity s"
    "\<forall>addr \<in> VirtRange_set (va_range a). VmAreaSet_lookup s addr = None"
    "VmAreaSet_lookup s' addr =
       (if addr \<in> VirtRange_set (va_range a) then Some (attrs a) else VmAreaSet_lookup s addr)"
  using VmAreaSet_insert_cases [OF assms(1,2), of ok] assms(3) by auto

lemma VmAreaSet_insert_ErrD:
  "VmAreaSet_inv s \<Longrightarrow> VirtRange_ok (va_range a) \<Longrightarrow> VmAreaSet_insert ok a s = (Err e, s') \<Longrightarrow> s' = s"
  using VmAreaSet_insert_cases [of s a ok] by auto

lemma VmAreaSet_insert_no_panic:
  "VmAreaSet_inv s \<Longrightarrow> VirtRange_ok (va_range a) \<Longrightarrow> VmAreaSet_insert ok a s \<noteq> (Panic, s')"
  using VmAreaSet_insert_cases [of s a ok] by auto

lemma VmAreaSet_remove_exact_OkD:
  assumes "VmAreaSet_inv s" "VmAreaSet_remove_exact r s = (Ok a, s')"
  shows "VmAreaSet_inv s'" "VmAreaSet_spare s'" "va_range a = r" "a \<in> set (vas_areas s)" "area_ok a"
    "vas_capacity s' = vas_capacity s"
    "VmAreaSet_lookup s' addr = (if addr \<in> VirtRange_set r then None else VmAreaSet_lookup s addr)"
proof -
  have "0 < length (vas_areas s)" "length (vas_areas s') = length (vas_areas s) - 1"
    using assms(2) position_Some
    by (fastforce simp: VmAreaSet_remove_exact_def VmAreaSet_find_exact_index_def split: option.splits)+
  moreover show "va_range a = r" "VmAreaSet_inv s'" "a \<in> set (vas_areas s)"
    "vas_capacity s' = vas_capacity s"
    "VmAreaSet_lookup s' addr = (if addr \<in> VirtRange_set r then None else VmAreaSet_lookup s addr)"
    using VmAreaSet_remove_exact_correct [OF assms(1), of r] assms(2) by auto
  moreover from \<open>a \<in> set (vas_areas s)\<close> assms(1) show "area_ok a"
    by (auto simp: VmAreaSet_inv_def areas_inv_def)
  ultimately show "VmAreaSet_spare s'"
    using assms(1) by (cases "vas_areas s") (auto simp: VmAreaSet_inv_def VmAreaSet_spare_def)
qed

interpretation vmas: area_store "VmAreaSet_insert True" VmAreaSet_remove_exact VmAreaSet_lookup
  VmAreaSet_inv VmAreaSet_spare
proof (standard, goal_cases)
  case (1 s r a s')
  note rem = VmAreaSet_remove_exact_OkD [OF this]
  have "VmAreaSet_lookup s addr = Some (attrs a)" if "addr \<in> VirtRange_set r" for addr
    using 1(1) rem(3,4) that by (intro vma_lookup_member) (auto simp: VmAreaSet_inv_def)
  with rem show ?case by blast
next
  case (2 s r e s')
  with VmAreaSet_remove_exact_correct [OF 2(1), of r] show ?case by simp
next
  case (3 s r s')
  with VmAreaSet_remove_exact_correct [OF 3(1), of r] show ?case by auto
next
  case (4 s a u s')
  from VmAreaSet_insert_OkD [OF this] show ?case by blast
next
  case (5 s a e s')
  then show ?case by (rule VmAreaSet_insert_ErrD)
next
  case (6 s a)
  then show ?case by (rule VmAreaSet_insert_total)
qed

section \<open>The address space\<close>

record ProgramBreak =
  pb_start :: VirtAddr
  pb_current :: VirtAddr
  pb_limit :: VirtAddr

definition ProgramBreak_new :: "VirtAddr \<Rightarrow> VirtAddr \<Rightarrow> VirtAddr \<Rightarrow> ProgramBreak option" where
  "ProgramBreak_new start current limit =
     (if start \<le> current \<and> current \<le> limit
      then Some \<lparr>pb_start = start, pb_current = current, pb_limit = limit\<rparr> else None)"

datatype AddressSpaceError =
    AreaError VmAreaError
  | RangeOutsideUser
  | InvalidProgramBreak
  | ProgramBreakNotConfigured

record AddressSpace =
  as_user_range :: VirtRange
  as_areas :: VmAreaSet
  as_program_break :: "ProgramBreak option"

definition AddressSpace_new :: "usize \<Rightarrow> VirtRange \<Rightarrow> AddressSpace" where
  "AddressSpace_new VMA_CAPACITY user_range =
     \<lparr>as_user_range = user_range, as_areas = VmAreaSet_new VMA_CAPACITY, as_program_break = None\<rparr>"

definition AddressSpace_area_count :: "AddressSpace \<Rightarrow> usize" where
  "AddressSpace_area_count self = VmAreaSet_len (as_areas self)"

definition AddressSpace_area_at :: "AddressSpace \<Rightarrow> usize \<Rightarrow> VmArea option" where
  "AddressSpace_area_at self index = VmAreaSet_area_at (as_areas self) index"

text \<open>A call on the area set from an address-space method, with \<open>?\<close> converting the error.\<close>

definition on_areas ::
  "(VmAreaSet, 'a, VmAreaError) action \<Rightarrow> (AddressSpace, 'a, AddressSpaceError) action" where
  "on_areas m self =
     (case m (as_areas self) of (r, areas) \<Rightarrow> (map_err AreaError r, self\<lparr>as_areas := areas\<rparr>))"

definition AddressSpace_map_area ::
  "bool \<Rightarrow> VmArea \<Rightarrow> (AddressSpace, unit, AddressSpaceError) action" where
  "AddressSpace_map_area reserve_ok area self =
     (if \<not> VirtRange_contains_range (as_user_range self) (va_range area) then (Err RangeOutsideUser, self)
      else on_areas (VmAreaSet_insert reserve_ok area) self)"

definition AddressSpace_unmap_exact ::
  "VirtRange \<Rightarrow> (AddressSpace, VmArea, AddressSpaceError) action" where
  "AddressSpace_unmap_exact rng = on_areas (VmAreaSet_remove_exact rng)"

definition AddressSpace_unmap_range ::
  "bool \<Rightarrow> VirtRange \<Rightarrow> (AddressSpace, usize, AddressSpaceError) action" where
  "AddressSpace_unmap_range reserve_ok rng self =
     (if \<not> VirtRange_contains_range (as_user_range self) rng then (Err RangeOutsideUser, self)
      else on_areas (VmAreaSet_remove_range reserve_ok rng) self)"

definition AddressSpace_protect_range ::
  "bool \<Rightarrow> VirtRange \<Rightarrow> VmAreaFlags \<Rightarrow> (AddressSpace, usize, AddressSpaceError) action" where
  "AddressSpace_protect_range reserve_ok rng access self =
     (if \<not> VirtRange_contains_range (as_user_range self) rng then (Err RangeOutsideUser, self)
      else on_areas (VmAreaSet_protect_range reserve_ok rng access) self)"

definition AddressSpace_find_area :: "AddressSpace \<Rightarrow> VirtAddr \<Rightarrow> VmArea option" where
  "AddressSpace_find_area self address = VmAreaSet_find (as_areas self) address"

definition AddressSpace_configure_program_break ::
  "VirtAddr \<Rightarrow> VirtAddr \<Rightarrow> (AddressSpace, unit, AddressSpaceError) action" where
  "AddressSpace_configure_program_break start limit self =
     (if \<not> VirtRange_contains (as_user_range self) start then (Err RangeOutsideUser, self)
      else if limit < start
        \<or> \<not> VirtRange_contains (as_user_range self)
              (case VirtAddr_checked_sub limit 1 of Some l \<Rightarrow> l | None \<Rightarrow> limit)
        then (Err RangeOutsideUser, self)
      else (case ProgramBreak_new start start limit of
              None \<Rightarrow> (Err InvalidProgramBreak, self)
            | Some brk \<Rightarrow> (Ok (), self\<lparr>as_program_break := Some brk\<rparr>)))"

definition AddressSpace_set_program_break ::
  "VirtAddr \<Rightarrow> (AddressSpace, VirtAddr, AddressSpaceError) action" where
  "AddressSpace_set_program_break new_break self =
     (case as_program_break self of
        None \<Rightarrow> (Err ProgramBreakNotConfigured, self)
      | Some brk \<Rightarrow>
          if new_break < pb_start brk \<or> pb_limit brk < new_break then (Err InvalidProgramBreak, self)
          else (Ok new_break, self\<lparr>as_program_break := Some (brk\<lparr>pb_current := new_break\<rparr>)\<rparr>))"

text \<open>
  The closure of \<open>set_program_break_and_sync_heap\<close>; \<open>r1\<close> and \<open>r2\<close> are the answers of the allocator to
  the rebuild and to the insertion.
\<close>

definition sync_heap_body ::
  "bool \<Rightarrow> bool \<Rightarrow> VirtAddr \<Rightarrow> (AddressSpace, VirtAddr, AddressSpaceError) action" where
  "sync_heap_body r1 r2 new_break =
     sbind (AddressSpace_set_program_break new_break) (\<lambda>current.
     sseq (on_areas (VmAreaSet_remove_kind r1 Heap))
     (sbind (sread (\<lambda>self. ok_or (as_program_break self) ProgramBreakNotConfigured)) (\<lambda>brk.
      sbind (slift (ok_or (VirtAddr_align_down (pb_start brk) PAGE_SIZE) InvalidProgramBreak)) (\<lambda>start.
      sbind (slift (ok_or (VirtAddr_align_up current PAGE_SIZE) InvalidProgramBreak)) (\<lambda>end.
      if start < end then
        sbind (slift (ok_or (VirtRange_new start end) InvalidProgramBreak)) (\<lambda>rng.
        sseq (AddressSpace_map_area r2 (VmArea_new rng VmAreaFlags_user_rw Heap))
          (sreturn current))
      else sreturn current)))))"

definition AddressSpace_set_program_break_and_sync_heap ::
  "bool \<Rightarrow> bool \<Rightarrow> VirtAddr \<Rightarrow> (AddressSpace, VirtAddr, AddressSpaceError) action" where
  "AddressSpace_set_program_break_and_sync_heap r1 r2 new_break self =
     (case sync_heap_body r1 r2 new_break self of
        (Err e, self') \<Rightarrow>
          (Err e, self'\<lparr>as_program_break := as_program_break self, as_areas := as_areas self\<rparr>)
      | outcome \<Rightarrow> outcome)"

definition AddressSpace_map_anonymous ::
  "bool \<Rightarrow> VirtRange \<Rightarrow> usize \<Rightarrow> usize \<Rightarrow> VmAreaFlags \<Rightarrow> (AddressSpace, VmArea, AddressSpaceError) action"
  where
  "AddressSpace_map_anonymous reserve_ok search sz alignment flags self =
     (if \<not> VirtRange_contains_range (as_user_range self) search then (Err RangeOutsideUser, self)
      else (case map_err AreaError (VmAreaSet_find_free_range (as_areas self) search sz alignment) of
              Err e \<Rightarrow> (Err e, self)
            | Panic \<Rightarrow> (Panic, self)
            | Ok rng \<Rightarrow>
                (let area = VmArea_new rng flags Anonymous in
                 sseq (AddressSpace_map_area reserve_ok area) (sreturn area) self)))"

definition AddressSpace_map_heap_from_break ::
  "bool \<Rightarrow> (AddressSpace, VmArea option, AddressSpaceError) action" where
  "AddressSpace_map_heap_from_break reserve_ok =
     sbind (sread (\<lambda>self. ok_or (as_program_break self) ProgramBreakNotConfigured)) (\<lambda>brk.
     sbind (slift (ok_or (VirtAddr_align_down (pb_start brk) PAGE_SIZE) InvalidProgramBreak)) (\<lambda>start.
     sbind (slift (ok_or (VirtAddr_align_up (pb_current brk) PAGE_SIZE) InvalidProgramBreak)) (\<lambda>end.
     if end \<le> start then sreturn None
     else
       sbind (slift (ok_or (VirtRange_new start end) InvalidProgramBreak)) (\<lambda>rng.
       let area = VmArea_new rng VmAreaFlags_user_rw Heap in
       sseq (AddressSpace_map_area reserve_ok area) (sreturn (Some area))))))"


section \<open>Invariant\<close>

definition break_ok :: "VirtRange \<Rightarrow> ProgramBreak \<Rightarrow> bool" where
  "break_ok user b \<longleftrightarrow> vr_start user \<le> pb_start b \<and> pb_start b \<le> pb_current b
     \<and> pb_current b \<le> pb_limit b \<and> pb_limit b \<le> vr_end user"

definition AddressSpace_inv :: "AddressSpace \<Rightarrow> bool" where
  "AddressSpace_inv s \<longleftrightarrow> VirtRange_ok (as_user_range s) \<and> VmAreaSet_inv (as_areas s)
     \<and> (\<forall>addr. VmAreaSet_lookup (as_areas s) addr \<noteq> None \<longrightarrow> addr \<in> VirtRange_set (as_user_range s))
     \<and> pred_option (break_ok (as_user_range s)) (as_program_break s)"

abbreviation AddressSpace_lookup :: "AddressSpace \<Rightarrow> VirtAddr \<Rightarrow> area_attrs option" where
  "AddressSpace_lookup s \<equiv> VmAreaSet_lookup (as_areas s)"

lemma AddressSpace_invD:
  assumes "AddressSpace_inv s"
  shows "VirtRange_ok (as_user_range s)" "VmAreaSet_inv (as_areas s)"
    "AddressSpace_lookup s addr \<noteq> None \<Longrightarrow> addr \<in> VirtRange_set (as_user_range s)"
  using assms by (simp_all add: AddressSpace_inv_def)

lemma AddressSpace_inv_new: "VirtRange_ok r \<Longrightarrow> AddressSpace_inv (AddressSpace_new cap r)"
  by (simp add: AddressSpace_inv_def AddressSpace_new_def VmAreaSet_new_def VmAreaSet_inv_def)

lemma contains_range_subset:
  "VirtRange_contains_range r q \<Longrightarrow> addr \<in> VirtRange_set q \<Longrightarrow> addr \<in> VirtRange_set r"
  by (auto simp: VirtRange_contains_range_def VirtRange_set_def)

lemma contains_range_ok: "VirtRange_contains_range r q \<Longrightarrow> VirtRange_ok r \<Longrightarrow> vr_start q \<le> vr_end q \<Longrightarrow> VirtRange_ok q"
  by (auto simp: VirtRange_contains_range_def VirtRange_ok_def)

lemma AddressSpace_map_area_Ok:
  assumes "AddressSpace_inv s" "VirtRange_ok (va_range a)" "AddressSpace_map_area ok a s = (Ok u, s')"
  shows "AddressSpace_inv s'" "as_user_range s' = as_user_range s" "as_program_break s' = as_program_break s"
    "\<forall>addr \<in> VirtRange_set (va_range a). AddressSpace_lookup s addr = None"
    "AddressSpace_lookup s' addr =
       (if addr \<in> VirtRange_set (va_range a) then Some (attrs a) else AddressSpace_lookup s addr)"
    "VirtRange_contains_range (as_user_range s) (va_range a)"
proof -
  obtain areas where ins: "VmAreaSet_insert ok a (as_areas s) = (Ok u, areas)"
    and s': "s' = s\<lparr>as_areas := areas\<rparr>" and inside: "VirtRange_contains_range (as_user_range s) (va_range a)"
    using assms(3) by (auto simp: AddressSpace_map_area_def on_areas_def split: if_splits prod.splits)
  note ok = VmAreaSet_insert_OkD [OF AddressSpace_invD(2) [OF assms(1)] assms(2) ins]
  show "AddressSpace_inv s'"
    using assms(1) ok contains_range_subset [OF inside]
    by (auto simp: AddressSpace_inv_def s' split: if_splits)
  show "as_user_range s' = as_user_range s" "as_program_break s' = as_program_break s"
    "\<forall>addr \<in> VirtRange_set (va_range a). AddressSpace_lookup s addr = None"
    "AddressSpace_lookup s' addr =
       (if addr \<in> VirtRange_set (va_range a) then Some (attrs a) else AddressSpace_lookup s addr)"
    "VirtRange_contains_range (as_user_range s) (va_range a)"
    using ok inside by (auto simp: s')
qed

lemma AddressSpace_map_area_Err:
  assumes "AddressSpace_inv s" "VirtRange_ok (va_range a)" "AddressSpace_map_area ok a s = (Err e, s')"
  shows "s' = s"
  using assms AddressSpace_invD(2) VmAreaSet_insert_ErrD [of "as_areas s" a ok]
  by (auto simp: AddressSpace_map_area_def on_areas_def split: if_splits prod.splits)
    (metis AddressSpace.surjective AddressSpace.update_convs(2) map_err.elims result.distinct(1) result.distinct(5))

lemma AddressSpace_map_area_no_panic:
  assumes "AddressSpace_inv s" "VirtRange_ok (va_range a)"
  shows "AddressSpace_map_area ok a s \<noteq> (Panic, s')"
  using assms AddressSpace_invD(2) VmAreaSet_insert_no_panic [of "as_areas s" a ok]
  by (auto simp: AddressSpace_map_area_def on_areas_def split: prod.splits)


section \<open>The program break\<close>

definition drop_heap :: "area_attrs option \<Rightarrow> area_attrs option" where
  "drop_heap v = (case v of Some (f, k) \<Rightarrow> if k = Heap then None else Some (f, k) | None \<Rightarrow> None)"

definition heap_pages :: "ProgramBreak \<Rightarrow> VirtAddr \<Rightarrow> VirtAddr set" where
  "heap_pages b nb = {round_down PAGE_SIZE (pb_start b)..<round_up PAGE_SIZE nb}"

lemma AddressSpace_remove_heap:
  assumes "AddressSpace_inv s" "on_areas (VmAreaSet_remove_kind ok Heap) s = (r, s')"
  shows "r \<noteq> Panic" "as_user_range s' = as_user_range s" "as_program_break s' = as_program_break s"
    "r = Ok n \<Longrightarrow> AddressSpace_inv s' \<and> (\<forall>addr. AddressSpace_lookup s' addr = drop_heap (AddressSpace_lookup s addr))"
proof -
  obtain r0 areas where rem: "VmAreaSet_remove_kind ok Heap (as_areas s) = (r0, areas)"
    and r: "r = map_err AreaError r0" and s': "s' = s\<lparr>as_areas := areas\<rparr>"
    using assms(2) by (auto simp: on_areas_def split: prod.splits)
  note cases = VmAreaSet_remove_kind_correct [OF AddressSpace_invD(2) [OF assms(1)], where ok = ok and kind = Heap, unfolded rem]
  show "r \<noteq> Panic" using cases by (cases r0) (auto simp: r)
  show "as_user_range s' = as_user_range s" "as_program_break s' = as_program_break s"
    by (simp_all add: s')
  show "AddressSpace_inv s' \<and> (\<forall>addr. AddressSpace_lookup s' addr = drop_heap (AddressSpace_lookup s addr))"
    if "r = Ok n"
    using that cases assms(1)
    by (auto simp: r s' AddressSpace_inv_def drop_heap_def split: option.splits if_splits)
qed

lemma set_program_break_Ok:
  assumes "AddressSpace_set_program_break nb s = (Ok c, s')"
  obtains b where "as_program_break s = Some b" "c = nb" "pb_start b \<le> nb" "nb \<le> pb_limit b"
    "s' = s\<lparr>as_program_break := Some (b\<lparr>pb_current := nb\<rparr>)\<rparr>"
  using assms by (auto simp: AddressSpace_set_program_break_def split: option.splits if_splits)

lemma set_program_break_frame:
  "AddressSpace_set_program_break nb s = (r, s') \<Longrightarrow> as_user_range s' = as_user_range s \<and> r \<noteq> Panic"
  by (auto simp: AddressSpace_set_program_break_def split: option.splits if_splits)

lemma set_program_break_inv:
  assumes "AddressSpace_inv s" "AddressSpace_set_program_break nb s = (Ok c, s')"
  shows "AddressSpace_inv s'"
  using assms
  by (auto elim!: set_program_break_Ok simp: AddressSpace_inv_def break_ok_def)

text \<open>The heap area that a break at \<open>nb\<close> asks for, if it is not empty.\<close>

definition heap_area :: "ProgramBreak \<Rightarrow> VirtAddr \<Rightarrow> VmArea" where
  "heap_area b nb = VmArea_new
     \<lparr>vr_start = round_down PAGE_SIZE (pb_start b), vr_end = round_up PAGE_SIZE nb\<rparr> VmAreaFlags_user_rw Heap"

lemma sync_heap_body_eq:
  assumes "AddressSpace_inv s" "nb \<le> usize_MAX"
    and "AddressSpace_set_program_break nb s = (Ok nb, s1)" "as_program_break s1 = Some b"
    and "on_areas (VmAreaSet_remove_kind r1 Heap) s1 = (Ok n, s2)"
  shows "sync_heap_body r1 r2 nb s =
    (if usize_MAX < nb + (PAGE_SIZE - 1) then (Err InvalidProgramBreak, s2)
     else if round_down PAGE_SIZE (pb_start b) < round_up PAGE_SIZE nb
       then sseq (AddressSpace_map_area r2 (heap_area b nb)) (sreturn nb) s2
     else (Ok nb, s2))"
proof -
  note inv1 = set_program_break_inv [OF assms(1,3)]
  have pb: "as_program_break s2 = Some b"
    using AddressSpace_remove_heap(3) [OF inv1 assms(5)] assms(4) by simp
  have "pb_start b \<le> usize_MAX"
    using inv1 assms(4) by (auto simp: AddressSpace_inv_def break_ok_def VirtRange_ok_def)
  then have down: "VirtAddr_align_down (pb_start b) PAGE_SIZE = Some (round_down PAGE_SIZE (pb_start b))"
    by (simp add: VirtAddr_align_down_eq)
  note unfold = sync_heap_body_def sbind_def sseq_def assms(3,5) pb sread_def slift_def sreturn_def down
  show ?thesis
  proof (cases "usize_MAX < nb + (PAGE_SIZE - 1)")
    case True
    then have "VirtAddr_align_up nb PAGE_SIZE = None" by (simp only: VirtAddr_align_up_eq PAGE_SIZE_le_MAX) simp
    with True show ?thesis by (simp add: unfold)
  next
    case False
    then have "VirtAddr_align_up nb PAGE_SIZE = Some (round_up PAGE_SIZE nb)"
      by (simp only: VirtAddr_align_up_eq PAGE_SIZE_le_MAX) simp
    with False show ?thesis by (simp add: unfold heap_area_def)
  qed
qed

lemma heap_area_range:
  assumes "nb + (PAGE_SIZE - 1) \<le> usize_MAX" "round_down PAGE_SIZE (pb_start b) < round_up PAGE_SIZE nb"
  shows "VirtRange_ok (va_range (heap_area b nb))" "VirtRange_set (va_range (heap_area b nb)) = heap_pages b nb"
    "attrs (heap_area b nb) = (VmAreaFlags_user_rw, Heap)"
  using assms round_up_le [of PAGE_SIZE nb]
  by (auto simp: heap_area_def heap_pages_def VirtRange_ok_def VirtRange_set_def attrs_def)

lemma heap_pages_start: "heap_pages (b\<lparr>pb_current := c\<rparr>) nb = heap_pages b nb"
  by (simp add: heap_pages_def)

lemma sync_heap_body_cases:
  assumes "AddressSpace_inv s" "nb \<le> usize_MAX"
  shows "case sync_heap_body r1 r2 nb s of
      (Ok c, s') \<Rightarrow> c = nb \<and> AddressSpace_inv s'
        \<and> (\<exists>b. as_program_break s = Some b \<and> as_program_break s' = Some (b\<lparr>pb_current := nb\<rparr>)
              \<and> (\<forall>addr. AddressSpace_lookup s' addr =
                   (if addr \<in> heap_pages b nb then Some (VmAreaFlags_user_rw, Heap)
                    else drop_heap (AddressSpace_lookup s addr))))
    | (Err e, s') \<Rightarrow> as_user_range s' = as_user_range s
    | (Panic, s') \<Rightarrow> False"
proof -
  obtain r s1 where set: "AddressSpace_set_program_break nb s = (r, s1)" by fastforce
  show ?thesis
  proof (cases r)
    case (Ok c)
    from set [unfolded Ok] obtain b where b: "as_program_break s = Some b" "c = nb"
      "s1 = s\<lparr>as_program_break := Some (b\<lparr>pb_current := nb\<rparr>)\<rparr>"
      by (rule set_program_break_Ok)
    note set' = set [unfolded Ok b(2)]
    note inv1 = set_program_break_inv [OF assms(1) set']
    obtain q s2 where rem: "on_areas (VmAreaSet_remove_kind r1 Heap) s1 = (q, s2)" by fastforce
    note frame = AddressSpace_remove_heap(1-3) [OF inv1 rem]
    show ?thesis
    proof (cases q)
      case (Ok n)
      note rem' = rem [unfolded Ok]
      from AddressSpace_remove_heap(4) [OF inv1 rem' refl]
      have s2: "AddressSpace_inv s2" "AddressSpace_lookup s2 addr = drop_heap (AddressSpace_lookup s addr)" for addr
        by (simp_all add: b(3))
      have pb: "as_program_break s1 = Some (b\<lparr>pb_current := nb\<rparr>)" by (simp add: b(3))
      note body = sync_heap_body_eq [OF assms set' pb rem', of r2]
      have user: "as_user_range s2 = as_user_range s" using frame(2) by (simp add: b(3))
      let ?a = "heap_area (b\<lparr>pb_current := nb\<rparr>) nb"
      consider (over) "usize_MAX < nb + (PAGE_SIZE - 1)"
        | (map) "nb + (PAGE_SIZE - 1) \<le> usize_MAX" "round_down PAGE_SIZE (pb_start b) < round_up PAGE_SIZE nb"
        | (none) "nb + (PAGE_SIZE - 1) \<le> usize_MAX" "\<not> round_down PAGE_SIZE (pb_start b) < round_up PAGE_SIZE nb"
        by linarith
      then show ?thesis
      proof cases
        case over
        then show ?thesis by (simp add: body user)
      next
        case map
        have m: "nb + (PAGE_SIZE - 1) \<le> usize_MAX"
          "round_down PAGE_SIZE (pb_start (b\<lparr>pb_current := nb\<rparr>)) < round_up PAGE_SIZE nb"
          using map by simp_all
        note h = heap_area_range [OF m]
        obtain p s3 where mp: "AddressSpace_map_area r2 ?a s2 = (p, s3)" by fastforce
        show ?thesis
        proof (cases p)
          case (Ok u)
          from AddressSpace_map_area_Ok [OF s2(1) h(1) mp [unfolded Ok]] s2(2) frame(3) m b(1,3) mp Ok show ?thesis
            by (auto simp: body sseq_def sbind_def sreturn_def h heap_pages_start)
        next
          case (Err e)
          with AddressSpace_map_area_Err [OF s2(1) h(1) mp [unfolded Err]] mp m user show ?thesis
            by (simp add: body sseq_def sbind_def)
        next
          case Panic
          with AddressSpace_map_area_no_panic [OF s2(1) h(1)] mp show ?thesis by simp
        qed
      next
        case none
        then have "heap_pages b nb = {}" by (simp add: heap_pages_def)
        with none s2 frame(3) b(1,3) show ?thesis by (simp add: body)
      qed
    next
      case (Err e)
      moreover have "as_user_range s2 = as_user_range s" using frame(2) by (simp add: b(3))
      ultimately show ?thesis
        by (simp add: sync_heap_body_def sseq_def sbind_def set' rem)
    next
      case Panic
      with frame(1) show ?thesis by simp
    qed
  next
    case (Err e)
    then show ?thesis
      using set_program_break_frame [OF set] by (simp add: sync_heap_body_def sbind_def set)
  next
    case Panic
    with set_program_break_frame [OF set] show ?thesis by simp
  qed
qed

text \<open>
  C14. Moving the program break (\<open>brk\<close>): on success the break is the requested one, the heap is exactly
  the user read/write mapping of the pages between the page of the break's start and the new break, and
  every mapping that is not heap is untouched. Any failure - no break configured, out of bounds, a
  collision with another mapping, a full area set, a refused allocation - leaves the address space
  exactly as it was.
\<close>

theorem AddressSpace_set_program_break_and_sync_heap_correct:
  assumes "AddressSpace_inv s" "nb \<le> usize_MAX"
  shows "case AddressSpace_set_program_break_and_sync_heap r1 r2 nb s of
      (Ok c, s') \<Rightarrow> c = nb \<and> AddressSpace_inv s'
        \<and> (\<exists>b. as_program_break s = Some b \<and> as_program_break s' = Some (b\<lparr>pb_current := nb\<rparr>)
              \<and> (\<forall>addr. AddressSpace_lookup s' addr =
                   (if addr \<in> heap_pages b nb then Some (VmAreaFlags_user_rw, Heap)
                    else drop_heap (AddressSpace_lookup s addr))))
    | (Err e, s') \<Rightarrow> s' = s
    | (Panic, s') \<Rightarrow> False"
  using sync_heap_body_cases [OF assms, of r1 r2]
  by (auto simp: AddressSpace_set_program_break_and_sync_heap_def split: prod.splits result.splits)


text \<open>A small address space with a break at the fourth page and a mapping above it.\<close>

abbreviation small_space :: AddressSpace where
  "small_space \<equiv> \<lparr>as_user_range = va_at 1 64,
     as_areas = \<lparr>vas_capacity = 4, vas_areas =
       [\<lparr>va_range = va_at 10 12, va_flags = 43, va_kind = Anonymous\<rparr>]\<rparr>,
     as_program_break = Some \<lparr>pb_start = 16384, pb_current = 16384, pb_limit = 65536\<rparr>\<rparr>"

lemma small_space_inv: "AddressSpace_inv small_space"
  by (auto simp: AddressSpace_inv_def vma_eval break_ok_def VirtRange_contains_def VirtRange_set_def)

lemmas space_eval = AddressSpace_set_program_break_and_sync_heap_def sync_heap_body_def sbind_def sseq_def
  sread_def slift_def sreturn_def AddressSpace_set_program_break_def on_areas_def VmAreaSet_remove_kind_def
  AddressSpace_map_area_def VmAreaSet_insert_def VmAreaSet_insertion_index_def VmAreaSet_len_def
  insertion_index_loop.simps VirtRange_overlaps_def VmArea_new_def VirtAddr_align_down_eq VirtAddr_align_up_eq
  VirtRange_contains_range_def round_up_def round_down_def append_area_def VmAreaFlags_user_rw_def
  VmAreaFlags_USER_def vec_insert_def

theorem AddressSpace_set_program_break_and_sync_heap_witness:
  "AddressSpace_set_program_break_and_sync_heap True True 20000 small_space =
     (Ok 20000, small_space\<lparr>as_areas := \<lparr>vas_capacity = 4, vas_areas =
        [\<lparr>va_range = va_at 4 5, va_flags = 43, va_kind = Heap\<rparr>,
         \<lparr>va_range = va_at 10 12, va_flags = 43, va_kind = Anonymous\<rparr>]\<rparr>,
        as_program_break := Some \<lparr>pb_start = 16384, pb_current = 20000, pb_limit = 65536\<rparr>\<rparr>)
   \<and> fst (AddressSpace_set_program_break_and_sync_heap True True 50000 small_space) = Err (AreaError Overlap)
   \<and> snd (AddressSpace_set_program_break_and_sync_heap True True 50000 small_space) = small_space"
proof -
  have p: "is_power_of_two 4096" using PAGE_SIZE_power_of_two by (simp add: PAGE_SIZE_eq)
  have ok: "AddressSpace_set_program_break_and_sync_heap True True 20000 small_space =
     (Ok 20000, small_space\<lparr>as_areas := \<lparr>vas_capacity = 4, vas_areas =
        [\<lparr>va_range = va_at 4 5, va_flags = 43, va_kind = Heap\<rparr>,
         \<lparr>va_range = va_at 10 12, va_flags = 43, va_kind = Anonymous\<rparr>]\<rparr>,
        as_program_break := Some \<lparr>pb_start = 16384, pb_current = 20000, pb_limit = 65536\<rparr>\<rparr>)"
    using p by (simp add: space_eval vma_eval)
  have err: "fst (AddressSpace_set_program_break_and_sync_heap True True 50000 small_space) = Err (AreaError Overlap)"
    using p by (simp add: space_eval vma_eval)
  from AddressSpace_set_program_break_and_sync_heap_correct [OF small_space_inv, of 50000 True True] err
  have "snd (AddressSpace_set_program_break_and_sync_heap True True 50000 small_space) = small_space"
    by (auto simp: usize_MAX_def split: prod.splits)
  with ok err show ?thesis by simp
qed


section \<open>Anonymous mappings\<close>

lemma VmAreaSet_find_free_range_Ok:
  assumes "VmAreaSet_inv s" "VirtRange_ok search" "al \<le> usize_MAX"
    and "VmAreaSet_find_free_range s search sz al = Ok gap"
  shows "free_gap (vas_areas s) search (round_up PAGE_SIZE sz) al (vr_start gap)"
    "vr_end gap = vr_start gap + round_up PAGE_SIZE sz" "VirtRange_ok gap"
    "VirtRange_contains_range search gap"
    "\<forall>c. free_gap (vas_areas s) search (round_up PAGE_SIZE sz) al c \<longrightarrow> vr_start gap \<le> c"
proof -
  have "0 < sz" "PAGE_SIZE \<le> al" "is_power_of_two al"
    using assms(4) by (auto simp: VmAreaSet_find_free_range_def split: if_splits)
  from VmAreaSet_find_free_range_cases [OF assms(1,2) this assms(3)] assms(4)
  show g: "free_gap (vas_areas s) search (round_up PAGE_SIZE sz) al (vr_start gap)"
    "vr_end gap = vr_start gap + round_up PAGE_SIZE sz"
    "\<forall>c. free_gap (vas_areas s) search (round_up PAGE_SIZE sz) al c \<longrightarrow> vr_start gap \<le> c"
    by auto
  then show "VirtRange_ok gap" "VirtRange_contains_range search gap"
    using assms(2) by (auto simp: free_gap_def VirtRange_ok_def VirtRange_contains_range_def)
qed

lemma VmAreaSet_find_free_range_no_panic: "VmAreaSet_find_free_range s search sz al \<noteq> Panic"
proof -
  have loop: "find_free_range_loop search n al xs c \<noteq> Panic" for n xs c
    by (induction xs arbitrary: c) (auto simp: rbind_eq_Panic)
  show ?thesis
    by (auto simp: VmAreaSet_find_free_range_def rbind_eq_Panic loop split: sum.split)
qed

text \<open>
  Mapping anonymous memory at a chosen place: on success the area lies in the search window, is
  aligned, has the requested size in whole pages, was entirely unmapped and is the lowest such place; the
  mapping becomes visible with the requested flags and nothing else changes. A failure changes nothing.
\<close>

theorem AddressSpace_map_anonymous_correct:
  assumes "AddressSpace_inv s" "VirtRange_ok search" "al \<le> usize_MAX"
  shows "case AddressSpace_map_anonymous ok search sz al flags s of
      (Ok a, s') \<Rightarrow> AddressSpace_inv s' \<and> attrs a = (flags, Anonymous)
        \<and> vr_end (va_range a) = vr_start (va_range a) + round_up PAGE_SIZE sz
        \<and> free_gap (vas_areas (as_areas s)) search (round_up PAGE_SIZE sz) al (vr_start (va_range a))
        \<and> (\<forall>c. free_gap (vas_areas (as_areas s)) search (round_up PAGE_SIZE sz) al c
             \<longrightarrow> vr_start (va_range a) \<le> c)
        \<and> (\<forall>addr. AddressSpace_lookup s' addr =
              (if addr \<in> VirtRange_set (va_range a) then Some (flags, Anonymous) else AddressSpace_lookup s addr))
    | (Err e, s') \<Rightarrow> s' = s
    | (Panic, s') \<Rightarrow> False"
proof (cases "VirtRange_contains_range (as_user_range s) search")
  case inside: True
  note inv = AddressSpace_invD(2) [OF assms(1)]
  show ?thesis
  proof (cases "VmAreaSet_find_free_range (as_areas s) search sz al")
    case (Ok gap)
    note gap = VmAreaSet_find_free_range_Ok [OF inv assms(2,3) Ok]
    let ?a = "VmArea_new gap flags Anonymous"
    have range: "VirtRange_ok (va_range ?a)" using gap(3) by simp
    obtain r s' where map: "AddressSpace_map_area ok ?a s = (r, s')" by fastforce
    show ?thesis
    proof (cases r)
      case ok': (Ok u)
      from AddressSpace_map_area_Ok [OF assms(1) range map [unfolded ok']] gap(1,2,5) map ok' inside Ok
      show ?thesis
        by (simp add: AddressSpace_map_anonymous_def Let_def sseq_def sbind_def sreturn_def attrs_def)
    next
      case (Err e)
      with AddressSpace_map_area_Err [OF assms(1) range] map inside Ok show ?thesis
        by (simp add: AddressSpace_map_anonymous_def Let_def sseq_def sbind_def)
    next
      case Panic
      with AddressSpace_map_area_no_panic [OF assms(1) range] map show ?thesis by simp
    qed
  next
    case (Err e)
    with inside show ?thesis by (simp add: AddressSpace_map_anonymous_def)
  next
    case Panic
    with VmAreaSet_find_free_range_no_panic show ?thesis by blast
  qed
qed (simp add: AddressSpace_map_anonymous_def)

theorem AddressSpace_map_anonymous_witness:
  "fst (AddressSpace_map_anonymous True (va_at 8 64) 8192 4096 43 small_space) =
     Ok \<lparr>va_range = va_at 8 10, va_flags = 43, va_kind = Anonymous\<rparr>
   \<and> AddressSpace_lookup (snd (AddressSpace_map_anonymous True (va_at 8 64) 8192 4096 43 small_space)) 36864
     = Some (43, Anonymous)"
proof -
  have p: "is_power_of_two 4096" using PAGE_SIZE_power_of_two by (simp add: PAGE_SIZE_eq)
  have ok: "fst (AddressSpace_map_anonymous True (va_at 8 64) 8192 4096 43 small_space) =
     Ok \<lparr>va_range = va_at 8 10, va_flags = 43, va_kind = Anonymous\<rparr>"
    using p
    by (simp add: AddressSpace_map_anonymous_def VmAreaSet_find_free_range_def vma_align_up_eq [unfolded PAGE_SIZE_eq]
        checked_add_def space_eval vma_eval)
  from AddressSpace_map_anonymous_correct [OF small_space_inv,
      where search = "va_at 8 64" and al = 4096 and ok = True and sz = 8192 and flags = 43] ok
  show ?thesis by (auto simp: VirtRange_ok_def usize_MAX_def VirtRange_set_def split: prod.splits)
qed

section \<open>Guarded kernel virtual memory\<close>

datatype VmallocKind = VmallocMemory | VmallocIoRemap PhysAddr

record KernelVirtualReservation =
  kvr_usable :: VirtRange
  kvr_reserved :: VirtRange
  kvr_kind :: VmallocKind

record KernelVirtualAllocator =
  kva_arena :: VirtRange
  kva_areas :: VmAreaSet

definition KernelVirtualAllocator_new :: "usize \<Rightarrow> VirtRange \<Rightarrow> KernelVirtualAllocator" where
  "KernelVirtualAllocator_new CAPACITY arena = \<lparr>kva_arena = arena, kva_areas = VmAreaSet_new CAPACITY\<rparr>"

definition KernelVirtualAllocator_reservation_count :: "KernelVirtualAllocator \<Rightarrow> usize" where
  "KernelVirtualAllocator_reservation_count self = VmAreaSet_len (kva_areas self)"

definition vmalloc_flags :: "VmallocKind \<Rightarrow> VmAreaFlags" where
  "vmalloc_flags kind =
     (case kind of
        VmallocMemory \<Rightarrow> VmAreaFlags_kernel_rw
      | VmallocIoRemap _ \<Rightarrow> VmAreaFlags_union VmAreaFlags_kernel_rw VmAreaFlags_DEVICE)"

definition vmalloc_area_kind :: "VmallocKind \<Rightarrow> VmAreaKind" where
  "vmalloc_area_kind kind =
     (case kind of VmallocMemory \<Rightarrow> Vmalloc | VmallocIoRemap physical \<Rightarrow> IoRemap physical)"

definition KernelVirtualAllocator_reserve ::
  "bool \<Rightarrow> usize \<Rightarrow> usize \<Rightarrow> VmallocKind \<Rightarrow>
   (KernelVirtualAllocator, KernelVirtualReservation, VmAreaError) action" where
  "KernelVirtualAllocator_reserve reserve_ok sz alignment kind self =
     (case rbind (ok_or (vma_align_up sz PAGE_SIZE) AddressOverflow) (\<lambda>sz.
           let alignment = max alignment PAGE_SIZE in
           if \<not> is_power_of_two alignment then Err UnalignedRange
           else
             rbind (ok_or (checked_add sz (PAGE_SIZE * 2)) AddressOverflow) (\<lambda>guarded_size.
             rbind (VmAreaSet_find_free_range (kva_areas self) (kva_arena self) guarded_size alignment) (\<lambda>reserved.
             rbind (ok_or (VirtAddr_checked_add (vr_start reserved) PAGE_SIZE) AddressOverflow) (\<lambda>usable_start.
             rbind (ok_or (VirtRange_from_start_size usable_start sz) AddressOverflow) (\<lambda>usable.
               Ok (reserved, usable)))))) of
        Err e \<Rightarrow> (Err e, self)
      | Panic \<Rightarrow> (Panic, self)
      | Ok (reserved, usable) \<Rightarrow>
          (case VmAreaSet_insert reserve_ok
                  (VmArea_new reserved (vmalloc_flags kind) (vmalloc_area_kind kind)) (kva_areas self) of
             (Err e, areas) \<Rightarrow> (Err e, self\<lparr>kva_areas := areas\<rparr>)
           | (Panic, areas) \<Rightarrow> (Panic, self\<lparr>kva_areas := areas\<rparr>)
           | (Ok _, areas) \<Rightarrow>
               (Ok \<lparr>kvr_usable = usable, kvr_reserved = reserved, kvr_kind = kind\<rparr>,
                self\<lparr>kva_areas := areas\<rparr>)))"

definition KernelVirtualAllocator_release ::
  "KernelVirtualReservation \<Rightarrow> (KernelVirtualAllocator, unit, VmAreaError) action" where
  "KernelVirtualAllocator_release reservation self =
     (case VmAreaSet_remove_exact (kvr_reserved reservation) (kva_areas self) of
        (Ok _, areas) \<Rightarrow> (Ok (), self\<lparr>kva_areas := areas\<rparr>)
      | (Err e, areas) \<Rightarrow> (Err e, self\<lparr>kva_areas := areas\<rparr>)
      | (Panic, areas) \<Rightarrow> (Panic, self\<lparr>kva_areas := areas\<rparr>))"

definition kva_inv :: "KernelVirtualAllocator \<Rightarrow> bool" where
  "kva_inv s \<longleftrightarrow> VmAreaSet_inv (kva_areas s) \<and> VirtRange_ok (kva_arena s)"

abbreviation kva_lookup :: "KernelVirtualAllocator \<Rightarrow> VirtAddr \<Rightarrow> area_attrs option" where
  "kva_lookup s \<equiv> VmAreaSet_lookup (kva_areas s)"


lemma VmAreaSet_insert_member:
  assumes "VmAreaSet_insert ok a s = (Ok u, s')" "va_kind a \<noteq> Anonymous"
  shows "a \<in> set (vas_areas s')"
  using assms by (auto simp: VmAreaSet_insert_def Let_def split: result.splits if_splits)

lemma round_up_add: "al dvd m \<Longrightarrow> 0 < al \<Longrightarrow> round_up al (n + m) = round_up al n + m"
proof -
  assume *: "al dvd m" "0 < al"
  then obtain q where "m = al * q" by blast
  then have "(n + m + (al - 1)) div al = (n + (al - 1)) div al + q"
    using *(2) by (metis add.assoc add.commute div_mult_self2 less_irrefl)
  then show ?thesis
    by (simp only: round_up_def \<open>m = al * q\<close> distrib_left mult.commute [of _ al])
qed

lemma KernelVirtualAllocator_reserve_Ok:
  assumes "KernelVirtualAllocator_reserve ok sz al kind s = (Ok res, s')"
  obtains areas where
    "VmAreaSet_find_free_range (kva_areas s) (kva_arena s) (round_up PAGE_SIZE sz + PAGE_SIZE * 2)
       (max al PAGE_SIZE) = Ok (kvr_reserved res)"
    "kvr_usable res = \<lparr>vr_start = vr_start (kvr_reserved res) + PAGE_SIZE,
       vr_end = vr_start (kvr_reserved res) + PAGE_SIZE + round_up PAGE_SIZE sz\<rparr>"
    "VmAreaSet_insert ok (VmArea_new (kvr_reserved res) (vmalloc_flags kind) (vmalloc_area_kind kind))
       (kva_areas s) = (Ok (), areas)"
    "s' = s\<lparr>kva_areas := areas\<rparr>" "sz + (PAGE_SIZE - 1) \<le> usize_MAX"
  using assms
  by (auto simp: KernelVirtualAllocator_reserve_def Let_def vma_align_up_eq VirtRange_from_start_size_def
      split: if_splits result.splits prod.splits option.splits intro!: that)

text \<open>
  C36. Kernel virtual reservations are guarded and reversible: the usable range has the requested size in
  whole pages and lies one page inside the reserved range on both sides; the reserved range comes from
  the arena and was free, and nothing else changes. Releasing the reservation gives back exactly the
  address space there was before.
\<close>

theorem KernelVirtualAllocator_reserve_release:
  assumes "kva_inv s" "al \<le> usize_MAX" "KernelVirtualAllocator_reserve ok sz al kind s = (Ok res, s')"
  shows "vr_start (kvr_usable res) = vr_start (kvr_reserved res) + PAGE_SIZE \<and> vr_end (kvr_usable res) + PAGE_SIZE = vr_end (kvr_reserved res)
    \<and> VirtRange_size (kvr_usable res) = round_up PAGE_SIZE sz \<and> max al PAGE_SIZE dvd vr_start (kvr_reserved res)
    \<and> VirtRange_contains_range (kva_arena s) (kvr_reserved res)
    \<and> (\<forall>addr \<in> VirtRange_set (kvr_reserved res). kva_lookup s addr = None)
    \<and> kva_inv s' \<and> (\<forall>addr. kva_lookup s' addr =
          (if addr \<in> VirtRange_set (kvr_reserved res) then Some (vmalloc_flags kind, vmalloc_area_kind kind)
           else kva_lookup s addr))
    \<and> (\<exists>s''. KernelVirtualAllocator_release res s' = (Ok (), s'') \<and> kva_inv s'' \<and> kva_lookup s'' = kva_lookup s)"
proof -
  define usable where "usable = kvr_usable res"
  define reserved where "reserved = kvr_reserved res"
  have inv: "VmAreaSet_inv (kva_areas s)" "VirtRange_ok (kva_arena s)" using assms(1) by (simp_all add: kva_inv_def)
  obtain areas where r: "VmAreaSet_find_free_range (kva_areas s) (kva_arena s)
      (round_up PAGE_SIZE sz + PAGE_SIZE * 2) (max al PAGE_SIZE) = Ok reserved"
    "usable = \<lparr>vr_start = vr_start reserved + PAGE_SIZE, vr_end = vr_start reserved + PAGE_SIZE + round_up PAGE_SIZE sz\<rparr>"
    "VmAreaSet_insert ok (VmArea_new reserved (vmalloc_flags kind) (vmalloc_area_kind kind)) (kva_areas s) = (Ok (), areas)"
    "s' = s\<lparr>kva_areas := areas\<rparr>"
    using assms(3) unfolding usable_def reserved_def by (rule KernelVirtualAllocator_reserve_Ok)
  let ?a = "VmArea_new reserved (vmalloc_flags kind) (vmalloc_area_kind kind)"
  have al: "max al PAGE_SIZE \<le> usize_MAX" using assms(2) by simp
  note gap = VmAreaSet_find_free_range_Ok [OF inv al r(1)]
  have size: "vr_end reserved = vr_start reserved + round_up PAGE_SIZE sz + PAGE_SIZE * 2"
    using gap(2) by (simp add: round_up_add)
  have range: "VirtRange_ok (va_range ?a)" using gap(3) by simp
  note ins = VmAreaSet_insert_OkD [OF inv(1) range r(3)]
  have "?a \<in> set (vas_areas areas)"
    by (rule VmAreaSet_insert_member [OF r(3)]) (simp add: vmalloc_area_kind_def split: VmallocKind.split)
  then obtain a areas' where rem: "VmAreaSet_remove_exact reserved areas = (Ok a, areas')"
    using VmAreaSet_remove_exact_correct [OF ins(1), of reserved]
    by (cases "VmAreaSet_remove_exact reserved areas"; cases "fst (VmAreaSet_remove_exact reserved areas)") auto
  note gone = VmAreaSet_remove_exact_OkD [OF ins(1) rem]
  have "kva_lookup (s'\<lparr>kva_areas := areas'\<rparr>) = kva_lookup s"
    using gone(7) ins(3,4) by (auto intro!: ext)
  then have "\<exists>s''. KernelVirtualAllocator_release res s' = (Ok (), s'') \<and> kva_inv s'' \<and> kva_lookup s'' = kva_lookup s"
    using gone(1) inv(2) rem
    by (auto simp: KernelVirtualAllocator_release_def r(4) kva_inv_def reserved_def [symmetric])
  with gap ins size inv(2) show ?thesis
    unfolding usable_def [symmetric] reserved_def [symmetric]
    by (simp add: r(2,4) VirtRange_size_def kva_inv_def attrs_def free_gap_dvd [OF gap(1)])
qed


abbreviation small_arena :: KernelVirtualAllocator where
  "small_arena \<equiv> \<lparr>kva_arena = va_at 16 64, kva_areas = \<lparr>vas_capacity = 4, vas_areas = []\<rparr>\<rparr>"

theorem KernelVirtualAllocator_reserve_release_witness:
  "fst (KernelVirtualAllocator_reserve True 5000 4096 VmallocMemory small_arena) =
     Ok \<lparr>kvr_usable = va_at 17 19, kvr_reserved = va_at 16 20, kvr_kind = VmallocMemory\<rparr>
   \<and> VirtRange_size (va_at 17 19) = round_up PAGE_SIZE 5000"
proof -
  have p: "is_power_of_two 4096" using PAGE_SIZE_power_of_two by (simp add: PAGE_SIZE_eq)
  have inv: "kva_inv small_arena" by (simp add: kva_inv_def vma_eval)
  have ok: "KernelVirtualAllocator_reserve True 5000 4096 VmallocMemory small_arena =
     (Ok \<lparr>kvr_usable = va_at 17 19, kvr_reserved = va_at 16 20, kvr_kind = VmallocMemory\<rparr>,
      small_arena\<lparr>kva_areas := \<lparr>vas_capacity = 4, vas_areas =
        [\<lparr>va_range = va_at 16 20, va_flags = 3, va_kind = Vmalloc\<rparr>]\<rparr>\<rparr>)"
    using p
    by (simp add: KernelVirtualAllocator_reserve_def VmAreaSet_find_free_range_def
        vma_align_up_eq [unfolded PAGE_SIZE_eq] VirtRange_from_start_size_def vmalloc_flags_def vmalloc_area_kind_def
        VmAreaFlags_kernel_rw_def checked_add_def space_eval vma_eval)
  from KernelVirtualAllocator_reserve_release [OF inv _ ok] ok show ?thesis
    by (simp add: usize_MAX_def PAGE_SIZE_eq VirtRange_size_def round_up_def)
qed

end
