(* ===== verification/Page_Fault.thy ===== *)
theory Page_Fault
  imports Address_Space
begin

text \<open>
  Classification of a page fault against the areas of an address space, \<open>mm/src/fault.rs\<close>. The
  addition of the file offset is the one place where the classification can overflow.
\<close>

datatype FaultAccess = Read | Write | Execute

datatype FaultSource = UserSource | KernelSource

record PageFault =
  pf_address :: VirtAddr
  pf_access :: FaultAccess
  pf_source :: FaultSource
  pf_present :: bool

datatype FaultOutcome =
    MapAnonymous VmArea
  | CopyOnWrite VmArea
  | LoadFile VmArea u64 u64
  | MapDevice VmArea PhysAddr
  | ProtectionViolation VmArea
  | SegmentationViolation
  | Spurious VmArea
  | KernelBug

definition access_allowed :: "VmAreaFlags \<Rightarrow> FaultAccess \<Rightarrow> bool" where
  "access_allowed flags access =
     (case access of
        Read \<Rightarrow> VmAreaFlags_is_readable flags
      | Write \<Rightarrow> VmAreaFlags_is_writable flags \<or> VmAreaFlags_is_copy_on_write flags
      | Execute \<Rightarrow> VmAreaFlags_is_executable flags)"

definition PageFault_resolve :: "PageFault \<Rightarrow> AddressSpace \<Rightarrow> (FaultOutcome, 'e) result" where
  "PageFault_resolve self address_space =
     (case AddressSpace_find_area address_space (pf_address self) of
        None \<Rightarrow> Ok (case pf_source self of UserSource \<Rightarrow> SegmentationViolation | KernelSource \<Rightarrow> KernelBug)
      | Some area \<Rightarrow>
          if pf_present self \<and> pf_access self = Write \<and> VmAreaFlags_is_copy_on_write (va_flags area)
            then Ok (CopyOnWrite area)
          else if \<not> access_allowed (va_flags area) (pf_access self) then Ok (ProtectionViolation area)
          else if pf_present self then Ok (Spurious area)
          else (case va_kind area of
              Anonymous \<Rightarrow> Ok (MapAnonymous area)
            | Heap \<Rightarrow> Ok (MapAnonymous area)
            | Stack \<Rightarrow> Ok (MapAnonymous area)
            | FileBacked object offset \<Rightarrow>
                rbind (sub_usize (pf_address self) (vr_start (va_range area))) (\<lambda>in_area.
                rbind (add_usize offset in_area) (\<lambda>file_offset. Ok (LoadFile area object file_offset)))
            | DeviceArea physical \<Rightarrow> Ok (MapDevice area physical)
            | IoRemap physical \<Rightarrow> Ok (MapDevice area physical)
            | Kernel \<Rightarrow> Ok KernelBug
            | Vmalloc \<Rightarrow> Ok KernelBug))"

section \<open>What the classification guarantees\<close>

text \<open>The area that an outcome acts on.\<close>

fun outcome_area :: "FaultOutcome \<Rightarrow> VmArea option" where
  "outcome_area (MapAnonymous a) = Some a"
| "outcome_area (CopyOnWrite a) = Some a"
| "outcome_area (LoadFile a ob off) = Some a"
| "outcome_area (MapDevice a p) = Some a"
| "outcome_area (ProtectionViolation a) = Some a"
| "outcome_area (Spurious a) = Some a"
| "outcome_area SegmentationViolation = None"
| "outcome_area KernelBug = None"

text \<open>The outcomes that install a translation or give write access.\<close>

fun grants :: "FaultOutcome \<Rightarrow> bool" where
  "grants (MapAnonymous a) = True"
| "grants (CopyOnWrite a) = True"
| "grants (LoadFile a ob off) = True"
| "grants (MapDevice a p) = True"
| "grants _ = False"

lemma PageFault_resolve_area:
  assumes "AddressSpace_inv s" "PageFault_resolve f s = Ok out" "outcome_area out = Some a"
  shows "a \<in> set (vas_areas (as_areas s))" "VirtRange_contains (va_range a) (pf_address f)"
    "AddressSpace_lookup s (pf_address f) = Some (attrs a)"
proof -
  have inv: "areas_inv (vas_areas (as_areas s))"
    using AddressSpace_invD(2) [OF assms(1)] by (simp add: VmAreaSet_inv_def)
  have "VmAreaSet_find (as_areas s) (pf_address f) = Some a"
    using assms(2,3)
    by (auto simp: PageFault_resolve_def AddressSpace_find_area_def sub_usize_def add_usize_def
        split: option.splits if_splits VmAreaKind.splits FaultSource.splits)
  then show m: "a \<in> set (vas_areas (as_areas s))" "VirtRange_contains (va_range a) (pf_address f)"
    using VmAreaSet_find_Some_iff [OF inv] by auto
  then show "AddressSpace_lookup s (pf_address f) = Some (attrs a)"
    using vma_lookup_Some_iff [OF inv] by auto
qed

lemma PageFault_resolve_grants:
  assumes "PageFault_resolve f s = Ok out" "grants out" "outcome_area out = Some a"
  shows "access_allowed (va_flags a) (pf_access f)" "pf_present f \<Longrightarrow> out = CopyOnWrite a"
  using assms
  by (auto simp: PageFault_resolve_def access_allowed_def split: option.splits if_splits VmAreaKind.splits
      FaultSource.splits)

lemma PageFault_resolve_unmapped:
  assumes "AddressSpace_inv s"
  shows "PageFault_resolve f s = Ok SegmentationViolation \<longleftrightarrow>
    AddressSpace_lookup s (pf_address f) = None \<and> pf_source f = UserSource"
proof -
  have inv: "areas_inv (vas_areas (as_areas s))"
    using AddressSpace_invD(2) [OF assms(1)] by (simp add: VmAreaSet_inv_def)
  have find: "AddressSpace_find_area s (pf_address f) = None \<longleftrightarrow> AddressSpace_lookup s (pf_address f) = None"
    using VmAreaSet_find_Some_iff [OF inv, of "pf_address f"]
    by (auto simp: AddressSpace_find_area_def vma_lookup_None_iff)
      (metis not_Some_eq)+
  show ?thesis
    unfolding find [symmetric]
    by (auto simp: PageFault_resolve_def sub_usize_def add_usize_def
        split: option.splits if_splits VmAreaKind.splits FaultSource.splits)
qed

text \<open>The classification returns unless the offset of a file-backed area overflows 64 bits.\<close>

lemma PageFault_resolve_total:
  assumes "AddressSpace_inv s" "PageFault_resolve f s = Panic"
  shows "\<exists>a ob off. a \<in> set (vas_areas (as_areas s)) \<and> VirtRange_contains (va_range a) (pf_address f)
    \<and> va_kind a = FileBacked ob off \<and> usize_MAX < off + (pf_address f - vr_start (va_range a))"
proof -
  have inv: "areas_inv (vas_areas (as_areas s))"
    using AddressSpace_invD(2) [OF assms(1)] by (simp add: VmAreaSet_inv_def)
  obtain a where a: "AddressSpace_find_area s (pf_address f) = Some a"
    using assms(2) by (auto simp: PageFault_resolve_def split: option.splits)
  then have m: "a \<in> set (vas_areas (as_areas s))" "VirtRange_contains (va_range a) (pf_address f)"
    using VmAreaSet_find_Some_iff [OF inv] by (auto simp: AddressSpace_find_area_def)
  obtain ob off where "va_kind a = FileBacked ob off" "usize_MAX < off + (pf_address f - vr_start (va_range a))"
    using assms(2) a m(2)
    by (auto simp: PageFault_resolve_def sub_usize_def add_usize_def checked_sub_def checked_add_def
        VirtRange_contains_def split: if_splits VmAreaKind.splits)
  with m show ?thesis by blast
qed

end
