(* ===== verification/Cpu_Mask.thy ===== *)
theory Cpu_Mask
  imports Prelude
begin

text \<open>
  Sets of CPUs as 64-bit masks, \<open>mm/src/cpu_mask.rs\<close>. The atomic variant is a single word whose
  read-modify-write operations are single steps. The lemmas are the refinement to sets of CPU numbers.
\<close>

type_synonym CpuMask = "64 word"

datatype CpuMaskError = CpuOutOfRange usize

definition CPU_MASK_BITS :: usize where
  "CPU_MASK_BITS = 64"

definition cpu_bit :: "usize \<Rightarrow> (64 word, CpuMaskError) result" where
  "cpu_bit cpu = (if cpu < CPU_MASK_BITS then Ok (push_bit cpu 1) else Err (CpuOutOfRange cpu))"

definition CpuMask_EMPTY :: CpuMask where
  "CpuMask_EMPTY = 0"

definition CpuMask_ALL :: CpuMask where
  "CpuMask_ALL = - 1"

definition CpuMask_is_empty :: "CpuMask \<Rightarrow> bool" where
  "CpuMask_is_empty self \<longleftrightarrow> self = 0"

definition CpuMask_count :: "CpuMask \<Rightarrow> usize" where
  "CpuMask_count self = length (filter (bit self) [0..<64])"

definition CpuMask_contains :: "CpuMask \<Rightarrow> usize \<Rightarrow> (bool, CpuMaskError) result" where
  "CpuMask_contains self cpu = rbind (cpu_bit cpu) (\<lambda>b. Ok (self AND b \<noteq> 0))"

definition CpuMask_with_cpu :: "CpuMask \<Rightarrow> usize \<Rightarrow> (CpuMask, CpuMaskError) result" where
  "CpuMask_with_cpu self cpu = rbind (cpu_bit cpu) (\<lambda>b. Ok (self OR b))"

definition CpuMask_without_cpu :: "CpuMask \<Rightarrow> usize \<Rightarrow> (CpuMask, CpuMaskError) result" where
  "CpuMask_without_cpu self cpu = rbind (cpu_bit cpu) (\<lambda>b. Ok (self AND NOT b))"

definition CpuMask_intersect :: "CpuMask \<Rightarrow> CpuMask \<Rightarrow> CpuMask" where
  "CpuMask_intersect self other = self AND other"

definition CpuMask_union :: "CpuMask \<Rightarrow> CpuMask \<Rightarrow> CpuMask" where
  "CpuMask_union self other = self OR other"

definition CpuMask_difference :: "CpuMask \<Rightarrow> CpuMask \<Rightarrow> CpuMask" where
  "CpuMask_difference self other = self AND NOT other"

text \<open>\<open>trailing_zeros\<close> of a non-zero word is its lowest set bit.\<close>

definition CpuMask_first :: "CpuMask \<Rightarrow> usize option" where
  "CpuMask_first self =
     (if CpuMask_is_empty self then None else List.find (bit self) [0..<64])"

section \<open>The atomic mask\<close>

definition AtomicCpuMask_insert :: "usize \<Rightarrow> (CpuMask, bool, CpuMaskError) action" where
  "AtomicCpuMask_insert cpu self =
     (case cpu_bit cpu of
        Ok b \<Rightarrow> (Ok (self AND b = 0), self OR b)
      | Err e \<Rightarrow> (Err e, self)
      | Panic \<Rightarrow> (Panic, self))"

definition AtomicCpuMask_remove :: "usize \<Rightarrow> (CpuMask, bool, CpuMaskError) action" where
  "AtomicCpuMask_remove cpu self =
     (case cpu_bit cpu of
        Ok b \<Rightarrow> (Ok (self AND b \<noteq> 0), self AND NOT b)
      | Err e \<Rightarrow> (Err e, self)
      | Panic \<Rightarrow> (Panic, self))"

definition AtomicCpuMask_clear :: "(CpuMask, CpuMask, 'e) action" where
  "AtomicCpuMask_clear self = (Ok self, 0)"

section \<open>Masks as sets\<close>

definition cpus :: "CpuMask \<Rightarrow> usize set" where
  "cpus m = {n. bit m n}"

lemma cpus_bound: "n \<in> cpus m \<Longrightarrow> n < 64"
  unfolding cpus_def using bit_imp_le_length [of m n] by simp

lemma finite_cpus [simp]: "finite (cpus m)"
  by (rule finite_subset [of _ "{..<64}"]) (auto dest: cpus_bound)

lemma cpus_inject: "cpus m = cpus m' \<longleftrightarrow> m = m'"
  by (auto simp: cpus_def intro: bit_eqI)

lemma cpus_empty [simp]: "cpus 0 = {}"
  by (simp add: cpus_def)

lemma CpuMask_is_empty_iff: "CpuMask_is_empty m \<longleftrightarrow> cpus m = {}"
  using cpus_inject [of m 0] by (simp add: CpuMask_is_empty_def)

lemma cpus_bit [simp]: "n < 64 \<Longrightarrow> cpus (2 ^ n) = {n}"
  by (auto simp: cpus_def bit_simps)

lemma cpus_or [simp]: "cpus (m OR m') = cpus m \<union> cpus m'"
  by (auto simp: cpus_def bit_simps)

lemma cpus_and [simp]: "cpus (m AND m') = cpus m \<inter> cpus m'"
  by (auto simp: cpus_def bit_simps)

lemma cpus_not [simp]: "cpus (NOT m) = {..<64} - cpus m"
  by (auto simp: cpus_def bit_simps)

lemma cpus_minus [simp]: "cpus m \<inter> ({..<64} - A) = cpus m - A"
  using cpus_bound [of _ m] by auto

lemma and_bit_eq_0: "n < 64 \<Longrightarrow> m AND 2 ^ n = (0 :: CpuMask) \<longleftrightarrow> n \<notin> cpus m"
  using cpus_inject [of "m AND 2 ^ n" 0] cpus_and [of m "2 ^ n"] cpus_bit [of n] cpus_empty by auto

lemma cpu_bit_Ok: "cpu < 64 \<Longrightarrow> cpu_bit cpu = Ok (2 ^ cpu)"
  by (simp add: cpu_bit_def CPU_MASK_BITS_def push_bit_eq_mult)

lemma CpuMask_count_card: "CpuMask_count m = card (cpus m)"
proof -
  have "cpus m = set (filter (bit m) [0..<64])"
    by (auto simp: cpus_def dest: bit_imp_le_length)
  then show ?thesis
    by (simp only: CpuMask_count_def) (rule distinct_card [symmetric], simp)
qed

lemma CpuMask_contains_Ok: "cpu < 64 \<Longrightarrow> CpuMask_contains m cpu = Ok (cpu \<in> cpus m)"
  by (simp add: CpuMask_contains_def cpu_bit_Ok and_bit_eq_0)

lemma CpuMask_with_cpu_Ok: "cpu < 64 \<Longrightarrow> CpuMask_with_cpu m cpu = Ok (m OR 2 ^ cpu)"
  by (simp add: CpuMask_with_cpu_def cpu_bit_Ok)

lemma CpuMask_first_Some: "CpuMask_first m = Some c \<Longrightarrow> c \<in> cpus m \<and> (\<forall>d \<in> cpus m. c \<le> d)"
proof -
  assume "CpuMask_first m = Some c"
  then have "List.find (bit m) [0..<64] = Some c"
    by (simp add: CpuMask_first_def split: if_splits)
  then obtain i where i: "i < 64" "bit m ([0..<64] ! i)" "c = [0..<64] ! i" "\<forall>j < i. \<not> bit m ([0..<64] ! j)"
    by (auto simp: find_Some_iff)
  then have "c = i" by simp
  with i show ?thesis by (auto simp: cpus_def not_less [symmetric] dest: bit_imp_le_length)
qed

lemma CpuMask_first_None: "CpuMask_first m = None \<longleftrightarrow> cpus m = {}"
proof (cases "cpus m = {}")
  case False
  then obtain n where "bit m n" "n < 64" using cpus_bound by (auto simp: cpus_def)
  then show ?thesis
    using False by (auto simp: CpuMask_first_def CpuMask_is_empty_iff find_None_iff)
qed (simp add: CpuMask_first_def CpuMask_is_empty_iff)

text \<open>
  The mask operations refine operations on sets of CPU numbers: for a CPU below 64, testing,
  adding and removing a bit are membership, insertion and deletion; the bulk operations are the set
  operations; \<open>count\<close> is the cardinality and \<open>first\<close> the least member.
\<close>

theorem CpuMask_refines_sets:
  assumes "cpu < CPU_MASK_BITS"
  shows "CpuMask_contains m cpu = Ok (cpu \<in> cpus m)
    \<and> (\<exists>m'. CpuMask_with_cpu m cpu = Ok m' \<and> cpus m' = insert cpu (cpus m))
    \<and> (\<exists>m'. CpuMask_without_cpu m cpu = Ok m' \<and> cpus m' = cpus m - {cpu})
    \<and> cpus (CpuMask_union m k) = cpus m \<union> cpus k
    \<and> cpus (CpuMask_intersect m k) = cpus m \<inter> cpus k
    \<and> cpus (CpuMask_difference m k) = cpus m - cpus k
    \<and> CpuMask_count m = card (cpus m)
    \<and> CpuMask_first m = (if cpus m = {} then None else Some (Min (cpus m)))"
proof -
  have "CpuMask_first m = (if cpus m = {} then None else Some (Min (cpus m)))"
  proof (cases "CpuMask_first m")
    case (Some c)
    then have "Min (cpus m) = c"
      using CpuMask_first_Some [OF Some] by (intro Min_eqI) auto
    then show ?thesis using Some CpuMask_first_Some [OF Some] by auto
  qed (simp add: CpuMask_first_None)
  then show ?thesis
    using assms
    by (simp add: CPU_MASK_BITS_def CpuMask_contains_Ok CpuMask_with_cpu_Ok CpuMask_without_cpu_def cpu_bit_Ok
        CpuMask_union_def CpuMask_intersect_def CpuMask_difference_def CpuMask_count_card)
qed

theorem CpuMask_refines_sets_witness:
  "CpuMask_contains 10 3 = Ok True \<and> CpuMask_contains 10 2 = Ok False
   \<and> CpuMask_contains 10 3 = Ok (3 \<in> cpus 10)"
proof -
  have "CpuMask_contains 10 3 = Ok True" "CpuMask_contains 10 2 = Ok False"
    by (simp_all add: CpuMask_contains_def cpu_bit_Ok)
  with CpuMask_refines_sets [of 3 10 0] show ?thesis by (simp add: CPU_MASK_BITS_def)
qed

end
