(* ===== verification/Asid.thy ===== *)
theory Asid
  imports Address
begin

text \<open>
  Hardware address-space identifiers: the types of \<open>mm/src/tlb.rs\<close> and the generation allocator of
  \<open>mm/src/asid.rs\<close>. Bounds that the Rust types impose (\<open>u16\<close> identifiers, \<open>u32\<close> cursor, \<open>u64\<close>
  generation) are explicit: \<open>u16::try_from\<close> and the cursor increment panic when they do not fit. The
  vector of released identifiers is a list whose last element is on top.

  \<open>asid_run\<close> is the step relation of the allocator with the set of identifiers that are held by live
  tokens of the current generation.
\<close>

type_synonym AddressSpaceId = u16

definition AddressSpaceId_KERNEL :: AddressSpaceId where
  "AddressSpaceId_KERNEL = 0"

datatype TlbScope = Local | AllCpus | AddressSpaceScope AddressSpaceId

datatype TlbFlush =
    FlushAll TlbScope
  | FlushPage TlbScope VirtAddr
  | FlushRange TlbScope VirtRange

record TlbShootdown =
  ts_flush :: TlbFlush
  ts_generation :: u64

record AsidToken =
  at_id :: AddressSpaceId
  at_generation :: u64

definition AsidToken_is_current :: "AsidToken \<Rightarrow> u64 \<Rightarrow> bool" where
  "AsidToken_is_current self generation \<longleftrightarrow> at_generation self = generation"

record AsidAllocation =
  aa_token :: AsidToken
  aa_generation_rolled :: bool

definition AsidAllocation_requires_global_flush :: "AsidAllocation \<Rightarrow> bool" where
  "AsidAllocation_requires_global_flush self = aa_generation_rolled self"

datatype AsidAllocatorError = NoUserAsids | GenerationOverflow

record AsidAllocator =
  asid_maximum :: u16
  asid_next :: u32
  asid_generation :: u64
  asid_free :: "u16 list"

definition AsidAllocator_new :: "u16 \<Rightarrow> (AsidAllocator, AsidAllocatorError) result" where
  "AsidAllocator_new maximum =
     (if maximum = 0 then Err NoUserAsids
      else Ok \<lparr>asid_maximum = maximum, asid_next = 1, asid_generation = 1, asid_free = []\<rparr>)"

definition AsidAllocator_next_allocation_rolls_generation :: "AsidAllocator \<Rightarrow> bool" where
  "AsidAllocator_next_allocation_rolls_generation self \<longleftrightarrow>
     asid_free self = [] \<and> asid_maximum self < asid_next self"

definition AsidAllocator_allocate :: "(AsidAllocator, AsidAllocation, AsidAllocatorError) action" where
  "AsidAllocator_allocate self =
     (if asid_free self \<noteq> [] then
        (Ok \<lparr>aa_token = \<lparr>at_id = last (asid_free self), at_generation = asid_generation self\<rparr>,
             aa_generation_rolled = False\<rparr>,
         self\<lparr>asid_free := butlast (asid_free self)\<rparr>)
      else
        (let rolled = asid_maximum self < asid_next self in
         case (if rolled then
                 (case checked_add (asid_generation self) 1 of
                    None \<Rightarrow> Err GenerationOverflow
                  | Some g \<Rightarrow> Ok (self\<lparr>asid_generation := g, asid_next := 1\<rparr>))
               else Ok self) of
           Err e \<Rightarrow> (Err e, self)
         | Panic \<Rightarrow> (Panic, self)
         | Ok self \<Rightarrow>
             if u16_MAX < asid_next self then (Panic, self)
             else if u32_MAX < asid_next self + 1 then (Panic, self)
             else
               (Ok \<lparr>aa_token = \<lparr>at_id = asid_next self, at_generation = asid_generation self\<rparr>,
                    aa_generation_rolled = rolled\<rparr>,
                self\<lparr>asid_next := asid_next self + 1\<rparr>)))"

definition AsidAllocator_release :: "AsidToken \<Rightarrow> (AsidAllocator, unit, AsidAllocatorError) action" where
  "AsidAllocator_release token self =
     (if \<not> AsidToken_is_current token (asid_generation self) \<or> at_id token = AddressSpaceId_KERNEL
      then (Ok (), self)
      else if \<not> at_id token \<le> asid_maximum self then (Panic, self)
      else if at_id token \<in> set (asid_free self) then (Panic, self)
      else (Ok (), self\<lparr>asid_free := asid_free self @ [at_id token]\<rparr>))"

section \<open>Reachable allocators\<close>

text \<open>
  A state is the allocator with the identifiers that live tokens of its current generation hold. A
  roll-over starts a generation with no live tokens; tokens of an older generation may be released at
  any time and have no effect.
\<close>

inductive asid_run :: "u16 \<Rightarrow> AsidAllocator \<Rightarrow> u16 set \<Rightarrow> bool" for maximum where
  start: "AsidAllocator_new maximum = Ok a \<Longrightarrow> asid_run maximum a {}"
| allocate: "asid_run maximum a live \<Longrightarrow> AsidAllocator_allocate a = (Ok al, a') \<Longrightarrow>
    asid_run maximum a'
      (insert (at_id (aa_token al)) (if aa_generation_rolled al then {} else live))"
| release: "asid_run maximum a live \<Longrightarrow> at_id t \<in> live \<Longrightarrow> at_generation t = asid_generation a \<Longrightarrow>
    AsidAllocator_release t a = (Ok (), a') \<Longrightarrow> asid_run maximum a' (live - {at_id t})"
| stale: "asid_run maximum a live \<Longrightarrow> at_generation t < asid_generation a \<Longrightarrow>
    AsidAllocator_release t a = (Ok (), a') \<Longrightarrow> asid_run maximum a' live"

inductive_cases asid_run_cases: "asid_run maximum a live"

definition asid_inv :: "u16 \<Rightarrow> AsidAllocator \<Rightarrow> u16 set \<Rightarrow> bool" where
  "asid_inv maximum a live \<longleftrightarrow> asid_maximum a = maximum \<and> 1 \<le> maximum \<and> maximum \<le> u16_MAX
     \<and> 1 \<le> asid_next a \<and> asid_next a \<le> maximum + 1 \<and> asid_generation a \<le> usize_MAX
     \<and> distinct (asid_free a) \<and> live \<inter> set (asid_free a) = {}
     \<and> live \<union> set (asid_free a) = {1..<asid_next a}"

lemma asid_inv_new: "AsidAllocator_new m = Ok a \<Longrightarrow> m \<le> u16_MAX \<Longrightarrow> asid_inv m a {}"
  by (auto simp: AsidAllocator_new_def asid_inv_def usize_MAX_def split: if_splits)

lemma asid_allocate_free:
  assumes "asid_inv m a live" "asid_free a \<noteq> []"
  shows "AsidAllocator_allocate a =
      (Ok \<lparr>aa_token = \<lparr>at_id = last (asid_free a), at_generation = asid_generation a\<rparr>,
           aa_generation_rolled = False\<rparr>, a\<lparr>asid_free := butlast (asid_free a)\<rparr>)"
    "last (asid_free a) \<notin> live" "1 \<le> last (asid_free a)" "last (asid_free a) \<le> m"
    "asid_inv m (a\<lparr>asid_free := butlast (asid_free a)\<rparr>) (insert (last (asid_free a)) live)"
proof -
  obtain xs x where split: "asid_free a = xs @ [x]" using assms(2) by (cases "asid_free a" rule: rev_cases) auto
  have "1 \<le> x" "x < asid_next a"
    using assms(1) split unfolding asid_inv_def by (metis UnCI atLeastLessThan_iff in_set_conv_decomp)+
  then show "last (asid_free a) \<notin> live" "1 \<le> last (asid_free a)" "last (asid_free a) \<le> m"
    using assms(1) split by (auto simp: asid_inv_def)
  show "AsidAllocator_allocate a =
      (Ok \<lparr>aa_token = \<lparr>at_id = last (asid_free a), at_generation = asid_generation a\<rparr>,
           aa_generation_rolled = False\<rparr>, a\<lparr>asid_free := butlast (asid_free a)\<rparr>)"
    using assms(2) by (simp add: AsidAllocator_allocate_def)
  show "asid_inv m (a\<lparr>asid_free := butlast (asid_free a)\<rparr>) (insert (last (asid_free a)) live)"
    using assms(1) split by (auto simp: asid_inv_def)
qed

lemma asid_allocate_next:
  assumes "asid_inv m a live" "asid_free a = []" "asid_next a \<le> m"
  shows "AsidAllocator_allocate a =
      (Ok \<lparr>aa_token = \<lparr>at_id = asid_next a, at_generation = asid_generation a\<rparr>,
           aa_generation_rolled = False\<rparr>, a\<lparr>asid_next := asid_next a + 1\<rparr>)"
    "asid_next a \<notin> live" "asid_inv m (a\<lparr>asid_next := asid_next a + 1\<rparr>) (insert (asid_next a) live)"
proof -
  show "AsidAllocator_allocate a =
      (Ok \<lparr>aa_token = \<lparr>at_id = asid_next a, at_generation = asid_generation a\<rparr>,
           aa_generation_rolled = False\<rparr>, a\<lparr>asid_next := asid_next a + 1\<rparr>)"
    using assms by (simp add: AsidAllocator_allocate_def Let_def asid_inv_def u16_MAX_def u32_MAX_def)
  have "live = {1..<asid_next a}" using assms(1,2) by (simp add: asid_inv_def)
  then show "asid_next a \<notin> live" "asid_inv m (a\<lparr>asid_next := asid_next a + 1\<rparr>) (insert (asid_next a) live)"
    using assms by (auto simp: asid_inv_def)
qed

lemma asid_allocate_roll:
  assumes "asid_inv m a live" "asid_free a = []" "m < asid_next a"
  shows "AsidAllocator_allocate a =
      (if asid_generation a = usize_MAX then (Err GenerationOverflow, a)
       else (Ok \<lparr>aa_token = \<lparr>at_id = 1, at_generation = asid_generation a + 1\<rparr>, aa_generation_rolled = True\<rparr>,
             a\<lparr>asid_generation := asid_generation a + 1, asid_next := 2\<rparr>))"
    "live = {1..m}"
    "asid_generation a < usize_MAX \<Longrightarrow> asid_inv m (a\<lparr>asid_generation := asid_generation a + 1, asid_next := 2\<rparr>) {1}"
proof -
  show "AsidAllocator_allocate a =
      (if asid_generation a = usize_MAX then (Err GenerationOverflow, a)
       else (Ok \<lparr>aa_token = \<lparr>at_id = 1, at_generation = asid_generation a + 1\<rparr>, aa_generation_rolled = True\<rparr>,
             a\<lparr>asid_generation := asid_generation a + 1, asid_next := 2\<rparr>))"
    using assms
    by (auto simp: AsidAllocator_allocate_def Let_def asid_inv_def u16_MAX_def u32_MAX_def checked_add_def)
  show "live = {1..m}" using assms by (auto simp: asid_inv_def)
  show "asid_inv m (a\<lparr>asid_generation := asid_generation a + 1, asid_next := 2\<rparr>) {1}"
    if "asid_generation a < usize_MAX"
    using assms that by (auto simp: asid_inv_def)
qed

text \<open>What one allocation does in a state that satisfies the invariant.\<close>

lemma asid_allocate_spec:
  assumes "asid_inv m a live"
  shows "case AsidAllocator_allocate a of
      (Ok al, a') \<Rightarrow> 1 \<le> at_id (aa_token al) \<and> at_id (aa_token al) \<le> m
        \<and> at_generation (aa_token al) = asid_generation a'
        \<and> asid_inv m a' (insert (at_id (aa_token al)) (if aa_generation_rolled al then {} else live))
        \<and> (if aa_generation_rolled al then asid_generation a' = asid_generation a + 1 \<and> live = {1..m}
           else asid_generation a' = asid_generation a \<and> at_id (aa_token al) \<notin> live)
    | (Err e, a') \<Rightarrow> a' = a \<and> asid_generation a = usize_MAX \<and> live = {1..m}
    | (Panic, a') \<Rightarrow> False"
proof -
  have m: "1 \<le> m" "1 \<le> asid_next a" using assms by (simp_all add: asid_inv_def)
  consider "asid_free a \<noteq> []" | "asid_free a = []" "asid_next a \<le> m" | "asid_free a = []" "m < asid_next a"
    by fastforce
  then show ?thesis
  proof cases
    case 1
    with asid_allocate_free [OF assms 1] show ?thesis by simp
  next
    case 2
    with asid_allocate_next [OF assms 2] m show ?thesis by simp
  next
    case 3
    have "asid_generation a \<le> usize_MAX" using assms by (simp add: asid_inv_def)
    with asid_allocate_roll [OF assms 3] m show ?thesis by auto
  qed
qed

lemma asid_run_inv:
  assumes "asid_run m a live" "m \<le> u16_MAX"
  shows "asid_inv m a live"
  using assms(1)
proof induction
  case (start a)
  then show ?case using assms(2) by (rule asid_inv_new)
next
  case (allocate a live al a')
  from asid_allocate_spec [OF allocate.IH] allocate.hyps(2) show ?case by simp
next
  case (release a live t a')
  then have "at_id t \<in> {1..<asid_next a}" by (auto simp: asid_inv_def)
  with release show ?case
    by (auto simp: AsidAllocator_release_def AsidToken_is_current_def AddressSpaceId_KERNEL_def asid_inv_def
        split: if_splits)
next
  case (stale a live t a')
  then show ?case
    by (auto simp: AsidAllocator_release_def AsidToken_is_current_def)
qed

text \<open>
  C33. Address-space identifiers are unique: in every state the allocator can reach, an allocation
  returns an identifier between 1 and the hardware maximum - never the kernel's 0 - that no live token
  of the same generation holds. Identifiers are recycled into a new generation only when all of them are
  live; the only failure is generation overflow in that situation, and no internal assertion fails.
\<close>

theorem asid_allocate_unique:
  assumes "asid_run m a live" "m \<le> u16_MAX"
  shows "case AsidAllocator_allocate a of
      (Ok al, a') \<Rightarrow> 1 \<le> at_id (aa_token al) \<and> at_id (aa_token al) \<le> m
        \<and> at_id (aa_token al) \<noteq> AddressSpaceId_KERNEL
        \<and> at_generation (aa_token al) = asid_generation a'
        \<and> (if aa_generation_rolled al then asid_generation a' = asid_generation a + 1 \<and> live = {1..m}
           else asid_generation a' = asid_generation a \<and> at_id (aa_token al) \<notin> live)
    | (Err e, a') \<Rightarrow> a' = a \<and> asid_generation a = usize_MAX \<and> live = {1..m}
    | (Panic, a') \<Rightarrow> False"
  using asid_allocate_spec [OF asid_run_inv [OF assms]]
  by (auto simp: AddressSpaceId_KERNEL_def split: result.splits)

text \<open>
  Releasing a live token of the current generation never trips the allocator's assertions, and the
  identifier can be allocated again at once.
\<close>

theorem asid_release_reuse:
  assumes "asid_run m a live" "m \<le> u16_MAX" "at_id t \<in> live" "at_generation t = asid_generation a"
  shows "\<exists>a'. AsidAllocator_release t a = (Ok (), a') \<and> asid_run m a' (live - {at_id t})
    \<and> fst (AsidAllocator_allocate a') = Ok \<lparr>aa_token = t, aa_generation_rolled = False\<rparr>"
proof -
  have inv: "asid_inv m a live" by (rule asid_run_inv [OF assms(1,2)])
  then have "at_id t \<in> {1..<asid_next a}" "at_id t \<notin> set (asid_free a)"
    using assms(3) by (auto simp: asid_inv_def)
  then have rel: "AsidAllocator_release t a = (Ok (), a\<lparr>asid_free := asid_free a @ [at_id t]\<rparr>)"
    using inv assms(4)
    by (auto simp: AsidAllocator_release_def AsidToken_is_current_def AddressSpaceId_KERNEL_def asid_inv_def)
  have "t = \<lparr>at_id = at_id t, at_generation = asid_generation a\<rparr>" using assms(4) by simp
  then have "fst (AsidAllocator_allocate (a\<lparr>asid_free := asid_free a @ [at_id t]\<rparr>)) =
      Ok \<lparr>aa_token = t, aa_generation_rolled = False\<rparr>"
    by (simp add: AsidAllocator_allocate_def)
  with rel asid_run.release [OF assms(1,3,4) rel] show ?thesis by blast
qed

abbreviation asid_two :: AsidAllocator where
  "asid_two \<equiv> \<lparr>asid_maximum = 2, asid_next = 2, asid_generation = 1, asid_free = []\<rparr>"

lemma asid_two_run: "asid_run 2 asid_two {1}"
proof -
  let ?a = "\<lparr>asid_maximum = 2, asid_next = 1, asid_generation = 1, asid_free = []\<rparr>"
  have "asid_run 2 ?a {}" by (rule asid_run.start) (simp add: AsidAllocator_new_def)
  from asid_run.allocate [OF this, of "\<lparr>aa_token = \<lparr>at_id = 1, at_generation = 1\<rparr>, aa_generation_rolled = False\<rparr>" asid_two]
  show ?thesis by (simp add: AsidAllocator_allocate_def u16_MAX_def u32_MAX_def)
qed

theorem asid_allocate_unique_witness:
  "fst (AsidAllocator_allocate asid_two) =
     Ok \<lparr>aa_token = \<lparr>at_id = 2, at_generation = 1\<rparr>, aa_generation_rolled = False\<rparr> \<and> 2 \<notin> {1 :: nat}"
proof -
  have "AsidAllocator_allocate asid_two =
     (Ok \<lparr>aa_token = \<lparr>at_id = 2, at_generation = 1\<rparr>, aa_generation_rolled = False\<rparr>, asid_two\<lparr>asid_next := 3\<rparr>)"
    by (simp add: AsidAllocator_allocate_def u16_MAX_def u32_MAX_def)
  with asid_allocate_unique [OF asid_two_run] show ?thesis by (simp add: u16_MAX_def)
qed

theorem asid_release_reuse_witness:
  "\<exists>a'. AsidAllocator_release \<lparr>at_id = 1, at_generation = 1\<rparr> asid_two = (Ok (), a')
    \<and> asid_run 2 a' ({1} - {1})
    \<and> fst (AsidAllocator_allocate a') =
        Ok \<lparr>aa_token = \<lparr>at_id = 1, at_generation = 1\<rparr>, aa_generation_rolled = False\<rparr>"
  using asid_release_reuse [OF asid_two_run, of "\<lparr>at_id = 1, at_generation = 1\<rparr>"]
  by (simp add: u16_MAX_def)

end
