(* ===== verification/User_Space.thy ===== *)
theory User_Space
  imports Page_Fault Cpu_Mask Asid
begin

text \<open>
  The architecture-neutral half of a user address space, \<open>mm/src/user_space.rs\<close>: the area layout, the
  ASID token, the mask of CPUs on which it is active and the sequence number of its TLB invalidations.

  The operations are sequential functions; the two atomics are fields of the state. An area removed
  from the layout leaves its slot in the vector, so the insertion that follows in \<open>protect_exact\<close> and
  \<open>commit_stack_growth\<close> needs no allocation (\<open>reserve_ok\<close> is \<open>True\<close> there). The interleaving of the
  atomic accesses of several CPUs is the subject of theory \<open>Tlb_Handshake\<close>.
\<close>

datatype UserMmError =
    AddressSpaceErr AddressSpaceError
  | CpuMaskErr CpuMaskError
  | AsidMismatch
  | TlbGenerationMismatch u64 u64
  | TlbGenerationOverflow
  | MmAddressOverflow
  | NotStack
  | StackGrowthDenied
  | ActiveOnCpu

record PerMmTlbRequest =
  pr_asid :: AsidToken
  pr_targets :: CpuMask
  pr_flush :: TlbFlush
  pr_generation :: u64

definition PerMmTlbRequest_local_only :: "PerMmTlbRequest \<Rightarrow> usize \<Rightarrow> (PerMmTlbRequest, UserMmError) result" where
  "PerMmTlbRequest_local_only self cpu =
     rbind (map_err CpuMaskErr (CpuMask_with_cpu CpuMask_EMPTY cpu)) (\<lambda>targets.
       Ok (self\<lparr>pr_targets := targets\<rparr>))"

record StackGrowth =
  sg_old_area :: VmArea
  sg_new_area :: VmArea
  sg_fault_page :: VirtAddr

definition DEFAULT_STACK_GUARD_GAP :: usize where "DEFAULT_STACK_GUARD_GAP = PAGE_SIZE"
definition DEFAULT_STACK_GROWTH_STEP :: usize where "DEFAULT_STACK_GROWTH_STEP = PAGE_SIZE * 256"
definition DEFAULT_STACK_SP_DISTANCE :: usize where "DEFAULT_STACK_SP_DISTANCE = PAGE_SIZE * 16"

datatype UserFaultPlan =
    PlanMapAnonymous VmArea VirtAddr
  | GrowStack StackGrowth
  | CopyOnWriteUnsupported VmArea
  | PlanProtectionViolation VmArea
  | PlanSegmentationViolation
  | PlanSpurious VmArea
  | PlanKernelBug

fun UserFaultPlan_requires_page_table_update :: "UserFaultPlan \<Rightarrow> bool" where
  "UserFaultPlan_requires_page_table_update (PlanMapAnonymous area page) = True"
| "UserFaultPlan_requires_page_table_update (GrowStack growth) = True"
| "UserFaultPlan_requires_page_table_update (CopyOnWriteUnsupported area) = True"
| "UserFaultPlan_requires_page_table_update _ = False"

record UserAddressSpace =
  um_layout :: AddressSpace
  um_asid :: AsidToken
  um_active_cpus :: CpuMask
  um_tlb_generation :: u64

definition UserAddressSpace_new :: "usize \<Rightarrow> VirtRange \<Rightarrow> AsidToken \<Rightarrow> UserAddressSpace" where
  "UserAddressSpace_new VMA_CAPACITY user_range asid =
     \<lparr>um_layout = AddressSpace_new VMA_CAPACITY user_range, um_asid = asid,
      um_active_cpus = CpuMask_EMPTY, um_tlb_generation = 0\<rparr>"

text \<open>Calls on a field, with \<open>?\<close> converting the error.\<close>

definition on_layout ::
  "(AddressSpace, 'a, AddressSpaceError) action \<Rightarrow> (UserAddressSpace, 'a, UserMmError) action" where
  "on_layout m self =
     (case m (um_layout self) of (r, layout) \<Rightarrow> (map_err AddressSpaceErr r, self\<lparr>um_layout := layout\<rparr>))"

definition on_active_cpus ::
  "(CpuMask, 'a, CpuMaskError) action \<Rightarrow> (UserAddressSpace, 'a, UserMmError) action" where
  "on_active_cpus m self =
     (case m (um_active_cpus self) of (r, cpumask) \<Rightarrow> (map_err CpuMaskErr r, self\<lparr>um_active_cpus := cpumask\<rparr>))"

definition UserAddressSpace_enter_cpu_after_local_sync ::
  "usize \<Rightarrow> u64 \<Rightarrow> u64 \<Rightarrow> (UserAddressSpace, unit, UserMmError) action" where
  "UserAddressSpace_enter_cpu_after_local_sync cpu current_asid_generation synchronized_tlb_generation =
     sbind (sget um_asid) (\<lambda>asid.
     if \<not> AsidToken_is_current asid current_asid_generation then sfail AsidMismatch
     else
       sseq (on_active_cpus (AtomicCpuMask_insert cpu))
       (sbind (sget um_tlb_generation) (\<lambda>observed.
        if observed \<noteq> synchronized_tlb_generation then
          sseq (on_active_cpus (AtomicCpuMask_remove cpu))
            (sfail (TlbGenerationMismatch synchronized_tlb_generation observed))
        else sreturn ())))"

definition UserAddressSpace_leave_cpu_after_local_flush ::
  "usize \<Rightarrow> u64 \<Rightarrow> (UserAddressSpace, unit, UserMmError) action" where
  "UserAddressSpace_leave_cpu_after_local_flush cpu flushed_tlb_generation =
     sbind (sget um_tlb_generation) (\<lambda>observed.
     if observed \<noteq> flushed_tlb_generation then
       sfail (TlbGenerationMismatch flushed_tlb_generation observed)
     else sseq (on_active_cpus (AtomicCpuMask_remove cpu)) (sreturn ()))"

definition UserAddressSpace_assert_inactive_for_destroy :: "UserAddressSpace \<Rightarrow> (unit, UserMmError) result" where
  "UserAddressSpace_assert_inactive_for_destroy self =
     (if CpuMask_is_empty (um_active_cpus self) then Ok () else Err ActiveOnCpu)"

definition UserAddressSpace_map_area :: "bool \<Rightarrow> VmArea \<Rightarrow> (UserAddressSpace, unit, UserMmError) action" where
  "UserAddressSpace_map_area reserve_ok area = on_layout (AddressSpace_map_area reserve_ok area)"

definition UserAddressSpace_unmap_exact :: "VirtRange \<Rightarrow> (UserAddressSpace, VmArea, UserMmError) action" where
  "UserAddressSpace_unmap_exact rng = on_layout (AddressSpace_unmap_exact rng)"

text \<open>
  \<open>map_area(new)\<close> with the rollback \<open>map_area(old).expect(..)\<close> of \<open>protect_exact\<close> and
  \<open>commit_stack_growth\<close>.
\<close>

definition map_or_restore ::
  "VmArea \<Rightarrow> VmArea \<Rightarrow> (AddressSpace, unit, UserMmError) action" where
  "map_or_restore new old layout =
     (case AddressSpace_map_area True new layout of
        (Err error, layout) \<Rightarrow>
          (case AddressSpace_map_area True old layout of
             (Ok _, layout) \<Rightarrow> (Err (AddressSpaceErr error), layout)
           | (_, layout) \<Rightarrow> (Panic, layout))
      | (Ok _, layout) \<Rightarrow> (Ok (), layout)
      | (Panic, layout) \<Rightarrow> (Panic, layout))"

definition UserAddressSpace_protect_exact ::
  "VirtRange \<Rightarrow> VmAreaFlags \<Rightarrow> (UserAddressSpace, VmArea, UserMmError) action" where
  "UserAddressSpace_protect_exact rng flags self =
     (case AddressSpace_unmap_exact rng (um_layout self) of
        (Err e, layout) \<Rightarrow> (Err (AddressSpaceErr e), self\<lparr>um_layout := layout\<rparr>)
      | (Panic, layout) \<Rightarrow> (Panic, self\<lparr>um_layout := layout\<rparr>)
      | (Ok old, layout) \<Rightarrow>
          (case map_or_restore (VmArea_new rng flags (va_kind old)) old layout of
             (Ok _, layout) \<Rightarrow> (Ok old, self\<lparr>um_layout := layout\<rparr>)
           | (Err e, layout) \<Rightarrow> (Err e, self\<lparr>um_layout := layout\<rparr>)
           | (Panic, layout) \<Rightarrow> (Panic, self\<lparr>um_layout := layout\<rparr>)))"

definition UserAddressSpace_resolve_fault :: "UserAddressSpace \<Rightarrow> PageFault \<Rightarrow> (FaultOutcome, 'e) result" where
  "UserAddressSpace_resolve_fault self fault = PageFault_resolve fault (um_layout self)"

fun stack_growth_loop ::
  "AddressSpace \<Rightarrow> VirtAddr \<Rightarrow> VirtAddr \<Rightarrow> VirtAddr \<Rightarrow> usize \<Rightarrow> usize \<Rightarrow> usize \<Rightarrow> usize list \<Rightarrow>
   (StackGrowth, UserMmError) result" where
  "stack_growth_loop layout fault fault_page user_sp gap step dist [] = Err StackGrowthDenied"
| "stack_growth_loop layout fault fault_page user_sp gap step dist (index # rest) =
     (let continue = stack_growth_loop layout fault fault_page user_sp gap step dist rest in
      rbind (expect (AddressSpace_area_at layout index)) (\<lambda>area.
      if va_kind area \<noteq> Stack \<or> \<not> VmAreaFlags_contains (va_flags area) VmAreaFlags_GROW_DOWN
         \<or> vr_start (va_range area) \<le> fault_page then continue
      else
      rbind (ok_or (VirtAddr_checked_sub (vr_start (va_range area)) step) MmAddressOverflow) (\<lambda>step_limit.
      let sp_matches = (step_limit \<le> user_sp \<and> user_sp < vr_start (va_range area)
                        \<or> VirtRange_contains (va_range area) user_sp
                        \<or> user_sp = vr_end (va_range area)) in
      if \<not> sp_matches then continue
      else if fault_page < step_limit then continue
      else
      rbind (ok_or (VirtAddr_checked_sub user_sp dist) MmAddressOverflow) (\<lambda>sp_limit.
      if fault < sp_limit then continue
      else
      rbind (if 0 < index then
               rbind (expect (AddressSpace_area_at layout (index - 1))) (\<lambda>previous.
               rbind (ok_or (VirtAddr_checked_add (vr_end (va_range previous)) gap) MmAddressOverflow) (\<lambda>minimum_start.
               Ok (fault_page < minimum_start)))
             else Ok False) (\<lambda>too_close.
      if too_close then continue
      else
      rbind (ok_or (VirtRange_new fault_page (vr_end (va_range area))) MmAddressOverflow) (\<lambda>new_range.
      if \<not> VirtRange_contains_range (as_user_range layout) new_range then continue
      else Ok \<lparr>sg_old_area = area, sg_new_area = VmArea_new new_range (va_flags area) (va_kind area),
               sg_fault_page = fault_page\<rparr>))))))"

definition UserAddressSpace_plan_stack_growth ::
  "UserAddressSpace \<Rightarrow> VirtAddr \<Rightarrow> VirtAddr \<Rightarrow> usize \<Rightarrow> usize \<Rightarrow> usize \<Rightarrow> (StackGrowth, UserMmError) result" where
  "UserAddressSpace_plan_stack_growth self fault user_sp stack_guard_gap max_growth_step max_sp_distance =
     rbind (ok_or (VirtAddr_align_down fault PAGE_SIZE) MmAddressOverflow) (\<lambda>fault_page.
       stack_growth_loop (um_layout self) fault fault_page user_sp stack_guard_gap max_growth_step
         max_sp_distance [0..<AddressSpace_area_count (um_layout self)])"

definition UserAddressSpace_plan_user_fault_with_limits ::
  "UserAddressSpace \<Rightarrow> PageFault \<Rightarrow> VirtAddr \<Rightarrow> usize \<Rightarrow> usize \<Rightarrow> usize \<Rightarrow> (UserFaultPlan, UserMmError) result" where
  "UserAddressSpace_plan_user_fault_with_limits self fault user_sp stack_guard_gap max_growth_step max_sp_distance =
     (if pf_source fault \<noteq> UserSource then Ok PlanKernelBug
      else
        rbind (UserAddressSpace_resolve_fault self fault) (\<lambda>outcome.
        case outcome of
          MapAnonymous area \<Rightarrow>
            rbind (ok_or (VirtAddr_align_down (pf_address fault) PAGE_SIZE) MmAddressOverflow) (\<lambda>page.
              Ok (PlanMapAnonymous area page))
        | CopyOnWrite area \<Rightarrow> Ok (CopyOnWriteUnsupported area)
        | LoadFile area object offset \<Rightarrow>
            rbind (ok_or (VirtAddr_align_down (pf_address fault) PAGE_SIZE) MmAddressOverflow) (\<lambda>page.
              Ok (PlanMapAnonymous area page))
        | MapDevice area physical \<Rightarrow> Ok PlanKernelBug
        | ProtectionViolation area \<Rightarrow> Ok (PlanProtectionViolation area)
        | Spurious area \<Rightarrow> Ok (PlanSpurious area)
        | KernelBug \<Rightarrow> Ok PlanKernelBug
        | SegmentationViolation \<Rightarrow>
            (case UserAddressSpace_plan_stack_growth self (pf_address fault) user_sp
                    stack_guard_gap max_growth_step max_sp_distance of
               Ok growth \<Rightarrow> Ok (GrowStack growth)
             | Err StackGrowthDenied \<Rightarrow> Ok PlanSegmentationViolation
             | Err error \<Rightarrow> Err error
             | Panic \<Rightarrow> Panic)))"

definition UserAddressSpace_plan_user_fault ::
  "UserAddressSpace \<Rightarrow> PageFault \<Rightarrow> VirtAddr \<Rightarrow> (UserFaultPlan, UserMmError) result" where
  "UserAddressSpace_plan_user_fault self fault user_sp =
     UserAddressSpace_plan_user_fault_with_limits self fault user_sp
       DEFAULT_STACK_GUARD_GAP DEFAULT_STACK_GROWTH_STEP DEFAULT_STACK_SP_DISTANCE"

definition UserAddressSpace_commit_stack_growth ::
  "StackGrowth \<Rightarrow> (UserAddressSpace, unit, UserMmError) action" where
  "UserAddressSpace_commit_stack_growth plan self =
     (case AddressSpace_unmap_exact (va_range (sg_old_area plan)) (um_layout self) of
        (Err e, layout) \<Rightarrow> (Err (AddressSpaceErr e), self\<lparr>um_layout := layout\<rparr>)
      | (Panic, layout) \<Rightarrow> (Panic, self\<lparr>um_layout := layout\<rparr>)
      | (Ok removed, layout) \<Rightarrow>
          if removed \<noteq> sg_old_area plan then
            (case AddressSpace_map_area True removed layout of
               (Ok _, layout) \<Rightarrow> (Err NotStack, self\<lparr>um_layout := layout\<rparr>)
             | (_, layout) \<Rightarrow> (Panic, self\<lparr>um_layout := layout\<rparr>))
          else
            (case map_or_restore (sg_new_area plan) removed layout of
               (r, layout) \<Rightarrow> (r, self\<lparr>um_layout := layout\<rparr>)))"

text \<open>
  The compare-and-exchange loop of \<open>next_tlb_generation\<close> without interference: its one effect is the
  exchange that succeeds.
\<close>

definition UserAddressSpace_next_tlb_generation :: "(UserAddressSpace, u64, UserMmError) action" where
  "UserAddressSpace_next_tlb_generation self =
     (case checked_add (um_tlb_generation self) 1 of
        None \<Rightarrow> (Err TlbGenerationOverflow, self)
      | Some next \<Rightarrow> (Ok next, self\<lparr>um_tlb_generation := next\<rparr>))"

fun TlbFlush_scope :: "TlbFlush \<Rightarrow> TlbScope" where
  "TlbFlush_scope (FlushAll scope) = scope"
| "TlbFlush_scope (FlushPage scope address) = scope"
| "TlbFlush_scope (FlushRange scope rng) = scope"

definition UserAddressSpace_plan_tlb_request ::
  "TlbFlush \<Rightarrow> (UserAddressSpace, PerMmTlbRequest, UserMmError) action" where
  "UserAddressSpace_plan_tlb_request flush =
     sbind (sget um_asid) (\<lambda>asid.
     if TlbFlush_scope flush \<noteq> AddressSpaceScope (at_id asid) then sfail AsidMismatch
     else
       sbind UserAddressSpace_next_tlb_generation (\<lambda>generation.
       sbind (sget um_active_cpus) (\<lambda>targets.
       sreturn \<lparr>pr_asid = asid, pr_targets = targets, pr_flush = flush, pr_generation = generation\<rparr>)))"

definition UserAddressSpace_plan_post_install_tlb ::
  "VirtAddr \<Rightarrow> (UserAddressSpace, PerMmTlbRequest, UserMmError) action" where
  "UserAddressSpace_plan_post_install_tlb page =
     sbind (slift (ok_or (VirtAddr_align_down page PAGE_SIZE) MmAddressOverflow)) (\<lambda>page.
     sbind (sget um_asid) (\<lambda>asid.
       UserAddressSpace_plan_tlb_request (FlushPage (AddressSpaceScope (at_id asid)) page)))"

section \<open>Exact protection\<close>

lemma AddressSpace_unmap_exact_Ok:
  assumes "AddressSpace_inv s" "AddressSpace_unmap_exact r s = (Ok a, s')"
  shows "AddressSpace_inv s'" "as_user_range s' = as_user_range s" "as_program_break s' = as_program_break s"
    "VmAreaSet_spare (as_areas s')" "va_range a = r" "a \<in> set (vas_areas (as_areas s))" "area_ok a"
    "AddressSpace_lookup s' addr = (if addr \<in> VirtRange_set r then None else AddressSpace_lookup s addr)"
    "VirtRange_contains_range (as_user_range s) r"
    "VmAreaSet_remove_exact r (as_areas s) = (Ok a, as_areas s')"
proof -
  show rem: "VmAreaSet_remove_exact r (as_areas s) = (Ok a, as_areas s')"
    using assms(2) by (auto simp: AddressSpace_unmap_exact_def on_areas_def map_err_eq_Ok split: prod.splits)
  show eq: "as_user_range s' = as_user_range s" "as_program_break s' = as_program_break s"
    using assms(2) by (auto simp: AddressSpace_unmap_exact_def on_areas_def split: prod.splits)
  note inv = AddressSpace_invD(2) [OF assms(1)]
  note ok = VmAreaSet_remove_exact_OkD [OF inv rem]
  from ok show "VmAreaSet_spare (as_areas s')" "va_range a = r" "a \<in> set (vas_areas (as_areas s))" "area_ok a"
    "AddressSpace_lookup s' addr = (if addr \<in> VirtRange_set r then None else AddressSpace_lookup s addr)"
    by auto
  show "AddressSpace_inv s'"
    using assms(1) ok eq by (auto simp: AddressSpace_inv_def split: if_splits)
  have mem: "addr \<in> VirtRange_set (as_user_range s)" if "addr \<in> VirtRange_set r" for addr
    using that AddressSpace_invD(3) [OF assms(1), of addr] vma_lookup_member [of _ a addr] ok(3,4) inv
    by (auto simp: VmAreaSet_inv_def)
  have "vr_start r < vr_end r" using area_ok_nonempty ok(3,5) by auto
  then show "VirtRange_contains_range (as_user_range s) r"
    using mem [of "vr_start r"] mem [of "vr_end r - 1"]
    by (simp add: VirtRange_contains_range_def VirtRange_set_def) linarith
qed

lemma AddressSpace_unmap_exact_Err:
  assumes "AddressSpace_inv s" "AddressSpace_unmap_exact r s = (Err e, s')"
  shows "s' = s" "\<forall>a \<in> set (vas_areas (as_areas s)). va_range a \<noteq> r"
  using assms VmAreaSet_remove_exact_correct [OF AddressSpace_invD(2) [OF assms(1)], of r]
  by (auto simp: AddressSpace_unmap_exact_def on_areas_def map_err_eq_Err split: prod.splits)

lemma AddressSpace_unmap_exact_no_panic:
  "AddressSpace_inv s \<Longrightarrow> AddressSpace_unmap_exact r s \<noteq> (Panic, s')"
  using VmAreaSet_remove_exact_correct [OF AddressSpace_invD(2), of s r]
  by (auto simp: AddressSpace_unmap_exact_def on_areas_def map_err_eq_Panic split: prod.splits)

text \<open>An area whose addresses are free and inside the user range can be mapped after a removal.\<close>

lemma AddressSpace_map_area_total:
  assumes "AddressSpace_inv s" "VmAreaSet_spare (as_areas s)" "area_ok a"
    and "VirtRange_contains_range (as_user_range s) (va_range a)"
    and "\<forall>addr \<in> VirtRange_set (va_range a). AddressSpace_lookup s addr = None"
  shows "\<exists>s'. AddressSpace_map_area True a s = (Ok (), s')"
  using VmAreaSet_insert_total [OF AddressSpace_invD(2) [OF assms(1)] assms(2,3,5)] assms(4)
  by (auto simp: AddressSpace_map_area_def on_areas_def)

lemma AddressSpace_restore:
  assumes "AddressSpace_inv s" "AddressSpace_unmap_exact r s = (Ok a, s')"
  obtains s'' where "AddressSpace_map_area True a s' = (Ok (), s'')" "AddressSpace_inv s''"
    "AddressSpace_lookup s'' = AddressSpace_lookup s" "as_user_range s'' = as_user_range s"
    "as_program_break s'' = as_program_break s"
proof -
  note un = AddressSpace_unmap_exact_Ok [OF assms]
  from vmas.restore [OF AddressSpace_invD(2) [OF assms(1)] un(10)]
  obtain t where t: "VmAreaSet_insert True a (as_areas s') = (Ok (), t)" "VmAreaSet_lookup t = AddressSpace_lookup s"
    by blast
  have step: "AddressSpace_map_area True a s' = (Ok (), s'\<lparr>as_areas := t\<rparr>)"
    using un t(1) by (simp add: AddressSpace_map_area_def on_areas_def)
  have "VirtRange_ok (va_range a)" using un(7) by (simp add: area_ok_def)
  from AddressSpace_map_area_Ok [OF un(1) this step] have "AddressSpace_inv (s'\<lparr>as_areas := t\<rparr>)" by blast
  with step t un show ?thesis by (intro that [of "s'\<lparr>as_areas := t\<rparr>"]) auto
qed

text \<open>Replacing a removed area either maps the new one or restores what was there.\<close>

lemma map_or_restore_cases:
  assumes "AddressSpace_inv s" "AddressSpace_unmap_exact r s = (Ok old, s')" "VirtRange_ok (va_range new)"
  shows "case map_or_restore new old s' of
      (Ok u, t) \<Rightarrow> AddressSpace_inv t \<and> as_program_break t = as_program_break s \<and> as_user_range t = as_user_range s
        \<and> AddressSpace_map_area True new s' = (Ok (), t)
        \<and> (\<forall>addr. AddressSpace_lookup t addr =
             (if addr \<in> VirtRange_set (va_range new) then Some (attrs new)
              else if addr \<in> VirtRange_set r then None else AddressSpace_lookup s addr))
    | (Err e, t) \<Rightarrow> AddressSpace_inv t \<and> as_program_break t = as_program_break s \<and> as_user_range t = as_user_range s
        \<and> AddressSpace_lookup t = AddressSpace_lookup s \<and> (\<exists>e'. AddressSpace_map_area True new s' = (Err e', s'))
    | (Panic, t) \<Rightarrow> False"
proof -
  note un = AddressSpace_unmap_exact_Ok [OF assms(1,2)]
  obtain p t where mp: "AddressSpace_map_area True new s' = (p, t)" by fastforce
  show ?thesis
  proof (cases p)
    case (Ok u)
    with AddressSpace_map_area_Ok [OF un(1) assms(3) mp [unfolded Ok]] un mp show ?thesis
      by (simp add: map_or_restore_def)
  next
    case (Err e)
    with AddressSpace_map_area_Err [OF un(1) assms(3)] mp have "t = s'" by blast
    moreover obtain s'' where "AddressSpace_map_area True old s' = (Ok (), s'')" "AddressSpace_inv s''"
      "AddressSpace_lookup s'' = AddressSpace_lookup s" "as_user_range s'' = as_user_range s"
      "as_program_break s'' = as_program_break s"
      by (rule AddressSpace_restore [OF assms(1,2)])
    ultimately show ?thesis using mp Err by (simp add: map_or_restore_def)
  next
    case Panic
    with AddressSpace_map_area_no_panic [OF un(1) assms(3)] mp show ?thesis by blast
  qed
qed

text \<open>
  \<open>protect_exact\<close> is transactional. When it returns, every address of the range has the new flags
  with the kind it had, and no other address changed; when it fails, the layout maps what it mapped
  before. The \<open>expect\<close> on its rollback never fires.
\<close>

theorem UserAddressSpace_protect_exact_correct:
  assumes "AddressSpace_inv (um_layout s)"
  shows "case UserAddressSpace_protect_exact rng flags s of
      (Ok old, s') \<Rightarrow> AddressSpace_inv (um_layout s')
        \<and> old \<in> set (vas_areas (as_areas (um_layout s))) \<and> va_range old = rng
        \<and> (\<forall>addr. AddressSpace_lookup (um_layout s') addr =
             (if addr \<in> VirtRange_set rng then Some (flags, va_kind old)
              else AddressSpace_lookup (um_layout s) addr))
    | (Err e, s') \<Rightarrow> AddressSpace_inv (um_layout s')
        \<and> AddressSpace_lookup (um_layout s') = AddressSpace_lookup (um_layout s)
    | (Panic, s') \<Rightarrow> False"
proof -
  obtain q t where un: "AddressSpace_unmap_exact rng (um_layout s) = (q, t)" by fastforce
  show ?thesis
  proof (cases q)
    case (Ok old)
    note ok = AddressSpace_unmap_exact_Ok [OF assms un [unfolded Ok]]
    have r: "VirtRange_ok (va_range (VmArea_new rng flags (va_kind old)))"
      using ok(5,7) by (auto simp: area_ok_def)
    obtain p t' where mr: "map_or_restore (VmArea_new rng flags (va_kind old)) old t = (p, t')" by fastforce
    from map_or_restore_cases [OF assms un [unfolded Ok] r] ok show ?thesis
      by (cases p) (auto simp: UserAddressSpace_protect_exact_def un Ok mr attrs_def)
  next
    case (Err e)
    with AddressSpace_unmap_exact_Err [OF assms] un assms show ?thesis
      by (auto simp: UserAddressSpace_protect_exact_def)
  next
    case Panic
    with AddressSpace_unmap_exact_no_panic [OF assms] un show ?thesis by blast
  qed
qed

section \<open>Stack growth\<close>

text \<open>A plan that respects the limits of \<open>plan_stack_growth\<close> for a fault at \<open>fault\<close>.\<close>

definition growth_ok :: "AddressSpace \<Rightarrow> VirtAddr \<Rightarrow> VirtAddr \<Rightarrow> VirtAddr \<Rightarrow> usize \<Rightarrow> usize \<Rightarrow> usize \<Rightarrow> StackGrowth \<Rightarrow> bool"
  where
  "growth_ok layout fault page sp gap step dist g \<longleftrightarrow>
     (let old = sg_old_area g; new = sg_new_area g in
      old \<in> set (vas_areas (as_areas layout)) \<and> va_kind old = Stack
      \<and> VmAreaFlags_contains (va_flags old) VmAreaFlags_GROW_DOWN
      \<and> new = VmArea_new \<lparr>vr_start = page, vr_end = vr_end (va_range old)\<rparr> (va_flags old) (va_kind old)
      \<and> sg_fault_page g = page \<and> page < vr_start (va_range old)
      \<and> vr_start (va_range old) \<le> page + step \<and> sp \<le> fault + dist
      \<and> VirtRange_contains_range (as_user_range layout) (va_range new)
      \<and> (\<forall>addr. page \<le> addr + gap \<and> addr < vr_start (va_range old) \<longrightarrow> AddressSpace_lookup layout addr = None))"

text \<open>Below an area and above the guard gap of its predecessor nothing is mapped.\<close>

lemma nothing_mapped_between:
  assumes "areas_inv xs" "i < length xs"
    and "0 < i \<Longrightarrow> vr_end (va_range (xs ! (i - 1))) \<le> addr" "addr < vr_start (va_range (xs ! i))"
  shows "vma_lookup xs addr = None"
proof -
  have "\<not> VirtRange_contains (va_range (xs ! j)) addr" if j: "j < length xs" for j
  proof (cases "j < i")
    case True
    have "vr_end (va_range (xs ! j)) \<le> vr_end (va_range (xs ! (i - 1)))"
    proof (cases "j = i - 1")
      case False
      with True have "vr_end (va_range (xs ! j)) \<le> vr_start (va_range (xs ! (i - 1)))"
        using assms(1,2) by (intro areas_inv_nth) auto
      also have "\<dots> < vr_end (va_range (xs ! (i - 1)))"
        using assms(1,2) by (intro areas_inv_nth_nonempty) auto
      finally show ?thesis by simp
    qed simp
    with assms(3) True show ?thesis by (auto simp: VirtRange_contains_def)
  next
    case False
    then have "vr_start (va_range (xs ! i)) \<le> vr_start (va_range (xs ! j))"
      using areas_inv_nth [OF assms(1), of i j] areas_inv_nth_nonempty [OF assms(1,2)] j
      by (cases "i = j") auto
    with assms(4) show ?thesis by (auto simp: VirtRange_contains_def)
  qed
  then show ?thesis by (auto simp: vma_lookup_None_iff in_set_conv_nth)
qed

lemma stack_growth_loop_Ok:
  assumes "AddressSpace_inv layout" "\<forall>i \<in> set is. i < AddressSpace_area_count layout"
    and "stack_growth_loop layout fault page sp gap step dist is = Ok g"
  shows "growth_ok layout fault page sp gap step dist g"
  using assms(2,3)
proof (induction "is")
  case (Cons i "is")
  let ?xs = "vas_areas (as_areas layout)" and ?a = "vas_areas (as_areas layout) ! i"
  have inv: "areas_inv ?xs" using AddressSpace_invD(2) [OF assms(1)] by (simp add: VmAreaSet_inv_def)
  have i: "i < length ?xs" using Cons.prems(1) by (simp add: AddressSpace_area_count_def VmAreaSet_len_def)
  have at: "AddressSpace_area_at layout j = (if j < length ?xs then Some (?xs ! j) else None)" for j
    by (simp add: AddressSpace_area_at_def VmAreaSet_area_at_def)
  show ?case
  proof (cases "stack_growth_loop layout fault page sp gap step dist is = Ok g")
    case True
    with Cons show ?thesis by simp
  next
    case False
    with Cons.prems(2) i have facts: "va_kind ?a = Stack" "VmAreaFlags_contains (va_flags ?a) VmAreaFlags_GROW_DOWN"
      "page < vr_start (va_range ?a)" "step \<le> vr_start (va_range ?a)" "vr_start (va_range ?a) - step \<le> page"
      "dist \<le> sp" "sp - dist \<le> fault"
      "0 < i \<Longrightarrow> vr_end (va_range (?xs ! (i - 1))) + gap \<le> page"
      "VirtRange_contains_range (as_user_range layout) \<lparr>vr_start = page, vr_end = vr_end (va_range ?a)\<rparr>"
      "g = \<lparr>sg_old_area = ?a, sg_new_area = VmArea_new \<lparr>vr_start = page, vr_end = vr_end (va_range ?a)\<rparr>
              (va_flags ?a) (va_kind ?a), sg_fault_page = page\<rparr>"
      by (auto simp: at Let_def checked_sub_def checked_add_def VirtRange_new_def not_less not_le split: if_splits)
    have "AddressSpace_lookup layout addr = None" if "page \<le> addr + gap" "addr < vr_start (va_range ?a)" for addr
      using that facts(8) by (intro nothing_mapped_between [OF inv i]) auto
    with facts i show ?thesis by (auto simp: growth_ok_def)
  qed
qed simp

lemma UserAddressSpace_plan_stack_growth_Ok:
  assumes "AddressSpace_inv (um_layout s)" "fault \<le> usize_MAX"
    and "UserAddressSpace_plan_stack_growth s fault sp gap step dist = Ok g"
  shows "growth_ok (um_layout s) fault (round_down PAGE_SIZE fault) sp gap step dist g"
  using assms
  by (auto simp: UserAddressSpace_plan_stack_growth_def VirtAddr_align_down_eq intro!: stack_growth_loop_Ok)

lemma growth_ok_new_area:
  assumes "AddressSpace_inv layout" "growth_ok layout fault (round_down PAGE_SIZE fault) sp gap step dist g"
  shows "area_ok (sg_new_area g)" "area_ok (sg_old_area g)" "attrs (sg_new_area g) = attrs (sg_old_area g)"
proof -
  let ?o = "sg_old_area g" and ?p = "round_down PAGE_SIZE fault"
  show ok: "area_ok ?o"
    using assms AddressSpace_invD(2) [OF assms(1)] by (auto simp: growth_ok_def Let_def VmAreaSet_inv_def areas_inv_def)
  have "page_range \<lparr>vr_start = ?p, vr_end = vr_end (va_range ?o)\<rparr>"
    using area_ok_range [OF ok] assms(2)
    by (auto simp: page_range_def growth_ok_def Let_def VirtRange_ok_def VirtRange_is_page_aligned_iff)
  from area_ok_resize [OF ok this] assms(2) show "area_ok (sg_new_area g)" "attrs (sg_new_area g) = attrs ?o"
    by (auto simp: growth_ok_def Let_def attrs_def)
qed

lemma areas_same_range:
  assumes "areas_inv xs" "a \<in> set xs" "b \<in> set xs" "va_range a = va_range b"
  shows "a = b"
proof (rule contains_unique [OF assms(1-3)])
  show "VirtRange_contains (va_range a) (vr_start (va_range a))"
    using area_ok_nonempty [OF areas_inv_member [OF assms(1,2)]] by (simp add: VirtRange_contains_def)
  then show "VirtRange_contains (va_range b) (vr_start (va_range a))" using assms(4) by simp
qed

text \<open>A plan made in a state can be committed in that state.\<close>

lemma UserAddressSpace_commit_stack_growth_Ok:
  assumes "AddressSpace_inv (um_layout s)"
    and "growth_ok (um_layout s) fault (round_down PAGE_SIZE fault) sp gap step dist g"
  obtains s' where "UserAddressSpace_commit_stack_growth g s = (Ok (), s')" "AddressSpace_inv (um_layout s')"
    "\<And>addr. AddressSpace_lookup (um_layout s') addr =
       (if addr \<in> VirtRange_set (va_range (sg_new_area g)) then Some (attrs (sg_old_area g))
        else AddressSpace_lookup (um_layout s) addr)"
proof -
  let ?l = "um_layout s" and ?o = "sg_old_area g" and ?n = "sg_new_area g"
  note areas = growth_ok_new_area [OF assms]
  have g: "?o \<in> set (vas_areas (as_areas ?l))" "VirtRange_contains_range (as_user_range ?l) (va_range ?n)"
    "va_range ?n = \<lparr>vr_start = round_down PAGE_SIZE fault, vr_end = vr_end (va_range ?o)\<rparr>"
    "round_down PAGE_SIZE fault < vr_start (va_range ?o)"
    using assms(2) by (auto simp: growth_ok_def Let_def)
  have free: "AddressSpace_lookup ?l addr = None"
    if "round_down PAGE_SIZE fault \<le> addr" "addr < vr_start (va_range ?o)" for addr
    using assms(2) that by (simp add: growth_ok_def Let_def)
  have inv: "areas_inv (vas_areas (as_areas ?l))"
    using AddressSpace_invD(2) [OF assms(1)] by (simp add: VmAreaSet_inv_def)
  obtain q l1 where un: "AddressSpace_unmap_exact (va_range ?o) ?l = (q, l1)" by fastforce
  obtain removed where q: "q = Ok removed"
    using un AddressSpace_unmap_exact_Err(2) [OF assms(1)] AddressSpace_unmap_exact_no_panic [OF assms(1)] g(1)
    by (cases q) blast+
  note ok = AddressSpace_unmap_exact_Ok [OF assms(1) un [unfolded q]]
  have same: "removed = ?o" using areas_same_range [OF inv ok(6) g(1) ok(5)] .
  have none: "\<forall>addr \<in> VirtRange_set (va_range ?n). AddressSpace_lookup l1 addr = None"
    using free by (auto simp: ok(8) VirtRange_set_def g(3))
  obtain l2 where mp: "AddressSpace_map_area True ?n l1 = (Ok (), l2)"
    using AddressSpace_map_area_total [OF ok(1,4) areas(1) _ none] g(2) ok(2) by auto
  have "VirtRange_ok (va_range ?n)" using areas(1) by (simp add: area_ok_def)
  note res = AddressSpace_map_area_Ok [OF ok(1) this mp]
  have "UserAddressSpace_commit_stack_growth g s = (Ok (), s\<lparr>um_layout := l2\<rparr>)"
    by (simp add: UserAddressSpace_commit_stack_growth_def un q same map_or_restore_def mp)
  moreover have "VirtRange_set (va_range ?o) \<subseteq> VirtRange_set (va_range ?n)"
    using g(3,4) by (auto simp: VirtRange_set_def)
  ultimately show ?thesis
    using res(1,5) ok(8) by (intro that) (auto simp: areas(3))
qed

text \<open>
  C19. Stack growth is bounded and safe. A plan extends a mapped grow-down stack area down to the page of
  the fault; the page is below the stack by at most the growth step, the fault is not further below the
  saved stack pointer than the allowed distance, and nothing is mapped in the new pages or within the
  guard gap below them. Committing the plan in the state it was made for always succeeds, gives exactly
  the new pages the attributes of the stack and keeps the invariant.
\<close>

theorem stack_growth_correct:
  assumes "AddressSpace_inv (um_layout s)" "fault \<le> usize_MAX"
    and "UserAddressSpace_plan_stack_growth s fault sp gap step dist = Ok g"
  shows "growth_ok (um_layout s) fault (round_down PAGE_SIZE fault) sp gap step dist g
    \<and> (\<exists>s'. UserAddressSpace_commit_stack_growth g s = (Ok (), s') \<and> AddressSpace_inv (um_layout s')
        \<and> (\<forall>addr. AddressSpace_lookup (um_layout s') addr =
             (if round_down PAGE_SIZE fault \<le> addr \<and> addr < vr_start (va_range (sg_old_area g))
              then Some (va_flags (sg_old_area g), Stack)
              else AddressSpace_lookup (um_layout s) addr)))"
proof -
  note g = UserAddressSpace_plan_stack_growth_Ok [OF assms]
  obtain s' where s': "UserAddressSpace_commit_stack_growth g s = (Ok (), s')" "AddressSpace_inv (um_layout s')"
    "\<And>addr. AddressSpace_lookup (um_layout s') addr =
       (if addr \<in> VirtRange_set (va_range (sg_new_area g)) then Some (attrs (sg_old_area g))
        else AddressSpace_lookup (um_layout s) addr)"
    by (rule UserAddressSpace_commit_stack_growth_Ok [OF assms(1) g]) blast
  have mem: "sg_old_area g \<in> set (vas_areas (as_areas (um_layout s)))" "va_kind (sg_old_area g) = Stack"
    "va_range (sg_new_area g) = \<lparr>vr_start = round_down PAGE_SIZE fault, vr_end = vr_end (va_range (sg_old_area g))\<rparr>"
    "round_down PAGE_SIZE fault < vr_start (va_range (sg_old_area g))"
    using g by (auto simp: growth_ok_def Let_def)
  have "AddressSpace_lookup (um_layout s') addr =
      (if round_down PAGE_SIZE fault \<le> addr \<and> addr < vr_start (va_range (sg_old_area g))
       then Some (va_flags (sg_old_area g), Stack) else AddressSpace_lookup (um_layout s) addr)" for addr
    using vma_lookup_member [OF _ mem(1), of addr] AddressSpace_invD(2) [OF assms(1)] mem
      area_ok_nonempty [OF growth_ok_new_area(2) [OF assms(1) g]]
    by (auto simp: s'(3) VirtRange_set_def attrs_def VmAreaSet_inv_def)
  with g s'(1,2) show ?thesis by blast
qed

text \<open>A process with a grow-down stack on pages 32 to 35 above an anonymous area.\<close>

abbreviation stack_space :: UserAddressSpace where
  "stack_space \<equiv> \<lparr>um_layout = \<lparr>as_user_range = va_at 1 64,
     as_areas = \<lparr>vas_capacity = 4, vas_areas =
       [\<lparr>va_range = va_at 10 12, va_flags = 43, va_kind = Anonymous\<rparr>,
        \<lparr>va_range = va_at 32 36, va_flags = 171, va_kind = Stack\<rparr>]\<rparr>,
     as_program_break = None\<rparr>, um_asid = \<lparr>at_id = 1, at_generation = 1\<rparr>,
     um_active_cpus = 0, um_tlb_generation = 0\<rparr>"

abbreviation stack_plan :: StackGrowth where
  "stack_plan \<equiv> \<lparr>sg_old_area = \<lparr>va_range = va_at 32 36, va_flags = 171, va_kind = Stack\<rparr>,
     sg_new_area = \<lparr>va_range = va_at 31 36, va_flags = 171, va_kind = Stack\<rparr>, sg_fault_page = 126976\<rparr>"

lemma stack_space_inv: "AddressSpace_inv (um_layout stack_space)"
  by (auto simp: AddressSpace_inv_def vma_eval VirtRange_contains_def VirtRange_set_def)

lemmas stack_eval = UserAddressSpace_plan_stack_growth_def AddressSpace_area_count_def VmAreaSet_len_def
  AddressSpace_area_at_def VmAreaSet_area_at_def checked_sub_def checked_add_def VirtRange_new_def
  VirtRange_contains_range_def VmAreaFlags_contains_def VmAreaFlags_GROW_DOWN_def VirtAddr_align_down_eq
  round_down_def VirtRange_contains_def VmArea_new_def upt_rec

theorem stack_growth_witness:
  "UserAddressSpace_plan_stack_growth stack_space 127000 127100 4096 65536 65536 = Ok stack_plan
   \<and> fst (UserAddressSpace_commit_stack_growth stack_plan stack_space) = Ok ()
   \<and> AddressSpace_lookup (um_layout (snd (UserAddressSpace_commit_stack_growth stack_plan stack_space))) 126976
     = Some (171, Stack)"
proof -
  have p: "is_power_of_two 4096" using PAGE_SIZE_power_of_two by (simp add: PAGE_SIZE_eq)
  have plan: "UserAddressSpace_plan_stack_growth stack_space 127000 127100 4096 65536 65536 = Ok stack_plan"
    using p by (simp add: stack_eval vma_eval)
  from stack_growth_correct [OF stack_space_inv _ plan] show ?thesis
    using plan by (auto simp: usize_MAX_def PAGE_SIZE_eq round_down_def)
qed

theorem UserAddressSpace_protect_exact_witness:
  "fst (UserAddressSpace_protect_exact (va_at 10 12) 41 stack_space) =
     Ok \<lparr>va_range = va_at 10 12, va_flags = 43, va_kind = Anonymous\<rparr>
   \<and> AddressSpace_lookup (um_layout (snd (UserAddressSpace_protect_exact (va_at 10 12) 41 stack_space))) 40960
     = Some (41, Anonymous)"
proof -
  have ok: "fst (UserAddressSpace_protect_exact (va_at 10 12) 41 stack_space) =
     Ok \<lparr>va_range = va_at 10 12, va_flags = 43, va_kind = Anonymous\<rparr>"
    by (simp add: UserAddressSpace_protect_exact_def AddressSpace_unmap_exact_def on_areas_def map_or_restore_def
        VmAreaSet_remove_exact_def VmAreaSet_find_exact_index_def vec_remove_def space_eval vma_eval)
  from UserAddressSpace_protect_exact_correct [OF stack_space_inv, of "va_at 10 12" 41] ok
  show ?thesis by (auto simp: VirtRange_set_def split: prod.splits)
qed

section \<open>Fault plans\<close>

definition plan_ok :: "AddressSpace \<Rightarrow> PageFault \<Rightarrow> VirtAddr \<Rightarrow> usize \<Rightarrow> usize \<Rightarrow> usize \<Rightarrow> UserFaultPlan \<Rightarrow> bool" where
  "plan_ok layout f sp gap step dist p =
     (let mapped = AddressSpace_lookup layout (pf_address f); page = round_down PAGE_SIZE (pf_address f) in
      case p of
        PlanMapAnonymous a pg \<Rightarrow> mapped = Some (attrs a) \<and> \<not> pf_present f
          \<and> access_allowed (va_flags a) (pf_access f) \<and> pg = page \<and> VirtRange_contains (va_range a) pg
      | GrowStack g \<Rightarrow> mapped = None \<and> growth_ok layout (pf_address f) page sp gap step dist g
      | CopyOnWriteUnsupported a \<Rightarrow> mapped = Some (attrs a) \<and> pf_present f \<and> pf_access f = Write
          \<and> VmAreaFlags_is_copy_on_write (va_flags a)
      | PlanProtectionViolation a \<Rightarrow> mapped = Some (attrs a) \<and> \<not> access_allowed (va_flags a) (pf_access f)
      | PlanSpurious a \<Rightarrow> mapped = Some (attrs a) \<and> pf_present f \<and> access_allowed (va_flags a) (pf_access f)
      | PlanSegmentationViolation \<Rightarrow> mapped = None
      | PlanKernelBug \<Rightarrow> pf_source f \<noteq> UserSource \<or> (\<exists>fl k. mapped = Some (fl, k) \<and>
            (k = Kernel \<or> k = Vmalloc \<or> (\<exists>ph. k = DeviceArea ph \<or> k = IoRemap ph))))"

lemma page_in_area:
  assumes "area_ok a" "VirtRange_contains (va_range a) addr"
  shows "VirtRange_contains (va_range a) (round_down PAGE_SIZE addr)"
proof -
  have "PAGE_SIZE dvd vr_start (va_range a)"
    using area_ok_range [OF assms(1)] by (simp add: page_range_def VirtRange_is_page_aligned_iff)
  then have "vr_start (va_range a) \<le> round_down PAGE_SIZE addr"
    using assms(2) by (auto simp: VirtRange_contains_def intro: round_down_greatest)
  moreover have "round_down PAGE_SIZE addr \<le> addr" by (rule round_down_le)
  ultimately show ?thesis using assms(2) by (auto simp: VirtRange_contains_def)
qed

text \<open>
  C22. Planning a user fault is sound for every outcome: a page is mapped on demand only for a
  non-present access that the area at the faulting address permits, and the page lies in that area; a
  stack grows only when nothing is mapped at the address and within its limits; a segmentation violation
  is reported only for unmapped addresses, a protection violation only when the flags deny the access, a
  spurious fault only when a present translation permits it.
\<close>

theorem plan_user_fault_sound:
  assumes "AddressSpace_inv (um_layout s)" "pf_address f \<le> usize_MAX"
    and "UserAddressSpace_plan_user_fault_with_limits s f sp gap step dist = Ok p"
  shows "plan_ok (um_layout s) f sp gap step dist p"
proof (cases "pf_source f = UserSource")
  case True
  obtain out where out: "PageFault_resolve f (um_layout s) = (Ok out :: (FaultOutcome, UserMmError) result)"
    using assms(3) True
    by (auto simp: UserAddressSpace_plan_user_fault_with_limits_def UserAddressSpace_resolve_fault_def)
  have down: "VirtAddr_align_down (pf_address f) PAGE_SIZE = Some (round_down PAGE_SIZE (pf_address f))"
    using assms(2) by (simp add: VirtAddr_align_down_eq)
  note plan = assms(3) [unfolded UserAddressSpace_plan_user_fault_with_limits_def UserAddressSpace_resolve_fault_def out down]
  have area: "a \<in> set (vas_areas (as_areas (um_layout s)))" "VirtRange_contains (va_range a) (pf_address f)"
    "AddressSpace_lookup (um_layout s) (pf_address f) = Some (attrs a)" if "outcome_area out = Some a" for a
    using PageFault_resolve_area [OF assms(1) out that] by auto
  have page: "VirtRange_contains (va_range a) (round_down PAGE_SIZE (pf_address f))" if "outcome_area out = Some a" for a
    using area [OF that] AddressSpace_invD(2) [OF assms(1)] areas_inv_member
    by (auto simp: VmAreaSet_inv_def intro!: page_in_area)
  note kinds = PageFault_resolve_def access_allowed_def
  show ?thesis
  proof (cases out)
    case SegmentationViolation
    from iffD1 [OF PageFault_resolve_unmapped [OF assms(1)] out [unfolded SegmentationViolation]]
    have none: "AddressSpace_lookup (um_layout s) (pf_address f) = None" by simp
    show ?thesis
      using plan True SegmentationViolation none UserAddressSpace_plan_stack_growth_Ok [OF assms(1,2)]
      by (auto simp: plan_ok_def split: result.splits UserMmError.splits)
  next
    case (MapAnonymous a)
    with plan True area [of a] page [of a] PageFault_resolve_grants [OF out, of a] show ?thesis
      by (auto simp: plan_ok_def)
  next
    case (LoadFile a ob off)
    with plan True area [of a] page [of a] PageFault_resolve_grants [OF out, of a] show ?thesis
      by (auto simp: plan_ok_def)
  next
    case KernelBug
    with out area True have "\<exists>fl k. AddressSpace_lookup (um_layout s) (pf_address f) = Some (fl, k) \<and> (k = Kernel \<or> k = Vmalloc)"
      using VmAreaSet_find_Some_iff [of "as_areas (um_layout s)" "pf_address f"] AddressSpace_invD(2) [OF assms(1)]
        vma_lookup_member [of "vas_areas (as_areas (um_layout s))" _ "pf_address f"]
      by (auto simp: kinds AddressSpace_find_area_def VmAreaSet_inv_def attrs_def VirtRange_contains_iff
          split: option.splits if_splits VmAreaKind.splits)
    with plan True KernelBug show ?thesis by (auto simp: plan_ok_def)
  next
    case (MapDevice a ph)
    then have "va_kind a = DeviceArea ph \<or> va_kind a = IoRemap ph"
      using out by (auto simp: kinds split: option.splits if_splits VmAreaKind.splits FaultSource.splits)
    with MapDevice plan True area [of a] show ?thesis by (auto simp: plan_ok_def attrs_def)
  next
    case (CopyOnWrite a)
    then have "pf_present f \<and> pf_access f = Write \<and> VmAreaFlags_is_copy_on_write (va_flags a)"
      using out by (auto simp: PageFault_resolve_def split: option.splits if_splits VmAreaKind.splits FaultSource.splits)
    with CopyOnWrite plan True area [of a] show ?thesis by (auto simp: plan_ok_def)
  next
    case (ProtectionViolation a)
    then have "\<not> access_allowed (va_flags a) (pf_access f)"
      using out by (auto simp: PageFault_resolve_def split: option.splits if_splits VmAreaKind.splits FaultSource.splits)
    with ProtectionViolation plan True area [of a] show ?thesis by (auto simp: plan_ok_def)
  next
    case (Spurious a)
    then have "pf_present f \<and> access_allowed (va_flags a) (pf_access f)"
      using out by (auto simp: PageFault_resolve_def split: option.splits if_splits VmAreaKind.splits FaultSource.splits)
    with Spurious plan True area [of a] show ?thesis by (auto simp: plan_ok_def)
  qed
next
  case False
  then show ?thesis
    using assms(3) by (auto simp: UserAddressSpace_plan_user_fault_with_limits_def plan_ok_def)
qed

theorem plan_user_fault_witness:
  "plan_ok (um_layout stack_space)
     \<lparr>pf_address = 41000, pf_access = Write, pf_source = UserSource, pf_present = False\<rparr> 140000 4096 1048576 65536
     (PlanMapAnonymous \<lparr>va_range = va_at 10 12, va_flags = 43, va_kind = Anonymous\<rparr> 40960)"
proof (rule plan_user_fault_sound [OF stack_space_inv])
  have p: "is_power_of_two 4096" using PAGE_SIZE_power_of_two by (simp add: PAGE_SIZE_eq)
  show "UserAddressSpace_plan_user_fault_with_limits stack_space
      \<lparr>pf_address = 41000, pf_access = Write, pf_source = UserSource, pf_present = False\<rparr> 140000 4096 1048576 65536
    = Ok (PlanMapAnonymous \<lparr>va_range = va_at 10 12, va_flags = 43, va_kind = Anonymous\<rparr> 40960)"
    using p
    by (simp add: UserAddressSpace_plan_user_fault_with_limits_def UserAddressSpace_resolve_fault_def
        PageFault_resolve_def AddressSpace_find_area_def VmAreaSet_find_def find_loop.simps VmAreaSet_len_def
        access_allowed_def stack_eval vma_eval VmArea_contains_def VmAreaFlags_is_copy_on_write_def VmAreaFlags_is_writable_def VmAreaFlags_COPY_ON_WRITE_def VmAreaFlags_WRITE_def)
qed (simp add: usize_MAX_def)

end
