(* ===== verification/Tlb_Handshake.thy ===== *)
theory Tlb_Handshake
  imports User_Space
begin

text \<open>
  The interleaving of the lock-free accesses that CPUs make to one user address space,
  \<open>enter_cpu_after_local_sync\<close>, \<open>leave_cpu_after_local_flush\<close> and \<open>plan_tlb_request\<close> of
  \<open>mm/src/user_space.rs\<close>. Every atomic access is one step of the relation \<open>tlb_step\<close>; all accesses are
  \<open>SeqCst\<close>, so executions are interleavings. Each CPU has the point it has reached in its own call; an
  invalidation is pending between its increment of the generation and its snapshot of the mask.

  The comment on \<open>enter_cpu_after_local_sync\<close> claims that a racing invalidation either targets the
  entering CPU or makes the call fail. Theorem \<open>tlb_handshake_safe\<close> proves it for all interleavings.
\<close>

datatype cpu_phase =
    Outside
  | Inserted u64      \<comment> \<open>in \<open>enter\<close>: the bit is set, the generation not yet checked\<close>
  | Retreating        \<comment> \<open>in \<open>enter\<close>: the check failed, the bit not yet removed\<close>
  | Active u64        \<comment> \<open>\<open>enter\<close> returned \<open>Ok\<close> for this synchronized generation\<close>
  | Departing u64     \<comment> \<open>in \<open>leave\<close>: the check succeeded, the bit not yet removed\<close>

record tlb_state =
  hs_generation :: u64
  hs_mask :: CpuMask
  hs_phase :: "usize \<Rightarrow> cpu_phase"
  hs_pending :: "u64 set"
  hs_requests :: "(u64 \<times> CpuMask) list"

definition tlb_start :: tlb_state where
  "tlb_start = \<lparr>hs_generation = 0, hs_mask = CpuMask_EMPTY, hs_phase = (\<lambda>_. Outside),
     hs_pending = {}, hs_requests = []\<rparr>"

inductive tlb_step :: "tlb_state \<Rightarrow> tlb_state \<Rightarrow> bool" where
  enter_insert: "hs_phase s cpu = Outside \<Longrightarrow> AtomicCpuMask_insert cpu (hs_mask s) = (Ok b, m) \<Longrightarrow>
    tlb_step s (s\<lparr>hs_mask := m, hs_phase := (hs_phase s)(cpu := Inserted synced)\<rparr>)"
| enter_ok: "hs_phase s cpu = Inserted synced \<Longrightarrow> hs_generation s = synced \<Longrightarrow>
    tlb_step s (s\<lparr>hs_phase := (hs_phase s)(cpu := Active synced)\<rparr>)"
| enter_mismatch: "hs_phase s cpu = Inserted synced \<Longrightarrow> hs_generation s \<noteq> synced \<Longrightarrow>
    tlb_step s (s\<lparr>hs_phase := (hs_phase s)(cpu := Retreating)\<rparr>)"
| enter_remove: "hs_phase s cpu = Retreating \<Longrightarrow> AtomicCpuMask_remove cpu (hs_mask s) = (Ok b, m) \<Longrightarrow>
    tlb_step s (s\<lparr>hs_mask := m, hs_phase := (hs_phase s)(cpu := Outside)\<rparr>)"
| leave_ok: "hs_phase s cpu = Active synced \<Longrightarrow> hs_generation s = flushed \<Longrightarrow>
    tlb_step s (s\<lparr>hs_phase := (hs_phase s)(cpu := Departing flushed)\<rparr>)"
| leave_remove: "hs_phase s cpu = Departing flushed \<Longrightarrow> AtomicCpuMask_remove cpu (hs_mask s) = (Ok b, m) \<Longrightarrow>
    tlb_step s (s\<lparr>hs_mask := m, hs_phase := (hs_phase s)(cpu := Outside)\<rparr>)"
| bump: "checked_add (hs_generation s) 1 = Some n \<Longrightarrow>
    tlb_step s (s\<lparr>hs_generation := n, hs_pending := insert n (hs_pending s)\<rparr>)"
| snapshot: "n \<in> hs_pending s \<Longrightarrow>
    tlb_step s (s\<lparr>hs_pending := hs_pending s - {n}, hs_requests := (n, hs_mask s) # hs_requests s\<rparr>)"

inductive_cases tlb_step_cases: "tlb_step s s'"

abbreviation tlb_reachable :: "tlb_state \<Rightarrow> bool" where
  "tlb_reachable \<equiv> tlb_step\<^sup>*\<^sup>* tlb_start"

section \<open>The sequential functions are paths of steps\<close>

text \<open>The generation a CPU is known to be synchronized with while it is published.\<close>

fun phase_generation :: "cpu_phase \<Rightarrow> u64 option" where
  "phase_generation (Active g) = Some g"
| "phase_generation (Departing g) = Some g"
| "phase_generation _ = None"

fun published :: "cpu_phase \<Rightarrow> bool" where
  "published Outside = False"
| "published _ = True"

lemma AtomicCpuMask_insert_Ok:
  "AtomicCpuMask_insert cpu m = (Ok b, m') \<longleftrightarrow> cpu < 64 \<and> b = (cpu \<notin> cpus m) \<and> m' = m OR 2 ^ cpu"
  by (auto simp: AtomicCpuMask_insert_def cpu_bit_def CPU_MASK_BITS_def and_bit_eq_0 push_bit_eq_mult)

lemma AtomicCpuMask_remove_Ok:
  "AtomicCpuMask_remove cpu m = (Ok b, m') \<longleftrightarrow> cpu < 64 \<and> b = (cpu \<in> cpus m) \<and> m' = m AND NOT (2 ^ cpu)"
  by (auto simp: AtomicCpuMask_remove_def cpu_bit_def CPU_MASK_BITS_def and_bit_eq_0 push_bit_eq_mult)

text \<open>The part of the user address space that the handshake is about.\<close>

definition tlb_view :: "UserAddressSpace \<Rightarrow> tlb_state \<Rightarrow> bool" where
  "tlb_view u s \<longleftrightarrow> um_tlb_generation u = hs_generation s \<and> um_active_cpus u = hs_mask s"

lemma enter_refines_steps:
  assumes "tlb_view u s" "hs_phase s cpu = Outside" "AsidToken_is_current (um_asid u) g" "cpu < 64"
  shows "\<exists>r u' s'. UserAddressSpace_enter_cpu_after_local_sync cpu g synced u = (r, u') \<and> tlb_step\<^sup>*\<^sup>* s s'
    \<and> tlb_view u' s' \<and> hs_phase s' = (hs_phase s)(cpu := (if r = Ok () then Active synced else Outside))"
proof -
  obtain b m where ins: "AtomicCpuMask_insert cpu (hs_mask s) = (Ok b, m)"
    using assms(4) AtomicCpuMask_insert_Ok by blast
  let ?s1 = "s\<lparr>hs_mask := m, hs_phase := (hs_phase s)(cpu := Inserted synced)\<rparr>"
  have s1: "tlb_step s ?s1" by (rule tlb_step.enter_insert [OF assms(2) ins])
  have view: "um_tlb_generation u = hs_generation s" "um_active_cpus u = hs_mask s"
    using assms(1) by (simp_all add: tlb_view_def)
  note unfold = UserAddressSpace_enter_cpu_after_local_sync_def sbind_def sseq_def sget_def sreturn_def sfail_def
    on_active_cpus_def view ins assms(3)
  show ?thesis
  proof (cases "hs_generation s = synced")
    case True
    from tlb_step.enter_ok [of ?s1 cpu synced] True
    have s2: "tlb_step ?s1 (?s1\<lparr>hs_phase := (hs_phase ?s1)(cpu := Active synced)\<rparr>)" by simp
    have "UserAddressSpace_enter_cpu_after_local_sync cpu g synced u = (Ok (), u\<lparr>um_active_cpus := m\<rparr>)"
      using True by (simp add: unfold)
    moreover have "tlb_step\<^sup>*\<^sup>* s (?s1\<lparr>hs_phase := (hs_phase ?s1)(cpu := Active synced)\<rparr>)"
      using s1 s2 by auto
    ultimately show ?thesis using view by (fastforce simp: tlb_view_def)
  next
    case False
    from tlb_step.enter_mismatch [of ?s1 cpu synced] False
    have s2: "tlb_step ?s1 (?s1\<lparr>hs_phase := (hs_phase ?s1)(cpu := Retreating)\<rparr>)" by simp
    obtain b' m' where rem: "AtomicCpuMask_remove cpu m = (Ok b', m')"
      using assms(4) AtomicCpuMask_remove_Ok by blast
    let ?s2 = "?s1\<lparr>hs_phase := (hs_phase ?s1)(cpu := Retreating)\<rparr>"
    have s3: "tlb_step ?s2 (?s2\<lparr>hs_mask := m', hs_phase := (hs_phase ?s2)(cpu := Outside)\<rparr>)"
      by (rule tlb_step.enter_remove) (simp_all add: rem)
    have "UserAddressSpace_enter_cpu_after_local_sync cpu g synced u =
        (Err (TlbGenerationMismatch synced (hs_generation s)), u\<lparr>um_active_cpus := m'\<rparr>)"
      using False by (simp add: unfold rem)
    moreover have "tlb_step\<^sup>*\<^sup>* s (?s2\<lparr>hs_mask := m', hs_phase := (hs_phase ?s2)(cpu := Outside)\<rparr>)"
      using s1 s2 s3 by (meson converse_rtranclp_into_rtranclp r_into_rtranclp)
    ultimately show ?thesis using view by (fastforce simp: tlb_view_def)
  qed
qed

lemma leave_refines_steps:
  assumes "tlb_view u s" "hs_phase s cpu = Active synced" "cpu < 64"
  shows "\<exists>r u' s'. UserAddressSpace_leave_cpu_after_local_flush cpu flushed u = (r, u') \<and> tlb_step\<^sup>*\<^sup>* s s'
    \<and> tlb_view u' s' \<and> hs_phase s' = (hs_phase s)(cpu := (if r = Ok () then Outside else Active synced))"
proof -
  have view: "um_tlb_generation u = hs_generation s" "um_active_cpus u = hs_mask s"
    using assms(1) by (simp_all add: tlb_view_def)
  note unfold = UserAddressSpace_leave_cpu_after_local_flush_def sbind_def sseq_def sget_def sreturn_def sfail_def
    on_active_cpus_def view
  show ?thesis
  proof (cases "hs_generation s = flushed")
    case True
    obtain b m where rem: "AtomicCpuMask_remove cpu (hs_mask s) = (Ok b, m)"
      using assms(3) AtomicCpuMask_remove_Ok by blast
    let ?s1 = "s\<lparr>hs_phase := (hs_phase s)(cpu := Departing flushed)\<rparr>"
    have "tlb_step s ?s1" by (rule tlb_step.leave_ok [OF assms(2) True])
    moreover have "tlb_step ?s1 (?s1\<lparr>hs_mask := m, hs_phase := (hs_phase ?s1)(cpu := Outside)\<rparr>)"
      by (rule tlb_step.leave_remove) (simp_all add: rem)
    ultimately have "tlb_step\<^sup>*\<^sup>* s (?s1\<lparr>hs_mask := m, hs_phase := (hs_phase ?s1)(cpu := Outside)\<rparr>)" by auto
    moreover have "UserAddressSpace_leave_cpu_after_local_flush cpu flushed u = (Ok (), u\<lparr>um_active_cpus := m\<rparr>)"
      using True by (simp add: unfold rem)
    ultimately show ?thesis using view by (fastforce simp: tlb_view_def)
  next
    case False
    then have "UserAddressSpace_leave_cpu_after_local_flush cpu flushed u =
        (Err (TlbGenerationMismatch flushed (hs_generation s)), u)"
      by (simp add: unfold)
    with assms(1,2) show ?thesis by (fastforce simp: fun_upd_idem)
  qed
qed

lemma plan_refines_steps:
  assumes "tlb_view u s" "UserAddressSpace_plan_tlb_request flush u = (Ok req, u')"
  shows "\<exists>s'. tlb_step\<^sup>*\<^sup>* s s' \<and> tlb_view u' s' \<and> hs_phase s' = hs_phase s
    \<and> hs_requests s' = (pr_generation req, pr_targets req) # hs_requests s"
proof -
  have view: "um_tlb_generation u = hs_generation s" "um_active_cpus u = hs_mask s"
    using assms(1) by (simp_all add: tlb_view_def)
  then obtain n where n: "checked_add (hs_generation s) 1 = Some n"
    "u' = u\<lparr>um_tlb_generation := n\<rparr>" "pr_generation req = n" "pr_targets req = hs_mask s"
    using assms(2)
    by (auto simp: UserAddressSpace_plan_tlb_request_def UserAddressSpace_next_tlb_generation_def sbind_def
        sget_def sreturn_def sfail_def split: if_splits option.splits)
  let ?s1 = "s\<lparr>hs_generation := n, hs_pending := insert n (hs_pending s)\<rparr>"
  have "tlb_step s ?s1" by (rule tlb_step.bump [OF n(1)])
  moreover have "tlb_step ?s1 (?s1\<lparr>hs_pending := hs_pending ?s1 - {n}, hs_requests := (n, hs_mask ?s1) # hs_requests ?s1\<rparr>)"
    by (rule tlb_step.snapshot) simp
  ultimately have "tlb_step\<^sup>*\<^sup>* s (?s1\<lparr>hs_pending := hs_pending ?s1 - {n}, hs_requests := (n, hs_mask ?s1) # hs_requests ?s1\<rparr>)"
    by auto
  with n view show ?thesis by (fastforce simp: tlb_view_def)
qed

section \<open>Invariant\<close>

definition tlb_inv :: "tlb_state \<Rightarrow> bool" where
  "tlb_inv s \<longleftrightarrow>
     (\<forall>cpu. published (hs_phase s cpu) \<longrightarrow> cpu \<in> cpus (hs_mask s))
     \<and> (\<forall>cpu g. phase_generation (hs_phase s cpu) = Some g \<longrightarrow> g \<le> hs_generation s)
     \<and> (\<forall>n \<in> hs_pending s. n \<le> hs_generation s)
     \<and> (\<forall>(n, targets) \<in> set (hs_requests s). n \<le> hs_generation s)
     \<and> (\<forall>(n, targets) \<in> set (hs_requests s). \<forall>cpu g.
          phase_generation (hs_phase s cpu) = Some g \<longrightarrow> g < n \<longrightarrow> cpu \<in> cpus targets)"

lemma tlb_inv_start: "tlb_inv tlb_start"
  by (simp add: tlb_inv_def tlb_start_def)

lemma phase_generation_published: "phase_generation p = Some g \<Longrightarrow> published p"
  by (cases p) auto

lemma tlb_inv_step:
  assumes "tlb_step s s'" "tlb_inv s"
  shows "tlb_inv s'"
  using assms
proof cases
  case (enter_insert cpu b m synced)
  with assms(2) show ?thesis by (auto simp: tlb_inv_def AtomicCpuMask_insert_Ok split: if_splits)
next
  case (enter_ok cpu synced)
  with assms(2) show ?thesis
    by (auto simp: tlb_inv_def split: if_splits)
next
  case (enter_mismatch cpu synced)
  with assms(2) show ?thesis by (auto simp: tlb_inv_def split: if_splits)
next
  case (enter_remove cpu b m)
  with assms(2) show ?thesis by (auto simp: tlb_inv_def AtomicCpuMask_remove_Ok split: if_splits)
next
  case (leave_ok cpu synced flushed)
  with assms(2) show ?thesis
    by (auto simp: tlb_inv_def split: if_splits)
next
  case (leave_remove cpu flushed b m)
  with assms(2) show ?thesis by (auto simp: tlb_inv_def AtomicCpuMask_remove_Ok split: if_splits)
next
  case (bump n)
  then have "n = hs_generation s + 1" by (auto simp: checked_add_def split: if_splits)
  with bump assms(2) show ?thesis by (fastforce simp: tlb_inv_def)
next
  case (snapshot n)
  with assms(2) show ?thesis
    unfolding tlb_inv_def by (auto dest: phase_generation_published)
qed

lemma tlb_inv_reachable: "tlb_reachable s \<Longrightarrow> tlb_inv s"
  by (induction rule: rtranclp_induct) (auto intro: tlb_inv_start tlb_inv_step)

text \<open>
  C7. In every interleaving of CPUs entering and leaving an address space with TLB invalidations: if a
  CPU is published as active with the generation it synchronized with, then every invalidation that took
  a later generation and has read the mask targets that CPU. An invalidation is never lost on a CPU that
  may hold stale translations.
\<close>

theorem tlb_handshake_safe:
  assumes "tlb_reachable s" "hs_phase s cpu = Active synced"
    and "(n, targets) \<in> set (hs_requests s)" "synced < n"
  shows "CpuMask_contains targets cpu = Ok True \<and> CpuMask_contains (hs_mask s) cpu = Ok True"
proof -
  have inv: "tlb_inv s" by (rule tlb_inv_reachable [OF assms(1)])
  then have "cpu \<in> cpus targets" "cpu \<in> cpus (hs_mask s)"
    using assms(2-4) by (fastforce simp: tlb_inv_def)+
  then show ?thesis using CpuMask_contains_Ok cpus_bound by auto
qed

text \<open>CPU 3 enters at generation 0, an invalidation takes generation 1 and reads the mask.\<close>

abbreviation tlb_example :: tlb_state where
  "tlb_example \<equiv> \<lparr>hs_generation = 1, hs_mask = 8, hs_phase = (\<lambda>_. Outside)(3 := Active 0),
     hs_pending = {}, hs_requests = [(1, 8)]\<rparr>"

lemma tlb_example_reachable: "tlb_reachable tlb_example"
proof -
  let ?s1 = "\<lparr>hs_generation = 0, hs_mask = 8, hs_phase = (\<lambda>_. Outside)(3 := Inserted 0), hs_pending = {}, hs_requests = []\<rparr>"
  let ?s2 = "?s1\<lparr>hs_phase := (\<lambda>_. Outside)(3 := Active 0)\<rparr>"
  let ?s3 = "?s2\<lparr>hs_generation := 1, hs_pending := {1}\<rparr>"
  have "tlb_step tlb_start ?s1"
    using tlb_step.enter_insert [of tlb_start 3 True 8 0]
    by (simp add: tlb_start_def AtomicCpuMask_insert_Ok CpuMask_EMPTY_def)
  moreover have "tlb_step ?s1 ?s2" using tlb_step.enter_ok [of ?s1 3 0] by simp
  moreover have "tlb_step ?s2 ?s3" using tlb_step.bump [of ?s2 1] by (simp add: checked_add_def usize_MAX_def)
  moreover have "tlb_step ?s3 tlb_example" using tlb_step.snapshot [of 1 ?s3] by simp
  ultimately show ?thesis by (meson converse_rtranclp_into_rtranclp r_into_rtranclp)
qed

theorem tlb_handshake_safe_witness:
  "CpuMask_contains 8 3 = Ok True \<and> CpuMask_contains (hs_mask tlb_example) 3 = Ok True"
  by (rule tlb_handshake_safe [OF tlb_example_reachable, of 3 0 1 8]) simp_all

end
