(* ===== verification/Buddy.thy ===== *)
theory Buddy
  imports Address
begin

text \<open>
  The buddy allocator of physical pages, \<open>mm/src/buddy\<close>: page metadata (\<open>page.rs\<close>), zones and free areas
  (\<open>zone.rs\<close>) and the allocator (\<open>allocator.rs\<close>).

  The metadata array behind the raw pointer is the list \<open>ba_metadata\<close>; the links of the intrusive free
  lists are page frame numbers in it. The two zones are a list of length two, the free areas of a zone a
  list of length \<open>MAX_ORDER\<close>. Orders and reference counts are natural numbers; \<open>INVALID_ORDER\<close> and
  \<open>INVALID_PFN\<close> are the sentinels of the code. Methods are state actions: a \<open>?\<close> in the middle of a method
  keeps the changes made before it. Shifts \<open>1 << order\<close> are powers; every order is below \<open>MAX_ORDER\<close>
  where one is shifted. The increment and the decrement of a reference count are single atomic updates.
\<close>

section \<open>Page metadata\<close>

definition INVALID_PFN :: usize where "INVALID_PFN = usize_MAX"
definition INVALID_ORDER :: nat where "INVALID_ORDER = 255"
definition INVALID_ZONE :: nat where "INVALID_ZONE = 255"

datatype PageState = Absent | Reserved | Allocated | Freeing | FreeHead | FreeTail

record Page =
  pg_state :: PageState
  pg_order :: nat
  pg_zone :: nat
  pg_reference_count :: u32
  pg_next :: usize
  pg_previous :: usize

definition Page_absent :: Page where
  "Page_absent = \<lparr>pg_state = Absent, pg_order = INVALID_ORDER, pg_zone = INVALID_ZONE,
     pg_reference_count = 0, pg_next = INVALID_PFN, pg_previous = INVALID_PFN\<rparr>"

section \<open>Zones\<close>

definition MAX_ORDER :: nat where "MAX_ORDER = 17"
definition MAX_ORDER_NR_PAGES :: usize where "MAX_ORDER_NR_PAGES = 2 ^ (MAX_ORDER - 1)"
definition DMA32_LIMIT :: usize where "DMA32_LIMIT = 4294967296"
definition DMA32_LIMIT_PFN :: usize where "DMA32_LIMIT_PFN = DMA32_LIMIT div PAGE_SIZE"

datatype ZoneKind = Dma32 | NormalZone

fun ZoneKind_index :: "ZoneKind \<Rightarrow> usize" where
  "ZoneKind_index Dma32 = 0"
| "ZoneKind_index NormalZone = 1"

record FreeArea =
  fa_head :: usize
  fa_block_count :: usize

definition FreeArea_EMPTY :: FreeArea where
  "FreeArea_EMPTY = \<lparr>fa_head = INVALID_PFN, fa_block_count = 0\<rparr>"

record Zone =
  zn_start_pfn :: usize
  zn_end_pfn :: usize
  zn_present_pages :: usize
  zn_free_pages :: usize
  zn_free_area :: "FreeArea list"

definition Zone_new :: "usize \<Rightarrow> usize \<Rightarrow> Zone" where
  "Zone_new start_pfn end_pfn =
     \<lparr>zn_start_pfn = start_pfn, zn_end_pfn = end_pfn, zn_present_pages = 0, zn_free_pages = 0,
      zn_free_area = replicate MAX_ORDER FreeArea_EMPTY\<rparr>"

definition Zone_contains_pfn :: "Zone \<Rightarrow> usize \<Rightarrow> bool" where
  "Zone_contains_pfn self pfn \<longleftrightarrow> zn_start_pfn self \<le> pfn \<and> pfn < zn_end_pfn self"

definition Zone_contains_block :: "Zone \<Rightarrow> usize \<Rightarrow> nat \<Rightarrow> bool" where
  "Zone_contains_block self pfn order \<longleftrightarrow>
     zn_start_pfn self \<le> pfn
     \<and> (case checked_add pfn (2 ^ order) of Some end \<Rightarrow> end \<le> zn_end_pfn self | None \<Rightarrow> False)"

section \<open>The allocator\<close>

datatype AllocationClass = Dma32Only | AnyZone

datatype BuddyError =
    InvalidManagedRange
  | MetadataPointerIsNull
  | MetadataMisaligned usize
  | MetadataTooSmall usize usize
  | RangeIsNotPageAligned
  | RangeOutsideManagedMemory
  | BuddyAddressOverflow
  | InvalidOrder usize
  | PageStateConflict usize PageState
  | CorruptFreeList
  | InvalidAllocation
  | ReferenceCountOverflow PhysFrame
  | ReferenceCountUnderflow PhysFrame
  | PageStillReferenced PhysFrame u32
  | OutOfMemory

record PageAllocation =
  pa_start :: PhysFrame
  pa_order :: nat
  pa_zone :: ZoneKind

definition PageAllocation_page_count :: "PageAllocation \<Rightarrow> usize" where
  "PageAllocation_page_count self = 2 ^ pa_order self"

definition PageAllocation_size :: "PageAllocation \<Rightarrow> usize" where
  "PageAllocation_size self = PageAllocation_page_count self * PAGE_SIZE"

definition PageAllocation_range :: "PageAllocation \<Rightarrow> (PhysRange, 'e) result" where
  "PageAllocation_range self =
     expect (PhysRange_from_start_size (pf_start (pa_start self)) (PageAllocation_size self))"

record BuddyAllocator =
  ba_metadata :: "Page list"
  ba_managed :: PhysRange
  ba_base_pfn :: usize
  ba_page_count :: usize
  ba_zones :: "Zone list"

text \<open>\<open>Page\<close> is \<open>repr(C)\<close>: four bytes, a 32-bit count and two words.\<close>

definition size_of_Page :: usize where "size_of_Page = 24"
definition align_of_Page :: usize where "align_of_Page = 8"

definition BuddyAllocator_required_metadata_bytes :: "PhysRange \<Rightarrow> (usize, BuddyError) result" where
  "BuddyAllocator_required_metadata_bytes managed =
     (if PhysRange_is_empty managed \<or> \<not> PhysRange_is_page_aligned managed then Err InvalidManagedRange
      else ok_or (checked_mul (PhysRange_size managed div PAGE_SIZE) size_of_Page) BuddyAddressOverflow)"

definition BuddyAllocator_new :: "usize \<Rightarrow> usize \<Rightarrow> PhysRange \<Rightarrow> (BuddyAllocator, BuddyError) result" where
  "BuddyAllocator_new metadata_pointer metadata_bytes managed =
     rbind (BuddyAllocator_required_metadata_bytes managed) (\<lambda>required.
     if metadata_pointer = 0 then Err MetadataPointerIsNull
     else if metadata_pointer mod align_of_Page \<noteq> 0 then Err (MetadataMisaligned align_of_Page)
     else if metadata_bytes < required then Err (MetadataTooSmall required metadata_bytes)
     else
       (let base_pfn = pr_start managed div PAGE_SIZE;
            page_count = PhysRange_size managed div PAGE_SIZE in
        rbind (ok_or (checked_add base_pfn page_count) BuddyAddressOverflow) (\<lambda>end_pfn.
        let dma32_end = min end_pfn DMA32_LIMIT_PFN;
            dma32 = (if base_pfn < DMA32_LIMIT_PFN then Zone_new base_pfn dma32_end
                     else Zone_new base_pfn base_pfn);
            normal_start = min (max base_pfn DMA32_LIMIT_PFN) end_pfn;
            normal = Zone_new normal_start end_pfn in
        Ok \<lparr>ba_metadata = replicate page_count Page_absent, ba_managed = managed, ba_base_pfn = base_pfn,
            ba_page_count = page_count, ba_zones = [dma32, normal]\<rparr>)))"

definition page_pointer :: "BuddyAllocator \<Rightarrow> usize \<Rightarrow> (usize, BuddyError) result" where
  "page_pointer self pfn =
     rbind (ok_or (checked_sub pfn (ba_base_pfn self)) RangeOutsideManagedMemory) (\<lambda>index.
       if ba_page_count self \<le> index then Err RangeOutsideManagedMemory else Ok index)"

definition buddy_page :: "BuddyAllocator \<Rightarrow> usize \<Rightarrow> (Page, BuddyError) result" where
  "buddy_page self pfn = rbind (page_pointer self pfn) (\<lambda>index. Ok (ba_metadata self ! index))"

text \<open>An update through the reference that \<open>page_mut\<close> returns.\<close>

definition page_mut :: "usize \<Rightarrow> (Page \<Rightarrow> Page) \<Rightarrow> (BuddyAllocator, unit, BuddyError) action" where
  "page_mut pfn f =
     sbind (sread (\<lambda>self. page_pointer self pfn)) (\<lambda>index.
       smodify (\<lambda>self. self\<lparr>ba_metadata := (ba_metadata self)[index := f (ba_metadata self ! index)]\<rparr>))"

definition zone_mut :: "ZoneKind \<Rightarrow> (Zone \<Rightarrow> Zone) \<Rightarrow> BuddyAllocator \<Rightarrow> BuddyAllocator" where
  "zone_mut kind f self =
     self\<lparr>ba_zones := (ba_zones self)[ZoneKind_index kind := f (ba_zones self ! ZoneKind_index kind)]\<rparr>"

definition area_mut :: "ZoneKind \<Rightarrow> nat \<Rightarrow> (FreeArea \<Rightarrow> FreeArea) \<Rightarrow> BuddyAllocator \<Rightarrow> BuddyAllocator" where
  "area_mut kind order f =
     zone_mut kind (\<lambda>z. z\<lparr>zn_free_area := (zn_free_area z)[order := f (zn_free_area z ! order)]\<rparr>)"

definition zone_of :: "BuddyAllocator \<Rightarrow> ZoneKind \<Rightarrow> Zone" where
  "zone_of self kind = ba_zones self ! ZoneKind_index kind"

definition area_of :: "BuddyAllocator \<Rightarrow> ZoneKind \<Rightarrow> nat \<Rightarrow> FreeArea" where
  "area_of self kind order = zn_free_area (zone_of self kind) ! order"

definition validate_range :: "BuddyAllocator \<Rightarrow> PhysRange \<Rightarrow> (usize \<times> usize, BuddyError) result" where
  "validate_range self rng =
     (if PhysRange_is_empty rng \<or> \<not> PhysRange_is_page_aligned rng then Err RangeIsNotPageAligned
      else if \<not> PhysRange_contains_range (ba_managed self) rng then Err RangeOutsideManagedMemory
      else Ok (pr_start rng div PAGE_SIZE, pr_end rng div PAGE_SIZE))"

definition zone_kind_for_pfn :: "BuddyAllocator \<Rightarrow> usize \<Rightarrow> (ZoneKind, BuddyError) result" where
  "zone_kind_for_pfn self pfn =
     (let kind = (if pfn < DMA32_LIMIT_PFN then Dma32 else NormalZone) in
      if \<not> Zone_contains_pfn (zone_of self kind) pfn then Err RangeOutsideManagedMemory else Ok kind)"

text \<open>The first pass of \<open>mark_present_range\<close> and \<open>release_range\<close>: all pages have the expected state.\<close>

fun check_states :: "BuddyAllocator \<Rightarrow> PageState \<Rightarrow> usize list \<Rightarrow> (unit, BuddyError) result" where
  "check_states self expected [] = Ok ()"
| "check_states self expected (pfn # pfns) =
     rbind (buddy_page self pfn) (\<lambda>page.
       if pg_state page \<noteq> expected then Err (PageStateConflict pfn (pg_state page))
       else check_states self expected pfns)"

definition mark_present_page :: "usize \<Rightarrow> (BuddyAllocator, unit, BuddyError) action" where
  "mark_present_page pfn =
     sbind (sread (\<lambda>self. zone_kind_for_pfn self pfn)) (\<lambda>kind.
     sseq (page_mut pfn (\<lambda>page. page\<lparr>pg_state := Reserved, pg_order := INVALID_ORDER,
             pg_zone := ZoneKind_index kind, pg_next := INVALID_PFN, pg_previous := INVALID_PFN,
             pg_reference_count := 0\<rparr>))
     (sbind (sread (\<lambda>self. add_usize (zn_present_pages (zone_of self kind)) 1)) (\<lambda>present.
      smodify (zone_mut kind (\<lambda>z. z\<lparr>zn_present_pages := present\<rparr>)))))"

definition BuddyAllocator_mark_present_range :: "PhysRange \<Rightarrow> (BuddyAllocator, unit, BuddyError) action" where
  "BuddyAllocator_mark_present_range rng =
     sbind (sread (\<lambda>self. validate_range self rng)) (\<lambda>(start, end).
     sseq (sread (\<lambda>self. check_states self Absent [start..<end]))
       (sforeach mark_present_page [start..<end]))"

text \<open>The loop shared by the \<open>mark_*_block\<close> methods: update page after page of a block.\<close>

definition mark_block ::
  "usize \<Rightarrow> nat \<Rightarrow> (usize \<Rightarrow> Page \<Rightarrow> Page) \<Rightarrow> (BuddyAllocator, unit, BuddyError) action" where
  "mark_block pfn order f =
     sforeach (\<lambda>offset. sbind (slift (add_usize pfn offset)) (\<lambda>p. page_mut p (f offset))) [0..<2 ^ order]"

definition mark_free_block :: "usize \<Rightarrow> nat \<Rightarrow> ZoneKind \<Rightarrow> (BuddyAllocator, unit, BuddyError) action" where
  "mark_free_block pfn order kind =
     mark_block pfn order (\<lambda>offset page. page
       \<lparr>pg_state := (if offset = 0 then FreeHead else FreeTail),
        pg_order := (if offset = 0 then order else INVALID_ORDER), pg_zone := ZoneKind_index kind,
        pg_next := INVALID_PFN, pg_previous := INVALID_PFN, pg_reference_count := 0\<rparr>)"

definition mark_allocated_block :: "usize \<Rightarrow> nat \<Rightarrow> ZoneKind \<Rightarrow> (BuddyAllocator, unit, BuddyError) action" where
  "mark_allocated_block pfn order kind =
     mark_block pfn order (\<lambda>offset page. page
       \<lparr>pg_state := Allocated,
        pg_order := (if offset = 0 then order else INVALID_ORDER), pg_zone := ZoneKind_index kind,
        pg_next := INVALID_PFN, pg_previous := INVALID_PFN, pg_reference_count := 1\<rparr>)"

definition mark_allocated_block_preserving_refs ::
  "usize \<Rightarrow> nat \<Rightarrow> ZoneKind \<Rightarrow> (BuddyAllocator, unit, BuddyError) action" where
  "mark_allocated_block_preserving_refs pfn order kind =
     mark_block pfn order (\<lambda>offset page. page
       \<lparr>pg_state := Allocated,
        pg_order := (if offset = 0 then order else INVALID_ORDER), pg_zone := ZoneKind_index kind,
        pg_next := INVALID_PFN, pg_previous := INVALID_PFN\<rparr>)"

definition mark_freeing_block :: "usize \<Rightarrow> nat \<Rightarrow> ZoneKind \<Rightarrow> (BuddyAllocator, unit, BuddyError) action" where
  "mark_freeing_block pfn order kind =
     mark_block pfn order (\<lambda>offset page. page
       \<lparr>pg_state := Freeing,
        pg_order := (if offset = 0 then order else INVALID_ORDER), pg_zone := ZoneKind_index kind,
        pg_next := INVALID_PFN, pg_previous := INVALID_PFN\<rparr>)"

definition insert_free_block :: "usize \<Rightarrow> nat \<Rightarrow> ZoneKind \<Rightarrow> (BuddyAllocator, unit, BuddyError) action" where
  "insert_free_block pfn order kind =
     sbind (sget (\<lambda>self. fa_head (area_of self kind order))) (\<lambda>previous_head.
     sseq (page_mut pfn (\<lambda>page. page\<lparr>pg_previous := INVALID_PFN, pg_next := previous_head\<rparr>))
     (sseq (swhen (previous_head \<noteq> INVALID_PFN) (page_mut previous_head (\<lambda>page. page\<lparr>pg_previous := pfn\<rparr>)))
     (sseq (smodify (area_mut kind order (\<lambda>a. a\<lparr>fa_head := pfn\<rparr>)))
     (sbind (sread (\<lambda>self. ok_or (checked_add (fa_block_count (area_of self kind order)) 1) CorruptFreeList)) (\<lambda>blocks.
      smodify (area_mut kind order (\<lambda>a. a\<lparr>fa_block_count := blocks\<rparr>)))))))"

definition remove_free_block :: "usize \<Rightarrow> nat \<Rightarrow> ZoneKind \<Rightarrow> (BuddyAllocator, unit, BuddyError) action" where
  "remove_free_block pfn order kind =
     sbind (sread (\<lambda>self. buddy_page self pfn)) (\<lambda>page.
     if pg_state page \<noteq> FreeHead \<or> pg_order page \<noteq> order then sfail CorruptFreeList
     else
       (let previous = pg_previous page; next = pg_next page in
        sseq (if previous = INVALID_PFN then
                sbind (sget (\<lambda>self. fa_head (area_of self kind order))) (\<lambda>head.
                if head \<noteq> pfn then sfail CorruptFreeList
                else smodify (area_mut kind order (\<lambda>a. a\<lparr>fa_head := next\<rparr>)))
              else page_mut previous (\<lambda>page. page\<lparr>pg_next := next\<rparr>))
        (sseq (swhen (next \<noteq> INVALID_PFN) (page_mut next (\<lambda>page. page\<lparr>pg_previous := previous\<rparr>)))
        (sseq (page_mut pfn (\<lambda>page. page\<lparr>pg_previous := INVALID_PFN, pg_next := INVALID_PFN\<rparr>))
        (sbind (sread (\<lambda>self. ok_or (checked_sub (fa_block_count (area_of self kind order)) 1) CorruptFreeList)) (\<lambda>blocks.
         smodify (area_mut kind order (\<lambda>a. a\<lparr>fa_block_count := blocks\<rparr>))))))))"

text \<open>The merging loop of \<open>coalesce_and_insert\<close>: the block it ends with.\<close>

function coalesce_loop :: "usize \<Rightarrow> nat \<Rightarrow> ZoneKind \<Rightarrow> (BuddyAllocator, usize \<times> nat, BuddyError) action" where
  "coalesce_loop pfn order kind self =
     (if order + 1 < MAX_ORDER then
        (let buddy = pfn XOR 2 ^ order in
         if \<not> Zone_contains_block (zone_of self kind) buddy order then (Ok (pfn, order), self)
         else
           (case buddy_page self buddy of
              Err e \<Rightarrow> (Err e, self)
            | Panic \<Rightarrow> (Panic, self)
            | Ok page \<Rightarrow>
                if pg_state page \<noteq> FreeHead \<or> pg_order page \<noteq> order then (Ok (pfn, order), self)
                else
                  (case remove_free_block buddy order kind self of
                     (Ok _, self') \<Rightarrow> coalesce_loop (min pfn buddy) (order + 1) kind self'
                   | (Err e, self') \<Rightarrow> (Err e, self')
                   | (Panic, self') \<Rightarrow> (Panic, self'))))
      else (Ok (pfn, order), self))"
  by pat_completeness auto
termination
  by (relation "measure (\<lambda>(pfn, order, kind, self). MAX_ORDER - order)") auto

declare coalesce_loop.simps [simp del]

definition coalesce_and_insert :: "usize \<Rightarrow> nat \<Rightarrow> ZoneKind \<Rightarrow> (BuddyAllocator, unit, BuddyError) action" where
  "coalesce_and_insert pfn order kind =
     sbind (coalesce_loop pfn order kind) (\<lambda>(pfn, order).
     sseq (mark_free_block pfn order kind) (insert_free_block pfn order kind))"

definition free_reserved_block :: "usize \<Rightarrow> nat \<Rightarrow> ZoneKind \<Rightarrow> (BuddyAllocator, unit, BuddyError) action" where
  "free_reserved_block pfn order kind = coalesce_and_insert pfn order kind"

function largest_block_order_loop :: "usize \<Rightarrow> usize \<Rightarrow> nat \<Rightarrow> nat" where
  "largest_block_order_loop pfn remaining_pages order =
     (if order + 1 < MAX_ORDER then
        (let next_order = order + 1; block_pages = 2 ^ next_order; alignment_mask = block_pages - 1 in
         if remaining_pages < block_pages then order
         else if pfn AND alignment_mask \<noteq> 0 then order
         else largest_block_order_loop pfn remaining_pages next_order)
      else order)"
  by pat_completeness auto
termination
  by (relation "measure (\<lambda>(pfn, remaining_pages, order). MAX_ORDER - order)") auto

declare largest_block_order_loop.simps [simp del]

definition largest_block_order :: "usize \<Rightarrow> usize \<Rightarrow> nat" where
  "largest_block_order pfn remaining_pages =
     (if remaining_pages = 0 then 0 else largest_block_order_loop pfn remaining_pages 0)"

definition frame_from_pfn :: "usize \<Rightarrow> (PhysFrame, BuddyError) result" where
  "frame_from_pfn pfn =
     rbind (ok_or (checked_mul pfn PAGE_SIZE) BuddyAddressOverflow) (\<lambda>address.
       ok_or (PhysFrame_from_start_address address) BuddyAddressOverflow)"

text \<open>The addition of freed pages to the counter of a zone.\<close>

definition add_free_pages :: "ZoneKind \<Rightarrow> usize \<Rightarrow> (BuddyAllocator, unit, BuddyError) action" where
  "add_free_pages kind pages =
     sbind (sread (\<lambda>self. ok_or (checked_add (zn_free_pages (zone_of self kind)) pages) BuddyAddressOverflow)) (\<lambda>free.
       smodify (zone_mut kind (\<lambda>z. z\<lparr>zn_free_pages := free\<rparr>)))"

text \<open>One iteration of \<open>release_range\<close> returns the next page frame number.\<close>

definition release_block :: "usize \<Rightarrow> usize \<Rightarrow> (BuddyAllocator, usize, BuddyError) action" where
  "release_block pfn end =
     sbind (sread (\<lambda>self. zone_kind_for_pfn self pfn)) (\<lambda>kind.
     sbind (sget (\<lambda>self. min end (zn_end_pfn (zone_of self kind)))) (\<lambda>zone_end.
     sbind (slift (sub_usize zone_end pfn)) (\<lambda>remaining.
     let order = largest_block_order pfn remaining; pages = 2 ^ order in
     sseq (free_reserved_block pfn order kind)
     (sseq (add_free_pages kind pages)
       (slift (add_usize pfn pages))))))"

lemma release_block_advances: "release_block pfn end self = (Ok pfn', self') \<Longrightarrow> pfn < pfn'"
  by (auto simp: release_block_def sbind_eq_Ok sseq_eq_Ok slift_def add_usize_def checked_add_def Let_def
      split: if_splits)

function release_loop :: "usize \<Rightarrow> usize \<Rightarrow> (BuddyAllocator, unit, BuddyError) action" where
  "release_loop pfn end self =
     (if pfn < end then
        (case release_block pfn end self of
           (Ok pfn', self') \<Rightarrow> release_loop pfn' end self'
         | (Err e, self') \<Rightarrow> (Err e, self')
         | (Panic, self') \<Rightarrow> (Panic, self'))
      else (Ok (), self))"
  by pat_completeness auto
termination
  by (relation "measure (\<lambda>(pfn, end, self). end - pfn)") (auto dest!: sym [of "(Ok _, _)"] release_block_advances)

declare release_loop.simps [simp del]

definition BuddyAllocator_release_range :: "PhysRange \<Rightarrow> (BuddyAllocator, unit, BuddyError) action" where
  "BuddyAllocator_release_range rng =
     sbind (sread (\<lambda>self. validate_range self rng)) (\<lambda>(start, end).
     sseq (sread (\<lambda>self. check_states self Reserved [start..<end]))
       (release_loop start end))"

text \<open>The splitting loop of \<open>allocate_from_zone\<close>: right halves go back to the free areas.\<close>

fun split_loop :: "nat \<Rightarrow> usize \<Rightarrow> nat \<Rightarrow> ZoneKind \<Rightarrow> (BuddyAllocator, unit, BuddyError) action" where
  "split_loop requested_order pfn 0 kind = sreturn ()"
| "split_loop requested_order pfn (Suc order) kind =
     (if requested_order < Suc order then
        sbind (slift (add_usize pfn (2 ^ order))) (\<lambda>right_pfn.
        sseq (mark_free_block right_pfn order kind)
        (sseq (insert_free_block right_pfn order kind)
          (split_loop requested_order pfn order kind)))
      else sreturn ())"

definition allocate_from_zone ::
  "nat \<Rightarrow> ZoneKind \<Rightarrow> (BuddyAllocator, PageAllocation option, BuddyError) action" where
  "allocate_from_zone requested_order kind =
     sbind (sget (\<lambda>self. List.find (\<lambda>order. fa_head (area_of self kind order) \<noteq> INVALID_PFN)
                           [requested_order..<MAX_ORDER])) (\<lambda>found_order.
     case found_order of
       None \<Rightarrow> sreturn None
     | Some order \<Rightarrow>
         sbind (sget (\<lambda>self. fa_head (area_of self kind order))) (\<lambda>pfn.
         sseq (remove_free_block pfn order kind)
         (sseq (split_loop requested_order pfn order kind)
         (sseq (mark_allocated_block pfn requested_order kind)
         (sbind (sread (\<lambda>self. ok_or (checked_sub (zn_free_pages (zone_of self kind)) (2 ^ requested_order))
                                  CorruptFreeList)) (\<lambda>free.
         sseq (smodify (zone_mut kind (\<lambda>z. z\<lparr>zn_free_pages := free\<rparr>)))
         (sbind (slift (frame_from_pfn pfn)) (\<lambda>start.
         sreturn (Some \<lparr>pa_start = start, pa_order = requested_order, pa_zone = kind\<rparr>)))))))))"

definition BuddyAllocator_allocate ::
  "nat \<Rightarrow> AllocationClass \<Rightarrow> (BuddyAllocator, PageAllocation, BuddyError) action" where
  "BuddyAllocator_allocate order allocation_class =
     (if MAX_ORDER \<le> order then sfail (InvalidOrder order)
      else
        (case allocation_class of
           Dma32Only \<Rightarrow>
             sbind (allocate_from_zone order Dma32) (\<lambda>allocation. slift (ok_or allocation OutOfMemory))
         | AnyZone \<Rightarrow>
             sbind (allocate_from_zone order NormalZone) (\<lambda>allocation.
             case allocation of
               Some allocation \<Rightarrow> sreturn allocation
             | None \<Rightarrow>
                 sbind (allocate_from_zone order Dma32) (\<lambda>allocation. slift (ok_or allocation OutOfMemory)))))"

fun validate_pages ::
  "BuddyAllocator \<Rightarrow> usize \<Rightarrow> nat \<Rightarrow> u32 option \<Rightarrow> PageState \<Rightarrow> usize list \<Rightarrow> (unit, BuddyError) result" where
  "validate_pages self start_pfn order expected_count expected_state [] = Ok ()"
| "validate_pages self start_pfn order expected_count expected_state (offset # offsets) =
     rbind (add_usize start_pfn offset) (\<lambda>p.
     rbind (buddy_page self p) (\<lambda>page.
     if pg_state page \<noteq> expected_state then Err InvalidAllocation
     else if (case expected_count of Some expected \<Rightarrow> pg_reference_count page \<noteq> expected | None \<Rightarrow> False)
       then Err InvalidAllocation
     else if offset = 0 \<and> pg_order page \<noteq> order then Err InvalidAllocation
     else validate_pages self start_pfn order expected_count expected_state offsets))"

definition validate_allocated_block ::
  "BuddyAllocator \<Rightarrow> PageAllocation \<Rightarrow> u32 option \<Rightarrow> PageState \<Rightarrow> (usize \<times> nat \<times> ZoneKind, BuddyError) result" where
  "validate_allocated_block self allocation expected_reference_count expected_state =
     (let order = pa_order allocation in
      if MAX_ORDER \<le> order then Err InvalidAllocation
      else
        (let start_pfn = pf_start (pa_start allocation) div PAGE_SIZE in
         rbind (zone_kind_for_pfn self start_pfn) (\<lambda>kind.
         if kind \<noteq> pa_zone allocation \<or> \<not> Zone_contains_block (zone_of self kind) start_pfn order
         then Err InvalidAllocation
         else
           rbind (validate_pages self start_pfn order expected_reference_count expected_state [0..<2 ^ order]) (\<lambda>_.
             Ok (start_pfn, order, kind)))))"

definition BuddyAllocator_begin_free :: "PageAllocation \<Rightarrow> (BuddyAllocator, unit, BuddyError) action" where
  "BuddyAllocator_begin_free allocation =
     sbind (sread (\<lambda>self. validate_allocated_block self allocation (Some 1) Allocated))
       (\<lambda>(start_pfn, order, kind). mark_freeing_block start_pfn order kind)"

definition BuddyAllocator_cancel_free :: "PageAllocation \<Rightarrow> (BuddyAllocator, unit, BuddyError) action" where
  "BuddyAllocator_cancel_free allocation =
     sbind (sread (\<lambda>self. validate_allocated_block self allocation None Freeing))
       (\<lambda>(start_pfn, order, kind). mark_allocated_block_preserving_refs start_pfn order kind)"

definition BuddyAllocator_finish_free :: "PageAllocation \<Rightarrow> (BuddyAllocator, unit, BuddyError) action" where
  "BuddyAllocator_finish_free allocation =
     sbind (sread (\<lambda>self. validate_allocated_block self allocation None Freeing))
       (\<lambda>(start_pfn, order, kind).
          sseq (coalesce_and_insert start_pfn order kind) (add_free_pages kind (2 ^ order)))"

definition BuddyAllocator_free :: "PageAllocation \<Rightarrow> (BuddyAllocator, unit, BuddyError) action" where
  "BuddyAllocator_free allocation =
     sseq (BuddyAllocator_begin_free allocation) (BuddyAllocator_finish_free allocation)"

section \<open>Reference counts\<close>

text \<open>The page of a frame that is allocated.\<close>

definition allocated_page :: "BuddyAllocator \<Rightarrow> PhysFrame \<Rightarrow> (Page, BuddyError) result" where
  "allocated_page self frame =
     rbind (buddy_page self (pf_start frame div PAGE_SIZE)) (\<lambda>page.
       if pg_state page \<noteq> Allocated then Err InvalidAllocation else Ok page)"

definition BuddyAllocator_reference_count :: "BuddyAllocator \<Rightarrow> PhysFrame \<Rightarrow> (u32, BuddyError) result" where
  "BuddyAllocator_reference_count self frame =
     rbind (allocated_page self frame) (\<lambda>page. Ok (pg_reference_count page))"

definition BuddyAllocator_increment_reference :: "PhysFrame \<Rightarrow> (BuddyAllocator, u32, BuddyError) action" where
  "BuddyAllocator_increment_reference frame =
     sbind (sread (\<lambda>self. allocated_page self frame)) (\<lambda>page.
     let count = pg_reference_count page in
     if count = 0 then sfail InvalidAllocation
     else if count = u32_MAX then sfail (ReferenceCountOverflow frame)
     else sseq (page_mut (pf_start frame div PAGE_SIZE) (\<lambda>page. page\<lparr>pg_reference_count := count + 1\<rparr>))
            (sreturn (count + 1)))"

definition BuddyAllocator_decrement_reference :: "PhysFrame \<Rightarrow> (BuddyAllocator, u32, BuddyError) action" where
  "BuddyAllocator_decrement_reference frame =
     sbind (sread (\<lambda>self. allocated_page self frame)) (\<lambda>page.
     let count = pg_reference_count page in
     if count = 0 then sfail (ReferenceCountUnderflow frame)
     else sseq (page_mut (pf_start frame div PAGE_SIZE) (\<lambda>page. page\<lparr>pg_reference_count := count - 1\<rparr>))
            (sreturn (count - 1)))"

definition BuddyAllocator_begin_free_unreferenced_frame ::
  "PhysFrame \<Rightarrow> (BuddyAllocator, PageAllocation, BuddyError) action" where
  "BuddyAllocator_begin_free_unreferenced_frame frame =
     (let pfn = pf_start frame div PAGE_SIZE in
      sbind (sread (\<lambda>self. zone_kind_for_pfn self pfn)) (\<lambda>kind.
      sbind (sget (\<lambda>self. Zone_contains_block (zone_of self kind) pfn 0)) (\<lambda>inside.
      if \<not> inside then sfail InvalidAllocation
      else
        sbind (sread (\<lambda>self. buddy_page self pfn)) (\<lambda>page.
        if pg_state page \<noteq> Allocated \<or> pg_order page \<noteq> 0 then sfail InvalidAllocation
        else if pg_reference_count page \<noteq> 0 then sfail (PageStillReferenced frame (pg_reference_count page))
        else
          sseq (mark_freeing_block pfn 0 kind)
            (sreturn \<lparr>pa_start = frame, pa_order = 0, pa_zone = kind\<rparr>)))))"

definition BuddyAllocator_free_unreferenced_frame :: "PhysFrame \<Rightarrow> (BuddyAllocator, unit, BuddyError) action" where
  "BuddyAllocator_free_unreferenced_frame frame =
     sbind (BuddyAllocator_begin_free_unreferenced_frame frame) BuddyAllocator_finish_free"

section \<open>Statistics\<close>

definition BuddyAllocator_total_free_pages :: "BuddyAllocator \<Rightarrow> usize" where
  "BuddyAllocator_total_free_pages self = sum_list (map zn_free_pages (ba_zones self))"

definition BuddyAllocator_zone_present_pages :: "BuddyAllocator \<Rightarrow> ZoneKind \<Rightarrow> usize" where
  "BuddyAllocator_zone_present_pages self kind = zn_present_pages (zone_of self kind)"

definition BuddyAllocator_zone_free_pages :: "BuddyAllocator \<Rightarrow> ZoneKind \<Rightarrow> usize" where
  "BuddyAllocator_zone_free_pages self kind = zn_free_pages (zone_of self kind)"

definition BuddyAllocator_free_block_count :: "BuddyAllocator \<Rightarrow> ZoneKind \<Rightarrow> nat \<Rightarrow> usize option" where
  "BuddyAllocator_free_block_count self kind order =
     (if MAX_ORDER \<le> order then None else Some (fa_block_count (area_of self kind order)))"

end
