(* ===== verification/Buddy_Lists.thy ===== *)
theory Buddy_Lists
  imports Buddy
begin

text \<open>
  The library for the buddy allocator: aligned blocks and the buddy of a block, doubly linked lists
  threaded through the page metadata, a functional view of the metadata and what the primitive updates
  do to it.
\<close>

section \<open>Aligned blocks\<close>

definition block :: "nat \<Rightarrow> nat \<Rightarrow> nat set" where
  "block p order = {p..<p + 2 ^ order}"

lemma finite_block [simp]: "finite (block p n)"
  by (simp add: block_def)

lemma card_block [simp]: "card (block p n) = 2 ^ n"
  by (simp add: block_def)

lemma block_start [simp]: "p \<in> block p n"
  by (simp add: block_def)

lemma block_0 [simp]: "block p 0 = {p}"
  by (auto simp: block_def)

text \<open>Two aligned blocks that meet are nested.\<close>

lemma block_nested:
  assumes "2 ^ a dvd p" "2 ^ b dvd q" "a \<le> b" "block p a \<inter> block q b \<noteq> {}"
  shows "block p a \<subseteq> block q b"
proof -
  have dvd: "2 ^ a dvd (2 :: nat) ^ b" using assms(3) by (rule le_imp_power_dvd)
  then have q: "2 ^ a dvd q" "2 ^ a dvd q + 2 ^ b" using assms(2) by (auto intro: dvd_trans)
  obtain x where x: "p \<le> x" "x < p + 2 ^ a" "q \<le> x" "x < q + 2 ^ b"
    using assms(4) unfolding block_def by (metis Int_emptyI atLeastLessThan_iff)
  have "q \<le> p"
  proof (rule ccontr)
    assume "\<not> q \<le> p"
    then have "p + 2 ^ a \<le> q" using dvd_gap [OF assms(1) q(1)] by simp
    with x show False by simp
  qed
  moreover have "p + 2 ^ a \<le> q + 2 ^ b"
    using dvd_gap [OF assms(1) q(2)] x by simp
  ultimately show ?thesis by (auto simp: block_def)
qed

lemma xor_power_of_two:
  assumes "2 ^ n dvd (p :: nat)"
  shows "p XOR 2 ^ n = (if even (p div 2 ^ n) then p + 2 ^ n else p - 2 ^ n)"
proof -
  obtain m where m: "p = 2 ^ n * m" using assms by blast
  have "p XOR 2 ^ n = push_bit n m XOR push_bit n 1" by (simp add: m push_bit_eq_mult mult.commute)
  also have "\<dots> = push_bit n (m XOR 1)" by (simp only: push_bit_xor)
  also have "m XOR 1 = (if even m then m + 1 else m - 1)"
    by (subst xor_nat_rec) (auto elim!: evenE oddE)
  finally show ?thesis
    by (auto simp: m push_bit_eq_mult algebra_simps elim!: oddE)
qed

text \<open>The buddy of an aligned block is the other half of the enclosing aligned block.\<close>

lemma buddy_of_block:
  assumes "2 ^ n dvd (p :: nat)"
  defines "q \<equiv> p XOR 2 ^ n"
  shows "2 ^ n dvd q" "q \<noteq> p" "q XOR 2 ^ n = p" "2 ^ Suc n dvd min p q"
    "block p n \<union> block q n = block (min p q) (Suc n)" "block p n \<inter> block q n = {}"
proof -
  obtain m where m: "p = 2 ^ n * m" using assms(1) by blast
  show "q XOR 2 ^ n = p" by (simp add: q_def xor.assoc)
  have "2 ^ n dvd q \<and> q \<noteq> p \<and> 2 ^ Suc n dvd min p q \<and> block p n \<union> block q n = block (min p q) (Suc n)
    \<and> block p n \<inter> block q n = {}"
  proof (cases "even m")
    case True
    then have "q = p + 2 ^ n" using xor_power_of_two [OF assms(1)] by (simp add: q_def m)
    moreover have "2 ^ Suc n dvd p" using True by (auto simp: m elim!: evenE)
    ultimately show ?thesis using assms(1) by (auto simp: block_def)
  next
    case False
    then have q: "q = p - 2 ^ n" "2 ^ n \<le> p"
      using xor_power_of_two [OF assms(1)] by (auto simp: q_def m elim!: oddE)
    moreover have "2 ^ Suc n dvd q"
      using False by (auto simp: q(1) m algebra_simps elim!: oddE)
    moreover have "p = q + 2 ^ n" using q by simp
    moreover have "2 ^ n dvd q" using q assms(1) by simp
    ultimately show ?thesis by (auto simp: block_def)
  qed
  then show "2 ^ n dvd q" "q \<noteq> p" "2 ^ Suc n dvd min p q"
    "block p n \<union> block q n = block (min p q) (Suc n)" "block p n \<inter> block q n = {}" by auto
qed

lemma block_split:
  "block p (Suc n) = block p n \<union> block (p + 2 ^ n) n" "block p n \<inter> block (p + 2 ^ n) n = {}"
  by (auto simp: block_def)

section \<open>Linked lists in the metadata\<close>

definition first :: "nat list \<Rightarrow> nat \<Rightarrow> nat" where
  "first xs e = (case xs of [] \<Rightarrow> e | x # _ \<Rightarrow> x)"

definition final :: "nat \<Rightarrow> nat list \<Rightarrow> nat" where
  "final a xs = (if xs = [] then a else last xs)"

lemma first_simps [simp]: "first [] e = e" "first (x # xs) e = x"
  by (simp_all add: first_def)

lemma first_append: "first (xs @ ys) e = first xs (first ys e)"
  by (cases xs) simp_all

lemma final_simps [simp]: "final a [] = a" "final a (xs @ [x]) = x" "final a (x # xs) = final x xs"
  by (simp_all add: final_def)

text \<open>\<open>links m a xs e\<close>: the pages \<open>xs\<close> are linked in this order between \<open>a\<close> and \<open>e\<close>.\<close>

fun links :: "(nat \<Rightarrow> Page) \<Rightarrow> nat \<Rightarrow> nat list \<Rightarrow> nat \<Rightarrow> bool" where
  "links m a [] e = True"
| "links m a (x # xs) e = (pg_previous (m x) = a \<and> pg_next (m x) = first xs e \<and> links m x xs e)"

lemma links_append:
  "links m a (xs @ ys) e \<longleftrightarrow> links m a xs (first ys e) \<and> links m (final a xs) ys e"
  by (induction xs arbitrary: a) (auto simp: first_append)

lemma links_cong:
  "(\<And>x. x \<in> set xs \<Longrightarrow> pg_previous (m' x) = pg_previous (m x) \<and> pg_next (m' x) = pg_next (m x)) \<Longrightarrow>
   links m' a xs e = links m a xs e"
  by (induction xs arbitrary: a) auto

lemma links_update_next:
  assumes "links m a xs e" "distinct xs" "xs \<noteq> []"
  shows "links (m(last xs := (m (last xs))\<lparr>pg_next := e'\<rparr>)) a xs e'"
  using assms
proof (induction xs arbitrary: a)
  case (Cons x xs)
  show ?case
  proof (cases xs)
    case (Cons y ys)
    then have "x \<noteq> last xs" "last (x # xs) = last xs" "first xs e' = first xs e" "xs \<noteq> []"
      using Cons.prems(2) by auto
    then show ?thesis using Cons.IH [of x] Cons.prems(1,2) by (simp del: last.simps)
  qed (use Cons.prems in simp)
qed simp

lemma links_update_previous:
  assumes "links m a (x # xs) e" "distinct (x # xs)"
  shows "links (m(x := (m x)\<lparr>pg_previous := b\<rparr>)) b (x # xs) e"
proof -
  have "links (m(x := (m x)\<lparr>pg_previous := b\<rparr>)) x xs e = links m x xs e"
    using assms(2) by (intro links_cong) auto
  with assms show ?thesis by simp
qed

text \<open>Unlinking an element: the neighbours are joined.\<close>

definition unlink :: "(nat \<Rightarrow> Page) \<Rightarrow> nat \<Rightarrow> nat \<Rightarrow> nat \<Rightarrow> nat \<Rightarrow> (nat \<Rightarrow> Page)" where
  "unlink m p e u v =
     (let m1 = (if u = e then m else m(u := (m u)\<lparr>pg_next := v\<rparr>));
          m2 = (if v = e then m1 else m1(v := (m1 v)\<lparr>pg_previous := u\<rparr>))
      in m2(p := (m2 p)\<lparr>pg_previous := e, pg_next := e\<rparr>))"

lemma links_unlink:
  assumes "links m e (us @ p # vs) e" "distinct (us @ p # vs)" "e \<notin> set (us @ p # vs)"
  shows "links (unlink m p e (final e us) (first vs e)) e (us @ vs) e"
proof -
  let ?u = "final e us" and ?v = "first vs e"
  define m1 where "m1 = (if ?u = e then m else m(?u := (m ?u)\<lparr>pg_next := ?v\<rparr>))"
  define m2 where "m2 = (if ?v = e then m1 else m1(?v := (m1 ?v)\<lparr>pg_previous := ?u\<rparr>))"
  from assms(1) have l: "links m e us p" "links m p vs e" by (simp_all add: links_append)
  have us: "us \<noteq> [] \<Longrightarrow> ?u = last us \<and> ?u \<noteq> e \<and> ?u \<in> set us" using assms(3) by (auto simp: final_def)
  have vs: "vs \<noteq> [] \<Longrightarrow> ?v = hd vs \<and> ?v \<noteq> e \<and> ?v \<in> set vs" using assms(3) by (cases vs) auto
  have u1: "links m1 e us ?v"
    using links_update_next [OF l(1)] us assms(2) by (cases "us = []") (auto simp: m1_def)
  have v1: "links m1 p vs e"
  proof -
    have "m1 x = m x" if "x \<in> set vs" for x
      using us that assms(2) by (cases "us = []") (auto simp: m1_def)
    then show ?thesis by (subst links_cong [where m = m]) (simp_all add: l(2))
  qed
  have u2: "links m2 e us ?v"
  proof -
    have "m2 x = m1 x" if "x \<in> set us" for x
      using vs that assms(2) by (cases "vs = []") (auto simp: m2_def)
    then show ?thesis by (subst links_cong [where m = m1]) (simp_all add: u1)
  qed
  have v2: "links m2 ?u vs e"
  proof (cases vs)
    case (Cons x xs)
    then show ?thesis
      using links_update_previous [of m1 p x xs e ?u] v1 vs assms(2) by (auto simp: m2_def)
  qed simp
  have "links m2 e (us @ vs) e" using u2 v2 by (simp add: links_append)
  moreover have "links (unlink m p e ?u ?v) e (us @ vs) e = links m2 e (us @ vs) e"
    using assms(2) by (intro links_cong) (auto simp: unlink_def m1_def m2_def Let_def)
  ultimately show ?thesis by simp
qed

lemma links_neighbours:
  assumes "links m e (us @ p # vs) e"
  shows "pg_previous (m p) = final e us" "pg_next (m p) = first vs e"
  using assms by (auto simp: links_append)

lemma unlink_frame:
  "x \<noteq> p \<Longrightarrow> (u = e \<or> x \<noteq> u) \<Longrightarrow> (v = e \<or> x \<noteq> v) \<Longrightarrow> unlink m p e u v x = m x"
  by (auto simp: unlink_def Let_def)

text \<open>The fields that linking and unlinking do not touch.\<close>

definition marks :: "Page \<Rightarrow> PageState \<times> nat \<times> nat \<times> u32" where
  "marks pg = (pg_state pg, pg_order pg, pg_zone pg, pg_reference_count pg)"

lemma marks_eqD:
  assumes "marks pg = marks pg'"
  shows "pg_state pg = pg_state pg'" "pg_order pg = pg_order pg'" "pg_reference_count pg = pg_reference_count pg'"
  using assms by (simp_all add: marks_def)

lemma marks_unlink [simp]: "marks (unlink m p e u v x) = marks (m x)"
  by (simp add: unlink_def Let_def marks_def)

text \<open>Linking a new element in front.\<close>

definition push :: "(nat \<Rightarrow> Page) \<Rightarrow> nat \<Rightarrow> nat \<Rightarrow> nat \<Rightarrow> (nat \<Rightarrow> Page)" where
  "push m p e h =
     (let m1 = m(p := (m p)\<lparr>pg_previous := e, pg_next := h\<rparr>)
      in if h = e then m1 else m1(h := (m1 h)\<lparr>pg_previous := p\<rparr>))"

lemma links_push:
  assumes "links m e xs e" "distinct (p # xs)" "e \<notin> set (p # xs)"
  shows "links (push m p e (first xs e)) e (p # xs) e"
proof -
  have tl: "links (m(p := (m p)\<lparr>pg_previous := e, pg_next := first xs e\<rparr>)) e xs e"
    by (subst links_cong [where m = m]) (use assms in auto)
  show ?thesis
  proof (cases xs)
    case (Cons x ys)
    from links_update_previous [OF tl [unfolded Cons], of p] assms show ?thesis
      by (auto simp: push_def Let_def Cons)
  qed (simp add: push_def)
qed

lemma push_frame: "x \<noteq> p \<Longrightarrow> (h = e \<or> x \<noteq> h) \<Longrightarrow> push m p e h x = m x"
  by (auto simp: push_def Let_def)

lemma marks_push [simp]: "marks (push m p e h x) = marks (m x)"
  by (simp add: push_def Let_def marks_def)

end
