(* ===== verification/Buddy_View.thy ===== *)
theory Buddy_View
  imports Buddy_Lists
begin

text \<open>
  A functional view of the buddy allocator's state - the metadata of each page frame number and the free
  area of each zone and order - with the effect of every primitive update on it.
\<close>

section \<open>Well-formed allocators\<close>

definition managed :: "BuddyAllocator \<Rightarrow> nat set" where
  "managed b = {ba_base_pfn b..<ba_base_pfn b + ba_page_count b}"

definition pv :: "BuddyAllocator \<Rightarrow> nat \<Rightarrow> Page" where
  "pv b p = (if p \<in> managed b then ba_metadata b ! (p - ba_base_pfn b) else Page_absent)"

definition zone_pfns :: "BuddyAllocator \<Rightarrow> ZoneKind \<Rightarrow> nat set" where
  "zone_pfns b k = {zn_start_pfn (zone_of b k)..<zn_end_pfn (zone_of b k)}"

text \<open>The lengths of the arrays and the geometry that \<open>new\<close> sets up and nothing changes.\<close>

definition buddy_wf :: "BuddyAllocator \<Rightarrow> bool" where
  "buddy_wf b \<longleftrightarrow> length (ba_metadata b) = ba_page_count b \<and> length (ba_zones b) = 2
     \<and> (\<forall>k. length (zn_free_area (zone_of b k)) = MAX_ORDER)
     \<and> pr_start (ba_managed b) = ba_base_pfn b * PAGE_SIZE
     \<and> pr_end (ba_managed b) = (ba_base_pfn b + ba_page_count b) * PAGE_SIZE
     \<and> pr_end (ba_managed b) \<le> usize_MAX
     \<and> zone_pfns b Dma32 = managed b \<inter> {..<DMA32_LIMIT_PFN}
     \<and> zone_pfns b NormalZone = managed b \<inter> {DMA32_LIMIT_PFN..}"

text \<open>What no operation after \<open>new\<close> changes.\<close>

definition same_shape :: "BuddyAllocator \<Rightarrow> BuddyAllocator \<Rightarrow> bool" where
  "same_shape b b' \<longleftrightarrow> ba_managed b' = ba_managed b \<and> ba_base_pfn b' = ba_base_pfn b
     \<and> ba_page_count b' = ba_page_count b \<and> length (ba_metadata b') = length (ba_metadata b)
     \<and> length (ba_zones b') = length (ba_zones b)
     \<and> (\<forall>k. length (zn_free_area (zone_of b' k)) = length (zn_free_area (zone_of b k))
           \<and> zn_start_pfn (zone_of b' k) = zn_start_pfn (zone_of b k)
           \<and> zn_end_pfn (zone_of b' k) = zn_end_pfn (zone_of b k))"

lemma same_shape_refl [simp]: "same_shape b b"
  by (simp add: same_shape_def)

lemma same_shape_trans [trans]: "same_shape a b \<Longrightarrow> same_shape b c \<Longrightarrow> same_shape a c"
  by (simp add: same_shape_def)

lemma same_shape_managed: "same_shape b b' \<Longrightarrow> managed b' = managed b"
  by (simp add: same_shape_def managed_def)

lemma same_shape_zone_pfns: "same_shape b b' \<Longrightarrow> zone_pfns b' k = zone_pfns b k"
  by (simp add: same_shape_def zone_pfns_def)

lemma same_shape_wf: "same_shape b b' \<Longrightarrow> buddy_wf b \<Longrightarrow> buddy_wf b'"
  by (simp add: buddy_wf_def same_shape_managed same_shape_zone_pfns) (simp add: same_shape_def)

lemma same_shape_contains_block:
  "same_shape b b' \<Longrightarrow> Zone_contains_block (zone_of b' k) p n = Zone_contains_block (zone_of b k) p n"
  by (simp add: same_shape_def Zone_contains_block_def split: option.split)

lemma managed_bound:
  assumes "buddy_wf b" "p \<in> managed b"
  shows "p < INVALID_PFN" "p * PAGE_SIZE < usize_MAX" "Suc p * PAGE_SIZE \<le> usize_MAX"
proof -
  have "Suc p \<le> ba_base_pfn b + ba_page_count b" using assms(2) by (simp add: managed_def)
  then have "Suc p * PAGE_SIZE \<le> (ba_base_pfn b + ba_page_count b) * PAGE_SIZE" by (rule mult_right_mono) simp
  also have "\<dots> \<le> usize_MAX" using assms(1) by (simp add: buddy_wf_def)
  finally show "Suc p * PAGE_SIZE \<le> usize_MAX" .
  then show "p < INVALID_PFN" "p * PAGE_SIZE < usize_MAX" by (simp_all add: INVALID_PFN_def PAGE_SIZE_eq)
qed

lemma zone_pfns_managed: "buddy_wf b \<Longrightarrow> zone_pfns b k \<subseteq> managed b"
  by (cases k) (auto simp: buddy_wf_def)

lemma zone_pfns_disjoint: "buddy_wf b \<Longrightarrow> p \<in> zone_pfns b k \<Longrightarrow> p \<in> zone_pfns b k' \<Longrightarrow> k = k'"
  by (cases k; cases k') (auto simp: buddy_wf_def)

lemma managed_in_zone: "buddy_wf b \<Longrightarrow> p \<in> managed b \<Longrightarrow> \<exists>k. p \<in> zone_pfns b k"
  by (cases "p < DMA32_LIMIT_PFN") (auto simp: buddy_wf_def intro: exI [of _ Dma32] exI [of _ NormalZone])

lemma block_in_zone:
  assumes "buddy_wf b"
  shows "Zone_contains_block (zone_of b k) p n \<longleftrightarrow> block p n \<subseteq> zone_pfns b k"
proof -
  have end_le: "zn_end_pfn (zone_of b k) \<le> usize_MAX" if "p \<in> zone_pfns b k"
  proof -
    let ?e = "zn_end_pfn (zone_of b k)"
    have "p < ?e" using that by (simp add: zone_pfns_def)
    then have "?e - 1 \<in> zone_pfns b k" using that by (auto simp: zone_pfns_def)
    then have "?e - 1 < INVALID_PFN" using managed_bound [OF assms] zone_pfns_managed [OF assms] by blast
    then show ?thesis by (simp add: INVALID_PFN_def)
  qed
  have sub: "block p n \<subseteq> zone_pfns b k \<longleftrightarrow> p \<in> zone_pfns b k \<and> p + 2 ^ n \<le> zn_end_pfn (zone_of b k)"
  proof
    assume s: "block p n \<subseteq> zone_pfns b k"
    have pos: "(0::nat) < 2 ^ n" by simp
    then have "p + 2 ^ n - 1 \<in> block p n" unfolding block_def atLeastLessThan_iff by linarith
    with s have "p + 2 ^ n - 1 \<in> zone_pfns b k" by blast
    moreover have "p \<in> zone_pfns b k" using s block_start by blast
    ultimately show "p \<in> zone_pfns b k \<and> p + 2 ^ n \<le> zn_end_pfn (zone_of b k)"
      using pos by (simp add: zone_pfns_def) linarith
  qed (auto simp: block_def zone_pfns_def)
  show ?thesis
  proof
    assume "Zone_contains_block (zone_of b k) p n"
    then have "zn_start_pfn (zone_of b k) \<le> p" "p + 2 ^ n \<le> zn_end_pfn (zone_of b k)"
      by (auto simp: Zone_contains_block_def split: option.splits simp: checked_add_def split: if_splits)
    moreover have "(0::nat) < 2 ^ n" by simp
    ultimately show "block p n \<subseteq> zone_pfns b k" unfolding block_def zone_pfns_def by auto
  next
    assume "block p n \<subseteq> zone_pfns b k"
    with sub have "p \<in> zone_pfns b k" "p + 2 ^ n \<le> zn_end_pfn (zone_of b k)" by auto
    with end_le show "Zone_contains_block (zone_of b k) p n"
      by (auto simp: Zone_contains_block_def checked_add_def zone_pfns_def)
  qed
qed

section \<open>Primitive updates\<close>

definition set_page :: "nat \<Rightarrow> (Page \<Rightarrow> Page) \<Rightarrow> BuddyAllocator \<Rightarrow> BuddyAllocator" where
  "set_page p f b = b\<lparr>ba_metadata := (ba_metadata b)[p - ba_base_pfn b := f (ba_metadata b ! (p - ba_base_pfn b))]\<rparr>"

lemma page_pointer_managed: "p \<in> managed b \<Longrightarrow> page_pointer b p = Ok (p - ba_base_pfn b)"
  by (auto simp: page_pointer_def managed_def checked_sub_def)

lemma page_pointer_outside: "p \<notin> managed b \<Longrightarrow> page_pointer b p = Err RangeOutsideManagedMemory"
  by (auto simp: page_pointer_def managed_def checked_sub_def)

lemma buddy_page_managed: "p \<in> managed b \<Longrightarrow> buddy_page b p = Ok (pv b p)"
  by (simp add: buddy_page_def page_pointer_managed pv_def)

lemma buddy_page_outside: "p \<notin> managed b \<Longrightarrow> buddy_page b p = Err RangeOutsideManagedMemory"
  by (simp add: buddy_page_def page_pointer_outside)

lemma page_mut_managed: "p \<in> managed b \<Longrightarrow> page_mut p f b = (Ok (), set_page p f b)"
  by (simp add: page_mut_def sbind_def sread_def smodify_def page_pointer_managed set_page_def)

lemma set_page_shape: "same_shape b (set_page p f b)"
  by (simp add: same_shape_def set_page_def zone_of_def)

lemma set_page_view:
  assumes "buddy_wf b" "p \<in> managed b"
  shows "pv (set_page p f b) = (pv b)(p := f (pv b p))"
proof
  fix q
  show "pv (set_page p f b) q = ((pv b)(p := f (pv b p))) q"
    using assms by (auto simp: pv_def set_page_def managed_def buddy_wf_def nth_list_update)
qed

lemma set_page_zone [simp]: "zone_of (set_page p f b) = zone_of b"
  by (simp add: set_page_def zone_of_def fun_eq_iff)

lemma set_page_area [simp]: "area_of (set_page p f b) = area_of b"
  by (simp add: area_of_def fun_eq_iff)

lemma zone_mut_view [simp]: "pv (zone_mut k f b) = pv b"
  by (simp add: pv_def zone_mut_def managed_def fun_eq_iff)

lemma zone_mut_zone:
  assumes "buddy_wf b"
  shows "zone_of (zone_mut k f b) = (zone_of b)(k := f (zone_of b k))"
proof
  fix k'
  have "length (ba_zones b) = 2" using assms by (simp add: buddy_wf_def)
  then show "zone_of (zone_mut k f b) k' = ((zone_of b)(k := f (zone_of b k))) k'"
    by (cases k; cases k') (auto simp: zone_of_def zone_mut_def)
qed

lemma zone_mut_shape:
  assumes "buddy_wf b" "zn_start_pfn (f (zone_of b k)) = zn_start_pfn (zone_of b k)"
    "zn_end_pfn (f (zone_of b k)) = zn_end_pfn (zone_of b k)"
    "length (zn_free_area (f (zone_of b k))) = length (zn_free_area (zone_of b k))"
  shows "same_shape b (zone_mut k f b)"
  using assms by (auto simp: same_shape_def zone_mut_zone) (simp_all add: zone_mut_def)

lemma area_mut_view [simp]: "pv (area_mut k n f b) = pv b"
  by (simp add: area_mut_def)

lemma area_mut_shape: "buddy_wf b \<Longrightarrow> same_shape b (area_mut k n f b)"
  unfolding area_mut_def by (rule zone_mut_shape) simp_all

lemma area_mut_area:
  assumes "buddy_wf b" "n < MAX_ORDER"
  shows "area_of (area_mut k n f b) = (area_of b)(k := (area_of b k)(n := f (area_of b k n)))"
  using assms by (auto simp: area_of_def area_mut_def zone_mut_zone buddy_wf_def fun_eq_iff)

lemma area_mut_counters [simp]:
  assumes "buddy_wf b"
  shows "zn_free_pages (zone_of (area_mut k n f b) k') = zn_free_pages (zone_of b k')"
    "zn_present_pages (zone_of (area_mut k n f b) k') = zn_present_pages (zone_of b k')"
  using assms by (auto simp: area_mut_def zone_mut_zone)

text \<open>The counters that linking, unlinking and marking leave alone.\<close>

definition same_counters :: "BuddyAllocator \<Rightarrow> BuddyAllocator \<Rightarrow> bool" where
  "same_counters b b' \<longleftrightarrow> (\<forall>k. zn_free_pages (zone_of b' k) = zn_free_pages (zone_of b k)
      \<and> zn_present_pages (zone_of b' k) = zn_present_pages (zone_of b k))"

lemma same_counters_refl [simp]: "same_counters b b"
  by (simp add: same_counters_def)

lemma same_counters_trans [trans]: "same_counters a b \<Longrightarrow> same_counters b c \<Longrightarrow> same_counters a c"
  by (simp add: same_counters_def)

section \<open>Marking a block\<close>

lemma mark_block_upto:
  assumes "buddy_wf b" "{p..<p + n} \<subseteq> managed b"
  shows "\<exists>b'. sforeach (\<lambda>i. sbind (slift (add_usize p i)) (\<lambda>q. page_mut q (f i))) [0..<n] b = (Ok (), b')
    \<and> same_shape b b' \<and> zone_of b' = zone_of b
    \<and> pv b' = (\<lambda>q. if q \<in> {p..<p + n} then f (q - p) (pv b q) else pv b q)"
  using assms(2)
proof (induction n)
  case 0
  show ?case by (auto simp: sreturn_def)
next
  case (Suc n)
  have "{p..<p + n} \<subseteq> managed b" using Suc.prems by auto
  from Suc.IH [OF this] obtain b1 where b1: "sforeach (\<lambda>i. sbind (slift (add_usize p i)) (\<lambda>q. page_mut q (f i))) [0..<n] b = (Ok (), b1)"
    "same_shape b b1" "zone_of b1 = zone_of b"
    "pv b1 = (\<lambda>q. if q \<in> {p..<p + n} then f (q - p) (pv b q) else pv b q)"
    by blast
  have wf1: "buddy_wf b1" using same_shape_wf [OF b1(2) assms(1)] .
  have "p + n \<in> managed b" using Suc.prems by auto
  then have in1: "p + n \<in> managed b1" using same_shape_managed [OF b1(2)] by simp
  have "p + n \<le> usize_MAX" using managed_bound(1) [OF wf1 in1] by (simp add: INVALID_PFN_def)
  then have add: "add_usize p n = Ok (p + n)" by (simp add: add_usize_def checked_add_def)
  have "sforeach (\<lambda>i. sbind (slift (add_usize p i)) (\<lambda>q. page_mut q (f i))) [0..<Suc n] b =
      (Ok (), set_page (p + n) (f n) b1)"
    by (simp add: sforeach_append sseq_def sbind_def b1(1) slift_def add page_mut_managed [OF in1] sreturn_def)
  moreover have "same_shape b (set_page (p + n) (f n) b1)"
    using b1(2) set_page_shape by (rule same_shape_trans)
  moreover have "pv (set_page (p + n) (f n) b1) = (\<lambda>q. if q \<in> {p..<p + Suc n} then f (q - p) (pv b q) else pv b q)"
    by (auto simp: set_page_view [OF wf1 in1] b1(4) fun_eq_iff)
  ultimately show ?case using b1(3) by auto
qed

lemma mark_block_Ok:
  assumes "buddy_wf b" "block p n \<subseteq> managed b"
  obtains b' where "mark_block p n f b = (Ok (), b')" "same_shape b b'" "zone_of b' = zone_of b"
    "pv b' = (\<lambda>q. if q \<in> block p n then f (q - p) (pv b q) else pv b q)"
  using mark_block_upto [OF assms(1), of p "2 ^ n" f] assms(2)
  unfolding mark_block_def block_def by blast

end
