(* ===== verification/Buddy_Free.thy ===== *)
theory Buddy_Free
  imports Buddy_View
begin

text \<open>
  The free lists of the buddy allocator. \<open>free_lists b fl H\<close> says that the free areas and the metadata
  represent the lists \<open>fl\<close> (per zone and order), that every block on a list is a properly marked, aligned
  free block of its zone, and that every page marked free lies in one of them - except for the pages in
  \<open>H\<close>, which an operation in progress has taken off the lists.
\<close>

definition free_block :: "BuddyAllocator \<Rightarrow> ZoneKind \<Rightarrow> nat \<Rightarrow> nat \<Rightarrow> bool" where
  "free_block b k p n \<longleftrightarrow> 2 ^ n dvd p \<and> block p n \<subseteq> zone_pfns b k
     \<and> pg_state (pv b p) = FreeHead \<and> pg_order (pv b p) = n
     \<and> (\<forall>q \<in> block p n - {p}. pg_state (pv b q) = FreeTail)"

definition flist_ok :: "BuddyAllocator \<Rightarrow> FreeArea \<Rightarrow> nat list \<Rightarrow> bool" where
  "flist_ok b a ps \<longleftrightarrow> fa_head a = first ps INVALID_PFN \<and> fa_block_count a = length ps
     \<and> distinct ps \<and> links (pv b) INVALID_PFN ps INVALID_PFN"

definition is_free :: "BuddyAllocator \<Rightarrow> nat \<Rightarrow> bool" where
  "is_free b p \<longleftrightarrow> pg_state (pv b p) = FreeHead \<or> pg_state (pv b p) = FreeTail"

type_synonym lists = "ZoneKind \<Rightarrow> nat \<Rightarrow> nat list"

definition free_lists :: "BuddyAllocator \<Rightarrow> lists \<Rightarrow> nat set \<Rightarrow> bool" where
  "free_lists b fl H \<longleftrightarrow>
     (\<forall>k n. n < MAX_ORDER \<longrightarrow> flist_ok b (area_of b k n) (fl k n))
     \<and> (\<forall>k n. MAX_ORDER \<le> n \<longrightarrow> fl k n = [])
     \<and> (\<forall>k n p. p \<in> set (fl k n) \<longrightarrow> free_block b k p n \<and> block p n \<inter> H = {})
     \<and> (\<forall>q \<in> managed b - H. is_free b q \<longrightarrow> (\<exists>k n p. p \<in> set (fl k n) \<and> q \<in> block p n))"

lemma free_listsD:
  assumes "free_lists b fl H"
  shows "n < MAX_ORDER \<Longrightarrow> flist_ok b (area_of b k n) (fl k n)"
    "p \<in> set (fl k n) \<Longrightarrow> free_block b k p n" "p \<in> set (fl k n) \<Longrightarrow> block p n \<inter> H = {}"
    "p \<in> set (fl k n) \<Longrightarrow> n < MAX_ORDER"
    "q \<in> managed b \<Longrightarrow> q \<notin> H \<Longrightarrow> is_free b q \<Longrightarrow> \<exists>k n p. p \<in> set (fl k n) \<and> q \<in> block p n"
proof -
  note * = assms [unfolded free_lists_def]
  show "p \<in> set (fl k n) \<Longrightarrow> n < MAX_ORDER" using * by (metis empty_iff list.set(1) not_le)
qed (use assms in \<open>auto simp: free_lists_def\<close>)

lemma free_block_marks:
  assumes "same_shape b b'" "\<And>q. q \<in> block p n \<Longrightarrow> marks (pv b' q) = marks (pv b q)"
  shows "free_block b' k p n = free_block b k p n"
proof -
  have "pg_state (pv b' q) = pg_state (pv b q) \<and> pg_order (pv b' q) = pg_order (pv b q)" if "q \<in> block p n" for q
    using assms(2) [OF that] by (auto dest: marks_eqD)
  then show ?thesis
    using same_shape_zone_pfns [OF assms(1)] by (auto simp: free_block_def)
qed

lemma is_free_marks: "marks (pv b' q) = marks (pv b q) \<Longrightarrow> is_free b' q = is_free b q"
  by (auto simp: is_free_def dest: marks_eqD)

text \<open>Blocks on the lists are pairwise disjoint.\<close>

lemma free_block_head:
  assumes "free_block b k p n" "q \<in> block p n" "pg_state (pv b q) = FreeHead"
  shows "q = p"
proof (rule ccontr)
  assume "q \<noteq> p"
  with assms(1,2) have "pg_state (pv b q) = FreeTail" by (simp add: free_block_def)
  with assms(3) show False by simp
qed

lemma free_block_zone: "free_block b k p n \<Longrightarrow> q \<in> block p n \<Longrightarrow> q \<in> zone_pfns b k"
  unfolding free_block_def by blast

lemma free_blocks_disjoint:
  assumes "buddy_wf b" "free_block b k p n" "free_block b k' q m" "block p n \<inter> block q m \<noteq> {}"
  shows "p = q \<and> n = m \<and> k = k'"
proof -
  have "p = q"
  proof (cases "n \<le> m")
    case True
    with assms have "block p n \<subseteq> block q m" by (intro block_nested) (auto simp: free_block_def)
    then have "p \<in> block q m" using block_start by blast
    with free_block_head [OF assms(3)] assms(2) show ?thesis by (auto simp: free_block_def)
  next
    case False
    with assms have "block q m \<subseteq> block p n" by (intro block_nested) (auto simp: free_block_def)
    then have "q \<in> block p n" using block_start by blast
    with free_block_head [OF assms(2)] assms(3) show ?thesis by (auto simp: free_block_def)
  qed
  moreover from this have "k = k'"
    using zone_pfns_disjoint [OF assms(1)] free_block_zone [OF assms(2)] free_block_zone [OF assms(3)] block_start
    by blast
  ultimately show ?thesis using assms(2,3) by (auto simp: free_block_def)
qed

lemma free_lists_unique:
  assumes "buddy_wf b" "free_lists b fl H" "p \<in> set (fl k n)" "q \<in> set (fl k' m)" "block p n \<inter> block q m \<noteq> {}"
  shows "p = q \<and> n = m \<and> k = k'"
  using free_blocks_disjoint [OF assms(1) free_listsD(2) [OF assms(2,3)] free_listsD(2) [OF assms(2,4)] assms(5)] .

lemma free_lists_same_page:
  assumes "buddy_wf b" "free_lists b fl H" "p \<in> set (fl k n)" "p \<in> set (fl k' m)"
  shows "n = m \<and> k = k'"
  using free_lists_unique [OF assms] block_start by blast

lemma free_block_managed: "buddy_wf b \<Longrightarrow> free_block b k p n \<Longrightarrow> block p n \<subseteq> managed b"
  using zone_pfns_managed by (fastforce simp: free_block_def)

lemma free_list_managed: "buddy_wf b \<Longrightarrow> free_lists b fl H \<Longrightarrow> p \<in> set (fl k n) \<Longrightarrow> p \<in> managed b"
  using free_block_managed [OF _ free_listsD(2)] block_start by blast

lemma INVALID_not_listed: "buddy_wf b \<Longrightarrow> free_lists b fl H \<Longrightarrow> INVALID_PFN \<notin> set (fl k n)"
  using free_list_managed managed_bound(1) by blast

text \<open>A managed page marked \<open>FreeHead\<close> outside \<open>H\<close> is on the list of its zone and order.\<close>

lemma free_head_listed:
  assumes "buddy_wf b" "free_lists b fl H" "p \<in> zone_pfns b k" "p \<notin> H" "pg_state (pv b p) = FreeHead"
  shows "p \<in> set (fl k (pg_order (pv b p)))"
proof -
  have "p \<in> managed b" using assms(1,3) zone_pfns_managed by blast
  then obtain k' n q where q: "q \<in> set (fl k' n)" "p \<in> block q n"
    using free_listsD(5) [OF assms(2) _ assms(4)] assms(5) by (auto simp: is_free_def)
  note fb = free_listsD(2) [OF assms(2) q(1)]
  have "p = q" by (rule free_block_head [OF fb q(2) assms(5)])
  moreover have "k' = k"
    using zone_pfns_disjoint [OF assms(1) _ assms(3)] free_block_zone [OF fb q(2)] by blast
  ultimately show ?thesis using q(1) fb by (auto simp: free_block_def)
qed

section \<open>Taking a block off its list\<close>

definition del :: "lists \<Rightarrow> ZoneKind \<Rightarrow> nat \<Rightarrow> nat \<Rightarrow> lists" where
  "del fl k n p = fl(k := (fl k)(n := remove1 p (fl k n)))"

lemma set_del:
  "distinct (fl k n) \<Longrightarrow> set (del fl k n p k' m) = (if k' = k \<and> m = n then set (fl k n) - {p} else set (fl k' m))"
  by (auto simp: del_def)

lemma free_lists_distinct: "free_lists b fl H \<Longrightarrow> distinct (fl k n)"
  by (cases "n < MAX_ORDER") (auto simp: free_lists_def flist_ok_def)

text \<open>The state that \<open>remove_free_block\<close> leaves, given the neighbours of the block.\<close>

lemma remove_free_block_state:
  assumes "buddy_wf b" "n < MAX_ORDER" "p \<in> managed b" "pg_state (pv b p) = FreeHead" "pg_order (pv b p) = n"
    and "pg_previous (pv b p) = u" "pg_next (pv b p) = v"
    and "if u = INVALID_PFN then fa_head (area_of b k n) = p else u \<in> managed b"
    and "v = INVALID_PFN \<or> v \<in> managed b" "0 < fa_block_count (area_of b k n)"
  obtains b' where "remove_free_block p n k b = (Ok (), b')" "same_shape b b'" "same_counters b b'"
    "pv b' = unlink (pv b) p INVALID_PFN u v"
    "area_of b' = (area_of b)(k := (area_of b k)(n :=
       \<lparr>fa_head = (if u = INVALID_PFN then v else fa_head (area_of b k n)),
        fa_block_count = fa_block_count (area_of b k n) - 1\<rparr>))"
proof -
  define b1 where "b1 = (if u = INVALID_PFN then area_mut k n (\<lambda>a. a\<lparr>fa_head := v\<rparr>) b
    else set_page u (\<lambda>page. page\<lparr>pg_next := v\<rparr>) b)"
  define b2 where "b2 = (if v = INVALID_PFN then b1 else set_page v (\<lambda>page. page\<lparr>pg_previous := u\<rparr>) b1)"
  define b3 where "b3 = set_page p (\<lambda>page. page\<lparr>pg_previous := INVALID_PFN, pg_next := INVALID_PFN\<rparr>) b2"
  define b4 where "b4 = area_mut k n (\<lambda>a. a\<lparr>fa_block_count := fa_block_count (area_of b k n) - 1\<rparr>) b3"
  have s1: "same_shape b b1" using area_mut_shape [OF assms(1)] set_page_shape by (auto simp: b1_def)
  have w1: "buddy_wf b1" by (rule same_shape_wf [OF s1 assms(1)])
  have s2: "same_shape b b2" using s1 same_shape_trans set_page_shape by (auto simp: b2_def)
  have w2: "buddy_wf b2" by (rule same_shape_wf [OF s2 assms(1)])
  have s3: "same_shape b b3" using s2 same_shape_trans set_page_shape by (auto simp: b3_def)
  have w3: "buddy_wf b3" by (rule same_shape_wf [OF s3 assms(1)])
  have s4: "same_shape b b4" using s3 same_shape_trans area_mut_shape [OF w3] by (auto simp: b4_def)
  have m: "managed b1 = managed b" "managed b2 = managed b" "managed b3 = managed b"
    using s1 s2 s3 same_shape_managed by blast+
  have v1: "pv b1 = (if u = INVALID_PFN then pv b else (pv b)(u := (pv b u)\<lparr>pg_next := v\<rparr>))"
    using assms(1,8) by (auto simp: b1_def set_page_view)
  have v2: "pv b2 = (if v = INVALID_PFN then pv b1 else (pv b1)(v := (pv b1 v)\<lparr>pg_previous := u\<rparr>))"
    using assms(9) m by (auto simp: b2_def set_page_view [OF w1])
  have v4: "pv b4 = unlink (pv b) p INVALID_PFN u v"
    using assms(3) m by (simp add: b4_def b3_def set_page_view [OF w2] unlink_def Let_def v2 v1)
  have a3: "area_of b3 = (area_of b)(k := (area_of b k)(n :=
      (area_of b k n)\<lparr>fa_head := (if u = INVALID_PFN then v else fa_head (area_of b k n))\<rparr>))"
    using assms(1,2) by (auto simp: b3_def b2_def b1_def area_mut_area fun_eq_iff)
  have a4: "area_of b4 = (area_of b)(k := (area_of b k)(n :=
      \<lparr>fa_head = (if u = INVALID_PFN then v else fa_head (area_of b k n)),
       fa_block_count = fa_block_count (area_of b k n) - 1\<rparr>))"
    using assms(2) by (simp add: b4_def area_mut_area [OF w3] a3 fun_eq_iff)
  have c4: "same_counters b b4"
    using assms(1) w3 by (auto simp: same_counters_def b4_def b3_def b2_def b1_def)
  let ?link = "if u = INVALID_PFN then
        sbind (sget (\<lambda>self. fa_head (area_of self k n))) (\<lambda>head.
          if head \<noteq> p then sfail CorruptFreeList else smodify (area_mut k n (\<lambda>a. a\<lparr>fa_head := v\<rparr>)))
      else page_mut u (\<lambda>page. page\<lparr>pg_next := v\<rparr>)"
  let ?rev = "swhen (v \<noteq> INVALID_PFN) (page_mut v (\<lambda>page. page\<lparr>pg_previous := u\<rparr>))"
  let ?clear = "page_mut p (\<lambda>page. page\<lparr>pg_previous := INVALID_PFN, pg_next := INVALID_PFN\<rparr>)"
  let ?count = "sbind (sread (\<lambda>self. ok_or (checked_sub (fa_block_count (area_of self k n)) 1) CorruptFreeList)) (\<lambda>blocks.
         smodify (area_mut k n (\<lambda>a. a\<lparr>fa_block_count := blocks\<rparr>)))"
  have step1: "sseq ?link kk b = kk b1" for kk :: "(BuddyAllocator, unit, BuddyError) action"
    using assms(8) by (auto simp: b1_def sseq_def sbind_def sget_def smodify_def page_mut_managed)
  have step2: "sseq ?rev kk b1 = kk b2" for kk :: "(BuddyAllocator, unit, BuddyError) action"
    using assms(9) m by (auto simp: b2_def sseq_def sbind_def swhen_def sreturn_def page_mut_managed)
  have step3: "sseq ?clear kk b2 = kk b3" for kk :: "(BuddyAllocator, unit, BuddyError) action"
    using assms(3) m by (simp add: b3_def sseq_def sbind_def page_mut_managed)
  have step4: "?count b3 = (Ok (), b4)"
    using assms(10) by (simp add: a3 checked_sub_def b4_def sbind_def sread_def smodify_def)
  have "remove_free_block p n k b = sseq ?link (sseq ?rev (sseq ?clear ?count)) b"
    by (simp add: remove_free_block_def buddy_page_managed [OF assms(3)] assms(4-7) Let_def)
  also have "\<dots> = (Ok (), b4)" by (simp only: step1 step2 step3 step4)
  finally have "remove_free_block p n k b = (Ok (), b4)" .
  then show ?thesis using s4 c4 v4 a4 by (rule that)
qed

lemma free_lists_del:
  assumes "buddy_wf b" "free_lists b fl H" "p \<in> set (fl k n)" "fl k n = us @ p # vs"
    and "same_shape b b'" "pv b' = unlink (pv b) p INVALID_PFN (final INVALID_PFN us) (first vs INVALID_PFN)"
    and "area_of b' = (area_of b)(k := (area_of b k)(n :=
       \<lparr>fa_head = first (us @ vs) INVALID_PFN, fa_block_count = length (us @ vs)\<rparr>))"
  shows "free_lists b' (del fl k n p) (H \<union> block p n)"
proof -
  note d = free_listsD [OF assms(2)]
  have n: "n < MAX_ORDER" by (rule d(4) [OF assms(3)])
  have ok: "flist_ok b (area_of b k n) (us @ p # vs)" using d(1) [OF n] assms(4) by metis
  have notin: "p \<notin> set us" using ok by (auto simp: flist_ok_def)
  have delkn: "del fl k n p k n = us @ vs" using notin by (simp add: del_def assms(4) remove1_append)
  have other: "del fl k n p k' m = fl k' m" if "k' \<noteq> k \<or> m \<noteq> n" for k' m using that by (auto simp: del_def)
  have marks: "marks (pv b' q) = marks (pv b q)" for q by (simp add: assms(6))
  have inv: "INVALID_PFN \<notin> set (us @ p # vs)" using INVALID_not_listed [OF assms(1,2), of k n] assms(4) by simp
  have areas: "flist_ok b' (area_of b' k' m) (del fl k n p k' m)" if "m < MAX_ORDER" for k' m
  proof (cases "k' = k \<and> m = n")
    case True
    then show ?thesis
      using links_unlink [OF _ _ inv] ok delkn by (auto simp: flist_ok_def assms(6,7))
  next
    case False
    have "x \<noteq> p \<and> x \<noteq> final INVALID_PFN us \<and> x \<noteq> first vs INVALID_PFN" if x: "x \<in> set (fl k' m)" for x
    proof -
      have "x \<notin> set (us @ p # vs)"
        using free_lists_same_page [OF assms(1,2) x, of k n] False assms(4) by auto
      moreover have "x \<noteq> INVALID_PFN" using INVALID_not_listed [OF assms(1,2)] x by blast
      moreover have "final INVALID_PFN us \<in> insert INVALID_PFN (set us)" by (simp add: final_def)
      moreover have "first vs INVALID_PFN \<in> insert INVALID_PFN (set vs)" by (cases vs) simp_all
      ultimately show ?thesis by auto
    qed
    then have "links (pv b') INVALID_PFN (fl k' m) INVALID_PFN = links (pv b) INVALID_PFN (fl k' m) INVALID_PFN"
      by (intro links_cong) (simp add: assms(6) unlink_frame)
    with d(1) [OF that, of k'] show ?thesis
      using False by (auto simp: flist_ok_def other assms(7))
  qed
  have sub: "set (del fl k n p k' m) \<subseteq> set (fl k' m)" for k' m
    using set_remove1_subset [of p "fl k n"] by (auto simp: del_def)
  have blocks: "free_block b' k' q m \<and> block q m \<inter> (H \<union> block p n) = {}" if q: "q \<in> set (del fl k n p k' m)" for k' m q
  proof -
    have q': "q \<in> set (fl k' m)" using sub q by blast
    have "\<not> (q = p \<and> m = n \<and> k' = k)"
      using q delkn ok by (auto simp: flist_ok_def)
    then have "block q m \<inter> block p n = {}" using free_lists_unique [OF assms(1,2) q' assms(3)] by blast
    with d(2,3) [OF q'] show ?thesis using free_block_marks [OF assms(5) marks] by auto
  qed
  have cover: "\<exists>k' m r. r \<in> set (del fl k n p k' m) \<and> q \<in> block r m"
    if q: "q \<in> managed b'" "q \<notin> H \<union> block p n" "is_free b' q" for q
  proof -
    have "q \<in> managed b" "is_free b q"
      using q same_shape_managed [OF assms(5)] is_free_marks [of b' q b] marks by auto
    then obtain k' m r where r: "r \<in> set (fl k' m)" "q \<in> block r m" using d(5) q(2) by blast
    moreover have "r \<in> set (del fl k n p k' m)"
      using r q(2) delkn assms(4) other [of k' m] by (cases "k' = k \<and> m = n") auto
    ultimately show ?thesis by blast
  qed
  have big: "del fl k n p k' m = []" if "MAX_ORDER \<le> m" for k' m
    using assms(2) that n by (auto simp: del_def free_lists_def)
  show ?thesis
    unfolding free_lists_def using areas blocks cover big by blast
qed

lemma remove_free_block_Ok:
  assumes "buddy_wf b" "free_lists b fl H" "p \<in> set (fl k n)"
  obtains b' where "remove_free_block p n k b = (Ok (), b')" "same_shape b b'" "same_counters b b'"
    "\<And>q. marks (pv b' q) = marks (pv b q)" "free_lists b' (del fl k n p) (H \<union> block p n)"
proof -
  note d = free_listsD [OF assms(2)]
  have n: "n < MAX_ORDER" by (rule d(4) [OF assms(3)])
  obtain us vs where split: "fl k n = us @ p # vs" using split_list [OF assms(3)] by blast
  have ok: "flist_ok b (area_of b k n) (us @ p # vs)" using d(1) [OF n] split by metis
  then have lk: "links (pv b) INVALID_PFN (us @ p # vs) INVALID_PFN" by (simp add: flist_ok_def)
  note nb = links_neighbours [OF lk]
  have listed: "x \<in> managed b" if "x \<in> set (us @ p # vs)" for x
    using free_list_managed [OF assms(1,2), of x k n] that split by simp
  have inv: "INVALID_PFN \<notin> set (us @ p # vs)" using INVALID_not_listed [OF assms(1,2), of k n] split by simp
  note fb = d(2) [OF assms(3), unfolded free_block_def]
  have st: "pg_state (pv b p) = FreeHead" "pg_order (pv b p) = n" using fb by auto
  have pm: "p \<in> managed b" using listed by simp
  have us: "final INVALID_PFN us = INVALID_PFN \<longleftrightarrow> us = []"
    using inv unfolding final_def by (metis Un_iff last_in_set set_append)
  have c1: "if final INVALID_PFN us = INVALID_PFN then fa_head (area_of b k n) = p else final INVALID_PFN us \<in> managed b"
    using ok listed us last_in_set [of us] by (auto simp: flist_ok_def final_def)
  have c2: "first vs INVALID_PFN = INVALID_PFN \<or> first vs INVALID_PFN \<in> managed b"
    using listed by (cases vs) auto
  have c3: "0 < fa_block_count (area_of b k n)" using ok by (simp add: flist_ok_def)
  obtain b' where b': "remove_free_block p n k b = (Ok (), b')" "same_shape b b'" "same_counters b b'"
    "pv b' = unlink (pv b) p INVALID_PFN (final INVALID_PFN us) (first vs INVALID_PFN)"
    "area_of b' = (area_of b)(k := (area_of b k)(n :=
       \<lparr>fa_head = (if final INVALID_PFN us = INVALID_PFN then first vs INVALID_PFN else fa_head (area_of b k n)),
        fa_block_count = fa_block_count (area_of b k n) - 1\<rparr>))"
    by (rule remove_free_block_state [OF assms(1) n pm st nb c1 c2 c3])
  have a': "area_of b' = (area_of b)(k := (area_of b k)(n :=
       \<lparr>fa_head = first (us @ vs) INVALID_PFN, fa_block_count = length (us @ vs)\<rparr>))"
    using ok us by (simp add: b'(5) flist_ok_def first_append) (cases us, simp_all)
  have "free_lists b' (del fl k n p) (H \<union> block p n)"
    by (rule free_lists_del [OF assms split b'(2,4) a'])
  with b' show ?thesis by (intro that) simp_all
qed

section \<open>Putting a block on its list\<close>

definition ins :: "lists \<Rightarrow> ZoneKind \<Rightarrow> nat \<Rightarrow> nat \<Rightarrow> lists" where
  "ins fl k n p = fl(k := (fl k)(n := p # fl k n))"

text \<open>Pages in \<open>H\<close> may change freely.\<close>

lemma free_lists_change:
  assumes "free_lists b fl H" "same_shape b b'" "area_of b' = area_of b" "\<And>q. q \<notin> H \<Longrightarrow> pv b' q = pv b q"
  shows "free_lists b' fl H"
proof -
  note d = free_listsD [OF assms(1)]
  have listed: "q \<notin> H" if "p \<in> set (fl k n)" "q \<in> block p n" for p q k n using d(3) that by blast
  have areas: "flist_ok b' (area_of b' k n) (fl k n)" if "n < MAX_ORDER" for k n
  proof -
    have "links (pv b') INVALID_PFN (fl k n) INVALID_PFN = links (pv b) INVALID_PFN (fl k n) INVALID_PFN"
      using assms(4) listed block_start by (intro links_cong) auto
    with d(1) [OF that, of k] show ?thesis by (simp add: flist_ok_def assms(3))
  qed
  have blocks: "free_block b' k p n \<and> block p n \<inter> H = {}" if "p \<in> set (fl k n)" for k n p
    using d(2,3) [OF that] free_block_marks [OF assms(2), of p n k] assms(4) listed [OF that] by auto
  have "is_free b' q = is_free b q" if "q \<notin> H" for q using assms(4) [OF that] by (simp add: is_free_def)
  then show ?thesis
    using areas blocks assms(1) same_shape_managed [OF assms(2)] unfolding free_lists_def by auto
qed

lemma list_room:
  assumes "buddy_wf b" "free_lists b fl H" "p \<in> managed b" "p \<notin> set (fl k n)"
  shows "length (fl k n) + 1 \<le> usize_MAX"
proof -
  have "insert p (set (fl k n)) \<subseteq> managed b" using assms free_list_managed by blast
  then have "card (insert p (set (fl k n))) \<le> card (managed b)" by (rule card_mono [rotated]) (simp add: managed_def)
  moreover have "card (insert p (set (fl k n))) = length (fl k n) + 1"
    using assms(4) free_lists_distinct [OF assms(2)] by (simp add: distinct_card)
  moreover have "card (managed b) = ba_page_count b" by (simp add: managed_def)
  moreover have "ba_page_count b \<le> usize_MAX"
    using assms(1) by (auto simp: buddy_wf_def PAGE_SIZE_eq)
  ultimately show ?thesis by simp
qed

lemma insert_free_block_state:
  assumes "buddy_wf b" "n < MAX_ORDER" "p \<in> managed b" "fa_head (area_of b k n) = h"
    and "h = INVALID_PFN \<or> h \<in> managed b" "fa_block_count (area_of b k n) + 1 \<le> usize_MAX"
  obtains b' where "insert_free_block p n k b = (Ok (), b')" "same_shape b b'" "same_counters b b'"
    "pv b' = push (pv b) p INVALID_PFN h"
    "area_of b' = (area_of b)(k := (area_of b k)(n :=
       \<lparr>fa_head = p, fa_block_count = fa_block_count (area_of b k n) + 1\<rparr>))"
proof -
  define b1 where "b1 = set_page p (\<lambda>page. page\<lparr>pg_previous := INVALID_PFN, pg_next := h\<rparr>) b"
  define b2 where "b2 = (if h = INVALID_PFN then b1 else set_page h (\<lambda>page. page\<lparr>pg_previous := p\<rparr>) b1)"
  define b3 where "b3 = area_mut k n (\<lambda>a. a\<lparr>fa_head := p\<rparr>) b2"
  define b4 where "b4 = area_mut k n (\<lambda>a. a\<lparr>fa_block_count := fa_block_count (area_of b k n) + 1\<rparr>) b3"
  have s1: "same_shape b b1" using set_page_shape by (simp add: b1_def)
  have w1: "buddy_wf b1" by (rule same_shape_wf [OF s1 assms(1)])
  have s2: "same_shape b b2" using s1 same_shape_trans set_page_shape by (auto simp: b2_def)
  have w2: "buddy_wf b2" by (rule same_shape_wf [OF s2 assms(1)])
  have s3: "same_shape b b3" using s2 same_shape_trans area_mut_shape [OF w2] by (auto simp: b3_def)
  have w3: "buddy_wf b3" by (rule same_shape_wf [OF s3 assms(1)])
  have s4: "same_shape b b4" using s3 same_shape_trans area_mut_shape [OF w3] by (auto simp: b4_def)
  have m: "managed b1 = managed b" using s1 same_shape_managed by blast
  have v1: "pv b1 = (pv b)(p := (pv b p)\<lparr>pg_previous := INVALID_PFN, pg_next := h\<rparr>)"
    using assms(1,3) by (simp add: b1_def set_page_view)
  have v4: "pv b4 = push (pv b) p INVALID_PFN h"
    using assms(5) m by (auto simp: b4_def b3_def b2_def set_page_view [OF w1] push_def Let_def v1)
  have a2: "area_of b2 = area_of b" by (simp add: b2_def b1_def)
  have a3: "area_of b3 = (area_of b)(k := (area_of b k)(n := (area_of b k n)\<lparr>fa_head := p\<rparr>))"
    using assms(2) by (simp add: b3_def area_mut_area [OF w2] a2)
  have a4: "area_of b4 = (area_of b)(k := (area_of b k)(n :=
      \<lparr>fa_head = p, fa_block_count = fa_block_count (area_of b k n) + 1\<rparr>))"
    using assms(2) by (simp add: b4_def area_mut_area [OF w3] a3 fun_eq_iff)
  have c4: "same_counters b b4"
    using w2 w3 by (auto simp: same_counters_def b4_def b3_def b2_def b1_def)
  let ?rev = "swhen (h \<noteq> INVALID_PFN) (page_mut h (\<lambda>page. page\<lparr>pg_previous := p\<rparr>))"
  have step1: "page_mut p (\<lambda>page. page\<lparr>pg_previous := INVALID_PFN, pg_next := h\<rparr>) b = (Ok (), b1)"
    using assms(3) by (simp add: b1_def page_mut_managed)
  have step2: "sseq ?rev kk b1 = kk b2" for kk :: "(BuddyAllocator, unit, BuddyError) action"
    using assms(5) m by (auto simp: b2_def sseq_def sbind_def swhen_def sreturn_def page_mut_managed)
  have step3: "sbind (sread (\<lambda>self. ok_or (checked_add (fa_block_count (area_of self k n)) 1) CorruptFreeList)) (\<lambda>blocks.
      smodify (area_mut k n (\<lambda>a. a\<lparr>fa_block_count := blocks\<rparr>))) b3 = (Ok (), b4)"
    using assms(6) by (simp add: a3 checked_add_def b4_def sbind_def sread_def smodify_def)
  have "insert_free_block p n k b =
      sseq ?rev (sseq (smodify (area_mut k n (\<lambda>a. a\<lparr>fa_head := p\<rparr>)))
        (sbind (sread (\<lambda>self. ok_or (checked_add (fa_block_count (area_of self k n)) 1) CorruptFreeList)) (\<lambda>blocks.
           smodify (area_mut k n (\<lambda>a. a\<lparr>fa_block_count := blocks\<rparr>))))) b1"
    unfolding insert_free_block_def using step1 assms(4) by (simp add: sseq_Ok)
  also have "\<dots> = (Ok (), b4)" by (simp only: step2 sseq_smodify b3_def [symmetric] step3)
  finally show ?thesis using s4 c4 v4 a4 by (rule that)
qed

lemma free_lists_ins:
  assumes "buddy_wf b" "free_lists b fl H" "n < MAX_ORDER" "free_block b k p n" "block p n \<subseteq> H"
    and "same_shape b b'" "pv b' = push (pv b) p INVALID_PFN (first (fl k n) INVALID_PFN)"
    and "area_of b' = (area_of b)(k := (area_of b k)(n := \<lparr>fa_head = p, fa_block_count = length (fl k n) + 1\<rparr>))"
  shows "free_lists b' (ins fl k n p) (H - block p n)"
proof -
  note d = free_listsD [OF assms(2)]
  have pH: "p \<in> H" using assms(5) block_start by blast
  have notin: "p \<notin> set (fl k' m)" for k' m using d(3) [of p k' m] pH block_start by blast
  have other: "ins fl k n p k' m = fl k' m" if "k' \<noteq> k \<or> m \<noteq> n" for k' m using that by (auto simp: ins_def)
  have marks: "marks (pv b' q) = marks (pv b q)" for q by (simp add: assms(7))
  have pm: "p \<in> managed b" using free_block_managed [OF assms(1,4)] block_start by blast
  have inv: "INVALID_PFN \<notin> set (p # fl k n)"
    using INVALID_not_listed [OF assms(1,2)] managed_bound(1) [OF assms(1) pm] by auto
  have areas: "flist_ok b' (area_of b' k' m) (ins fl k n p k' m)" if m: "m < MAX_ORDER" for k' m
  proof (cases "k' = k \<and> m = n")
    case True
    then show ?thesis
      using links_push [OF _ _ inv] d(1) [OF assms(3), of k] notin
      by (auto simp: flist_ok_def assms(7,8) ins_def)
  next
    case False
    have "x \<noteq> p \<and> (first (fl k n) INVALID_PFN = INVALID_PFN \<or> x \<noteq> first (fl k n) INVALID_PFN)"
      if x: "x \<in> set (fl k' m)" for x
      using free_lists_same_page [OF assms(1,2) x, of k n] False notin x by (cases "fl k n") auto
    then have "links (pv b') INVALID_PFN (fl k' m) INVALID_PFN = links (pv b) INVALID_PFN (fl k' m) INVALID_PFN"
      by (intro links_cong) (simp add: assms(7) push_frame)
    with d(1) [OF m, of k'] show ?thesis
      using False by (auto simp: flist_ok_def other assms(8))
  qed
  have blocks: "free_block b' k' q m \<and> block q m \<inter> (H - block p n) = {}" if q: "q \<in> set (ins fl k n p k' m)" for k' m q
    using q assms(4) d(2,3) [of q k' m] free_block_marks [OF assms(6) marks]
    by (auto simp: ins_def split: if_splits)
  have cover: "\<exists>k' m r. r \<in> set (ins fl k n p k' m) \<and> q \<in> block r m"
    if q: "q \<in> managed b'" "q \<notin> H - block p n" "is_free b' q" for q
  proof (cases "q \<in> block p n")
    case True
    moreover have "p \<in> set (ins fl k n p k n)" by (simp add: ins_def)
    ultimately show ?thesis by blast
  next
    case False
    have "q \<in> managed b" "is_free b q"
      using q same_shape_managed [OF assms(6)] is_free_marks [of b' q b] marks by auto
    then obtain k' m r where r: "r \<in> set (fl k' m)" "q \<in> block r m" using d(5) q(2) False by blast
    then have "r \<in> set (ins fl k n p k' m)" by (auto simp: ins_def)
    with r(2) show ?thesis by blast
  qed
  have big: "ins fl k n p k' m = []" if "MAX_ORDER \<le> m" for k' m
    using assms(2,3) that by (auto simp: ins_def free_lists_def)
  show ?thesis
    unfolding free_lists_def using areas blocks cover big by blast
qed

lemma insert_free_block_Ok:
  assumes "buddy_wf b" "free_lists b fl H" "n < MAX_ORDER" "free_block b k p n" "block p n \<subseteq> H"
  obtains b' where "insert_free_block p n k b = (Ok (), b')" "same_shape b b'" "same_counters b b'"
    "\<And>q. marks (pv b' q) = marks (pv b q)" "free_lists b' (ins fl k n p) (H - block p n)"
proof -
  note d = free_listsD [OF assms(2)]
  have pm: "p \<in> managed b" using free_block_managed [OF assms(1,4)] block_start by blast
  have notin: "p \<notin> set (fl k n)" using d(3) [of p k n] assms(5) block_start by blast
  have ok: "flist_ok b (area_of b k n) (fl k n)" by (rule d(1) [OF assms(3)])
  then have h: "fa_head (area_of b k n) = first (fl k n) INVALID_PFN"
    and c: "fa_block_count (area_of b k n) = length (fl k n)" by (simp_all add: flist_ok_def)
  have hm: "first (fl k n) INVALID_PFN = INVALID_PFN \<or> first (fl k n) INVALID_PFN \<in> managed b"
    using free_list_managed [OF assms(1,2), of _ k n] by (cases "fl k n") auto
  have room: "fa_block_count (area_of b k n) + 1 \<le> usize_MAX"
    using list_room [OF assms(1,2) pm notin] c by simp
  obtain b' where b': "insert_free_block p n k b = (Ok (), b')" "same_shape b b'" "same_counters b b'"
    "pv b' = push (pv b) p INVALID_PFN (first (fl k n) INVALID_PFN)"
    "area_of b' = (area_of b)(k := (area_of b k)(n := \<lparr>fa_head = p, fa_block_count = fa_block_count (area_of b k n) + 1\<rparr>))"
    by (rule insert_free_block_state [OF assms(1,3) pm h hm room])
  from free_lists_ins [OF assms b'(2,4) b'(5) [unfolded c]] b' show ?thesis by (intro that) simp_all
qed

text \<open>Marking the pages of \<open>H\<close> as a free block.\<close>

lemma mark_free_block_Ok:
  assumes "buddy_wf b" "free_lists b fl H" "2 ^ n dvd p" "block p n \<subseteq> zone_pfns b k" "block p n \<subseteq> H"
  obtains b' where "mark_free_block p n k b = (Ok (), b')" "same_shape b b'" "same_counters b b'"
    "free_lists b' fl H" "free_block b' k p n" "\<And>q. q \<notin> block p n \<Longrightarrow> pv b' q = pv b q"
    "\<And>q. q \<in> block p n \<Longrightarrow> is_free b' q"
proof -
  have "block p n \<subseteq> managed b" using assms(1,4) zone_pfns_managed by blast
  then obtain b' where b': "mark_free_block p n k b = (Ok (), b')" "same_shape b b'" "zone_of b' = zone_of b"
    "pv b' = (\<lambda>q. if q \<in> block p n then (pv b q)
       \<lparr>pg_state := (if q - p = 0 then FreeHead else FreeTail), pg_order := (if q - p = 0 then n else INVALID_ORDER),
        pg_zone := ZoneKind_index k, pg_next := INVALID_PFN, pg_previous := INVALID_PFN, pg_reference_count := 0\<rparr>
       else pv b q)"
    unfolding mark_free_block_def by (rule mark_block_Ok [OF assms(1)])
  have area: "area_of b' = area_of b" using b'(3) by (simp add: area_of_def fun_eq_iff)
  have "pv b' q = pv b q" if "q \<notin> H" for q using that assms(5) by (auto simp: b'(4))
  then have "free_lists b' fl H" by (rule free_lists_change [OF assms(2) b'(2) area])
  moreover have "pg_state (pv b' q) = FreeTail" if "q \<in> block p n - {p}" for q
    using that by (auto simp: b'(4) block_def)
  then have "free_block b' k p n"
    using assms(3,4) same_shape_zone_pfns [OF b'(2)] by (simp add: free_block_def b'(4))
  moreover have "same_counters b b'" by (simp add: same_counters_def b'(3))
  ultimately show ?thesis using b' by (intro that [of b']) (auto simp: is_free_def)
qed

end
