(* ===== verification/Buddy_Blocks.thy ===== *)
theory Buddy_Blocks
  imports Buddy_Free
begin

text \<open>
  Splitting and merging of buddy blocks: the loops of \<open>allocate_from_zone\<close> and \<open>coalesce_and_insert\<close>,
  and the completeness of a fully merged set of free blocks.
\<close>

text \<open>No two buddies are free blocks of the same order.\<close>

definition coalesced :: "lists \<Rightarrow> bool" where
  "coalesced fl \<longleftrightarrow> (\<forall>k n p. Suc n < MAX_ORDER \<longrightarrow> p \<in> set (fl k n) \<longrightarrow> p XOR 2 ^ n \<notin> set (fl k n))"

lemma coalesced_del: "coalesced fl \<Longrightarrow> coalesced (del fl k n p)"
  using set_remove1_subset [of p "fl k n"] by (auto simp: coalesced_def del_def)

lemma coalesced_ins:
  assumes "coalesced fl" "2 ^ n dvd p" "Suc n < MAX_ORDER \<Longrightarrow> p XOR 2 ^ n \<notin> set (fl k n)"
  shows "coalesced (ins fl k n p)"
proof -
  have "q XOR 2 ^ n \<noteq> p" if "q \<in> set (fl k n)" "Suc n < MAX_ORDER" for q
  proof
    assume "q XOR 2 ^ n = p"
    then have "p XOR 2 ^ n = q" by (auto simp: xor.assoc)
    with assms(3) that show False by simp
  qed
  with assms buddy_of_block(2) [OF assms(2)] show ?thesis
    by (auto simp: coalesced_def ins_def)
qed

text \<open>Pages that are not marked free can enter and leave the set of pages in progress.\<close>

lemma free_lists_add:
  assumes "free_lists b fl {}" "\<And>q. q \<in> H \<Longrightarrow> \<not> is_free b q"
  shows "free_lists b fl H"
proof -
  have "block p n \<inter> H = {}" if "p \<in> set (fl k n)" for k n p
  proof -
    note fb = free_listsD(2) [OF assms(1) that]
    have "is_free b q" if "q \<in> block p n" for q
      using fb that by (cases "q = p") (auto simp: free_block_def is_free_def)
    with assms(2) show ?thesis by blast
  qed
  with assms(1) show ?thesis by (auto simp: free_lists_def)
qed

lemma free_lists_drop:
  assumes "free_lists b fl H" "\<And>q. q \<in> H \<Longrightarrow> \<not> is_free b q"
  shows "free_lists b fl {}"
  using assms unfolding free_lists_def by blast

section \<open>Merging\<close>

lemma coalesce_loop_Ok:
  assumes "buddy_wf b" "free_lists b fl (block p n)" "coalesced fl" "n < MAX_ORDER" "2 ^ n dvd p"
    and "block p n \<subseteq> zone_pfns b k"
  shows "\<exists>b' q m fl'. coalesce_loop p n k b = (Ok (q, m), b') \<and> same_shape b b' \<and> same_counters b b'
    \<and> (\<forall>x. marks (pv b' x) = marks (pv b x)) \<and> free_lists b' fl' (block q m) \<and> coalesced fl'
    \<and> m < MAX_ORDER \<and> 2 ^ m dvd q \<and> block q m \<subseteq> zone_pfns b k \<and> block p n \<subseteq> block q m
    \<and> (\<forall>x \<in> block q m - block p n. is_free b x)
    \<and> (Suc m < MAX_ORDER \<longrightarrow> q XOR 2 ^ m \<notin> set (fl' k m))"
  using assms
proof (induction "MAX_ORDER - n" arbitrary: p n b fl rule: less_induct)
  case less
  let ?q = "p XOR 2 ^ n"
  note bud = buddy_of_block [OF less.prems(5)]
  have stop: ?case if "coalesce_loop p n k b = (Ok (p, n), b)" "Suc n < MAX_ORDER \<longrightarrow> ?q \<notin> set (fl k n)"
    by (rule exI [of _ b], rule exI [of _ p], rule exI [of _ n], rule exI [of _ fl])
      (use that less.prems in simp)
  show ?case
  proof (cases "Suc n < MAX_ORDER")
    case False
    then show ?thesis by (intro stop) (simp_all add: coalesce_loop.simps)
  next
    case order: True
    show ?thesis
    proof (cases "block ?q n \<subseteq> zone_pfns b k")
      case False
      then have "?q \<notin> set (fl k n)" using free_listsD(2) [OF less.prems(2)] unfolding free_block_def by blast
      moreover have "coalesce_loop p n k b = (Ok (p, n), b)"
        using False order block_in_zone [OF less.prems(1)] by (subst coalesce_loop.simps) (simp add: Let_def)
      ultimately show ?thesis by (intro stop) simp_all
    next
      case zone: True
      then have qm: "?q \<in> managed b" using zone_pfns_managed [OF less.prems(1)] block_start by blast
      show ?thesis
      proof (cases "pg_state (pv b ?q) = FreeHead \<and> pg_order (pv b ?q) = n")
        case False
        then have "?q \<notin> set (fl k n)" using free_listsD(2) [OF less.prems(2)] unfolding free_block_def by blast
        moreover have "coalesce_loop p n k b = (Ok (p, n), b)"
          using False order zone block_in_zone [OF less.prems(1)] buddy_page_managed [OF qm]
          by (subst coalesce_loop.simps) (auto simp: Let_def)
        ultimately show ?thesis by (intro stop) simp_all
      next
        case free: True
        have "?q \<in> zone_pfns b k" "?q \<notin> block p n" using zone bud(6) block_start by blast+
        then have listed: "?q \<in> set (fl k n)"
          using free_head_listed [OF less.prems(1,2)] free by metis
        obtain b1 where b1: "remove_free_block ?q n k b = (Ok (), b1)" "same_shape b b1" "same_counters b b1"
          "\<And>x. marks (pv b1 x) = marks (pv b x)" "free_lists b1 (del fl k n ?q) (block p n \<union> block ?q n)"
          by (rule remove_free_block_Ok [OF less.prems(1,2) listed]) blast
        have step: "coalesce_loop p n k b = coalesce_loop (min p ?q) (Suc n) k b1"
          using free order zone block_in_zone [OF less.prems(1)] buddy_page_managed [OF qm] b1(1)
          by (subst coalesce_loop.simps) (simp add: Let_def)
        have fr: "is_free b x" if "x \<in> block ?q n" for x
          using free_listsD(2) [OF less.prems(2) listed] that
          by (cases "x = ?q") (auto simp: free_block_def is_free_def)
        have sh: "block (min p ?q) (Suc n) \<subseteq> zone_pfns b1 k"
          using zone less.prems(6) bud(5) same_shape_zone_pfns [OF b1(2)] by auto
        have "\<exists>b' q m fl'. coalesce_loop (min p ?q) (Suc n) k b1 = (Ok (q, m), b') \<and> same_shape b1 b' \<and> same_counters b1 b'
          \<and> (\<forall>x. marks (pv b' x) = marks (pv b1 x)) \<and> free_lists b' fl' (block q m) \<and> coalesced fl'
          \<and> m < MAX_ORDER \<and> 2 ^ m dvd q \<and> block q m \<subseteq> zone_pfns b1 k \<and> block (min p ?q) (Suc n) \<subseteq> block q m
          \<and> (\<forall>x \<in> block q m - block (min p ?q) (Suc n). is_free b1 x)
          \<and> (Suc m < MAX_ORDER \<longrightarrow> q XOR 2 ^ m \<notin> set (fl' k m))"
          by (rule less.hyps)
            (use order b1(5) bud(4,5) sh same_shape_wf [OF b1(2) less.prems(1)] coalesced_del [OF less.prems(3)] in simp_all)
        then obtain b' q m fl' where res: "coalesce_loop (min p ?q) (Suc n) k b1 = (Ok (q, m), b')"
          "same_shape b1 b'" "same_counters b1 b'" "\<And>x. marks (pv b' x) = marks (pv b1 x)"
          "free_lists b' fl' (block q m)" "coalesced fl'" "m < MAX_ORDER" "2 ^ m dvd q"
          "block q m \<subseteq> zone_pfns b1 k" "block (min p ?q) (Suc n) \<subseteq> block q m"
          "\<And>x. x \<in> block q m - block (min p ?q) (Suc n) \<Longrightarrow> is_free b1 x"
          "Suc m < MAX_ORDER \<longrightarrow> q XOR 2 ^ m \<notin> set (fl' k m)" by blast
        have "is_free b x" if "x \<in> block q m - block p n" for x
          using that res(11) [of x] fr [of x] bud(5) is_free_marks [OF b1(4)] by blast
        moreover have "same_shape b b'" "same_counters b b'"
          using b1(2,3) res(2,3) same_shape_trans same_counters_trans by blast+
        moreover have "block p n \<subseteq> block q m" using res(10) bud(5) by blast
        moreover have "block q m \<subseteq> zone_pfns b k" using res(9) same_shape_zone_pfns [OF b1(2)] by simp
        ultimately show ?thesis
          unfolding step res(1) using b1(4) res(4-8,12) by fastforce
      qed
    qed
  qed
qed

text \<open>Freeing a block that is marked otherwise: exactly its pages become free.\<close>

lemma coalesce_and_insert_Ok:
  assumes "buddy_wf b" "free_lists b fl (block p n)" "coalesced fl" "n < MAX_ORDER" "2 ^ n dvd p"
    and "block p n \<subseteq> zone_pfns b k"
  obtains b' fl' where "coalesce_and_insert p n k b = (Ok (), b')" "same_shape b b'" "same_counters b b'"
    "free_lists b' fl' {}" "coalesced fl'" "\<And>x. is_free b' x \<longleftrightarrow> is_free b x \<or> x \<in> block p n"
    "\<And>x. \<not> is_free b' x \<Longrightarrow> marks (pv b' x) = marks (pv b x)"
proof -
  obtain b1 q m fl1 where b1: "coalesce_loop p n k b = (Ok (q, m), b1)" "same_shape b b1" "same_counters b b1"
    "\<And>x. marks (pv b1 x) = marks (pv b x)" "free_lists b1 fl1 (block q m)" "coalesced fl1"
    and q: "m < MAX_ORDER" "2 ^ m dvd q" "block q m \<subseteq> zone_pfns b k" "block p n \<subseteq> block q m"
    "\<And>x. x \<in> block q m - block p n \<Longrightarrow> is_free b x" "Suc m < MAX_ORDER \<longrightarrow> q XOR 2 ^ m \<notin> set (fl1 k m)"
    using coalesce_loop_Ok [OF assms] by blast
  have w1: "buddy_wf b1" by (rule same_shape_wf [OF b1(2) assms(1)])
  have z1: "block q m \<subseteq> zone_pfns b1 k" using q(3) same_shape_zone_pfns [OF b1(2)] by simp
  obtain b2 where b2: "mark_free_block q m k b1 = (Ok (), b2)" "same_shape b1 b2" "same_counters b1 b2"
    "free_lists b2 fl1 (block q m)" "free_block b2 k q m" "\<And>x. x \<notin> block q m \<Longrightarrow> pv b2 x = pv b1 x"
    "\<And>x. x \<in> block q m \<Longrightarrow> is_free b2 x"
    by (rule mark_free_block_Ok [OF w1 b1(5) q(2) z1 order_refl]) blast
  have w2: "buddy_wf b2" by (rule same_shape_wf [OF b2(2) w1])
  obtain b3 where b3: "insert_free_block q m k b2 = (Ok (), b3)" "same_shape b2 b3" "same_counters b2 b3"
    "\<And>x. marks (pv b3 x) = marks (pv b2 x)" "free_lists b3 (ins fl1 k m q) (block q m - block q m)"
    by (rule insert_free_block_Ok [OF w2 b2(4) q(1) b2(5) order_refl]) blast
  have run: "coalesce_and_insert p n k b = (Ok (), b3)"
    by (simp add: coalesce_and_insert_def sbind_def sseq_def b1(1) b2(1) b3(1))
  have shape: "same_shape b b3" "same_counters b b3"
    using b1(2,3) b2(2,3) b3(2,3) same_shape_trans same_counters_trans by blast+
  have inside: "is_free b3 x" if "x \<in> block q m" for x using b2(7) [OF that] is_free_marks [OF b3(4)] by simp
  have outside: "marks (pv b3 x) = marks (pv b x)" if "x \<notin> block q m" for x
    using b2(6) [OF that] b3(4) b1(4) by simp
  have "is_free b3 x \<longleftrightarrow> is_free b x \<or> x \<in> block p n" for x
    using inside [of x] is_free_marks [OF outside, of x] q(4) q(5) [of x] by blast
  moreover have "marks (pv b3 x) = marks (pv b x)" if "\<not> is_free b3 x" for x
    using outside inside that by blast
  moreover have "coalesced (ins fl1 k m q)" using coalesced_ins [OF b1(6) q(2)] q(6) by blast
  moreover have "free_lists b3 (ins fl1 k m q) {}" using b3(5) by simp
  ultimately show ?thesis using run shape by (intro that [of b3 "ins fl1 k m q"]) blast+
qed

section \<open>Splitting\<close>

lemma split_loop_Ok:
  assumes "buddy_wf b" "free_lists b fl (block p n)" "coalesced fl" "n < MAX_ORDER" "2 ^ n dvd p"
    and "block p n \<subseteq> zone_pfns b k" "r \<le> n"
  shows "\<exists>b' fl'. split_loop r p n k b = (Ok (), b') \<and> same_shape b b' \<and> same_counters b b'
    \<and> free_lists b' fl' (block p r) \<and> coalesced fl' \<and> (\<forall>x. x \<notin> block p n \<longrightarrow> marks (pv b' x) = marks (pv b x))
    \<and> (\<forall>x \<in> block p n - block p r. is_free b' x)"
  using assms
proof (induction n arbitrary: b fl)
  case 0
  then show ?case by (auto simp: sreturn_def)
next
  case (Suc n)
  show ?case
  proof (cases "r < Suc n")
    case False
    with Suc.prems show ?thesis by (auto simp: sreturn_def le_Suc_eq)
  next
    case True
    let ?r = "p + 2 ^ n"
    note blk = block_split [of p n]
    have al: "2 ^ n dvd p" using Suc.prems(5) by (simp add: dvd_mult_right)
    then have alr: "2 ^ n dvd ?r" by simp
    have zr: "block ?r n \<subseteq> zone_pfns b k" using Suc.prems(6) blk by blast
    have "?r \<in> managed b" using zr zone_pfns_managed [OF Suc.prems(1)] block_start by blast
    then have add: "add_usize p (2 ^ n) = Ok ?r"
      using managed_bound(1) [OF Suc.prems(1), of ?r] by (simp add: add_usize_def checked_add_def INVALID_PFN_def)
    have sub: "block ?r n \<subseteq> block p (Suc n)" using blk by blast
    obtain b1 where b1: "mark_free_block ?r n k b = (Ok (), b1)" "same_shape b b1" "same_counters b b1"
      "free_lists b1 fl (block p (Suc n))" "free_block b1 k ?r n" "\<And>x. x \<notin> block ?r n \<Longrightarrow> pv b1 x = pv b x"
      "\<And>x. x \<in> block ?r n \<Longrightarrow> is_free b1 x"
      by (rule mark_free_block_Ok [OF Suc.prems(1,2) alr zr sub]) blast
    have w1: "buddy_wf b1" by (rule same_shape_wf [OF b1(2) Suc.prems(1)])
    have n: "n < MAX_ORDER" using Suc.prems(4) by simp
    obtain b2 where b2: "insert_free_block ?r n k b1 = (Ok (), b2)" "same_shape b1 b2" "same_counters b1 b2"
      "\<And>x. marks (pv b2 x) = marks (pv b1 x)" "free_lists b2 (ins fl k n ?r) (block p (Suc n) - block ?r n)"
      by (rule insert_free_block_Ok [OF w1 b1(4) n b1(5) sub]) blast
    have w2: "buddy_wf b2" by (rule same_shape_wf [OF b2(2) w1])
    have H: "block p (Suc n) - block ?r n = block p n" using blk by blast
    have xor: "?r XOR 2 ^ n = p"
    proof -
      have "even (p div 2 ^ n)" using Suc.prems(5) al by (auto simp: dvd_def)
      then have "p XOR 2 ^ n = ?r" using xor_power_of_two [OF al] by simp
      then show ?thesis by (metis xor.assoc xor.right_neutral xor_self_eq)
    qed
    have "p \<notin> set (fl k n)" using free_listsD(3) [OF Suc.prems(2)] block_start by blast
    then have co: "coalesced (ins fl k n ?r)" using coalesced_ins [OF Suc.prems(3) alr] xor by simp
    have zp: "block p n \<subseteq> zone_pfns b2 k"
      using Suc.prems(6) blk same_shape_zone_pfns [OF b1(2)] same_shape_zone_pfns [OF b2(2)] by auto
    from Suc.IH [OF w2 b2(5) [unfolded H] co n al zp] True
    obtain b' fl' where res: "split_loop r p n k b2 = (Ok (), b')" "same_shape b2 b'" "same_counters b2 b'"
      "free_lists b' fl' (block p r)" "coalesced fl'" "\<And>x. x \<notin> block p n \<Longrightarrow> marks (pv b' x) = marks (pv b2 x)"
      "\<And>x. x \<in> block p n - block p r \<Longrightarrow> is_free b' x"
      by auto
    have "split_loop r p (Suc n) k b = (Ok (), b')"
      using True by (simp add: sbind_def sseq_def slift_def add b1(1) b2(1) res(1))
    moreover have "marks (pv b' x) = marks (pv b x)" if "x \<notin> block p (Suc n)" for x
      using that blk res(6) [of x] b2(4) b1(6) [of x] by auto
    moreover have "is_free b' x" if "x \<in> block p (Suc n) - block p r" for x
    proof (cases "x \<in> block p n")
      case False
      with that blk have "is_free b1 x" using b1(7) by auto
      then show ?thesis using is_free_marks [OF res(6) [OF False]] is_free_marks [OF b2(4)] by simp
    qed (use that res(7) in blast)
    moreover have "same_shape b b'" "same_counters b b'"
      using b1(2,3) b2(2,3) res(2,3) same_shape_trans same_counters_trans by blast+
    ultimately show ?thesis using res(4,5) by auto
  qed
qed

section \<open>Completeness\<close>

text \<open>
  When no two buddies are free, an aligned block all of whose pages are free lies inside one free block:
  the largest request that the free pages can serve is served.
\<close>

lemma free_block_pages: "free_block b k p n \<Longrightarrow> q \<in> block p n \<Longrightarrow> is_free b q"
  by (cases "q = p") (auto simp: free_block_def is_free_def)

lemma aligned_free_block_listed:
  assumes "buddy_wf b" "free_lists b fl {}" "coalesced fl" "r < MAX_ORDER" "2 ^ r dvd p"
    and "block p r \<subseteq> zone_pfns b k" "\<And>q. q \<in> block p r \<Longrightarrow> is_free b q"
  shows "\<exists>n q. r \<le> n \<and> n < MAX_ORDER \<and> q \<in> set (fl k n) \<and> block p r \<subseteq> block q n"
proof (rule ccontr)
  assume none: "\<not> ?thesis"
  note d = free_listsD [OF assms(2)]
  have cover: "\<exists>n q. q \<in> set (fl k n) \<and> x \<in> block q n \<and> n < r \<and> block q n \<subseteq> block p r" if x: "x \<in> block p r" for x
  proof -
    have "x \<in> managed b" using x assms(1,6) zone_pfns_managed by blast
    then obtain k' n q where q: "q \<in> set (fl k' n)" "x \<in> block q n" using d(5) assms(7) [OF x] by blast
    note fb = d(2) [OF q(1)]
    have "k' = k" using zone_pfns_disjoint [OF assms(1) free_block_zone [OF fb q(2)]] assms(6) x by blast
    have al: "2 ^ n dvd q" using fb by (simp add: free_block_def)
    show ?thesis
    proof (cases "r \<le> n")
      case True
      with block_nested [OF assms(5) al] x q(2) have "block p r \<subseteq> block q n" by blast
      with none True q(1) d(4) \<open>k' = k\<close> show ?thesis by blast
    next
      case False
      with block_nested [OF al assms(5)] x q(2) have "block q n \<subseteq> block p r" by auto
      moreover have "n < r" using False by simp
      ultimately show ?thesis using q \<open>k' = k\<close> by blast
    qed
  qed
  define P where "P n \<longleftrightarrow> (\<exists>q. q \<in> set (fl k n) \<and> n < r \<and> block q n \<subseteq> block p r)" for n
  define n where "n = (LEAST n. P n)"
  have "\<exists>n. P n" using cover [OF block_start] by (auto simp: P_def)
  then have Pn: "P n" and least: "P m \<Longrightarrow> n \<le> m" for m
    unfolding n_def by (auto intro: LeastI_ex Least_le)
  then obtain q where q: "q \<in> set (fl k n)" "n < r" "block q n \<subseteq> block p r" by (auto simp: P_def)
  have alq: "2 ^ n dvd q" using d(2) [OF q(1)] by (simp add: free_block_def)
  let ?s = "q XOR 2 ^ n"
  note bud = buddy_of_block [OF alq]
  have "block (min q ?s) (Suc n) \<subseteq> block p r"
  proof (rule block_nested [OF bud(4) assms(5)])
    have "q \<in> block p r" using q(3) block_start by blast
    then show "block (min q ?s) (Suc n) \<inter> block p r \<noteq> {}" using bud(5) block_start by blast
  qed (use q(2) in simp)
  then have sub: "block ?s n \<subseteq> block p r" using bud(5) by blast
  then have sp: "?s \<in> block p r" using block_start by blast
  obtain m t where t: "t \<in> set (fl k m)" "?s \<in> block t m" "m < r" "block t m \<subseteq> block p r" using cover [OF sp] by blast
  have "n \<le> m" using t least by (auto simp: P_def)
  have alt: "2 ^ m dvd t" using d(2) [OF t(1)] by (simp add: free_block_def)
  have nest: "block ?s n \<subseteq> block t m" using block_nested [OF bud(1) alt \<open>n \<le> m\<close>] t(2) block_start by blast
  have "m = n"
  proof (rule ccontr)
    assume "m \<noteq> n"
    with \<open>n \<le> m\<close> have "Suc n \<le> m" by simp
    from block_nested [OF bud(4) alt this] bud(5) t(2) block_start
    have "block (min q ?s) (Suc n) \<subseteq> block t m" by blast
    then have "q \<in> block t m" using bud(5) block_start by blast
    with free_lists_unique [OF assms(1,2) q(1) t(1)] block_start \<open>m \<noteq> n\<close> show False by blast
  qed
  then have "t = ?s" using t(2) nest bud(1) alt block_nested [OF alt bud(1)] block_start
    by (metis block_def atLeastLessThan_iff order_antisym_conv subset_iff order_refl disjoint_iff)
  moreover have "Suc n < MAX_ORDER" using q(2) assms(4) by simp
  ultimately show False using assms(3) q(1) t(1) \<open>m = n\<close> by (auto simp: coalesced_def)
qed

end
