(* ===== verification/Buddy_Ops.thy ===== *)
theory Buddy_Ops
  imports Buddy_Blocks
begin

text \<open>
  The invariant of the buddy allocator and its public operations: allocation, the two-phase release and
  the reference counts. The abstraction of the state is the set of free pages; an allocation removes an
  aligned block from it, a release adds one.
\<close>

section \<open>Invariant\<close>

definition free_set :: "BuddyAllocator \<Rightarrow> ZoneKind \<Rightarrow> nat set" where
  "free_set b k = {p \<in> zone_pfns b k. is_free b p}"

definition present_set :: "BuddyAllocator \<Rightarrow> ZoneKind \<Rightarrow> nat set" where
  "present_set b k = {p \<in> zone_pfns b k. pg_state (pv b p) \<noteq> Absent}"

text \<open>The first page of an allocated block records an order to which it is aligned.\<close>

definition heads_ok :: "BuddyAllocator \<Rightarrow> bool" where
  "heads_ok b \<longleftrightarrow> (\<forall>p \<in> managed b. (pg_state (pv b p) = Allocated \<or> pg_state (pv b p) = Freeing)
     \<and> pg_order (pv b p) \<noteq> INVALID_ORDER \<longrightarrow> pg_order (pv b p) < MAX_ORDER \<and> 2 ^ pg_order (pv b p) dvd p)"

definition counters_ok :: "BuddyAllocator \<Rightarrow> bool" where
  "counters_ok b \<longleftrightarrow> (\<forall>k. zn_free_pages (zone_of b k) = card (free_set b k)
     \<and> zn_present_pages (zone_of b k) = card (present_set b k))"

definition buddy_inv :: "BuddyAllocator \<Rightarrow> bool" where
  "buddy_inv b \<longleftrightarrow> buddy_wf b \<and> heads_ok b \<and> counters_ok b \<and> (\<exists>fl. free_lists b fl {} \<and> coalesced fl)"

lemma finite_zone_pfns [simp]: "finite (zone_pfns b k)"
  by (simp add: zone_pfns_def)

lemma finite_free_set [simp]: "finite (free_set b k)"
  by (simp add: free_set_def)

lemma card_zone_bound:
  assumes "buddy_wf b" "A \<subseteq> zone_pfns b k"
  shows "card A \<le> usize_MAX"
proof -
  have "A \<subseteq> managed b" using assms zone_pfns_managed by blast
  then have "card A \<le> card (managed b)" by (rule card_mono [rotated]) (simp add: managed_def)
  also have "card (managed b) = ba_page_count b" by (simp add: managed_def)
  also have "\<dots> \<le> usize_MAX" using assms(1) by (auto simp: buddy_wf_def PAGE_SIZE_eq)
  finally show ?thesis .
qed

lemma zone_kind_for_pfn_Ok:
  assumes "buddy_wf b" "p \<in> zone_pfns b k"
  shows "zone_kind_for_pfn b p = Ok k"
proof -
  have "zn_start_pfn (zone_of b k) \<le> p \<and> p < zn_end_pfn (zone_of b k)" using assms(2) by (simp add: zone_pfns_def)
  moreover have "p < DMA32_LIMIT_PFN \<longleftrightarrow> k = Dma32" using assms by (cases k) (auto simp: buddy_wf_def)
  ultimately show ?thesis by (cases k) (auto simp: zone_kind_for_pfn_def Zone_contains_pfn_def)
qed

lemma zone_kind_for_pfn_outside:
  assumes "buddy_wf b" "p \<notin> managed b"
  shows "zone_kind_for_pfn b p = Err RangeOutsideManagedMemory"
proof -
  have "p \<notin> zone_pfns b k" for k using assms zone_pfns_managed by blast
  then show ?thesis by (simp add: zone_kind_for_pfn_def Zone_contains_pfn_def zone_pfns_def)
qed

text \<open>The invariant from its parts after an operation that leaves other pages as they were.\<close>

lemma counters_okI:
  assumes "counters_ok b" "same_shape b b'" "\<And>p. (pg_state (pv b' p) = Absent) = (pg_state (pv b p) = Absent)"
    and "\<And>k. zn_present_pages (zone_of b' k) = zn_present_pages (zone_of b k)"
    and "\<And>k. zn_free_pages (zone_of b' k) = card (free_set b' k)"
  shows "counters_ok b'"
proof -
  have "present_set b' k = present_set b k" for k
    using assms(3) same_shape_zone_pfns [OF assms(2)] by (simp add: present_set_def)
  with assms show ?thesis by (simp add: counters_ok_def)
qed

section \<open>Allocation\<close>

text \<open>What an allocation of the block of order \<open>n\<close> at \<open>p\<close> does.\<close>

definition alloc_step :: "BuddyAllocator \<Rightarrow> nat \<Rightarrow> nat \<Rightarrow> BuddyAllocator \<Rightarrow> bool" where
  "alloc_step b p n b' \<longleftrightarrow> same_shape b b'
     \<and> (\<forall>x. is_free b' x \<longleftrightarrow> is_free b x \<and> x \<notin> block p n)
     \<and> (\<forall>x \<in> block p n. pg_state (pv b' x) = Allocated \<and> pg_reference_count (pv b' x) = 1)
     \<and> pg_order (pv b' p) = n
     \<and> (\<forall>x. \<not> is_free b x \<longrightarrow> marks (pv b' x) = marks (pv b x))"

lemma frame_from_pfn_Ok:
  assumes "buddy_wf b" "p \<in> managed b"
  shows "frame_from_pfn p = Ok \<lparr>pf_start = p * PAGE_SIZE\<rparr>"
  using managed_bound(2) [OF assms]
  by (simp add: frame_from_pfn_def checked_mul_def PhysFrame_from_start_address_def PhysAddr_is_aligned_iff)

text \<open>The block at the head of a list of order \<open>n\<close> is split down to the requested order.\<close>

lemma take_block_Ok:
  assumes "buddy_wf b" "free_lists b fl {}" "coalesced fl" "p \<in> set (fl k n)" "r \<le> n"
  obtains b3 fl' where
    "sseq (remove_free_block p n k) (sseq (split_loop r p n k) (mark_allocated_block p r k)) b = (Ok (), b3)"
    "alloc_step b p r b3" "same_counters b b3" "free_lists b3 fl' {}" "coalesced fl'"
    "\<And>x. x \<in> block p r - {p} \<Longrightarrow> pg_order (pv b3 x) = INVALID_ORDER"
proof -
  note d = free_listsD [OF assms(2)]
  have fb: "free_block b k p n" and n: "n < MAX_ORDER" using d(2,4) [OF assms(4)] by auto
  then have al: "2 ^ n dvd p" and zn: "block p n \<subseteq> zone_pfns b k" by (auto simp: free_block_def)
  have sub: "block p r \<subseteq> block p n"
    using assms(5) block_nested [of r p n p] al by (meson block_start dvd_trans disjoint_iff le_imp_power_dvd)
  obtain b1 where b1: "remove_free_block p n k b = (Ok (), b1)" "same_shape b b1" "same_counters b b1"
    "\<And>x. marks (pv b1 x) = marks (pv b x)" "free_lists b1 (del fl k n p) ({} \<union> block p n)"
    by (rule remove_free_block_Ok [OF assms(1,2,4)]) blast
  have w1: "buddy_wf b1" by (rule same_shape_wf [OF b1(2) assms(1)])
  have z1: "block p n \<subseteq> zone_pfns b1 k" using zn same_shape_zone_pfns [OF b1(2)] by simp
  obtain b2 fl2 where b2: "split_loop r p n k b1 = (Ok (), b2)" "same_shape b1 b2" "same_counters b1 b2"
    "free_lists b2 fl2 (block p r)" "coalesced fl2" "\<And>x. x \<notin> block p n \<Longrightarrow> marks (pv b2 x) = marks (pv b1 x)"
    "\<And>x. x \<in> block p n - block p r \<Longrightarrow> is_free b2 x"
    using split_loop_Ok [OF w1 b1(5) [unfolded Un_empty_left] coalesced_del [OF assms(3)] n al z1 assms(5)] by blast
  have w2: "buddy_wf b2" by (rule same_shape_wf [OF b2(2) w1])
  have m2: "block p r \<subseteq> managed b2"
    using sub z1 zone_pfns_managed [OF w1] same_shape_managed [OF b2(2)] by blast
  obtain b3 where b3: "mark_allocated_block p r k b2 = (Ok (), b3)" "same_shape b2 b3" "zone_of b3 = zone_of b2"
    "pv b3 = (\<lambda>q. if q \<in> block p r then (pv b2 q)\<lparr>pg_state := Allocated,
        pg_order := (if q - p = 0 then r else INVALID_ORDER), pg_zone := ZoneKind_index k,
        pg_next := INVALID_PFN, pg_previous := INVALID_PFN, pg_reference_count := 1\<rparr> else pv b2 q)"
    unfolding mark_allocated_block_def by (rule mark_block_Ok [OF w2 m2])
  have run: "sseq (remove_free_block p n k) (sseq (split_loop r p n k) (mark_allocated_block p r k)) b = (Ok (), b3)"
    by (simp add: sseq_def sbind_def b1(1) b2(1) b3(1))
  have shape: "same_shape b b3" using b1(2) b2(2) b3(2) same_shape_trans by blast
  have cnt: "same_counters b b3"
    using b1(3) b2(3) b3(3) by (simp add: same_counters_def)
  have free_in: "is_free b x" if "x \<in> block p n" for x by (rule free_block_pages [OF fb that])
  have out: "marks (pv b3 x) = marks (pv b x)" if "x \<notin> block p n" for x
    using that sub b2(6) [OF that] b1(4) by (auto simp: b3(4))
  have mid: "is_free b3 x" if "x \<in> block p n - block p r" for x
    using b2(7) [OF that] that by (simp add: is_free_def b3(4))
  have inn: "\<not> is_free b3 x" if "x \<in> block p r" for x using that by (simp add: is_free_def b3(4))
  have fr: "is_free b3 x \<longleftrightarrow> is_free b x \<and> x \<notin> block p r" for x
    using free_in [of x] is_free_marks [OF out, of x] mid [of x] inn [of x] sub by blast
  have same: "marks (pv b3 x) = marks (pv b x)" if "\<not> is_free b x" for x using out free_in that by blast
  have "area_of b3 = area_of b2" using b3(3) by (simp add: area_of_def fun_eq_iff)
  then have "free_lists b3 fl2 (block p r)"
    by (rule free_lists_change [OF b2(4) b3(2)]) (simp add: b3(4))
  then have "free_lists b3 fl2 {}" using free_lists_drop inn by blast
  moreover have "alloc_step b p r b3"
    using shape fr same by (simp add: alloc_step_def b3(4))
  moreover have "pg_order (pv b3 x) = INVALID_ORDER" if "x \<in> block p r - {p}" for x
    using that by (auto simp: b3(4) block_def)
  ultimately show ?thesis using run cnt b2(5) by (intro that [of b3 fl2]) blast+
qed

lemma alloc_step_inv:
  assumes "buddy_inv b" "alloc_step b p r b3" "same_counters b b3" "free_lists b3 fl' {}" "coalesced fl'"
    and "block p r \<subseteq> free_set b k" "2 ^ r dvd p" "r < MAX_ORDER"
    and "\<And>x. x \<in> block p r - {p} \<Longrightarrow> pg_order (pv b3 x) = INVALID_ORDER"
    and "b' = zone_mut k (\<lambda>z. z\<lparr>zn_free_pages := zn_free_pages (zone_of b k) - 2 ^ r\<rparr>) b3"
  shows "buddy_inv b'" "alloc_step b p r b'" "2 ^ r \<le> zn_free_pages (zone_of b k)"
    "zn_free_pages (zone_of b' k) = zn_free_pages (zone_of b k) - 2 ^ r"
proof -
  have wfb: "buddy_wf b" and heads: "heads_ok b" and cnt: "counters_ok b" using assms(1) by (auto simp: buddy_inv_def)
  note st = assms(2) [unfolded alloc_step_def]
  have w3: "buddy_wf b3" using st same_shape_wf [OF _ wfb] by blast
  have s': "same_shape b3 b'" unfolding assms(10) by (rule zone_mut_shape [OF w3]) simp_all
  have v': "pv b' = pv b3" by (simp add: assms(10))
  have shape: "same_shape b b'" using st s' same_shape_trans by blast
  have a': "area_of b' = area_of b3" by (auto simp: assms(10) area_of_def zone_mut_zone [OF w3] fun_eq_iff)
  have isf: "is_free b' x \<longleftrightarrow> is_free b x \<and> x \<notin> block p r" for x using st v' by (simp add: is_free_def)
  show step: "alloc_step b p r b'" using st shape v' by (simp add: alloc_step_def is_free_def)
  have card: "2 ^ r \<le> card (free_set b k)" using card_mono [OF _ assms(6)] by simp
  then show le: "2 ^ r \<le> zn_free_pages (zone_of b k)" using cnt by (simp add: counters_ok_def)
  have fs: "free_set b' j = (if j = k then free_set b k - block p r else free_set b j)" for j
  proof (cases "j = k")
    case True
    then show ?thesis using isf same_shape_zone_pfns [OF shape] by (auto simp: free_set_def)
  next
    case False
    then have "x \<notin> block p r" if "x \<in> zone_pfns b j" for x
      using that assms(6) zone_pfns_disjoint [OF wfb that, of k] by (auto simp: free_set_def)
    with False show ?thesis using isf same_shape_zone_pfns [OF shape] by (auto simp: free_set_def)
  qed
  have z': "zone_of b' = (zone_of b3)(k := (zone_of b3 k)\<lparr>zn_free_pages := zn_free_pages (zone_of b k) - 2 ^ r\<rparr>)"
    by (simp add: assms(10) zone_mut_zone [OF w3])
  show "zn_free_pages (zone_of b' k) = zn_free_pages (zone_of b k) - 2 ^ r" by (simp add: z')
  have "counters_ok b'"
  proof (rule counters_okI [OF cnt shape])
    show "(pg_state (pv b' x) = Absent) = (pg_state (pv b x) = Absent)" for x
    proof (cases "is_free b x")
      case True
      have "x \<in> block p r \<Longrightarrow> pg_state (pv b' x) = Allocated" using st v' by simp
      moreover have "x \<notin> block p r \<Longrightarrow> is_free b' x" using True isf by blast
      ultimately have "pg_state (pv b' x) \<noteq> Absent" unfolding is_free_def by fastforce
      with True show ?thesis by (auto simp: is_free_def)
    next
      case False
      then have "marks (pv b3 x) = marks (pv b x)" using st by blast
      then show ?thesis using v' by (auto dest: marks_eqD)
    qed
    show "zn_present_pages (zone_of b' j) = zn_present_pages (zone_of b j)" for j
      using assms(3) by (simp add: z' same_counters_def)
    show "zn_free_pages (zone_of b' j) = card (free_set b' j)" for j
      using assms(3) cnt card_Diff_subset [OF finite_block assms(6)]
      by (simp add: z' fs counters_ok_def same_counters_def)
  qed
  moreover have "heads_ok b'"
    unfolding heads_ok_def
  proof (intro ballI impI)
    fix x assume x: "x \<in> managed b'"
      and h: "(pg_state (pv b' x) = Allocated \<or> pg_state (pv b' x) = Freeing) \<and> pg_order (pv b' x) \<noteq> INVALID_ORDER"
    show "pg_order (pv b' x) < MAX_ORDER \<and> 2 ^ pg_order (pv b' x) dvd x"
    proof (cases "x \<in> block p r")
      case True
      then have "x = p" using assms(9) [of x] h v' by auto
      then show ?thesis using st v' assms(7,8) by simp
    next
      case False
      then have "\<not> is_free b x" using h isf [of x] by (auto simp: is_free_def)
      then have "marks (pv b' x) = marks (pv b x)" using st v' by simp
      then show ?thesis
        using heads h x same_shape_managed [OF shape] marks_eqD unfolding heads_ok_def by metis
    qed
  qed
  moreover have "free_lists b' fl' {}"
    by (rule free_lists_change [OF assms(4) s' a']) (simp add: v')
  ultimately show "buddy_inv b'" using same_shape_wf [OF shape wfb] assms(5) by (auto simp: buddy_inv_def)
qed

text \<open>An aligned block of free pages in a zone.\<close>

definition can_serve :: "BuddyAllocator \<Rightarrow> ZoneKind \<Rightarrow> nat \<Rightarrow> bool" where
  "can_serve b k n \<longleftrightarrow> (\<exists>p. 2 ^ n dvd p \<and> block p n \<subseteq> free_set b k)"

definition allocated_token :: "BuddyAllocator \<Rightarrow> ZoneKind \<Rightarrow> nat \<Rightarrow> PageAllocation \<Rightarrow> BuddyAllocator \<Rightarrow> bool" where
  "allocated_token b k n a b' \<longleftrightarrow> (\<exists>p. a = \<lparr>pa_start = \<lparr>pf_start = p * PAGE_SIZE\<rparr>, pa_order = n, pa_zone = k\<rparr>
     \<and> 2 ^ n dvd p \<and> block p n \<subseteq> free_set b k \<and> buddy_inv b' \<and> alloc_step b p n b'
     \<and> zn_free_pages (zone_of b' k) = zn_free_pages (zone_of b k) - 2 ^ n)"

lemma allocate_from_zone_cases:
  assumes "buddy_inv b" "r < MAX_ORDER"
  shows "allocate_from_zone r k b = (Ok None, b) \<and> \<not> can_serve b k r
    \<or> (\<exists>a b'. allocate_from_zone r k b = (Ok (Some a), b') \<and> allocated_token b k r a b')"
proof -
  from assms(1) obtain fl where wfb: "buddy_wf b" and fl: "free_lists b fl {}" "coalesced fl" by (auto simp: buddy_inv_def)
  note d = free_listsD [OF fl(1)]
  have head: "fa_head (area_of b k n) \<noteq> INVALID_PFN \<longleftrightarrow> fl k n \<noteq> []" if "n < MAX_ORDER" for n
  proof (cases "fl k n")
    case (Cons x xs)
    then have "x \<noteq> INVALID_PFN" using INVALID_not_listed [OF wfb fl(1), of k n] by auto
    with Cons d(1) [OF that, of k] show ?thesis by (simp add: flist_ok_def)
  qed (use d(1) [OF that, of k] in \<open>simp add: flist_ok_def\<close>)
  let ?find = "List.find (\<lambda>n. fa_head (area_of b k n) \<noteq> INVALID_PFN) [r..<MAX_ORDER]"
  show ?thesis
  proof (cases ?find)
    case None
    have "\<not> can_serve b k r"
    proof
      assume "can_serve b k r"
      then obtain p where p: "2 ^ r dvd p" "block p r \<subseteq> free_set b k" by (auto simp: can_serve_def)
      then have z: "block p r \<subseteq> zone_pfns b k" and f: "\<And>q. q \<in> block p r \<Longrightarrow> is_free b q"
        by (auto simp: free_set_def)
      obtain n q where "r \<le> n" "n < MAX_ORDER" "q \<in> set (fl k n)"
        using aligned_free_block_listed [OF wfb fl assms(2) p(1) z f] by blast
      with None head show False by (auto simp: find_None_iff)
    qed
    moreover have "allocate_from_zone r k b = (Ok None, b)"
      using None by (simp add: allocate_from_zone_def sreturn_def)
    ultimately show ?thesis by blast
  next
    case (Some n)
    then have n: "r \<le> n" "n < MAX_ORDER" "fa_head (area_of b k n) \<noteq> INVALID_PFN"
      by (auto simp: find_Some_iff)
    then obtain p ps where ps: "fl k n = p # ps" using head by (cases "fl k n") auto
    have hd: "fa_head (area_of b k n) = p" using d(1) [OF n(2), of k] ps by (simp add: flist_ok_def)
    have listed: "p \<in> set (fl k n)" using ps by simp
    have fb: "free_block b k p n" by (rule d(2) [OF listed])
    then have al: "2 ^ n dvd p" by (simp add: free_block_def)
    then have alr: "2 ^ r dvd p" using n(1) by (meson dvd_trans le_imp_power_dvd)
    have sub: "block p r \<subseteq> block p n"
      using block_nested [OF alr al n(1)] block_start by blast
    have fset: "block p r \<subseteq> free_set b k"
      using sub free_block_pages [OF fb] free_block_zone [OF fb] by (auto simp: free_set_def)
    obtain b3 fl' where b3:
      "sseq (remove_free_block p n k) (sseq (split_loop r p n k) (mark_allocated_block p r k)) b = (Ok (), b3)"
      "alloc_step b p r b3" "same_counters b b3" "free_lists b3 fl' {}" "coalesced fl'"
      "\<And>x. x \<in> block p r - {p} \<Longrightarrow> pg_order (pv b3 x) = INVALID_ORDER"
      by (rule take_block_Ok [OF wfb fl listed n(1)]) blast
    define b' where "b' = zone_mut k (\<lambda>z. z\<lparr>zn_free_pages := zn_free_pages (zone_of b k) - 2 ^ r\<rparr>) b3"
    note res = alloc_step_inv [OF assms(1) b3(2-5) fset alr assms(2) b3(6) b'_def]
    have "p \<in> managed b" using free_list_managed [OF wfb fl(1) listed] .
    then have frame: "frame_from_pfn p = Ok \<lparr>pf_start = p * PAGE_SIZE\<rparr>" by (rule frame_from_pfn_Ok [OF wfb])
    have free3: "zn_free_pages (zone_of b3 k) = zn_free_pages (zone_of b k)" using b3(3) by (simp add: same_counters_def)
    from b3(1) obtain c1 c2 where c: "remove_free_block p n k b = (Ok (), c1)" "split_loop r p n k c1 = (Ok (), c2)"
      "mark_allocated_block p r k c2 = (Ok (), b3)"
      by (auto simp: sseq_eq_Ok)
    have "allocate_from_zone r k b = (Ok (Some \<lparr>pa_start = \<lparr>pf_start = p * PAGE_SIZE\<rparr>, pa_order = r, pa_zone = k\<rparr>), b')"
      using res(3)
      by (simp add: allocate_from_zone_def Some hd sseq_def sbind_def sget_def c sread_def free3 checked_sub_def smodify_def
          slift_def frame sreturn_def b'_def)
    with res alr fset show ?thesis by (auto simp: allocated_token_def)
  qed
qed

lemma BuddyAllocator_allocate_cases:
  assumes "buddy_inv b"
  shows "case BuddyAllocator_allocate n c b of
      (Ok a, b') \<Rightarrow> n < MAX_ORDER \<and> (c = Dma32Only \<longrightarrow> pa_zone a = Dma32)
        \<and> allocated_token b (pa_zone a) n a b' \<and> (c = AnyZone \<and> can_serve b NormalZone n \<longrightarrow> pa_zone a = NormalZone)
    | (Err e, b') \<Rightarrow> b' = b \<and> (e = InvalidOrder n \<and> MAX_ORDER \<le> n
        \<or> e = OutOfMemory \<and> n < MAX_ORDER \<and> \<not> can_serve b Dma32 n \<and> (c = AnyZone \<longrightarrow> \<not> can_serve b NormalZone n))
    | (Panic, b') \<Rightarrow> False"
proof (cases "n < MAX_ORDER")
  case False
  then show ?thesis by (simp add: BuddyAllocator_allocate_def sfail_def)
next
  case True
  have zone: "pa_zone a = k" if "allocated_token b k n a b'" for a b' k
    using that by (auto simp: allocated_token_def)
  have zones: "allocate_from_zone n k b = (Ok None, b) \<and> \<not> can_serve b k n
    \<or> (\<exists>a b'. allocate_from_zone n k b = (Ok (Some a), b') \<and> allocated_token b (pa_zone a) n a b' \<and> pa_zone a = k)" for k
    using allocate_from_zone_cases [OF assms True, of k] zone by metis
  show ?thesis
  proof (cases c)
    case Dma32Only
    with zones [of Dma32] True show ?thesis
      by (auto simp: BuddyAllocator_allocate_def sbind_def slift_def)
  next
    case AnyZone
    from zones [of NormalZone] show ?thesis
    proof
      assume "allocate_from_zone n NormalZone b = (Ok None, b) \<and> \<not> can_serve b NormalZone n"
      with zones [of Dma32] True AnyZone show ?thesis
        by (auto simp: BuddyAllocator_allocate_def sbind_def slift_def)
    next
      assume "\<exists>a b'. allocate_from_zone n NormalZone b = (Ok (Some a), b')
        \<and> allocated_token b (pa_zone a) n a b' \<and> pa_zone a = NormalZone"
      with True AnyZone show ?thesis
        by (auto simp: BuddyAllocator_allocate_def sbind_def sreturn_def)
    qed
  qed
qed

section \<open>Release\<close>

text \<open>The conditions that \<open>validate_allocated_block\<close> checks.\<close>

definition valid_block :: "BuddyAllocator \<Rightarrow> PageAllocation \<Rightarrow> u32 option \<Rightarrow> PageState \<Rightarrow> bool" where
  "valid_block b a c st \<longleftrightarrow>
     (let p = pf_start (pa_start a) div PAGE_SIZE; n = pa_order a in
      n < MAX_ORDER \<and> block p n \<subseteq> zone_pfns b (pa_zone a)
      \<and> (\<forall>q \<in> block p n. pg_state (pv b q) = st \<and> (\<forall>v. c = Some v \<longrightarrow> pg_reference_count (pv b q) = v))
      \<and> pg_order (pv b p) = n)"

lemma validate_pages_Ok:
  assumes "buddy_wf b" "\<And>i. i \<in> set is \<Longrightarrow> p + i \<in> managed b"
  shows "validate_pages b p n c st is =
    (if \<forall>i \<in> set is. pg_state (pv b (p + i)) = st \<and> (\<forall>v. c = Some v \<longrightarrow> pg_reference_count (pv b (p + i)) = v)
        \<and> (i = 0 \<longrightarrow> pg_order (pv b (p + i)) = n)
     then Ok () else Err InvalidAllocation)"
  using assms(2)
proof (induction "is")
  case (Cons i "is")
  have m: "p + i \<in> managed b" using Cons.prems by simp
  then have "add_usize p i = (Ok (p + i) :: (nat, BuddyError) result)"
    using managed_bound(1) [OF assms(1)] by (simp add: add_usize_def checked_add_def INVALID_PFN_def less_imp_le)
  with Cons.IH Cons.prems m show ?case by (auto simp: buddy_page_managed split: option.split)
qed simp

lemma validate_allocated_block_eq:
  assumes "buddy_wf b"
  shows "\<exists>e. validate_allocated_block b a c st =
    (if valid_block b a c st then Ok (pf_start (pa_start a) div PAGE_SIZE, pa_order a, pa_zone a) else Err e)"
proof -
  let ?p = "pf_start (pa_start a) div PAGE_SIZE" and ?n = "pa_order a" and ?k = "pa_zone a"
  show ?thesis
  proof (cases "?n < MAX_ORDER \<and> block ?p ?n \<subseteq> zone_pfns b ?k")
    case False
    have "\<exists>e. validate_allocated_block b a c st = Err e"
    proof (cases "?p \<in> managed b")
      case True
      then obtain k where k: "?p \<in> zone_pfns b k" using managed_in_zone [OF assms] by blast
      show ?thesis
        using False zone_kind_for_pfn_Ok [OF assms k] block_in_zone [OF assms]
        by (auto simp: validate_allocated_block_def Let_def)
    next
      case False
      then show ?thesis
        using zone_kind_for_pfn_outside [OF assms] by (simp add: validate_allocated_block_def Let_def)
    qed
    with False show ?thesis by (auto simp: valid_block_def Let_def)
  next
    case True
    then have k: "?p \<in> zone_pfns b ?k" using block_start by blast
    have m: "?p + i \<in> managed b" if "i \<in> set [0..<2 ^ ?n]" for i
    proof -
      have "?p + i \<in> block ?p ?n" using that by (simp add: block_def)
      then show ?thesis using True zone_pfns_managed [OF assms] by blast
    qed
    let ?A = "\<lambda>q. pg_state (pv b q) = st \<and> (\<forall>v. c = Some v \<longrightarrow> pg_reference_count (pv b q) = v)"
    have all: "(\<forall>i \<in> set [0..<2 ^ ?n]. ?A (?p + i)) \<longleftrightarrow> (\<forall>q \<in> block ?p ?n. ?A q)"
    proof
      assume l: "\<forall>i \<in> set [0..<2 ^ ?n]. ?A (?p + i)"
      show "\<forall>q \<in> block ?p ?n. ?A q"
      proof
        fix q assume "q \<in> block ?p ?n"
        then have "q - ?p \<in> set [0..<2 ^ ?n]" "?p + (q - ?p) = q" by (auto simp: block_def)
        then show "?A q" using l by metis
      qed
    next
      assume r: "\<forall>q \<in> block ?p ?n. ?A q"
      have "?p + i \<in> block ?p ?n" if "i \<in> set [0..<2 ^ ?n]" for i using that by (simp add: block_def)
      with r show "\<forall>i \<in> set [0..<2 ^ ?n]. ?A (?p + i)" by blast
    qed
    have head: "(\<forall>i \<in> set [0..<2 ^ ?n]. i = 0 \<longrightarrow> pg_order (pv b (?p + i)) = ?n) \<longleftrightarrow> pg_order (pv b ?p) = ?n"
      by auto
    have cond: "(\<forall>i \<in> set [0..<2 ^ ?n]. pg_state (pv b (?p + i)) = st
        \<and> (\<forall>v. c = Some v \<longrightarrow> pg_reference_count (pv b (?p + i)) = v)
        \<and> (i = 0 \<longrightarrow> pg_order (pv b (?p + i)) = ?n)) = valid_block b a c st"
      using all head True unfolding valid_block_def Let_def by blast
    have "validate_allocated_block b a c st =
        rbind (validate_pages b ?p ?n c st [0..<2 ^ ?n]) (\<lambda>_. Ok (?p, ?n, ?k))"
      using True zone_kind_for_pfn_Ok [OF assms k] block_in_zone [OF assms]
      by (simp add: validate_allocated_block_def Let_def)
    also have "\<dots> = (if valid_block b a c st then Ok (?p, ?n, ?k) else Err InvalidAllocation)"
      using validate_pages_Ok [of b "[0..<2 ^ ?n]" ?p ?n c st, OF assms m] unfolding cond by simp
    finally show ?thesis by blast
  qed
qed

text \<open>Re-marking an allocated block as being released or back leaves the free lists alone.\<close>

definition remark :: "BuddyAllocator \<Rightarrow> nat \<Rightarrow> nat \<Rightarrow> PageState \<Rightarrow> BuddyAllocator \<Rightarrow> bool" where
  "remark b p n st b' \<longleftrightarrow> same_shape b b' \<and> zone_of b' = zone_of b
     \<and> (\<forall>x. x \<notin> block p n \<longrightarrow> pv b' x = pv b x)
     \<and> (\<forall>x \<in> block p n. pg_state (pv b' x) = st \<and> pg_order (pv b' x) = (if x = p then n else INVALID_ORDER)
          \<and> pg_reference_count (pv b' x) = pg_reference_count (pv b x))"

lemma remark_inv:
  assumes "buddy_inv b" "remark b p n st b'" "st = Allocated \<or> st = Freeing" "n < MAX_ORDER" "2 ^ n dvd p"
    and "\<And>q. q \<in> block p n \<Longrightarrow> pg_state (pv b q) = Allocated \<or> pg_state (pv b q) = Freeing"
  shows "buddy_inv b'" "\<And>x. is_free b' x = is_free b x"
proof -
  from assms(1) obtain fl where wfb: "buddy_wf b" and fl: "free_lists b fl {}" "coalesced fl" and cnt: "counters_ok b"
    and heads: "heads_ok b" by (auto simp: buddy_inv_def)
  note r = assms(2) [unfolded remark_def]
  have shape: "same_shape b b'" using r by blast
  have area: "area_of b' = area_of b" using r by (simp add: area_of_def fun_eq_iff)
  show isf: "is_free b' x = is_free b x" for x
    using r assms(3) assms(6) [of x] by (cases "x \<in> block p n") (auto simp: is_free_def)
  have nf: "\<not> is_free b q" if "q \<in> block p n" for q using assms(6) [OF that] by (auto simp: is_free_def)
  have "free_lists b' fl (block p n)"
    using free_lists_change [OF free_lists_add [OF fl(1) nf] shape area] r by blast
  then have lists: "free_lists b' fl {}" using free_lists_drop nf isf by blast
  have "counters_ok b'"
  proof (rule counters_okI [OF cnt shape])
    show "(pg_state (pv b' x) = Absent) = (pg_state (pv b x) = Absent)" for x
      using r assms(3) assms(6) [of x] by (cases "x \<in> block p n") auto
    show "zn_free_pages (zone_of b' k) = card (free_set b' k)" for k
      using cnt r isf same_shape_zone_pfns [OF shape] by (simp add: counters_ok_def free_set_def)
  qed (use r in simp)
  moreover have "heads_ok b'"
    unfolding heads_ok_def
  proof (intro ballI impI)
    fix x assume "x \<in> managed b'"
      "(pg_state (pv b' x) = Allocated \<or> pg_state (pv b' x) = Freeing) \<and> pg_order (pv b' x) \<noteq> INVALID_ORDER"
    then show "pg_order (pv b' x) < MAX_ORDER \<and> 2 ^ pg_order (pv b' x) dvd x"
      using heads r assms(4,5) same_shape_managed [OF shape]
      by (cases "x \<in> block p n"; cases "x = p") (auto simp: heads_ok_def)
  qed
  ultimately show "buddy_inv b'" using lists fl(2) same_shape_wf [OF shape wfb] by (auto simp: buddy_inv_def)
qed

lemma valid_block_aligned:
  assumes "buddy_inv b" "valid_block b a c st" "st = Allocated \<or> st = Freeing"
  shows "2 ^ pa_order a dvd pf_start (pa_start a) div PAGE_SIZE"
proof -
  let ?p = "pf_start (pa_start a) div PAGE_SIZE"
  have v: "pa_order a < MAX_ORDER" "block ?p (pa_order a) \<subseteq> zone_pfns b (pa_zone a)"
    "pg_state (pv b ?p) = st" "pg_order (pv b ?p) = pa_order a"
    using assms(2) block_start by (auto simp: valid_block_def Let_def)
  have "?p \<in> managed b"
    using v(2) zone_pfns_managed [of b "pa_zone a"] assms(1) block_start unfolding buddy_inv_def by blast
  moreover have "pa_order a \<noteq> INVALID_ORDER" using v(1) by (simp add: MAX_ORDER_def INVALID_ORDER_def)
  ultimately show ?thesis using assms(1,3) v(3,4) by (auto simp: buddy_inv_def heads_ok_def)
qed

lemma BuddyAllocator_begin_free_cases:
  assumes "buddy_inv b"
  shows "if valid_block b a (Some 1) Allocated
    then \<exists>b'. BuddyAllocator_begin_free a b = (Ok (), b') \<and> buddy_inv b' \<and> (\<forall>x. is_free b' x = is_free b x)
      \<and> remark b (pf_start (pa_start a) div PAGE_SIZE) (pa_order a) Freeing b'
    else \<exists>e. BuddyAllocator_begin_free a b = (Err e, b)"
proof -
  let ?p = "pf_start (pa_start a) div PAGE_SIZE" and ?n = "pa_order a"
  have wfb: "buddy_wf b" using assms by (simp add: buddy_inv_def)
  obtain e where val: "validate_allocated_block b a (Some 1) Allocated =
    (if valid_block b a (Some 1) Allocated then Ok (?p, ?n, pa_zone a) else Err e)"
    using validate_allocated_block_eq [OF wfb] by blast
  show ?thesis
  proof (cases "valid_block b a (Some 1) Allocated")
    case False
    then show ?thesis by (simp add: BuddyAllocator_begin_free_def sbind_def sread_def val del: One_nat_def)
  next
    case True
    then have v: "?n < MAX_ORDER" "block ?p ?n \<subseteq> zone_pfns b (pa_zone a)"
      "\<And>q. q \<in> block ?p ?n \<Longrightarrow> pg_state (pv b q) = Allocated" by (auto simp: valid_block_def Let_def)
    have "block ?p ?n \<subseteq> managed b" using v(2) zone_pfns_managed [OF wfb] by blast
    then obtain b' where b': "mark_freeing_block ?p ?n (pa_zone a) b = (Ok (), b')" "same_shape b b'" "zone_of b' = zone_of b"
      "pv b' = (\<lambda>q. if q \<in> block ?p ?n then (pv b q)\<lparr>pg_state := Freeing,
         pg_order := (if q - ?p = 0 then ?n else INVALID_ORDER), pg_zone := ZoneKind_index (pa_zone a),
         pg_next := INVALID_PFN, pg_previous := INVALID_PFN\<rparr> else pv b q)"
      unfolding mark_freeing_block_def by (rule mark_block_Ok [OF wfb])
    have rem: "remark b ?p ?n Freeing b'"
      using b' by (auto simp: remark_def block_def)
    have "buddy_inv b'" "\<forall>x. is_free b' x = is_free b x"
      using remark_inv [OF assms rem _ v(1) valid_block_aligned [OF assms True]] v(3) by auto
    moreover have "BuddyAllocator_begin_free a b = (Ok (), b')"
      using True by (simp add: BuddyAllocator_begin_free_def sbind_def sread_def val b'(1) del: One_nat_def)
    ultimately show ?thesis using True rem by auto
  qed
qed

lemma BuddyAllocator_cancel_free_cases:
  assumes "buddy_inv b"
  shows "if valid_block b a None Freeing
    then \<exists>b'. BuddyAllocator_cancel_free a b = (Ok (), b') \<and> buddy_inv b' \<and> (\<forall>x. is_free b' x = is_free b x)
      \<and> remark b (pf_start (pa_start a) div PAGE_SIZE) (pa_order a) Allocated b'
    else \<exists>e. BuddyAllocator_cancel_free a b = (Err e, b)"
proof -
  let ?p = "pf_start (pa_start a) div PAGE_SIZE" and ?n = "pa_order a"
  have wfb: "buddy_wf b" using assms by (simp add: buddy_inv_def)
  obtain e where val: "validate_allocated_block b a None Freeing =
    (if valid_block b a None Freeing then Ok (?p, ?n, pa_zone a) else Err e)"
    using validate_allocated_block_eq [OF wfb] by blast
  show ?thesis
  proof (cases "valid_block b a None Freeing")
    case False
    then show ?thesis by (simp add: BuddyAllocator_cancel_free_def sbind_def sread_def val)
  next
    case True
    then have v: "?n < MAX_ORDER" "block ?p ?n \<subseteq> zone_pfns b (pa_zone a)"
      "\<And>q. q \<in> block ?p ?n \<Longrightarrow> pg_state (pv b q) = Freeing" by (auto simp: valid_block_def Let_def)
    have "block ?p ?n \<subseteq> managed b" using v(2) zone_pfns_managed [OF wfb] by blast
    then obtain b' where b': "mark_allocated_block_preserving_refs ?p ?n (pa_zone a) b = (Ok (), b')" "same_shape b b'"
      "zone_of b' = zone_of b" "pv b' = (\<lambda>q. if q \<in> block ?p ?n then (pv b q)\<lparr>pg_state := Allocated,
         pg_order := (if q - ?p = 0 then ?n else INVALID_ORDER), pg_zone := ZoneKind_index (pa_zone a),
         pg_next := INVALID_PFN, pg_previous := INVALID_PFN\<rparr> else pv b q)"
      unfolding mark_allocated_block_preserving_refs_def by (rule mark_block_Ok [OF wfb])
    have rem: "remark b ?p ?n Allocated b'"
      using b' by (auto simp: remark_def block_def)
    have "buddy_inv b'" "\<forall>x. is_free b' x = is_free b x"
      using remark_inv [OF assms rem _ v(1) valid_block_aligned [OF assms True]] v(3) by auto
    moreover have "BuddyAllocator_cancel_free a b = (Ok (), b')"
      using True by (simp add: BuddyAllocator_cancel_free_def sbind_def sread_def val b'(1))
    ultimately show ?thesis using True rem by auto
  qed
qed

text \<open>What the release of the block of order \<open>n\<close> at \<open>p\<close> does.\<close>

definition free_step :: "BuddyAllocator \<Rightarrow> nat \<Rightarrow> nat \<Rightarrow> BuddyAllocator \<Rightarrow> bool" where
  "free_step b p n b' \<longleftrightarrow> same_shape b b'
     \<and> (\<forall>x. is_free b' x \<longleftrightarrow> is_free b x \<or> x \<in> block p n)
     \<and> (\<forall>x. \<not> is_free b' x \<longrightarrow> marks (pv b' x) = marks (pv b x))"

text \<open>Merging a block into the free lists and counting its pages.\<close>

lemma free_block_back:
  assumes "buddy_inv b" "n < MAX_ORDER" "2 ^ n dvd p" "block p n \<subseteq> zone_pfns b k"
    and "\<And>q. q \<in> block p n \<Longrightarrow> pg_state (pv b q) \<noteq> Absent \<and> \<not> is_free b q"
  obtains b' where "sseq (coalesce_and_insert p n k) (add_free_pages k (2 ^ n)) b = (Ok (), b')"
    "buddy_inv b'" "free_step b p n b'"
    "zn_free_pages (zone_of b' k) = zn_free_pages (zone_of b k) + 2 ^ n"
proof -
  from assms(1) obtain fl where wfb: "buddy_wf b" and fl: "free_lists b fl {}" "coalesced fl" and cnt: "counters_ok b"
    and heads: "heads_ok b" by (auto simp: buddy_inv_def)
  have "free_lists b fl (block p n)" using free_lists_add [OF fl(1)] assms(5) by blast
  from coalesce_and_insert_Ok [OF wfb this fl(2) assms(2-4)]
  obtain b1 fl1 where b1: "coalesce_and_insert p n k b = (Ok (), b1)" "same_shape b b1" "same_counters b b1"
    "free_lists b1 fl1 {}" "coalesced fl1" "\<And>x. is_free b1 x \<longleftrightarrow> is_free b x \<or> x \<in> block p n"
    "\<And>x. \<not> is_free b1 x \<Longrightarrow> marks (pv b1 x) = marks (pv b x)"
    by metis
  have w1: "buddy_wf b1" by (rule same_shape_wf [OF b1(2) wfb])
  let ?free = "zn_free_pages (zone_of b k) + 2 ^ n"
  define b' where "b' = zone_mut k (\<lambda>z. z\<lparr>zn_free_pages := ?free\<rparr>) b1"
  have s': "same_shape b1 b'" unfolding b'_def by (rule zone_mut_shape [OF w1]) simp_all
  have shape: "same_shape b b'" by (rule same_shape_trans [OF b1(2) s'])
  have v': "pv b' = pv b1" by (simp add: b'_def)
  have z': "zone_of b' = (zone_of b1)(k := (zone_of b1 k)\<lparr>zn_free_pages := ?free\<rparr>)"
    by (simp add: b'_def zone_mut_zone [OF w1])
  have a': "area_of b' = area_of b1" by (auto simp: area_of_def z' fun_eq_iff)
  have isf: "is_free b' x \<longleftrightarrow> is_free b x \<or> x \<in> block p n" for x using b1(6) v' by (simp add: is_free_def)
  have step: "free_step b p n b'"
    using shape isf b1(7) v' by (simp add: free_step_def is_free_def)
  have disj: "block p n \<inter> free_set b k = {}" using assms(5) by (auto simp: free_set_def)
  have fs: "free_set b' j = (if j = k then free_set b k \<union> block p n else free_set b j)" for j
  proof (cases "j = k")
    case True
    then show ?thesis using isf same_shape_zone_pfns [OF shape] assms(4) by (auto simp: free_set_def)
  next
    case False
    then have "x \<notin> block p n" if "x \<in> zone_pfns b j" for x
      using that assms(4) zone_pfns_disjoint [OF wfb that, of k] by auto
    with False show ?thesis using isf same_shape_zone_pfns [OF shape] by (auto simp: free_set_def)
  qed
  have fk: "zn_free_pages (zone_of b k) = card (free_set b k)" using cnt by (simp add: counters_ok_def)
  have card: "card (free_set b k \<union> block p n) = ?free"
    using card_Un_disjoint [OF finite_free_set finite_block, of b k p n] disj fk by (simp add: Int_commute)
  have "free_set b k \<union> block p n \<subseteq> zone_pfns b k" using assms(4) by (auto simp: free_set_def)
  then have "?free \<le> usize_MAX" using card_zone_bound [OF wfb] card by metis
  then have run: "sseq (coalesce_and_insert p n k) (add_free_pages k (2 ^ n)) b = (Ok (), b')"
    using b1(3)
    by (simp add: sseq_def sbind_def b1(1) add_free_pages_def sread_def smodify_def checked_add_def same_counters_def b'_def)
  have "counters_ok b'"
  proof (rule counters_okI [OF cnt shape])
    show "(pg_state (pv b' x) = Absent) = (pg_state (pv b x) = Absent)" for x
    proof (cases "is_free b' x")
      case True
      then have "pg_state (pv b' x) \<noteq> Absent" by (auto simp: is_free_def)
      moreover have "pg_state (pv b x) \<noteq> Absent"
        using True isf [of x] assms(5) [of x] by (auto simp: is_free_def)
      ultimately show ?thesis by simp
    next
      case False
      then show ?thesis using b1(7) [of x] v' marks_eqD(1) by (metis is_free_def)
    qed
    show "zn_present_pages (zone_of b' j) = zn_present_pages (zone_of b j)" for j
      using b1(3) by (simp add: z' same_counters_def)
    show "zn_free_pages (zone_of b' j) = card (free_set b' j)" for j
      using b1(3) cnt card by (simp add: z' fs counters_ok_def same_counters_def)
  qed
  moreover have "heads_ok b'"
    unfolding heads_ok_def
  proof (intro ballI impI)
    fix x assume x: "x \<in> managed b'"
      and h: "(pg_state (pv b' x) = Allocated \<or> pg_state (pv b' x) = Freeing) \<and> pg_order (pv b' x) \<noteq> INVALID_ORDER"
    then have "\<not> is_free b' x" by (auto simp: is_free_def)
    then have "marks (pv b' x) = marks (pv b x)" using step by (simp add: free_step_def)
    then show "pg_order (pv b' x) < MAX_ORDER \<and> 2 ^ pg_order (pv b' x) dvd x"
      using heads h x same_shape_managed [OF shape] marks_eqD unfolding heads_ok_def by metis
  qed
  moreover have "free_lists b' fl1 {}" by (rule free_lists_change [OF b1(4) s' a']) (simp add: v')
  ultimately have "buddy_inv b'" using same_shape_wf [OF shape wfb] b1(5) by (auto simp: buddy_inv_def)
  with run step show ?thesis by (intro that [of b']) (simp_all add: z')
qed

lemma BuddyAllocator_finish_free_cases:
  assumes "buddy_inv b"
  shows "if valid_block b a None Freeing
    then \<exists>b'. BuddyAllocator_finish_free a b = (Ok (), b') \<and> buddy_inv b'
      \<and> free_step b (pf_start (pa_start a) div PAGE_SIZE) (pa_order a) b'
      \<and> zn_free_pages (zone_of b' (pa_zone a)) = zn_free_pages (zone_of b (pa_zone a)) + 2 ^ pa_order a
    else \<exists>e. BuddyAllocator_finish_free a b = (Err e, b)"
proof -
  let ?p = "pf_start (pa_start a) div PAGE_SIZE" and ?n = "pa_order a" and ?k = "pa_zone a"
  have wfb: "buddy_wf b" using assms by (simp add: buddy_inv_def)
  obtain e where val: "validate_allocated_block b a None Freeing =
    (if valid_block b a None Freeing then Ok (?p, ?n, ?k) else Err e)"
    using validate_allocated_block_eq [OF wfb] by blast
  show ?thesis
  proof (cases "valid_block b a None Freeing")
    case False
    then show ?thesis by (simp add: BuddyAllocator_finish_free_def sbind_def sread_def val)
  next
    case True
    then have v: "?n < MAX_ORDER" "block ?p ?n \<subseteq> zone_pfns b ?k"
      "\<And>q. q \<in> block ?p ?n \<Longrightarrow> pg_state (pv b q) \<noteq> Absent \<and> \<not> is_free b q"
      by (auto simp: valid_block_def Let_def is_free_def)
    obtain b' where b': "sseq (coalesce_and_insert ?p ?n ?k) (add_free_pages ?k (2 ^ ?n)) b = (Ok (), b')"
      "buddy_inv b'" "free_step b ?p ?n b'" "zn_free_pages (zone_of b' ?k) = zn_free_pages (zone_of b ?k) + 2 ^ ?n"
      using free_block_back [OF assms v(1) valid_block_aligned [OF assms True] v(2,3)] by blast
    have "BuddyAllocator_finish_free a b = (Ok (), b')"
      using True b'(1) by (simp add: BuddyAllocator_finish_free_def sbind_def sread_def val)
    with b' True show ?thesis by simp
  qed
qed

end
