(* ===== verification/Buddy_Boot.thy ===== *)
theory Buddy_Boot
  imports Buddy_Ops
begin

text \<open>
  Construction of the buddy allocator at boot: \<open>new\<close> establishes the invariant, \<open>mark_present_range\<close> and
  \<open>release_range\<close> keep it and change exactly the pages of their range.
\<close>

section \<open>A new allocator\<close>

lemma BuddyAllocator_new_Ok:
  assumes "PhysRange_ok r" "BuddyAllocator_new ptr bytes r = Ok b"
  shows "ba_managed b = r" "ba_base_pfn b = pr_start r div PAGE_SIZE"
    "ba_page_count b = pr_end r div PAGE_SIZE - pr_start r div PAGE_SIZE"
    "ba_metadata b = replicate (ba_page_count b) Page_absent"
    "PAGE_SIZE dvd pr_start r" "PAGE_SIZE dvd pr_end r"
    "zone_of b Dma32 = (if ba_base_pfn b < DMA32_LIMIT_PFN
       then Zone_new (ba_base_pfn b) (min (ba_base_pfn b + ba_page_count b) DMA32_LIMIT_PFN)
       else Zone_new (ba_base_pfn b) (ba_base_pfn b))"
    "zone_of b NormalZone = Zone_new (min (max (ba_base_pfn b) DMA32_LIMIT_PFN) (ba_base_pfn b + ba_page_count b))
       (ba_base_pfn b + ba_page_count b)"
    "length (ba_zones b) = 2"
proof -
  have al: "PAGE_SIZE dvd pr_start r" "PAGE_SIZE dvd pr_end r"
    using assms(2)
    by (auto simp: BuddyAllocator_new_def BuddyAllocator_required_metadata_bytes_def PhysRange_is_page_aligned_def
        mod_eq_0_iff_dvd split: if_splits)
  then show "PAGE_SIZE dvd pr_start r" "PAGE_SIZE dvd pr_end r" .
  have "PhysRange_size r div PAGE_SIZE = pr_end r div PAGE_SIZE - pr_start r div PAGE_SIZE"
    using al by (auto simp: PhysRange_size_def diff_mult_distrib2 [symmetric] elim!: dvdE)
  then show "ba_managed b = r" "ba_base_pfn b = pr_start r div PAGE_SIZE"
    "ba_page_count b = pr_end r div PAGE_SIZE - pr_start r div PAGE_SIZE"
    "ba_metadata b = replicate (ba_page_count b) Page_absent"
    "zone_of b Dma32 = (if ba_base_pfn b < DMA32_LIMIT_PFN
       then Zone_new (ba_base_pfn b) (min (ba_base_pfn b + ba_page_count b) DMA32_LIMIT_PFN)
       else Zone_new (ba_base_pfn b) (ba_base_pfn b))"
    "zone_of b NormalZone = Zone_new (min (max (ba_base_pfn b) DMA32_LIMIT_PFN) (ba_base_pfn b + ba_page_count b))
       (ba_base_pfn b + ba_page_count b)"
    "length (ba_zones b) = 2"
    using assms(2) by (auto simp: BuddyAllocator_new_def Let_def zone_of_def checked_add_def split: if_splits)
qed

lemma BuddyAllocator_new_inv:
  assumes "PhysRange_ok r" "BuddyAllocator_new ptr bytes r = Ok b"
  shows "buddy_inv b" "\<And>p. pg_state (pv b p) = Absent"
proof -
  note new = BuddyAllocator_new_Ok [OF assms]
  have view: "pv b p = Page_absent" for p
    using new(4) by (auto simp: pv_def managed_def)
  then show abs: "pg_state (pv b p) = Absent" for p by (simp add: Page_absent_def)
  have len: "length (zn_free_area (zone_of b k)) = MAX_ORDER" for k
    using new(7,8) by (cases k) (auto simp: Zone_new_def)
  have area: "area_of b k n = FreeArea_EMPTY" if "n < MAX_ORDER" for k n
    using that new(7,8) by (cases k) (auto simp: area_of_def Zone_new_def)
  have le: "pr_start r \<le> pr_end r" "pr_end r \<le> usize_MAX" using assms(1) by (simp_all add: PhysRange_ok_def)
  have "buddy_wf b"
    unfolding buddy_wf_def
  proof (intro conjI)
    show "length (ba_metadata b) = ba_page_count b" by (simp add: new(4))
    show "pr_start (ba_managed b) = ba_base_pfn b * PAGE_SIZE" using new(1,2,5) by simp
    show "pr_end (ba_managed b) = (ba_base_pfn b + ba_page_count b) * PAGE_SIZE"
      using new(1-3,5,6) le(1) div_le_mono [of "pr_start r" "pr_end r" PAGE_SIZE] by simp
    show "pr_end (ba_managed b) \<le> usize_MAX" using new(1) le(2) by simp
    show "zone_pfns b Dma32 = managed b \<inter> {..<DMA32_LIMIT_PFN}"
      by (auto simp: zone_pfns_def new(7) Zone_new_def managed_def)
    show "zone_pfns b NormalZone = managed b \<inter> {DMA32_LIMIT_PFN..}"
      by (auto simp: zone_pfns_def new(8) Zone_new_def managed_def)
  qed (use new(9) len in auto)
  moreover have "counters_ok b"
    unfolding counters_ok_def
  proof
    fix k
    have "zn_free_pages (zone_of b k) = 0 \<and> zn_present_pages (zone_of b k) = 0"
      using new(7,8) by (cases k) (auto simp: Zone_new_def)
    then show "zn_free_pages (zone_of b k) = card (free_set b k) \<and> zn_present_pages (zone_of b k) = card (present_set b k)"
      by (simp add: free_set_def present_set_def is_free_def abs)
  qed
  moreover have "heads_ok b" using abs by (simp add: heads_ok_def)
  moreover have "free_lists b (\<lambda>_ _. []) {}"
    using area abs by (simp add: free_lists_def flist_ok_def FreeArea_EMPTY_def is_free_def)
  moreover have "coalesced (\<lambda>_ _. [])" by (simp add: coalesced_def)
  ultimately show "buddy_inv b" by (auto simp: buddy_inv_def)
qed

section \<open>Ranges of pages\<close>

definition range_pfns :: "PhysRange \<Rightarrow> nat set" where
  "range_pfns r = {pr_start r div PAGE_SIZE..<pr_end r div PAGE_SIZE}"

lemma validate_range_cases:
  assumes "buddy_wf b"
  shows "validate_range b r = Ok (pr_start r div PAGE_SIZE, pr_end r div PAGE_SIZE) \<and> range_pfns r \<subseteq> managed b
    \<or> (\<exists>e. validate_range b r = Err e)"
proof (cases "PhysRange_contains_range (ba_managed b) r")
  case True
  then have "ba_base_pfn b \<le> pr_start r div PAGE_SIZE" "pr_end r div PAGE_SIZE \<le> ba_base_pfn b + ba_page_count b"
    using assms div_le_mono [of "ba_base_pfn b * PAGE_SIZE" "pr_start r" PAGE_SIZE]
      div_le_mono [of "pr_end r" "(ba_base_pfn b + ba_page_count b) * PAGE_SIZE" PAGE_SIZE]
    by (auto simp: PhysRange_contains_range_def buddy_wf_def)
  then have "range_pfns r \<subseteq> managed b" by (auto simp: range_pfns_def managed_def)
  with True show ?thesis by (auto simp: validate_range_def)
qed (auto simp: validate_range_def)

lemma check_states_cases:
  assumes "set ps \<subseteq> managed b"
  shows "check_states b st ps = Ok () \<and> (\<forall>p \<in> set ps. pg_state (pv b p) = st)
    \<or> (\<exists>p. check_states b st ps = Err (PageStateConflict p (pg_state (pv b p))) \<and> p \<in> set ps \<and> pg_state (pv b p) \<noteq> st)"
  using assms by (induction ps) (auto simp: buddy_page_managed)

section \<open>Marking pages present\<close>

lemma mark_present_page_Ok:
  assumes "buddy_inv b" "p \<in> managed b" "pg_state (pv b p) = Absent"
  obtains b' where "mark_present_page p b = (Ok (), b')" "buddy_inv b'" "same_shape b b'"
    "pg_state (pv b' p) = Reserved" "\<And>q. q \<noteq> p \<Longrightarrow> pv b' q = pv b q"
proof -
  from assms(1) obtain fl where wfb: "buddy_wf b" and fl: "free_lists b fl {}" "coalesced fl" and cnt: "counters_ok b"
    and heads: "heads_ok b" by (auto simp: buddy_inv_def)
  obtain k where k: "p \<in> zone_pfns b k" using managed_in_zone [OF wfb assms(2)] by blast
  let ?f = "\<lambda>page. page\<lparr>pg_state := Reserved, pg_order := INVALID_ORDER, pg_zone := ZoneKind_index k,
      pg_next := INVALID_PFN, pg_previous := INVALID_PFN, pg_reference_count := 0\<rparr>"
  define b1 where "b1 = set_page p ?f b"
  have s1: "same_shape b b1" using set_page_shape by (simp add: b1_def)
  have w1: "buddy_wf b1" by (rule same_shape_wf [OF s1 wfb])
  have v1: "pv b1 = (pv b)(p := ?f (pv b p))" by (simp add: b1_def set_page_view [OF wfb assms(2)])
  let ?n = "zn_present_pages (zone_of b k) + 1"
  define b' where "b' = zone_mut k (\<lambda>z. z\<lparr>zn_present_pages := ?n\<rparr>) b1"
  have s': "same_shape b b'"
    unfolding b'_def by (rule same_shape_trans [OF s1 zone_mut_shape [OF w1]]) simp_all
  have v': "pv b' = (pv b)(p := ?f (pv b p))" by (simp add: b'_def v1)
  have z': "zone_of b' = (zone_of b)(k := (zone_of b k)\<lparr>zn_present_pages := ?n\<rparr>)"
    by (simp add: b'_def zone_mut_zone [OF w1]) (simp add: b1_def)
  have ps: "present_set b' j = (if j = k then insert p (present_set b k) else present_set b j)" for j
  proof -
    have st: "pg_state (pv b' q) \<noteq> Absent \<longleftrightarrow> q = p \<or> pg_state (pv b q) \<noteq> Absent" for q by (simp add: v')
    have "p \<in> zone_pfns b j \<longleftrightarrow> j = k" using k zone_pfns_disjoint [OF wfb k, of j] by blast
    then show ?thesis unfolding present_set_def same_shape_zone_pfns [OF s'] st by auto
  qed
  have isf: "is_free b' q = is_free b q" for q using assms(3) by (auto simp: is_free_def v')
  have fin: "finite (present_set b k)" by (simp add: present_set_def)
  have card: "card (insert p (present_set b k)) = ?n"
    using cnt assms(3) fin by (simp add: counters_ok_def present_set_def)
  have "insert p (present_set b k) \<subseteq> zone_pfns b k" using k by (auto simp: present_set_def)
  then have "?n \<le> usize_MAX" using card_zone_bound [OF wfb] card by metis
  then have run: "mark_present_page p b = (Ok (), b')"
    by (simp add: mark_present_page_def sbind_def sread_def zone_kind_for_pfn_Ok [OF wfb k] sseq_def
        page_mut_managed [OF assms(2)] b1_def [symmetric] add_usize_def checked_add_def smodify_def b'_def)
      (simp add: b1_def add_usize_def checked_add_def)
  have "counters_ok b'"
    unfolding counters_ok_def
  proof
    fix j
    have "free_set b' j = free_set b j" using isf same_shape_zone_pfns [OF s'] by (simp add: free_set_def)
    then show "zn_free_pages (zone_of b' j) = card (free_set b' j)
        \<and> zn_present_pages (zone_of b' j) = card (present_set b' j)"
      using cnt card by (simp add: z' ps counters_ok_def)
  qed
  moreover have "heads_ok b'"
    using heads same_shape_managed [OF s'] by (auto simp: heads_ok_def v')
  moreover have "free_lists b' fl {}"
  proof -
    have area: "area_of b' = area_of b" by (auto simp: area_of_def z' fun_eq_iff)
    have nf: "\<not> is_free b q" if "q \<in> {p}" for q using that assms(3) by (simp add: is_free_def)
    have "free_lists b' fl {p}"
      by (rule free_lists_change [OF free_lists_add [OF fl(1) nf] s' area]) (auto simp: v')
    then show ?thesis using free_lists_drop nf isf by blast
  qed
  ultimately have "buddy_inv b'" using fl(2) same_shape_wf [OF s' wfb] by (auto simp: buddy_inv_def)
  with run s' show ?thesis by (intro that [of b']) (simp_all add: v')
qed

lemma mark_present_pages_Ok:
  assumes "buddy_inv b" "set ps \<subseteq> managed b" "\<forall>p \<in> set ps. pg_state (pv b p) = Absent" "distinct ps"
  shows "\<exists>b'. sforeach mark_present_page ps b = (Ok (), b') \<and> buddy_inv b' \<and> same_shape b b'
    \<and> (\<forall>q. q \<in> set ps \<longrightarrow> pg_state (pv b' q) = Reserved) \<and> (\<forall>q. q \<notin> set ps \<longrightarrow> pv b' q = pv b q)"
  using assms
proof (induction ps arbitrary: b)
  case Nil
  then show ?case by (simp add: sreturn_def)
next
  case (Cons p ps)
  obtain b1 where b1: "mark_present_page p b = (Ok (), b1)" "buddy_inv b1" "same_shape b b1"
    "pg_state (pv b1 p) = Reserved" "\<And>q. q \<noteq> p \<Longrightarrow> pv b1 q = pv b q"
    using mark_present_page_Ok [OF Cons.prems(1), of p] Cons.prems(2,3) by auto
  have abs: "pg_state (pv b1 q) = Absent" if "q \<in> set ps" for q
    using that Cons.prems(3,4) b1(5) [of q] by (cases "q = p") auto
  have "set ps \<subseteq> managed b1" using Cons.prems(2) same_shape_managed [OF b1(3)] by simp
  from Cons.IH [OF b1(2) this] abs Cons.prems(4)
  obtain b' where b': "sforeach mark_present_page ps b1 = (Ok (), b')" "buddy_inv b'" "same_shape b1 b'"
    "\<And>q. q \<in> set ps \<Longrightarrow> pg_state (pv b' q) = Reserved" "\<And>q. q \<notin> set ps \<Longrightarrow> pv b' q = pv b1 q"
    by auto
  have "pg_state (pv b' q) = Reserved" if "q \<in> set (p # ps)" for q
    using that b'(4,5) [of q] b1(4) by (cases "q \<in> set ps") auto
  moreover have "pv b' q = pv b q" if "q \<notin> set (p # ps)" for q using that b'(5) b1(5) by simp
  ultimately show ?case
    using b'(1,2) b1(1) same_shape_trans [OF b1(3) b'(3)] by (auto simp: sseq_def sbind_def)
qed

lemma BuddyAllocator_mark_present_range_cases:
  assumes "buddy_inv b"
  shows "(\<exists>b'. BuddyAllocator_mark_present_range r b = (Ok (), b') \<and> buddy_inv b' \<and> same_shape b b'
      \<and> range_pfns r \<subseteq> managed b \<and> (\<forall>p \<in> range_pfns r. pg_state (pv b p) = Absent \<and> pg_state (pv b' p) = Reserved)
      \<and> (\<forall>p. p \<notin> range_pfns r \<longrightarrow> pv b' p = pv b p))
    \<or> (\<exists>e. BuddyAllocator_mark_present_range r b = (Err e, b))"
proof -
  have wfb: "buddy_wf b" using assms by (simp add: buddy_inv_def)
  let ?ps = "[pr_start r div PAGE_SIZE..<pr_end r div PAGE_SIZE]"
  have set: "set ?ps = range_pfns r" by (simp add: range_pfns_def)
  from validate_range_cases [OF wfb, of r] show ?thesis
  proof
    assume v: "validate_range b r = Ok (pr_start r div PAGE_SIZE, pr_end r div PAGE_SIZE) \<and> range_pfns r \<subseteq> managed b"
    then have m: "set ?ps \<subseteq> managed b" using set by simp
    from check_states_cases [OF m, of Absent] show ?thesis
    proof
      assume c: "check_states b Absent ?ps = Ok () \<and> (\<forall>p \<in> set ?ps. pg_state (pv b p) = Absent)"
      from mark_present_pages_Ok [OF assms m, simplified] c v
      obtain b' where "sforeach mark_present_page ?ps b = (Ok (), b')" "buddy_inv b'" "same_shape b b'"
        "\<And>q. q \<in> set ?ps \<Longrightarrow> pg_state (pv b' q) = Reserved" "\<And>q. q \<notin> set ?ps \<Longrightarrow> pv b' q = pv b q"
        by auto
      with c v set show ?thesis
        by (auto simp: BuddyAllocator_mark_present_range_def sbind_def sseq_def sread_def)
    qed (use v in \<open>auto simp: BuddyAllocator_mark_present_range_def sbind_def sseq_def sread_def\<close>)
  qed (auto simp: BuddyAllocator_mark_present_range_def sbind_def sread_def)
qed

section \<open>Releasing pages\<close>

lemma and_mask_dvd: "p AND (2 ^ n - 1) = 0 \<longleftrightarrow> 2 ^ n dvd (p :: nat)"
proof -
  have "p AND (2 ^ n - 1) = take_bit n p" by (simp add: take_bit_eq_mask mask_eq_exp_minus_1)
  then show ?thesis by (simp add: take_bit_eq_mod mod_eq_0_iff_dvd)
qed

lemma largest_block_order_loop_spec:
  "2 ^ n dvd p \<Longrightarrow> 2 ^ n \<le> r \<Longrightarrow> n < MAX_ORDER \<Longrightarrow>
   2 ^ largest_block_order_loop p r n dvd p \<and> 2 ^ largest_block_order_loop p r n \<le> r
   \<and> largest_block_order_loop p r n < MAX_ORDER"
proof (induction "MAX_ORDER - n" arbitrary: n rule: less_induct)
  case less
  show ?case
  proof (cases "n + 1 < MAX_ORDER \<and> 2 ^ (n + 1) \<le> r \<and> p AND (2 ^ (n + 1) - 1) = 0")
    case True
    then have "2 ^ (n + 1) dvd p" using and_mask_dvd by blast
    moreover have "largest_block_order_loop p r n = largest_block_order_loop p r (n + 1)"
      using True by (subst largest_block_order_loop.simps) (simp add: Let_def)
    moreover have "MAX_ORDER - (n + 1) < MAX_ORDER - n" using True by linarith
    ultimately show ?thesis using less.hyps [of "n + 1"] True by presburger
  next
    case False
    then have "largest_block_order_loop p r n = n"
      by (subst largest_block_order_loop.simps) (auto simp: Let_def)
    with less.prems show ?thesis by simp
  qed
qed

lemma largest_block_order_spec:
  assumes "0 < r"
  shows "2 ^ largest_block_order p r dvd p" "2 ^ largest_block_order p r \<le> r" "largest_block_order p r < MAX_ORDER"
  using largest_block_order_loop_spec [of 0 p r] assms by (auto simp: largest_block_order_def MAX_ORDER_def)

lemma release_block_Ok:
  assumes "buddy_inv b" "p < e" "{p..<e} \<subseteq> managed b" "\<And>q. q \<in> {p..<e} \<Longrightarrow> pg_state (pv b q) = Reserved"
  obtains b' n where "release_block p e b = (Ok (p + 2 ^ n), b')" "buddy_inv b'" "free_step b p n b'"
    "p + 2 ^ n \<le> e"
proof -
  have wfb: "buddy_wf b" using assms(1) by (simp add: buddy_inv_def)
  have pm: "p \<in> managed b" using assms(2,3) by auto
  then obtain k where k: "p \<in> zone_pfns b k" using managed_in_zone [OF wfb] by blast
  let ?e = "min e (zn_end_pfn (zone_of b k))"
  have pe: "p < ?e" "zn_start_pfn (zone_of b k) \<le> p" using k assms(2) by (simp_all add: zone_pfns_def)
  let ?n = "largest_block_order p (?e - p)"
  note o = largest_block_order_spec [of "?e - p" p]
  have n: "2 ^ ?n dvd p" "p + 2 ^ ?n \<le> ?e" "?n < MAX_ORDER" using o pe by auto
  have blk: "block p ?n \<subseteq> {p..<e}" using n(2) by (auto simp: block_def)
  have zn: "block p ?n \<subseteq> zone_pfns b k" using n(2) pe by (auto simp: block_def zone_pfns_def)
  have st: "pg_state (pv b q) \<noteq> Absent \<and> \<not> is_free b q" if "q \<in> block p ?n" for q
    using assms(4) blk that by (auto simp: is_free_def)
  obtain b' where b': "sseq (coalesce_and_insert p ?n k) (add_free_pages k (2 ^ ?n)) b = (Ok (), b')"
    "buddy_inv b'" "free_step b p ?n b'"
    using free_block_back [OF assms(1) n(3,1) zn st] by blast
  have "p + 2 ^ ?n \<le> usize_MAX"
  proof -
    have "(0::nat) < 2 ^ ?n" by simp
    then have "p + 2 ^ ?n - 1 \<in> block p ?n" unfolding block_def atLeastLessThan_iff by linarith
    then have "p + 2 ^ ?n - 1 \<in> managed b" using zn zone_pfns_managed [OF wfb] by blast
    from managed_bound(1) [OF wfb this] show ?thesis by (simp add: INVALID_PFN_def)
  qed
  then have add: "add_usize p (2 ^ ?n) = (Ok (p + 2 ^ ?n) :: (nat, BuddyError) result)"
    by (simp add: add_usize_def checked_add_def)
  have sub: "sub_usize ?e p = (Ok (?e - p) :: (nat, BuddyError) result)"
    using pe by (simp add: sub_usize_def checked_sub_def)
  from b'(1) obtain b1 where b1: "coalesce_and_insert p ?n k b = (Ok (), b1)" "add_free_pages k (2 ^ ?n) b1 = (Ok (), b')"
    by (auto simp: sseq_eq_Ok)
  have "release_block p e b = (Ok (p + 2 ^ ?n), b')"
    unfolding release_block_def
    by (simp add: sbind_def sread_def zone_kind_for_pfn_Ok [OF wfb k] sget_def slift_def sub Let_def sseq_def
        free_reserved_block_def b1 add)
  with b'(2,3) n(2) show ?thesis by (intro that [of ?n b']) auto
qed

lemma release_loop_Ok:
  assumes "buddy_inv b" "{p..<e} \<subseteq> managed b" "\<And>q. q \<in> {p..<e} \<Longrightarrow> pg_state (pv b q) = Reserved"
  shows "\<exists>b'. release_loop p e b = (Ok (), b') \<and> buddy_inv b' \<and> same_shape b b'
    \<and> (\<forall>x. is_free b' x \<longleftrightarrow> is_free b x \<or> x \<in> {p..<e})
    \<and> (\<forall>x. \<not> is_free b' x \<longrightarrow> marks (pv b' x) = marks (pv b x))"
  using assms
proof (induction "e - p" arbitrary: p b rule: less_induct)
  case less
  show ?case
  proof (cases "p < e")
    case False
    with less.prems(1) show ?thesis by (simp add: release_loop.simps)
  next
    case True
    obtain b1 n where b1: "release_block p e b = (Ok (p + 2 ^ n), b1)" "buddy_inv b1" "free_step b p n b1"
      "p + 2 ^ n \<le> e"
      using release_block_Ok [OF less.prems(1) True less.prems(2,3)] by blast
    note st = b1(3) [unfolded free_step_def]
    let ?p = "p + 2 ^ n"
    have m1: "{?p..<e} \<subseteq> managed b1" using less.prems(2) same_shape_managed [of b b1] st by auto
    have r1: "pg_state (pv b1 q) = Reserved" if q: "q \<in> {?p..<e}" for q
    proof -
      have "pg_state (pv b q) = Reserved" using q less.prems(3) by simp
      moreover from this have "\<not> is_free b1 q" using q st by (auto simp: is_free_def block_def)
      ultimately show ?thesis using st marks_eqD(1) by metis
    qed
    have "(0::nat) < 2 ^ n" by simp
    then have "e - ?p < e - p" using True by linarith
    from less.hyps [OF this b1(2) m1 r1]
    obtain b' where b': "release_loop ?p e b1 = (Ok (), b')" "buddy_inv b'" "same_shape b1 b'"
      "\<And>x. is_free b' x \<longleftrightarrow> is_free b1 x \<or> x \<in> {?p..<e}"
      "\<And>x. \<not> is_free b' x \<Longrightarrow> marks (pv b' x) = marks (pv b1 x)"
      by blast
    have split: "{p..<e} = block p n \<union> {?p..<e}" using b1(4) by (auto simp: block_def)
    have "is_free b' x \<longleftrightarrow> is_free b x \<or> x \<in> {p..<e}" for x
      unfolding split using b'(4) [of x] st by blast
    moreover have "marks (pv b' x) = marks (pv b x)" if "\<not> is_free b' x" for x
      using b'(4,5) [of x] st that by metis
    moreover have "release_loop p e b = (Ok (), b')"
      using True b1(1) b'(1) by (subst release_loop.simps) simp
    ultimately show ?thesis using b'(2) same_shape_trans [of b b1 b'] b'(3) st by blast
  qed
qed

lemma BuddyAllocator_release_range_cases:
  assumes "buddy_inv b"
  shows "(\<exists>b'. BuddyAllocator_release_range r b = (Ok (), b') \<and> buddy_inv b' \<and> same_shape b b'
      \<and> range_pfns r \<subseteq> managed b \<and> (\<forall>p \<in> range_pfns r. pg_state (pv b p) = Reserved)
      \<and> (\<forall>x. is_free b' x \<longleftrightarrow> is_free b x \<or> x \<in> range_pfns r)
      \<and> (\<forall>x. \<not> is_free b' x \<longrightarrow> marks (pv b' x) = marks (pv b x)))
    \<or> (\<exists>e. BuddyAllocator_release_range r b = (Err e, b))"
proof -
  have wfb: "buddy_wf b" using assms by (simp add: buddy_inv_def)
  let ?s = "pr_start r div PAGE_SIZE" and ?e = "pr_end r div PAGE_SIZE"
  have set: "set [?s..<?e] = range_pfns r" by (simp add: range_pfns_def)
  from validate_range_cases [OF wfb, of r] show ?thesis
  proof
    assume v: "validate_range b r = Ok (?s, ?e) \<and> range_pfns r \<subseteq> managed b"
    then have m: "set [?s..<?e] \<subseteq> managed b" using set by simp
    from check_states_cases [OF m, of Reserved] show ?thesis
    proof
      assume c: "check_states b Reserved [?s..<?e] = Ok () \<and> (\<forall>p \<in> set [?s..<?e]. pg_state (pv b p) = Reserved)"
      then have st: "\<And>q. q \<in> {?s..<?e} \<Longrightarrow> pg_state (pv b q) = Reserved" by simp
      have mm: "{?s..<?e} \<subseteq> managed b" using m by simp
      from release_loop_Ok [OF assms mm st] c v show ?thesis
        by (auto simp: BuddyAllocator_release_range_def sbind_def sseq_def sread_def range_pfns_def)
    qed (use v in \<open>auto simp: BuddyAllocator_release_range_def sbind_def sseq_def sread_def\<close>)
  qed (auto simp: BuddyAllocator_release_range_def sbind_def sread_def)
qed

end
