(* ===== verification/Memory_Map.thy ===== *)
theory Memory_Map
  imports Address
begin

text \<open>
  The boot-time table of usable physical memory, \<open>mm/src/map.rs\<close>.

  \<open>MemoryMap\<close> is the fixed-capacity array of optional ranges; \<open>CAPACITY\<close> is the length of that array.
  \<open>add_usable\<close> and \<open>reserve\<close> build a new array entry by entry through \<open>push_entry\<close> and commit it only
  at the end. The invariant is the one the source documents (sorted, page aligned, non-empty, disjoint,
  not even touching, packed at the front); the abstraction is the set of usable addresses. The lemmas
  show that the two operations are set union and set difference at page granularity, that they fail
  only when the normalised result does not fit, and that a failure leaves the table alone.
\<close>

datatype MemoryMapError = CapacityExceeded

record MemoryMap =
  mm_free :: "PhysRange option list"

definition MemoryMap_new :: "usize \<Rightarrow> MemoryMap" where
  "MemoryMap_new CAPACITY = \<lparr>mm_free = replicate CAPACITY None\<rparr>"

definition flatten :: "'a option list \<Rightarrow> 'a list" where
  "flatten xs = map the (filter (\<lambda>x. x \<noteq> None) xs)"

definition MemoryMap_iter :: "MemoryMap \<Rightarrow> PhysRange list" where
  "MemoryMap_iter self = flatten (mm_free self)"

definition MemoryMap_len :: "MemoryMap \<Rightarrow> usize" where
  "MemoryMap_len self = length (MemoryMap_iter self)"

definition MemoryMap_is_empty :: "MemoryMap \<Rightarrow> bool" where
  "MemoryMap_is_empty self \<longleftrightarrow> MemoryMap_len self = 0"

primrec sum_sizes :: "PhysRange list \<Rightarrow> usize \<Rightarrow> usize option" where
  "sum_sizes [] acc = Some acc"
| "sum_sizes (r # rs) acc =
     (case checked_add acc (PhysRange_size r) of
        None \<Rightarrow> None
      | Some acc' \<Rightarrow> sum_sizes rs acc')"

definition MemoryMap_total_bytes :: "MemoryMap \<Rightarrow> usize option" where
  "MemoryMap_total_bytes self = sum_sizes (MemoryMap_iter self) 0"

text \<open>The output array under construction and the number of entries written to it.\<close>

type_synonym entries = "PhysRange option list \<times> usize"

definition push_entry :: "PhysRange \<Rightarrow> entries \<Rightarrow> (entries, MemoryMapError) result" where
  "push_entry rng out =
     (case out of (entries, len) \<Rightarrow>
        if PhysRange_is_empty rng then Ok (entries, len)
        else if length entries \<le> len then Err CapacityExceeded
        else Ok (entries[len := Some rng], len + 1))"

fun insert_merged_loop ::
  "PhysRange list \<Rightarrow> PhysRange option \<Rightarrow> entries \<Rightarrow>
   (PhysRange option \<times> entries, MemoryMapError) result" where
  "insert_merged_loop [] pending out = Ok (pending, out)"
| "insert_merged_loop (current # rest) (Some candidate) out =
     (if pr_end current < pr_start candidate then
        rbind (push_entry current out) (\<lambda>out. insert_merged_loop rest (Some candidate) out)
      else if pr_end candidate < pr_start current then
        rbind (push_entry candidate out) (\<lambda>out.
        rbind (push_entry current out) (\<lambda>out. insert_merged_loop rest None out))
      else insert_merged_loop rest (Some (PhysRange_span candidate current)) out)"
| "insert_merged_loop (current # rest) None out =
     rbind (push_entry current out) (\<lambda>out. insert_merged_loop rest None out)"

definition MemoryMap_insert_merged ::
  "PhysRange \<Rightarrow> (MemoryMap, unit, MemoryMapError) action" where
  "MemoryMap_insert_merged rng self =
     (case rbind (insert_merged_loop (MemoryMap_iter self) (Some rng)
                   (replicate (length (mm_free self)) None, 0))
             (\<lambda>(pending, out).
                case pending of Some candidate \<Rightarrow> push_entry candidate out | None \<Rightarrow> Ok out) of
        Ok (output, _) \<Rightarrow> (Ok (), self\<lparr>mm_free := output\<rparr>)
      | Err e \<Rightarrow> (Err e, self)
      | Panic \<Rightarrow> (Panic, self))"

definition MemoryMap_add_usable :: "PhysRange \<Rightarrow> (MemoryMap, unit, MemoryMapError) action" where
  "MemoryMap_add_usable rng self =
     (case PhysRange_page_aligned_inside rng of
        None \<Rightarrow> (Ok (), self)
      | Some rng' \<Rightarrow> MemoryMap_insert_merged rng' self)"

fun reserve_loop ::
  "PhysRange \<Rightarrow> PhysRange list \<Rightarrow> entries \<Rightarrow> (entries, MemoryMapError) result" where
  "reserve_loop reserved [] out = Ok out"
| "reserve_loop reserved (current # rest) out =
     (if \<not> PhysRange_overlaps current reserved then
        rbind (push_entry current out) (\<lambda>out. reserve_loop reserved rest out)
      else
        rbind (if pr_start current < pr_start reserved
               then rbind (expect (PhysRange_new (pr_start current) (pr_start reserved)))
                      (\<lambda>left. push_entry left out)
               else Ok out) (\<lambda>out.
        rbind (if pr_end reserved < pr_end current
               then rbind (expect (PhysRange_new (pr_end reserved) (pr_end current)))
                      (\<lambda>right. push_entry right out)
               else Ok out) (\<lambda>out.
        reserve_loop reserved rest out)))"

definition MemoryMap_reserve :: "PhysRange \<Rightarrow> (MemoryMap, unit, MemoryMapError) action" where
  "MemoryMap_reserve rng self =
     (case PhysRange_covering_pages rng of
        None \<Rightarrow> (Ok (), self)
      | Some reserved \<Rightarrow>
          (case reserve_loop reserved (MemoryMap_iter self)
                  (replicate (length (mm_free self)) None, 0) of
             Ok (output, _) \<Rightarrow> (Ok (), self\<lparr>mm_free := output\<rparr>)
           | Err e \<Rightarrow> (Err e, self)
           | Panic \<Rightarrow> (Panic, self)))"

section \<open>The documented invariant\<close>

text \<open>Page aligned, not empty, inside the address space.\<close>

definition usable_range :: "PhysRange \<Rightarrow> bool" where
  "usable_range r \<longleftrightarrow>
     PhysRange_is_page_aligned r \<and> pr_start r < pr_end r \<and> pr_end r \<le> usize_MAX"

text \<open>Ascending with a gap between neighbours: sorted, disjoint and not adjacent.\<close>

fun normalized :: "PhysRange list \<Rightarrow> bool" where
  "normalized [] \<longleftrightarrow> True"
| "normalized [r] \<longleftrightarrow> usable_range r"
| "normalized (r # s # rs) \<longleftrightarrow> usable_range r \<and> pr_end r < pr_start s \<and> normalized (s # rs)"

definition packed :: "nat \<Rightarrow> 'a list \<Rightarrow> 'a option list" where
  "packed cap xs = map Some xs @ replicate (cap - length xs) None"

definition MemoryMap_inv :: "MemoryMap \<Rightarrow> bool" where
  "MemoryMap_inv m \<longleftrightarrow>
     mm_free m = packed (length (mm_free m)) (MemoryMap_iter m) \<and> normalized (MemoryMap_iter m)"

definition ranges_addrs :: "PhysRange list \<Rightarrow> PhysAddr set" where
  "ranges_addrs rs = (\<Union>r \<in> set rs. PhysRange_set r)"

definition MemoryMap_addrs :: "MemoryMap \<Rightarrow> PhysAddr set" where
  "MemoryMap_addrs m = ranges_addrs (MemoryMap_iter m)"

text \<open>The page that holds an address, as a set of addresses.\<close>

definition page_of :: "PhysAddr \<Rightarrow> PhysAddr set" where
  "page_of a = {round_down PAGE_SIZE a..<round_down PAGE_SIZE a + PAGE_SIZE}"

section \<open>The list-level reference functions\<close>

fun merge_ranges :: "PhysRange list \<Rightarrow> PhysRange \<Rightarrow> PhysRange list" where
  "merge_ranges [] c = [c]"
| "merge_ranges (r # rs) c =
     (if pr_end r < pr_start c then r # merge_ranges rs c
      else if pr_end c < pr_start r then c # r # rs
      else merge_ranges rs (PhysRange_span c r))"

definition cut_range :: "PhysRange \<Rightarrow> PhysRange \<Rightarrow> PhysRange list" where
  "cut_range reserved r =
     (if \<not> PhysRange_overlaps r reserved then [r]
      else (if pr_start r < pr_start reserved
            then [\<lparr>pr_start = pr_start r, pr_end = pr_start reserved\<rparr>] else [])
         @ (if pr_end reserved < pr_end r
            then [\<lparr>pr_start = pr_end reserved, pr_end = pr_end r\<rparr>] else []))"

definition commit_entries :: "nat \<Rightarrow> PhysRange list \<Rightarrow> (entries, MemoryMapError) result" where
  "commit_entries cap xs =
     (if length xs \<le> cap then Ok (packed cap xs, length xs) else Err CapacityExceeded)"

lemma length_packed [simp]: "length xs \<le> cap \<Longrightarrow> length (packed cap xs) = cap"
  by (simp add: packed_def)

lemma packed_Nil [simp]: "packed cap [] = replicate cap None"
  by (simp add: packed_def)

lemma flatten_append [simp]: "flatten (xs @ ys) = flatten xs @ flatten ys"
  by (simp add: flatten_def)

lemma flatten_map_Some [simp]: "flatten (map Some xs) = xs"
  by (induction xs) (auto simp: flatten_def)

lemma flatten_replicate_None [simp]: "flatten (replicate n None) = []"
  by (induction n) (auto simp: flatten_def)

lemma flatten_packed [simp]: "flatten (packed cap xs) = xs"
  by (simp add: packed_def)

lemma packed_update:
  assumes "length xs < cap"
  shows "(packed cap xs)[length xs := Some x] = packed cap (xs @ [x])"
proof -
  have "cap - length xs = Suc (cap - Suc (length xs))"
    using assms by simp
  then show ?thesis
    by (simp add: packed_def list_update_append)
qed

lemma push_entry_packed:
  assumes "pr_start r < pr_end r" "length xs \<le> cap"
  shows "push_entry r (packed cap xs, length xs) = commit_entries cap (xs @ [r])"
  using assms by (simp add: push_entry_def PhysRange_is_empty_def commit_entries_def packed_update)

lemma push_entry_full [simp]:
  "pr_start r < pr_end r \<Longrightarrow> length es \<le> n \<Longrightarrow> push_entry r (es, n) = Err CapacityExceeded"
  by (simp add: push_entry_def PhysRange_is_empty_def)

lemma commit_entries_bind_Err:
  "\<not> length xs \<le> cap \<Longrightarrow> rbind (commit_entries cap xs) k = Err CapacityExceeded"
  by (simp add: commit_entries_def)

lemma commit_entries_bind_Ok:
  "length xs \<le> cap \<Longrightarrow> rbind (commit_entries cap xs) k = k (packed cap xs, length xs)"
  by (simp add: commit_entries_def)


definition finish_insert ::
  "PhysRange option \<times> entries \<Rightarrow> (entries, MemoryMapError) result" where
  "finish_insert = (\<lambda>(pending, out).
     case pending of Some candidate \<Rightarrow> push_entry candidate out | None \<Rightarrow> Ok out)"

lemma PhysRange_span_simps [simp]:
  "pr_start (PhysRange_span r s) = min (pr_start r) (pr_start s)"
  "pr_end (PhysRange_span r s) = max (pr_end r) (pr_end s)"
  by (simp_all add: PhysRange_span_def min_def max_def)

lemma insert_merged_loop_None:
  assumes "\<forall>r \<in> set rs. pr_start r < pr_end r" "length xs \<le> cap"
  shows "rbind (insert_merged_loop rs None (packed cap xs, length xs)) finish_insert =
         commit_entries cap (xs @ rs)"
  using assms
proof (induction rs arbitrary: xs)
  case (Cons r rs)
  show ?case
  proof (cases "length xs < cap")
    case True
    with Cons.IH [of "xs @ [r]"] Cons.prems show ?thesis
      by (simp add: push_entry_packed rbind_assoc commit_entries_bind_Ok)
  qed (use Cons.prems in \<open>simp add: push_entry_packed rbind_assoc commit_entries_def\<close>)
qed (simp add: finish_insert_def commit_entries_def)

lemma length_merge_ranges_pos: "0 < length (merge_ranges rs c)"
  by (induction rs c rule: merge_ranges.induct) auto

lemma insert_merged_loop_Some:
  assumes "\<forall>r \<in> set rs. pr_start r < pr_end r" "length xs \<le> cap" "pr_start c < pr_end c"
  shows "rbind (insert_merged_loop rs (Some c) (packed cap xs, length xs)) finish_insert =
         commit_entries cap (xs @ merge_ranges rs c)"
  using assms
proof (induction rs arbitrary: xs c)
  case Nil
  then show ?case
    by (simp add: finish_insert_def push_entry_packed)
next
  case (Cons r rs)
  consider (before) "pr_end r < pr_start c"
    | (after) "\<not> pr_end r < pr_start c" "pr_end c < pr_start r"
    | (touch) "\<not> pr_end r < pr_start c" "\<not> pr_end c < pr_start r" by blast
  then show ?case
  proof cases
    case before
    show ?thesis
    proof (cases "length xs < cap")
      case True
      with before Cons.IH [of "xs @ [r]" c] Cons.prems show ?thesis
        by (simp add: push_entry_packed rbind_assoc commit_entries_bind_Ok)
    qed (use before Cons.prems in \<open>simp add: push_entry_packed rbind_assoc commit_entries_def\<close>)
  next
    case after
    show ?thesis
    proof (cases "Suc (length xs) < cap")
      case True
      with after insert_merged_loop_None [of rs "xs @ [c, r]" cap] Cons.prems
        push_entry_packed [of r "xs @ [c]" cap]
      show ?thesis
        by (simp add: push_entry_packed rbind_assoc commit_entries_bind_Ok)
    next
      case False
      with after Cons.prems push_entry_packed [of r "xs @ [c]" cap] show ?thesis
        by (cases "length xs < cap")
          (simp_all add: push_entry_packed rbind_assoc commit_entries_def)
    qed
  next
    case touch
    with Cons.IH [of xs "PhysRange_span c r"] Cons.prems show ?thesis
      by (simp add: min_less_iff_disj less_max_iff_disj)
  qed
qed

lemma reserve_loop_packed:
  assumes "\<forall>r \<in> set rs. pr_start r < pr_end r" "length xs \<le> cap"
  shows "reserve_loop reserved rs (packed cap xs, length xs) =
         commit_entries cap (xs @ concat (map (cut_range reserved) rs))"
  using assms
proof (induction rs arbitrary: xs)
  case Nil
  then show ?case by (simp add: commit_entries_def)
next
  case (Cons r rs)
  have step: "reserve_loop reserved (r # rs) (packed cap xs, length xs) =
    rbind (commit_entries cap (xs @ cut_range reserved r)) (reserve_loop reserved rs)"
    using Cons.prems push_entry_packed [of _ "xs @ [\<lparr>pr_start = pr_start r, pr_end = pr_start reserved\<rparr>]" cap]
    by (cases "length xs < cap")
      (auto simp: cut_range_def push_entry_packed commit_entries_def PhysRange_new_def
        PhysRange_overlaps_def)
  show ?case
  proof (cases "length (xs @ cut_range reserved r) \<le> cap")
    case True
    with Cons.IH [of "xs @ cut_range reserved r"] Cons.prems show ?thesis
      by (simp add: step commit_entries_bind_Ok del: reserve_loop.simps)
  next
    case False
    then show ?thesis by (simp add: step commit_entries_def del: reserve_loop.simps)
  qed
qed


section \<open>Normal forms\<close>

lemma normalized_Cons:
  "normalized (r # rs) \<longleftrightarrow>
     usable_range r \<and> (\<forall>s \<in> set rs. pr_end r < pr_start s) \<and> normalized rs"
proof (induction rs arbitrary: r)
  case (Cons s rs)
  show ?case
    using Cons [of s] by (fastforce simp: usable_range_def)
qed simp

lemma normalized_iff:
  "normalized rs \<longleftrightarrow>
     (\<forall>r \<in> set rs. usable_range r) \<and> sorted_wrt (\<lambda>r s. pr_end r < pr_start s) rs"
  by (induction rs) (auto simp: normalized_Cons)

lemma usable_range_nonempty: "usable_range r \<Longrightarrow> pr_start r < pr_end r"
  by (simp add: usable_range_def)

lemma usable_range_span:
  "usable_range r \<Longrightarrow> usable_range s \<Longrightarrow> usable_range (PhysRange_span r s)"
  by (auto simp: usable_range_def PhysRange_is_page_aligned_def min_def max_def)

lemma ranges_addrs_Nil [simp]: "ranges_addrs [] = {}"
  by (simp add: ranges_addrs_def)

lemma ranges_addrs_Cons [simp]: "ranges_addrs (r # rs) = PhysRange_set r \<union> ranges_addrs rs"
  by (simp add: ranges_addrs_def)

lemma ranges_addrs_append [simp]: "ranges_addrs (rs @ ss) = ranges_addrs rs \<union> ranges_addrs ss"
  by (auto simp: ranges_addrs_def)

lemma PhysRange_set_span:
  "\<not> pr_end r < pr_start c \<Longrightarrow> \<not> pr_end c < pr_start r \<Longrightarrow>
   PhysRange_set (PhysRange_span c r) = PhysRange_set c \<union> PhysRange_set r"
  by (auto simp: PhysRange_set_def)

lemma merge_ranges_addrs: "ranges_addrs (merge_ranges rs c) = ranges_addrs rs \<union> PhysRange_set c"
  by (induction rs c rule: merge_ranges.induct) (auto simp: PhysRange_set_span)

lemma merge_ranges_starts:
  "s \<in> set (merge_ranges rs c) \<Longrightarrow> \<exists>t \<in> set (c # rs). pr_start s = pr_start t"
proof (induction rs c rule: merge_ranges.induct)
  case (2 r rs c)
  then show ?case
    by (auto split: if_splits simp: min_def)
qed simp

lemma merge_ranges_normalized:
  "normalized rs \<Longrightarrow> usable_range c \<Longrightarrow> normalized (merge_ranges rs c)"
proof (induction rs c rule: merge_ranges.induct)
  case (2 r rs c)
  then show ?case
    by (auto simp: normalized_Cons usable_range_span dest!: merge_ranges_starts)
      (meson order.strict_trans usable_range_nonempty)+
qed simp

lemma cut_range_usable:
  assumes "usable_range r" "PhysRange_is_page_aligned reserved" "s \<in> set (cut_range reserved r)"
  shows "usable_range s \<and> pr_start r \<le> pr_start s \<and> pr_end s \<le> pr_end r"
  using assms
  by (auto simp: cut_range_def usable_range_def PhysRange_is_page_aligned_def
      PhysRange_overlaps_def split: if_splits)

lemma cut_range_addrs:
  assumes "pr_start reserved \<le> pr_end reserved" "usable_range r"
  shows "ranges_addrs (cut_range reserved r) = PhysRange_set r - PhysRange_set reserved"
  using assms
  by (auto simp: cut_range_def PhysRange_overlaps_def PhysRange_set_def usable_range_def)

lemma cut_range_sorted:
  assumes "pr_start reserved < pr_end reserved" "usable_range r"
  shows "sorted_wrt (\<lambda>r s. pr_end r < pr_start s) (cut_range reserved r)"
  using assms by (simp add: cut_range_def)

lemma cut_ranges_addrs:
  assumes "pr_start reserved \<le> pr_end reserved" "\<forall>r \<in> set rs. usable_range r"
  shows "ranges_addrs (concat (map (cut_range reserved) rs)) =
         ranges_addrs rs - PhysRange_set reserved"
  using assms by (induction rs) (auto simp: cut_range_addrs)

lemma cut_ranges_normalized:
  assumes "pr_start reserved < pr_end reserved" "PhysRange_is_page_aligned reserved"
    and "normalized rs"
  shows "normalized (concat (map (cut_range reserved) rs))"
  using assms(3)
proof (induction rs)
  case (Cons r rs)
  have after: "pr_end s < pr_start t"
    if "s \<in> set (cut_range reserved r)" "u \<in> set rs" "t \<in> set (cut_range reserved u)" for s t u
  proof -
    have "pr_end s \<le> pr_end r" "pr_start u \<le> pr_start t" "pr_end r < pr_start u"
      using that Cons.prems cut_range_usable [OF _ assms(2)]
      by (auto simp: normalized_iff)
    then show ?thesis by simp
  qed
  have "usable_range r" "normalized (concat (map (cut_range reserved) rs))"
    using Cons by (simp_all add: normalized_Cons)
  then show ?case
    using after cut_range_usable [OF _ assms(2)] cut_range_sorted [OF assms(1)]
    by (auto simp: normalized_iff sorted_wrt_append)
qed simp

text \<open>A normal form is determined by the addresses it covers.\<close>

lemma normalized_head_start:
  assumes "normalized (r # rs)"
  shows "pr_start r = (LEAST a. a \<in> ranges_addrs (r # rs))"
proof (rule Least_equality [symmetric])
  show "pr_start r \<in> ranges_addrs (r # rs)"
    using assms by (simp add: normalized_Cons usable_range_def PhysRange_set_def)
  show "pr_start r \<le> a" if "a \<in> ranges_addrs (r # rs)" for a
    using that assms
    by (fastforce simp: normalized_Cons usable_range_def ranges_addrs_def PhysRange_set_def)
qed

lemma normalized_head_end:
  assumes "normalized (r # rs)"
  shows "pr_end r = (LEAST a. pr_start r \<le> a \<and> a \<notin> ranges_addrs (r # rs))"
proof (rule Least_equality [symmetric])
  show "pr_start r \<le> pr_end r \<and> pr_end r \<notin> ranges_addrs (r # rs)"
    using assms
    by (force simp: normalized_Cons usable_range_def ranges_addrs_def PhysRange_set_def)
  show "pr_end r \<le> a" if "pr_start r \<le> a \<and> a \<notin> ranges_addrs (r # rs)" for a
    using that by (auto simp: PhysRange_set_def)
qed

lemma ranges_addrs_tail:
  assumes "normalized (r # rs)"
  shows "ranges_addrs rs = ranges_addrs (r # rs) - PhysRange_set r"
  using assms by (fastforce simp: normalized_Cons ranges_addrs_def PhysRange_set_def)

lemma normalized_nonempty_addrs: "normalized (r # rs) \<Longrightarrow> ranges_addrs (r # rs) \<noteq> {}"
  by (auto simp: normalized_Cons usable_range_def PhysRange_set_def)

lemma normalized_unique:
  "normalized rs \<Longrightarrow> normalized ss \<Longrightarrow> ranges_addrs rs = ranges_addrs ss \<Longrightarrow> rs = ss"
proof (induction rs arbitrary: ss)
  case Nil
  then show ?case using normalized_nonempty_addrs by (cases ss) force+
next
  case (Cons r rs)
  then obtain s ss' where ss: "ss = s # ss'"
    using normalized_nonempty_addrs [OF Cons.prems(1)] by (cases ss) auto
  have "pr_start r = pr_start s"
    using Cons.prems normalized_head_start ss by metis
  moreover from this have "pr_end r = pr_end s"
    using Cons.prems normalized_head_end ss by metis
  ultimately have "r = s" by simp
  moreover have "ranges_addrs rs = ranges_addrs ss'"
    using Cons.prems ranges_addrs_tail ss \<open>r = s\<close> by metis
  ultimately show ?case
    using Cons ss by (simp add: normalized_Cons)
qed


section \<open>The operations\<close>

lemma MemoryMap_inv_nonempty:
  "MemoryMap_inv m \<Longrightarrow> r \<in> set (MemoryMap_iter m) \<Longrightarrow> pr_start r < pr_end r"
  by (auto simp: MemoryMap_inv_def normalized_iff usable_range_def)

lemma MemoryMap_inv_new: "MemoryMap_inv (MemoryMap_new cap)"
  by (simp add: MemoryMap_inv_def MemoryMap_new_def MemoryMap_iter_def packed_def)

lemma MemoryMap_insert_merged_eq:
  assumes "MemoryMap_inv m" "usable_range c"
  shows "MemoryMap_insert_merged c m =
    (let rs = merge_ranges (MemoryMap_iter m) c; cap = length (mm_free m) in
     if length rs \<le> cap then (Ok (), m\<lparr>mm_free := packed cap rs\<rparr>)
     else (Err CapacityExceeded, m))"
proof -
  have "rbind (insert_merged_loop (MemoryMap_iter m) (Some c) (replicate (length (mm_free m)) None, 0))
          finish_insert
        = commit_entries (length (mm_free m)) (merge_ranges (MemoryMap_iter m) c)"
    using insert_merged_loop_Some [of "MemoryMap_iter m" "[]" "length (mm_free m)" c] assms
    by (auto simp: MemoryMap_inv_nonempty usable_range_nonempty)
  then show ?thesis
    by (simp add: MemoryMap_insert_merged_def finish_insert_def commit_entries_def Let_def)
qed

lemma MemoryMap_update_normalized:
  assumes "normalized rs" "length rs \<le> length (mm_free m)"
    and "m' = m\<lparr>mm_free := packed (length (mm_free m)) rs\<rparr>"
  shows "MemoryMap_inv m'" "MemoryMap_iter m' = rs" "MemoryMap_addrs m' = ranges_addrs rs"
    "length (mm_free m') = length (mm_free m)"
  using assms by (simp_all add: MemoryMap_inv_def MemoryMap_iter_def MemoryMap_addrs_def)

lemma pages_inside_eq:
  assumes "PhysRange_ok r"
  shows "{a. page_of a \<subseteq> PhysRange_set r} =
         {round_up PAGE_SIZE (pr_start r)..<round_down PAGE_SIZE (pr_end r)}"
proof (intro set_eqI iffI)
  fix a
  assume "a \<in> {a. page_of a \<subseteq> PhysRange_set r}"
  then have *: "pr_start r \<le> round_down PAGE_SIZE a" "round_down PAGE_SIZE a + PAGE_SIZE \<le> pr_end r"
    by (auto simp: page_of_def PhysRange_set_def)
  then have "round_up PAGE_SIZE (pr_start r) \<le> round_down PAGE_SIZE a"
    "round_down PAGE_SIZE a + PAGE_SIZE \<le> round_down PAGE_SIZE (pr_end r)"
    by (simp_all add: round_up_least round_down_greatest)
  then show "a \<in> {round_up PAGE_SIZE (pr_start r)..<round_down PAGE_SIZE (pr_end r)}"
    using round_down_le [of PAGE_SIZE a] less_round_down_add [of PAGE_SIZE a] by simp
next
  fix a
  assume "a \<in> {round_up PAGE_SIZE (pr_start r)..<round_down PAGE_SIZE (pr_end r)}"
  then have *: "round_up PAGE_SIZE (pr_start r) \<le> a" "a < round_down PAGE_SIZE (pr_end r)" by auto
  have "round_up PAGE_SIZE (pr_start r) \<le> round_down PAGE_SIZE a"
    using * by (simp add: round_down_greatest)
  moreover have "round_down PAGE_SIZE a + PAGE_SIZE \<le> round_down PAGE_SIZE (pr_end r)"
    using * round_down_le [of PAGE_SIZE a]
    by (intro dvd_gap) simp_all
  ultimately show "a \<in> {a. page_of a \<subseteq> PhysRange_set r}"
    using le_round_up [of PAGE_SIZE "pr_start r"] round_down_le [of PAGE_SIZE "pr_end r"]
    by (auto simp: page_of_def PhysRange_set_def)
qed

lemma pages_touched_eq:
  assumes "pr_start r < pr_end r"
  shows "{a. page_of a \<inter> PhysRange_set r \<noteq> {}} =
         {round_down PAGE_SIZE (pr_start r)..<round_up PAGE_SIZE (pr_end r)}"
proof (intro set_eqI iffI)
  fix a
  assume "a \<in> {a. page_of a \<inter> PhysRange_set r \<noteq> {}}"
  then have *: "pr_start r < round_down PAGE_SIZE a + PAGE_SIZE" "round_down PAGE_SIZE a < pr_end r"
    by (auto simp: page_of_def PhysRange_set_def)
  have "round_down PAGE_SIZE (pr_start r) \<le> round_down PAGE_SIZE a"
    using *(1) round_down_le [of PAGE_SIZE "pr_start r"]
    by (intro dvd_less_gap [of PAGE_SIZE]) simp_all
  moreover have "round_down PAGE_SIZE a + PAGE_SIZE \<le> round_up PAGE_SIZE (pr_end r)"
    using *(2) le_round_up [of PAGE_SIZE "pr_end r"] by (intro dvd_gap) simp_all
  ultimately show "a \<in> {round_down PAGE_SIZE (pr_start r)..<round_up PAGE_SIZE (pr_end r)}"
    using round_down_le [of PAGE_SIZE a] less_round_down_add [of PAGE_SIZE a] by simp
next
  fix a
  assume "a \<in> {round_down PAGE_SIZE (pr_start r)..<round_up PAGE_SIZE (pr_end r)}"
  then have *: "round_down PAGE_SIZE (pr_start r) \<le> round_down PAGE_SIZE a"
    "\<not> round_up PAGE_SIZE (pr_end r) \<le> round_down PAGE_SIZE a"
    using round_down_le [of PAGE_SIZE a] by (auto simp: round_down_greatest)
  then have "pr_start r < round_down PAGE_SIZE a + PAGE_SIZE" "round_down PAGE_SIZE a < pr_end r"
    using less_round_down_add [of PAGE_SIZE "pr_start r"]
    by (auto intro: less_le_trans simp: round_up_least not_le [symmetric])
  then have "max (pr_start r) (round_down PAGE_SIZE a) \<in> page_of a \<inter> PhysRange_set r"
    using assms by (auto simp: page_of_def PhysRange_set_def)
  then show "a \<in> {a. page_of a \<inter> PhysRange_set r \<noteq> {}}" by blast
qed


lemma pages_inside_usable:
  assumes "PhysRange_ok r" "PhysRange_page_aligned_inside r = Some c"
  shows "usable_range c" "PhysRange_set c = {a. page_of a \<subseteq> PhysRange_set r}"
proof -
  have c: "c = \<lparr>pr_start = round_up PAGE_SIZE (pr_start r), pr_end = round_down PAGE_SIZE (pr_end r)\<rparr>"
    "round_up PAGE_SIZE (pr_start r) < round_down PAGE_SIZE (pr_end r)"
    using assms by (auto simp: PhysRange_page_aligned_inside_eq split: if_splits)
  show "usable_range c"
    using c assms(1) round_down_le [of PAGE_SIZE "pr_end r"]
    by (simp add: usable_range_def PhysRange_is_page_aligned_iff PhysRange_ok_def)
  show "PhysRange_set c = {a. page_of a \<subseteq> PhysRange_set r}"
    unfolding pages_inside_eq [OF assms(1)] using c by (simp add: PhysRange_set_def)
qed

lemma pages_inside_none:
  assumes "PhysRange_ok r" "PhysRange_page_aligned_inside r = None"
  shows "{a. page_of a \<subseteq> PhysRange_set r} = {}"
proof (cases "pr_start r + (PAGE_SIZE - 1) \<le> usize_MAX")
  case True
  then show ?thesis
    using assms by (auto simp: pages_inside_eq PhysRange_page_aligned_inside_eq split: if_splits)
next
  case False
  then have "round_down PAGE_SIZE (pr_end r) \<le> pr_start r"
    using assms(1) dvd_gap [of PAGE_SIZE "round_down PAGE_SIZE (pr_end r)" "2 ^ 64"]
      round_down_le [of PAGE_SIZE "pr_end r"]
    by (simp add: PhysRange_ok_def PAGE_SIZE_eq usize_MAX_def)
  then show ?thesis
    using le_round_up [of PAGE_SIZE "pr_start r"] by (simp add: pages_inside_eq [OF assms(1)])
qed

text \<open>The outcome of either operation against the set of addresses it should leave.\<close>

definition commits :: "MemoryMap \<Rightarrow> PhysAddr set \<Rightarrow> (unit, MemoryMapError) result \<times> MemoryMap \<Rightarrow> bool"
  where
  "commits m addrs outcome =
     (case outcome of
        (Ok _, m') \<Rightarrow> MemoryMap_inv m' \<and> length (mm_free m') = length (mm_free m)
          \<and> MemoryMap_addrs m' = addrs
      | (Err e, m') \<Rightarrow> m' = m
          \<and> (\<forall>rs. normalized rs \<longrightarrow> ranges_addrs rs = addrs \<longrightarrow> length (mm_free m) < length rs)
      | (Panic, m') \<Rightarrow> False)"

lemma commits_packed:
  assumes "normalized rs"
  shows "commits m (ranges_addrs rs)
    (if length rs \<le> length (mm_free m)
     then (Ok (), m\<lparr>mm_free := packed (length (mm_free m)) rs\<rparr>)
     else (Err CapacityExceeded, m))"
  using assms MemoryMap_update_normalized [OF assms _ refl, of m] normalized_unique [OF _ assms]
  by (auto simp: commits_def not_le)

lemmas MemoryMap_eval = MemoryMap_new_def MemoryMap_iter_def flatten_def MemoryMap_add_usable_def
  MemoryMap_insert_merged_def MemoryMap_reserve_def PhysRange_page_aligned_inside_eq
  PhysRange_covering_pages_eq PhysRange_ok_def PAGE_SIZE_eq usize_MAX_def round_up_def round_down_def
  push_entry_def PhysRange_is_empty_def PhysRange_overlaps_def PhysRange_new_def numeral_2_eq_2

lemma MemoryMap_add_usable_commits:
  assumes "MemoryMap_inv m" "PhysRange_ok r"
  shows "commits m (MemoryMap_addrs m \<union> {a. page_of a \<subseteq> PhysRange_set r}) (MemoryMap_add_usable r m)"
proof (cases "PhysRange_page_aligned_inside r")
  case None
  with assms show ?thesis
    by (simp add: MemoryMap_add_usable_def commits_def pages_inside_none)
next
  case (Some c)
  note c = pages_inside_usable [OF assms(2) Some]
  have "normalized (merge_ranges (MemoryMap_iter m) c)"
    using assms(1) c(1) by (simp add: MemoryMap_inv_def merge_ranges_normalized)
  from commits_packed [OF this, of m] show ?thesis
    by (simp add: MemoryMap_add_usable_def Some MemoryMap_insert_merged_eq [OF assms(1) c(1)]
        Let_def merge_ranges_addrs c(2) MemoryMap_addrs_def)
qed

text \<open>
  Adding a firmware region: the table stays sorted, page aligned, disjoint, without touching
  neighbours and packed at the front, and the usable addresses become the old ones plus exactly the
  pages that lie wholly inside the region. The call fails only if no table of this capacity can
  represent that set, and then the table is unchanged; it never panics.
\<close>

theorem MemoryMap_add_usable_correct:
  assumes "MemoryMap_inv m" "PhysRange_ok r"
  shows "commits m (MemoryMap_addrs m \<union> {a. page_of a \<subseteq> PhysRange_set r}) (MemoryMap_add_usable r m)"
  by (rule MemoryMap_add_usable_commits [OF assms])

theorem MemoryMap_add_usable_witness:
  "MemoryMap_inv (MemoryMap_new 2) \<and> PhysRange_ok \<lparr>pr_start = 5000, pr_end = 20000\<rparr>
   \<and> commits (MemoryMap_new 2)
       (MemoryMap_addrs (MemoryMap_new 2)
         \<union> {a. page_of a \<subseteq> PhysRange_set \<lparr>pr_start = 5000, pr_end = 20000\<rparr>})
       (MemoryMap_add_usable \<lparr>pr_start = 5000, pr_end = 20000\<rparr> (MemoryMap_new 2))
   \<and> snd (MemoryMap_add_usable \<lparr>pr_start = 5000, pr_end = 20000\<rparr> (MemoryMap_new 2))
     = \<lparr>mm_free = [Some \<lparr>pr_start = 8192, pr_end = 16384\<rparr>, None]\<rparr>"
proof -
  have ok: "PhysRange_ok \<lparr>pr_start = 5000, pr_end = 20000\<rparr>"
    by (simp add: PhysRange_ok_def usize_MAX_def)
  have "snd (MemoryMap_add_usable \<lparr>pr_start = 5000, pr_end = 20000\<rparr> (MemoryMap_new 2))
     = \<lparr>mm_free = [Some \<lparr>pr_start = 8192, pr_end = 16384\<rparr>, None]\<rparr>"
    by (simp add: MemoryMap_eval)
  with ok MemoryMap_add_usable_correct [OF MemoryMap_inv_new ok, of 2] MemoryMap_inv_new
  show ?thesis by simp
qed

lemma MemoryMap_reserve_commits:
  assumes "MemoryMap_inv m" "pr_start r < pr_end r" "pr_end r + (PAGE_SIZE - 1) \<le> usize_MAX"
  shows "commits m (MemoryMap_addrs m - {a. page_of a \<inter> PhysRange_set r \<noteq> {}})
           (MemoryMap_reserve r m)"
proof -
  define c where
    "c = \<lparr>pr_start = round_down PAGE_SIZE (pr_start r), pr_end = round_up PAGE_SIZE (pr_end r)\<rparr>"
  have covering: "PhysRange_covering_pages r = Some c"
    using assms by (simp add: PhysRange_covering_pages_eq PhysRange_ok_def c_def)
  have c: "pr_start c < pr_end c" "PhysRange_is_page_aligned c"
    "PhysRange_set c = {a. page_of a \<inter> PhysRange_set r \<noteq> {}}"
    unfolding pages_touched_eq [OF assms(2)]
    using assms(2) round_down_le [of PAGE_SIZE "pr_start r"] le_round_up [of PAGE_SIZE "pr_end r"]
    by (simp_all add: c_def PhysRange_is_page_aligned_iff PhysRange_set_def)
  have wf: "normalized (MemoryMap_iter m)" "\<forall>r \<in> set (MemoryMap_iter m). usable_range r"
    using assms(1) by (simp_all add: MemoryMap_inv_def normalized_iff)
  have loop: "reserve_loop c (MemoryMap_iter m) (replicate (length (mm_free m)) None, 0) =
    commit_entries (length (mm_free m)) (concat (map (cut_range c) (MemoryMap_iter m)))"
    using reserve_loop_packed [of "MemoryMap_iter m" "[]"] wf(2)
    by (simp add: usable_range_nonempty)
  from commits_packed [OF cut_ranges_normalized [OF c(1,2) wf(1)], of m] show ?thesis
    using cut_ranges_addrs [OF less_imp_le [OF c(1)] wf(2)]
    by (simp add: MemoryMap_reserve_def covering loop commit_entries_def c(3) MemoryMap_addrs_def
        split: if_splits)
qed

text \<open>
  C34. Reserving a region: for a non-empty region whose covering pages exist in the address space the
  invariant is kept and exactly the pages that meet the region are taken out of the usable memory. The
  call fails only if no table of this capacity can represent the rest, and then the table is unchanged;
  it never panics.
\<close>

theorem MemoryMap_reserve_correct:
  assumes "MemoryMap_inv m" "pr_start r < pr_end r" "pr_end r + (PAGE_SIZE - 1) \<le> usize_MAX"
  shows "commits m (MemoryMap_addrs m - {a. page_of a \<inter> PhysRange_set r \<noteq> {}})
           (MemoryMap_reserve r m)"
  by (rule MemoryMap_reserve_commits [OF assms])

text \<open>A one-entry table used to evaluate the operations.\<close>

abbreviation one_range_map :: MemoryMap where
  "one_range_map \<equiv> \<lparr>mm_free = [Some \<lparr>pr_start = 4096, pr_end = 20480\<rparr>, None]\<rparr>"

lemma one_range_map_inv: "MemoryMap_inv one_range_map"
  by (simp add: MemoryMap_inv_def MemoryMap_iter_def flatten_def packed_def usable_range_def
      PhysRange_is_page_aligned_def PAGE_SIZE_eq usize_MAX_def)

theorem MemoryMap_reserve_witness:
  "commits one_range_map
     (MemoryMap_addrs one_range_map
       - {a. page_of a \<inter> PhysRange_set \<lparr>pr_start = 9000, pr_end = 9001\<rparr> \<noteq> {}})
     (MemoryMap_reserve \<lparr>pr_start = 9000, pr_end = 9001\<rparr> one_range_map)
   \<and> snd (MemoryMap_reserve \<lparr>pr_start = 9000, pr_end = 9001\<rparr> one_range_map)
     = \<lparr>mm_free = [Some \<lparr>pr_start = 4096, pr_end = 8192\<rparr>, Some \<lparr>pr_start = 12288, pr_end = 20480\<rparr>]\<rparr>"
proof -
  have "snd (MemoryMap_reserve \<lparr>pr_start = 9000, pr_end = 9001\<rparr> one_range_map)
     = \<lparr>mm_free = [Some \<lparr>pr_start = 4096, pr_end = 8192\<rparr>, Some \<lparr>pr_start = 12288, pr_end = 20480\<rparr>]\<rparr>"
    by (simp add: MemoryMap_eval)
  with MemoryMap_reserve_correct [OF one_range_map_inv, of "\<lparr>pr_start = 9000, pr_end = 9001\<rparr>"]
  show ?thesis by (simp add: PAGE_SIZE_eq usize_MAX_def)
qed


lemma normalized_apart:
  "normalized rs \<Longrightarrow> s \<in> set rs \<Longrightarrow> t \<in> set rs \<Longrightarrow>
   s = t \<or> pr_end s < pr_start t \<or> pr_end t < pr_start s"
  by (induction rs) (auto simp: normalized_Cons)

lemma normalized_member: "normalized rs \<Longrightarrow> r \<in> set rs \<Longrightarrow> usable_range r"
  by (simp add: normalized_iff)

lemma normalized_not_touching:
  assumes "normalized rs" "s \<in> set rs" "t \<in> set rs"
  shows "pr_end s \<noteq> pr_start t"
  using normalized_apart [OF assms] normalized_member [OF assms(1,2)] normalized_member [OF assms(1,3)]
  by (auto simp: usable_range_def)

text \<open>
  The documented invariant is not kept for an empty region: reserving \<open>[a, a)\<close> at a page boundary
  strictly inside a usable range takes no address away but splits the range into two touching entries,
  which the table's documentation rules out.
\<close>

theorem MemoryMap_reserve_empty_breaks_invariant:
  assumes "MemoryMap_inv m" "r \<in> set (MemoryMap_iter m)" "pr_start r < a" "a < pr_end r"
    and "PAGE_SIZE dvd a" "a + (PAGE_SIZE - 1) \<le> usize_MAX"
    and "MemoryMap_reserve \<lparr>pr_start = a, pr_end = a\<rparr> m = (Ok (), m')"
  shows "MemoryMap_addrs m' = MemoryMap_addrs m \<and> \<not> MemoryMap_inv m'"
proof -
  let ?c = "\<lparr>pr_start = a, pr_end = a\<rparr>"
  have wf: "\<forall>r \<in> set (MemoryMap_iter m). usable_range r"
    using assms(1) by (simp add: MemoryMap_inv_def normalized_iff)
  have "PhysRange_covering_pages ?c = Some ?c"
    using assms(5,6) by (simp add: PhysRange_covering_pages_eq PhysRange_ok_def)
  moreover have "reserve_loop ?c (MemoryMap_iter m) (replicate (length (mm_free m)) None, 0) =
    commit_entries (length (mm_free m)) (concat (map (cut_range ?c) (MemoryMap_iter m)))"
    using reserve_loop_packed [of "MemoryMap_iter m" "[]"] wf by (simp add: usable_range_nonempty)
  ultimately have iter: "MemoryMap_iter m' = concat (map (cut_range ?c) (MemoryMap_iter m))"
    using assms(7)
    by (auto simp: MemoryMap_reserve_def commit_entries_def MemoryMap_iter_def split: if_splits)
  have "\<lparr>pr_start = pr_start r, pr_end = a\<rparr> \<in> set (cut_range ?c r)"
    "\<lparr>pr_start = a, pr_end = pr_end r\<rparr> \<in> set (cut_range ?c r)"
    using assms(3,4) by (simp_all add: cut_range_def PhysRange_overlaps_def)
  then have "\<not> normalized (MemoryMap_iter m')"
    using assms(2) normalized_not_touching [of "MemoryMap_iter m'"] unfolding iter by fastforce
  then show ?thesis
    using cut_ranges_addrs [of ?c] wf
    by (simp add: MemoryMap_inv_def MemoryMap_addrs_def iter PhysRange_set_def)
qed

theorem MemoryMap_reserve_empty_witness:
  "\<not> MemoryMap_inv
     \<lparr>mm_free = [Some \<lparr>pr_start = 4096, pr_end = 8192\<rparr>, Some \<lparr>pr_start = 8192, pr_end = 20480\<rparr>]\<rparr>"
proof -
  have "MemoryMap_reserve \<lparr>pr_start = 8192, pr_end = 8192\<rparr> one_range_map =
    (Ok (), \<lparr>mm_free = [Some \<lparr>pr_start = 4096, pr_end = 8192\<rparr>, Some \<lparr>pr_start = 8192, pr_end = 20480\<rparr>]\<rparr>)"
    by (simp add: MemoryMap_eval)
  with MemoryMap_reserve_empty_breaks_invariant [OF one_range_map_inv, of "\<lparr>pr_start = 4096, pr_end = 20480\<rparr>" 8192]
  show ?thesis
    by (simp add: MemoryMap_iter_def flatten_def PAGE_SIZE_eq usize_MAX_def)
qed


section \<open>Intervals and sizes\<close>

lemma normalized_end_notin:
  assumes "normalized rs" "r \<in> set rs"
  shows "pr_end r \<notin> ranges_addrs rs"
proof
  assume "pr_end r \<in> ranges_addrs rs"
  then obtain t where t: "t \<in> set rs" "pr_start t \<le> pr_end r" "pr_end r < pr_end t"
    by (auto simp: ranges_addrs_def PhysRange_set_def)
  then show False
    using normalized_apart [OF assms t(1)] normalized_member [OF assms]
    by (auto simp: usable_range_def)
qed

lemma interval_in_one_range:
  assumes "normalized rs" "a < b" "{a..<b} \<subseteq> ranges_addrs rs"
  obtains r where "r \<in> set rs" "pr_start r \<le> a" "b \<le> pr_end r"
proof -
  from assms(2,3) have "a \<in> ranges_addrs rs" by auto
  then obtain r where r: "r \<in> set rs" "pr_start r \<le> a" "a < pr_end r"
    by (auto simp: ranges_addrs_def PhysRange_set_def)
  have "b \<le> pr_end r"
    using normalized_end_notin [OF assms(1) r(1)] r(3) assms(3) by (meson atLeastLessThan_iff in_mono
        less_imp_le not_le)
  with r show ?thesis by (auto intro: that)
qed

lemma finite_ranges_addrs [simp]: "finite (ranges_addrs rs)"
  by (simp add: ranges_addrs_def PhysRange_set_def)

lemma normalized_disjoint_tail:
  "normalized (r # rs) \<Longrightarrow> PhysRange_set r \<inter> ranges_addrs rs = {}"
  by (fastforce simp: normalized_Cons ranges_addrs_def PhysRange_set_def)

lemma card_ranges_addrs:
  "normalized rs \<Longrightarrow> card (ranges_addrs rs) = sum_list (map PhysRange_size rs)"
proof (induction rs)
  case (Cons r rs)
  then show ?case
    using card_Un_disjoint [of "PhysRange_set r" "ranges_addrs rs"]
      normalized_disjoint_tail [OF Cons.prems]
    by (simp add: normalized_Cons card_PhysRange_set [symmetric] PhysRange_set_def)
qed simp

lemma card_ranges_addrs_le: "normalized rs \<Longrightarrow> card (ranges_addrs rs) \<le> usize_MAX"
proof -
  assume "normalized rs"
  then have "ranges_addrs rs \<subseteq> {..<usize_MAX}"
    by (fastforce simp: normalized_iff ranges_addrs_def PhysRange_set_def usable_range_def)
  then show ?thesis
    using card_mono [of "{..<usize_MAX}"] by fastforce
qed

lemma sum_sizes_eq:
  "acc + sum_list (map PhysRange_size rs) \<le> usize_MAX \<Longrightarrow>
   sum_sizes rs acc = Some (acc + sum_list (map PhysRange_size rs))"
  by (induction rs arbitrary: acc) (auto simp: checked_add_def)

lemma sum_sizes_normalized: "normalized rs \<Longrightarrow> sum_sizes rs 0 = Some (card (ranges_addrs rs))"
  using card_ranges_addrs_le [of rs] by (simp add: sum_sizes_eq card_ranges_addrs)

end
