(* ===== verification/Early_Allocator.thy ===== *)
theory Early_Allocator
  imports Memory_Map
begin

text \<open>
  The boot-time frame allocator, \<open>mm/src/early_allocator.rs\<close>: it copies the normalised memory map and
  hands out frames from the top, without ever freeing one. The \<open>debug_assert!\<close> calls are modelled as
  the panics they are in a debug build.

  The locale \<open>frame_source\<close> is the contract that page-table construction relies on (a frame comes from
  the free memory, is page aligned and leaves it); it is interpreted on this allocator.
\<close>

datatype EarlyFrameAllocatorError = ZeroPageCount | SizeOverflow | EarlyOutOfMemory

record EarlyFrameAllocator =
  ea_free :: "PhysRange option list"

definition EarlyFrameAllocator_from_memory_map ::
  "MemoryMap \<Rightarrow> (EarlyFrameAllocator, EarlyFrameAllocatorError) result" where
  "EarlyFrameAllocator_from_memory_map m =
     (let ranges = take (length (mm_free m)) (MemoryMap_iter m) in
      if list_all PhysRange_is_page_aligned ranges
      then Ok \<lparr>ea_free = map Some ranges @ replicate (length (mm_free m) - length ranges) None\<rparr>
      else Panic)"

text \<open>The slot after its tail has been handed out: \<open>PhysRange::new(..).filter(..)\<close>.\<close>

definition shrunk_slot :: "PhysRange \<Rightarrow> PhysAddr \<Rightarrow> PhysRange option" where
  "shrunk_slot current allocation_start =
     (case PhysRange_new (pr_start current) allocation_start of
        Some rng \<Rightarrow> if \<not> PhysRange_is_empty rng then Some rng else None
      | None \<Rightarrow> None)"

text \<open>The loop over \<open>(0..CAPACITY).rev()\<close>: the argument is the number of slots not yet visited.\<close>

fun allocate_contiguous_loop ::
  "usize \<Rightarrow> usize \<Rightarrow> nat \<Rightarrow> (EarlyFrameAllocator, FrameBlock, EarlyFrameAllocatorError) action" where
  "allocate_contiguous_loop page_count sz 0 self = (Err EarlyOutOfMemory, self)"
| "allocate_contiguous_loop page_count sz (Suc index) self =
     (case ea_free self ! index of
        None \<Rightarrow> allocate_contiguous_loop page_count sz index self
      | Some current \<Rightarrow>
          if PhysRange_size current < sz then allocate_contiguous_loop page_count sz index self
          else (case PhysAddr_checked_sub (pr_end current) sz of
             None \<Rightarrow> (Err SizeOverflow, self)
           | Some allocation_start \<Rightarrow>
               if \<not> PhysAddr_is_aligned allocation_start PAGE_SIZE then (Panic, self)
               else if allocation_start < pr_start current
                 then allocate_contiguous_loop page_count sz index self
               else (case PhysFrame_from_start_address allocation_start of
                  None \<Rightarrow> (Panic, self)
                | Some frame \<Rightarrow>
                    (case FrameBlock_new frame page_count of
                       None \<Rightarrow> (Panic, self)
                     | Some block \<Rightarrow>
                         (Ok block, self\<lparr>ea_free := (ea_free self)[index :=
                            shrunk_slot current allocation_start]\<rparr>)))))"

definition EarlyFrameAllocator_allocate_contiguous ::
  "usize \<Rightarrow> (EarlyFrameAllocator, FrameBlock, EarlyFrameAllocatorError) action" where
  "EarlyFrameAllocator_allocate_contiguous page_count self =
     (if page_count = 0 then (Err ZeroPageCount, self)
      else (case checked_mul page_count PAGE_SIZE of
         None \<Rightarrow> (Err SizeOverflow, self)
       | Some sz \<Rightarrow> allocate_contiguous_loop page_count sz (length (ea_free self)) self))"

definition EarlyFrameAllocator_allocate_frame ::
  "(EarlyFrameAllocator, PhysFrame, EarlyFrameAllocatorError) action" where
  "EarlyFrameAllocator_allocate_frame =
     sbind (EarlyFrameAllocator_allocate_contiguous 1) (\<lambda>block. sreturn (fb_start block))"

definition EarlyFrameAllocator_free_ranges :: "EarlyFrameAllocator \<Rightarrow> PhysRange list" where
  "EarlyFrameAllocator_free_ranges self = flatten (ea_free self)"

definition EarlyFrameAllocator_remaining_bytes :: "EarlyFrameAllocator \<Rightarrow> usize option" where
  "EarlyFrameAllocator_remaining_bytes self = sum_sizes (flatten (ea_free self)) 0"

definition EarlyFrameAllocator_remaining_frames :: "EarlyFrameAllocator \<Rightarrow> usize option" where
  "EarlyFrameAllocator_remaining_frames self =
     map_option (\<lambda>bytes. bytes div PAGE_SIZE) (EarlyFrameAllocator_remaining_bytes self)"

definition EarlyFrameAllocator_checkpoint :: "EarlyFrameAllocator \<Rightarrow> EarlyFrameAllocator" where
  "EarlyFrameAllocator_checkpoint self = self"

definition EarlyFrameAllocator_restore ::
  "EarlyFrameAllocator \<Rightarrow> (EarlyFrameAllocator, unit, 'e) action" where
  "EarlyFrameAllocator_restore checkpoint self = (Ok (), checkpoint)"

section \<open>Invariant and abstraction\<close>

definition early_inv :: "EarlyFrameAllocator \<Rightarrow> bool" where
  "early_inv s \<longleftrightarrow> normalized (EarlyFrameAllocator_free_ranges s)"

definition early_addrs :: "EarlyFrameAllocator \<Rightarrow> PhysAddr set" where
  "early_addrs s = ranges_addrs (EarlyFrameAllocator_free_ranges s)"

definition block_addrs :: "FrameBlock \<Rightarrow> PhysAddr set" where
  "block_addrs b = {pf_start (fb_start b)..<pf_start (fb_start b) + fb_count b * PAGE_SIZE}"

definition frame_addrs :: "PhysFrame \<Rightarrow> PhysAddr set" where
  "frame_addrs f = {pf_start f..<pf_start f + PAGE_SIZE}"

lemma flatten_Cons: "flatten (x # xs) = (case x of None \<Rightarrow> [] | Some y \<Rightarrow> [y]) @ flatten xs"
  by (cases x) (simp_all add: flatten_def)

lemma flatten_update:
  assumes "i < length xs"
  shows "flatten (xs[i := x]) =
    flatten (take i xs) @ (case x of None \<Rightarrow> [] | Some y \<Rightarrow> [y]) @ flatten (drop (Suc i) xs)"
  using assms by (simp add: upd_conv_take_nth_drop flatten_Cons)

lemma flatten_nth:
  assumes "i < length xs" "xs ! i = Some r"
  shows "flatten xs = flatten (take i xs) @ r # flatten (drop (Suc i) xs)"
  using assms id_take_nth_drop [of i xs] by (metis flatten_append flatten_Cons option.case(2) append_Cons append_Nil)

text \<open>Taking the tail of one range away.\<close>

lemma normalized_shrink:
  assumes "normalized (ls @ r # rs)" "pr_start r < a" "a \<le> pr_end r" "PAGE_SIZE dvd a"
  shows "normalized (ls @ \<lparr>pr_start = pr_start r, pr_end = a\<rparr> # rs)"
  using assms
  by (fastforce simp: normalized_iff sorted_wrt_append usable_range_def PhysRange_is_page_aligned_iff)

lemma normalized_drop: "normalized (ls @ r # rs) \<Longrightarrow> normalized (ls @ rs)"
  by (auto simp: normalized_iff sorted_wrt_append)

lemma normalized_others_disjoint:
  assumes "normalized (ls @ r # rs)"
  shows "PhysRange_set r \<inter> (ranges_addrs ls \<union> ranges_addrs rs) = {}"
  using assms
  by (fastforce simp: normalized_iff sorted_wrt_append ranges_addrs_def PhysRange_set_def)

lemma shrunk_slot_eq:
  assumes "pr_start r \<le> a"
  shows "shrunk_slot r a = (if pr_start r < a then Some \<lparr>pr_start = pr_start r, pr_end = a\<rparr> else None)"
  using assms by (auto simp: shrunk_slot_def PhysRange_new_def PhysRange_is_empty_def)


definition slot_fits :: "EarlyFrameAllocator \<Rightarrow> usize \<Rightarrow> nat \<Rightarrow> bool" where
  "slot_fits s sz i \<longleftrightarrow> (\<exists>r. ea_free s ! i = Some r \<and> sz \<le> PhysRange_size r)"

lemma slot_range:
  assumes "early_inv s" "i < length (ea_free s)" "ea_free s ! i = Some r"
  shows "usable_range r" "r \<in> set (EarlyFrameAllocator_free_ranges s)"
proof -
  show "r \<in> set (EarlyFrameAllocator_free_ranges s)"
    using flatten_nth [OF assms(2,3)] by (simp add: EarlyFrameAllocator_free_ranges_def)
  with assms(1) show "usable_range r"
    by (simp add: early_inv_def normalized_member)
qed

lemma allocate_contiguous_loop_spec:
  assumes "early_inv s" "i \<le> length (ea_free s)" "0 < n" "n * PAGE_SIZE \<le> usize_MAX"
  shows "(\<exists>index r. index < i \<and> ea_free s ! index = Some r \<and> n * PAGE_SIZE \<le> PhysRange_size r
            \<and> (\<forall>j. index < j \<and> j < i \<longrightarrow> \<not> slot_fits s (n * PAGE_SIZE) j)
            \<and> allocate_contiguous_loop n (n * PAGE_SIZE) i s =
                (Ok \<lparr>fb_start = \<lparr>pf_start = pr_end r - n * PAGE_SIZE\<rparr>, fb_count = n\<rparr>,
                 s\<lparr>ea_free := (ea_free s)[index := shrunk_slot r (pr_end r - n * PAGE_SIZE)]\<rparr>))
         \<or> (\<forall>j < i. \<not> slot_fits s (n * PAGE_SIZE) j)
            \<and> allocate_contiguous_loop n (n * PAGE_SIZE) i s = (Err EarlyOutOfMemory, s)"
  using assms(2)
proof (induction i)
  case (Suc i)
  show ?case
  proof (cases "slot_fits s (n * PAGE_SIZE) i")
    case True
    then obtain r where r: "ea_free s ! i = Some r" "n * PAGE_SIZE \<le> PhysRange_size r"
      by (auto simp: slot_fits_def)
    note u = slot_range(1) [OF assms(1) _ r(1)]
    have "PAGE_SIZE dvd pr_end r - n * PAGE_SIZE" "n * PAGE_SIZE \<le> pr_end r"
      "pr_start r \<le> pr_end r - n * PAGE_SIZE" "pr_end r \<le> usize_MAX"
      using u Suc.prems r(2)
      by (auto simp: usable_range_def PhysRange_is_page_aligned_iff PhysRange_size_def)
    with r have "allocate_contiguous_loop n (n * PAGE_SIZE) (Suc i) s =
        (Ok \<lparr>fb_start = \<lparr>pf_start = pr_end r - n * PAGE_SIZE\<rparr>, fb_count = n\<rparr>,
         s\<lparr>ea_free := (ea_free s)[i := shrunk_slot r (pr_end r - n * PAGE_SIZE)]\<rparr>)"
      using assms(3,4)
      by (simp add: checked_sub_def checked_mul_def PhysAddr_is_aligned_iff
          PhysFrame_from_start_address_def FrameBlock_new_def)
    with r show ?thesis by (intro disjI1 exI [of _ i] exI [of _ r]) auto
  next
    case False
    then have "allocate_contiguous_loop n (n * PAGE_SIZE) (Suc i) s =
      allocate_contiguous_loop n (n * PAGE_SIZE) i s"
      by (auto simp: slot_fits_def split: option.split)
    with False Suc show ?thesis
      by (auto simp: less_Suc_eq)
  qed
qed simp

lemma shrink_slot_effect:
  assumes "early_inv s" "i < length (ea_free s)" "ea_free s ! i = Some r"
    and "sz \<le> PhysRange_size r" "PAGE_SIZE dvd sz" "0 < sz"
    and "s' = s\<lparr>ea_free := (ea_free s)[i := shrunk_slot r (pr_end r - sz)]\<rparr>"
  shows "early_inv s'" "early_addrs s' = early_addrs s - {pr_end r - sz..<pr_end r}"
    "{pr_end r - sz..<pr_end r} \<subseteq> early_addrs s"
proof -
  let ?ls = "flatten (take i (ea_free s))" and ?rs = "flatten (drop (Suc i) (ea_free s))"
  have whole: "EarlyFrameAllocator_free_ranges s = ?ls @ r # ?rs"
    using flatten_nth [OF assms(2,3)] by (simp add: EarlyFrameAllocator_free_ranges_def)
  have u: "usable_range r" by (rule slot_range [OF assms(1-3)])
  have bounds: "pr_start r \<le> pr_end r - sz" "pr_end r - sz < pr_end r" "PAGE_SIZE dvd pr_end r - sz"
    using u assms(4-6) by (auto simp: usable_range_def PhysRange_size_def PhysRange_is_page_aligned_iff)
  have after: "EarlyFrameAllocator_free_ranges s' =
      ?ls @ (if pr_start r < pr_end r - sz then [\<lparr>pr_start = pr_start r, pr_end = pr_end r - sz\<rparr>] else []) @ ?rs"
    using assms(2,7) bounds(1)
    by (simp add: EarlyFrameAllocator_free_ranges_def flatten_update shrunk_slot_eq)
  have n: "normalized (?ls @ r # ?rs)" using assms(1) by (simp add: early_inv_def whole)
  then show "early_inv s'"
    using normalized_shrink [OF n, of "pr_end r - sz"] normalized_drop [OF n] bounds
    by (auto simp: early_inv_def after)
  have "x \<notin> ranges_addrs ?ls" "x \<notin> ranges_addrs ?rs" if "pr_end r - sz \<le> x" "x < pr_end r" for x
    using that bounds(1) normalized_others_disjoint [OF n]
    by (auto simp: PhysRange_set_def disjoint_iff)
  then show "early_addrs s' = early_addrs s - {pr_end r - sz..<pr_end r}"
    using bounds by (auto simp: early_addrs_def whole after PhysRange_set_def)
  show "{pr_end r - sz..<pr_end r} \<subseteq> early_addrs s"
    using bounds by (auto simp: early_addrs_def whole PhysRange_set_def)
qed

text \<open>A later slot lies higher; a free interval lies inside one slot.\<close>

lemma flatten_nth_order:
  assumes "normalized (flatten xs)" "i < j" "j < length xs" "xs ! i = Some r" "xs ! j = Some t"
  shows "pr_end r < pr_start t"
proof -
  have "t \<in> set (flatten (drop (Suc i) xs))"
    using assms(2,3,5) by (force simp: flatten_def image_iff in_set_conv_nth
        intro!: exI [of _ "Some t"] exI [of _ "j - Suc i"])
  moreover have "normalized (flatten (take i xs) @ r # flatten (drop (Suc i) xs))"
    using assms flatten_nth [of i xs r] by simp
  ultimately show ?thesis
    by (auto simp: normalized_iff sorted_wrt_append)
qed

lemma free_interval_slot:
  assumes "early_inv s" "0 < sz" "{a..<a + sz} \<subseteq> early_addrs s"
  obtains j r where "j < length (ea_free s)" "ea_free s ! j = Some r" "sz \<le> PhysRange_size r"
    "a + sz \<le> pr_end r"
proof -
  obtain r where r: "r \<in> set (flatten (ea_free s))" "pr_start r \<le> a" "a + sz \<le> pr_end r"
    using interval_in_one_range [of "flatten (ea_free s)" a "a + sz"] assms
    by (auto simp: early_inv_def early_addrs_def EarlyFrameAllocator_free_ranges_def)
  then obtain j where "j < length (ea_free s)" "ea_free s ! j = Some r"
    by (auto simp: flatten_def in_set_conv_nth)
  with r show ?thesis by (intro that [of j r]) (auto simp: PhysRange_size_def)
qed


section \<open>What an allocation does\<close>

lemma early_allocate_Ok:
  assumes "early_inv s" "EarlyFrameAllocator_allocate_contiguous n s = (Ok b, s')"
  obtains i r where "0 < n" "i < length (ea_free s)" "ea_free s ! i = Some r"
    "n * PAGE_SIZE \<le> PhysRange_size r" "\<forall>j. i < j \<and> j < length (ea_free s) \<longrightarrow> \<not> slot_fits s (n * PAGE_SIZE) j"
    "b = \<lparr>fb_start = \<lparr>pf_start = pr_end r - n * PAGE_SIZE\<rparr>, fb_count = n\<rparr>"
    "s' = s\<lparr>ea_free := (ea_free s)[i := shrunk_slot r (pr_end r - n * PAGE_SIZE)]\<rparr>"
proof -
  from assms(2) have "0 < n" "n * PAGE_SIZE \<le> usize_MAX"
    by (auto simp: EarlyFrameAllocator_allocate_contiguous_def split: if_splits option.splits)
  with assms(2) allocate_contiguous_loop_spec [OF assms(1) order.refl, of n] show ?thesis
    by (auto simp: EarlyFrameAllocator_allocate_contiguous_def checked_mul_def intro: that)
qed

lemma early_allocate_addrs:
  assumes "early_inv s" "EarlyFrameAllocator_allocate_contiguous n s = (Ok b, s')"
  shows "early_inv s'" "block_addrs b \<subseteq> early_addrs s" "early_addrs s' = early_addrs s - block_addrs b"
    "fb_count b = n" "PAGE_SIZE dvd pf_start (fb_start b)"
proof -
  from assms obtain i r where *: "0 < n" "i < length (ea_free s)" "ea_free s ! i = Some r"
    "n * PAGE_SIZE \<le> PhysRange_size r"
    "b = \<lparr>fb_start = \<lparr>pf_start = pr_end r - n * PAGE_SIZE\<rparr>, fb_count = n\<rparr>"
    "s' = s\<lparr>ea_free := (ea_free s)[i := shrunk_slot r (pr_end r - n * PAGE_SIZE)]\<rparr>"
    by (rule early_allocate_Ok)
  have "block_addrs b = {pr_end r - n * PAGE_SIZE..<pr_end r}"
    using *(4,5) by (simp add: block_addrs_def PhysRange_size_def)
  with shrink_slot_effect [OF assms(1) *(2-4) _ _ *(6)] *(1)
  show "early_inv s'" "block_addrs b \<subseteq> early_addrs s" "early_addrs s' = early_addrs s - block_addrs b"
    by simp_all
  show "fb_count b = n" "PAGE_SIZE dvd pf_start (fb_start b)"
    using *(5) slot_range(1) [OF assms(1) *(2,3)]
    by (simp_all add: usable_range_def PhysRange_is_page_aligned_iff)
qed

lemma early_allocate_highest:
  assumes "early_inv s" "EarlyFrameAllocator_allocate_contiguous n s = (Ok b, s')"
    and "{a..<a + n * PAGE_SIZE} \<subseteq> early_addrs s"
  shows "a \<le> pf_start (fb_start b)"
proof -
  from assms(1,2) obtain i r where *: "0 < n" "i < length (ea_free s)" "ea_free s ! i = Some r"
    "n * PAGE_SIZE \<le> PhysRange_size r"
    "\<forall>j. i < j \<and> j < length (ea_free s) \<longrightarrow> \<not> slot_fits s (n * PAGE_SIZE) j"
    "b = \<lparr>fb_start = \<lparr>pf_start = pr_end r - n * PAGE_SIZE\<rparr>, fb_count = n\<rparr>"
    by (rule early_allocate_Ok)
  from *(1) obtain j t where j: "j < length (ea_free s)" "ea_free s ! j = Some t"
    "n * PAGE_SIZE \<le> PhysRange_size t" "a + n * PAGE_SIZE \<le> pr_end t"
    using free_interval_slot [OF assms(1) _ assms(3)] by auto
  then have "j \<le> i" using *(5) by (auto simp: slot_fits_def not_less [symmetric])
  then have "pr_end t \<le> pr_end r"
    using flatten_nth_order [of "ea_free s" j i t r] j *(2,3) assms(1) slot_range(1) [OF assms(1) *(2,3)]
    by (cases "j = i") (auto simp: early_inv_def EarlyFrameAllocator_free_ranges_def usable_range_def)
  with j(4) *(6) show ?thesis by simp
qed

lemma early_allocate_Err:
  assumes "early_inv s" "EarlyFrameAllocator_allocate_contiguous n s = (Err e, s')"
  shows "s' = s" "e = ZeroPageCount \<longleftrightarrow> n = 0" "e = SizeOverflow \<longleftrightarrow> usize_MAX < n * PAGE_SIZE"
    "e = EarlyOutOfMemory \<Longrightarrow> \<not> {a..<a + n * PAGE_SIZE} \<subseteq> early_addrs s"
proof -
  consider "n = 0" | "0 < n" "usize_MAX < n * PAGE_SIZE" | (loop) "0 < n" "n * PAGE_SIZE \<le> usize_MAX"
    by fastforce
  then have "s' = s \<and> (e = ZeroPageCount \<longleftrightarrow> n = 0) \<and> (e = SizeOverflow \<longleftrightarrow> usize_MAX < n * PAGE_SIZE)
    \<and> (e = EarlyOutOfMemory \<longrightarrow> \<not> {a..<a + n * PAGE_SIZE} \<subseteq> early_addrs s)"
  proof cases
    case loop
    with assms(2) allocate_contiguous_loop_spec [OF assms(1) order.refl loop]
    have "s' = s" "e = EarlyOutOfMemory" "\<forall>j < length (ea_free s). \<not> slot_fits s (n * PAGE_SIZE) j"
      by (auto simp: EarlyFrameAllocator_allocate_contiguous_def checked_mul_def)
    with loop show ?thesis
      using free_interval_slot [OF assms(1), of "n * PAGE_SIZE" a] by (fastforce simp: slot_fits_def)
  qed (use assms(2) in \<open>auto simp: EarlyFrameAllocator_allocate_contiguous_def checked_mul_def usize_MAX_def\<close>)
  then show "s' = s" "e = ZeroPageCount \<longleftrightarrow> n = 0" "e = SizeOverflow \<longleftrightarrow> usize_MAX < n * PAGE_SIZE"
    "e = EarlyOutOfMemory \<Longrightarrow> \<not> {a..<a + n * PAGE_SIZE} \<subseteq> early_addrs s" by auto
qed

lemma early_allocate_no_panic:
  "early_inv s \<Longrightarrow> EarlyFrameAllocator_allocate_contiguous n s \<noteq> (Panic, s')"
  using allocate_contiguous_loop_spec [of s "length (ea_free s)" n]
  by (auto simp: EarlyFrameAllocator_allocate_contiguous_def checked_mul_def)


text \<open>
  C35. A boot allocation of \<open>n\<close> pages: on success the block has \<open>n\<close> pages, is page aligned, lies in
  memory that was free, is exactly what leaves the free memory, and no free run of \<open>n\<close> pages starts
  higher. Each error is returned for its own reason (no pages asked, the byte count overflows, no free
  run is long enough) and changes nothing; no \<open>expect\<close> or \<open>debug_assert!\<close> fails.
\<close>

theorem EarlyFrameAllocator_allocate_contiguous_correct:
  assumes "early_inv s"
  shows "case EarlyFrameAllocator_allocate_contiguous n s of
      (Ok b, s') \<Rightarrow> early_inv s' \<and> fb_count b = n \<and> PAGE_SIZE dvd pf_start (fb_start b)
        \<and> block_addrs b \<subseteq> early_addrs s \<and> early_addrs s' = early_addrs s - block_addrs b
        \<and> (\<forall>a. {a..<a + n * PAGE_SIZE} \<subseteq> early_addrs s \<longrightarrow> a \<le> pf_start (fb_start b))
    | (Err e, s') \<Rightarrow> s' = s \<and> (e = ZeroPageCount \<longleftrightarrow> n = 0)
        \<and> (e = SizeOverflow \<longleftrightarrow> usize_MAX < n * PAGE_SIZE)
        \<and> (e = EarlyOutOfMemory \<longrightarrow> (\<forall>a. \<not> {a..<a + n * PAGE_SIZE} \<subseteq> early_addrs s))
    | (Panic, s') \<Rightarrow> False"
proof -
  obtain r s' where step: "EarlyFrameAllocator_allocate_contiguous n s = (r, s')" by fastforce
  show ?thesis
  proof (cases r)
    case (Ok b)
    note ok = step [unfolded Ok]
    from early_allocate_addrs [OF assms ok] early_allocate_highest [OF assms ok]
    show ?thesis by (simp add: ok)
  next
    case (Err e)
    note err = step [unfolded Err]
    from early_allocate_Err [OF assms err] show ?thesis by (simp add: err)
  next
    case Panic
    with step early_allocate_no_panic [OF assms] show ?thesis by simp
  qed
qed

abbreviation small_early :: EarlyFrameAllocator where
  "small_early \<equiv> \<lparr>ea_free = [Some \<lparr>pr_start = 4096, pr_end = 20480\<rparr>, None,
     Some \<lparr>pr_start = 40960, pr_end = 45056\<rparr>]\<rparr>"

lemma small_early_inv: "early_inv small_early"
  by (simp add: early_inv_def EarlyFrameAllocator_free_ranges_def flatten_def usable_range_def
      PhysRange_is_page_aligned_def PAGE_SIZE_eq usize_MAX_def)

lemmas early_eval = EarlyFrameAllocator_allocate_contiguous_def checked_mul_def checked_sub_def PAGE_SIZE_eq
  usize_MAX_def PhysRange_size_def PhysAddr_is_aligned_iff PhysFrame_from_start_address_def
  FrameBlock_new_def shrunk_slot_def PhysRange_new_def PhysRange_is_empty_def numeral_2_eq_2 numeral_3_eq_3

theorem EarlyFrameAllocator_allocate_contiguous_witness:
  "EarlyFrameAllocator_allocate_contiguous 2 small_early =
     (Ok \<lparr>fb_start = \<lparr>pf_start = 12288\<rparr>, fb_count = 2\<rparr>,
      \<lparr>ea_free = [Some \<lparr>pr_start = 4096, pr_end = 12288\<rparr>, None, Some \<lparr>pr_start = 40960, pr_end = 45056\<rparr>]\<rparr>)
   \<and> block_addrs \<lparr>fb_start = \<lparr>pf_start = 12288\<rparr>, fb_count = 2\<rparr> \<subseteq> early_addrs small_early"
proof -
  have *: "EarlyFrameAllocator_allocate_contiguous 2 small_early =
     (Ok \<lparr>fb_start = \<lparr>pf_start = 12288\<rparr>, fb_count = 2\<rparr>,
      \<lparr>ea_free = [Some \<lparr>pr_start = 4096, pr_end = 12288\<rparr>, None, Some \<lparr>pr_start = 40960, pr_end = 45056\<rparr>]\<rparr>)"
    using PAGE_SIZE_power_of_two by (simp add: early_eval)
  with EarlyFrameAllocator_allocate_contiguous_correct [OF small_early_inv, of 2] show ?thesis
    by simp
qed

section \<open>Sources of single frames\<close>

primrec alloc_frames :: "('s, PhysFrame, 'e) action \<Rightarrow> nat \<Rightarrow> ('s, PhysFrame list, 'e) action" where
  "alloc_frames alloc 0 = sreturn []"
| "alloc_frames alloc (Suc n) =
     sbind alloc (\<lambda>f. sbind (alloc_frames alloc n) (\<lambda>fs. sreturn (f # fs)))"

locale frame_source =
  fixes alloc :: "('s, PhysFrame, 'e) action"
    and inv :: "'s \<Rightarrow> bool"
    and free :: "'s \<Rightarrow> PhysAddr set"
  assumes alloc_inv: "inv s \<Longrightarrow> alloc s = (Ok f, s') \<Longrightarrow> inv s'"
    and alloc_free: "inv s \<Longrightarrow> alloc s = (Ok f, s') \<Longrightarrow> frame_addrs f \<subseteq> free s"
    and alloc_taken: "inv s \<Longrightarrow> alloc s = (Ok f, s') \<Longrightarrow> free s' = free s - frame_addrs f"
    and alloc_aligned: "inv s \<Longrightarrow> alloc s = (Ok f, s') \<Longrightarrow> PAGE_SIZE dvd pf_start f"
    and alloc_err: "inv s \<Longrightarrow> alloc s = (Err e, s') \<Longrightarrow> s' = s"
    and alloc_total: "inv s \<Longrightarrow> alloc s \<noteq> (Panic, s')"
begin

lemma frames_taken:
  "inv s \<Longrightarrow> alloc_frames alloc n s = (Ok fs, s') \<Longrightarrow>
   inv s' \<and> length fs = n \<and> (\<Union>f \<in> set fs. frame_addrs f) \<subseteq> free s
   \<and> free s' = free s - (\<Union>f \<in> set fs. frame_addrs f)"
proof (induction n arbitrary: s fs)
  case (Suc n)
  then obtain f t gs where f: "alloc s = (Ok f, t)" and gs: "alloc_frames alloc n t = (Ok gs, s')"
    and fs: "fs = f # gs"
    by (auto simp: sbind_eq_Ok sreturn_def)
  from Suc.IH [OF alloc_inv [OF Suc.prems(1) f] gs] show ?case
    using alloc_free [OF Suc.prems(1) f] alloc_taken [OF Suc.prems(1) f] by (auto simp: fs)
qed (simp add: sreturn_def)

lemma frames_disjoint:
  "inv s \<Longrightarrow> alloc_frames alloc n s = (Ok fs, s') \<Longrightarrow>
   i < j \<Longrightarrow> j < length fs \<Longrightarrow> frame_addrs (fs ! i) \<inter> frame_addrs (fs ! j) = {}"
proof (induction n arbitrary: s fs i j)
  case (Suc n)
  then obtain f t gs where f: "alloc s = (Ok f, t)" and gs: "alloc_frames alloc n t = (Ok gs, s')"
    and fs: "fs = f # gs"
    by (auto simp: sbind_eq_Ok sreturn_def)
  note t = alloc_inv [OF Suc.prems(1) f]
  obtain j' where j': "j = Suc j'" "j' < length gs"
    using Suc.prems(3,4) fs by (cases j) auto
  show ?case
  proof (cases i)
    case 0
    have "frame_addrs (gs ! j') \<subseteq> free t"
      using frames_taken [OF t gs] j'(2) nth_mem by blast
    then show ?thesis
      using alloc_taken [OF Suc.prems(1) f] 0 j' by (auto simp: fs)
  next
    case (Suc i')
    with Suc.IH [OF t gs, of i' j'] Suc.prems(3) j' show ?thesis by (simp add: fs)
  qed
qed (simp add: sreturn_def)

end

lemma early_allocate_frame_Ok:
  assumes "EarlyFrameAllocator_allocate_frame s = (Ok f, s')"
  obtains b where "EarlyFrameAllocator_allocate_contiguous 1 s = (Ok b, s')" "f = fb_start b"
  using assms by (auto simp: EarlyFrameAllocator_allocate_frame_def sbind_eq_Ok sreturn_def)

interpretation early: frame_source EarlyFrameAllocator_allocate_frame early_inv early_addrs
proof (standard, goal_cases)
  case (1 s f s')
  then show ?case by (elim early_allocate_frame_Ok) (blast dest: early_allocate_addrs)
next
  case (2 s f s')
  then show ?case
    by (elim early_allocate_frame_Ok)
      (use early_allocate_addrs(2,4) in \<open>fastforce simp: frame_addrs_def block_addrs_def\<close>)
next
  case (3 s f s')
  then show ?case
    by (elim early_allocate_frame_Ok)
      (use early_allocate_addrs(3,4) in \<open>fastforce simp: frame_addrs_def block_addrs_def\<close>)
next
  case (4 s f s')
  then show ?case by (elim early_allocate_frame_Ok) (blast dest: early_allocate_addrs)
next
  case (5 s e s')
  then show ?case
    by (auto simp: EarlyFrameAllocator_allocate_frame_def sbind_def sreturn_def
        split: prod.splits result.splits dest: early_allocate_Err(1))
next
  case (6 s s')
  then show ?case
    by (auto simp: EarlyFrameAllocator_allocate_frame_def sbind_def sreturn_def
        split: prod.splits result.splits dest: early_allocate_no_panic)
qed

text \<open>
  Frames handed out by successive calls of \<open>allocate_frame\<close> never overlap: the early allocator does
  not give the same memory to two owners.
\<close>

theorem early_frames_disjoint:
  assumes "early_inv s" "alloc_frames EarlyFrameAllocator_allocate_frame n s = (Ok fs, s')"
    and "i < j" "j < n"
  shows "frame_addrs (fs ! i) \<inter> frame_addrs (fs ! j) = {} \<and> frame_addrs (fs ! i) \<subseteq> early_addrs s"
  using early.frames_disjoint [OF assms(1,2,3)] early.frames_taken [OF assms(1,2)] assms(3,4)
  by (auto simp: subset_eq)

theorem early_frames_disjoint_witness:
  "frame_addrs \<lparr>pf_start = 40960\<rparr> \<inter> frame_addrs \<lparr>pf_start = 16384\<rparr> = {}
   \<and> frame_addrs \<lparr>pf_start = 40960\<rparr> \<subseteq> early_addrs small_early"
proof -
  have "alloc_frames EarlyFrameAllocator_allocate_frame 2 small_early =
    (Ok [\<lparr>pf_start = 40960\<rparr>, \<lparr>pf_start = 16384\<rparr>],
     \<lparr>ea_free = [Some \<lparr>pr_start = 4096, pr_end = 16384\<rparr>, None, None]\<rparr>)"
    using PAGE_SIZE_power_of_two
    by (simp add: early_eval EarlyFrameAllocator_allocate_frame_def sbind_def sreturn_def)
  from early_frames_disjoint [OF small_early_inv this, of 0 1] show ?thesis by simp
qed

end
