(* ===== verification/Buddy_Properties.thy ===== *)
theory Buddy_Properties
  imports Buddy_Boot Early_Allocator
begin

text \<open>
  The properties of the buddy allocator: every reachable state satisfies the invariant, allocation is
  sound and complete, release restores what allocation took, and single pages are a source of disjoint
  frames like the early allocator.
\<close>

section \<open>Reference counts\<close>

lemma refcount_update_inv:
  assumes "buddy_inv b" "p \<in> managed b" "pg_state (pv b p) = Allocated"
  shows "buddy_inv (set_page p (\<lambda>pg. pg\<lparr>pg_reference_count := c\<rparr>) b)"
proof -
  from assms(1) obtain fl where wfb: "buddy_wf b" and fl: "free_lists b fl {}" "coalesced fl" and cnt: "counters_ok b"
    and heads: "heads_ok b" by (auto simp: buddy_inv_def)
  let ?b = "set_page p (\<lambda>pg. pg\<lparr>pg_reference_count := c\<rparr>) b"
  have s: "same_shape b ?b" by (rule set_page_shape)
  have v: "pv ?b = (pv b)(p := (pv b p)\<lparr>pg_reference_count := c\<rparr>)" by (rule set_page_view [OF wfb assms(2)])
  have st: "pg_state (pv ?b q) = pg_state (pv b q)" "pg_order (pv ?b q) = pg_order (pv b q)" for q by (simp_all add: v)
  have isf: "is_free ?b q = is_free b q" for q by (simp add: is_free_def st)
  have nf: "\<not> is_free b q" if "q \<in> {p}" for q using that assms(3) by (simp add: is_free_def)
  have "free_lists ?b fl {p}"
    by (rule free_lists_change [OF free_lists_add [OF fl(1) nf] s set_page_area]) (auto simp: v)
  then have "free_lists ?b fl {}" using free_lists_drop nf isf by blast
  moreover have "counters_ok ?b"
    using cnt same_shape_zone_pfns [OF s] by (simp add: counters_ok_def free_set_def present_set_def isf st)
  moreover have "heads_ok ?b" using heads same_shape_managed [OF s] by (simp add: heads_ok_def st)
  ultimately show ?thesis using fl(2) same_shape_wf [OF s wfb] by (auto simp: buddy_inv_def)
qed

lemma allocated_page_cases:
  "allocated_page b f = Ok pg \<longleftrightarrow>
     pf_start f div PAGE_SIZE \<in> managed b \<and> pg = pv b (pf_start f div PAGE_SIZE) \<and> pg_state pg = Allocated"
  by (cases "pf_start f div PAGE_SIZE \<in> managed b")
    (auto simp: allocated_page_def buddy_page_managed buddy_page_outside)

lemma allocated_page_no_panic: "allocated_page b f \<noteq> Panic"
  by (cases "pf_start f div PAGE_SIZE \<in> managed b")
    (auto simp: allocated_page_def buddy_page_managed buddy_page_outside)

text \<open>An update of the count of an allocated frame is visible at that frame only and keeps the invariant.\<close>

lemma set_refcount:
  fixes c :: nat
  assumes "buddy_inv b" "allocated_page b f = Ok pg"
  defines "b' \<equiv> set_page (pf_start f div PAGE_SIZE) (\<lambda>page. page\<lparr>pg_reference_count := c\<rparr>) b"
  shows "page_mut (pf_start f div PAGE_SIZE) (\<lambda>page. page\<lparr>pg_reference_count := c\<rparr>) b = (Ok (), b')"
    and "buddy_inv b'" and "BuddyAllocator_reference_count b' f = Ok c"
    and "is_free b' x = is_free b x" and "same_shape b b'"
proof -
  let ?p = "pf_start f div PAGE_SIZE"
  have wfb: "buddy_wf b" using assms(1) by (simp add: buddy_inv_def)
  from assms(2) have m: "?p \<in> managed b" "pg = pv b ?p" "pg_state (pv b ?p) = Allocated"
    by (auto simp: allocated_page_cases)
  have v: "pv b' = (pv b)(?p := (pv b ?p)\<lparr>pg_reference_count := c\<rparr>)"
    unfolding b'_def by (rule set_page_view [OF wfb m(1)])
  have m': "?p \<in> managed b'" unfolding b'_def using m(1) same_shape_managed [OF set_page_shape] by simp
  show "page_mut ?p (\<lambda>page. page\<lparr>pg_reference_count := c\<rparr>) b = (Ok (), b')"
    unfolding b'_def by (rule page_mut_managed [OF m(1)])
  show "buddy_inv b'" unfolding b'_def by (rule refcount_update_inv [OF assms(1) m(1,3)])
  show "BuddyAllocator_reference_count b' f = Ok c"
    using m(3) by (simp add: BuddyAllocator_reference_count_def allocated_page_def buddy_page_managed [OF m'] v)
  show "is_free b' x = is_free b x" using m(3) by (simp add: is_free_def v)
  show "same_shape b b'" unfolding b'_def by (rule set_page_shape)
qed

lemma increment_reference_cases:
  assumes "buddy_inv b" "BuddyAllocator_increment_reference f b = (r, b')"
  shows "case r of
      Ok c \<Rightarrow> buddy_inv b' \<and> BuddyAllocator_reference_count b f = Ok (c - 1) \<and> 1 < c \<and> (c - 1 \<le> u32_MAX \<longrightarrow> c \<le> u32_MAX)
        \<and> BuddyAllocator_reference_count b' f = Ok c \<and> (\<forall>x. is_free b' x = is_free b x) \<and> same_shape b b'
    | Err e \<Rightarrow> b' = b
    | Panic \<Rightarrow> False"
proof (cases "allocated_page b f")
  case (Ok pg)
  note facts = set_refcount [OF assms(1) Ok, where c = "Suc (pg_reference_count pg)"]
  have now: "BuddyAllocator_reference_count b f = Ok (pg_reference_count pg)"
    by (simp add: BuddyAllocator_reference_count_def Ok)
  show ?thesis
    using assms(2)
    by (auto simp: facts now BuddyAllocator_increment_reference_def sbind_def sread_def Let_def sfail_def sseq_def
        sreturn_def Ok split: if_splits)
qed (use assms(2) allocated_page_no_panic [of b f] in
    \<open>auto simp: BuddyAllocator_increment_reference_def sbind_def sread_def\<close>)

lemma decrement_reference_cases:
  assumes "buddy_inv b" "BuddyAllocator_decrement_reference f b = (r, b')"
  shows "case r of
      Ok c \<Rightarrow> buddy_inv b' \<and> BuddyAllocator_reference_count b f = Ok (c + 1)
        \<and> BuddyAllocator_reference_count b' f = Ok c \<and> (\<forall>x. is_free b' x = is_free b x) \<and> same_shape b b'
    | Err e \<Rightarrow> b' = b
    | Panic \<Rightarrow> False"
proof (cases "allocated_page b f")
  case (Ok pg)
  note facts = set_refcount [OF assms(1) Ok, where c = "pg_reference_count pg - Suc 0"]
  have now: "BuddyAllocator_reference_count b f = Ok (pg_reference_count pg)"
    by (simp add: BuddyAllocator_reference_count_def Ok)
  show ?thesis
    using assms(2)
    by (auto simp: facts now BuddyAllocator_decrement_reference_def sbind_def sread_def Let_def sfail_def sseq_def
        sreturn_def Ok split: if_splits)
qed (use assms(2) allocated_page_no_panic [of b f] in
    \<open>auto simp: BuddyAllocator_decrement_reference_def sbind_def sread_def\<close>)

lemma begin_free_unreferenced_frame_cases:
  assumes "buddy_inv b"
  shows "let p = pf_start f div PAGE_SIZE in
    if p \<in> managed b \<and> pg_state (pv b p) = Allocated \<and> pg_order (pv b p) = 0 \<and> pg_reference_count (pv b p) = 0
    then \<exists>a b'. BuddyAllocator_begin_free_unreferenced_frame f b = (Ok a, b') \<and> buddy_inv b'
      \<and> (\<forall>x. is_free b' x = is_free b x) \<and> remark b p 0 Freeing b' \<and> valid_block b' a None Freeing
      \<and> pa_start a = f \<and> pa_order a = 0
    else \<exists>e. BuddyAllocator_begin_free_unreferenced_frame f b = (Err e, b)"
proof -
  let ?p = "pf_start f div PAGE_SIZE"
  have wfb: "buddy_wf b" using assms by (simp add: buddy_inv_def)
  show ?thesis
  proof (cases "?p \<in> managed b")
    case False
    then show ?thesis
      by (simp add: BuddyAllocator_begin_free_unreferenced_frame_def Let_def sbind_def sread_def
          zone_kind_for_pfn_outside [OF wfb])
  next
    case m: True
    then obtain k where k: "?p \<in> zone_pfns b k" using managed_in_zone [OF wfb] by blast
    have blk: "Zone_contains_block (zone_of b k) ?p 0" using block_in_zone [OF wfb] k by simp
    have "block ?p 0 \<subseteq> managed b" using m by (simp add: block_def)
    then obtain b' where b': "mark_freeing_block ?p 0 k b = (Ok (), b')" "same_shape b b'" "zone_of b' = zone_of b"
      "pv b' = (\<lambda>q. if q \<in> block ?p 0 then (pv b q)\<lparr>pg_state := Freeing,
         pg_order := (if q - ?p = 0 then 0 else INVALID_ORDER), pg_zone := ZoneKind_index k,
         pg_next := INVALID_PFN, pg_previous := INVALID_PFN\<rparr> else pv b q)"
      unfolding mark_freeing_block_def by (rule mark_block_Ok [OF wfb])
    have rem: "remark b ?p 0 Freeing b'" using b' by (auto simp: remark_def block_def)
    have unfold: "BuddyAllocator_begin_free_unreferenced_frame f b =
      (if pg_state (pv b ?p) \<noteq> Allocated \<or> pg_order (pv b ?p) \<noteq> 0 then (Err InvalidAllocation, b)
       else if pg_reference_count (pv b ?p) \<noteq> 0 then (Err (PageStillReferenced f (pg_reference_count (pv b ?p))), b)
       else (Ok \<lparr>pa_start = f, pa_order = 0, pa_zone = k\<rparr>, b'))"
      by (simp add: BuddyAllocator_begin_free_unreferenced_frame_def Let_def sbind_def sread_def sget_def sfail_def
          zone_kind_for_pfn_Ok [OF wfb k] blk buddy_page_managed [OF m] sseq_def b'(1) sreturn_def)
    have "buddy_inv b' \<and> (\<forall>x. is_free b' x = is_free b x)"
      if "pg_state (pv b ?p) = Allocated"
      using remark_inv [OF assms rem] that by (simp add: MAX_ORDER_def)
    moreover have "valid_block b' \<lparr>pa_start = f, pa_order = 0, pa_zone = k\<rparr> None Freeing"
      using k same_shape_zone_pfns [OF b'(2)] by (simp add: valid_block_def MAX_ORDER_def b'(4))
    ultimately show ?thesis using unfold rem m by (simp add: Let_def)
  qed
qed

section \<open>All operations\<close>

datatype buddy_op =
    MarkPresent PhysRange
  | Release PhysRange
  | Allocate nat AllocationClass
  | BeginFree PageAllocation
  | CancelFree PageAllocation
  | FinishFree PageAllocation
  | IncrementReference PhysFrame
  | DecrementReference PhysFrame
  | BeginFreeFrame PhysFrame

fun buddy_exec :: "buddy_op \<Rightarrow> (BuddyAllocator, unit, BuddyError) action" where
  "buddy_exec (MarkPresent r) = BuddyAllocator_mark_present_range r"
| "buddy_exec (Release r) = BuddyAllocator_release_range r"
| "buddy_exec (Allocate n c) = sseq (BuddyAllocator_allocate n c) (sreturn ())"
| "buddy_exec (BeginFree a) = BuddyAllocator_begin_free a"
| "buddy_exec (CancelFree a) = BuddyAllocator_cancel_free a"
| "buddy_exec (FinishFree a) = BuddyAllocator_finish_free a"
| "buddy_exec (IncrementReference f) = sseq (BuddyAllocator_increment_reference f) (sreturn ())"
| "buddy_exec (DecrementReference f) = sseq (BuddyAllocator_decrement_reference f) (sreturn ())"
| "buddy_exec (BeginFreeFrame f) = sseq (BuddyAllocator_begin_free_unreferenced_frame f) (sreturn ())"

text \<open>Every operation keeps the invariant, does not panic, and changes nothing when it fails.\<close>

definition sound_outcome :: "BuddyAllocator \<Rightarrow> (unit, BuddyError) result \<times> BuddyAllocator \<Rightarrow> bool" where
  "sound_outcome b = (\<lambda>(r, b'). case r of Ok _ \<Rightarrow> buddy_inv b' \<and> same_shape b b' | Err e \<Rightarrow> b' = b | Panic \<Rightarrow> False)"

lemma buddy_exec_sound:
  assumes "buddy_inv b"
  shows "sound_outcome b (buddy_exec op b)"
proof (cases op)
  case (MarkPresent r)
  then show ?thesis
    using BuddyAllocator_mark_present_range_cases [OF assms, of r] by (auto simp: sound_outcome_def)
next
  case (Release r)
  then show ?thesis
    using BuddyAllocator_release_range_cases [OF assms, of r] by (auto simp: sound_outcome_def)
next
  case (Allocate n c)
  obtain r b' where "BuddyAllocator_allocate n c b = (r, b')" by fastforce
  with Allocate BuddyAllocator_allocate_cases [OF assms, of n c] show ?thesis
    by (cases r) (auto simp: sound_outcome_def sseq_def sbind_def sreturn_def allocated_token_def alloc_step_def)
next
  case (BeginFree a)
  then show ?thesis
    using BuddyAllocator_begin_free_cases [OF assms, of a] by (auto simp: sound_outcome_def remark_def free_step_def split: if_splits)
next
  case (CancelFree a)
  then show ?thesis
    using BuddyAllocator_cancel_free_cases [OF assms, of a] by (auto simp: sound_outcome_def remark_def free_step_def split: if_splits)
next
  case (FinishFree a)
  then show ?thesis
    using BuddyAllocator_finish_free_cases [OF assms, of a] by (auto simp: sound_outcome_def remark_def free_step_def split: if_splits)
next
  case (IncrementReference f)
  obtain r b' where "BuddyAllocator_increment_reference f b = (r, b')" by fastforce
  with IncrementReference increment_reference_cases [OF assms, of f r b'] show ?thesis
    by (cases r) (auto simp: sound_outcome_def sseq_def sbind_def sreturn_def)
next
  case (DecrementReference f)
  obtain r b' where "BuddyAllocator_decrement_reference f b = (r, b')" by fastforce
  with DecrementReference decrement_reference_cases [OF assms, of f r b'] show ?thesis
    by (cases r) (auto simp: sound_outcome_def sseq_def sbind_def sreturn_def)
next
  case (BeginFreeFrame f)
  then show ?thesis
    using begin_free_unreferenced_frame_cases [OF assms, of f]
    by (auto simp: sound_outcome_def remark_def sseq_def sbind_def sreturn_def Let_def split: if_splits)
qed

inductive buddy_run :: "PhysRange \<Rightarrow> BuddyAllocator \<Rightarrow> bool" for r where
  boot: "BuddyAllocator_new ptr bytes r = Ok b \<Longrightarrow> buddy_run r b"
| step: "buddy_run r b \<Longrightarrow> buddy_exec op b = (res, b') \<Longrightarrow> buddy_run r b'"

lemma buddy_run_inv:
  assumes "buddy_run r b" "PhysRange_ok r"
  shows "buddy_inv b"
  using assms(1)
proof induction
  case (boot ptr bytes b)
  then show ?case using BuddyAllocator_new_inv(1) [OF assms(2)] by blast
next
  case (step b op res b')
  from buddy_exec_sound [OF step.IH, of op] step.hyps(2) step.IH show ?case
    by (cases res) (auto simp: sound_outcome_def)
qed

lemma total_free_pages_card:
  assumes "buddy_inv b"
  shows "BuddyAllocator_total_free_pages b = card {p \<in> managed b. is_free b p}"
proof -
  have wfb: "buddy_wf b" and cnt: "counters_ok b" using assms by (auto simp: buddy_inv_def)
  then have "length (ba_zones b) = 2" by (simp add: buddy_wf_def)
  then obtain x y where zs: "ba_zones b = [x, y]" by (metis length_0_conv length_Suc_conv numeral_2_eq_2)
  have "BuddyAllocator_total_free_pages b = card (free_set b Dma32) + card (free_set b NormalZone)"
    using cnt by (auto simp: BuddyAllocator_total_free_pages_def zs counters_ok_def zone_of_def
        intro!: arg_cong2 [where f = "(+)"]) (metis ZoneKind_index.simps nth_Cons_0 nth_Cons_Suc One_nat_def)+
  also have "\<dots> = card (free_set b Dma32 \<union> free_set b NormalZone)"
    using zone_pfns_disjoint [OF wfb, of _ Dma32 NormalZone]
    by (intro card_Un_disjoint [symmetric]) (auto simp: free_set_def)
  also have "free_set b Dma32 \<union> free_set b NormalZone = {p \<in> managed b. is_free b p}"
    using zone_pfns_managed [OF wfb] managed_in_zone [OF wfb]
    by (auto simp: free_set_def) (metis ZoneKind.exhaust)
  finally show ?thesis .
qed

section \<open>Allocation and release\<close>

lemma valid_block_Freeing:
  assumes "valid_block b a c Allocated" "remark b (pf_start (pa_start a) div PAGE_SIZE) (pa_order a) Freeing b'"
  shows "valid_block b' a None Freeing"
  using assms same_shape_zone_pfns [of b b']
  by (auto simp: valid_block_def remark_def Let_def)

lemma BuddyAllocator_free_cases:
  assumes "buddy_inv b"
  shows "if valid_block b a (Some 1) Allocated
    then \<exists>b'. BuddyAllocator_free a b = (Ok (), b') \<and> buddy_inv b' \<and> same_shape b b'
      \<and> (\<forall>x. is_free b' x \<longleftrightarrow> is_free b x \<or> x \<in> block (pf_start (pa_start a) div PAGE_SIZE) (pa_order a))
      \<and> (\<forall>x. \<not> is_free b' x \<longrightarrow> marks (pv b' x) = marks (pv b x))
    else \<exists>e. BuddyAllocator_free a b = (Err e, b)"
proof (cases "valid_block b a (Some 1) Allocated")
  case True
  let ?p = "pf_start (pa_start a) div PAGE_SIZE" and ?n = "pa_order a"
  obtain b1 where b1: "BuddyAllocator_begin_free a b = (Ok (), b1)" "buddy_inv b1" "\<forall>x. is_free b1 x = is_free b x"
    "remark b ?p ?n Freeing b1"
    using BuddyAllocator_begin_free_cases [OF assms, of a] True by auto
  have v: "valid_block b1 a None Freeing" by (rule valid_block_Freeing [OF True b1(4)])
  obtain b' where b': "BuddyAllocator_finish_free a b1 = (Ok (), b')" "buddy_inv b'" "free_step b1 ?p ?n b'"
    using BuddyAllocator_finish_free_cases [OF b1(2), of a] v by auto
  have "marks (pv b' x) = marks (pv b x)" if "\<not> is_free b' x" for x
  proof -
    have "x \<notin> block ?p ?n" using that b'(3) by (auto simp: free_step_def)
    then show ?thesis using that b1(4) b'(3) by (auto simp: free_step_def remark_def)
  qed
  moreover have "same_shape b b'" using b1(4) b'(3) same_shape_trans by (auto simp: free_step_def remark_def)
  moreover have "is_free b' x \<longleftrightarrow> is_free b x \<or> x \<in> block ?p ?n" for x
    using b'(3) b1(3) by (auto simp: free_step_def)
  ultimately show ?thesis
    using True b1(1) b'(1,2) by (auto simp: BuddyAllocator_free_def sseq_def sbind_def simp del: One_nat_def)
next
  case False
  then show ?thesis
    using BuddyAllocator_begin_free_cases [OF assms, of a]
    by (auto simp: BuddyAllocator_free_def sseq_def sbind_def simp del: One_nat_def)
qed

lemma allocated_token_valid:
  assumes "buddy_wf b" "allocated_token b k n a b'" "n < MAX_ORDER"
  shows "valid_block b' a (Some 1) Allocated"
proof -
  from assms(2) obtain p where a: "a = \<lparr>pa_start = \<lparr>pf_start = p * PAGE_SIZE\<rparr>, pa_order = n, pa_zone = k\<rparr>"
    and p: "block p n \<subseteq> free_set b k" "alloc_step b p n b'" by (auto simp: allocated_token_def)
  have "block p n \<subseteq> zone_pfns b' k"
    using p same_shape_zone_pfns [of b b'] by (auto simp: alloc_step_def free_set_def)
  with p assms(3) show ?thesis
    by (auto simp: valid_block_def Let_def a alloc_step_def)
qed

section \<open>An example\<close>

text \<open>Two pages that form one free block of order one.\<close>

definition two_pages :: BuddyAllocator where
  "two_pages = \<lparr>ba_metadata = [Page_absent\<lparr>pg_state := FreeHead, pg_order := 1, pg_zone := 0\<rparr>,
                               Page_absent\<lparr>pg_state := FreeTail, pg_zone := 0\<rparr>],
     ba_managed = \<lparr>pr_start = 16 * PAGE_SIZE, pr_end = 18 * PAGE_SIZE\<rparr>, ba_base_pfn = 16, ba_page_count = 2,
     ba_zones = [(Zone_new 16 18)\<lparr>zn_free_area := (replicate MAX_ORDER FreeArea_EMPTY)[1 := \<lparr>fa_head = 16, fa_block_count = 1\<rparr>],
        zn_present_pages := 2, zn_free_pages := 2\<rparr>, Zone_new 18 18]\<rparr>"

lemma two_pages_managed: "managed two_pages = {16, 17}"
  by (auto simp: managed_def two_pages_def)

lemma two_pages_zone: "zone_pfns two_pages k = (case k of Dma32 \<Rightarrow> {16, 17} | NormalZone \<Rightarrow> {})"
  by (cases k) (auto simp: zone_pfns_def zone_of_def two_pages_def Zone_new_def)

lemma two_pages_view:
  "pv two_pages p = (if p = 16 then Page_absent\<lparr>pg_state := FreeHead, pg_order := 1, pg_zone := 0\<rparr>
     else if p = 17 then Page_absent\<lparr>pg_state := FreeTail, pg_zone := 0\<rparr> else Page_absent)"
  by (auto simp: pv_def two_pages_managed) (auto simp: two_pages_def)

lemma two_pages_free: "is_free two_pages p \<longleftrightarrow> p = 16 \<or> p = 17"
  by (auto simp: is_free_def two_pages_view Page_absent_def)

lemma two_pages_area: "n < MAX_ORDER \<Longrightarrow>
  area_of two_pages k n = (if k = Dma32 \<and> n = 1 then \<lparr>fa_head = 16, fa_block_count = 1\<rparr> else FreeArea_EMPTY)"
  by (cases k) (auto simp: area_of_def zone_of_def two_pages_def Zone_new_def nth_list_update)

lemma two_pages_inv: "buddy_inv two_pages"
proof -
  define fl :: lists where "fl k n = (if k = Dma32 \<and> n = 1 then [16] else [])" for k n
  have b: "block 16 1 = {16, 17}" by (auto simp: block_def)
  have le: "18 * PAGE_SIZE \<le> usize_MAX" "(18::nat) \<le> DMA32_LIMIT_PFN"
    by (simp_all add: PAGE_SIZE_def PAGE_SHIFT_def usize_MAX_def DMA32_LIMIT_PFN_def DMA32_LIMIT_def)
  have "flist_ok two_pages (area_of two_pages k n) (fl k n)" if "n < MAX_ORDER" for k n
    using that by (simp add: two_pages_area fl_def flist_ok_def two_pages_view Page_absent_def FreeArea_EMPTY_def)
  moreover have "free_block two_pages k p n" if "p \<in> set (fl k n)" for k n p
    using that b by (auto simp: fl_def free_block_def two_pages_zone two_pages_view Page_absent_def split: if_splits)
  moreover have "\<exists>k n p. p \<in> set (fl k n) \<and> q \<in> block p n" if "is_free two_pages q" for q
    using that b by (intro exI [of _ Dma32] exI [of _ 1] exI [of _ 16]) (auto simp: fl_def two_pages_free)
  ultimately have "free_lists two_pages fl {}"
    by (auto simp: free_lists_def fl_def MAX_ORDER_def)
  moreover have "coalesced fl" by (auto simp: coalesced_def fl_def)
  moreover have "length (zn_free_area (zone_of two_pages k)) = MAX_ORDER" for k
    by (cases k) (simp_all add: two_pages_def zone_of_def Zone_new_def)
  then have "buddy_wf two_pages"
    using le by (auto simp: buddy_wf_def two_pages_zone two_pages_managed) (simp_all add: two_pages_def)
  moreover have "heads_ok two_pages"
    by (auto simp: heads_ok_def two_pages_managed two_pages_view Page_absent_def)
  moreover have "free_set two_pages k = zone_pfns two_pages k" "present_set two_pages k = zone_pfns two_pages k" for k
    by (auto simp: free_set_def present_set_def two_pages_free two_pages_zone two_pages_view Page_absent_def split: ZoneKind.splits)
  then have "counters_ok two_pages"
    by (auto simp: counters_ok_def two_pages_zone split: ZoneKind.splits) (auto simp: two_pages_def zone_of_def Zone_new_def split: ZoneKind.splits)
  ultimately show ?thesis by (auto simp: buddy_inv_def)
qed
lemmas buddy_eval = PAGE_SIZE_def Zone_new_def checked_add_def checked_sub_def Let_def
   sbind_def sseq_def sreturn_def sread_def sget_def smodify_def sfail_def slift_def swhen_def 
   page_mut_def page_pointer_def buddy_page_def zone_mut_def area_mut_def zone_of_def area_of_def 
   INVALID_PFN_def INVALID_ORDER_def INVALID_ZONE_def MAX_ORDER_def usize_MAX_def


lemma orders: "[Suc 0..<17] = [1, 2, 3, 4, 5, 6, 7, 8, 9, 10, 11, 12, 13, 14, 15, 16]"
  and offsets: "[0..<2] = [0, 1 :: nat]"
  by (simp_all add: upt_rec)
lemma two_pages_allocate: "fst (BuddyAllocator_allocate 1 AnyZone two_pages) = Ok \<lparr>pa_start = \<lparr>pf_start = 65536\<rparr>, pa_order = 1, pa_zone = Dma32\<rparr>"
  by (simp add: BuddyAllocator_allocate_def allocate_from_zone_def remove_free_block_def mark_allocated_block_def mark_block_def buddy_eval two_pages_def Page_absent_def
   frame_from_pfn_def FreeArea_EMPTY_def PAGE_SHIFT_def PhysFrame_from_start_address_def PhysAddr_is_aligned_def checked_mul_def  add_usize_def orders offsets PAGE_SIZE_power_of_two [unfolded PAGE_SIZE_def PAGE_SHIFT_def, simplified])

text \<open>The state after the allocation of the block.\<close>

lemma two_pages_allocated:
  obtains b' where "BuddyAllocator_allocate 1 AnyZone two_pages
      = (Ok \<lparr>pa_start = \<lparr>pf_start = 65536\<rparr>, pa_order = 1, pa_zone = Dma32\<rparr>, b')"
    and "buddy_inv b'" "allocated_page b' \<lparr>pf_start = 65536\<rparr> = Ok (pv b' 16)" "pg_reference_count (pv b' 16) = 1"
    and "valid_block b' \<lparr>pa_start = \<lparr>pf_start = 65536\<rparr>, pa_order = 1, pa_zone = Dma32\<rparr> (Some 1) Allocated"
proof -
  let ?a = "\<lparr>pa_start = \<lparr>pf_start = 65536\<rparr>, pa_order = 1, pa_zone = Dma32\<rparr>"
  obtain b' where b': "BuddyAllocator_allocate 1 AnyZone two_pages = (Ok ?a, b')"
    using two_pages_allocate by (metis prod.collapse)
  have t: "allocated_token two_pages Dma32 1 ?a b'" "1 < MAX_ORDER"
    using BuddyAllocator_allocate_cases [OF two_pages_inv, of 1 AnyZone] unfolding b' by auto
  then obtain p where p: "65536 = p * PAGE_SIZE" "buddy_inv b'" "alloc_step two_pages p 1 b'"
    by (auto simp: allocated_token_def)
  then have "p = 16" by (simp add: PAGE_SIZE_def PAGE_SHIFT_def)
  then have s: "pg_state (pv b' 16) = Allocated" "pg_reference_count (pv b' 16) = 1" "same_shape two_pages b'"
    using p(3) by (auto simp: alloc_step_def block_def)
  have "16 \<in> managed b'" using same_shape_managed [OF s(3)] two_pages_managed by simp
  then have "allocated_page b' \<lparr>pf_start = 65536\<rparr> = Ok (pv b' 16)"
    using s(1) by (simp add: allocated_page_cases PAGE_SIZE_def PAGE_SHIFT_def)
  moreover have "buddy_wf two_pages" using two_pages_inv by (simp add: buddy_inv_def)
  ultimately show ?thesis using that b' p(2) s(2) allocated_token_valid [OF _ t] by blast
qed

section \<open>Properties\<close>

text \<open>
  C3. Allocation is sound and complete. A successful \<open>allocate\<close> returns a naturally aligned block of
  \<open>2 ^ order\<close> pages of the zone it names, every page of which was free; exactly these pages stop being
  free, they become allocated with reference count one, no other page changes its state, and the invariant
  holds again. \<open>OutOfMemory\<close> is reported only when no aligned block of that order is free in any zone the
  class allows, DMA memory is used for an ordinary request only when the normal zone cannot serve it, and
  a failure changes nothing. There is no panic.
\<close>

theorem BuddyAllocator_allocate_correct:
  assumes "buddy_inv b"
  shows "case BuddyAllocator_allocate n c b of
      (Ok a, b') \<Rightarrow> \<exists>p. a = \<lparr>pa_start = \<lparr>pf_start = p * PAGE_SIZE\<rparr>, pa_order = n, pa_zone = pa_zone a\<rparr>
        \<and> n < MAX_ORDER \<and> 2 ^ n dvd p \<and> block p n \<subseteq> free_set b (pa_zone a)
        \<and> buddy_inv b' \<and> alloc_step b p n b'
        \<and> zn_free_pages (zone_of b' (pa_zone a)) = zn_free_pages (zone_of b (pa_zone a)) - 2 ^ n
        \<and> (pa_zone a = NormalZone \<longrightarrow> c = AnyZone)
        \<and> (c = AnyZone \<and> can_serve b NormalZone n \<longrightarrow> pa_zone a = NormalZone)
    | (Err e, b') \<Rightarrow> b' = b \<and> (e = InvalidOrder n \<and> MAX_ORDER \<le> n
        \<or> e = OutOfMemory \<and> n < MAX_ORDER \<and> \<not> can_serve b Dma32 n \<and> (c = AnyZone \<longrightarrow> \<not> can_serve b NormalZone n))
    | (Panic, b') \<Rightarrow> False"
proof -
  obtain r b' where r: "BuddyAllocator_allocate n c b = (r, b')" by fastforce
  show ?thesis
    using BuddyAllocator_allocate_cases [OF assms, of n c] unfolding r
    by (cases r; cases c) (auto simp: allocated_token_def)
qed

theorem BuddyAllocator_allocate_witness:
  "buddy_inv two_pages
   \<and> fst (BuddyAllocator_allocate 1 AnyZone two_pages) = Ok \<lparr>pa_start = \<lparr>pf_start = 65536\<rparr>, pa_order = 1, pa_zone = Dma32\<rparr>
   \<and> (\<forall>x. \<not> is_free (snd (BuddyAllocator_allocate 1 AnyZone two_pages)) x)
   \<and> buddy_inv (snd (BuddyAllocator_allocate 1 AnyZone two_pages))"
proof -
  obtain b' where b': "BuddyAllocator_allocate 1 AnyZone two_pages
      = (Ok \<lparr>pa_start = \<lparr>pf_start = 65536\<rparr>, pa_order = 1, pa_zone = Dma32\<rparr>, b')"
    using two_pages_allocate by (metis prod.collapse)
  obtain p where p: "65536 = p * PAGE_SIZE" "buddy_inv b'" "alloc_step two_pages p 1 b'"
    using BuddyAllocator_allocate_correct [OF two_pages_inv, of 1 AnyZone] unfolding b' by auto
  then have "p = 16" by (simp add: PAGE_SIZE_def PAGE_SHIFT_def)
  then have "\<not> is_free b' x" for x
    using p(3) by (auto simp: alloc_step_def two_pages_free block_def)
  with b' p(2) two_pages_inv show ?thesis by simp
qed

text \<open>
  C8. \<open>free\<close> accepts a token exactly when it names a whole allocated block with one reference on every page;
  then every page of the block becomes free again, merged with its free buddies, no other page changes its
  state, and the invariant holds. Every other token, in particular one of a block that has been freed already, is
  rejected and the allocator is unchanged.
\<close>

theorem BuddyAllocator_free_correct:
  assumes "buddy_inv b"
  shows "case BuddyAllocator_free a b of
      (Ok _, b') \<Rightarrow> valid_block b a (Some 1) Allocated \<and> buddy_inv b'
        \<and> (\<forall>x. is_free b' x \<longleftrightarrow> is_free b x \<or> x \<in> block (pf_start (pa_start a) div PAGE_SIZE) (pa_order a))
        \<and> (\<forall>x. \<not> is_free b' x \<longrightarrow> marks (pv b' x) = marks (pv b x))
        \<and> (\<exists>e. BuddyAllocator_free a b' = (Err e, b'))
    | (Err e, b') \<Rightarrow> \<not> valid_block b a (Some 1) Allocated \<and> b' = b
    | (Panic, b') \<Rightarrow> False"
proof (cases "valid_block b a (Some 1) Allocated")
  case True
  let ?B = "block (pf_start (pa_start a) div PAGE_SIZE) (pa_order a)"
  obtain b' where b': "BuddyAllocator_free a b = (Ok (), b')" "buddy_inv b'"
    "\<forall>x. is_free b' x \<longleftrightarrow> is_free b x \<or> x \<in> ?B" "\<forall>x. \<not> is_free b' x \<longrightarrow> marks (pv b' x) = marks (pv b x)"
    using BuddyAllocator_free_cases [OF assms, of a] True by auto
  have h: "pf_start (pa_start a) div PAGE_SIZE \<in> ?B" by (simp add: block_def)
  then have "is_free b' (pf_start (pa_start a) div PAGE_SIZE)" using b'(3) by blast
  with h have "\<not> valid_block b' a (Some 1) Allocated"
    unfolding valid_block_def Let_def is_free_def by force
  then have "\<exists>e. BuddyAllocator_free a b' = (Err e, b')"
    using BuddyAllocator_free_cases [OF b'(2), of a] by simp
  with b' True show ?thesis by simp
qed (use BuddyAllocator_free_cases [OF assms, of a] in auto)

theorem BuddyAllocator_free_witness:
  "buddy_inv two_pages \<and> snd (BuddyAllocator_free \<lparr>pa_start = \<lparr>pf_start = 65536\<rparr>, pa_order = 1, pa_zone = Dma32\<rparr> two_pages) = two_pages"
proof -
  let ?a = "\<lparr>pa_start = \<lparr>pf_start = 65536\<rparr>, pa_order = 1, pa_zone = Dma32\<rparr>"
  have "\<not> valid_block two_pages ?a (Some 1) Allocated"
    by (auto simp: valid_block_def Let_def two_pages_view PAGE_SIZE_def PAGE_SHIFT_def block_def Page_absent_def)
  then show ?thesis
    using BuddyAllocator_free_correct [OF two_pages_inv, of ?a] two_pages_inv
    by (auto split: prod.splits result.splits)
qed

text \<open>
  C16. Allocating a block and freeing it is the identity on the set of free pages: the release always succeeds and
  afterwards precisely the pages that were free before are free, with the same free page count.
\<close>

theorem BuddyAllocator_allocate_free:
  assumes "buddy_inv b" "BuddyAllocator_allocate n c b = (Ok a, b1)"
  shows "\<exists>b2. BuddyAllocator_free a b1 = (Ok (), b2) \<and> buddy_inv b2 \<and> (\<forall>x. is_free b2 x = is_free b x)
    \<and> BuddyAllocator_total_free_pages b2 = BuddyAllocator_total_free_pages b"
proof -
  have wfb: "buddy_wf b" using assms(1) by (simp add: buddy_inv_def)
  have t: "allocated_token b (pa_zone a) n a b1" "n < MAX_ORDER"
    using BuddyAllocator_allocate_cases [OF assms(1), of n c] assms(2) by auto
  then obtain p where a: "a = \<lparr>pa_start = \<lparr>pf_start = p * PAGE_SIZE\<rparr>, pa_order = n, pa_zone = pa_zone a\<rparr>"
    and p: "block p n \<subseteq> free_set b (pa_zone a)" "buddy_inv b1" "alloc_step b p n b1" by (auto simp: allocated_token_def)
  have blk: "block (pf_start (pa_start a) div PAGE_SIZE) (pa_order a) = block p n" by (subst (1 2) a) simp
  obtain b2 where b2: "BuddyAllocator_free a b1 = (Ok (), b2)" "buddy_inv b2" "same_shape b1 b2"
    "\<forall>x. is_free b2 x \<longleftrightarrow> is_free b1 x \<or> x \<in> block p n"
    using BuddyAllocator_free_cases [OF p(2), of a] allocated_token_valid [OF wfb t] by (auto simp: blk)
  have same: "is_free b2 x = is_free b x" for x
    using b2(4) p(1,3) by (auto simp: alloc_step_def free_set_def)
  moreover have "managed b2 = managed b"
    using b2(3) p(3) by (simp add: alloc_step_def same_shape_managed)
  ultimately show ?thesis
    using b2(1,2) assms(1) by (simp add: total_free_pages_card)
qed

theorem BuddyAllocator_allocate_free_witness:
  "\<exists>b1 b2. BuddyAllocator_allocate 1 AnyZone two_pages = (Ok \<lparr>pa_start = \<lparr>pf_start = 65536\<rparr>, pa_order = 1, pa_zone = Dma32\<rparr>, b1)
    \<and> BuddyAllocator_free \<lparr>pa_start = \<lparr>pf_start = 65536\<rparr>, pa_order = 1, pa_zone = Dma32\<rparr> b1 = (Ok (), b2)
    \<and> is_free b2 16 \<and> is_free b2 17"
proof -
  obtain b' where b': "BuddyAllocator_allocate 1 AnyZone two_pages
      = (Ok \<lparr>pa_start = \<lparr>pf_start = 65536\<rparr>, pa_order = 1, pa_zone = Dma32\<rparr>, b')"
    using two_pages_allocate by (metis prod.collapse)
  from BuddyAllocator_allocate_free [OF two_pages_inv this] b' show ?thesis by (auto simp: two_pages_free)
qed

text \<open>
  C1. Every state that any sequence of calls reaches from \<open>BuddyAllocator::new\<close>, with arbitrary
  arguments and whether or not the calls succeed, is consistent: the free lists are linked correctly,
  contain exactly the free pages in aligned disjoint blocks of one zone, and no two buddies are left unmerged; the free page counter is the
  number of free pages. In such a state no operation panics, and one that fails changes nothing.
\<close>

theorem buddy_run_consistent:
  assumes "PhysRange_ok r" "buddy_run r b"
  shows "buddy_inv b \<and> BuddyAllocator_total_free_pages b = card {p \<in> managed b. is_free b p}
    \<and> (case buddy_exec op b of (Ok _, b') \<Rightarrow> buddy_inv b' | (Err e, b') \<Rightarrow> b' = b | (Panic, b') \<Rightarrow> False)"
  using buddy_run_inv [OF assms(2,1)] buddy_exec_sound [of b op] total_free_pages_card [of b]
  by (auto simp: sound_outcome_def split: prod.splits result.splits)

theorem buddy_run_consistent_witness:
  "let r = \<lparr>pr_start = 65536, pr_end = 73728\<rparr>; zones = [Zone_new 16 18, Zone_new 18 18];
       b = \<lparr>ba_metadata = [Page_absent, Page_absent], ba_managed = r, ba_base_pfn = 16, ba_page_count = 2, ba_zones = zones\<rparr>
   in PhysRange_ok r \<and> buddy_run r b \<and> buddy_inv b"
proof -
  let ?r = "\<lparr>pr_start = 65536, pr_end = 73728\<rparr>"
  let ?b = "\<lparr>ba_metadata = [Page_absent, Page_absent], ba_managed = ?r, ba_base_pfn = 16, ba_page_count = 2,
    ba_zones = [Zone_new 16 18, Zone_new 18 18]\<rparr>"
  have ok: "PhysRange_ok ?r" by (simp add: PhysRange_ok_def usize_MAX_def)
  have two: "replicate 2 Page_absent = [Page_absent, Page_absent]" by (simp add: numeral_2_eq_2)
  have "BuddyAllocator_new 4096 4096 ?r = Ok ?b"
    by (simp add: BuddyAllocator_new_def buddy_eval PAGE_SHIFT_def BuddyAllocator_required_metadata_bytes_def PhysRange_size_def
        PhysRange_is_empty_def PhysRange_is_page_aligned_def align_of_Page_def size_of_Page_def checked_mul_def
        DMA32_LIMIT_PFN_def DMA32_LIMIT_def two)
  then have "buddy_run ?r ?b" by (rule boot)
  with buddy_run_consistent [OF ok this] ok show ?thesis by (simp add: Let_def)
qed

text \<open>
  \<open>release_range\<close> hands a range of reserved pages to the allocator: it succeeds only for a page
  aligned range of the managed memory all of whose pages are reserved, and then exactly the pages of the
  range become free, cut into aligned blocks and merged with their free neighbours. Otherwise it fails
  with the allocator unchanged, so that no page is released twice.
\<close>

theorem BuddyAllocator_release_range_correct:
  assumes "buddy_inv b"
  shows "case BuddyAllocator_release_range r b of
      (Ok _, b') \<Rightarrow> buddy_inv b' \<and> range_pfns r \<subseteq> managed b \<and> (\<forall>p \<in> range_pfns r. pg_state (pv b p) = Reserved)
        \<and> (\<forall>x. is_free b' x \<longleftrightarrow> is_free b x \<or> x \<in> range_pfns r)
        \<and> (\<forall>x. \<not> is_free b' x \<longrightarrow> marks (pv b' x) = marks (pv b x))
    | (Err e, b') \<Rightarrow> b' = b
    | (Panic, b') \<Rightarrow> False"
  using BuddyAllocator_release_range_cases [OF assms, of r] by auto

theorem BuddyAllocator_release_range_witness:
  "buddy_inv two_pages
   \<and> snd (BuddyAllocator_release_range \<lparr>pr_start = 65536, pr_end = 69632\<rparr> two_pages) = two_pages"
proof -
  let ?r = "\<lparr>pr_start = 65536, pr_end = 69632\<rparr>"
  have "16 \<in> range_pfns ?r" by (simp add: range_pfns_def PAGE_SIZE_def PAGE_SHIFT_def)
  moreover have "pg_state (pv two_pages 16) \<noteq> Reserved" by (simp add: two_pages_view)
  ultimately show ?thesis
    using BuddyAllocator_release_range_correct [OF two_pages_inv, of ?r] two_pages_inv
    by (auto split: prod.splits result.splits)
qed

text \<open>
  C37. A frame whose reference count has been raised is not released under its users: while it is shared, neither
  the release of a block that contains it nor the release of the unreferenced frame is accepted, and dropping the
  reference restores the count. The counter moves by exactly one.
\<close>

theorem shared_frame_is_kept:
  assumes "buddy_inv b" "BuddyAllocator_increment_reference f b = (Ok c, b')"
  shows "buddy_inv b' \<and> BuddyAllocator_reference_count b f = Ok (c - 1) \<and> BuddyAllocator_reference_count b' f = Ok c \<and> 1 < c
    \<and> (\<exists>e. BuddyAllocator_begin_free_unreferenced_frame f b' = (Err e, b'))
    \<and> (pf_start f div PAGE_SIZE \<in> block (pf_start (pa_start a) div PAGE_SIZE) (pa_order a)
        \<longrightarrow> (\<exists>e. BuddyAllocator_free a b' = (Err e, b')))
    \<and> (\<exists>b''. BuddyAllocator_decrement_reference f b' = (Ok (c - 1), b'') \<and> buddy_inv b''
        \<and> BuddyAllocator_reference_count b'' f = Ok (c - 1))"
proof -
  let ?p = "pf_start f div PAGE_SIZE"
  note inc = increment_reference_cases [OF assms, simplified]
  have inv: "buddy_inv b'" and ref: "BuddyAllocator_reference_count b' f = Ok c" "1 < c" using inc by auto
  then obtain pg where pg: "allocated_page b' f = Ok pg" "pg_reference_count pg = c"
    by (cases "allocated_page b' f") (auto simp: BuddyAllocator_reference_count_def)
  then have v: "?p \<in> managed b'" "pg_state (pv b' ?p) = Allocated" "pg_reference_count (pv b' ?p) = c"
    by (auto simp: allocated_page_cases)
  have "\<exists>e. BuddyAllocator_begin_free_unreferenced_frame f b' = (Err e, b')"
    using begin_free_unreferenced_frame_cases [OF inv, of f] v ref(2) by (simp add: Let_def)
  moreover have "\<exists>e. BuddyAllocator_free a b' = (Err e, b')"
    if "?p \<in> block (pf_start (pa_start a) div PAGE_SIZE) (pa_order a)"
  proof -
    have "\<not> valid_block b' a (Some 1) Allocated" using that v(3) ref(2) by (auto simp: valid_block_def Let_def)
    then show ?thesis using BuddyAllocator_free_cases [OF inv, of a] by simp
  qed
  moreover obtain r b'' where dec: "BuddyAllocator_decrement_reference f b' = (r, b'')" by fastforce
  then have "r = Ok (c - 1)"
    using set_refcount(1) [OF inv pg(1), of "c - 1"] pg ref(2)
    by (simp add: BuddyAllocator_decrement_reference_def sbind_def sread_def Let_def sseq_def sreturn_def)
  moreover note decrement_reference_cases [OF inv dec]
  ultimately show ?thesis using inc dec by auto
qed

theorem shared_frame_is_kept_witness:
  "\<exists>b1 b2. BuddyAllocator_allocate 1 AnyZone two_pages = (Ok \<lparr>pa_start = \<lparr>pf_start = 65536\<rparr>, pa_order = 1, pa_zone = Dma32\<rparr>, b1)
    \<and> BuddyAllocator_increment_reference \<lparr>pf_start = 65536\<rparr> b1 = (Ok 2, b2)
    \<and> (\<exists>e. BuddyAllocator_free \<lparr>pa_start = \<lparr>pf_start = 65536\<rparr>, pa_order = 1, pa_zone = Dma32\<rparr> b2 = (Err e, b2))"
proof -
  obtain b1 where b1: "BuddyAllocator_allocate 1 AnyZone two_pages
      = (Ok \<lparr>pa_start = \<lparr>pf_start = 65536\<rparr>, pa_order = 1, pa_zone = Dma32\<rparr>, b1)"
    "buddy_inv b1" "allocated_page b1 \<lparr>pf_start = 65536\<rparr> = Ok (pv b1 16)" "pg_reference_count (pv b1 16) = 1"
    by (rule two_pages_allocated)
  obtain b2 where b2: "BuddyAllocator_increment_reference \<lparr>pf_start = 65536\<rparr> b1 = (Ok 2, b2)"
    using set_refcount(1) [OF b1(2,3), of 2] b1(3,4)
    by (simp add: BuddyAllocator_increment_reference_def sbind_def sread_def Let_def sseq_def sreturn_def u32_MAX_def numeral_2_eq_2)
  from shared_frame_is_kept [OF b1(2) b2, of "\<lparr>pa_start = \<lparr>pf_start = 65536\<rparr>, pa_order = 1, pa_zone = Dma32\<rparr>"] b1(1) b2
  show ?thesis by (auto simp: block_def)
qed

section \<open>Frames\<close>

text \<open>Single pages of the buddy allocator as a source of frames.\<close>

definition allocate_frame :: "(BuddyAllocator, PhysFrame, BuddyError) action" where
  "allocate_frame = sbind (BuddyAllocator_allocate 0 AnyZone) (\<lambda>a. sreturn (pa_start a))"

definition buddy_addrs :: "BuddyAllocator \<Rightarrow> PhysAddr set" where
  "buddy_addrs b = {x. is_free b (x div PAGE_SIZE)}"

lemma page_addrs: "x \<in> frame_addrs \<lparr>pf_start = p * PAGE_SIZE\<rparr> \<longleftrightarrow> x div PAGE_SIZE = p"
proof -
  have "x div PAGE_SIZE = p \<longleftrightarrow> p \<le> x div PAGE_SIZE \<and> x div PAGE_SIZE < Suc p" by auto
  then show ?thesis
    by (auto simp: frame_addrs_def less_eq_div_iff_mult_less_eq div_less_iff_less_mult)
qed

lemma allocate_frame_Ok:
  assumes "buddy_inv b" "allocate_frame b = (Ok f, b')"
  obtains p where "f = \<lparr>pf_start = p * PAGE_SIZE\<rparr>" "is_free b p" "buddy_inv b'" "\<And>x. is_free b' x \<longleftrightarrow> is_free b x \<and> x \<noteq> p"
    "managed b' = managed b" "p \<in> managed b"
proof -
  obtain a where a: "BuddyAllocator_allocate 0 AnyZone b = (Ok a, b')" "f = pa_start a"
    using assms(2) by (auto simp: allocate_frame_def sbind_eq_Ok sreturn_def)
  then have "allocated_token b (pa_zone a) 0 a b'"
    using BuddyAllocator_allocate_cases [OF assms(1), of 0 AnyZone] by simp
  then obtain p where "pa_start a = \<lparr>pf_start = p * PAGE_SIZE\<rparr>" "block p 0 \<subseteq> free_set b (pa_zone a)" "buddy_inv b'"
    "alloc_step b p 0 b'"
    unfolding allocated_token_def by (metis PageAllocation.select_convs(1))
  moreover from this have "p \<in> managed b"
    using zone_pfns_managed [of b "pa_zone a"] assms(1) by (auto simp: free_set_def block_def buddy_inv_def)
  ultimately show ?thesis
    using that [of p] a(2) same_shape_managed [of b b'] by (auto simp: alloc_step_def free_set_def block_def)
qed

interpretation buddy: frame_source allocate_frame buddy_inv buddy_addrs
proof (standard, goal_cases)
  case (1 s f s')
  show ?case by (rule allocate_frame_Ok [OF 1])
next
  case (2 s f s')
  show ?case by (rule allocate_frame_Ok [OF 2]) (auto simp: page_addrs buddy_addrs_def)
next
  case (3 s f s')
  show ?case by (rule allocate_frame_Ok [OF 3]) (auto simp: page_addrs buddy_addrs_def)
next
  case (4 s f s')
  show ?case by (rule allocate_frame_Ok [OF 4]) simp
next
  case (5 s e s')
  then show ?case
    using BuddyAllocator_allocate_cases [of s 0 AnyZone]
    by (auto simp: allocate_frame_def sbind_def sreturn_def split: prod.splits result.splits)
next
  case (6 s s')
  then show ?case
    using BuddyAllocator_allocate_cases [of s 0 AnyZone]
    by (auto simp: allocate_frame_def sbind_def sreturn_def split: prod.splits result.splits)
qed

lemma allocate_frame_available:
  assumes "buddy_inv b"
  shows "(\<exists>f b'. allocate_frame b = (Ok f, b')) \<longleftrightarrow> (\<exists>p \<in> managed b. is_free b p)"
proof
  assume "\<exists>f b'. allocate_frame b = (Ok f, b')"
  then show "\<exists>p \<in> managed b. is_free b p" by (metis allocate_frame_Ok [OF assms])
next
  assume "\<exists>p \<in> managed b. is_free b p"
  then obtain p where p: "p \<in> managed b" "is_free b p" by blast
  have "buddy_wf b" using assms by (simp add: buddy_inv_def)
  then obtain k where "p \<in> zone_pfns b k" using p(1) managed_in_zone by blast
  with p(2) have "can_serve b k 0" by (auto simp: can_serve_def block_def free_set_def)
  then have "can_serve b Dma32 0 \<or> can_serve b NormalZone 0" by (cases k) auto
  with BuddyAllocator_allocate_cases [OF assms, of 0 AnyZone] show "\<exists>f b'. allocate_frame b = (Ok f, b')"
    by (auto simp: allocate_frame_def sbind_def sreturn_def MAX_ORDER_def split: prod.splits result.splits)
qed

lemma alloc_frames_available:
  assumes "buddy_inv b"
  shows "(\<exists>fs b'. alloc_frames allocate_frame n b = (Ok fs, b')) \<longleftrightarrow> n \<le> card {p \<in> managed b. is_free b p}"
  using assms
proof (induction n arbitrary: b)
  case (Suc n)
  let ?free = "\<lambda>b. {p \<in> managed b. is_free b p}"
  show ?case
  proof (cases "\<exists>f b'. allocate_frame b = (Ok f, b')")
    case True
    then obtain f b' where f: "allocate_frame b = (Ok f, b')" by blast
    then obtain p where p: "is_free b p" "buddy_inv b'" "\<And>x. is_free b' x \<longleftrightarrow> is_free b x \<and> x \<noteq> p"
      "managed b' = managed b" "p \<in> managed b"
      by (rule allocate_frame_Ok [OF Suc.prems]) blast
    then have "?free b = insert p (?free b')" "p \<notin> ?free b'" "finite (?free b')" by (auto simp: managed_def)
    then have "card (?free b) = Suc (card (?free b'))" by simp
    with Suc.IH [OF p(2)] f show ?thesis by (auto simp: sbind_def sreturn_def split: prod.splits result.splits)
  next
    case False
    then have "?free b = {}" using allocate_frame_available [OF Suc.prems] by blast
    then have "card (?free b) = 0" by (simp only: card.empty)
    with False show ?thesis by (auto simp: sbind_eq_Ok)
  qed
qed (simp add: sreturn_def)

text \<open>
  Pages handed out by successive single page allocations never overlap, and all of them were free in the
  beginning: no memory has two owners. The property is the one shown of the early allocator, through the same contract.
\<close>

theorem buddy_frames_disjoint:
  assumes "buddy_inv s" "alloc_frames allocate_frame n s = (Ok fs, s')" "i < j" "j < n"
  shows "frame_addrs (fs ! i) \<inter> frame_addrs (fs ! j) = {} \<and> frame_addrs (fs ! i) \<subseteq> buddy_addrs s"
  using buddy.frames_disjoint [OF assms(1,2,3)] buddy.frames_taken [OF assms(1,2)] assms(3,4)
  by (auto simp: subset_eq)

theorem buddy_frames_disjoint_witness:
  "\<exists>fs s'. buddy_inv two_pages \<and> alloc_frames allocate_frame 2 two_pages = (Ok fs, s')
    \<and> frame_addrs (fs ! 0) \<inter> frame_addrs (fs ! 1) = {}"
proof -
  have "card {p \<in> managed two_pages. is_free two_pages p} = 2"
    by (simp add: two_pages_managed two_pages_free conj_disj_distribR Collect_disj_eq)
  then obtain fs s' where "alloc_frames allocate_frame 2 two_pages = (Ok fs, s')"
    using alloc_frames_available [OF two_pages_inv, of 2] by auto
  with buddy_frames_disjoint [OF two_pages_inv this, of 0 1] two_pages_inv show ?thesis by auto
qed

text \<open>
  C20. Single page requests are served as long as there is a free page: \<open>n\<close> of them in a row all
  succeed exactly when the free page counter is at least \<open>n\<close>. Fragmentation cannot make them fail.
\<close>

theorem single_pages_served:
  assumes "buddy_inv b"
  shows "(\<exists>fs b'. alloc_frames allocate_frame n b = (Ok fs, b')) \<longleftrightarrow> n \<le> BuddyAllocator_total_free_pages b"
  using alloc_frames_available [OF assms] total_free_pages_card [OF assms] by simp

theorem single_pages_served_witness:
  "BuddyAllocator_total_free_pages two_pages = 2 \<and> (\<exists>fs b'. alloc_frames allocate_frame 2 two_pages = (Ok fs, b'))
   \<and> \<not> (\<exists>fs b'. alloc_frames allocate_frame 3 two_pages = (Ok fs, b'))"
proof -
  have "BuddyAllocator_total_free_pages two_pages = 2"
    by (simp add: BuddyAllocator_total_free_pages_def two_pages_def Zone_new_def)
  then show ?thesis using single_pages_served [OF two_pages_inv, of 2] single_pages_served [OF two_pages_inv, of 3] by simp
qed

end
