(* ===== verification/Riscv_Layout.thy ===== *)
theory Riscv_Layout
  imports Address
begin

text \<open>
  The RISC-V virtual memory layout and the access to physical memory, \<open>arch/riscv64/src/memory/layout.rs\<close>
  and \<open>phys_access.rs\<close>. The constants are the source's. Whether address translation is enabled is read from
  the hardware by the source and is an argument here, as are size and alignment of the accessed type.
\<close>

section \<open>Layout\<close>

definition USER_RANGE :: VirtRange where
  "USER_RANGE = \<lparr>vr_start = 0x0, vr_end = 0x4000000000\<rparr>"

definition KERNEL_CANONICAL_START :: VirtAddr where
  "KERNEL_CANONICAL_START = 0xffffffc000000000"

definition FIXMAP :: VirtRange where
  "FIXMAP = \<lparr>vr_start = 0xffffffc4fea00000, vr_end = 0xffffffc4ff000000\<rparr>"

definition EARLY_UART_FIXMAP :: VirtAddr where
  "EARLY_UART_FIXMAP = 0xffffffc4fea01000"

definition PCI_IO :: VirtRange where
  "PCI_IO = \<lparr>vr_start = 0xffffffc4ff000000, vr_end = 0xffffffc500000000\<rparr>"

definition VMEMMAP :: VirtRange where
  "VMEMMAP = \<lparr>vr_start = 0xffffffc500000000, vr_end = 0xffffffc600000000\<rparr>"

definition VMALLOC :: VirtRange where
  "VMALLOC = \<lparr>vr_start = 0xffffffc600000000, vr_end = 0xffffffd600000000\<rparr>"

definition DIRECT_MAP :: VirtRange where
  "DIRECT_MAP = \<lparr>vr_start = 0xffffffd600000000, vr_end = 0xfffffff600000000\<rparr>"

definition MODULES :: VirtRange where
  "MODULES = \<lparr>vr_start = 0xffffffff00000000, vr_end = 0xffffffff80000000\<rparr>"

definition KERNEL_IMAGE :: VirtRange where
  "KERNEL_IMAGE = \<lparr>vr_start = 0xffffffff80000000, vr_end = 0xfffffffffffff000\<rparr>"

definition KERNEL_PHYS_BASE :: PhysAddr where
  "KERNEL_PHYS_BASE = 0x80400000"

definition KERNEL_LINK_BASE :: VirtAddr where
  "KERNEL_LINK_BASE = 0xffffffff80000000"

definition KERNEL_REGIONS :: "VirtualRegion list" where
  "KERNEL_REGIONS =
     [\<lparr>region_name = ''fixmap'', region_range = FIXMAP\<rparr>,
      \<lparr>region_name = ''pci-io'', region_range = PCI_IO\<rparr>,
      \<lparr>region_name = ''vmemmap'', region_range = VMEMMAP\<rparr>,
      \<lparr>region_name = ''vmalloc'', region_range = VMALLOC\<rparr>,
      \<lparr>region_name = ''direct-map'', region_range = DIRECT_MAP\<rparr>,
      \<lparr>region_name = ''modules'', region_range = MODULES\<rparr>,
      \<lparr>region_name = ''kernel-image'', region_range = KERNEL_IMAGE\<rparr>]"

definition is_canonical :: "VirtAddr \<Rightarrow> bool" where
  "is_canonical address \<longleftrightarrow> address < vr_end USER_RANGE \<or> KERNEL_CANONICAL_START \<le> address"

definition is_user_address :: "VirtAddr \<Rightarrow> bool" where
  "is_user_address address = VirtRange_contains USER_RANGE address"

definition is_kernel_address :: "VirtAddr \<Rightarrow> bool" where
  "is_kernel_address address \<longleftrightarrow> KERNEL_CANONICAL_START \<le> address"

definition layout_validate :: "(unit, VirtualLayoutError) result" where
  "layout_validate =
     rbind (validate_regions KERNEL_REGIONS is_kernel_address) (\<lambda>_.
     if \<not> VirtRange_contains FIXMAP EARLY_UART_FIXMAP then Panic
     else if EARLY_UART_FIXMAP AND (PAGE_SIZE - 1) \<noteq> 0 then Panic
     else require_address_in_region ''kernel link address'' KERNEL_LINK_BASE ''kernel-image'' KERNEL_IMAGE)"

definition phys_to_direct :: "PhysAddr \<Rightarrow> VirtAddr option" where
  "phys_to_direct physical =
     (if VirtRange_size DIRECT_MAP \<le> physical then None
      else VirtAddr_checked_add (vr_start DIRECT_MAP) physical)"

definition direct_to_phys :: "VirtAddr \<Rightarrow> PhysAddr option" where
  "direct_to_phys virtual_address =
     (if \<not> VirtRange_contains DIRECT_MAP virtual_address then None
      else Some (virtual_address - vr_start DIRECT_MAP))"

definition kernel_image_virtual_address :: "PhysAddr \<Rightarrow> VirtAddr option" where
  "kernel_image_virtual_address physical =
     (case checked_sub physical KERNEL_PHYS_BASE of
        None \<Rightarrow> None
      | Some offset \<Rightarrow>
          (case VirtAddr_checked_add KERNEL_LINK_BASE offset of
             None \<Rightarrow> None
           | Some virtual_address \<Rightarrow>
               if \<not> VirtRange_contains KERNEL_IMAGE virtual_address then None else Some virtual_address))"

definition kernel_image_physical_address :: "VirtAddr \<Rightarrow> PhysAddr option" where
  "kernel_image_physical_address virtual_address =
     (if \<not> VirtRange_contains KERNEL_IMAGE virtual_address then None
      else
        (case checked_sub virtual_address KERNEL_LINK_BASE of
           None \<Rightarrow> None
         | Some offset \<Rightarrow> PhysAddr_checked_add KERNEL_PHYS_BASE offset))"

section \<open>Access to physical memory\<close>

datatype PhysAccessError =
    AccessOverflow
  | AddressOutOfRange PhysAddr usize
  | Misaligned VirtAddr usize

definition ram_virtual_address :: "bool \<Rightarrow> PhysAddr \<Rightarrow> usize \<Rightarrow> (VirtAddr, PhysAccessError) result" where
  "ram_virtual_address translation_is_enabled physical sz =
     rbind (ok_or (checked_add physical sz) AccessOverflow) (\<lambda>end.
     if translation_is_enabled then
       (if VirtRange_size DIRECT_MAP < end then Err (AddressOutOfRange physical sz)
        else ok_or (phys_to_direct physical) (AddressOutOfRange physical sz))
     else Ok physical)"

definition check_alignment :: "VirtAddr \<Rightarrow> usize \<Rightarrow> (unit, PhysAccessError) result" where
  "check_alignment virtual_address alignment =
     (if virtual_address mod alignment \<noteq> 0 then Err (Misaligned virtual_address alignment) else Ok ())"

text \<open>\<open>ram_ptr\<close> and \<open>ram_mut_ptr\<close> for a type of the given size and alignment.\<close>

definition ram_ptr :: "bool \<Rightarrow> usize \<Rightarrow> usize \<Rightarrow> PhysAddr \<Rightarrow> (VirtAddr, PhysAccessError) result" where
  "ram_ptr translation_is_enabled size_of align_of physical =
     rbind (ram_virtual_address translation_is_enabled physical size_of) (\<lambda>virtual_address.
     rbind (check_alignment virtual_address align_of) (\<lambda>_. Ok virtual_address))"

section \<open>Lemmas\<close>

lemmas layout_constants = USER_RANGE_def KERNEL_CANONICAL_START_def FIXMAP_def EARLY_UART_FIXMAP_def PCI_IO_def
  VMEMMAP_def VMALLOC_def DIRECT_MAP_def MODULES_def KERNEL_IMAGE_def KERNEL_PHYS_BASE_def KERNEL_LINK_BASE_def

lemma DIRECT_MAP_size: "VirtRange_size DIRECT_MAP = 2 ^ 37"
  by (simp add: DIRECT_MAP_def VirtRange_size_def)

lemma phys_to_direct_eq: "phys_to_direct p = (if p < 2 ^ 37 then Some (vr_start DIRECT_MAP + p) else None)"
  by (auto simp: phys_to_direct_def VirtRange_size_def VirtAddr_checked_add_eq checked_add_def DIRECT_MAP_def usize_MAX_def)

lemma phys_access_Ok:
  assumes "p + n \<le> 2 ^ 37" "0 < n"
  obtains v where "ram_virtual_address on p n = Ok v" "v = (if on then vr_start DIRECT_MAP + p else p)"
  using assms by (simp add: ram_virtual_address_def DIRECT_MAP_size phys_to_direct_eq checked_add_def usize_MAX_def)

lemma ram_ptr_is_ok:
  assumes "p + n \<le> 2 ^ 37" "0 < n" "a dvd p" "a dvd 4096"
  shows "\<exists>v. ram_ptr on n a p = Ok v"
proof -
  have "a dvd vr_start DIRECT_MAP"
  proof -
    have "(4096 :: nat) dvd vr_start DIRECT_MAP" by (simp add: DIRECT_MAP_def)
    then show ?thesis using assms(4) dvd_trans by blast
  qed
  moreover obtain v where "ram_virtual_address on p n = Ok v" "v = (if on then vr_start DIRECT_MAP + p else p)"
    by (rule phys_access_Ok [OF assms(1,2)])
  ultimately show ?thesis
    using assms(3) by (auto simp: ram_ptr_def check_alignment_def mod_eq_0_iff_dvd split: if_splits)
qed

lemma ram_ptr_no_panic: "ram_ptr on n a p \<noteq> Panic"
  by (auto simp: ram_ptr_def ram_virtual_address_def check_alignment_def rbind_eq_Panic ok_or_not_Panic)

text \<open>The validation at boot accepts the layout.\<close>

lemma layout_validate_Ok: "layout_validate = Ok ()"
  by (simp add: layout_validate_def validate_regions_def KERNEL_REGIONS_def validate_region_def Let_def layout_constants
      VirtRange_is_empty_def VirtRange_is_page_aligned_iff PAGE_SIZE_eq is_kernel_address_def VirtRange_last_def
      VirtRange_overlaps_def VirtRange_contains_def require_address_in_region_def)

end
