(* ===== verification/Page_Alloc.thy ===== *)
theory Page_Alloc
  imports Buddy_Properties Riscv_Layout
begin

text \<open>
  The global page allocator, \<open>kernel/src/page_alloc.rs\<close>: the buddy allocator behind a lock together with the
  physical memory whose pages it zeroes and poisons. Memory is a map from the addresses of 64-bit cells (the
  multiples of eight) to their contents. The build configuration \<open>debug_assertions\<close> and the state of the
  address translation are fields of the machine that nothing here changes.
\<close>

record machine =
  mc_page_allocator :: "BuddyAllocator option"
  mc_memory :: "PhysAddr \<Rightarrow> 64 word"
  mc_translation :: bool
  mc_debug :: bool

datatype GlobalPageAllocatorError =
    AllocatorAlreadyInitialized
  | AllocatorNotInitialized
  | BuddyFailure BuddyError
  | PhysicalMemoryNotAccessible

record PageAllocationOptions =
  pao_class :: AllocationClass
  pao_zeroed :: bool

definition PageAllocationOptions_kernel :: PageAllocationOptions where
  "PageAllocationOptions_kernel = \<lparr>pao_class = AnyZone, pao_zeroed = False\<rparr>"

definition PageAllocationOptions_kernel_zeroed :: PageAllocationOptions where
  "PageAllocationOptions_kernel_zeroed = \<lparr>pao_class = AnyZone, pao_zeroed = True\<rparr>"

definition PageAllocationOptions_dma32_zeroed :: PageAllocationOptions where
  "PageAllocationOptions_dma32_zeroed = \<lparr>pao_class = Dma32Only, pao_zeroed = True\<rparr>"

definition page_alloc_install :: "BuddyAllocator \<Rightarrow> ('z machine_scheme, unit, GlobalPageAllocatorError) action" where
  "page_alloc_install allocator s =
     (case mc_page_allocator s of
        Some _ \<Rightarrow> (Err AllocatorAlreadyInitialized, s)
      | None \<Rightarrow> (Ok (), s\<lparr>mc_page_allocator := Some allocator\<rparr>))"

definition page_alloc_is_initialized :: "'z machine_scheme \<Rightarrow> bool" where
  "page_alloc_is_initialized s \<longleftrightarrow> mc_page_allocator s \<noteq> None"

text \<open>One critical section: the allocator is taken from its slot, used, and its errors are converted.\<close>

definition with_allocator ::
  "(BuddyAllocator, 'a, BuddyError) action \<Rightarrow> ('z machine_scheme, 'a, GlobalPageAllocatorError) action" where
  "with_allocator act s =
     (case mc_page_allocator s of
        None \<Rightarrow> (Err AllocatorNotInitialized, s)
      | Some allocator \<Rightarrow>
          (let (r, allocator') = act allocator in
           (map_err BuddyFailure r, s\<lparr>mc_page_allocator := Some allocator'\<rparr>)))"

definition ALLOCATED_POISON :: u8 where "ALLOCATED_POISON = 0xa5"

definition FREED_POISON :: u8 where "FREED_POISON = 0xdd"

text \<open>A cell all of whose bytes have the given value.\<close>

definition filled_cell :: "u8 \<Rightarrow> 64 word" where
  "filled_cell v = ucast v * 0x0101010101010101"

definition fill_memory :: "PhysRange \<Rightarrow> u8 \<Rightarrow> (PhysAddr \<Rightarrow> 64 word) \<Rightarrow> PhysAddr \<Rightarrow> 64 word" where
  "fill_memory rng v m = (\<lambda>a. if PhysRange_contains rng a then filled_cell v else m a)"

definition fill_allocation :: "PageAllocation \<Rightarrow> u8 \<Rightarrow> ('z machine_scheme, unit, GlobalPageAllocatorError) action" where
  "fill_allocation allocation v =
     sbind (slift (PageAllocation_range allocation)) (\<lambda>rng.
     sbind (sread (\<lambda>s. map_err (\<lambda>_. PhysicalMemoryNotAccessible) (ram_ptr (mc_translation s) 1 1 (pr_start rng)))) (\<lambda>_.
     smodify (\<lambda>s. s\<lparr>mc_memory := fill_memory rng v (mc_memory s)\<rparr>)))"

definition page_alloc_allocate ::
  "nat \<Rightarrow> PageAllocationOptions \<Rightarrow> ('z machine_scheme, PageAllocation, GlobalPageAllocatorError) action" where
  "page_alloc_allocate order options =
     sbind (with_allocator (BuddyAllocator_allocate order (pao_class options))) (\<lambda>allocation.
     sbind (sget mc_debug) (\<lambda>debug.
     sseq (scatch
         (if pao_zeroed options then fill_allocation allocation 0
          else if debug then fill_allocation allocation ALLOCATED_POISON
          else sreturn ())
         (\<lambda>error. sseq (with_allocator (BuddyAllocator_free allocation)) (sfail error)))
       (sreturn allocation)))"

text \<open>The poisoning of a block that is being released, with the release cancelled when it fails.\<close>

definition poison_freed :: "PageAllocation \<Rightarrow> ('z machine_scheme, unit, GlobalPageAllocatorError) action" where
  "poison_freed allocation =
     sbind (sget mc_debug) (\<lambda>debug.
     swhen debug
       (scatch (fill_allocation allocation FREED_POISON)
         (\<lambda>error. sseq (with_allocator (BuddyAllocator_cancel_free allocation)) (sfail error))))"

definition page_alloc_free :: "PageAllocation \<Rightarrow> ('z machine_scheme, unit, GlobalPageAllocatorError) action" where
  "page_alloc_free allocation =
     sseq (with_allocator (BuddyAllocator_begin_free allocation))
     (sseq (poison_freed allocation)
       (with_allocator (BuddyAllocator_finish_free allocation)))"

definition page_alloc_reference_count ::
  "PhysFrame \<Rightarrow> ('z machine_scheme, u32, GlobalPageAllocatorError) action" where
  "page_alloc_reference_count frame = with_allocator (sread (\<lambda>b. BuddyAllocator_reference_count b frame))"

definition page_alloc_increment_reference ::
  "PhysFrame \<Rightarrow> ('z machine_scheme, u32, GlobalPageAllocatorError) action" where
  "page_alloc_increment_reference frame = with_allocator (BuddyAllocator_increment_reference frame)"

definition page_alloc_decrement_reference ::
  "PhysFrame \<Rightarrow> ('z machine_scheme, u32, GlobalPageAllocatorError) action" where
  "page_alloc_decrement_reference frame = with_allocator (BuddyAllocator_decrement_reference frame)"

definition page_alloc_free_unreferenced_frame ::
  "PhysFrame \<Rightarrow> ('z machine_scheme, unit, GlobalPageAllocatorError) action" where
  "page_alloc_free_unreferenced_frame frame =
     sbind (with_allocator (BuddyAllocator_begin_free_unreferenced_frame frame)) (\<lambda>allocation.
     sseq (poison_freed allocation)
       (with_allocator (BuddyAllocator_finish_free allocation)))"

definition page_alloc_total_free_pages :: "('z machine_scheme, usize, GlobalPageAllocatorError) action" where
  "page_alloc_total_free_pages = with_allocator (sget BuddyAllocator_total_free_pages)"

section \<open>The invariant of the machine\<close>

text \<open>
  The allocator is consistent, and the direct map covers the memory it manages, so that every page it hands
  out can be accessed.
\<close>

definition buddy_mapped :: "BuddyAllocator \<Rightarrow> bool" where
  "buddy_mapped b \<longleftrightarrow> buddy_inv b \<and> pr_end (ba_managed b) \<le> VirtRange_size DIRECT_MAP"

text \<open>The cells of a block.\<close>

definition block_cells :: "nat \<Rightarrow> nat \<Rightarrow> PhysAddr set" where
  "block_cells p n = {x. x div PAGE_SIZE \<in> block p n}"

abbreviation set_buddy :: "BuddyAllocator \<Rightarrow> 'z machine_scheme \<Rightarrow> 'z machine_scheme" where
  "set_buddy b s \<equiv> s\<lparr>mc_page_allocator := Some b\<rparr>"

lemma set_buddy_same: "mc_page_allocator s = Some b \<Longrightarrow> set_buddy b s = s"
  by (cases s) simp

lemma buddy_mapped_page:
  assumes "buddy_mapped b" "block p n \<subseteq> managed b"
  shows "(p + 2 ^ n) * PAGE_SIZE \<le> 2 ^ 37"
proof -
  have "(0 :: nat) < 2 ^ n" by simp
  then have "p + 2 ^ n - 1 \<in> block p n" unfolding block_def atLeastLessThan_iff by linarith
  then have "p + 2 ^ n - 1 < ba_base_pfn b + ba_page_count b" using assms(2) by (auto simp: managed_def)
  then have "p + 2 ^ n \<le> ba_base_pfn b + ba_page_count b" by linarith
  then have "(p + 2 ^ n) * PAGE_SIZE \<le> pr_end (ba_managed b)"
    using assms(1) by (simp add: buddy_mapped_def buddy_inv_def buddy_wf_def)
  with assms(1) show ?thesis by (simp add: buddy_mapped_def DIRECT_MAP_size)
qed

lemma block_cells_range:
  "PhysRange_contains \<lparr>pr_start = p * PAGE_SIZE, pr_end = (p + 2 ^ n) * PAGE_SIZE\<rparr> x \<longleftrightarrow> x \<in> block_cells p n"
  by (simp add: PhysRange_contains_def block_cells_def block_def less_eq_div_iff_mult_less_eq div_less_iff_less_mult)

lemma fill_allocation_Ok:
  assumes "buddy_mapped b" "block p n \<subseteq> managed b"
  shows "fill_allocation \<lparr>pa_start = \<lparr>pf_start = p * PAGE_SIZE\<rparr>, pa_order = n, pa_zone = k\<rparr> v s =
    (Ok (), s\<lparr>mc_memory := (\<lambda>x. if x \<in> block_cells p n then filled_cell v else mc_memory s x)\<rparr>)"
proof -
  let ?a = "\<lparr>pa_start = \<lparr>pf_start = p * PAGE_SIZE\<rparr>, pa_order = n, pa_zone = k\<rparr>"
  note le = buddy_mapped_page [OF assms]
  have mem: "(p + 2 ^ n) * PAGE_SIZE = p * PAGE_SIZE + 2 ^ n * PAGE_SIZE" by (rule distrib_right)
  have r: "PageAllocation_range ?a = (Ok \<lparr>pr_start = p * PAGE_SIZE, pr_end = (p + 2 ^ n) * PAGE_SIZE\<rparr> ::
      (PhysRange, GlobalPageAllocatorError) result)"
    using le by (simp add: PageAllocation_range_def PageAllocation_size_def PageAllocation_page_count_def
        PhysRange_from_start_size_def PhysAddr_checked_add_eq checked_add_def usize_MAX_def mem)
  have "0 < 2 ^ n * PAGE_SIZE" by simp
  then have "p * PAGE_SIZE + 1 \<le> 2 ^ 37" using le unfolding mem by linarith
  then obtain u where u: "ram_ptr (mc_translation s) 1 1 (p * PAGE_SIZE) = Ok u"
    using ram_ptr_is_ok [of "p * PAGE_SIZE" 1 1] by auto
  show ?thesis
    unfolding fill_allocation_def r
    by (simp add: sbind_def slift_def sread_def smodify_def fill_memory_def block_cells_range u del: One_nat_def)
qed

section \<open>Allocation\<close>

text \<open>What a successful allocation does to the machine.\<close>

definition allocated_block ::
  "nat \<Rightarrow> PageAllocationOptions \<Rightarrow> 'z machine_scheme \<Rightarrow> BuddyAllocator \<Rightarrow> PageAllocation \<Rightarrow> 'z machine_scheme \<Rightarrow> bool" where
  "allocated_block n options s b a s' \<longleftrightarrow>
     (\<exists>p b' m. a = \<lparr>pa_start = \<lparr>pf_start = p * PAGE_SIZE\<rparr>, pa_order = n, pa_zone = pa_zone a\<rparr>
       \<and> s' = (set_buddy b' s)\<lparr>mc_memory := m\<rparr> \<and> buddy_mapped b' \<and> alloc_step b p n b' \<and> n < MAX_ORDER
       \<and> block p n \<subseteq> managed b \<and> block p n \<subseteq> free_set b (pa_zone a)
       \<and> (\<forall>x. x \<notin> block_cells p n \<longrightarrow> m x = mc_memory s x)
       \<and> (pao_zeroed options \<longrightarrow> (\<forall>x \<in> block_cells p n. m x = 0)))"

lemma page_alloc_allocate_cases:
  assumes s: "mc_page_allocator s = Some b" and b: "buddy_mapped b"
  shows "case page_alloc_allocate n options s of
      (Ok a, s') \<Rightarrow> allocated_block n options s b a s'
    | (Err e, s') \<Rightarrow> s' = s \<and> (e = BuddyFailure (InvalidOrder n) \<and> MAX_ORDER \<le> n
        \<or> e = BuddyFailure OutOfMemory \<and> \<not> can_serve b Dma32 n
          \<and> (pao_class options = AnyZone \<longrightarrow> \<not> can_serve b NormalZone n))
    | (Panic, s') \<Rightarrow> False"
proof -
  let ?c = "pao_class options"
  have inv: "buddy_inv b" using b by (simp add: buddy_mapped_def)
  obtain r b' where r: "BuddyAllocator_allocate n ?c b = (r, b')" by fastforce
  have wa: "with_allocator (BuddyAllocator_allocate n ?c) s = (map_err BuddyFailure r, set_buddy b' s)"
    by (simp add: with_allocator_def s r)
  note cases = BuddyAllocator_allocate_cases [OF inv, of n ?c, unfolded r]
  show ?thesis
  proof (cases r)
    case (Ok a)
    then have t: "allocated_token b (pa_zone a) n a b'" "n < MAX_ORDER" using cases by auto
    then obtain p where p: "a = \<lparr>pa_start = \<lparr>pf_start = p * PAGE_SIZE\<rparr>, pa_order = n, pa_zone = pa_zone a\<rparr>"
      "block p n \<subseteq> free_set b (pa_zone a)" "buddy_inv b'" "alloc_step b p n b'" by (auto simp: allocated_token_def)
    have m: "block p n \<subseteq> managed b"
      using p(2) zone_pfns_managed [of b "pa_zone a"] inv by (auto simp: free_set_def buddy_inv_def)
    have b': "buddy_mapped b'" using b p(3,4) by (auto simp: buddy_mapped_def alloc_step_def same_shape_def)
    have fill: "fill_allocation a v (set_buddy b' s) = (Ok (), (set_buddy b' s)\<lparr>mc_memory :=
        (\<lambda>x. if x \<in> block_cells p n then filled_cell v else mc_memory s x)\<rparr>)" for v
      by (subst (1) p(1), subst fill_allocation_Ok [OF b m]) (simp cong: if_cong)
    have keep: "set_buddy b' s = (set_buddy b' s)\<lparr>mc_memory := mc_memory s\<rparr>" by simp
    obtain m where m: "page_alloc_allocate n options s = (Ok a, (set_buddy b' s)\<lparr>mc_memory := m\<rparr>)"
      "\<forall>x. x \<notin> block_cells p n \<longrightarrow> m x = mc_memory s x" "pao_zeroed options \<longrightarrow> (\<forall>x \<in> block_cells p n. m x = 0)"
    proof (cases "pao_zeroed options \<or> mc_debug s")
      case True
      let ?v = "if pao_zeroed options then 0 else ALLOCATED_POISON"
      from True show ?thesis
        by (intro that [of "\<lambda>x. if x \<in> block_cells p n then filled_cell ?v else mc_memory s x"])
          (auto simp: page_alloc_allocate_def sbind_def wa Ok sget_def sseq_def scatch_def fill sreturn_def
            filled_cell_def)
    next
      case False
      then show ?thesis
        by (intro that [of "mc_memory s"])
          (auto simp: page_alloc_allocate_def sbind_def wa Ok sget_def sseq_def scatch_def sreturn_def)
    qed
    with p b' t(2) \<open>block p n \<subseteq> managed b\<close> show ?thesis by (auto simp: allocated_block_def)
  qed (use cases s in \<open>auto simp: page_alloc_allocate_def sbind_def wa set_buddy_same\<close>)
qed

section \<open>Release\<close>

lemma token_frame:
  assumes "PAGE_SIZE dvd pf_start (pa_start a)"
  shows "a = \<lparr>pa_start = \<lparr>pf_start = pf_start (pa_start a) div PAGE_SIZE * PAGE_SIZE\<rparr>, pa_order = pa_order a, pa_zone = pa_zone a\<rparr>"
  using assms by (cases a; cases "pa_start a") simp

lemma poison_freed_Ok:
  assumes "buddy_mapped b" "block (pf_start (pa_start a) div PAGE_SIZE) (pa_order a) \<subseteq> managed b"
    and "PAGE_SIZE dvd pf_start (pa_start a)"
  obtains m where "poison_freed a s = (Ok (), s\<lparr>mc_memory := m\<rparr>)"
    "\<And>x. x \<notin> block_cells (pf_start (pa_start a) div PAGE_SIZE) (pa_order a) \<Longrightarrow> m x = mc_memory s x"
proof (cases "mc_debug s")
  case True
  let ?p = "pf_start (pa_start a) div PAGE_SIZE"
  have "fill_allocation a FREED_POISON s = (Ok (), s\<lparr>mc_memory :=
      (\<lambda>x. if x \<in> block_cells ?p (pa_order a) then filled_cell FREED_POISON else mc_memory s x)\<rparr>)"
    by (subst token_frame [OF assms(3)]) (rule fill_allocation_Ok [OF assms(1,2)])
  with True show ?thesis
    by (intro that [of "\<lambda>x. if x \<in> block_cells ?p (pa_order a) then filled_cell FREED_POISON else mc_memory s x"])
      (auto simp: poison_freed_def scatch_def sget_def sbind_def)
next
  case False
  then show ?thesis by (intro that [of "mc_memory s"]) (auto simp: poison_freed_def sget_def sbind_def sreturn_def)
qed

lemma page_alloc_free_cases:
  assumes s: "mc_page_allocator s = Some b" and b: "buddy_mapped b" and al: "PAGE_SIZE dvd pf_start (pa_start a)"
  defines "B \<equiv> block (pf_start (pa_start a) div PAGE_SIZE) (pa_order a)"
    and "C \<equiv> block_cells (pf_start (pa_start a) div PAGE_SIZE) (pa_order a)"
  shows "if valid_block b a (Some 1) Allocated
    then \<exists>b' m. page_alloc_free a s = (Ok (), (set_buddy b' s)\<lparr>mc_memory := m\<rparr>) \<and> buddy_mapped b' \<and> same_shape b b'
      \<and> (\<forall>x. is_free b' x \<longleftrightarrow> is_free b x \<or> x \<in> B) \<and> (\<forall>x. \<not> is_free b' x \<longrightarrow> marks (pv b' x) = marks (pv b x))
      \<and> (\<forall>x. x \<notin> C \<longrightarrow> m x = mc_memory s x)
    else \<exists>e. page_alloc_free a s = (Err e, s)"
proof -
  have inv: "buddy_inv b" using b by (simp add: buddy_mapped_def)
  show ?thesis
  proof (cases "valid_block b a (Some 1) Allocated")
    case False
    then obtain e where "BuddyAllocator_begin_free a b = (Err e, b)"
      using BuddyAllocator_begin_free_cases [OF inv, of a] by auto
    then have "page_alloc_free a s = (Err (BuddyFailure e), s)"
      by (simp add: page_alloc_free_def sseq_def sbind_def with_allocator_def s set_buddy_same [OF s])
    with False show ?thesis by auto
  next
    case True
    obtain b2 where free: "BuddyAllocator_free a b = (Ok (), b2)" and b2: "buddy_inv b2" "same_shape b b2"
      "\<forall>x. is_free b2 x \<longleftrightarrow> is_free b x \<or> x \<in> B" "\<forall>x. \<not> is_free b2 x \<longrightarrow> marks (pv b2 x) = marks (pv b x)"
      using BuddyAllocator_free_cases [OF inv, of a] True unfolding B_def by auto
    then obtain b1 where b1: "BuddyAllocator_begin_free a b = (Ok (), b1)" "BuddyAllocator_finish_free a b1 = (Ok (), b2)"
      by (auto simp: BuddyAllocator_free_def sseq_eq_Ok)
    have "remark b (pf_start (pa_start a) div PAGE_SIZE) (pa_order a) Freeing b1" "buddy_inv b1"
      using BuddyAllocator_begin_free_cases [OF inv, of a] True b1(1) by auto
    then have shape: "same_shape b b1" by (simp add: remark_def)
    then have map1: "buddy_mapped b1" using b \<open>buddy_inv b1\<close> by (auto simp: buddy_mapped_def same_shape_def)
    have "B \<subseteq> managed b1"
      using True zone_pfns_managed [of b "pa_zone a"] inv same_shape_managed [OF shape]
      by (auto simp: valid_block_def Let_def B_def buddy_inv_def)
    then obtain m where m: "poison_freed a (set_buddy b1 s) = (Ok (), (set_buddy b1 s)\<lparr>mc_memory := m\<rparr>)"
      "\<And>x. x \<notin> C \<Longrightarrow> m x = mc_memory s x"
      using poison_freed_Ok [OF map1 _ al, of "set_buddy b1 s"] unfolding B_def C_def by auto
    have "page_alloc_free a s = (Ok (), (set_buddy b2 s)\<lparr>mc_memory := m\<rparr>)"
      using m(1) by (simp add: page_alloc_free_def sseq_def sbind_def with_allocator_def s b1)
    moreover have "buddy_mapped b2" using b b2(1,2) by (auto simp: buddy_mapped_def same_shape_def)
    ultimately show ?thesis using True b2 m(2) by auto
  qed
qed

section \<open>The window of a release\<close>

text \<open>
  A release consists of two critical sections. In between other processors may run any operation on the
  allocator except the completion or cancellation of this very release, which needs its token.
\<close>

abbreviation token_block :: "PageAllocation \<Rightarrow> nat set" where
  "token_block a \<equiv> block (pf_start (pa_start a) div PAGE_SIZE) (pa_order a)"

fun completes :: "buddy_op \<Rightarrow> nat set \<Rightarrow> bool" where
  "completes (CancelFree a) B \<longleftrightarrow> token_block a \<inter> B \<noteq> {}"
| "completes (FinishFree a) B \<longleftrightarrow> token_block a \<inter> B \<noteq> {}"
| "completes _ B \<longleftrightarrow> False"

inductive others :: "nat set \<Rightarrow> BuddyAllocator \<Rightarrow> BuddyAllocator \<Rightarrow> bool" for B where
  none: "others B b b"
| some: "others B b b1 \<Longrightarrow> \<not> completes op B \<Longrightarrow> buddy_exec op b1 = (r, b2) \<Longrightarrow> others B b b2"

lemma reference_ops_view:
  assumes "buddy_inv b" "op = IncrementReference f \<or> op = DecrementReference f" "buddy_exec op b = (r, b')"
    and "pg_state (pv b q) \<noteq> Allocated"
  shows "pv b' q = pv b q"
proof (cases "allocated_page b f")
  case (Ok pg)
  then have m: "pf_start f div PAGE_SIZE \<in> managed b" "pg = pv b (pf_start f div PAGE_SIZE)" "pg_state pg = Allocated"
    by (auto simp: allocated_page_cases)
  have "buddy_wf b" using assms(1) by (simp add: buddy_inv_def)
  then have "pv (set_page (pf_start f div PAGE_SIZE) g b) q = pv b q" for g
    using set_page_view [OF _ m(1)] m assms(4) by auto
  with assms(2,3) Ok show ?thesis
    by (auto simp: BuddyAllocator_increment_reference_def BuddyAllocator_decrement_reference_def sbind_def sread_def
        Let_def sfail_def sseq_def sreturn_def page_mut_managed [OF m(1)] split: if_splits)
qed (use assms(2,3) in \<open>auto simp: BuddyAllocator_increment_reference_def BuddyAllocator_decrement_reference_def
    sbind_def sread_def sseq_def\<close>)

lemma buddy_exec_others:
  assumes inv: "buddy_inv b" and ex: "buddy_exec op b = (r, b')" and no: "\<not> completes op B"
    and fr: "q \<in> B" "pg_state (pv b q) = Freeing"
  shows "marks (pv b' q) = marks (pv b q)"
proof -
  have nf: "\<not> is_free b q" using fr by (simp add: is_free_def)
  show ?thesis
  proof (cases op)
    case (MarkPresent x)
    from BuddyAllocator_mark_present_range_cases [OF inv, of x] show ?thesis
    proof (elim disjE exE conjE)
      fix b1
      assume "BuddyAllocator_mark_present_range x b = (Ok (), b1)" "\<forall>p. p \<notin> range_pfns x \<longrightarrow> pv b1 p = pv b p"
        "\<forall>p \<in> range_pfns x. pg_state (pv b p) = Absent \<and> pg_state (pv b1 p) = Reserved"
      with MarkPresent ex fr show ?thesis by (cases "q \<in> range_pfns x") auto
    qed (use MarkPresent ex in auto)
  next
    case (Release x)
    from BuddyAllocator_release_range_cases [OF inv, of x] show ?thesis
    proof (elim disjE exE conjE)
      fix b1
      assume "BuddyAllocator_release_range x b = (Ok (), b1)" "\<forall>p \<in> range_pfns x. pg_state (pv b p) = Reserved"
        "\<forall>p. is_free b1 p \<longleftrightarrow> is_free b p \<or> p \<in> range_pfns x" "\<forall>p. \<not> is_free b1 p \<longrightarrow> marks (pv b1 p) = marks (pv b p)"
      with Release ex fr nf show ?thesis by (cases "q \<in> range_pfns x") auto
    qed (use Release ex in auto)
  next
    case (Allocate n c)
    then show ?thesis using BuddyAllocator_allocate_cases [OF inv, of n c] ex nf
      by (auto simp: sseq_def sbind_def sreturn_def allocated_token_def alloc_step_def split: prod.splits result.splits)
  next
    case (BeginFree a)
    then show ?thesis using BuddyAllocator_begin_free_cases [OF inv, of a] ex fr
      by (cases "q \<in> token_block a") (auto simp: remark_def valid_block_def Let_def split: if_splits)
  next
    case (CancelFree a)
    then show ?thesis using BuddyAllocator_cancel_free_cases [OF inv, of a] ex fr no
      by (cases "q \<in> token_block a") (auto simp: remark_def split: if_splits)
  next
    case (FinishFree a)
    then have "q \<notin> token_block a" using no fr by auto
    with FinishFree show ?thesis using BuddyAllocator_finish_free_cases [OF inv, of a] ex nf
      by (auto simp: free_step_def split: if_splits)
  next
    case (BeginFreeFrame f)
    then show ?thesis using begin_free_unreferenced_frame_cases [OF inv, of f] ex fr
      by (cases "q = pf_start f div PAGE_SIZE")
        (auto simp: Let_def sseq_def sbind_def sreturn_def remark_def split: if_splits)
  qed (use reference_ops_view [OF inv _ ex, of _ q] fr in auto)
qed

lemma others_window:
  assumes "others B b b'" "buddy_inv b" "\<forall>q \<in> B. pg_state (pv b q) = Freeing"
  shows "buddy_inv b' \<and> (\<forall>q \<in> B. marks (pv b' q) = marks (pv b q)) \<and> (\<forall>k. zone_pfns b' k = zone_pfns b k)"
  using assms
proof (induction rule: others.induct)
  case (some b b1 op r b2)
  then have IH: "buddy_inv b1" "\<forall>q \<in> B. marks (pv b1 q) = marks (pv b q)" "\<forall>k. zone_pfns b1 k = zone_pfns b k" by auto
  have "\<forall>q \<in> B. pg_state (pv b1 q) = Freeing" using IH(2) some.prems(2) marks_eqD(1) by metis
  then have "\<forall>q \<in> B. marks (pv b2 q) = marks (pv b1 q)"
    using buddy_exec_others [OF IH(1) some.hyps(3,2)] by blast
  moreover have "buddy_inv b2 \<and> same_shape b1 b2"
    using buddy_exec_sound [OF IH(1), of op] some.hyps(3) IH(1) by (cases r) (auto simp: sound_outcome_def)
  then have "buddy_inv b2" "zone_pfns b2 k = zone_pfns b1 k" for k by (auto simp: same_shape_zone_pfns)
  ultimately show ?case using IH by auto
qed simp

section \<open>Properties\<close>

text \<open>
  C23. An allocation from the global allocator returns pages that were free and changes no memory but theirs; when
  zeroed pages are requested every cell of the block is zero, so no data of a previous owner is visible. It
  fails only when the order is invalid or no block is left, and then nothing changes; memory that the direct
  map covers is never reported as inaccessible.
\<close>

theorem page_alloc_allocate_correct:
  assumes "mc_page_allocator s = Some b" "buddy_mapped b"
  shows "case page_alloc_allocate n options s of
      (Ok a, s') \<Rightarrow> \<exists>p b' m. a = \<lparr>pa_start = \<lparr>pf_start = p * PAGE_SIZE\<rparr>, pa_order = n, pa_zone = pa_zone a\<rparr>
        \<and> s' = s\<lparr>mc_page_allocator := Some b', mc_memory := m\<rparr> \<and> buddy_mapped b' \<and> alloc_step b p n b'
        \<and> block p n \<subseteq> free_set b (pa_zone a)
        \<and> (\<forall>x. x \<notin> block_cells p n \<longrightarrow> m x = mc_memory s x)
        \<and> (pao_zeroed options \<longrightarrow> (\<forall>x \<in> block_cells p n. m x = 0))
    | (Err e, s') \<Rightarrow> s' = s \<and> (e = BuddyFailure (InvalidOrder n) \<and> MAX_ORDER \<le> n
        \<or> e = BuddyFailure OutOfMemory \<and> \<not> can_serve b Dma32 n
          \<and> (pao_class options = AnyZone \<longrightarrow> \<not> can_serve b NormalZone n))
    | (Panic, s') \<Rightarrow> False"
proof -
  obtain r s' where r: "page_alloc_allocate n options s = (r, s')" by fastforce
  show ?thesis
    using page_alloc_allocate_cases [OF assms, of n options] unfolding r
    by (cases r) (simp_all add: allocated_block_def, blast)
qed

definition two_page_machine :: machine where
  "two_page_machine = \<lparr>mc_page_allocator = Some two_pages, mc_memory = (\<lambda>x. 7), mc_translation = True, mc_debug = True\<rparr>"

lemma two_pages_mapped: "buddy_mapped two_pages"
  using two_pages_inv by (simp add: buddy_mapped_def DIRECT_MAP_size) (simp add: two_pages_def PAGE_SIZE_eq)

theorem page_alloc_allocate_witness:
  "\<exists>s'. page_alloc_allocate 1 PageAllocationOptions_kernel_zeroed two_page_machine =
      (Ok \<lparr>pa_start = \<lparr>pf_start = 65536\<rparr>, pa_order = 1, pa_zone = Dma32\<rparr>, s')
    \<and> mc_memory s' 65536 = 0 \<and> mc_memory s' 73720 = 0 \<and> mc_memory s' 73728 = 7"
proof -
  let ?o = PageAllocationOptions_kernel_zeroed
  let ?a = "\<lparr>pa_start = \<lparr>pf_start = 65536\<rparr>, pa_order = 1, pa_zone = Dma32\<rparr>"
  have slot: "mc_page_allocator two_page_machine = Some two_pages" by (simp add: two_page_machine_def)
  note ok = page_alloc_allocate_correct [OF slot two_pages_mapped, of 1 ?o]
  have "can_serve two_pages Dma32 1"
    by (auto simp: can_serve_def free_set_def two_pages_zone two_pages_free block_def intro!: exI [of _ 16])
  then obtain a s' where a: "page_alloc_allocate 1 ?o two_page_machine = (Ok a, s')"
    using ok by (auto simp: MAX_ORDER_def split: prod.splits result.splits)
  obtain b' where "BuddyAllocator_allocate 1 AnyZone two_pages = (Ok ?a, b')" by (rule two_pages_allocated)
  then have "a = ?a"
    using a by (auto simp: page_alloc_allocate_def sbind_def sseq_def with_allocator_def slot sreturn_def
        PageAllocationOptions_kernel_zeroed_def split: prod.splits result.splits)
  then obtain p where p: "65536 = p * PAGE_SIZE" "\<forall>x. x \<notin> block_cells p 1 \<longrightarrow> mc_memory s' x = 7"
      "\<forall>x \<in> block_cells p 1. mc_memory s' x = 0"
    using ok unfolding a by (auto simp: PageAllocationOptions_kernel_zeroed_def two_page_machine_def)
  then have "p = 16" by (simp add: PAGE_SIZE_eq)
  then have "65536 \<in> block_cells p 1" "73720 \<in> block_cells p 1" "73728 \<notin> block_cells p 1"
    by (auto simp: block_cells_def block_def PAGE_SIZE_eq)
  with p a \<open>a = ?a\<close> show ?thesis by blast
qed

text \<open>
  C25. A release that has begun completes, whatever other processors do between its two critical sections: for every
  sequence of allocator operations that does not complete or cancel this release, the pages of the block stay
  neither free nor allocatable, and \<open>finish_free\<close> then succeeds and makes exactly them free.
\<close>

theorem release_window:
  assumes "buddy_inv b" "BuddyAllocator_begin_free a b = (Ok (), b1)" "others (token_block a) b1 b2"
  shows "buddy_inv b2 \<and> (\<forall>q \<in> token_block a. pg_state (pv b2 q) = Freeing \<and> \<not> is_free b2 q)
    \<and> (\<exists>b3. BuddyAllocator_finish_free a b2 = (Ok (), b3) \<and> buddy_inv b3
        \<and> (\<forall>x. is_free b3 x \<longleftrightarrow> is_free b2 x \<or> x \<in> token_block a))"
proof -
  let ?p = "pf_start (pa_start a) div PAGE_SIZE"
  have valid: "valid_block b a (Some 1) Allocated" and b1: "buddy_inv b1" "remark b ?p (pa_order a) Freeing b1"
    using BuddyAllocator_begin_free_cases [OF assms(1), of a] assms(2) by (auto split: if_splits)
  have v1: "valid_block b1 a None Freeing" by (rule valid_block_Freeing [OF valid b1(2)])
  then have fr: "\<forall>q \<in> token_block a. pg_state (pv b1 q) = Freeing" by (auto simp: valid_block_def Let_def)
  note w = others_window [OF assms(3) b1(1) fr]
  then have m: "\<forall>q \<in> token_block a. pg_state (pv b2 q) = Freeing \<and> pg_order (pv b2 q) = pg_order (pv b1 q)"
    using fr marks_eqD by metis
  have "?p \<in> token_block a" by (simp add: block_def)
  then have "valid_block b2 a None Freeing" using v1 m w by (simp add: valid_block_def Let_def)
  then obtain b3 where b3: "BuddyAllocator_finish_free a b2 = (Ok (), b3)" "buddy_inv b3" "free_step b2 ?p (pa_order a) b3"
    using BuddyAllocator_finish_free_cases [of b2 a] w by auto
  with m w show ?thesis by (auto simp: free_step_def is_free_def)
qed

theorem release_window_witness:
  "\<exists>b b1 b2. buddy_inv b
    \<and> BuddyAllocator_begin_free \<lparr>pa_start = \<lparr>pf_start = 65536\<rparr>, pa_order = 1, pa_zone = Dma32\<rparr> b = (Ok (), b1)
    \<and> buddy_exec (Allocate 0 AnyZone) b1 = (Err OutOfMemory, b2)
    \<and> (\<exists>b3. BuddyAllocator_finish_free \<lparr>pa_start = \<lparr>pf_start = 65536\<rparr>, pa_order = 1, pa_zone = Dma32\<rparr> b2 = (Ok (), b3)
        \<and> is_free b3 16 \<and> is_free b3 17)"
proof -
  let ?a = "\<lparr>pa_start = \<lparr>pf_start = 65536\<rparr>, pa_order = 1, pa_zone = Dma32\<rparr>"
  obtain b where b: "BuddyAllocator_allocate 1 AnyZone two_pages = (Ok ?a, b)" "buddy_inv b"
    "valid_block b ?a (Some 1) Allocated" by (rule two_pages_allocated)
  obtain b1 where b1: "BuddyAllocator_begin_free ?a b = (Ok (), b1)" "\<forall>x. is_free b1 x = is_free b x" "buddy_inv b1"
    using BuddyAllocator_begin_free_cases [OF b(2), of ?a] b(3) by auto
  obtain r b2 where b2: "buddy_exec (Allocate 0 AnyZone) b1 = (r, b2)" by fastforce
  obtain p where p: "65536 = p * PAGE_SIZE" "alloc_step two_pages p 1 b"
    using BuddyAllocator_allocate_cases [OF two_pages_inv, of 1 AnyZone] unfolding b(1) by (auto simp: allocated_token_def)
  then have "p = 16" by (simp add: PAGE_SIZE_eq)
  then have none: "\<not> is_free b1 x" for x using p(2) b1(2) by (auto simp: alloc_step_def two_pages_free block_def)
  then have "\<not> can_serve b1 k 0" for k by (auto simp: can_serve_def free_set_def block_def)
  then have r: "r = Err OutOfMemory"
    using BuddyAllocator_allocate_cases [OF b1(3), of 0 AnyZone] b2 none
    by (auto simp: sseq_def sbind_def sreturn_def allocated_token_def free_set_def block_def MAX_ORDER_def split: prod.splits result.splits)
  have "others (token_block ?a) b1 b2" by (rule others.some [OF others.none _ b2]) simp
  from release_window [OF b(2) b1(1) this] b(2) b1(1) b2 r show ?thesis
    by (auto simp: block_def PAGE_SIZE_eq)
qed

end
