(* ===== verification/Sv39.thy ===== *)
theory Sv39
  imports Riscv_Layout Mapping_Options
begin

text \<open>
  Page table geometry and raw tables (\<open>mm/src/paging/geometry.rs\<close>, \<open>table.rs\<close>) and the Sv39 instance with its
  entry format (\<open>arch/riscv64/src/memory/paging/geometry.rs\<close>, \<open>entry.rs\<close>). Entries are 64-bit words.
\<close>

section \<open>Geometry\<close>

type_synonym PageTableIndex = nat

record PageTableGeometry =
  ptg_virtual_address_bits :: nat
  ptg_index_bits :: nat
  ptg_shifts :: "nat list"

text \<open>The assertions of the loop of \<open>new\<close>: every shift below 64, and strictly decreasing.\<close>

fun shifts_ok :: "nat list \<Rightarrow> bool" where
  "shifts_ok [] = True"
| "shifts_ok [s] \<longleftrightarrow> s < 64"
| "shifts_ok (s # t # ss) \<longleftrightarrow> s < 64 \<and> t < s \<and> shifts_ok (t # ss)"

definition PageTableGeometry_new :: "nat \<Rightarrow> nat \<Rightarrow> nat list \<Rightarrow> (PageTableGeometry, 'e) result" where
  "PageTableGeometry_new virtual_address_bits index_bits shifts =
     (if \<not> 0 < length shifts then Panic
      else if \<not> PAGE_SHIFT < virtual_address_bits then Panic
      else if \<not> virtual_address_bits \<le> 64 then Panic
      else if \<not> 0 < index_bits then Panic
      else if \<not> index_bits < 64 then Panic
      else if \<not> shifts_ok shifts then Panic
      else if shifts ! (length shifts - 1) \<noteq> PAGE_SHIFT then Panic
      else Ok \<lparr>ptg_virtual_address_bits = virtual_address_bits, ptg_index_bits = index_bits, ptg_shifts = shifts\<rparr>)"

definition PageTableGeometry_entries_per_table :: "PageTableGeometry \<Rightarrow> usize" where
  "PageTableGeometry_entries_per_table self = push_bit (ptg_index_bits self) 1"

definition PageTableGeometry_shift :: "PageTableGeometry \<Rightarrow> usize \<Rightarrow> nat option" where
  "PageTableGeometry_shift self level =
     (if level < length (ptg_shifts self) then Some (ptg_shifts self ! level) else None)"

definition PageTableGeometry_entry_span :: "PageTableGeometry \<Rightarrow> usize \<Rightarrow> usize option" where
  "PageTableGeometry_entry_span self level =
     (case PageTableGeometry_shift self level of
        None \<Rightarrow> None
      | Some shift \<Rightarrow> if shift < 64 then Some (push_bit shift 1) else None)"

text \<open>The index is narrowed to 16 bits when it is stored.\<close>

definition PageTableGeometry_indices :: "PageTableGeometry \<Rightarrow> VirtAddr \<Rightarrow> PageTableIndex list" where
  "PageTableGeometry_indices self address =
     (let mask = push_bit (ptg_index_bits self) 1 - 1 in
      map (\<lambda>shift. take_bit 16 (drop_bit shift address AND mask)) (ptg_shifts self))"

section \<open>Raw tables\<close>

datatype PageTableAccessError = IndexOutOfRange usize usize

type_synonym RawPageTable = "64 word list"

definition RawPageTable_zeroed :: "usize \<Rightarrow> (RawPageTable, 'e) result" where
  "RawPageTable_zeroed entries = (if 0 < entries then Ok (replicate entries 0) else Panic)"

definition RawPageTable_entry :: "RawPageTable \<Rightarrow> usize \<Rightarrow> (64 word, PageTableAccessError) result" where
  "RawPageTable_entry self index =
     (if index < length self then Ok (self ! index) else Err (IndexOutOfRange index (length self)))"

definition RawPageTable_set_entry :: "usize \<Rightarrow> 64 word \<Rightarrow> (RawPageTable, unit, PageTableAccessError) action" where
  "RawPageTable_set_entry index v self =
     (if index < length self then (Ok (), self[index := v])
      else (Err (IndexOutOfRange index (length self)), self))"

definition RawPageTable_clear_entry :: "usize \<Rightarrow> (RawPageTable, unit, PageTableAccessError) action" where
  "RawPageTable_clear_entry index = RawPageTable_set_entry index 0"

definition RawPageTable_fill :: "64 word \<Rightarrow> RawPageTable \<Rightarrow> RawPageTable" where
  "RawPageTable_fill v self = replicate (length self) v"

definition RawPageTable_clear :: "RawPageTable \<Rightarrow> RawPageTable" where
  "RawPageTable_clear = RawPageTable_fill 0"

section \<open>The Sv39 geometry\<close>

definition LEVELS :: usize where "LEVELS = 3"

definition ENTRIES_PER_TABLE :: usize where "ENTRIES_PER_TABLE = 512"

definition GEOMETRY :: PageTableGeometry where
  "GEOMETRY = \<lparr>ptg_virtual_address_bits = 39, ptg_index_bits = 9, ptg_shifts = [30, 21, 12]\<rparr>"

definition indices :: "VirtAddr \<Rightarrow> PageTableIndex list option" where
  "indices address =
     (if \<not> is_canonical address then None else Some (PageTableGeometry_indices GEOMETRY address))"

section \<open>Page table entries\<close>

type_synonym PageTableEntry = "64 word"

definition PTE_VALID :: "64 word" where "PTE_VALID = push_bit 0 1"
definition PTE_READ :: "64 word" where "PTE_READ = push_bit 1 1"
definition PTE_WRITE :: "64 word" where "PTE_WRITE = push_bit 2 1"
definition PTE_EXECUTE :: "64 word" where "PTE_EXECUTE = push_bit 3 1"
definition PTE_USER :: "64 word" where "PTE_USER = push_bit 4 1"
definition PTE_GLOBAL :: "64 word" where "PTE_GLOBAL = push_bit 5 1"
definition PTE_ACCESSED :: "64 word" where "PTE_ACCESSED = push_bit 6 1"
definition PTE_DIRTY :: "64 word" where "PTE_DIRTY = push_bit 7 1"

definition LEAF_MASK :: "64 word" where
  "LEAF_MASK = PTE_READ OR PTE_WRITE OR PTE_EXECUTE"

definition PPN_SHIFT :: nat where "PPN_SHIFT = 10"

definition PPN_BITS :: nat where "PPN_BITS = 44"

definition PPN_VALUE_MASK :: "64 word" where
  "PPN_VALUE_MASK = push_bit PPN_BITS 1 - 1"

definition PPN_MASK :: "64 word" where
  "PPN_MASK = push_bit PPN_SHIFT PPN_VALUE_MASK"

definition PHYSICAL_ADDRESS_BITS :: nat where
  "PHYSICAL_ADDRESS_BITS = PAGE_SHIFT + PPN_BITS"

definition PHYSICAL_ADDRESS_LIMIT :: "64 word" where
  "PHYSICAL_ADDRESS_LIMIT = push_bit PHYSICAL_ADDRESS_BITS 1"

datatype PageTableEntryError =
    InvalidMappingOptions MappingOptionsError
  | UnsupportedMemoryType
  | PhysicalAddressOutOfRange PhysAddr

definition encode_frame :: "PhysFrame \<Rightarrow> (64 word, PageTableEntryError) result" where
  "encode_frame frame =
     (let physical = word_of_nat (pf_start frame) :: 64 word in
      if PHYSICAL_ADDRESS_LIMIT \<le> physical then Err (PhysicalAddressOutOfRange (pf_start frame))
      else
        (let ppn = drop_bit PAGE_SHIFT physical in
         Ok (push_bit PPN_SHIFT ppn AND PPN_MASK)))"

definition PageTableEntry_table :: "PhysFrame \<Rightarrow> (PageTableEntry, PageTableEntryError) result" where
  "PageTableEntry_table next_table =
     rbind (encode_frame next_table) (\<lambda>ppn. Ok (ppn OR PTE_VALID))"

definition PageTableEntry_leaf :: "PhysFrame \<Rightarrow> MappingOptions \<Rightarrow> (PageTableEntry, PageTableEntryError) result" where
  "PageTableEntry_leaf frame options =
     rbind (map_err InvalidMappingOptions (MappingOptions_validate options)) (\<lambda>_.
     if mo_memory_type options = Uncached then Err UnsupportedMemoryType
     else
       rbind (encode_frame frame) (\<lambda>ppn.
       let raw = ppn OR PTE_VALID OR PTE_ACCESSED;
           permissions = mo_permissions options;
           raw = (if PagePermissions_is_readable permissions then raw OR PTE_READ else raw);
           raw = (if PagePermissions_is_writable permissions then raw OR (PTE_WRITE OR PTE_DIRTY) else raw);
           raw = (if PagePermissions_is_executable permissions then raw OR PTE_EXECUTE else raw);
           raw = (if mo_user options then raw OR PTE_USER else raw);
           raw = (if mo_global options then raw OR PTE_GLOBAL else raw) in
       Ok raw))"

definition PageTableEntry_is_valid :: "PageTableEntry \<Rightarrow> bool" where
  "PageTableEntry_is_valid self \<longleftrightarrow> self AND PTE_VALID \<noteq> 0"

definition PageTableEntry_is_leaf :: "PageTableEntry \<Rightarrow> bool" where
  "PageTableEntry_is_leaf self \<longleftrightarrow> PageTableEntry_is_valid self \<and> self AND LEAF_MASK \<noteq> 0"

definition PageTableEntry_is_table :: "PageTableEntry \<Rightarrow> bool" where
  "PageTableEntry_is_table self \<longleftrightarrow> PageTableEntry_is_valid self \<and> self AND LEAF_MASK = 0"

definition PageTableEntry_is_user :: "PageTableEntry \<Rightarrow> bool" where
  "PageTableEntry_is_user self \<longleftrightarrow> self AND PTE_USER \<noteq> 0"

definition PageTableEntry_is_global :: "PageTableEntry \<Rightarrow> bool" where
  "PageTableEntry_is_global self \<longleftrightarrow> self AND PTE_GLOBAL \<noteq> 0"

definition PageTableEntry_is_readable :: "PageTableEntry \<Rightarrow> bool" where
  "PageTableEntry_is_readable self \<longleftrightarrow> self AND PTE_READ \<noteq> 0"

definition PageTableEntry_is_writable :: "PageTableEntry \<Rightarrow> bool" where
  "PageTableEntry_is_writable self \<longleftrightarrow> self AND PTE_WRITE \<noteq> 0"

definition PageTableEntry_is_executable :: "PageTableEntry \<Rightarrow> bool" where
  "PageTableEntry_is_executable self \<longleftrightarrow> self AND PTE_EXECUTE \<noteq> 0"

definition PageTableEntry_physical_address :: "PageTableEntry \<Rightarrow> PhysAddr" where
  "PageTableEntry_physical_address self =
     (let ppn = drop_bit PPN_SHIFT (self AND PPN_MASK) in push_bit PAGE_SHIFT (unat ppn))"

definition PageTableEntry_frame :: "PageTableEntry \<Rightarrow> PhysFrame option" where
  "PageTableEntry_frame self =
     (if \<not> PageTableEntry_is_valid self then None
      else PhysFrame_from_start_address (PageTableEntry_physical_address self))"

section \<open>Lemmas: entries\<close>

text \<open>The page number field of an entry for the frame at an address.\<close>

definition ppn_bits :: "nat \<Rightarrow> 64 word" where
  "ppn_bits p = push_bit PPN_SHIFT (drop_bit PAGE_SHIFT (word_of_nat p)) AND PPN_MASK"

lemma bit_PPN_MASK: "bit PPN_MASK n \<longleftrightarrow> 10 \<le> n \<and> n < 54"
proof -
  have "PPN_MASK = push_bit 10 (mask 44)"
    by (simp add: PPN_MASK_def PPN_SHIFT_def PPN_VALUE_MASK_def PPN_BITS_def mask_eq_exp_minus_1)
  then have "bit PPN_MASK n = bit (push_bit 10 (mask 44) :: 64 word) n" by simp
  then show ?thesis by (auto simp only: bit_push_bit_iff bit_mask_iff possible_bit_word) auto
qed

lemma encode_frame_eq:
  assumes "pf_start f \<le> usize_MAX"
  shows "encode_frame f = (if pf_start f < 2 ^ 56 then Ok (ppn_bits (pf_start f)) else Err (PhysicalAddressOutOfRange (pf_start f)))"
proof -
  have "PHYSICAL_ADDRESS_LIMIT = (2 ^ 56 :: 64 word)"
    by (simp add: PHYSICAL_ADDRESS_LIMIT_def PHYSICAL_ADDRESS_BITS_def PAGE_SHIFT_def PPN_BITS_def)
  moreover have "(2 ^ 56 :: 64 word) \<le> word_of_nat (pf_start f) \<longleftrightarrow> 2 ^ 56 \<le> pf_start f"
    using assms by (simp add: word_le_nat_alt unat_of_nat usize_MAX_def)
  ultimately show ?thesis by (simp add: encode_frame_def Let_def ppn_bits_def)
qed

lemma bit_ppn_bits: "bit (ppn_bits p) n \<longleftrightarrow> 10 \<le> n \<and> n < 54 \<and> bit p (n + 2)"
  by (auto simp: ppn_bits_def bit_and_iff bit_PPN_MASK bit_push_bit_iff bit_drop_bit_eq PPN_SHIFT_def PAGE_SHIFT_def bit_of_nat_iff possible_bit_word)
    
lemma ppn_address:
  assumes "p < 2 ^ 56" "PAGE_SIZE dvd p" "\<And>n. 10 \<le> n \<Longrightarrow> \<not> bit flags n"
  shows "PageTableEntry_physical_address (ppn_bits p OR flags) = p"
proof (rule bit_eqI)
  fix n
  have low: "\<not> bit p n" if "n < 12"
    using assms(2) that by (metis PAGE_SIZE_exp bit_push_bit_iff dvdE mult.commute not_le push_bit_eq_mult)
  have high: "\<not> bit p n" if "56 \<le> n"
    using assms(1) that by (metis bit_take_bit_iff less_le_not_le not_le take_bit_nat_eq_self)
  note defs = PageTableEntry_physical_address_def Let_def bit_push_bit_iff bit_unsigned_iff bit_drop_bit_eq bit_and_iff bit_or_iff
    bit_PPN_MASK bit_ppn_bits PPN_SHIFT_def PAGE_SHIFT_def possible_bit_word
  show "bit (PageTableEntry_physical_address (ppn_bits p OR flags)) n = bit p n"
  proof (cases "n < 12 \<or> 56 \<le> n")
    case False
    then obtain m where m: "n = m + 12" "m < 44" by (intro that [of "n - 12"]) auto
    then show ?thesis using assms(3) [of "m + 10"] by (simp add: defs add.commute)
  qed (use low high in \<open>auto simp: defs\<close>)
qed

text \<open>Addresses and options as the types of the source guarantee them.\<close>

definition frame_ok :: "PhysFrame \<Rightarrow> bool" where
  "frame_ok f \<longleftrightarrow> PAGE_SIZE dvd pf_start f \<and> pf_start f \<le> usize_MAX"

definition options_ok :: "MappingOptions \<Rightarrow> bool" where
  "options_ok o' \<longleftrightarrow> mo_permissions o' < 8"

lemma and_flag: "(w AND push_bit k 1 = (0 :: 'a::len word)) \<longleftrightarrow> \<not> bit w k"
  unfolding bit_eq_iff [of "w AND push_bit k 1"]
  by (auto simp: bit_and_iff bit_exp_iff possible_bit_word dest: bit_imp_le_length)

lemma bit_flag: "bit (push_bit k 1 :: 'a::len word) n \<longleftrightarrow> n = k \<and> k < LENGTH('a)"
  by (auto simp: bit_exp_iff possible_bit_word)

lemma and_flag_self: "k < LENGTH('a) \<Longrightarrow> (w AND push_bit k 1 = (push_bit k 1 :: 'a::len word)) \<longleftrightarrow> bit w k"
  unfolding bit_eq_iff [of "w AND push_bit k 1"] by (auto simp: bit_and_iff bit_exp_iff possible_bit_word)

lemmas pte_flags = PTE_VALID_def PTE_READ_def PTE_WRITE_def PTE_EXECUTE_def PTE_USER_def PTE_GLOBAL_def PTE_ACCESSED_def PTE_DIRTY_def

lemma permission_bits:
  "PagePermissions_is_readable p \<longleftrightarrow> bit p 0" "PagePermissions_is_writable p \<longleftrightarrow> bit p 1"
  "PagePermissions_is_executable p \<longleftrightarrow> bit p 2"
  unfolding PagePermissions_is_readable_def PagePermissions_is_writable_def PagePermissions_is_executable_def
    PagePermissions_contains_def PagePermissions_READ_def PagePermissions_WRITE_def PagePermissions_EXECUTE_def
  by (rule and_flag_self; simp)+

lemma pte_bits:
  "PageTableEntry_is_valid e \<longleftrightarrow> bit e 0" "PageTableEntry_is_readable e \<longleftrightarrow> bit e 1"
  "PageTableEntry_is_writable e \<longleftrightarrow> bit e 2" "PageTableEntry_is_executable e \<longleftrightarrow> bit e 3"
  "PageTableEntry_is_user e \<longleftrightarrow> bit e 4" "PageTableEntry_is_global e \<longleftrightarrow> bit e 5"
  unfolding PageTableEntry_is_valid_def PageTableEntry_is_readable_def PageTableEntry_is_writable_def
    PageTableEntry_is_executable_def PageTableEntry_is_user_def PageTableEntry_is_global_def pte_flags and_flag
  by simp_all

lemma leaf_mask_bits: "e AND LEAF_MASK = 0 \<longleftrightarrow> \<not> bit e 1 \<and> \<not> bit e 2 \<and> \<not> bit e 3"
proof -
  have "e AND LEAF_MASK = 0 \<longleftrightarrow> e AND PTE_READ = 0 \<and> e AND PTE_WRITE = 0 \<and> e AND PTE_EXECUTE = 0"
    by (auto simp: LEAF_MASK_def bit.conj_disj_distrib or_eq_0_iff)
  then show ?thesis unfolding pte_flags and_flag by blast
qed

lemma pte_kind:
  "PageTableEntry_is_leaf e \<longleftrightarrow> bit e 0 \<and> (bit e 1 \<or> bit e 2 \<or> bit e 3)"
  "PageTableEntry_is_table e \<longleftrightarrow> bit e 0 \<and> \<not> bit e 1 \<and> \<not> bit e 2 \<and> \<not> bit e 3"
  by (auto simp: PageTableEntry_is_leaf_def PageTableEntry_is_table_def leaf_mask_bits pte_bits)

lemma PageTableEntry_table_Ok:
  assumes "frame_ok f"
  shows "PageTableEntry_table f =
    (if pf_start f < 2 ^ 56 then Ok (ppn_bits (pf_start f) OR PTE_VALID) else Err (PhysicalAddressOutOfRange (pf_start f)))"
  using assms by (simp add: PageTableEntry_table_def frame_ok_def encode_frame_eq)

lemma frame_roundtrip:
  assumes "frame_ok f" "pf_start f < 2 ^ 56" "\<And>n. 10 \<le> n \<Longrightarrow> \<not> bit flags n" "bit flags 0"
  shows "PageTableEntry_frame (ppn_bits (pf_start f) OR flags) = Some f"
  using assms ppn_address [of "pf_start f" flags]
  by (simp add: PageTableEntry_frame_def pte_bits bit_or_iff bit_ppn_bits PhysFrame_from_start_address_def
      PhysAddr_is_aligned_iff frame_ok_def)

lemma PageTableEntry_table_frame:
  assumes "frame_ok f" "PageTableEntry_table f = Ok e"
  shows "PageTableEntry_is_table e" "\<not> PageTableEntry_is_leaf e" "e \<noteq> 0" "PageTableEntry_frame e = Some f"
proof -
  have e: "e = ppn_bits (pf_start f) OR PTE_VALID" "pf_start f < 2 ^ 56"
    using assms by (auto simp: PageTableEntry_table_Ok split: if_splits)
  have b: "bit PTE_VALID n \<longleftrightarrow> n = 0" for n by (simp add: PTE_VALID_def bit_1_iff)
  show t: "PageTableEntry_is_table e" "\<not> PageTableEntry_is_leaf e"
    by (auto simp: e pte_kind bit_or_iff bit_ppn_bits b)
  show "e \<noteq> 0" using t(1) by (auto simp: pte_kind)
  show "PageTableEntry_frame e = Some f" unfolding e(1) by (rule frame_roundtrip [OF assms(1) e(2)]) (auto simp: b)
qed

text \<open>The flag bits of a leaf entry.\<close>

definition leaf_flags :: "MappingOptions \<Rightarrow> 64 word" where
  "leaf_flags o' = PTE_VALID OR PTE_ACCESSED
     OR (if PagePermissions_is_readable (mo_permissions o') then PTE_READ else 0)
     OR (if PagePermissions_is_writable (mo_permissions o') then PTE_WRITE OR PTE_DIRTY else 0)
     OR (if PagePermissions_is_executable (mo_permissions o') then PTE_EXECUTE else 0)
     OR (if mo_user o' then PTE_USER else 0) OR (if mo_global o' then PTE_GLOBAL else 0)"

lemma bit_leaf_flags:
  "bit (leaf_flags o') n \<longleftrightarrow> n = 0 \<or> n = 6 \<or> n = 1 \<and> bit (mo_permissions o') 0
     \<or> (n = 2 \<or> n = 7) \<and> bit (mo_permissions o') 1 \<or> n = 3 \<and> bit (mo_permissions o') 2
     \<or> n = 4 \<and> mo_user o' \<or> n = 5 \<and> mo_global o'"
  unfolding leaf_flags_def pte_flags bit_or_iff if_distrib [of "\<lambda>w. bit w n"] bit_flag permission_bits
  by auto

lemma PageTableEntry_leaf_eq:
  assumes "frame_ok f"
  shows "PageTableEntry_leaf f o' = Ok e \<longleftrightarrow> MappingOptions_validate o' = Ok () \<and> mo_memory_type o' \<noteq> Uncached
    \<and> pf_start f < 2 ^ 56 \<and> e = ppn_bits (pf_start f) OR leaf_flags o'"
proof -
  have enc: "encode_frame f = (if pf_start f < 2 ^ 56 then Ok (ppn_bits (pf_start f))
      else Err (PhysicalAddressOutOfRange (pf_start f)))"
    using assms by (simp add: encode_frame_eq frame_ok_def)
  show ?thesis
    by (cases "MappingOptions_validate o'")
      (auto simp: PageTableEntry_leaf_def enc Let_def leaf_flags_def or.assoc)
qed

lemma PageTableEntry_leaf_no_panic: "PageTableEntry_leaf f o' \<noteq> Panic"
  by (cases "MappingOptions_validate o'")
    (auto simp: PageTableEntry_leaf_def encode_frame_def Let_def MappingOptions_validate_def split: if_splits)

lemma PageTableEntry_table_no_panic: "PageTableEntry_table f \<noteq> Panic"
  by (auto simp: PageTableEntry_table_def encode_frame_def Let_def)

lemma permissions_nonempty:
  fixes p :: PagePermissions
  assumes "p < 8" "p \<noteq> 0"
  shows "bit p 0 \<or> bit p 1 \<or> bit p 2"
proof (rule ccontr)
  assume no: "\<not> (bit p 0 \<or> bit p 1 \<or> bit p 2)"
  have "unat p < 2 ^ 3" using assms(1) by (simp add: word_less_nat_alt)
  then have "take_bit 3 (unat p) = unat p" by (simp add: take_bit_nat_eq_self)
  then have "p = take_bit 3 p" by (metis unsigned_take_bit_eq word_unat_eq_iff)
  then have "\<not> bit p n" for n
    using no by (metis bit_take_bit_iff One_nat_def less_2_cases_iff less_Suc_eq numeral_2_eq_2 numeral_3_eq_3)
  then show False using assms(2) bit_eqI [of p 0] by simp
qed

lemma PageTableEntry_leaf_decode:
  assumes "frame_ok f" "options_ok o'" "PageTableEntry_leaf f o' = Ok e"
  shows "PageTableEntry_frame e = Some f" "PageTableEntry_is_leaf e" "\<not> PageTableEntry_is_table e" "e \<noteq> 0"
    "PageTableEntry_is_readable e = PagePermissions_is_readable (mo_permissions o')"
    "PageTableEntry_is_writable e = PagePermissions_is_writable (mo_permissions o')"
    "PageTableEntry_is_executable e = PagePermissions_is_executable (mo_permissions o')"
    "PageTableEntry_is_user e = mo_user o'" "PageTableEntry_is_global e = mo_global o'"
    "PageTableEntry_physical_address e = pf_start f"
proof -
  note e = assms(3) [unfolded PageTableEntry_leaf_eq [OF assms(1)]]
  then have eq: "e = ppn_bits (pf_start f) OR leaf_flags o'" and lim: "pf_start f < 2 ^ 56" by auto
  have low: "bit e n \<longleftrightarrow> bit (leaf_flags o') n" if "n < 10" for n using that by (simp add: eq bit_or_iff bit_ppn_bits)
  show "PageTableEntry_frame e = Some f"
    unfolding eq by (rule frame_roundtrip [OF assms(1) lim]) (auto simp: bit_leaf_flags)
  show "PageTableEntry_physical_address e = pf_start f"
    unfolding eq using lim assms(1) by (intro ppn_address) (auto simp: bit_leaf_flags frame_ok_def)
  show "PageTableEntry_is_readable e = PagePermissions_is_readable (mo_permissions o')"
    "PageTableEntry_is_writable e = PagePermissions_is_writable (mo_permissions o')"
    "PageTableEntry_is_executable e = PagePermissions_is_executable (mo_permissions o')"
    "PageTableEntry_is_user e = mo_user o'" "PageTableEntry_is_global e = mo_global o'"
    by (auto simp: pte_bits low bit_leaf_flags permission_bits)
  have "mo_permissions o' \<noteq> 0"
    using e by (auto simp: MappingOptions_validate_def PagePermissions_is_empty_def)
  then have "bit (mo_permissions o') 0 \<or> bit (mo_permissions o') 1 \<or> bit (mo_permissions o') 2"
    using assms(2) by (intro permissions_nonempty) (auto simp: options_ok_def)
  then show leaf: "PageTableEntry_is_leaf e" "\<not> PageTableEntry_is_table e" by (auto simp: pte_kind low bit_leaf_flags)
  show "e \<noteq> 0" using leaf(1) by (auto simp: pte_kind)
qed

section \<open>Lemmas: indices\<close>

lemma GEOMETRY_new: "PageTableGeometry_new 39 9 [30, 21, 12] = Ok GEOMETRY"
  by (simp add: PageTableGeometry_new_def GEOMETRY_def PAGE_SHIFT_def)

definition index_of :: "nat \<Rightarrow> nat \<Rightarrow> nat" where
  "index_of shift a = a div 2 ^ shift mod 512"

lemma GEOMETRY_indices: "PageTableGeometry_indices GEOMETRY a = [index_of 30 a, index_of 21 a, index_of 12 a]"
proof -
  have "take_bit 16 (drop_bit s a AND 511) = index_of s a" for s
  proof -
    have "drop_bit s a AND 511 = take_bit 9 (drop_bit s a)" by (simp add: take_bit_eq_mask mask_eq_exp_minus_1)
    then show ?thesis by (simp add: index_of_def drop_bit_eq_div take_bit_eq_mod mod_mod_cancel)
  qed
  then show ?thesis by (simp add: PageTableGeometry_indices_def GEOMETRY_def Let_def)
qed

lemma index_of_less: "index_of s a < 512"
  by (simp add: index_of_def)

lemma indices_mod: "a mod 2 ^ 39 = ((index_of 30 a * 512 + index_of 21 a) * 512 + index_of 12 a) * 4096 + a mod 4096"
proof -
  have "a mod (2 ^ 30 * 512) = 2 ^ 30 * index_of 30 a + a mod 2 ^ 30"
    "a mod (2 ^ 21 * 512) = 2 ^ 21 * index_of 21 a + a mod 2 ^ 21"
    "a mod (2 ^ 12 * 512) = 2 ^ 12 * index_of 12 a + a mod 2 ^ 12"
    unfolding index_of_def by (rule mod_mult2_eq)+
  then show ?thesis by simp
qed

lemma canonical_mod_inj:
  assumes "is_canonical a" "is_canonical b" "a \<le> usize_MAX" "b \<le> usize_MAX" "a mod 2 ^ 39 = b mod 2 ^ 39"
  shows "a = b"
proof -
  have low: "x mod 2 ^ 39 = x" if "x < 2 ^ 38" for x :: nat using that by simp
  have high: "x mod 2 ^ 39 = x - (2 ^ 64 - 2 ^ 39)" if "2 ^ 64 - 2 ^ 38 \<le> x" "x \<le> usize_MAX" for x :: nat
  proof -
    have "x = (x - (2 ^ 64 - 2 ^ 39)) + (2 ^ 25 - 1) * 2 ^ 39" using that by simp
    then have "x mod 2 ^ 39 = (x - (2 ^ 64 - 2 ^ 39)) mod 2 ^ 39" by (metis mod_mult_self1)
    also have "\<dots> = x - (2 ^ 64 - 2 ^ 39)" using that by (intro mod_less) (simp add: usize_MAX_def)
    finally show ?thesis .
  qed
  have ends: "x < 2 ^ 38 \<or> 2 ^ 64 - 2 ^ 38 \<le> x" if "is_canonical x" for x
    using that by (simp add: is_canonical_def layout_constants)
  show ?thesis
    using ends [OF assms(1)] ends [OF assms(2)] low [of a] low [of b] high [OF _ assms(3)] high [OF _ assms(4)] assms(5)
    by auto
qed

lemma indices_Some:
  "indices a = Some xs \<longleftrightarrow> is_canonical a \<and> xs = [index_of 30 a, index_of 21 a, index_of 12 a]"
  by (auto simp: indices_def GEOMETRY_indices)

lemma indices_inj:
  assumes "indices a = Some xs" "indices b = Some xs" "a \<le> usize_MAX" "b \<le> usize_MAX" "a mod 4096 = b mod 4096"
  shows "a = b"
proof (rule canonical_mod_inj)
  have "index_of 30 a = index_of 30 b" "index_of 21 a = index_of 21 b" "index_of 12 a = index_of 12 b"
    using assms(1,2) by (simp_all add: indices_Some)
  then show "a mod 2 ^ 39 = b mod 2 ^ 39" by (simp only: indices_mod assms(5))
qed (use assms in \<open>simp_all add: indices_Some\<close>)

lemma indices_page:
  assumes "a div 4096 = b div 4096"
  shows "indices a = indices b"
proof -
  have "index_of (12 + s) x = x div 4096 div 2 ^ s mod 512" for s x by (simp add: index_of_def power_add div_mult2_eq)
  from this [of 18] this [of 9] this [of 0] assms
  have "index_of 30 a = index_of 30 b" "index_of 21 a = index_of 21 b" "index_of 12 a = index_of 12 b" by simp_all
  moreover have "is_canonical x \<longleftrightarrow> x div 4096 < 2 ^ 26 \<or> 2 ^ 52 - 2 ^ 26 \<le> x div 4096" for x
    by (auto simp: is_canonical_def layout_constants)
  ultimately show ?thesis using assms by (simp add: indices_def GEOMETRY_indices)
qed

lemma indices_same_page:
  assumes "indices a = Some xs" "a \<le> usize_MAX" "b \<le> usize_MAX"
  shows "indices b = Some xs \<longleftrightarrow> b div 4096 = a div 4096"
proof
  assume b: "indices b = Some xs"
  let ?c = "4096 * (b div 4096) + a mod 4096"
  have c: "?c div 4096 = b div 4096" by simp
  have "b div 4096 \<le> 2 ^ 52 - 1" using assms(3) by (simp add: usize_MAX_def)
  then have "?c \<le> usize_MAX" using mod_less_divisor [of 4096 a] by (simp add: usize_MAX_def)
  moreover have "indices ?c = Some xs" using indices_page [OF c] b by simp
  ultimately have "a = ?c" using indices_inj [OF assms(1) _ assms(2)] by simp
  then show "b div 4096 = a div 4096" using c by simp
qed (use indices_page assms(1) in metis)

section \<open>Properties\<close>

text \<open>
  C38. An entry decodes to what it was built from. The frame of a leaf entry is the mapped frame, its read, write, execute,
  user and global bits are those of the mapping options, and it is neither empty nor mistaken for a pointer to a table. A
  kernel mapping is never writable and executable, a user mapping never global. The frame of a table entry is the table it
  points to, and it is neither empty nor mistaken for a leaf. Both can be built exactly for frames below the limit of
  physical addresses, a leaf also only from valid and cached mapping options.
\<close>

theorem PageTableEntry_leaf_roundtrip:
  assumes "frame_ok f" "options_ok o'"
  shows "(\<forall>e. PageTableEntry_leaf f o' = Ok e \<longrightarrow>
      PageTableEntry_frame e = Some f \<and> PageTableEntry_is_leaf e \<and> \<not> PageTableEntry_is_table e \<and> e \<noteq> 0
      \<and> PageTableEntry_is_readable e = PagePermissions_is_readable (mo_permissions o')
      \<and> PageTableEntry_is_writable e = PagePermissions_is_writable (mo_permissions o')
      \<and> PageTableEntry_is_executable e = PagePermissions_is_executable (mo_permissions o')
      \<and> PageTableEntry_is_user e = mo_user o' \<and> PageTableEntry_is_global e = mo_global o'
      \<and> \<not> (\<not> PageTableEntry_is_user e \<and> PageTableEntry_is_writable e \<and> PageTableEntry_is_executable e)
      \<and> \<not> (PageTableEntry_is_user e \<and> PageTableEntry_is_global e))
    \<and> (\<forall>t. PageTableEntry_table f = Ok t \<longrightarrow>
      PageTableEntry_frame t = Some f \<and> PageTableEntry_is_table t \<and> \<not> PageTableEntry_is_leaf t \<and> t \<noteq> 0)
    \<and> is_ok (PageTableEntry_leaf f o') =
      (is_ok (MappingOptions_validate o') \<and> mo_memory_type o' \<noteq> Uncached \<and> pf_start f < 2 ^ PHYSICAL_ADDRESS_BITS)
    \<and> is_ok (PageTableEntry_table f) = (pf_start f < 2 ^ PHYSICAL_ADDRESS_BITS)"
    (is "(\<forall>e. ?leaf e \<longrightarrow> ?L e) \<and> (\<forall>t. ?table t \<longrightarrow> ?T t) \<and> ?ok")
proof -
  have L: "?L e" if "?leaf e" for e
  proof -
    note d = PageTableEntry_leaf_decode [OF assms that]
    have "MappingOptions_validate o' = Ok ()" using assms that by (simp add: PageTableEntry_leaf_eq)
    with d show ?thesis by (auto simp: MappingOptions_validate_def Let_def split: if_splits)
  qed
  have T: "?T t" if "?table t" for t using PageTableEntry_table_frame [OF assms(1) that] by blast
  have ?ok
    by (auto simp: is_ok_iff PageTableEntry_leaf_eq [OF assms(1)] PageTableEntry_table_Ok [OF assms(1)] PHYSICAL_ADDRESS_BITS_def
        PAGE_SHIFT_def PPN_BITS_def)
  then show ?thesis using L T by blast
qed

theorem PageTableEntry_leaf_roundtrip_witness:
  "PageTableEntry_leaf \<lparr>pf_start = 0x80200000\<rparr> MappingOptions_user_data = Ok 0x200800d7
   \<and> PageTableEntry_frame 0x200800d7 = Some \<lparr>pf_start = 0x80200000\<rparr>
   \<and> PageTableEntry_is_leaf 0x200800d7 \<and> PageTableEntry_is_user 0x200800d7
   \<and> PageTableEntry_table \<lparr>pf_start = 0x80200000\<rparr> = Ok 0x20080001 \<and> PageTableEntry_is_table 0x20080001"
proof -
  let ?f = "\<lparr>pf_start = 0x80200000\<rparr>"
  have f: "frame_ok ?f" by (simp add: frame_ok_def PAGE_SIZE_eq usize_MAX_def)
  have o: "options_ok MappingOptions_user_data"
    by (simp add: options_ok_def MappingOptions_user_data_def mapping_option_defs permission_defs)
  have e: "PageTableEntry_leaf ?f MappingOptions_user_data = Ok 0x200800d7"
    by (simp add: PageTableEntry_leaf_def encode_frame_def Let_def MappingOptions_validate_def MappingOptions_user_data_def
        mapping_option_defs permission_defs pte_flags PHYSICAL_ADDRESS_LIMIT_def PHYSICAL_ADDRESS_BITS_def PAGE_SHIFT_def
        PPN_BITS_def PPN_SHIFT_def PPN_MASK_def PPN_VALUE_MASK_def)
  have t: "PageTableEntry_table ?f = Ok 0x20080001"
    by (simp add: PageTableEntry_table_def encode_frame_def Let_def pte_flags PHYSICAL_ADDRESS_LIMIT_def PHYSICAL_ADDRESS_BITS_def
        PAGE_SHIFT_def PPN_BITS_def PPN_SHIFT_def PPN_MASK_def PPN_VALUE_MASK_def)
  from PageTableEntry_leaf_roundtrip [OF f o] e t show ?thesis
    by (simp add: MappingOptions_user_data_def mapping_option_defs)
qed

text \<open>
  C39. The Sv39 indices of a canonical address, aligned or not, are in the bounds of a table, so no entry access can fail,
  and they identify the page: an address has the same indices exactly when it lies in the same page, whether in the user
  or in the kernel half.
\<close>

theorem indices_bounds:
  assumes "indices a = Some xs" "a \<le> usize_MAX"
  shows "length xs = LEVELS \<and> (\<forall>i \<in> set xs. i < ENTRIES_PER_TABLE)
    \<and> (\<forall>b \<le> usize_MAX. indices b = Some xs \<longleftrightarrow> b div PAGE_SIZE = a div PAGE_SIZE)"
  using assms indices_same_page [OF assms]
  by (auto simp: indices_Some index_of_less LEVELS_def ENTRIES_PER_TABLE_def PAGE_SIZE_eq)

theorem indices_bounds_witness:
  "indices 0xffffffff80000123 = Some [510, 0, 0] \<and> indices 0x4000201000 = None \<and> 510 < ENTRIES_PER_TABLE
   \<and> indices 0xffffffff80000fff = Some [510, 0, 0] \<and> indices 0xffffffff80001000 \<noteq> Some [510, 0, 0]"
proof -
  have i: "indices 0xffffffff80000123 = Some [510, 0, 0]"
    by (simp add: indices_Some is_canonical_def layout_constants index_of_def)
  have m: "0xffffffff80000123 \<le> usize_MAX" "0xffffffff80000fff \<le> usize_MAX" "0xffffffff80001000 \<le> usize_MAX"
    by (simp_all add: usize_MAX_def)
  have "indices 0x4000201000 = None" by (simp add: indices_def is_canonical_def layout_constants)
  with i m indices_bounds [OF i m(1)] show ?thesis by (simp add: PAGE_SIZE_eq)
qed

end
