(* ===== verification/Runtime_Page_Table.thy ===== *)
theory Runtime_Page_Table
  imports Page_Alloc Sv39
begin

text \<open>
  Runtime page tables on RISC-V, \<open>kernel/src/runtime_page_table.rs\<close>: the wrapper that separates user roots
  from the kernel root and the Sv39 implementation underneath. Table pages come from the global page allocator
  and are read and written in the physical memory of the machine.
\<close>

datatype RuntimePageTableError =
    InvalidVirtualAddress
  | AlreadyMapped
  | NotMapped
  | LeafWhereTableExpected usize
  | InvalidTableEntry usize
  | PageAllocatorFailed GlobalPageAllocatorError
  | PageTableEntryRejected
  | PageTableAccess
  | TableMetadataOutOfMemory
  | KernelMappingMutationDenied
  | KernelRootRequired
  | OwnedRootRequired
  | OwnedTablesRemain

text \<open>The outer structure has an owner for its root when it is a user root; the inner one is the Sv39 table.\<close>

record RuntimePageTable =
  rpt_root :: PhysFrame
  rpt_tables :: "PageAllocation list"
  rpt_owner :: "PageAllocation option"

text \<open>
  The state of a method: the machine, the counter of borrowers of the kernel root, the receiver, and the vector in
  which the caller collects tables that have been taken out.
\<close>

record table_machine = machine +
  tm_borrowers :: usize
  tm_self :: RuntimePageTable
  tm_retired :: "PageAllocation list"

type_synonym 'a table_action = "(table_machine, 'a, RuntimePageTableError) action"

section \<open>Table pages\<close>

definition allocate_zeroed_table :: "PageAllocation table_action" where
  "allocate_zeroed_table =
     smap_err PageAllocatorFailed (page_alloc_allocate 0 PageAllocationOptions_kernel_zeroed)"

definition free_table :: "PageAllocation \<Rightarrow> unit table_action" where
  "free_table allocation s =
     (case page_alloc_free allocation s of
        (Ok _, s') \<Rightarrow> (Ok (), s')
      | (_, s') \<Rightarrow> (Panic, s'))"

text \<open>The table of 512 cells at a frame.\<close>

definition table_at :: "(PhysAddr \<Rightarrow> 64 word) \<Rightarrow> PhysFrame \<Rightarrow> RawPageTable" where
  "table_at m frame = map (\<lambda>i. m (pf_start frame + 8 * i)) [0..<ENTRIES_PER_TABLE]"

definition table_ptr :: "bool \<Rightarrow> PhysFrame \<Rightarrow> (VirtAddr, RuntimePageTableError) result" where
  "table_ptr translation frame =
     map_err (\<lambda>_. PageTableAccess) (ram_ptr translation PAGE_SIZE PAGE_SIZE (pf_start frame))"

definition read_entry :: "PhysFrame \<Rightarrow> usize \<Rightarrow> 64 word table_action" where
  "read_entry frame index =
     sread (\<lambda>s.
       rbind (table_ptr (mc_translation s) frame) (\<lambda>_.
       map_err (\<lambda>_. PageTableAccess) (RawPageTable_entry (table_at (mc_memory s) frame) index)))"

definition write_entry :: "PhysFrame \<Rightarrow> usize \<Rightarrow> 64 word \<Rightarrow> unit table_action" where
  "write_entry frame index v =
     sbind (sread (\<lambda>s. table_ptr (mc_translation s) frame)) (\<lambda>_.
     if index < ENTRIES_PER_TABLE
     then smodify (\<lambda>s. s\<lparr>mc_memory := (mc_memory s)(pf_start frame + 8 * index := v)\<rparr>)
     else sfail PageTableAccess)"

definition table_is_filled :: "PhysFrame \<Rightarrow> 64 word \<Rightarrow> bool table_action" where
  "table_is_filled frame expected =
     sread (\<lambda>s.
       rbind (table_ptr (mc_translation s) frame) (\<lambda>_.
       Ok (list_all (\<lambda>v. v = expected) (table_at (mc_memory s) frame))))"

section \<open>Walks\<close>

text \<open>The next table below an entry that has been read and is not zero.\<close>

definition next_table :: "usize \<Rightarrow> 64 word \<Rightarrow> (PhysFrame, RuntimePageTableError) result" where
  "next_table level raw =
     (if PageTableEntry_is_leaf raw then Err (LeafWhereTableExpected level)
      else if \<not> PageTableEntry_is_table raw then Err (InvalidTableEntry level)
      else ok_or (PageTableEntry_frame raw) (InvalidTableEntry level))"

text \<open>Linking the new tables: leaf, inner entries from the deepest level up, and last the existing parent.\<close>

definition link_tables ::
  "PhysFrame \<Rightarrow> usize \<Rightarrow> PageTableIndex list \<Rightarrow> 64 word \<Rightarrow> PhysFrame list \<Rightarrow> unit table_action" where
  "link_tables parent missing_level page_indices leaf frames =
     (let required = LEVELS - 1 - missing_level in
      sseq (write_entry (frames ! (required - 1)) (page_indices ! (LEVELS - 1)) leaf)
      (sseq (sforeach (\<lambda>index.
          sbind (slift (map_err (\<lambda>_. PageTableEntryRejected) (PageTableEntry_table (frames ! (index + 1))))) (\<lambda>entry.
          write_entry (frames ! index) (page_indices ! (missing_level + 1 + index)) entry))
          (rev [0..<required - 1]))
      (sbind (slift (map_err (\<lambda>_. PageTableEntryRejected) (PageTableEntry_table (frames ! 0)))) (\<lambda>first_entry.
      write_entry parent (page_indices ! missing_level) first_entry))))"

text \<open>The allocations made so far are kept when one fails, so that they can be released.\<close>

fun allocate_tables ::
  "nat \<Rightarrow> PageAllocation list \<Rightarrow> table_machine \<Rightarrow>
   (unit, RuntimePageTableError) result \<times> PageAllocation list \<times> table_machine" where
  "allocate_tables 0 acc s = (Ok (), acc, s)"
| "allocate_tables (Suc n) acc s =
     (case allocate_zeroed_table s of
        (Ok a, s') \<Rightarrow> allocate_tables n (acc @ [a]) s'
      | (Err e, s') \<Rightarrow> (Err e, acc, s')
      | (Panic, s') \<Rightarrow> (Panic, acc, s'))"

definition install_missing_chain ::
  "bool \<Rightarrow> PhysFrame \<Rightarrow> usize \<Rightarrow> PageTableIndex list \<Rightarrow> 64 word \<Rightarrow> unit table_action" where
  "install_missing_chain reserve_ok parent missing_level page_indices leaf s =
     (if \<not> reserve_ok then (Err TableMetadataOutOfMemory, s)
      else
        (case allocate_tables (LEVELS - 1 - missing_level) [] s of
           (r, allocations, s1) \<Rightarrow>
             (case sseq (slift r) (link_tables parent missing_level page_indices leaf (map pa_start allocations)) s1 of
                (Ok _, s2) \<Rightarrow>
                  (Ok (), s2\<lparr>tm_self := (tm_self s2)\<lparr>rpt_tables := rpt_tables (tm_self s2) @ allocations\<rparr>\<rparr>)
              | (Err e, s2) \<Rightarrow> sseq (sforeach free_table allocations) (sfail e) s2
              | (Panic, s2) \<Rightarrow> (Panic, s2))))"

function map_walk :: "bool \<Rightarrow> PageTableIndex list \<Rightarrow> 64 word \<Rightarrow> usize \<Rightarrow> PhysFrame \<Rightarrow> unit table_action" where
  "map_walk reserve_ok page_indices leaf level current =
     (if level < LEVELS - 1 then
        sbind (read_entry current (page_indices ! level)) (\<lambda>raw.
        if raw = 0 then install_missing_chain reserve_ok current level page_indices leaf
        else sbind (slift (next_table level raw)) (\<lambda>below.
          map_walk reserve_ok page_indices leaf (level + 1) below))
      else
        sbind (read_entry current (page_indices ! (LEVELS - 1))) (\<lambda>raw.
        if raw \<noteq> 0 then sfail AlreadyMapped
        else write_entry current (page_indices ! (LEVELS - 1)) leaf))"
  by pat_completeness auto
termination by (relation "measure (\<lambda>(_, _, _, level, _). LEVELS - level)") auto

declare map_walk.simps [simp del]

definition imp_map_page :: "bool \<Rightarrow> VirtPage \<Rightarrow> PhysFrame \<Rightarrow> MappingOptions \<Rightarrow> unit table_action" where
  "imp_map_page reserve_ok page frame options =
     sbind (slift (ok_or (indices (vp_start page)) InvalidVirtualAddress)) (\<lambda>page_indices.
     sbind (slift (map_err (\<lambda>_. PageTableEntryRejected) (PageTableEntry_leaf frame options))) (\<lambda>leaf.
     sbind (sget (\<lambda>s. rpt_root (tm_self s))) (\<lambda>root.
     map_walk reserve_ok page_indices leaf 0 root)))"

fun leaf_walk :: "PageTableIndex list \<Rightarrow> usize list \<Rightarrow> PhysFrame \<Rightarrow> PhysFrame table_action" where
  "leaf_walk page_indices [] current = sreturn current"
| "leaf_walk page_indices (level # levels) current =
     sbind (read_entry current (page_indices ! level)) (\<lambda>raw.
     if raw = 0 then sfail NotMapped
     else sbind (slift (next_table level raw)) (\<lambda>below. leaf_walk page_indices levels below))"

definition leaf_entry :: "VirtPage \<Rightarrow> (PhysFrame \<times> usize \<times> 64 word) table_action" where
  "leaf_entry page =
     sbind (slift (ok_or (indices (vp_start page)) InvalidVirtualAddress)) (\<lambda>page_indices.
     sbind (sget (\<lambda>s. rpt_root (tm_self s))) (\<lambda>root.
     sbind (leaf_walk page_indices [0..<LEVELS - 1] root) (\<lambda>current.
     let leaf_index = page_indices ! (LEVELS - 1) in
     sbind (read_entry current leaf_index) (\<lambda>raw.
     if raw = 0 then sfail NotMapped
     else if \<not> PageTableEntry_is_leaf raw then sfail (InvalidTableEntry (LEVELS - 1))
     else sreturn (current, leaf_index, raw)))))"

definition imp_protect_page :: "VirtPage \<Rightarrow> MappingOptions \<Rightarrow> unit table_action" where
  "imp_protect_page page options =
     sbind (leaf_entry page) (\<lambda>(leaf_table, leaf_index, old).
     sbind (slift (ok_or (PageTableEntry_frame old) (InvalidTableEntry (LEVELS - 1)))) (\<lambda>frame.
     sbind (slift (map_err (\<lambda>_. PageTableEntryRejected) (PageTableEntry_leaf frame options))) (\<lambda>new.
     write_entry leaf_table leaf_index new)))"

definition imp_replace_page :: "VirtPage \<Rightarrow> PhysFrame \<Rightarrow> MappingOptions \<Rightarrow> PhysFrame table_action" where
  "imp_replace_page page frame options =
     sbind (leaf_entry page) (\<lambda>(leaf_table, leaf_index, old).
     sbind (slift (ok_or (PageTableEntry_frame old) (InvalidTableEntry (LEVELS - 1)))) (\<lambda>old_frame.
     sbind (slift (map_err (\<lambda>_. PageTableEntryRejected) (PageTableEntry_leaf frame options))) (\<lambda>new.
     sseq (write_entry leaf_table leaf_index new) (sreturn old_frame))))"

definition imp_unmap_page :: "VirtPage \<Rightarrow> PhysFrame table_action" where
  "imp_unmap_page page =
     sbind (leaf_entry page) (\<lambda>(leaf_table, leaf_index, old).
     sbind (slift (ok_or (PageTableEntry_frame old) (InvalidTableEntry (LEVELS - 1)))) (\<lambda>frame.
     sseq (write_entry leaf_table leaf_index 0) (sreturn frame)))"

function translate_walk :: "PageTableIndex list \<Rightarrow> VirtAddr \<Rightarrow> usize \<Rightarrow> PhysFrame \<Rightarrow> PhysAddr option table_action" where
  "translate_walk page_indices address level current =
     (if level < LEVELS then
        sbind (read_entry current (page_indices ! level)) (\<lambda>raw.
        if raw = 0 then sreturn None
        else if level = LEVELS - 1 then
          (if \<not> PageTableEntry_is_leaf raw then sfail (InvalidTableEntry level)
           else sreturn (PhysAddr_checked_add (PageTableEntry_physical_address raw) (address AND (PAGE_SIZE - 1))))
        else sbind (slift (next_table level raw)) (\<lambda>below. translate_walk page_indices address (level + 1) below))
      else sreturn None)"
  by pat_completeness auto
termination by (relation "measure (\<lambda>(_, _, level, _). LEVELS - level)") auto

declare translate_walk.simps [simp del]

definition rpt_translate :: "VirtAddr \<Rightarrow> PhysAddr option table_action" where
  "rpt_translate address =
     sbind (slift (ok_or (indices address) InvalidVirtualAddress)) (\<lambda>page_indices.
     sbind (sget (\<lambda>s. rpt_root (tm_self s))) (\<lambda>root.
     translate_walk page_indices address 0 root))"

section \<open>Reclaiming empty tables\<close>

text \<open>The tables on the path to a page, or nothing when the path ends early.\<close>

fun reclaim_walk :: "PageTableIndex list \<Rightarrow> usize list \<Rightarrow> PhysFrame \<Rightarrow> PhysFrame list \<Rightarrow> PhysFrame list option table_action" where
  "reclaim_walk page_indices [] current tables = sreturn (Some tables)"
| "reclaim_walk page_indices (level # levels) current tables =
     sbind (read_entry current (page_indices ! level)) (\<lambda>raw.
     if raw = 0 then sreturn None
     else if \<not> PageTableEntry_is_table raw \<or> PageTableEntry_is_leaf raw then sfail (InvalidTableEntry level)
     else sbind (slift (ok_or (PageTableEntry_frame raw) (InvalidTableEntry level))) (\<lambda>below.
       reclaim_walk page_indices levels below (tables @ [below])))"

fun reclaim_loop :: "PageTableIndex list \<Rightarrow> PhysFrame list \<Rightarrow> usize list \<Rightarrow> unit table_action" where
  "reclaim_loop page_indices tables [] = sreturn ()"
| "reclaim_loop page_indices tables (table_level # levels) =
     (let table = tables ! table_level; parent = tables ! (table_level - 1);
          parent_index = page_indices ! (table_level - 1) in
      sbind (sget (\<lambda>s. position (\<lambda>a. pa_start a = table) (rpt_tables (tm_self s)))) (\<lambda>found.
      case found of
        None \<Rightarrow> sreturn ()
      | Some i \<Rightarrow>
          sbind (table_is_filled table 0) (\<lambda>filled.
          if \<not> filled then sreturn ()
          else
            sbind (read_entry parent parent_index) (\<lambda>old_parent.
            if \<not> PageTableEntry_is_table old_parent \<or> PageTableEntry_frame old_parent \<noteq> Some table
            then sfail (InvalidTableEntry (table_level - 1))
            else
              sseq (write_entry parent parent_index 0)
              (sseq (smodify (\<lambda>s.
                  s\<lparr>tm_self := (tm_self s)\<lparr>rpt_tables := vec_swap_remove i (rpt_tables (tm_self s))\<rparr>,
                    tm_retired := tm_retired s @ [rpt_tables (tm_self s) ! i]\<rparr>))
                (reclaim_loop page_indices tables levels))))))"

definition imp_reclaim_empty_tables :: "VirtPage \<Rightarrow> unit table_action" where
  "imp_reclaim_empty_tables page =
     sbind (slift (ok_or (indices (vp_start page)) InvalidVirtualAddress)) (\<lambda>page_indices.
     sbind (sget (\<lambda>s. rpt_root (tm_self s))) (\<lambda>root.
     sbind (reclaim_walk page_indices [0..<LEVELS - 1] root [root]) (\<lambda>tables.
     case tables of
       None \<Rightarrow> sreturn ()
     | Some tables \<Rightarrow> reclaim_loop page_indices tables (rev [1..<LEVELS]))))"

section \<open>User roots\<close>

definition copy_kernel_entry :: "PhysFrame \<Rightarrow> PhysFrame \<Rightarrow> usize \<Rightarrow> unit table_action" where
  "copy_kernel_entry root kernel_root index =
     sbind (read_entry kernel_root index) (\<lambda>raw. write_entry root index raw)"

definition imp_synchronize_kernel_mappings :: "PhysFrame \<Rightarrow> PhysFrame \<Rightarrow> unit table_action" where
  "imp_synchronize_kernel_mappings root kernel_root =
     sforeach (copy_kernel_entry root kernel_root) [ENTRIES_PER_TABLE div 2..<ENTRIES_PER_TABLE]"

definition imp_retire_all_private_tables :: "unit table_action" where
  "imp_retire_all_private_tables =
     sbind (sget (\<lambda>s. rpt_root (tm_self s))) (\<lambda>root.
     sseq (sforeach (\<lambda>index. write_entry root index 0) [0..<ENTRIES_PER_TABLE div 2])
       (smodify (\<lambda>s.
          s\<lparr>tm_self := (tm_self s)\<lparr>rpt_tables := []\<rparr>, tm_retired := tm_retired s @ rpt_tables (tm_self s)\<rparr>)))"

text \<open>The counter of borrowers is an atomic that wraps around.\<close>

definition borrow_shared_kernel_root :: "unit table_action" where
  "borrow_shared_kernel_root = smodify (\<lambda>s. s\<lparr>tm_borrowers := (tm_borrowers s + 1) mod 2 ^ 64\<rparr>)"

definition release_shared_kernel_root :: "unit table_action" where
  "release_shared_kernel_root =
     sbind (sget tm_borrowers) (\<lambda>old.
     sseq (smodify (\<lambda>s. s\<lparr>tm_borrowers := (old + (2 ^ 64 - 1)) mod 2 ^ 64\<rparr>))
       (if old = 0 then spanic else sreturn ()))"

definition RuntimePageTable_new_user :: "RuntimePageTable \<Rightarrow> RuntimePageTable table_action" where
  "RuntimePageTable_new_user kernel_table =
     (if rpt_owner kernel_table \<noteq> None then sfail KernelRootRequired
      else
        sbind allocate_zeroed_table (\<lambda>owner.
        let root = pa_start owner in
        sseq (scatch (imp_synchronize_kernel_mappings root (rpt_root kernel_table))
                (\<lambda>error. sseq (free_table owner) (sfail error)))
        (sseq borrow_shared_kernel_root
          (sreturn \<lparr>rpt_root = root, rpt_tables = [], rpt_owner = Some owner\<rparr>))))"

definition RuntimePageTable_synchronize_kernel_mappings :: "RuntimePageTable \<Rightarrow> unit table_action" where
  "RuntimePageTable_synchronize_kernel_mappings kernel_table =
     sbind (sget tm_self) (\<lambda>self.
     if rpt_owner self = None then sfail OwnedRootRequired
     else if rpt_owner kernel_table \<noteq> None then sfail KernelRootRequired
     else imp_synchronize_kernel_mappings (rpt_root self) (rpt_root kernel_table))"

definition RuntimePageTable_release_empty :: "unit table_action" where
  "RuntimePageTable_release_empty =
     sbind (sget tm_self) (\<lambda>self.
     if length (rpt_tables self) \<noteq> 0 then sfail OwnedTablesRemain
     else
       sbind (slift (ok_or (rpt_owner self) OwnedRootRequired)) (\<lambda>owner.
       sseq (smodify (\<lambda>s. s\<lparr>tm_self := (tm_self s)\<lparr>rpt_owner := None\<rparr>\<rparr>))
       (sseq (free_table owner) release_shared_kernel_root)))"

definition ensure_mutable_page :: "VirtPage \<Rightarrow> unit table_action" where
  "ensure_mutable_page page =
     sbind (sget tm_self) (\<lambda>self.
     if rpt_owner self \<noteq> None \<and> \<not> VirtRange_contains USER_RANGE (vp_start page)
     then sfail KernelMappingMutationDenied else sreturn ())"

definition RuntimePageTable_map_page :: "bool \<Rightarrow> VirtPage \<Rightarrow> PhysFrame \<Rightarrow> MappingOptions \<Rightarrow> unit table_action" where
  "RuntimePageTable_map_page reserve_ok page frame options =
     sseq (ensure_mutable_page page) (imp_map_page reserve_ok page frame options)"

definition RuntimePageTable_protect_page :: "VirtPage \<Rightarrow> MappingOptions \<Rightarrow> unit table_action" where
  "RuntimePageTable_protect_page page options =
     sseq (ensure_mutable_page page) (imp_protect_page page options)"

definition RuntimePageTable_replace_page :: "VirtPage \<Rightarrow> PhysFrame \<Rightarrow> MappingOptions \<Rightarrow> PhysFrame table_action" where
  "RuntimePageTable_replace_page page frame options =
     sseq (ensure_mutable_page page) (imp_replace_page page frame options)"

definition RuntimePageTable_unmap_page :: "VirtPage \<Rightarrow> PhysFrame table_action" where
  "RuntimePageTable_unmap_page page =
     sseq (ensure_mutable_page page) (imp_unmap_page page)"

definition RuntimePageTable_reclaim_empty_tables :: "VirtPage \<Rightarrow> unit table_action" where
  "RuntimePageTable_reclaim_empty_tables page =
     sseq (ensure_mutable_page page)
     (sbind (sget (\<lambda>s. (rpt_owner (tm_self s), tm_borrowers s))) (\<lambda>(owner, borrowers).
      if owner = None \<and> borrowers \<noteq> 0 \<and> \<not> VirtRange_contains USER_RANGE (vp_start page) then sreturn ()
      else imp_reclaim_empty_tables page))"

end
