(* ===== verification/Table_Tree.thy ===== *)
theory Table_Tree
  imports Runtime_Page_Table
begin

text \<open>
  The tree that the entries of a page table form in memory: which table a path of indices leads to, what a store into
  a leaf table does to the mappings, and what grafting new tables onto an empty entry does.
\<close>

type_synonym memory = "PhysAddr \<Rightarrow> 64 word"

section \<open>Cells\<close>

definition ent :: "memory \<Rightarrow> PhysAddr \<Rightarrow> nat \<Rightarrow> 64 word" where
  "ent m t i = m (t + 8 * i)"

definition table_ok :: "PhysAddr \<Rightarrow> bool" where
  "table_ok t \<longleftrightarrow> PAGE_SIZE dvd t \<and> t + PAGE_SIZE \<le> 2 ^ 37"

lemma cell_page: "PAGE_SIZE dvd t \<Longrightarrow> i < 512 \<Longrightarrow> (t + 8 * i) div PAGE_SIZE = t div PAGE_SIZE"
  by (auto simp: PAGE_SIZE_eq elim!: dvdE)

lemma cell_inj:
  assumes "PAGE_SIZE dvd t" "PAGE_SIZE dvd u" "i < 512" "j < 512" "t + 8 * i = u + 8 * j"
  shows "t = u \<and> i = j"
proof -
  have "t div PAGE_SIZE = u div PAGE_SIZE" using cell_page assms by metis
  then have "t = u" using assms(1,2) by (metis dvd_div_mult_self)
  with assms(5) show ?thesis by simp
qed

lemma ent_update:
  "PAGE_SIZE dvd t \<Longrightarrow> PAGE_SIZE dvd u \<Longrightarrow> i < 512 \<Longrightarrow> j < 512 \<Longrightarrow>
   ent (m(t + 8 * i := v)) u j = (if u = t \<and> j = i then v else ent m u j)"
  using cell_inj [of u t j i] by (auto simp: ent_def)

section \<open>Nodes\<close>

definition sub_table :: "memory \<Rightarrow> PhysAddr \<Rightarrow> nat \<Rightarrow> PhysAddr option" where
  "sub_table m t i =
     (if PageTableEntry_is_table (ent m t i) then map_option pf_start (PageTableEntry_frame (ent m t i)) else None)"

fun node :: "memory \<Rightarrow> PhysAddr \<Rightarrow> nat list \<Rightarrow> PhysAddr option" where
  "node m t [] = Some t"
| "node m t (i # is) = (case sub_table m t i of None \<Rightarrow> None | Some u \<Rightarrow> node m u is)"

text \<open>Paths to tables: at most two indices, each in range.\<close>

definition path :: "nat list \<Rightarrow> bool" where
  "path p \<longleftrightarrow> length p \<le> 2 \<and> (\<forall>i \<in> set p. i < 512)"

definition tables :: "memory \<Rightarrow> PhysAddr \<Rightarrow> PhysAddr set" where
  "tables m r = {t. \<exists>p. path p \<and> node m r p = Some t}"

definition tree :: "memory \<Rightarrow> PhysAddr \<Rightarrow> bool" where
  "tree m r \<longleftrightarrow> (\<forall>t \<in> tables m r. table_ok t)
     \<and> (\<forall>p q. path p \<and> path q \<and> node m r p \<noteq> None \<and> node m r p = node m r q \<longrightarrow> p = q)"

text \<open>The leaf entry of the page with the given indices; zero when the page is not mapped.\<close>

definition leaf_at :: "memory \<Rightarrow> PhysAddr \<Rightarrow> nat \<Rightarrow> nat \<Rightarrow> nat \<Rightarrow> 64 word" where
  "leaf_at m r i j k = (case node m r [i, j] of None \<Rightarrow> 0 | Some t \<Rightarrow> ent m t k)"

lemma node_append: "node m t (p @ q) = (case node m t p of None \<Rightarrow> None | Some u \<Rightarrow> node m u q)"
  by (induction p arbitrary: t) (auto split: option.splits)

lemma path_simps [simp]: "path []" "path [i] \<longleftrightarrow> i < 512" "path [i, j] \<longleftrightarrow> i < 512 \<and> j < 512"
  by (auto simp: path_def)

lemma path_prefix: "path (p @ q) \<Longrightarrow> path p"
  by (auto simp: path_def)

lemma tablesI: "path p \<Longrightarrow> node m r p = Some t \<Longrightarrow> t \<in> tables m r"
  by (auto simp: tables_def)

lemma root_table [simp]: "r \<in> tables m r"
  by (rule tablesI [of "[]"]) auto

lemma tree_ok: "tree m r \<Longrightarrow> t \<in> tables m r \<Longrightarrow> table_ok t"
  by (auto simp: tree_def)

lemma tree_dvd: "tree m r \<Longrightarrow> t \<in> tables m r \<Longrightarrow> PAGE_SIZE dvd t"
  by (auto simp: tree_def table_ok_def)

lemma tree_inj: "tree m r \<Longrightarrow> path p \<Longrightarrow> path q \<Longrightarrow> node m r p = Some t \<Longrightarrow> node m r q = Some t \<Longrightarrow> p = q"
  by (auto simp: tree_def)

text \<open>A path leads to the same table when the entries along it are the same.\<close>

lemma node_cong:
  assumes "\<And>q i rest t. p = q @ i # rest \<Longrightarrow> node m r q = Some t \<Longrightarrow> ent m' t i = ent m t i"
  shows "node m' r p = node m r p"
  using assms
proof (induction p arbitrary: r)
  case (Cons i p)
  have e: "ent m' r i = ent m r i" using Cons.prems [of "[]" i p r] by simp
  then have s: "sub_table m' r i = sub_table m r i" by (simp add: sub_table_def)
  show ?case
  proof (cases "sub_table m r i")
    case (Some u)
    have "node m' u p = node m u p"
    proof (rule Cons.IH)
      fix q j rest t
      assume "p = q @ j # rest" "node m u q = Some t"
      then show "ent m' t j = ent m t j" using Cons.prems [of "i # q" j rest t] Some by simp
    qed
    with Some s show ?thesis by simp
  qed (simp add: s)
qed simp

lemma tree_same:
  assumes "\<And>p. path p \<Longrightarrow> node m' r p = node m r p"
  shows "tables m' r = tables m r" "tree m' r = tree m r"
proof -
  show t: "tables m' r = tables m r" using assms by (auto simp: tables_def)
  show "tree m' r = tree m r" unfolding tree_def t by (simp add: assms cong: conj_cong)
qed

section \<open>Stores into a leaf table\<close>

lemma leaf_store_node:
  assumes "tree m r" "node m r [i, j] = Some t" "i < 512" "j < 512" "k < 512" "path p"
  shows "node (m(t + 8 * k := v)) r p = node m r p"
proof (rule node_cong)
  fix q a rest u
  assume p: "p = q @ a # rest" and u: "node m r q = Some u"
  have pq: "path q" "a < 512" "length q < 2" using assms(6) by (auto simp: p path_def)
  have "u \<noteq> t" using tree_inj [OF assms(1) pq(1), of "[i, j]" t] assms(2,3,4) pq(3) u by auto
  moreover have "PAGE_SIZE dvd u" "PAGE_SIZE dvd t"
    using tree_dvd [OF assms(1)] tablesI [OF pq(1) u] tablesI [of "[i, j]" m r t] assms by auto
  ultimately show "ent (m(t + 8 * k := v)) u a = ent m u a" using assms(5) pq(2) by (simp add: ent_update)
qed

lemma leaf_store:
  assumes "tree m r" "node m r [i, j] = Some t" "i < 512" "j < 512" "k < 512"
  shows "tree (m(t + 8 * k := v)) r" "tables (m(t + 8 * k := v)) r = tables m r"
    "\<And>i' j' k'. i' < 512 \<Longrightarrow> j' < 512 \<Longrightarrow> k' < 512 \<Longrightarrow>
      leaf_at (m(t + 8 * k := v)) r i' j' k' = (if i' = i \<and> j' = j \<and> k' = k then v else leaf_at m r i' j' k')"
proof -
  let ?m = "m(t + 8 * k := v)"
  note same = leaf_store_node [OF assms(1-5), where v = v]
  show "tables ?m r = tables m r" "tree ?m r" using tree_same [OF same] assms(1) by auto
  fix i' j' k' :: nat
  assume lt: "i' < 512" "j' < 512" "k' < 512"
  show "leaf_at ?m r i' j' k' = (if i' = i \<and> j' = j \<and> k' = k then v else leaf_at m r i' j' k')"
  proof (cases "node m r [i', j']")
    case (Some u)
    have dvd: "PAGE_SIZE dvd u" "PAGE_SIZE dvd t"
      using tree_dvd [OF assms(1)] tablesI [OF _ Some] tablesI [OF _ assms(2)] assms lt by auto
    have "u = t \<longleftrightarrow> i' = i \<and> j' = j"
      using tree_inj [OF assms(1), of "[i', j']" "[i, j]" t] Some assms lt by auto
    then show ?thesis
      using Some same [of "[i', j']"] lt assms(2,5) by (auto simp: leaf_at_def ent_update [OF dvd(2,1)])
  next
    case None
    then have "\<not> (i' = i \<and> j' = j)" using assms(2) by auto
    with None same [of "[i', j']"] lt show ?thesis by (auto simp: leaf_at_def)
  qed
qed

section \<open>Grafting new tables onto an empty entry\<close>

text \<open>
  The entry \<open>i\<close> of the table at the path \<open>q\<close> is empty in \<open>m\<close> and points to the new table \<open>t\<close> in \<open>m'\<close>; every other entry
  of an existing table is the same.
\<close>

definition grafted :: "memory \<Rightarrow> PhysAddr \<Rightarrow> nat list \<Rightarrow> PhysAddr \<Rightarrow> nat \<Rightarrow> memory \<Rightarrow> PhysAddr \<Rightarrow> bool" where
  "grafted m r q u i m' t \<longleftrightarrow> tree m r \<and> path q \<and> length q < 2 \<and> i < 512 \<and> node m r q = Some u \<and> ent m u i = 0
     \<and> (\<forall>x \<in> tables m r. \<forall>a < 512. \<not> (x = u \<and> a = i) \<longrightarrow> ent m' x a = ent m x a)
     \<and> sub_table m' u i = Some t"

lemma empty_entry: "ent m u i = 0 \<Longrightarrow> sub_table m u i = None"
  by (simp add: sub_table_def PageTableEntry_is_table_def PageTableEntry_is_valid_def)

lemma graft_node:
  assumes "grafted m r q u i m' t" "path p"
  shows "\<And>rest. p = q @ i # rest \<Longrightarrow> node m' r p = node m' t rest"
    and "(\<nexists>rest. p = q @ i # rest) \<Longrightarrow> node m' r p = node m r p"
proof -
  note g = assms(1) [unfolded grafted_def]
  have inj: "path q' \<Longrightarrow> node m r q' = Some u \<Longrightarrow> q' = q" for q' using g tree_inj [of m r q' q u] by auto
  have same: "ent m' x a = ent m x a"
    if "node m r q' = Some x" "path q'" "a < 512" "q' \<noteq> q \<or> a \<noteq> i" for q' x a
    using that g inj [OF that(2)] tablesI [OF that(2,1)] by auto
  show "node m' r p = node m' t rest" if "p = q @ i # rest" for rest
  proof -
    have "node m' r q = node m r q"
      by (rule node_cong, rule same) (use g in \<open>auto simp: path_def\<close>)
    with g that show ?thesis by (simp add: node_append)
  qed
  show "node m' r p = node m r p" if "\<nexists>rest. p = q @ i # rest"
    by (rule node_cong, rule same) (use assms(2) that in \<open>auto simp: path_def\<close>)
qed

lemma graft_tree:
  assumes g: "grafted m r q u i m' t"
    and new: "\<And>rest x. path (q @ i # rest) \<Longrightarrow> node m' t rest = Some x \<Longrightarrow> table_ok x \<and> x \<notin> tables m r"
    and inj: "\<And>rest rest' x. path (q @ i # rest) \<Longrightarrow> path (q @ i # rest') \<Longrightarrow>
      node m' t rest = Some x \<Longrightarrow> node m' t rest' = Some x \<Longrightarrow> rest = rest'"
  shows "tree m' r" "tables m' r = tables m r \<union> {x. \<exists>rest. path (q @ i # rest) \<and> node m' t rest = Some x}"
    "\<And>p x. path p \<Longrightarrow> node m' r p = Some x \<Longrightarrow> node m r p = Some x \<or> (\<exists>rest. path (q @ i # rest) \<and> node m' t rest = Some x)"
proof -
  note d = g [unfolded grafted_def]
  have none: "node m r (q @ i # rest) = None" for rest using d by (simp add: node_append empty_entry)
  note nd = graft_node [OF g]
  have cases: "(\<exists>rest. p = q @ i # rest \<and> node m' t rest = Some x) \<or> (\<nexists>rest. p = q @ i # rest) \<and> node m r p = Some x"
    if "path p" "node m' r p = Some x" for p x
    using that nd [OF that(1)] by metis
  show "node m r p = Some x \<or> (\<exists>rest. path (q @ i # rest) \<and> node m' t rest = Some x)"
    if "path p" "node m' r p = Some x" for p x using cases [OF that] that(1) by blast
  show tab: "tables m' r = tables m r \<union> {x. \<exists>rest. path (q @ i # rest) \<and> node m' t rest = Some x}"
  proof (intro equalityI subsetI)
    fix x
    assume "x \<in> tables m' r"
    then obtain p where "path p" "node m' r p = Some x" by (auto simp: tables_def)
    with cases [OF this] show "x \<in> tables m r \<union> {x. \<exists>rest. path (q @ i # rest) \<and> node m' t rest = Some x}"
      by (auto intro: tablesI)
  next
    fix x
    assume "x \<in> tables m r \<union> {x. \<exists>rest. path (q @ i # rest) \<and> node m' t rest = Some x}"
    then show "x \<in> tables m' r"
    proof
      assume "x \<in> tables m r"
      then obtain p where p: "path p" "node m r p = Some x" by (auto simp: tables_def)
      then have "\<nexists>rest. p = q @ i # rest" using none by auto
      then show ?thesis using nd(2) [OF p(1)] p by (auto intro: tablesI)
    qed (use nd(1) in \<open>auto intro: tablesI\<close>)
  qed
  show "tree m' r"
    unfolding tree_def
  proof (intro conjI ballI allI impI)
    show "table_ok x" if "x \<in> tables m' r" for x using that new d tree_ok unfolding tab by blast
  next
    fix p p'
    assume "path p \<and> path p' \<and> node m' r p \<noteq> None \<and> node m' r p = node m' r p'"
    then obtain x where p: "path p" "path p'" "node m' r p = Some x" "node m' r p' = Some x" by fastforce
    from cases [OF p(1,3)] cases [OF p(2,4)] show "p = p'"
      using p(1,2) inj new tablesI tree_inj [of m r p p' x] d by (metis append_Nil2)
  qed
qed

lemma graft_leaf:
  assumes g: "grafted m r q u i m' t" and lt: "a < 512" "b < 512" "c < 512"
  shows "\<And>rest. [a, b] = q @ i # rest \<Longrightarrow> leaf_at m' r a b c = (case node m' t rest of None \<Rightarrow> 0 | Some x \<Rightarrow> ent m' x c)"
    and "(\<nexists>rest. [a, b] = q @ i # rest) \<Longrightarrow> leaf_at m' r a b c = leaf_at m r a b c"
proof -
  note d = g [unfolded grafted_def]
  have p: "path [a, b]" using lt by simp
  show "leaf_at m' r a b c = (case node m' t rest of None \<Rightarrow> 0 | Some x \<Rightarrow> ent m' x c)" if "[a, b] = q @ i # rest" for rest
    using graft_node(1) [OF g p that] by (simp add: leaf_at_def)
  show "leaf_at m' r a b c = leaf_at m r a b c" if no: "\<nexists>rest. [a, b] = q @ i # rest"
  proof (cases "node m r [a, b]")
    case (Some x)
    have "x \<noteq> u" using tree_inj [of m r "[a, b]" q u] d Some p by auto
    then have "ent m' x c = ent m x c" using d tablesI [OF p Some] lt by auto
    with Some graft_node(2) [OF g p no] show ?thesis by (simp add: leaf_at_def)
  qed (use graft_node(2) [OF g p no] in \<open>simp add: leaf_at_def\<close>)
qed

text \<open>Memory outside the tables does not matter.\<close>

lemma tree_agree:
  assumes "\<And>t i. t \<in> tables m r \<Longrightarrow> i < 512 \<Longrightarrow> ent m' t i = ent m t i"
  shows "tables m' r = tables m r" "tree m' r = tree m r"
    "a < 512 \<Longrightarrow> b < 512 \<Longrightarrow> c < 512 \<Longrightarrow> leaf_at m' r a b c = leaf_at m r a b c"
    "\<And>p. path p \<Longrightarrow> node m' r p = node m r p"
proof -
  show same: "node m' r p = node m r p" if "path p" for p
    by (rule node_cong, rule assms) (use that in \<open>auto simp: path_def tables_def intro!: exI\<close>)
  show "tables m' r = tables m r" "tree m' r = tree m r" using tree_same [OF same] by auto
  show "leaf_at m' r a b c = leaf_at m r a b c" if "a < 512" "b < 512" "c < 512"
    using that same [of "[a, b]"] assms [OF tablesI [of "[a, b]"]] by (auto simp: leaf_at_def split: option.splits)
qed

section \<open>Pruning\<close>

text \<open>Clearing an entry removes the tables below it and nothing else.\<close>

lemma prune_node:
  assumes tree: "tree m r" and q: "path q" "length q < 2" "node m r q = Some u" and i: "i < 512" and p: "path p"
  shows "node (m(u + 8 * i := 0)) r p = (if \<exists>rest. p = q @ i # rest then None else node m r p)"
proof -
  let ?m = "m(u + 8 * i := 0)"
  have dvd: "PAGE_SIZE dvd u" using tree_dvd [OF tree tablesI [OF q(1,3)]] .
  have same: "ent ?m x a = ent m x a"
    if "node m r q' = Some x" "path q'" "a < 512" "q' \<noteq> q \<or> a \<noteq> i" for q' x a
    using that tree_inj [OF tree that(2) q(1), of u] q(3) dvd i tree_dvd [OF tree tablesI [OF that(2,1)]] by (auto simp: ent_update)
  show ?thesis
  proof (cases "\<exists>rest. p = q @ i # rest")
    case True
    have "node ?m r q = node m r q" by (rule node_cong, rule same) (use q(1) in \<open>auto simp: path_def\<close>)
    moreover have "sub_table ?m u i = None" using dvd i by (simp add: empty_entry ent_update)
    ultimately show ?thesis using True q(3) by (auto simp: node_append)
  next
    case False
    then show ?thesis by (simp, intro node_cong same) (use p in \<open>auto simp: path_def\<close>)
  qed
qed

lemma prune:
  assumes tree: "tree m r" and q: "path q" "length q < 2" "node m r q = Some u" and i: "i < 512"
    and empty: "\<forall>a b c rest. [a, b] = q @ i # rest \<and> b < 512 \<and> c < 512 \<longrightarrow> leaf_at m r a b c = 0"
  shows "tree (m(u + 8 * i := 0)) r" "tables (m(u + 8 * i := 0)) r \<subseteq> tables m r"
    "sub_table m u i = Some t \<Longrightarrow> t \<notin> tables (m(u + 8 * i := 0)) r"
    "a < 512 \<Longrightarrow> b < 512 \<Longrightarrow> c < 512 \<Longrightarrow> leaf_at (m(u + 8 * i := 0)) r a b c = leaf_at m r a b c"
proof -
  let ?m = "m(u + 8 * i := 0)"
  note node = prune_node [OF tree q i]
  have sub: "node m r p = Some x \<and> (\<nexists>rest. p = q @ i # rest)" if "path p" "node ?m r p = Some x" for p x
    using that by (auto simp: node split: if_splits)
  then show tab: "tables ?m r \<subseteq> tables m r" by (auto simp: tables_def)
  show "tree ?m r"
    unfolding tree_def
  proof (intro conjI ballI allI impI)
    show "table_ok t" if "t \<in> tables ?m r" for t using that tab tree_ok [OF tree] by auto
  next
    fix p p'
    assume "path p \<and> path p' \<and> node ?m r p \<noteq> None \<and> node ?m r p = node ?m r p'"
    then show "p = p'" using sub tree_inj [OF tree, of p p'] by (metis not_Some_eq)
  qed
  show "t \<notin> tables ?m r" if "sub_table m u i = Some t"
  proof
    assume "t \<in> tables ?m r"
    then obtain p where p: "path p" "node ?m r p = Some t" by (auto simp: tables_def)
    moreover have "node m r (q @ [i]) = Some t" using q(3) that by (simp add: node_append)
    moreover have "path (q @ [i])" using q i by (auto simp: path_def)
    ultimately have "p = q @ [i]" using sub [OF p] tree_inj [OF tree p(1)] by blast
    then show False using sub [OF p] by simp
  qed
  show "leaf_at ?m r a b c = leaf_at m r a b c" if lt: "a < 512" "b < 512" "c < 512"
  proof (cases "\<exists>rest. [a, b] = q @ i # rest")
    case True
    then show ?thesis using node [of "[a, b]"] lt empty by (auto simp: leaf_at_def simp del: node.simps)
  next
    case no: False
    then have n: "node ?m r [a, b] = node m r [a, b]" using node [of "[a, b]"] lt by (simp del: node.simps)
    show ?thesis
    proof (cases "node m r [a, b]")
      case (Some x)
      have "path [a, b]" using lt by simp
      then have "x \<noteq> u" "PAGE_SIZE dvd x" using tree_inj [OF tree _ q(1), of "[a, b]" u] q Some tree_dvd [OF tree tablesI [OF _ Some]] by auto
      then have "ent ?m x c = ent m x c" using tree_dvd [OF tree tablesI [OF q(1,3)]] i lt by (simp add: ent_update)
      then show ?thesis using n Some by (simp add: leaf_at_def del: node.simps)
    qed (use n in \<open>simp add: leaf_at_def del: node.simps\<close>)
  qed
qed

section \<open>Reading and writing\<close>

lemma table_frame_ok: "table_ok t \<Longrightarrow> frame_ok \<lparr>pf_start = t\<rparr> \<and> t < 2 ^ 56"
  by (auto simp: table_ok_def frame_ok_def usize_MAX_def)

lemma table_ptr_Ok: "table_ok t \<Longrightarrow> \<exists>v. table_ptr on \<lparr>pf_start = t\<rparr> = Ok v"
  using ram_ptr_is_ok [of t PAGE_SIZE PAGE_SIZE on] by (auto simp: table_ptr_def table_ok_def PAGE_SIZE_eq)

lemma read_entry_Ok:
  assumes "table_ok t" "i < 512"
  shows "read_entry \<lparr>pf_start = t\<rparr> i s = (Ok (ent (mc_memory s) t i), s)"
proof -
  obtain v where "table_ptr (mc_translation s) \<lparr>pf_start = t\<rparr> = Ok v" using table_ptr_Ok [OF assms(1)] by blast
  with assms(2) show ?thesis
    by (simp add: read_entry_def sread_def RawPageTable_entry_def table_at_def ENTRIES_PER_TABLE_def ent_def)
qed

lemma write_entry_Ok:
  assumes "table_ok t" "i < 512"
  shows "write_entry \<lparr>pf_start = t\<rparr> i v s = (Ok (), s\<lparr>mc_memory := (mc_memory s)(t + 8 * i := v)\<rparr>)"
proof -
  obtain u where "table_ptr (mc_translation s) \<lparr>pf_start = t\<rparr> = Ok u" using table_ptr_Ok [OF assms(1)] by blast
  with assms(2) show ?thesis by (simp add: write_entry_def sbind_def sread_def smodify_def ENTRIES_PER_TABLE_def)
qed

text \<open>The cell store is the store of the raw table.\<close>

lemma table_at_store:
  assumes "PAGE_SIZE dvd pf_start f" "i < 512"
  shows "table_at (m(pf_start f + 8 * i := v)) f = snd (RawPageTable_set_entry i v (table_at m f))"
  using assms by (auto simp: table_at_def RawPageTable_set_entry_def ENTRIES_PER_TABLE_def intro!: nth_equalityI simp: nth_list_update)

lemma pte_frame_Some:
  assumes "PageTableEntry_is_valid e"
  shows "PageTableEntry_frame e = Some \<lparr>pf_start = PageTableEntry_physical_address e\<rparr>"
proof -
  have "PAGE_SIZE dvd PageTableEntry_physical_address e"
    by (simp add: PageTableEntry_physical_address_def Let_def PAGE_SIZE_def push_bit_eq_mult)
  with assms show ?thesis
    by (simp add: PageTableEntry_frame_def PhysFrame_from_start_address_def PhysAddr_is_aligned_iff)
qed

lemma next_table_cases:
  "(\<exists>u. next_table l (ent m t i) = Ok \<lparr>pf_start = u\<rparr> \<and> sub_table m t i = Some u)
   \<or> (\<exists>e. next_table l (ent m t i) = Err e) \<and> sub_table m t i = None"
  by (auto simp: next_table_def sub_table_def PageTableEntry_is_leaf_def PageTableEntry_is_table_def pte_frame_Some)

end
