(* ===== verification/Page_Table_Ops.thy ===== *)
theory Page_Table_Ops
  imports Table_Tree
begin

text \<open>
  What the operations on runtime page tables do: the invariant that ties the tree of tables to the page allocator,
  and the effect of mapping, unmapping, protecting, replacing and translating on the entries of every page.
\<close>

section \<open>Grafting a chain of one or two tables\<close>

lemma graft_one:
  assumes "tree m r" "node m r [i] = Some u" "ent m u j = 0" "i < 512" "j < 512" "table_ok t" "t \<notin> tables m r"
    and keep: "\<And>x a. x \<in> tables m r \<Longrightarrow> a < 512 \<Longrightarrow> \<not> (x = u \<and> a = j) \<Longrightarrow> ent m' x a = ent m x a"
    and sub: "sub_table m' u j = Some t" and new: "\<And>c. c < 512 \<Longrightarrow> ent m' t c = (if c = k then v else 0)"
  shows "tree m' r" "tables m' r = insert t (tables m r)"
    "\<And>a b c. a < 512 \<Longrightarrow> b < 512 \<Longrightarrow> c < 512 \<Longrightarrow>
      leaf_at m' r a b c = (if a = i \<and> b = j \<and> c = k then v else leaf_at m r a b c)"
    "\<And>p x. path p \<Longrightarrow> node m' r p = Some x \<Longrightarrow> node m r p = Some x \<or> x = t"
proof -
  have g: "grafted m r [i] u j m' t" using assms by (auto simp: grafted_def)
  have p: "path ([i] @ j # rest) \<longleftrightarrow> rest = []" for rest using assms(4,5) by (auto simp: path_def)
  note gt = graft_tree [OF g]
  show "tree m' r" by (rule gt) (use assms(6,7) p in auto)
  have "tables m' r = tables m r \<union> {x. \<exists>rest. path ([i] @ j # rest) \<and> node m' t rest = Some x}"
    by (rule gt) (use assms(6,7) p in auto)
  then show "tables m' r = insert t (tables m r)" unfolding p by auto
  have "node m r p = Some x \<or> (\<exists>rest. path ([i] @ j # rest) \<and> node m' t rest = Some x)"
    if "path p" "node m' r p = Some x" for p x
    by (rule gt(3) [OF _ _ that]) (use assms(6,7) p in auto)
  then show "node m r p = Some x \<or> x = t" if "path p" "node m' r p = Some x" for p x
    using that unfolding p by fastforce
  fix a b c :: nat
  assume lt: "a < 512" "b < 512" "c < 512"
  have old: "leaf_at m r i j c = 0" using assms(2,3) by (auto simp: leaf_at_def empty_entry split: option.splits)
  show "leaf_at m' r a b c = (if a = i \<and> b = j \<and> c = k then v else leaf_at m r a b c)"
  proof (cases "a = i \<and> b = j")
    case True
    with graft_leaf(1) [OF g lt, of "[]"] old new lt show ?thesis by simp
  next
    case False
    with graft_leaf(2) [OF g lt] show ?thesis by auto
  qed
qed

lemma graft_two:
  assumes "tree m r" "ent m r i = 0" "i < 512" "j < 512" "table_ok t1" "t1 \<notin> tables m r"
    and t2: "table_ok t2" "t2 \<notin> tables m r" "t1 \<noteq> t2"
    and keep: "\<And>x a. x \<in> tables m r \<Longrightarrow> a < 512 \<Longrightarrow> \<not> (x = r \<and> a = i) \<Longrightarrow> ent m' x a = ent m x a"
    and sub: "sub_table m' r i = Some t1" "sub_table m' t1 j = Some t2"
    and new: "\<And>b. b < 512 \<Longrightarrow> b \<noteq> j \<Longrightarrow> ent m' t1 b = 0" "\<And>c. c < 512 \<Longrightarrow> ent m' t2 c = (if c = k then v else 0)"
  shows "tree m' r" "tables m' r = {t1, t2} \<union> tables m r"
    "\<And>a b c. a < 512 \<Longrightarrow> b < 512 \<Longrightarrow> c < 512 \<Longrightarrow>
      leaf_at m' r a b c = (if a = i \<and> b = j \<and> c = k then v else leaf_at m r a b c)"
    "\<And>p x. path p \<Longrightarrow> node m' r p = Some x \<Longrightarrow> node m r p = Some x \<or> x = t1 \<or> x = t2"
proof -
  have g: "grafted m r [] r i m' t1" using assms by (auto simp: grafted_def)
  have p: "path ([] @ i # rest) \<longleftrightarrow> rest = [] \<or> (\<exists>b < 512. rest = [b])" for rest
    using assms(3) by (cases rest; cases "tl rest") (auto simp: path_def)
  have below: "node m' t1 [b] = (if b = j then Some t2 else None)" if "b < 512" for b
    using that sub(2) new(1) by (simp add: empty_entry)
  have n: "(\<exists>rest. path ([] @ i # rest) \<and> node m' t1 rest = Some x) \<longleftrightarrow> x = t1 \<or> x = t2" for x
  proof
    assume "\<exists>rest. path ([] @ i # rest) \<and> node m' t1 rest = Some x"
    then show "x = t1 \<or> x = t2" unfolding p using below by (auto simp del: node.simps(2) split: if_splits)
  next
    have "node m' t1 [] = Some t1" "node m' t1 [j] = Some t2" using below [OF assms(4)] by auto
    moreover assume "x = t1 \<or> x = t2"
    ultimately show "\<exists>rest. path ([] @ i # rest) \<and> node m' t1 rest = Some x" unfolding p using assms(4) by blast
  qed
  have ok: "table_ok x \<and> x \<notin> tables m r" if "path ([] @ i # rest)" "node m' t1 rest = Some x" for rest x
    using n [of x] that assms(5,6) t2 by blast
  have inj: "rest = rest'" if "path ([] @ i # rest)" "path ([] @ i # rest')" "node m' t1 rest = Some x" "node m' t1 rest' = Some x"
    for rest rest' x
  proof -
    have f: "rest = (if x = t1 then [] else [j])" if "path ([] @ i # rest)" "node m' t1 rest = Some x" for rest
      using that t2(3) below unfolding p by (auto simp del: node.simps(2) split: if_splits)
    from f [OF that(1,3)] f [OF that(2,4)] show ?thesis by simp
  qed
  note gt = graft_tree [OF g ok inj]
  show "tree m' r" by (rule gt)
  show "tables m' r = {t1, t2} \<union> tables m r" using gt(2) unfolding n by auto
  show "node m r p = Some x \<or> x = t1 \<or> x = t2" if "path p" "node m' r p = Some x" for p x
  proof -
    have "node m r p = Some x \<or> (\<exists>rest. path ([] @ i # rest) \<and> node m' t1 rest = Some x)"
      by (rule graft_tree(3) [OF g]) (use ok inj that in \<open>blast+\<close>)
    then show ?thesis unfolding n .
  qed
  fix a b c :: nat
  assume lt: "a < 512" "b < 512" "c < 512"
  have old: "leaf_at m r i b c = 0" using assms(2) by (simp add: leaf_at_def empty_entry)
  show "leaf_at m' r a b c = (if a = i \<and> b = j \<and> c = k then v else leaf_at m r a b c)"
  proof (cases "a = i")
    case True
    with graft_leaf(1) [OF g lt, of "[b]"] below [OF lt(2)] old new lt show ?thesis by (simp del: node.simps(2))
  next
    case False
    with graft_leaf(2) [OF g lt] show ?thesis by auto
  qed
qed

definition links :: "64 word \<Rightarrow> PhysAddr \<Rightarrow> bool" where
  "links e t \<longleftrightarrow> PageTableEntry_is_table e \<and> PageTableEntry_frame e = Some \<lparr>pf_start = t\<rparr>"

lemma links_sub: "links e t \<Longrightarrow> ent m u i = e \<Longrightarrow> sub_table m u i = Some t"
  by (simp add: links_def sub_table_def)

text \<open>The stores that link new tables which are still empty.\<close>

lemma store_one:
  fixes v :: "64 word"
  assumes tree: "tree m0 r" and u: "node m0 r [i] = Some u" "ent m0 u j = 0" and lt: "i < 512" "j < 512" "k < 512"
    and t: "table_ok t" "t \<notin> tables m0 r"
    and kept: "\<And>x a. x \<in> tables m0 r \<Longrightarrow> a < 512 \<Longrightarrow> ent m x a = ent m0 x a"
    and zero: "\<And>c. c < 512 \<Longrightarrow> ent m t c = 0"
    and e: "links e t"
  defines "m' \<equiv> m(t + 8 * k := v, u + 8 * j := e)"
  shows "tree m' r" "tables m' r = insert t (tables m0 r)"
    "\<And>a b c. a < 512 \<Longrightarrow> b < 512 \<Longrightarrow> c < 512 \<Longrightarrow>
      leaf_at m' r a b c = (if a = i \<and> b = j \<and> c = k then v else leaf_at m0 r a b c)"
    "\<And>p x. path p \<Longrightarrow> node m' r p = Some x \<Longrightarrow> node m0 r p = Some x \<or> x = t"
proof -
  have ut: "u \<in> tables m0 r" using tablesI [OF _ u(1)] lt by simp
  have dvd: "PAGE_SIZE dvd t" "PAGE_SIZE dvd u" "t \<noteq> u" using t tree_dvd [OF tree ut] ut by (auto simp: table_ok_def)
  have keep: "ent m' x a = ent m0 x a" if "x \<in> tables m0 r" "a < 512" "\<not> (x = u \<and> a = j)" for x a
    using that t(2) lt dvd tree_dvd [OF tree that(1)] kept by (auto simp: m'_def ent_update)
  have new: "ent m' t c = (if c = k then v else 0)" if "c < 512" for c
    using that lt dvd zero by (simp add: m'_def ent_update)
  have sub: "sub_table m' u j = Some t" by (rule links_sub [OF e]) (use lt dvd in \<open>simp add: m'_def ent_update\<close>)
  note g = graft_one [OF tree u lt(1,2) t keep sub new]
  show "tree m' r" "tables m' r = insert t (tables m0 r)"
    "\<And>a b c. a < 512 \<Longrightarrow> b < 512 \<Longrightarrow> c < 512 \<Longrightarrow>
      leaf_at m' r a b c = (if a = i \<and> b = j \<and> c = k then v else leaf_at m0 r a b c)"
    "\<And>p x. path p \<Longrightarrow> node m' r p = Some x \<Longrightarrow> node m0 r p = Some x \<or> x = t"
    by (rule g; assumption)+
qed

lemma store_two:
  fixes v :: "64 word"
  assumes tree: "tree m0 r" and u: "ent m0 r i = 0" and lt: "i < 512" "j < 512" "k < 512"
    and t: "table_ok t1" "t1 \<notin> tables m0 r" "table_ok t2" "t2 \<notin> tables m0 r" "t1 \<noteq> t2"
    and kept: "\<And>x a. x \<in> tables m0 r \<Longrightarrow> a < 512 \<Longrightarrow> ent m x a = ent m0 x a"
    and zero: "\<And>c. c < 512 \<Longrightarrow> ent m t1 c = 0" "\<And>c. c < 512 \<Longrightarrow> ent m t2 c = 0"
    and e: "links e1 t1" "links e2 t2"
  defines "m' \<equiv> m(t2 + 8 * k := v, t1 + 8 * j := e2, r + 8 * i := e1)"
  shows "tree m' r" "tables m' r = {t1, t2} \<union> tables m0 r"
    "\<And>a b c. a < 512 \<Longrightarrow> b < 512 \<Longrightarrow> c < 512 \<Longrightarrow>
      leaf_at m' r a b c = (if a = i \<and> b = j \<and> c = k then v else leaf_at m0 r a b c)"
    "\<And>p x. path p \<Longrightarrow> node m' r p = Some x \<Longrightarrow> node m0 r p = Some x \<or> x = t1 \<or> x = t2"
proof -
  have dvd: "PAGE_SIZE dvd t1" "PAGE_SIZE dvd t2" "PAGE_SIZE dvd r" "t1 \<noteq> r" "t2 \<noteq> r"
    using t tree_dvd [OF tree, of r] root_table [of r m0] by (auto simp: table_ok_def)
  have keep: "ent m' x a = ent m0 x a" if "x \<in> tables m0 r" "a < 512" "\<not> (x = r \<and> a = i)" for x a
    using that t lt dvd tree_dvd [OF tree that(1)] kept by (auto simp: m'_def ent_update)
  have new: "\<And>b. b < 512 \<Longrightarrow> b \<noteq> j \<Longrightarrow> ent m' t1 b = 0" "\<And>c. c < 512 \<Longrightarrow> ent m' t2 c = (if c = k then v else 0)"
    using t(5) lt dvd zero by (simp_all add: m'_def ent_update)
  have sub: "sub_table m' r i = Some t1" "sub_table m' t1 j = Some t2"
    by (rule links_sub [OF e(1)] links_sub [OF e(2)], use lt dvd t(5) in \<open>simp add: m'_def ent_update\<close>)+
  note g = graft_two [OF tree u lt(1,2) t keep sub new]
  show "tree m' r" "tables m' r = {t1, t2} \<union> tables m0 r"
    "\<And>a b c. a < 512 \<Longrightarrow> b < 512 \<Longrightarrow> c < 512 \<Longrightarrow>
      leaf_at m' r a b c = (if a = i \<and> b = j \<and> c = k then v else leaf_at m0 r a b c)"
    "\<And>p x. path p \<Longrightarrow> node m' r p = Some x \<Longrightarrow> node m0 r p = Some x \<or> x = t1 \<or> x = t2"
    by (rule g; assumption)+
qed

section \<open>The abstract view\<close>

abbreviation root_of :: "table_machine \<Rightarrow> PhysAddr" where
  "root_of s \<equiv> pf_start (rpt_root (tm_self s))"

text \<open>
  The tables form a tree inside the direct map and none of their pages is free in the allocator.
\<close>

definition pt_inv :: "table_machine \<Rightarrow> bool" where
  "pt_inv s \<longleftrightarrow> tree (mc_memory s) (root_of s)
     \<and> (\<exists>b. mc_page_allocator s = Some b \<and> buddy_mapped b
          \<and> (\<forall>t \<in> tables (mc_memory s) (root_of s). \<not> is_free b (t div PAGE_SIZE)))"

text \<open>The abstract state: the entry of every page, zero for a page that is not mapped.\<close>

definition entry_of :: "table_machine \<Rightarrow> VirtPage \<Rightarrow> 64 word" where
  "entry_of s page = (case indices (vp_start page) of
       None \<Rightarrow> 0
     | Some is \<Rightarrow> leaf_at (mc_memory s) (root_of s) (is ! 0) (is ! 1) (is ! 2))"

definition page_ok :: "VirtPage \<Rightarrow> bool" where
  "page_ok page \<longleftrightarrow> PAGE_SIZE dvd vp_start page \<and> vp_start page \<le> usize_MAX"

definition free_pages :: "'z machine_scheme \<Rightarrow> nat set" where
  "free_pages s = {p. \<exists>b. mc_page_allocator s = Some b \<and> is_free b p}"

text \<open>The existing tables on the path to a page.\<close>

definition path_tables :: "table_machine \<Rightarrow> VirtPage \<Rightarrow> PhysAddr set" where
  "path_tables s page = {t. \<exists>is n. indices (vp_start page) = Some is \<and> n \<le> 2
     \<and> node (mc_memory s) (root_of s) (take n is) = Some t}"

lemma indicesE:
  assumes "indices a = Some xs"
  obtains i j k where "xs = [i, j, k]" "i < 512" "j < 512" "k < 512"
  using assms by (auto simp: indices_Some index_of_less)

lemma page_indices_inj:
  assumes "page_ok p" "page_ok q" "indices (vp_start p) = Some xs" "indices (vp_start q) = Some xs"
  shows "p = q"
proof -
  have "vp_start p = vp_start q"
    using indices_inj [OF assms(3,4)] assms(1,2) by (auto simp: page_ok_def PAGE_SIZE_eq mod_eq_0_iff_dvd)
  then show ?thesis by simp
qed

text \<open>Changing one cell of the tree changes one page.\<close>

lemma entry_of_update:
  assumes ix: "indices (vp_start page) = Some [i, j, k]" and ok: "page_ok page" "page_ok q" and r: "root_of s' = root_of s"
    and upd: "\<And>a b c. a < 512 \<Longrightarrow> b < 512 \<Longrightarrow> c < 512 \<Longrightarrow> leaf_at (mc_memory s') (root_of s) a b c =
      (if a = i \<and> b = j \<and> c = k then v else leaf_at (mc_memory s) (root_of s) a b c)"
  shows "entry_of s' q = (if q = page then v else entry_of s q)"
proof (cases "indices (vp_start q)")
  case None
  with ix show ?thesis by (auto simp: entry_of_def)
next
  case (Some xs)
  then obtain a b c where xs: "xs = [a, b, c]" "a < 512" "b < 512" "c < 512" by (rule indicesE)
  have "q = page \<longleftrightarrow> xs = [i, j, k]" using page_indices_inj [OF ok] ix Some by auto
  with Some xs r upd [OF xs(2-4)] show ?thesis by (auto simp: entry_of_def)
qed

text \<open>
  The effect of an operation: the entries it leaves, the pages its new tables take, and the memory it may write: pages
  that were free before and the given tables.
\<close>

definition table_pages :: "PageAllocation list \<Rightarrow> nat set" where
  "table_pages as = (\<lambda>a. pf_start (pa_start a) div PAGE_SIZE) ` set as"

definition pt_step :: "table_machine \<Rightarrow> (VirtPage \<Rightarrow> 64 word) \<Rightarrow> PhysAddr set \<Rightarrow> PageAllocation list \<Rightarrow> table_machine \<Rightarrow> bool" where
  "pt_step s es ts new s' \<longleftrightarrow> pt_inv s'
     \<and> (\<exists>b m. s' = s\<lparr>mc_page_allocator := b, mc_memory := m,
          tm_self := (tm_self s)\<lparr>rpt_tables := rpt_tables (tm_self s) @ new\<rparr>\<rparr>)
     \<and> (\<forall>q. page_ok q \<longrightarrow> entry_of s' q = es q)
     \<and> (\<forall>p t. path p \<and> node (mc_memory s') (root_of s) p = Some t \<longrightarrow>
          node (mc_memory s) (root_of s) p = Some t \<or> t div PAGE_SIZE \<in> table_pages new)
     \<and> table_pages new \<subseteq> free_pages s \<and> free_pages s' = free_pages s - table_pages new
     \<and> (\<forall>x. mc_memory s' x \<noteq> mc_memory s x \<longrightarrow> x div PAGE_SIZE \<in> free_pages s \<union> (\<lambda>t. t div PAGE_SIZE) ` ts)"

lemma pt_stepD:
  assumes "pt_step s es ts new s'"
  shows "pt_inv s'" "root_of s' = root_of s" "page_ok q \<Longrightarrow> entry_of s' q = es q"
    "rpt_owner (tm_self s') = rpt_owner (tm_self s)" "tm_borrowers s' = tm_borrowers s" "tm_retired s' = tm_retired s"
  using assms by (auto simp: pt_step_def)

section \<open>Leaf entries\<close>

lemma leaf_walk_cases:
  assumes "tree (mc_memory s) r" "i < 512" "j < 512"
  shows "case node (mc_memory s) r [i, j] of
      Some t \<Rightarrow> leaf_walk [i, j, k] [0..<LEVELS - 1] \<lparr>pf_start = r\<rparr> s = (Ok \<lparr>pf_start = t\<rparr>, s)
    | None \<Rightarrow> \<exists>e. leaf_walk [i, j, k] [0..<LEVELS - 1] \<lparr>pf_start = r\<rparr> s = (Err e, s)"
proof -
  let ?m = "mc_memory s"
  have l: "[0..<LEVELS - 1] = [0, 1]" by (simp add: LEVELS_def upt_rec)
  have r: "read_entry \<lparr>pf_start = r\<rparr> i s = (Ok (ent ?m r i), s)"
    using assms tree_ok [OF assms(1) root_table] by (simp add: read_entry_Ok)
  show ?thesis
  proof (cases "node ?m r [i]")
    case None
    then show ?thesis unfolding l using next_table_cases [of 0 ?m r i] r
      by (auto simp: sbind_def sfail_def slift_def split: option.splits)
  next
    case (Some u)
    have "table_ok u" using tree_ok [OF assms(1)] tablesI [OF _ Some] assms(2) by simp
    then have u: "read_entry \<lparr>pf_start = u\<rparr> j s = (Ok (ent ?m u j), s)" using assms(3) by (simp add: read_entry_Ok)
    have "ent ?m r i \<noteq> 0" "next_table 0 (ent ?m r i) = Ok \<lparr>pf_start = u\<rparr>"
      using Some next_table_cases [of 0 ?m r i] by (auto simp: empty_entry split: option.splits)
    then show ?thesis unfolding l using Some next_table_cases [of 1 ?m u j] r u
      by (auto simp: sbind_def sfail_def slift_def sreturn_def empty_entry split: option.splits)
  qed
qed

lemma not_leaf_zero [simp]: "\<not> PageTableEntry_is_leaf 0"
  by (simp add: PageTableEntry_is_leaf_def PageTableEntry_is_valid_def)

lemma leaf_entry_cases:
  assumes inv: "pt_inv s"
  shows "\<not> PageTableEntry_is_leaf (entry_of s page) \<and> (\<exists>e. leaf_entry page s = (Err e, s))
    \<or> PageTableEntry_is_leaf (entry_of s page) \<and> (\<exists>i j k t. indices (vp_start page) = Some [i, j, k] \<and> i < 512 \<and> j < 512 \<and> k < 512
        \<and> node (mc_memory s) (root_of s) [i, j] = Some t \<and> leaf_entry page s = (Ok (\<lparr>pf_start = t\<rparr>, k, entry_of s page), s))"
proof (cases "indices (vp_start page)")
  case None
  then show ?thesis by (auto simp: entry_of_def leaf_entry_def sbind_def slift_def)
next
  case (Some xs)
  then obtain i j k where xs: "xs = [i, j, k]" "i < 512" "j < 512" "k < 512" by (rule indicesE)
  obtain r where root [simp]: "rpt_root (tm_self s) = \<lparr>pf_start = r\<rparr>" by (cases "rpt_root (tm_self s)")
  let ?m = "mc_memory s" and ?r = r
  have tree: "tree ?m ?r" using inv by (simp add: pt_inv_def)
  have l: "LEVELS - 1 = 2" by (simp add: LEVELS_def)
  note w = leaf_walk_cases [OF tree xs(2,3), where k = k]
  note unf = leaf_entry_def l Let_def
  show ?thesis
  proof (cases "node ?m ?r [i, j]")
    case None
    then obtain e where "leaf_walk [i, j, k] [0..<LEVELS - 1] \<lparr>pf_start = ?r\<rparr> s = (Err e, s)" using w by auto
    moreover have "entry_of s page = 0" using None Some xs by (simp add: entry_of_def leaf_at_def del: node.simps)
    ultimately show ?thesis unfolding unf using Some xs by (simp add: l sbind_def slift_def sget_def)
  next
    case node: (Some t)
    then have "leaf_walk [i, j, k] [0..<LEVELS - 1] \<lparr>pf_start = ?r\<rparr> s = (Ok \<lparr>pf_start = t\<rparr>, s)" using w by (simp del: node.simps)
    moreover have "entry_of s page = ent ?m t k" using node Some xs by (simp add: entry_of_def leaf_at_def del: node.simps)
    moreover have "table_ok t" using tree_ok [OF tree] tablesI [OF _ node] xs by simp
    ultimately show ?thesis unfolding unf using Some xs node
      by (auto simp: l sbind_def slift_def sget_def read_entry_Ok sfail_def sreturn_def simp del: node.simps)
  qed
qed

lemma leaf_write:
  assumes inv: "pt_inv s" and ok: "page_ok page" and ix: "indices (vp_start page) = Some [i, j, k]"
    and lt: "i < 512" "j < 512" "k < 512" and t: "node (mc_memory s) (root_of s) [i, j] = Some t"
  obtains s' where "write_entry \<lparr>pf_start = t\<rparr> k v s = (Ok (), s')"
    "pt_step s ((entry_of s)(page := v)) (path_tables s page) [] s'"
proof
  let ?s = "s\<lparr>mc_memory := (mc_memory s)(t + 8 * k := v)\<rparr>"
  have tree: "tree (mc_memory s) (root_of s)" using inv by (simp add: pt_inv_def)
  have tab: "t \<in> tables (mc_memory s) (root_of s)" using tablesI [OF _ t] lt by simp
  show "write_entry \<lparr>pf_start = t\<rparr> k v s = (Ok (), ?s)"
    using tree_ok [OF tree tab] lt by (rule_tac write_entry_Ok)
  note st = leaf_store [OF tree t lt, where v = v]
  have "entry_of ?s q = ((entry_of s)(page := v)) q" if "page_ok q" for q
    using entry_of_update [OF ix ok that, of ?s s v] st(3) by simp
  moreover have "pt_inv ?s" using inv st(1,2) by (simp add: pt_inv_def)
  moreover have "t \<in> path_tables s page" using ix t by (auto simp: path_tables_def simp del: node.simps intro!: exI [of _ 2])
  moreover have "(t + 8 * k) div PAGE_SIZE = t div PAGE_SIZE" using cell_page [OF tree_dvd [OF tree tab] lt(3)] .
  ultimately show "pt_step s ((entry_of s)(page := v)) (path_tables s page) [] ?s"
    using leaf_store_node [OF tree t lt, where v = v]
    by (auto simp: pt_step_def table_pages_def free_pages_def intro!: exI [of _ "mc_page_allocator s"])
qed

text \<open>Protecting, replacing and unmapping are the same read, compute and store on the leaf entry.\<close>

definition modify_leaf :: "VirtPage \<Rightarrow> (64 word \<Rightarrow> (64 word \<times> 'a, RuntimePageTableError) result) \<Rightarrow> 'a table_action" where
  "modify_leaf page f = sbind (leaf_entry page) (\<lambda>(leaf_table, leaf_index, old).
     sbind (slift (f old)) (\<lambda>(new, res). sseq (write_entry leaf_table leaf_index new) (sreturn res)))"

lemma modify_leaf_cases:
  assumes inv: "pt_inv s" and ok: "page_ok page"
  shows "case modify_leaf page f s of
      (Ok res, s') \<Rightarrow> PageTableEntry_is_leaf (entry_of s page) \<and> (\<exists>v. f (entry_of s page) = Ok (v, res)
        \<and> pt_step s ((entry_of s)(page := v)) (path_tables s page) [] s')
    | (Err e, s') \<Rightarrow> s' = s \<and> (PageTableEntry_is_leaf (entry_of s page) \<longrightarrow> f (entry_of s page) = Err e)
    | (Panic, s') \<Rightarrow> f (entry_of s page) = Panic"
  using leaf_entry_cases [OF inv, of page]
proof (elim disjE conjE exE)
  fix i j k t
  assume leaf: "PageTableEntry_is_leaf (entry_of s page)"
    and "indices (vp_start page) = Some [i, j, k]" "i < 512" "j < 512" "k < 512"
      "node (mc_memory s) (root_of s) [i, j] = Some t"
    and le: "leaf_entry page s = (Ok (\<lparr>pf_start = t\<rparr>, k, entry_of s page), s)"
  note w = leaf_write [OF inv ok this(2-6)]
  show ?thesis
  proof (cases "f (entry_of s page)")
    case (Ok vr)
    then obtain v res where vr: "f (entry_of s page) = Ok (v, res)" by (cases vr) auto
    obtain s' where "write_entry \<lparr>pf_start = t\<rparr> k v s = (Ok (), s')"
      "pt_step s ((entry_of s)(page := v)) (path_tables s page) [] s'" by (rule w)
    with vr le leaf show ?thesis by (simp add: modify_leaf_def sbind_def slift_def sseq_def sreturn_def)
  qed (use le leaf in \<open>simp_all add: modify_leaf_def sbind_def slift_def\<close>)
qed (auto simp: modify_leaf_def sbind_def)

definition frame_of_leaf :: "64 word \<Rightarrow> (PhysFrame, RuntimePageTableError) result" where
  "frame_of_leaf old = ok_or (PageTableEntry_frame old) (InvalidTableEntry (LEVELS - 1))"

definition new_leaf :: "PhysFrame \<Rightarrow> MappingOptions \<Rightarrow> (64 word, RuntimePageTableError) result" where
  "new_leaf frame options = map_err (\<lambda>_. PageTableEntryRejected) (PageTableEntry_leaf frame options)"

lemma rbind_case: "rbind r k = (case r of Ok x \<Rightarrow> k x | Err e \<Rightarrow> Err e | Panic \<Rightarrow> Panic)"
  by (cases r) auto

lemma imp_protect_page_modify:
  "imp_protect_page page options =
     modify_leaf page (\<lambda>old. rbind (frame_of_leaf old) (\<lambda>f. rbind (new_leaf f options) (\<lambda>v. Ok (v, ()))))"
  by (rule ext) (auto simp: imp_protect_page_def modify_leaf_def sbind_def slift_def sseq_def sreturn_def frame_of_leaf_def
      new_leaf_def rbind_case split: prod.splits result.splits)

lemma imp_replace_page_modify:
  "imp_replace_page page frame options =
     modify_leaf page (\<lambda>old. rbind (frame_of_leaf old) (\<lambda>f. rbind (new_leaf frame options) (\<lambda>v. Ok (v, f))))"
  by (rule ext) (auto simp: imp_replace_page_def modify_leaf_def sbind_def slift_def sseq_def sreturn_def frame_of_leaf_def
      new_leaf_def rbind_case split: prod.splits result.splits)

lemma imp_unmap_page_modify:
  "imp_unmap_page page = modify_leaf page (\<lambda>old. rbind (frame_of_leaf old) (\<lambda>f. Ok (0, f)))"
  by (rule ext) (auto simp: imp_unmap_page_def modify_leaf_def sbind_def slift_def sseq_def sreturn_def frame_of_leaf_def
      rbind_case split: prod.splits result.splits)

lemma frame_of_leaf_Ok:
  "PageTableEntry_is_leaf e \<Longrightarrow> frame_of_leaf e = Ok \<lparr>pf_start = PageTableEntry_physical_address e\<rparr>"
  by (simp add: frame_of_leaf_def pte_frame_Some PageTableEntry_is_leaf_def)

lemma new_leaf_no_panic: 
  assumes "frame_ok f"
  shows "new_leaf f o' \<noteq> Panic"
proof -
  have "MappingOptions_validate o' \<noteq> Panic" by (simp add: MappingOptions_validate_def Let_def)
  with assms show ?thesis
    by (auto simp: new_leaf_def PageTableEntry_leaf_def encode_frame_eq frame_ok_def Let_def rbind_case split: result.splits if_splits)
qed

section \<open>New tables\<close>

text \<open>A page that becomes a table: it was free, it is all zero, and no other memory has changed.\<close>

definition fresh_table :: "table_machine \<Rightarrow> BuddyAllocator \<Rightarrow> PageAllocation \<Rightarrow> table_machine \<Rightarrow> BuddyAllocator \<Rightarrow> bool" where
  "fresh_table s b a s' b' \<longleftrightarrow> (let t = pf_start (pa_start a) in
     (\<exists>m. s' = (set_buddy b' s)\<lparr>mc_memory := m\<rparr>) \<and> buddy_mapped b' \<and> table_ok t \<and> pa_order a = 0
     \<and> is_free b (t div PAGE_SIZE) \<and> (\<forall>x. is_free b' x \<longleftrightarrow> is_free b x \<and> x \<noteq> t div PAGE_SIZE)
     \<and> valid_block b' a (Some 1) Allocated
     \<and> (\<forall>x. x div PAGE_SIZE \<noteq> t div PAGE_SIZE \<longrightarrow> mc_memory s' x = mc_memory s x)
     \<and> (\<forall>i < 512. ent (mc_memory s') t i = 0))"

lemma page_cells: "x \<in> block_cells p 0 \<longleftrightarrow> x div PAGE_SIZE = p"
  by (simp add: block_cells_def)

lemma allocate_zeroed_table_cases:
  assumes s: "mc_page_allocator s = Some b" and b: "buddy_mapped b"
  shows "case allocate_zeroed_table s of
      (Ok a, s') \<Rightarrow> \<exists>b'. fresh_table s b a s' b'
    | (Err e, s') \<Rightarrow> s' = s \<and> (\<exists>x. e = PageAllocatorFailed x)
    | (Panic, s') \<Rightarrow> False"
proof -
  obtain r s' where r: "page_alloc_allocate 0 PageAllocationOptions_kernel_zeroed s = (r, s')" by fastforce
  note cases = page_alloc_allocate_cases [OF s b, of 0 PageAllocationOptions_kernel_zeroed, unfolded r]
  show ?thesis
  proof (cases r)
    case (Ok a)
    then obtain p b' m where a: "a = \<lparr>pa_start = \<lparr>pf_start = p * PAGE_SIZE\<rparr>, pa_order = 0, pa_zone = pa_zone a\<rparr>"
      and s': "s' = (set_buddy b' s)\<lparr>mc_memory := m\<rparr>" and b': "buddy_mapped b'" "alloc_step b p 0 b'"
      and p: "p \<in> managed b" "p \<in> free_set b (pa_zone a)"
      and m: "\<forall>x. x div PAGE_SIZE \<noteq> p \<longrightarrow> m x = mc_memory s x" "\<forall>x. x div PAGE_SIZE = p \<longrightarrow> m x = 0"
      using cases by (auto simp: allocated_block_def page_cells PageAllocationOptions_kernel_zeroed_def)
    have start: "pf_start (pa_start a) = p * PAGE_SIZE" "pa_order a = 0" by (subst a, simp)+
    have ok: "table_ok (p * PAGE_SIZE)"
      using buddy_mapped_page [OF b, of p 0] p(1) by (simp add: table_ok_def)
    have "p \<in> zone_pfns b' (pa_zone a)"
      using p(2) b'(2) same_shape_zone_pfns [of b b'] by (auto simp: alloc_step_def free_set_def)
    then have "valid_block b' a (Some 1) Allocated"
      using b'(2) by (simp add: valid_block_def Let_def start alloc_step_def MAX_ORDER_def)
    then have "fresh_table s b a s' b'"
      using b' p m ok cell_page [of "p * PAGE_SIZE"] start
      by (auto simp: fresh_table_def Let_def s' alloc_step_def free_set_def ent_def)
    with Ok show ?thesis by (auto simp: allocate_zeroed_table_def smap_err_def r)
  qed (use cases in \<open>auto simp: allocate_zeroed_table_def smap_err_def r\<close>)
qed

lemma pt_step_refl: "pt_inv s \<Longrightarrow> pt_step s (entry_of s) ts [] s"
  by (auto simp: pt_step_def table_pages_def intro!: exI [of _ "mc_page_allocator s"] exI [of _ "mc_memory s"])

text \<open>Tables that are not free keep their contents when free pages are written.\<close>

lemma entries_kept:
  assumes inv: "pt_inv s" and t: "t \<in> tables (mc_memory s) (root_of s)" "i < 512"
    and m: "\<And>x. x div PAGE_SIZE \<notin> free_pages s \<Longrightarrow> m x = mc_memory s x"
  shows "ent m t i = ent (mc_memory s) t i"
proof -
  have "PAGE_SIZE dvd t" using inv t(1) by (auto simp: pt_inv_def intro: tree_dvd)
  then have "(t + 8 * i) div PAGE_SIZE \<notin> free_pages s"
    using inv t cell_page [of t i] by (auto simp: pt_inv_def free_pages_def)
  then show ?thesis using m by (simp add: ent_def)
qed

lemma pt_step_kept:
  assumes inv: "pt_inv s" and b: "buddy_mapped b'" "{p. is_free b' p} = free_pages s"
    and m: "\<And>x. x div PAGE_SIZE \<notin> free_pages s \<Longrightarrow> m x = mc_memory s x"
  shows "pt_step s (entry_of s) ts [] ((set_buddy b' s)\<lparr>mc_memory := m\<rparr>)"
proof -
  let ?s = "(set_buddy b' s)\<lparr>mc_memory := m\<rparr>"
  note agree = tree_agree [of "mc_memory s" "root_of s", OF entries_kept [OF inv _ _ m], simplified]
  have free: "is_free b' p \<longleftrightarrow> p \<in> free_pages s" for p using b(2) by blast
  have "entry_of ?s q = entry_of s q" for q
    using agree(3) by (auto simp: entry_of_def elim!: indicesE split: option.splits)
  moreover have "pt_inv ?s" using inv b(1) agree by (auto simp: pt_inv_def free) (auto simp: free_pages_def)
  ultimately show ?thesis using b m agree(4)
    by (auto simp: pt_step_def table_pages_def free_pages_def intro!: exI [of _ "Some b'"] exI [of _ m])
qed

text \<open>What is left to show once the new tables are linked.\<close>

lemma pt_step_linked:
  assumes inv: "pt_inv s" and ok: "page_ok page" and ix: "indices (vp_start page) = Some [i, j, k]"
    and b: "buddy_mapped b'" "{p. is_free b' p} = free_pages s - table_pages new" "table_pages new \<subseteq> free_pages s"
    and tree: "tree m (root_of s)" "tables m (root_of s) = (\<lambda>a. pf_start (pa_start a)) ` set new \<union> tables (mc_memory s) (root_of s)"
    and upd: "\<And>x y z. x < 512 \<Longrightarrow> y < 512 \<Longrightarrow> z < 512 \<Longrightarrow> leaf_at m (root_of s) x y z =
      (if x = i \<and> y = j \<and> z = k then v else leaf_at (mc_memory s) (root_of s) x y z)"
    and nodes: "\<And>p t. path p \<Longrightarrow> node m (root_of s) p = Some t \<Longrightarrow>
      node (mc_memory s) (root_of s) p = Some t \<or> t div PAGE_SIZE \<in> table_pages new"
    and m: "\<And>x. x div PAGE_SIZE \<notin> free_pages s \<Longrightarrow> x \<noteq> c \<Longrightarrow> m x = mc_memory s x" "c div PAGE_SIZE = u div PAGE_SIZE" "u \<in> ts"
  shows "pt_step s ((entry_of s)(page := v)) ts new
    (s\<lparr>mc_page_allocator := Some b', mc_memory := m, tm_self := (tm_self s)\<lparr>rpt_tables := rpt_tables (tm_self s) @ new\<rparr>\<rparr>)"
    (is "pt_step s _ _ _ ?s")
proof -
  have root: "root_of ?s = root_of s" by simp
  have free: "is_free b' p \<longleftrightarrow> p \<in> free_pages s \<and> p \<notin> table_pages new" for p using b(2) by blast
  have "entry_of ?s q = ((entry_of s)(page := v)) q" if "page_ok q" for q
    using entry_of_update [OF ix ok that root, of v] upd by simp
  moreover have "\<not> is_free b' (t div PAGE_SIZE)" if "t \<in> tables m (root_of s)" for t
    using that inv unfolding tree(2) free by (auto simp: table_pages_def pt_inv_def free_pages_def)
  then have "pt_inv ?s" using tree b(1) by (auto simp: pt_inv_def)
  moreover have "x div PAGE_SIZE \<in> free_pages s \<union> (\<lambda>t. t div PAGE_SIZE) ` ts" if "m x \<noteq> mc_memory s x" for x
    using m that by (cases "x = c") auto
  ultimately show ?thesis using b nodes by (auto simp: pt_step_def free_pages_def)
qed

lemma PageTableEntry_table_ok:
  assumes "table_ok t"
  obtains e where "PageTableEntry_table \<lparr>pf_start = t\<rparr> = Ok e"
    "links e t"
proof -
  have f: "frame_ok \<lparr>pf_start = t\<rparr>" "t < 2 ^ 56" using table_frame_ok [OF assms] by auto
  then obtain e where e: "PageTableEntry_table \<lparr>pf_start = t\<rparr> = Ok e" by (auto simp: PageTableEntry_table_Ok)
  show thesis by (rule that [OF e]) (simp add: links_def PageTableEntry_table_frame [OF f(1) e])
qed

text \<open>One missing table.\<close>

lemma link_one:
  assumes "table_ok t" "table_ok u" "j < 512" "k < 512" "PageTableEntry_table \<lparr>pf_start = t\<rparr> = Ok e"
  shows "link_tables \<lparr>pf_start = u\<rparr> 1 [i, j, k] leaf [\<lparr>pf_start = t\<rparr>] s =
    (Ok (), s\<lparr>mc_memory := (mc_memory s)(t + 8 * k := leaf, u + 8 * j := e)\<rparr>)"
  using assms by (simp add: link_tables_def LEVELS_def sseq_def sbind_def write_entry_Ok slift_def sreturn_def)

text \<open>Two missing tables.\<close>

lemma link_two:
  assumes "table_ok t1" "table_ok t2" "table_ok u" "i < 512" "j < 512" "k < 512"
    and "PageTableEntry_table \<lparr>pf_start = t1\<rparr> = Ok e1" "PageTableEntry_table \<lparr>pf_start = t2\<rparr> = Ok e2"
  shows "link_tables \<lparr>pf_start = u\<rparr> 0 [i, j, k] leaf [\<lparr>pf_start = t1\<rparr>, \<lparr>pf_start = t2\<rparr>] s =
    (Ok (), s\<lparr>mc_memory := (mc_memory s)(t2 + 8 * k := leaf, t1 + 8 * j := e2, u + 8 * i := e1)\<rparr>)"
  using assms by (simp add: link_tables_def LEVELS_def sseq_def sbind_def write_entry_Ok slift_def sreturn_def)

lemma fresh_tableD:
  assumes "fresh_table s b a s' b'" "mc_page_allocator s = Some b"
  obtains t m where "pa_start a = \<lparr>pf_start = t\<rparr>" "s' = (set_buddy b' s)\<lparr>mc_memory := m\<rparr>" "buddy_mapped b'" "table_ok t"
    "t div PAGE_SIZE \<in> free_pages s" "{p. is_free b' p} = free_pages s - {t div PAGE_SIZE}" "table_pages [a] = {t div PAGE_SIZE}"
    "\<And>x. x div PAGE_SIZE \<noteq> t div PAGE_SIZE \<Longrightarrow> m x = mc_memory s x" "\<And>i. i < 512 \<Longrightarrow> ent m t i = 0"
    "valid_block b' a (Some 1) Allocated" "pa_order a = 0"
proof -
  obtain t where t: "pa_start a = \<lparr>pf_start = t\<rparr>" by (cases "pa_start a")
  have "{p. is_free b' p} = free_pages s - {t div PAGE_SIZE}"
    using assms t by (auto simp: fresh_table_def Let_def free_pages_def)
  then show thesis using assms t that [of t] by (auto simp: fresh_table_def Let_def free_pages_def table_pages_def)
qed

lemma not_a_table:
  "pt_inv s \<Longrightarrow> t div PAGE_SIZE \<in> free_pages s \<Longrightarrow> t \<notin> tables (mc_memory s) (root_of s)"
  by (auto simp: pt_inv_def free_pages_def)

lemma table_at_path:
  assumes "pt_inv s" "path p" "node (mc_memory s) (root_of s) p = Some u"
  shows "table_ok u" "u div PAGE_SIZE \<notin> free_pages s" "u \<in> tables (mc_memory s) (root_of s)"
  using assms tablesI [OF assms(2,3)] by (auto simp: pt_inv_def tree_def free_pages_def)

section \<open>Installing a missing chain\<close>

definition installed :: "table_machine \<Rightarrow> VirtPage \<Rightarrow> 64 word \<Rightarrow> (unit, RuntimePageTableError) result \<times> table_machine \<Rightarrow> bool" where
  "installed s page v rs \<longleftrightarrow> (case rs of
       (Ok _, s') \<Rightarrow> \<exists>new. pt_step s ((entry_of s)(page := v)) (path_tables s page) new s'
     | (Err e, s') \<Rightarrow> pt_step s (entry_of s) {} [] s' \<and> (e = TableMetadataOutOfMemory \<or> (\<exists>x. e = PageAllocatorFailed x))
     | (Panic, s') \<Rightarrow> False)"

text \<open>The state after new tables have been linked and recorded.\<close>

abbreviation linked :: "table_machine \<Rightarrow> BuddyAllocator \<Rightarrow> memory \<Rightarrow> PageAllocation list \<Rightarrow> table_machine" where
  "linked s b m new \<equiv> s\<lparr>mc_page_allocator := Some b, mc_memory := m,
     tm_self := (tm_self s)\<lparr>rpt_tables := rpt_tables (tm_self s) @ new\<rparr>\<rparr>"

lemma chain_one:
  assumes inv: "pt_inv s" and ok: "page_ok page" and ix: "indices (vp_start page) = Some [i, j, k]"
    and lt: "i < 512" "j < 512" "k < 512"
    and u: "node (mc_memory s) (root_of s) [i] = Some u" "ent (mc_memory s) u j = 0"
    and b: "mc_page_allocator s = Some b" and fresh: "fresh_table s b a s1 b'"
  obtains m where "link_tables \<lparr>pf_start = u\<rparr> 1 [i, j, k] v [pa_start a] s1 = (Ok (), (set_buddy b' s)\<lparr>mc_memory := m\<rparr>)"
    "pt_step s ((entry_of s)(page := v)) (path_tables s page) [a] (linked s b' m [a])"
proof -
  obtain t m where f: "pa_start a = \<lparr>pf_start = t\<rparr>" "s1 = (set_buddy b' s)\<lparr>mc_memory := m\<rparr>" "buddy_mapped b'" "table_ok t"
    "t div PAGE_SIZE \<in> free_pages s" "{p. is_free b' p} = free_pages s - {t div PAGE_SIZE}" "table_pages [a] = {t div PAGE_SIZE}"
    "\<And>x. x div PAGE_SIZE \<noteq> t div PAGE_SIZE \<Longrightarrow> m x = mc_memory s x" "\<And>i. i < 512 \<Longrightarrow> ent m t i = 0"
    by (rule fresh_tableD [OF fresh b]) blast
  obtain e where e: "PageTableEntry_table \<lparr>pf_start = t\<rparr> = Ok e" "links e t"
    by (rule PageTableEntry_table_ok [OF f(4)])
  have pu: "path [i]" using lt by simp
  note uf = table_at_path [OF inv pu u(1)] and nt = not_a_table [OF inv f(5)]
  let ?m = "m(t + 8 * k := v, u + 8 * j := e)"
  have dvd: "PAGE_SIZE dvd t" "PAGE_SIZE dvd u" using f(4) uf by (auto simp: table_ok_def)
  have kept: "m x = mc_memory s x" if "x div PAGE_SIZE \<notin> free_pages s" for x using that f(5,8) by metis
  have tree: "tree (mc_memory s) (root_of s)" using inv by (simp add: pt_inv_def)
  note g = store_one [OF tree u lt f(4) nt entries_kept [OF inv _ _ kept] f(9) e(2), where v = v]
  have up: "u \<in> path_tables s page" using ix u(1) by (auto simp: path_tables_def simp del: node.simps intro!: exI [of _ 1])
  have nodes: "node (mc_memory s) (root_of s) p = Some x \<or> x div PAGE_SIZE \<in> table_pages [a]"
    if "path p" "node ?m (root_of s) p = Some x" for p x using g(4) that f(7) by blast
  have "pt_step s ((entry_of s)(page := v)) (path_tables s page) [a] (linked s b' ?m [a])"
  proof (rule pt_step_linked [OF inv ok ix f(3) _ _ g(1) _ g(3) nodes _ cell_page [OF dvd(2) lt(2)] up])
    show "?m x = mc_memory s x" if "x div PAGE_SIZE \<notin> free_pages s" "x \<noteq> u + 8 * j" for x
      using that f(5) kept cell_page [OF dvd(1) lt(3)] by auto
  qed (use f(1,5,6,7) g(2) in auto)
  then show thesis using that link_one [OF f(4) uf(1) lt(2,3) e(1), of i v s1] by (simp add: f(1,2))
qed

lemma chain_two:
  assumes inv: "pt_inv s" and ok: "page_ok page" and ix: "indices (vp_start page) = Some [i, j, k]"
    and lt: "i < 512" "j < 512" "k < 512" and u: "ent (mc_memory s) (root_of s) i = 0"
    and b: "mc_page_allocator s = Some b" and fresh1: "fresh_table s b a1 s1 b1" and fresh2: "fresh_table s1 b1 a2 s2 b2"
  obtains m where "link_tables \<lparr>pf_start = root_of s\<rparr> 0 [i, j, k] v [pa_start a1, pa_start a2] s2 =
      (Ok (), (set_buddy b2 s)\<lparr>mc_memory := m\<rparr>)"
    "pt_step s ((entry_of s)(page := v)) (path_tables s page) [a1, a2] (linked s b2 m [a1, a2])"
proof -
  let ?r = "root_of s"
  obtain t1 m1 where f: "pa_start a1 = \<lparr>pf_start = t1\<rparr>" "s1 = (set_buddy b1 s)\<lparr>mc_memory := m1\<rparr>" "table_ok t1"
    "t1 div PAGE_SIZE \<in> free_pages s" "{p. is_free b1 p} = free_pages s - {t1 div PAGE_SIZE}"
    "\<And>x. x div PAGE_SIZE \<noteq> t1 div PAGE_SIZE \<Longrightarrow> m1 x = mc_memory s x" "\<And>i. i < 512 \<Longrightarrow> ent m1 t1 i = 0"
    by (rule fresh_tableD [OF fresh1 b]) blast
  have sb: "mc_page_allocator s1 = Some b1" "free_pages s1 = free_pages s - {t1 div PAGE_SIZE}"
    using f(2,5) by (auto simp: free_pages_def)
  obtain t2 m where h: "pa_start a2 = \<lparr>pf_start = t2\<rparr>" "s2 = (set_buddy b2 s1)\<lparr>mc_memory := m\<rparr>" "buddy_mapped b2" "table_ok t2"
    "t2 div PAGE_SIZE \<in> free_pages s1" "{p. is_free b2 p} = free_pages s1 - {t2 div PAGE_SIZE}"
    "\<And>x. x div PAGE_SIZE \<noteq> t2 div PAGE_SIZE \<Longrightarrow> m x = mc_memory s1 x" "\<And>i. i < 512 \<Longrightarrow> ent m t2 i = 0"
    by (rule fresh_tableD [OF fresh2 sb(1)]) blast
  obtain e1 where e1: "PageTableEntry_table \<lparr>pf_start = t1\<rparr> = Ok e1" "links e1 t1"
    by (rule PageTableEntry_table_ok [OF f(3)])
  obtain e2 where e2: "PageTableEntry_table \<lparr>pf_start = t2\<rparr> = Ok e2" "links e2 t2"
    by (rule PageTableEntry_table_ok [OF h(4)])
  have ne: "t2 div PAGE_SIZE \<noteq> t1 div PAGE_SIZE" and fr2: "t2 div PAGE_SIZE \<in> free_pages s" using h(5) sb(2) by auto
  note uf = table_at_path [OF inv, of "[]" ?r, simplified] and nt = not_a_table [OF inv f(4)] not_a_table [OF inv fr2]
  let ?m = "m(t2 + 8 * k := v, t1 + 8 * j := e2, ?r + 8 * i := e1)"
  have dvd: "PAGE_SIZE dvd t1" "PAGE_SIZE dvd t2" "PAGE_SIZE dvd ?r" "t1 \<noteq> t2"
    using f(3) h(4) uf ne by (auto simp: table_ok_def)
  have m1: "mc_memory s1 = m1" by (simp add: f(2))
  have kept: "m x = mc_memory s x" if "x div PAGE_SIZE \<notin> free_pages s" for x
    using that fr2 h(7) f(4,6) unfolding m1 by metis
  have zero: "ent m t1 c = 0" if "c < 512" for c
    using that f(7) h(7) ne cell_page [OF dvd(1) that] by (simp add: ent_def m1)
  have tree: "tree (mc_memory s) ?r" using inv by (simp add: pt_inv_def)
  note g = store_two [OF tree u lt f(3) nt(1) h(4) nt(2) dvd(4) entries_kept [OF inv _ _ kept] zero h(8) e1(2) e2(2), where v = v]
  have up: "?r \<in> path_tables s page" using ix by (auto simp: path_tables_def intro!: exI [of _ 0])
  have pages: "table_pages [a1, a2] = {t1 div PAGE_SIZE, t2 div PAGE_SIZE}" using f(1) h(1) by (simp add: table_pages_def)
  have nodes: "node (mc_memory s) ?r p = Some x \<or> x div PAGE_SIZE \<in> table_pages [a1, a2]"
    if "path p" "node ?m ?r p = Some x" for p x unfolding pages using g(4) that by blast
  have "pt_step s ((entry_of s)(page := v)) (path_tables s page) [a1, a2] (linked s b2 ?m [a1, a2])"
  proof (rule pt_step_linked [OF inv ok ix h(3) _ _ g(1) _ g(3) nodes _ cell_page [OF dvd(3) lt(1)] up])
    show "?m x = mc_memory s x" if "x div PAGE_SIZE \<notin> free_pages s" "x \<noteq> ?r + 8 * i" for x
      using that f(4) fr2 kept cell_page [OF dvd(1) lt(2)] cell_page [OF dvd(2) lt(3)] by auto
  qed (use f(1,4) h(1,6) fr2 sb(2) g(2) pages in auto)
  then show thesis using that link_two [OF f(3) h(4) uf(1) lt e1(1) e2(1), of v s2] by (simp add: f(1,2) h(1,2))
qed

lemma install_one:
  assumes inv: "pt_inv s" and ok: "page_ok page" and ix: "indices (vp_start page) = Some [i, j, k]"
    and lt: "i < 512" "j < 512" "k < 512"
    and u: "node (mc_memory s) (root_of s) [i] = Some u" "ent (mc_memory s) u j = 0"
  shows "installed s page v (install_missing_chain reserve_ok \<lparr>pf_start = u\<rparr> 1 [i, j, k] v s)"
proof -
  obtain b where b: "mc_page_allocator s = Some b" "buddy_mapped b" using inv by (auto simp: pt_inv_def)
  obtain r s1 where r: "allocate_zeroed_table s = (r, s1)" by fastforce
  note cases = allocate_zeroed_table_cases [OF b, unfolded r]
  consider "\<not> reserve_ok" | a b' where "reserve_ok" "r = Ok a" "fresh_table s b a s1 b'" | x where "reserve_ok" "r = Err (PageAllocatorFailed x)" "s1 = s"
    using cases by (cases r) auto
  then show ?thesis
  proof cases
    case 2
    obtain m where "link_tables \<lparr>pf_start = u\<rparr> 1 [i, j, k] v [pa_start a] s1 = (Ok (), (set_buddy b' s)\<lparr>mc_memory := m\<rparr>)"
      "pt_step s ((entry_of s)(page := v)) (path_tables s page) [a] (linked s b' m [a])"
      by (rule chain_one [OF inv ok ix lt u b(1) 2(3)])
    then show ?thesis using 2(1,2) r by (auto simp: install_missing_chain_def LEVELS_def sseq_def sbind_def slift_def installed_def)
  qed (use r pt_step_refl [OF inv] in \<open>simp_all add: install_missing_chain_def LEVELS_def sseq_def sbind_def slift_def
      sfail_def sreturn_def installed_def\<close>)
qed

text \<open>A table that is released again leaves the mappings and the free pages as they were.\<close>

lemma unwind_one:
  assumes inv: "pt_inv s" and b: "mc_page_allocator s = Some b" and fresh: "fresh_table s b a s1 b1"
  obtains s2 where "free_table a s1 = (Ok (), s2)" "pt_step s (entry_of s) {} [] s2"
proof -
  obtain t m where f: "pa_start a = \<lparr>pf_start = t\<rparr>" "s1 = (set_buddy b1 s)\<lparr>mc_memory := m\<rparr>" "buddy_mapped b1" "table_ok t"
    "t div PAGE_SIZE \<in> free_pages s" "{p. is_free b1 p} = free_pages s - {t div PAGE_SIZE}"
    "\<And>x. x div PAGE_SIZE \<noteq> t div PAGE_SIZE \<Longrightarrow> m x = mc_memory s x"
    "valid_block b1 a (Some 1) Allocated" "pa_order a = 0"
    by (rule fresh_tableD [OF fresh b]) blast
  have s1: "mc_page_allocator s1 = Some b1" "mc_memory s1 = m" by (simp_all add: f(2))
  have al: "PAGE_SIZE dvd pf_start (pa_start a)" using f(1,4) by (simp add: table_ok_def)
  obtain b2 m2 where fr: "page_alloc_free a s1 = (Ok (), (set_buddy b2 s1)\<lparr>mc_memory := m2\<rparr>)" "buddy_mapped b2"
    "\<And>x. is_free b2 x \<longleftrightarrow> is_free b1 x \<or> x = t div PAGE_SIZE" "\<And>x. x div PAGE_SIZE \<noteq> t div PAGE_SIZE \<Longrightarrow> m2 x = m x"
    using page_alloc_free_cases [OF s1(1) f(3) al] f(1,8,9) by (auto simp: page_cells s1(2))
  have "{p. is_free b2 p} = insert (t div PAGE_SIZE) {p. is_free b1 p}" using fr(3) by auto
  then have "{p. is_free b2 p} = free_pages s" using f(5,6) by auto
  moreover have "m2 x = mc_memory s x" if "x div PAGE_SIZE \<notin> free_pages s" for x using that f(5,7) fr(4) by metis
  ultimately have "pt_step s (entry_of s) {} [] ((set_buddy b2 s)\<lparr>mc_memory := m2\<rparr>)" using pt_step_kept [OF inv fr(2)] by blast
  then show thesis using that fr(1) by (simp add: free_table_def f(2))
qed

lemma install_two:
  assumes inv: "pt_inv s" and ok: "page_ok page" and ix: "indices (vp_start page) = Some [i, j, k]"
    and lt: "i < 512" "j < 512" "k < 512" and u: "ent (mc_memory s) (root_of s) i = 0"
  shows "installed s page v (install_missing_chain reserve_ok \<lparr>pf_start = root_of s\<rparr> 0 [i, j, k] v s)"
proof -
  obtain b where b: "mc_page_allocator s = Some b" "buddy_mapped b" using inv by (auto simp: pt_inv_def)
  obtain r s1 where r: "allocate_zeroed_table s = (r, s1)" by fastforce
  note cases = allocate_zeroed_table_cases [OF b, unfolded r]
  note unf = install_missing_chain_def sseq_def sbind_def slift_def sfail_def sreturn_def installed_def
  have two: "LEVELS - 1 - 0 = Suc (Suc 0)" by (simp add: LEVELS_def)
  consider "\<not> reserve_ok" | x where "reserve_ok" "r = Err (PageAllocatorFailed x)" "s1 = s" | a b1 where "reserve_ok" "r = Ok a" "fresh_table s b a s1 b1"
    using cases by (cases r) auto
  then show ?thesis
  proof cases
    case 3
    obtain r2 s2 where r2: "allocate_zeroed_table s1 = (r2, s2)" by fastforce
    have "mc_page_allocator s1 = Some b1" "buddy_mapped b1" using 3(3) by (auto simp: fresh_table_def Let_def)
    note cases2 = allocate_zeroed_table_cases [OF this, unfolded r2]
    then consider x where "r2 = Err (PageAllocatorFailed x)" "s2 = s1" | a2 b2 where "r2 = Ok a2" "fresh_table s1 b1 a2 s2 b2"
      by (cases r2) auto
    then show ?thesis
    proof cases
      case 1
      obtain s3 where "free_table a s1 = (Ok (), s3)" "pt_step s (entry_of s) {} [] s3" by (rule unwind_one [OF inv b(1) 3(3)])
      with 1 3 r r2 show ?thesis unfolding unf two by (simp add: sseq_def sbind_def sreturn_def)
    next
      case 2
      obtain m where "link_tables \<lparr>pf_start = root_of s\<rparr> 0 [i, j, k] v [pa_start a, pa_start a2] s2 =
          (Ok (), (set_buddy b2 s)\<lparr>mc_memory := m\<rparr>)"
        "pt_step s ((entry_of s)(page := v)) (path_tables s page) [a, a2] (linked s b2 m [a, a2])"
        by (rule chain_two [OF inv ok ix lt u b(1) 3(3) 2(2)])
      with 2 3 r r2 show ?thesis unfolding unf two by auto
    qed
  qed (use r pt_step_refl [OF inv] in \<open>unfold unf two, simp_all add: sreturn_def\<close>)
qed

section \<open>Mapping\<close>

definition map_outcome :: "table_machine \<Rightarrow> VirtPage \<Rightarrow> 64 word \<Rightarrow> (unit, RuntimePageTableError) result \<times> table_machine \<Rightarrow> bool" where
  "map_outcome s page v rs \<longleftrightarrow> (case rs of
       (Ok _, s') \<Rightarrow> entry_of s page = 0 \<and> (\<exists>new. pt_step s ((entry_of s)(page := v)) (path_tables s page) new s')
     | (Err e, s') \<Rightarrow> pt_step s (entry_of s) {} [] s' \<and> (e = AlreadyMapped \<longleftrightarrow> entry_of s page \<noteq> 0)
     | (Panic, s') \<Rightarrow> False)"

lemma installed_outcome: "installed s page v rs \<Longrightarrow> entry_of s page = 0 \<Longrightarrow> map_outcome s page v rs"
  by (auto simp: installed_def map_outcome_def split: prod.splits result.splits)

lemma next_table_Err: "next_table l raw = Err e \<Longrightarrow> e \<noteq> AlreadyMapped"
  by (cases "PageTableEntry_frame raw") (auto simp: next_table_def split: if_splits)

lemma map_walk_level:
  "map_walk reserve_ok [i, j, k] v n c =
     (if n < 2 then sbind (read_entry c ([i, j, k] ! n)) (\<lambda>raw.
        if raw = 0 then install_missing_chain reserve_ok c n [i, j, k] v
        else sbind (slift (next_table n raw)) (map_walk reserve_ok [i, j, k] v (n + 1)))
      else sbind (read_entry c k) (\<lambda>raw. if raw \<noteq> 0 then sfail AlreadyMapped else write_entry c k v))"
  by (subst map_walk.simps, unfold LEVELS_def) (simp cong: if_cong)

lemma map_outcome_same:
  "pt_inv s \<Longrightarrow> e \<noteq> AlreadyMapped \<Longrightarrow> entry_of s page = 0 \<Longrightarrow> map_outcome s page v (Err e, s)"
  using pt_step_refl by (simp add: map_outcome_def)

lemma map_walk_level1:
  assumes inv: "pt_inv s" and ok: "page_ok page" and ix: "indices (vp_start page) = Some [i, j, k]"
    and lt: "i < 512" "j < 512" "k < 512" and u: "node (mc_memory s) (root_of s) [i] = Some u"
  shows "map_outcome s page v (map_walk reserve_ok [i, j, k] v 1 \<lparr>pf_start = u\<rparr> s)"
proof -
  let ?m = "mc_memory s" and ?walk = "map_walk reserve_ok [i, j, k] v"
  have uok: "table_ok u" using table_at_path(1) [OF inv _ u] lt by simp
  have node: "node ?m (root_of s) [i, j] = sub_table ?m u j" using u by (auto split: option.splits)
  have entry: "entry_of s page = (case sub_table ?m u j of None \<Rightarrow> 0 | Some t \<Rightarrow> ent ?m t k)"
    using ix by (simp add: entry_of_def leaf_at_def node [symmetric] del: node.simps)
  show ?thesis
  proof (cases "sub_table ?m u j")
    case None
    then have zero: "entry_of s page = 0" unfolding entry by simp
    obtain e where e: "next_table 1 (ent ?m u j) = Err e" using None next_table_cases [of 1 ?m u j] by auto
    have "?walk 1 \<lparr>pf_start = u\<rparr> s = (if ent ?m u j = 0 then install_missing_chain reserve_ok \<lparr>pf_start = u\<rparr> 1 [i, j, k] v s else (Err e, s))"
      by (subst map_walk_level) (use e in \<open>simp add: sbind_def slift_def read_entry_Ok [OF uok lt(2)]\<close>)
    then show ?thesis
      using installed_outcome [OF install_one [OF inv ok ix lt u] zero] map_outcome_same [OF inv next_table_Err [OF e] zero] by simp
  next
    case sub: (Some t)
    then have nt: "node ?m (root_of s) [i, j] = Some t" using node by simp
    have t: "table_ok t" using table_at_path [OF inv _ nt] lt by simp
    have "ent ?m u j \<noteq> 0" "next_table 1 (ent ?m u j) = Ok \<lparr>pf_start = t\<rparr>"
      using sub next_table_cases [of 1 ?m u j] by (auto simp: empty_entry)
    then have "?walk 1 \<lparr>pf_start = u\<rparr> s = ?walk 2 \<lparr>pf_start = t\<rparr> s"
      by (subst map_walk_level) (simp add: sbind_def slift_def read_entry_Ok [OF uok lt(2)] numeral_2_eq_2)
    also have "\<dots> = (if ent ?m t k \<noteq> 0 then (Err AlreadyMapped, s) else write_entry \<lparr>pf_start = t\<rparr> k v s)"
      by (subst map_walk_level) (simp add: sbind_def sfail_def read_entry_Ok [OF t lt(3)])
    finally have w: "?walk 1 \<lparr>pf_start = u\<rparr> s = \<dots>" .
    obtain s' where "write_entry \<lparr>pf_start = t\<rparr> k v s = (Ok (), s')"
      "pt_step s ((entry_of s)(page := v)) (path_tables s page) [] s'" by (rule leaf_write [OF inv ok ix lt nt])
    then show ?thesis using w entry sub pt_step_refl [OF inv] by (auto simp: map_outcome_def)
  qed
qed

lemma map_walk_cases:
  assumes inv: "pt_inv s" and ok: "page_ok page" and ix: "indices (vp_start page) = Some [i, j, k]"
    and lt: "i < 512" "j < 512" "k < 512"
  shows "map_outcome s page v (map_walk reserve_ok [i, j, k] v 0 (rpt_root (tm_self s)) s)"
proof -
  obtain r where root: "rpt_root (tm_self s) = \<lparr>pf_start = r\<rparr>" by (cases "rpt_root (tm_self s)")
  let ?m = "mc_memory s" and ?walk = "map_walk reserve_ok [i, j, k] v"
  have r: "table_ok r" using table_at_path(1) [OF inv, of "[]"] root by simp
  show ?thesis
  proof (cases "node ?m r [i]")
    case None
    then have zero: "entry_of s page = 0"
      using ix root by (auto simp: entry_of_def leaf_at_def split: option.splits)
    obtain e where e: "next_table 0 (ent ?m r i) = Err e" using None next_table_cases [of 0 ?m r i] by (auto split: option.splits)
    have "?walk 0 \<lparr>pf_start = r\<rparr> s = (if ent ?m r i = 0 then install_missing_chain reserve_ok \<lparr>pf_start = r\<rparr> 0 [i, j, k] v s else (Err e, s))"
      by (subst map_walk_level) (simp add: sbind_def slift_def e read_entry_Ok [OF r lt(1)])
    then show ?thesis unfolding root
      using installed_outcome [OF install_two [OF inv ok ix lt] zero] map_outcome_same [OF inv next_table_Err [OF e] zero] root by simp
  next
    case (Some u)
    have "ent ?m r i \<noteq> 0" "next_table 0 (ent ?m r i) = Ok \<lparr>pf_start = u\<rparr>"
      using Some next_table_cases [of 0 ?m r i] by (auto simp: empty_entry split: option.splits)
    then have "?walk 0 \<lparr>pf_start = r\<rparr> s = ?walk 1 \<lparr>pf_start = u\<rparr> s"
      by (subst map_walk_level) (simp add: sbind_def slift_def read_entry_Ok [OF r lt(1)])
    then show ?thesis using map_walk_level1 [OF inv ok ix lt, of u] Some root by simp
  qed
qed

section \<open>Translation\<close>

lemma page_of_address:
  assumes "a \<le> usize_MAX"
  shows "vp_start (VirtPage_containing_address a) = a div PAGE_SIZE * PAGE_SIZE" "page_ok (VirtPage_containing_address a)"
    "indices (vp_start (VirtPage_containing_address a)) = indices a"
proof -
  show v: "vp_start (VirtPage_containing_address a) = a div PAGE_SIZE * PAGE_SIZE"
    using align_mask_exp [of a 12] assms by (simp add: VirtPage_containing_address_def PAGE_SIZE_exp)
  have "a div PAGE_SIZE * PAGE_SIZE \<le> usize_MAX" by (rule order_trans [OF _ assms]) simp
  then show "page_ok (VirtPage_containing_address a)" by (simp add: page_ok_def v)
  have i: "index_of (12 + n) (a div PAGE_SIZE * PAGE_SIZE) = index_of (12 + n) a" for n
    by (simp add: index_of_def PAGE_SIZE_exp power_add div_mult2_eq)
  have "index_of 30 (a div PAGE_SIZE * PAGE_SIZE) = index_of 30 a" "index_of 21 (a div PAGE_SIZE * PAGE_SIZE) = index_of 21 a"
    "index_of 12 (a div PAGE_SIZE * PAGE_SIZE) = index_of 12 a" using i [of 18] i [of 9] i [of 0] by simp_all
  moreover have "is_canonical (a div PAGE_SIZE * PAGE_SIZE) = is_canonical a"
    by (auto simp: is_canonical_def layout_constants PAGE_SIZE_eq)
  ultimately show "indices (vp_start (VirtPage_containing_address a)) = indices a"
    by (simp add: v indices_def GEOMETRY_indices)
qed

lemma page_offset_mod: "(a :: nat) AND (PAGE_SIZE - 1) = a mod PAGE_SIZE"
  using and_exp_pred [of a 12] by (simp add: PAGE_SIZE_exp)

lemma translate_walk_level:
  "translate_walk [i, j, k] a n c =
     (if n < 3 then sbind (read_entry c ([i, j, k] ! n)) (\<lambda>raw.
        if raw = 0 then sreturn None
        else if n = 2 then
          (if \<not> PageTableEntry_is_leaf raw then sfail (InvalidTableEntry n)
           else sreturn (checked_add (PageTableEntry_physical_address raw) (a mod PAGE_SIZE)))
        else sbind (slift (next_table n raw)) (translate_walk [i, j, k] a (n + 1)))
      else sreturn None)"
  by (subst translate_walk.simps, unfold LEVELS_def page_offset_mod) (simp cong: if_cong)

lemma physical_address_bound: "PageTableEntry_physical_address e < 2 ^ 56"
proof -
  have "take_bit 56 (PageTableEntry_physical_address e) = PageTableEntry_physical_address e"
    by (rule bit_eqI) (auto simp: PageTableEntry_physical_address_def Let_def bit_push_bit_iff bit_unsigned_iff
        bit_drop_bit_eq bit_and_iff bit_PPN_MASK PPN_SHIFT_def PAGE_SHIFT_def bit_take_bit_iff)
  then show ?thesis by (metis take_bit_nat_less_exp)
qed

lemma rpt_translate_cases:
  assumes inv: "pt_inv s" and a: "a \<le> usize_MAX"
  defines "e \<equiv> entry_of s (VirtPage_containing_address a)"
  shows "\<exists>r. rpt_translate a s = (r, s) \<and> r \<noteq> Panic \<and> (r = Ok None \<longrightarrow> e = 0)
    \<and> (\<forall>x. r = Ok (Some x) \<longleftrightarrow> PageTableEntry_is_leaf e \<and> x = PageTableEntry_physical_address e + a mod PAGE_SIZE)"
proof (cases "indices a")
  case None
  then show ?thesis by (auto simp: rpt_translate_def sbind_def slift_def e_def entry_of_def page_of_address(3) [OF a])
next
  case (Some xs)
  then obtain i j k where xs: "xs = [i, j, k]" and lt: "i < 512" "j < 512" "k < 512" by (rule indicesE)
  obtain r where root: "rpt_root (tm_self s) = \<lparr>pf_start = r\<rparr>" by (cases "rpt_root (tm_self s)")
  let ?m = "mc_memory s" and ?walk = "translate_walk [i, j, k] a"
  have tr: "rpt_translate a s = ?walk 0 \<lparr>pf_start = r\<rparr> s"
    using Some by (simp add: rpt_translate_def sbind_def slift_def sget_def root xs)
  have e: "e = (case node ?m r [i, j] of None \<Rightarrow> 0 | Some t \<Rightarrow> ent ?m t k)"
    using Some by (simp add: e_def entry_of_def leaf_at_def root xs page_of_address(3) [OF a] del: node.simps)
  have sum: "checked_add (PageTableEntry_physical_address v) (a mod PAGE_SIZE) =
      Some (PageTableEntry_physical_address v + a mod PAGE_SIZE)" for v
  proof -
    have "a mod PAGE_SIZE < PAGE_SIZE" by simp
    then show ?thesis using physical_address_bound [of v] by (simp add: checked_add_def usize_MAX_def PAGE_SIZE_eq)
  qed
  have rok: "table_ok r" using table_at_path(1) [OF inv, of "[]"] root by simp
  note unf = sbind_def slift_def sreturn_def sfail_def
  show ?thesis
  proof (cases "node ?m r [i]")
    case None
    then obtain f where "next_table 0 (ent ?m r i) = Err f" using next_table_cases [of 0 ?m r i] by (auto split: option.splits)
    moreover have "e = 0" using None by (auto simp: e split: option.splits)
    ultimately show ?thesis unfolding tr by (subst translate_walk_level) (simp add: unf read_entry_Ok [OF rok lt(1)])
  next
    case (Some u)
    then have uok: "table_ok u" using table_at_path(1) [OF inv, of "[i]" u] lt root by simp
    have "ent ?m r i \<noteq> 0" "next_table 0 (ent ?m r i) = Ok \<lparr>pf_start = u\<rparr>"
      using Some next_table_cases [of 0 ?m r i] by (auto simp: empty_entry split: option.splits)
    then have w0: "rpt_translate a s = ?walk 1 \<lparr>pf_start = u\<rparr> s"
      unfolding tr by (subst translate_walk_level) (simp add: unf read_entry_Ok [OF rok lt(1)])
    have node: "node ?m r [i, j] = sub_table ?m u j" using Some by (auto split: option.splits)
    show ?thesis
    proof (cases "sub_table ?m u j")
      case None
      then obtain f where "next_table 1 (ent ?m u j) = Err f" using next_table_cases [of 1 ?m u j] by auto
      moreover have "e = 0" using None node by (simp add: e)
      ultimately show ?thesis unfolding w0 by (subst translate_walk_level) (simp add: unf read_entry_Ok [OF uok lt(2)])
    next
      case sub: (Some t)
      then have tok: "table_ok t" using table_at_path(1) [OF inv, of "[i, j]" t] node lt root by simp
      have "ent ?m u j \<noteq> 0" "next_table 1 (ent ?m u j) = Ok \<lparr>pf_start = t\<rparr>"
        using sub next_table_cases [of 1 ?m u j] by (auto simp: empty_entry)
      then have "?walk 1 \<lparr>pf_start = u\<rparr> s = ?walk 2 \<lparr>pf_start = t\<rparr> s"
        by (subst translate_walk_level) (simp add: unf read_entry_Ok [OF uok lt(2)] numeral_2_eq_2)
      also have "\<dots> = (if e = 0 then Ok None else if \<not> PageTableEntry_is_leaf e then Err (InvalidTableEntry 2)
          else Ok (Some (PageTableEntry_physical_address e + a mod PAGE_SIZE)), s)"
        using sub node by (subst translate_walk_level) (simp add: unf read_entry_Ok [OF tok lt(3)] e sum)
      finally show ?thesis unfolding w0 by auto
    qed
  qed
qed

end
