(* ===== verification/Page_Table_Properties.thy ===== *)
theory Page_Table_Properties
  imports Page_Table_Ops "HOL-Library.Multiset"
begin

text \<open>
  Runtime page tables as a whole: the wrapper that guards the kernel half of user roots, sequences of operations and
  why they leave another root alone, what a new user root shares with the kernel, and the removal of empty tables.
\<close>

section \<open>The wrapper\<close>

definition denied :: "table_machine \<Rightarrow> VirtPage \<Rightarrow> bool" where
  "denied s page \<longleftrightarrow> rpt_owner (tm_self s) \<noteq> None \<and> \<not> VirtRange_contains USER_RANGE (vp_start page)"

lemma ensure_mutable_page_eq:
  "sseq (ensure_mutable_page page) act s = (if denied s page then (Err KernelMappingMutationDenied, s) else act s)"
  by (simp add: ensure_mutable_page_def denied_def sseq_def sbind_def sget_def sfail_def sreturn_def)

lemma RuntimePageTable_map_page_cases:
  assumes inv: "pt_inv s" and ok: "page_ok page" and f: "frame_ok frame"
  shows "case RuntimePageTable_map_page reserve_ok page frame options s of
      (Ok _, s') \<Rightarrow> \<not> denied s page \<and> is_canonical (vp_start page) \<and> entry_of s page = 0 \<and> (\<exists>v new.
        PageTableEntry_leaf frame options = Ok v \<and> pt_step s ((entry_of s)(page := v)) (path_tables s page) new s')
    | (Err e, s') \<Rightarrow> pt_step s (entry_of s) {} [] s' \<and> (entry_of s page \<noteq> 0 \<longrightarrow>
        e = KernelMappingMutationDenied \<or> e = PageTableEntryRejected \<or> e = AlreadyMapped)
    | (Panic, s') \<Rightarrow> False"
proof -
  note refl = pt_step_refl [OF inv]
  note unf = RuntimePageTable_map_page_def ensure_mutable_page_eq imp_map_page_def
  consider "denied s page" | "\<not> denied s page" "indices (vp_start page) = None"
    | xs e where "\<not> denied s page" "indices (vp_start page) = Some xs" "PageTableEntry_leaf frame options = Err e"
    | xs v where "\<not> denied s page" "indices (vp_start page) = Some xs" "PageTableEntry_leaf frame options = Ok v"
    using new_leaf_no_panic [OF f, of options] by (cases "indices (vp_start page)"; cases "PageTableEntry_leaf frame options")
      (auto simp: new_leaf_def)
  then show ?thesis
  proof cases
    case 4
    then obtain i j k where xs: "xs = [i, j, k]" "i < 512" "j < 512" "k < 512" by (auto elim: indicesE)
    have can: "is_canonical (vp_start page)" using 4(2) by (simp add: indices_Some)
    have out: "map_outcome s page v (map_walk reserve_ok xs v 0 (rpt_root (tm_self s)) s)"
      using map_walk_cases [OF inv ok _ xs(2-4)] 4(2) xs(1) by simp
    have "RuntimePageTable_map_page reserve_ok page frame options s = map_walk reserve_ok xs v 0 (rpt_root (tm_self s)) s"
      using 4 by (simp add: unf sbind_def slift_def sget_def)
    then show ?thesis using out 4(1,3) can by (auto simp: map_outcome_def split: prod.splits result.splits)
  qed (use refl in \<open>simp_all add: unf sbind_def slift_def sget_def entry_of_def\<close>)
qed

lemma wrapped_modify_cases:
  assumes inv: "pt_inv s" and ok: "page_ok page"
  shows "case sseq (ensure_mutable_page page) (modify_leaf page f) s of
      (Ok res, s') \<Rightarrow> \<not> denied s page \<and> PageTableEntry_is_leaf (entry_of s page) \<and> (\<exists>v. f (entry_of s page) = Ok (v, res)
        \<and> pt_step s ((entry_of s)(page := v)) (path_tables s page) [] s')
    | (Err e, s') \<Rightarrow> s' = s \<and> (denied s page \<or> \<not> PageTableEntry_is_leaf (entry_of s page) \<or> f (entry_of s page) = Err e)
    | (Panic, s') \<Rightarrow> f (entry_of s page) = Panic"
  using modify_leaf_cases [OF inv ok, of f]
  by (auto simp: ensure_mutable_page_eq split: prod.splits result.splits)

section \<open>Sequences of operations\<close>

datatype table_op =
    MapPage bool VirtPage PhysFrame MappingOptions
  | ProtectPage VirtPage MappingOptions
  | ReplacePage VirtPage PhysFrame MappingOptions
  | UnmapPage VirtPage

fun table_exec :: "table_op \<Rightarrow> unit table_action" where
  "table_exec (MapPage reserve_ok page frame options) = RuntimePageTable_map_page reserve_ok page frame options"
| "table_exec (ProtectPage page options) = RuntimePageTable_protect_page page options"
| "table_exec (ReplacePage page frame options) = sseq (RuntimePageTable_replace_page page frame options) (sreturn ())"
| "table_exec (UnmapPage page) = sseq (RuntimePageTable_unmap_page page) (sreturn ())"

fun op_page :: "table_op \<Rightarrow> VirtPage" where
  "op_page (MapPage _ page _ _) = page"
| "op_page (ProtectPage page _) = page"
| "op_page (ReplacePage page _ _) = page"
| "op_page (UnmapPage page) = page"

fun op_ok :: "table_op \<Rightarrow> bool" where
  "op_ok (MapPage _ page frame _) \<longleftrightarrow> page_ok page \<and> frame_ok frame"
| "op_ok (ReplacePage page frame _) \<longleftrightarrow> page_ok page \<and> frame_ok frame"
| "op_ok op \<longleftrightarrow> page_ok (op_page op)"

text \<open>Every operation is a step on its page, or leaves all entries as they are.\<close>

definition any_step :: "table_machine \<Rightarrow> VirtPage \<Rightarrow> table_machine \<Rightarrow> bool" where
  "any_step s page s' \<longleftrightarrow> (\<exists>es. pt_step s es {} [] s') \<or> \<not> denied s page \<and> (\<exists>es new. pt_step s es (path_tables s page) new s')"

lemma modify_step:
  assumes inv: "pt_inv s" and ok: "page_ok page" and np: "PageTableEntry_is_leaf (entry_of s page) \<Longrightarrow> f (entry_of s page) \<noteq> Panic"
    and ex: "sseq (ensure_mutable_page page) (modify_leaf page f) s = (r, s')"
  shows "r \<noteq> Panic \<and> any_step s page s'"
proof (cases "denied s page")
  case True
  then show ?thesis using ex pt_step_refl [OF inv, of "{}"] by (auto simp: ensure_mutable_page_eq any_step_def)
next
  case False
  note c = modify_leaf_cases [OF inv ok, of f]
  have ml: "modify_leaf page f s = (r, s')" using ex False by (simp add: ensure_mutable_page_eq)
  show ?thesis
  proof (cases "PageTableEntry_is_leaf (entry_of s page)")
    case True
    then show ?thesis using c np ml False pt_step_refl [OF inv, of "{}"] by (cases r) (auto simp: any_step_def)
  next
    case nl: False
    then obtain e where "leaf_entry page s = (Err e, s)" using leaf_entry_cases [OF inv, of page] by auto
    then show ?thesis using ml pt_step_refl [OF inv, of "{}"] by (auto simp: modify_leaf_def sbind_def any_step_def)
  qed
qed

lemma leaf_frame_ok: "frame_ok \<lparr>pf_start = PageTableEntry_physical_address e\<rparr>"
proof -
  have "PAGE_SIZE dvd PageTableEntry_physical_address e"
    by (simp add: PageTableEntry_physical_address_def Let_def PAGE_SIZE_def push_bit_eq_mult)
  then show ?thesis using physical_address_bound [of e] by (simp add: frame_ok_def usize_MAX_def)
qed

lemma table_exec_step:
  assumes inv: "pt_inv s" and ok: "op_ok op" and ex: "table_exec op s = (r, s')"
  shows "r \<noteq> Panic \<and> any_step s (op_page op) s'"
proof (cases op)
  case (MapPage reserve_ok page frame options)
  then show ?thesis using RuntimePageTable_map_page_cases [OF inv, of page frame options reserve_ok] ok ex
    by (cases r) (auto simp: any_step_def)
next
  case (ProtectPage page options)
  then show ?thesis using ok ex
    by (simp, intro modify_step [OF inv, of page "\<lambda>old. rbind (frame_of_leaf old) (\<lambda>f. rbind (new_leaf f options) (\<lambda>v. Ok (v, ())))" r s'])
      (auto simp: RuntimePageTable_protect_page_def imp_protect_page_modify frame_of_leaf_Ok rbind_case new_leaf_no_panic leaf_frame_ok
        split: result.splits)
next
  case (ReplacePage page frame options)
  obtain r2 where r2: "RuntimePageTable_replace_page page frame options s = (r2, s')" "r2 = Panic \<longleftrightarrow> r = Panic"
    using ReplacePage ex by (auto simp: sseq_def sbind_def sreturn_def split: prod.splits result.splits)
  then show ?thesis using ReplacePage ok
      modify_step [OF inv, of page "\<lambda>old. rbind (frame_of_leaf old) (\<lambda>f. rbind (new_leaf frame options) (\<lambda>v. Ok (v, f)))" r2 s']
      new_leaf_no_panic [of frame options]
    by (auto simp: RuntimePageTable_replace_page_def imp_replace_page_modify frame_of_leaf_Ok rbind_case split: result.splits)
next
  case (UnmapPage page)
  obtain r2 where r2: "RuntimePageTable_unmap_page page s = (r2, s')" "r2 = Panic \<longleftrightarrow> r = Panic"
    using UnmapPage ex by (auto simp: sseq_def sbind_def sreturn_def split: prod.splits result.splits)
  then show ?thesis using UnmapPage ok modify_step [OF inv, of page "\<lambda>old. rbind (frame_of_leaf old) (\<lambda>f. Ok (0, f))" r2 s']
    by (auto simp: RuntimePageTable_unmap_page_def imp_unmap_page_modify frame_of_leaf_Ok)
qed

section \<open>Isolation of the kernel root\<close>

text \<open>The root of a table and the tables below its lower half.\<close>

definition private_tables :: "table_machine \<Rightarrow> PhysAddr set" where
  "private_tables s = {t. \<exists>p. path p \<and> (p \<noteq> [] \<longrightarrow> hd p < 256) \<and> node (mc_memory s) (root_of s) p = Some t}"

text \<open>
  The tables of another root are in use and none of them is private to this one. They may be shared below the upper
  half.
\<close>

definition separate_root :: "table_machine \<Rightarrow> PhysAddr \<Rightarrow> bool" where
  "separate_root s K \<longleftrightarrow> tree (mc_memory s) K
     \<and> (\<forall>t \<in> tables (mc_memory s) K. t div PAGE_SIZE \<notin> free_pages s \<and> t \<notin> private_tables s)"

lemma user_path_private:
  assumes "VirtRange_contains USER_RANGE (vp_start page)"
  shows "path_tables s page \<subseteq> private_tables s"
proof
  fix t
  assume "t \<in> path_tables s page"
  then obtain xs n where t: "indices (vp_start page) = Some xs" "n \<le> 2" "node (mc_memory s) (root_of s) (take n xs) = Some t"
    by (auto simp: path_tables_def)
  have xs: "xs = [index_of 30 (vp_start page), index_of 21 (vp_start page), index_of 12 (vp_start page)]"
    using t(1) by (simp add: indices_Some)
  have "vp_start page < 2 ^ 38" using assms by (simp add: VirtRange_contains_def USER_RANGE_def)
  then have "vp_start page div 2 ^ 30 < 256" by (simp add: div_less_iff_less_mult)
  then have "index_of 30 (vp_start page) < 256" by (simp add: index_of_def)
  moreover have "set (take n xs) \<subseteq> set xs" by (rule set_take_subset)
  then have "path (take n xs)" using t(2) by (auto simp: path_def xs index_of_less)
  ultimately show "t \<in> private_tables s" using t(3) xs unfolding private_tables_def
    by (intro CollectI exI [of _ "take n xs"]) (cases n; simp)
qed

lemma separate_step:
  assumes inv: "pt_inv s" and sep: "separate_root s K" and st: "pt_step s es ts new s'" and ts: "ts \<subseteq> private_tables s"
  shows "separate_root s' K"
    and "i < 512 \<Longrightarrow> j < 512 \<Longrightarrow> k < 512 \<Longrightarrow> leaf_at (mc_memory s') K i j k = leaf_at (mc_memory s) K i j k"
proof -
  note st = st [unfolded pt_step_def]
  have same: "ent (mc_memory s') t i = ent (mc_memory s) t i" if t: "t \<in> tables (mc_memory s) K" "i < 512" for t i
  proof (rule ccontr)
    assume "ent (mc_memory s') t i \<noteq> ent (mc_memory s) t i"
    then have "(t + 8 * i) div PAGE_SIZE \<in> free_pages s \<union> (\<lambda>t. t div PAGE_SIZE) ` ts" using st unfolding ent_def by blast
    moreover have td: "PAGE_SIZE dvd t" using sep t by (auto simp: separate_root_def intro: tree_dvd)
    ultimately obtain u where u: "u \<in> ts" "t div PAGE_SIZE = u div PAGE_SIZE"
      using cell_page [OF _ t(2)] sep t by (auto simp: separate_root_def)
    have "PAGE_SIZE dvd u" using u(1) ts inv tree_dvd [of "mc_memory s" "root_of s" u]
      by (auto simp: private_tables_def pt_inv_def tables_def)
    then have "t = u" using td u(2) by (metis dvd_div_mult_self)
    then show False using u(1) ts t sep by (auto simp: separate_root_def)
  qed
  note agree = tree_agree [of "mc_memory s" K, OF same, simplified]
  show "leaf_at (mc_memory s') K i j k = leaf_at (mc_memory s) K i j k" if "i < 512" "j < 512" "k < 512"
    using agree(3) that .
  have "t div PAGE_SIZE \<notin> free_pages s' \<and> t \<notin> private_tables s'" if t: "t \<in> tables (mc_memory s) K" for t
  proof -
    have nf: "t div PAGE_SIZE \<notin> free_pages s" "t \<notin> private_tables s" using sep t by (auto simp: separate_root_def)
    moreover have "root_of s' = root_of s" using st by auto
    moreover have "t div PAGE_SIZE \<notin> table_pages new" "t div PAGE_SIZE \<notin> free_pages s'" using st nf(1) by auto
    ultimately show ?thesis using st by (auto simp: private_tables_def)
  qed
  then show "separate_root s' K" using sep agree by (simp add: separate_root_def)
qed

fun table_run :: "table_op list \<Rightarrow> table_machine \<Rightarrow> table_machine" where
  "table_run [] s = s"
| "table_run (op # ops) s = table_run ops (snd (table_exec op s))"

lemma table_run_separate:
  assumes "pt_inv s" "rpt_owner (tm_self s) \<noteq> None" "separate_root s K" "list_all op_ok ops"
  shows "pt_inv (table_run ops s) \<and> (\<forall>i j k. i < 512 \<and> j < 512 \<and> k < 512 \<longrightarrow>
    leaf_at (mc_memory (table_run ops s)) K i j k = leaf_at (mc_memory s) K i j k)"
  using assms
proof (induction ops arbitrary: s)
  case (Cons op ops)
  obtain r s' where ex: "table_exec op s = (r, s')" by fastforce
  have "any_step s (op_page op) s'" using table_exec_step [OF Cons.prems(1) _ ex] Cons.prems(4) by simp
  then obtain es ts new where st: "pt_step s es ts new s'" and ts: "ts = {} \<or> ts = path_tables s (op_page op) \<and> \<not> denied s (op_page op)"
    by (auto simp: any_step_def)
  have "ts \<subseteq> private_tables s" using ts user_path_private Cons.prems(2) by (auto simp: denied_def)
  note sep = separate_step [OF Cons.prems(1,3) st this]
  have "rpt_owner (tm_self s') \<noteq> None" using pt_stepD(4) [OF st] Cons.prems(2) by simp
  then show ?case using Cons.IH [OF pt_stepD(1) [OF st] _ sep(1)] Cons.prems(4) sep(2) ex by simp
qed simp

section \<open>New user roots\<close>

lemma canonical_half:
  assumes "is_canonical a" "a \<le> usize_MAX"
  shows "256 \<le> index_of 30 a \<longleftrightarrow> \<not> VirtRange_contains USER_RANGE a"
proof (cases "a < 2 ^ 38")
  case True
  then have "a div 2 ^ 30 < 256" by (simp add: div_less_iff_less_mult)
  then show ?thesis using True by (simp add: index_of_def VirtRange_contains_def USER_RANGE_def)
next
  case False
  then have "2 ^ 64 - 2 ^ 38 \<le> a" using assms(1) by (simp add: is_canonical_def layout_constants)
  then have lo: "2 ^ 34 - 256 \<le> a div 2 ^ 30" by (simp add: less_eq_div_iff_mult_less_eq)
  have "a < 2 ^ 64" using assms(2) by (simp add: usize_MAX_def)
  then have hi: "a div 2 ^ 30 < 2 ^ 34" by (simp add: div_less_iff_less_mult)
  let ?q = "a div 2 ^ 30"
  have "?q = (?q - (2 ^ 34 - 512)) + (2 ^ 25 - 1) * 512" using lo by simp
  then have "?q mod 512 = (?q - (2 ^ 34 - 512)) mod 512" by (metis mod_mult_self1)
  also have "\<dots> = ?q - (2 ^ 34 - 512)" using hi by (intro mod_less) simp
  finally have "256 \<le> index_of 30 a" using lo by (simp add: index_of_def)
  then show ?thesis using False by (simp add: VirtRange_contains_def USER_RANGE_def)
qed

definition upper_half :: "nat list" where
  "upper_half = [256..<512]"

lemma upper_half_eq: "[ENTRIES_PER_TABLE div 2..<ENTRIES_PER_TABLE] = upper_half"
  unfolding upper_half_def by (rule arg_cong2 [where f = upt]) (simp_all add: ENTRIES_PER_TABLE_def)

lemma set_upper_half: "set upper_half = {256..<512}"
  unfolding upper_half_def by (rule set_upt)

definition copied :: "PhysAddr \<Rightarrow> PhysAddr \<Rightarrow> nat list \<Rightarrow> memory \<Rightarrow> memory" where
  "copied r K is m = fold (\<lambda>i m. m(r + 8 * i := ent m K i)) is m"

lemma sync_copied:
  assumes "table_ok r" "table_ok K" "\<forall>i \<in> set is. i < 512"
  shows "sforeach (copy_kernel_entry \<lparr>pf_start = r\<rparr> \<lparr>pf_start = K\<rparr>) is s =
    (Ok (), s\<lparr>mc_memory := copied r K is (mc_memory s)\<rparr>)"
  using assms(3)
proof (induction "is" arbitrary: s)
  case (Cons i "is")
  have "copy_kernel_entry \<lparr>pf_start = r\<rparr> \<lparr>pf_start = K\<rparr> i s =
      (Ok (), s\<lparr>mc_memory := (mc_memory s)(r + 8 * i := ent (mc_memory s) K i)\<rparr>)"
    using Cons.prems by (simp add: copy_kernel_entry_def sbind_def read_entry_Ok [OF assms(2)] write_entry_Ok [OF assms(1)])
  then show ?case using Cons by (simp add: sseq_def sbind_def copied_def)
qed (simp add: sreturn_def copied_def)

lemma copied_cells:
  assumes "PAGE_SIZE dvd r" "PAGE_SIZE dvd K" "r \<noteq> K" "\<forall>i \<in> set is. i < 512"
  shows "(\<forall>x. x div PAGE_SIZE \<noteq> r div PAGE_SIZE \<longrightarrow> copied r K is m x = m x)
    \<and> (\<forall>i < 512. ent (copied r K is m) r i = (if i \<in> set is then ent m K i else ent m r i))"
  using assms(4)
proof (induction "is" arbitrary: m)
  case (Cons j "is")
  have j: "j < 512" using Cons.prems by simp
  define m1 where "m1 = m(r + 8 * j := ent m K j)"
  have "\<forall>x. x div PAGE_SIZE \<noteq> r div PAGE_SIZE \<longrightarrow> m1 x = m x" "\<forall>i < 512. ent m1 K i = ent m K i"
    "\<forall>i < 512. ent m1 r i = (if i = j then ent m K i else ent m r i)"
    using j assms(1-3) cell_page [OF assms(1) j] by (auto simp: m1_def ent_update)
  moreover have "copied r K (j # is) m = copied r K is m1" by (simp add: copied_def m1_def)
  ultimately show ?case using Cons.IH [of m1] Cons.prems by auto
qed (simp add: copied_def)

text \<open>The tree of a root that copies the upper half of another one.\<close>

lemma half_root:
  assumes K: "tree m K" and r: "table_ok r" "r \<notin> tables m K"
    and low: "\<And>i. i < 256 \<Longrightarrow> ent m r i = 0" and high: "\<And>i. 256 \<le> i \<Longrightarrow> i < 512 \<Longrightarrow> ent m r i = ent m K i"
  shows "\<And>p. path p \<Longrightarrow> node m r p = (if p = [] then Some r else if hd p < 256 then None else node m K p)"
    and "tree m r" "tables m r \<subseteq> insert r (tables m K)"
    and "i < 512 \<Longrightarrow> leaf_at m r i j k = (if i < 256 then 0 else leaf_at m K i j k)"
proof -
  show node: "node m r p = (if p = [] then Some r else if hd p < 256 then None else node m K p)" if "path p" for p
  proof (cases p)
    case (Cons i q)
    then have "i < 512" using that by (simp add: path_def)
    then have "sub_table m r i = (if i < 256 then None else sub_table m K i)"
      using low high [of i] by (auto simp: empty_entry) (simp add: sub_table_def)
    with Cons show ?thesis by simp
  qed simp
  show sub: "tables m r \<subseteq> insert r (tables m K)"
    by (auto simp: tables_def node split: if_splits)
  show "tree m r"
    unfolding tree_def
  proof (intro conjI ballI allI impI)
    show "table_ok t" if "t \<in> tables m r" for t using that sub r(1) tree_ok [OF K] by auto
  next
    fix p q
    assume pq: "path p \<and> path q \<and> node m r p \<noteq> None \<and> node m r p = node m r q"
    then have "p = [] \<longleftrightarrow> q = []" using r(2) by (auto simp: node tables_def split: if_splits)
    then show "p = q" using pq tree_inj [OF K, of p q] by (auto simp: node split: if_splits) (metis)
  qed
  show "leaf_at m r i j k = (if i < 256 then 0 else leaf_at m K i j k)" if "i < 512"
  proof -
    have "sub_table m r i = (if i < 256 then None else sub_table m K i)"
      using low high [of i] that by (auto simp: empty_entry) (simp add: sub_table_def)
    then show ?thesis by (simp add: leaf_at_def)
  qed
qed

text \<open>The memory after a new root has been filled from the kernel root.\<close>

lemma new_root_memory:
  assumes kinv: "pt_inv (s\<lparr>tm_self := kt\<rparr>)" and b: "mc_page_allocator s = Some b" and fresh: "fresh_table s b a s1 b'"
  defines "K \<equiv> pf_start (rpt_root kt)" and "r \<equiv> pf_start (pa_start a)"
  obtains m where "imp_synchronize_kernel_mappings (pa_start a) (rpt_root kt) s1 = (Ok (), (set_buddy b' s)\<lparr>mc_memory := m\<rparr>)"
    "buddy_mapped b'" "{p. is_free b' p} = free_pages s - {r div PAGE_SIZE}"
    "tree m K" "tables m K = tables (mc_memory s) K" "tree m r" "tables m r \<subseteq> insert r (tables (mc_memory s) K)"
    "r \<notin> tables (mc_memory s) K" "\<And>t. t \<in> tables (mc_memory s) K \<Longrightarrow> t div PAGE_SIZE \<notin> free_pages s"
    "\<And>p. path p \<Longrightarrow> node m r p = (if p = [] then Some r else if hd p < 256 then None else node m K p)"
    "\<And>i j k. i < 512 \<Longrightarrow> j < 512 \<Longrightarrow> k < 512 \<Longrightarrow> leaf_at m K i j k = leaf_at (mc_memory s) K i j k"
    "\<And>i j k. i < 512 \<Longrightarrow> leaf_at m r i j k = (if i < 256 then 0 else leaf_at m K i j k)"
proof -
  let ?ks = "s\<lparr>tm_self := kt\<rparr>"
  obtain t m1 where f: "pa_start a = \<lparr>pf_start = t\<rparr>" "s1 = (set_buddy b' s)\<lparr>mc_memory := m1\<rparr>" "buddy_mapped b'" "table_ok t"
    "t div PAGE_SIZE \<in> free_pages s" "{p. is_free b' p} = free_pages s - {t div PAGE_SIZE}"
    "\<And>x. x div PAGE_SIZE \<noteq> t div PAGE_SIZE \<Longrightarrow> m1 x = mc_memory s x" "\<And>i. i < 512 \<Longrightarrow> ent m1 t i = 0"
    by (rule fresh_tableD [OF fresh b]) blast
  obtain K' where K': "rpt_root kt = \<lparr>pf_start = K'\<rparr>" by (cases "rpt_root kt")
  have r: "r = t" "K = K'" by (simp_all add: r_def K_def f(1) K')
  have free: "free_pages ?ks = free_pages s" by (simp add: free_pages_def)
  have nf: "u div PAGE_SIZE \<notin> free_pages s" if "u \<in> tables (mc_memory s) K" for u
    using that not_a_table [OF kinv, of u] by (auto simp: free K_def)
  have tree: "tree (mc_memory s) K" using kinv by (simp add: pt_inv_def K_def)
  have Kok: "table_ok K" using tree_ok [OF tree] by simp
  have rK: "t \<notin> tables (mc_memory s) K" using nf f(5) by blast
  then have dvd: "PAGE_SIZE dvd t" "PAGE_SIZE dvd K" "t \<noteq> K" using f(4) Kok by (auto simp: table_ok_def)
  define m where "m = copied t K upper_half m1"
  have up: "\<forall>i \<in> set upper_half. i < 512" by (simp add: set_upper_half)
  note cop = copied_cells [OF dvd up, of m1, folded m_def, unfolded set_upper_half]
  have kept: "m x = mc_memory s x" if "x div PAGE_SIZE \<notin> free_pages s" for x
    using that cop f(5,7) by metis
  have same: "ent m u i = ent (mc_memory s) u i" if "u \<in> tables (mc_memory s) K" "i < 512" for u i
    using entries_kept [OF kinv, of u i m] that kept by (simp add: free K_def)
  note agree = tree_agree [of "mc_memory s" K, OF same, simplified]
  have sync: "imp_synchronize_kernel_mappings (pa_start a) (rpt_root kt) s1 = (Ok (), (set_buddy b' s)\<lparr>mc_memory := m\<rparr>)"
    using sync_copied [OF f(4) Kok up, of s1]
    by (simp add: imp_synchronize_kernel_mappings_def upper_half_eq f(1,2) K' r(2) m_def)
  have hi: "ent m t i = ent m K i" if "256 \<le> i" "i < 512" for i
  proof -
    have "ent m t i = ent m1 K i" using cop that by simp
    also have "\<dots> = ent m K i" using cop cell_page [OF dvd(2) that(2)] dvd by (auto simp: ent_def) (metis dvd_div_mult_self)
    finally show ?thesis .
  qed
  have lo: "ent m t i = 0" if "i < 256" for i using cop f(8) that by simp
  have treeK: "tree m K" using agree(2) tree by simp
  have rK': "t \<notin> tables m K" using agree(1) rK by simp
  note half = half_root [OF treeK f(4) rK' lo hi]
  show thesis
    by (rule that [OF sync f(3)]) (use f(6) agree treeK half rK nf in \<open>simp_all add: r(1)\<close>)
qed

definition user_page :: "VirtPage \<Rightarrow> bool" where
  "user_page page = VirtRange_contains USER_RANGE (vp_start page)"

lemma new_user_cases:
  assumes kinv: "pt_inv (s\<lparr>tm_self := kt\<rparr>)" and own: "rpt_owner kt = None"
  shows "case RuntimePageTable_new_user kt s of
      (Ok u, s') \<Rightarrow> pt_inv (s'\<lparr>tm_self := u\<rparr>) \<and> separate_root (s'\<lparr>tm_self := u\<rparr>) (pf_start (rpt_root kt))
        \<and> rpt_owner u \<noteq> None \<and> rpt_tables u = [] \<and> tm_borrowers s' = (tm_borrowers s + 1) mod 2 ^ 64
        \<and> (\<forall>q. page_ok q \<longrightarrow> entry_of (s'\<lparr>tm_self := u\<rparr>) q = (if user_page q then 0 else entry_of (s\<lparr>tm_self := kt\<rparr>) q)
             \<and> entry_of (s'\<lparr>tm_self := kt\<rparr>) q = entry_of (s\<lparr>tm_self := kt\<rparr>) q)
    | (Err e, s') \<Rightarrow> s' = s
    | (Panic, s') \<Rightarrow> False"
proof -
  obtain b where b: "mc_page_allocator s = Some b" "buddy_mapped b" using kinv by (auto simp: pt_inv_def)
  obtain x s1 where x: "allocate_zeroed_table s = (x, s1)" by fastforce
  note cases = allocate_zeroed_table_cases [OF b, unfolded x]
  note unf = RuntimePageTable_new_user_def own sbind_def sseq_def scatch_def Let_def borrow_shared_kernel_root_def smodify_def sreturn_def
  show ?thesis
  proof (cases x)
    case (Ok a)
    then obtain b' where fresh: "fresh_table s b a s1 b'" using cases by auto
    let ?K = "pf_start (rpt_root kt)" and ?r = "pf_start (pa_start a)"
    obtain m where m: "imp_synchronize_kernel_mappings (pa_start a) (rpt_root kt) s1 = (Ok (), (set_buddy b' s)\<lparr>mc_memory := m\<rparr>)"
      "buddy_mapped b'" "{p. is_free b' p} = free_pages s - {?r div PAGE_SIZE}"
      "tree m ?K" "tables m ?K = tables (mc_memory s) ?K" "tree m ?r" "tables m ?r \<subseteq> insert ?r (tables (mc_memory s) ?K)"
      "?r \<notin> tables (mc_memory s) ?K" "\<And>t. t \<in> tables (mc_memory s) ?K \<Longrightarrow> t div PAGE_SIZE \<notin> free_pages s"
      "\<And>p. path p \<Longrightarrow> node m ?r p = (if p = [] then Some ?r else if hd p < 256 then None else node m ?K p)"
      "\<And>i j k. i < 512 \<Longrightarrow> j < 512 \<Longrightarrow> k < 512 \<Longrightarrow> leaf_at m ?K i j k = leaf_at (mc_memory s) ?K i j k"
      "\<And>i j k. i < 512 \<Longrightarrow> leaf_at m ?r i j k = (if i < 256 then 0 else leaf_at m ?K i j k)"
      by (rule new_root_memory [OF kinv b(1) fresh]) blast
    have free: "is_free b' p \<longleftrightarrow> p \<in> free_pages s \<and> p \<noteq> ?r div PAGE_SIZE" for p using m(3) by blast
    let ?u = "\<lparr>rpt_root = pa_start a, rpt_tables = [], rpt_owner = Some a\<rparr>"
    let ?s = "(set_buddy b' s)\<lparr>mc_memory := m, tm_borrowers := (tm_borrowers s + 1) mod 2 ^ 64\<rparr>"
    have run: "RuntimePageTable_new_user kt s = (Ok ?u, ?s)" using Ok x m(1) by (simp add: unf)
    have "pt_inv (?s\<lparr>tm_self := ?u\<rparr>)" using m(2,6,7,9) by (auto simp: pt_inv_def free)
    moreover have "separate_root (?s\<lparr>tm_self := ?u\<rparr>) ?K"
      using m(4,5,8,9) by (auto simp: separate_root_def free_pages_def free private_tables_def m(10) split: if_splits)
    moreover have "entry_of (?s\<lparr>tm_self := ?u\<rparr>) q = (if user_page q then 0 else entry_of (s\<lparr>tm_self := kt\<rparr>) q)
        \<and> entry_of (?s\<lparr>tm_self := kt\<rparr>) q = entry_of (s\<lparr>tm_self := kt\<rparr>) q" if "page_ok q" for q
    proof (cases "indices (vp_start q)")
      case (Some xs)
      then have xs: "is_canonical (vp_start q)" "xs = [index_of 30 (vp_start q), index_of 21 (vp_start q), index_of 12 (vp_start q)]"
        by (simp_all add: indices_Some)
      then have "user_page q \<longleftrightarrow> index_of 30 (vp_start q) < 256"
        using canonical_half [of "vp_start q"] that by (auto simp: user_page_def page_ok_def)
      then show ?thesis using Some m(11,12) by (simp add: entry_of_def xs(2) index_of_less)
    qed (simp add: entry_of_def)
    ultimately show ?thesis unfolding run by simp
  qed (use x cases in \<open>auto simp: unf\<close>)
qed

section \<open>Reclaiming empty tables\<close>

lemma mset_vec_swap_remove:
  assumes "i < length xs"
  shows "mset xs = add_mset (xs ! i) (mset (vec_swap_remove i xs))"
proof -
  obtain ys y where xs: "xs = ys @ [y]" using assms by (cases xs rule: rev_cases) auto
  show ?thesis
  proof (cases "i < length ys")
    case True
    then have "vec_swap_remove i xs = ys[i := y]" by (simp add: vec_swap_remove_def xs list_update_append)
    with True show ?thesis by (simp add: xs mset_update nth_append)
  next
    case False
    with assms have "i = length ys" by (simp add: xs)
    then show ?thesis by (simp add: vec_swap_remove_def xs)
  qed
qed

text \<open>
  The effect of taking tables out: no entry of any page changes, the tables taken out were owned and are no longer
  part of the tree, and only the given tables have been written.
\<close>

definition reclaimed :: "table_machine \<Rightarrow> PhysAddr set \<Rightarrow> PageAllocation list \<Rightarrow> table_machine \<Rightarrow> bool" where
  "reclaimed s ts gone s' \<longleftrightarrow> pt_inv s' \<and> (\<forall>q. entry_of s' q = entry_of s q)
     \<and> (\<exists>m tabs. s' = s\<lparr>mc_memory := m, tm_self := (tm_self s)\<lparr>rpt_tables := tabs\<rparr>, tm_retired := tm_retired s @ gone\<rparr>
          \<and> mset (rpt_tables (tm_self s)) = mset tabs + mset gone)
     \<and> tables (mc_memory s') (root_of s) \<subseteq> tables (mc_memory s) (root_of s)
     \<and> (\<forall>a \<in> set gone. pf_start (pa_start a) \<in> tables (mc_memory s) (root_of s)
          \<and> pf_start (pa_start a) \<notin> tables (mc_memory s') (root_of s))
     \<and> (\<forall>x. mc_memory s' x \<noteq> mc_memory s x \<longrightarrow> x div PAGE_SIZE \<in> (\<lambda>t. t div PAGE_SIZE) ` ts)"

lemma reclaimed_refl: "pt_inv s \<Longrightarrow> reclaimed s ts [] s"
  by (auto simp: reclaimed_def intro!: exI [of _ "mc_memory s"] exI [of _ "rpt_tables (tm_self s)"])

lemma reclaimed_trans:
  assumes "reclaimed s ts a s1" "reclaimed s1 ts b s2"
  shows "reclaimed s ts (a @ b) s2"
proof -
  note 1 = assms(1) [unfolded reclaimed_def] and 2 = assms(2) [unfolded reclaimed_def]
  obtain m1 tabs1 where s1: "s1 = s\<lparr>mc_memory := m1, tm_self := (tm_self s)\<lparr>rpt_tables := tabs1\<rparr>, tm_retired := tm_retired s @ a\<rparr>"
    "mset (rpt_tables (tm_self s)) = mset tabs1 + mset a" using 1 by blast
  obtain m2 tabs2 where s2: "s2 = s1\<lparr>mc_memory := m2, tm_self := (tm_self s1)\<lparr>rpt_tables := tabs2\<rparr>, tm_retired := tm_retired s1 @ b\<rparr>"
    "mset (rpt_tables (tm_self s1)) = mset tabs2 + mset b" using 2 by blast
  have root: "root_of s1 = root_of s" by (simp add: s1(1))
  have "s2 = s\<lparr>mc_memory := m2, tm_self := (tm_self s)\<lparr>rpt_tables := tabs2\<rparr>, tm_retired := tm_retired s @ a @ b\<rparr>
      \<and> mset (rpt_tables (tm_self s)) = mset tabs2 + mset (a @ b)" using s1 s2 by simp
  moreover have "x div PAGE_SIZE \<in> (\<lambda>t. t div PAGE_SIZE) ` ts" if "mc_memory s2 x \<noteq> mc_memory s x" for x
    using that 1 2 by (cases "mc_memory s1 x = mc_memory s x") auto
  ultimately show ?thesis using 1 2 unfolding reclaimed_def root by (auto simp: subset_iff)
qed

lemma take_table:
  assumes inv: "pt_inv s" and q: "path q" "length q < 2" "node (mc_memory s) (root_of s) q = Some u" and i: "i < 512"
    and t: "sub_table (mc_memory s) u i = Some t" and zero: "\<And>c. c < 512 \<Longrightarrow> ent (mc_memory s) t c = 0"
    and n: "n < length (rpt_tables (tm_self s))" "pa_start (rpt_tables (tm_self s) ! n) = \<lparr>pf_start = t\<rparr>" and u: "u \<in> ts"
  shows "reclaimed s ts [rpt_tables (tm_self s) ! n]
    (s\<lparr>mc_memory := (mc_memory s)(u + 8 * i := 0), tm_self := (tm_self s)\<lparr>rpt_tables := vec_swap_remove n (rpt_tables (tm_self s))\<rparr>,
       tm_retired := tm_retired s @ [rpt_tables (tm_self s) ! n]\<rparr>)" (is "reclaimed s ts _ ?s")
proof -
  let ?m = "mc_memory s" and ?r = "root_of s"
  have tree: "tree ?m ?r" using inv by (simp add: pt_inv_def)
  have nt: "node ?m ?r (q @ [i]) = Some t" using q(3) t by (simp add: node_append)
  have tt: "t \<in> tables ?m ?r" using tablesI [OF _ nt] q i by (auto simp: path_def)
  have empty: "leaf_at ?m ?r a b c = 0" if e: "[a, b] = q @ i # rest" "b < 512" "c < 512" for a b c rest
  proof (cases rest)
    case Nil
    then have ab: "[a, b] = q @ [i]" using e(1) by simp
    show ?thesis unfolding leaf_at_def ab using nt zero e(3) by simp
  next
    case (Cons d rest')
    then have "q = []" "a = i" using e(1) by (auto simp: Cons_eq_append_conv)
    then show ?thesis using q(3) t zero [OF e(2)] by (simp add: leaf_at_def empty_entry)
  qed
  then have "\<forall>a b c rest. [a, b] = q @ i # rest \<and> b < 512 \<and> c < 512 \<longrightarrow> leaf_at ?m ?r a b c = 0" by blast
  note pr = prune [OF tree q i this]
  have "entry_of ?s p = entry_of s p" for p
    using pr(4) by (auto simp: entry_of_def elim!: indicesE split: option.splits)
  moreover have "pt_inv ?s" using inv pr(1,2) by (auto simp: pt_inv_def)
  moreover have "(u + 8 * i) div PAGE_SIZE = u div PAGE_SIZE"
    using cell_page [OF tree_dvd [OF tree tablesI [OF q(1,3)]] i] .
  ultimately show ?thesis using pr(2) pr(3) [OF t] mset_vec_swap_remove [OF n(1)] tt n(2) u
    by (auto simp: reclaimed_def)
qed

lemma table_is_filled_Ok:
  assumes "table_ok t"
  shows "table_is_filled \<lparr>pf_start = t\<rparr> v s = (Ok (\<forall>c < 512. ent (mc_memory s) t c = v), s)"
proof -
  obtain u where "table_ptr (mc_translation s) \<lparr>pf_start = t\<rparr> = Ok u" using table_ptr_Ok [OF assms] by blast
  then show ?thesis
    by (auto simp: table_is_filled_def sread_def table_at_def list_all_iff ENTRIES_PER_TABLE_def ent_def)
qed

text \<open>One turn of the loop, at the entry \<open>i\<close> of the parent \<open>u\<close>.\<close>

definition reclaim_turn :: "PhysAddr \<Rightarrow> PhysAddr \<Rightarrow> nat \<Rightarrow> table_machine \<Rightarrow> table_machine option" where
  "reclaim_turn t u i s = (case position (\<lambda>a. pa_start a = \<lparr>pf_start = t\<rparr>) (rpt_tables (tm_self s)) of
       None \<Rightarrow> None
     | Some n \<Rightarrow>
         if \<forall>c < 512. ent (mc_memory s) t c = 0
         then Some (s\<lparr>mc_memory := (mc_memory s)(u + 8 * i := 0),
           tm_self := (tm_self s)\<lparr>rpt_tables := vec_swap_remove n (rpt_tables (tm_self s))\<rparr>,
           tm_retired := tm_retired s @ [rpt_tables (tm_self s) ! n]\<rparr>)
         else None)"

lemma reclaim_turn_reclaimed:
  assumes "pt_inv s" "path q" "length q < 2" "node (mc_memory s) (root_of s) q = Some u" "i < 512"
    "sub_table (mc_memory s) u i = Some t" "u \<in> ts" "reclaim_turn t u i s = Some s'"
  shows "\<exists>a. reclaimed s ts [a] s' \<and> mc_memory s' = (mc_memory s)(u + 8 * i := 0)"
proof -
  obtain n where n: "position (\<lambda>a. pa_start a = \<lparr>pf_start = t\<rparr>) (rpt_tables (tm_self s)) = Some n" "\<forall>c < 512. ent (mc_memory s) t c = 0"
    using assms(8) by (auto simp: reclaim_turn_def split: option.splits if_splits)
  have s': "s' = s\<lparr>mc_memory := (mc_memory s)(u + 8 * i := 0),
      tm_self := (tm_self s)\<lparr>rpt_tables := vec_swap_remove n (rpt_tables (tm_self s))\<rparr>,
      tm_retired := tm_retired s @ [rpt_tables (tm_self s) ! n]\<rparr>"
    using assms(8) n by (simp add: reclaim_turn_def)
  have "n < length (rpt_tables (tm_self s))" "pa_start (rpt_tables (tm_self s) ! n) = \<lparr>pf_start = t\<rparr>"
    using position_Some [OF n(1)] by auto
  with take_table [OF assms(1-6) _ _ _ assms(7), of n] n(2) show ?thesis unfolding s' by auto
qed

lemma reclaim_loop_turn:
  assumes u: "table_ok u" and t: "table_ok t" "sub_table (mc_memory s) u i = Some t" "i < 512"
    and idx: "fs ! l = \<lparr>pf_start = t\<rparr>" "fs ! (l - 1) = \<lparr>pf_start = u\<rparr>" "is ! (l - 1) = i"
  shows "reclaim_loop is fs (l # ls) s =
    (case reclaim_turn t u i s of None \<Rightarrow> (Ok (), s) | Some s' \<Rightarrow> reclaim_loop is fs ls s')"
proof -
  have e: "PageTableEntry_is_table (ent (mc_memory s) u i)" "PageTableEntry_frame (ent (mc_memory s) u i) = Some \<lparr>pf_start = t\<rparr>"
    using t(2) by (auto simp: sub_table_def pte_frame_Some PageTableEntry_is_table_def split: if_splits)
  show ?thesis
    unfolding reclaim_loop.simps idx Let_def
    by (auto simp: sbind_def sget_def sseq_def smodify_def reclaim_turn_def table_is_filled_Ok [OF t(1)] e
        read_entry_Ok [OF u t(3)] write_entry_Ok [OF u t(3)] sreturn_def split: option.splits)
qed

lemma reclaim_walk_cases:
  assumes tree: "tree (mc_memory s) r" and lt: "i < 512" "j < 512"
  shows "(\<exists>res. reclaim_walk [i, j, k] [0..<LEVELS - 1] \<lparr>pf_start = r\<rparr> [\<lparr>pf_start = r\<rparr>] s = (res, s) \<and> (res = Ok None \<or> (\<exists>e. res = Err e)))
    \<or> (\<exists>u t. sub_table (mc_memory s) r i = Some u \<and> sub_table (mc_memory s) u j = Some t \<and>
        reclaim_walk [i, j, k] [0..<LEVELS - 1] \<lparr>pf_start = r\<rparr> [\<lparr>pf_start = r\<rparr>] s =
          (Ok (Some [\<lparr>pf_start = r\<rparr>, \<lparr>pf_start = u\<rparr>, \<lparr>pf_start = t\<rparr>]), s))"
proof -
  let ?m = "mc_memory s"
  have l: "[0..<LEVELS - 1] = [0, 1]" by (simp add: LEVELS_def upt_rec)
  have tab: "sub_table ?m t c = (if PageTableEntry_is_table (ent ?m t c) then Some (PageTableEntry_physical_address (ent ?m t c)) else None)"
      for t c by (simp add: sub_table_def PageTableEntry_is_table_def pte_frame_Some)
  have frame: "PageTableEntry_is_table e \<Longrightarrow> PageTableEntry_frame e = Some \<lparr>pf_start = PageTableEntry_physical_address e\<rparr>" for e
    by (simp add: PageTableEntry_is_table_def pte_frame_Some)
  have leaf: "PageTableEntry_is_table e \<Longrightarrow> \<not> PageTableEntry_is_leaf e" for e
    by (simp add: PageTableEntry_is_table_def PageTableEntry_is_leaf_def)
  have r: "read_entry \<lparr>pf_start = r\<rparr> i s = (Ok (ent ?m r i), s)"
    using read_entry_Ok [OF tree_ok [OF tree root_table] lt(1)] .
  note unf = sbind_def slift_def sreturn_def sfail_def
  show ?thesis
  proof (cases "PageTableEntry_is_table (ent ?m r i)")
    case False
    then show ?thesis unfolding l by (simp add: r unf)
  next
    case True
    let ?u = "PageTableEntry_physical_address (ent ?m r i)"
    have u: "sub_table ?m r i = Some ?u" using True by (simp add: tab)
    then have "node ?m r [i] = Some ?u" by simp
    then have "?u \<in> tables ?m r" using tablesI [of "[i]"] lt by simp
    then have ru: "read_entry \<lparr>pf_start = ?u\<rparr> j s = (Ok (ent ?m ?u j), s)" using read_entry_Ok [OF tree_ok [OF tree] lt(2)] by blast
    have nz: "ent ?m r i \<noteq> 0" using u by (auto simp: empty_entry)
    show ?thesis
    proof (cases "PageTableEntry_is_table (ent ?m ?u j)")
      case ut: True
      then have nz2: "ent ?m ?u j \<noteq> 0" by (auto simp: PageTableEntry_is_table_def PageTableEntry_is_valid_def)
      show ?thesis unfolding l using True ut nz nz2 u
        by (simp add: r ru unf frame leaf) (simp add: tab)
    qed (use True nz in \<open>unfold l, simp add: r ru unf frame leaf\<close>)
  qed
qed

lemma imp_reclaim_empty_tables_cases:
  assumes inv: "pt_inv s"
  shows "case imp_reclaim_empty_tables page s of
      (Ok _, s') \<Rightarrow> \<exists>gone. reclaimed s (path_tables s page) gone s'
    | (Err e, s') \<Rightarrow> s' = s
    | (Panic, s') \<Rightarrow> False"
proof (cases "indices (vp_start page)")
  case None
  then show ?thesis by (simp add: imp_reclaim_empty_tables_def sbind_def slift_def)
next
  case (Some xs)
  then obtain i j k where xs: "xs = [i, j, k]" and lt: "i < 512" "j < 512" "k < 512" by (rule indicesE)
  obtain r where root: "rpt_root (tm_self s) = \<lparr>pf_start = r\<rparr>" by (cases "rpt_root (tm_self s)")
  let ?m = "mc_memory s" and ?ts = "path_tables s page"
  have tree: "tree ?m r" using inv root by (simp add: pt_inv_def)
  note refl = reclaimed_refl [OF inv]
  note unf = imp_reclaim_empty_tables_def sbind_def slift_def sget_def sreturn_def
  from reclaim_walk_cases [OF tree lt(1,2), of k] show ?thesis
  proof (elim disjE exE conjE)
    fix u t
    assume u: "sub_table ?m r i = Some u" and t: "sub_table ?m u j = Some t"
      and w: "reclaim_walk [i, j, k] [0..<LEVELS - 1] \<lparr>pf_start = r\<rparr> [\<lparr>pf_start = r\<rparr>] s =
        (Ok (Some [\<lparr>pf_start = r\<rparr>, \<lparr>pf_start = u\<rparr>, \<lparr>pf_start = t\<rparr>]), s)"
    let ?loop = "reclaim_loop [i, j, k] [\<lparr>pf_start = r\<rparr>, \<lparr>pf_start = u\<rparr>, \<lparr>pf_start = t\<rparr>]"
    have nu: "node ?m r [i] = Some u" "node ?m r [i, j] = Some t" using u t by simp_all
    have ok: "table_ok r" "table_ok u" "table_ok t"
      using table_at_path(1) [OF inv, of "[]" r] table_at_path(1) [OF inv, of "[i]" u] table_at_path(1) [OF inv, of "[i, j]" t] nu lt root
      by simp_all
    have ts: "r \<in> ?ts" "u \<in> ?ts" using Some nu(1) root
      by (auto simp: path_tables_def xs simp del: node.simps(2) intro: exI [of _ 0] exI [of _ 1])
    have "rev [1..<LEVELS] = [2, 1]" by (simp add: LEVELS_def upt_rec)
    then have run: "imp_reclaim_empty_tables page s = ?loop [2, 1] s" using Some w by (simp add: unf xs root)
    have step: "?loop [2, 1] s = (case reclaim_turn t u j s of None \<Rightarrow> (Ok (), s) | Some s' \<Rightarrow> ?loop [1] s')"
      by (rule reclaim_loop_turn [OF ok(2,3) t lt(2)]) simp_all
    show ?thesis
    proof (cases "reclaim_turn t u j s")
      case None
      then show ?thesis using run step refl by auto
    next
      case turn: (Some s1)
      obtain a where a: "reclaimed s ?ts [a] s1" "mc_memory s1 = ?m(u + 8 * j := 0)"
        using reclaim_turn_reclaimed [OF inv _ _ _ lt(2) t ts(2) turn, of "[i]"] nu(1) lt(1) root by auto
      have inv1: "pt_inv s1" "root_of s1 = r" using a(1) root by (auto simp: reclaimed_def)
      have "node (mc_memory s1) r [i] = node ?m r [i]"
        using prune_node [OF tree _ _ nu(1) lt(2), of "[i]"] lt a(2) by simp
      then have u1: "sub_table (mc_memory s1) r i = Some u" using nu(1) by (simp split: option.splits)
      have step1: "?loop [1] s1 = (case reclaim_turn u r i s1 of None \<Rightarrow> (Ok (), s1) | Some s' \<Rightarrow> ?loop [] s')"
        by (rule reclaim_loop_turn [OF ok(1,2) u1 lt(1)]) simp_all
      show ?thesis
      proof (cases "reclaim_turn u r i s1")
        case None
        then show ?thesis using run step step1 turn a(1) by auto
      next
        case turn1: (Some s2)
        obtain a' where "reclaimed s1 ?ts [a'] s2"
          using reclaim_turn_reclaimed [OF inv1(1) _ _ _ lt(1) u1 ts(1) turn1, of "[]"] inv1(2) by auto
        then show ?thesis using run step step1 turn turn1 reclaimed_trans [OF a(1)] by (auto simp: sreturn_def)
      qed
    qed
  qed (use Some refl in \<open>auto simp: unf xs root split: prod.splits\<close>)
qed

end
