(* ===== verification/Page_Table_Theorems.thy ===== *)
theory Page_Table_Theorems
  imports Page_Table_Properties
begin

text \<open>
  The properties of runtime page tables, each with an instance on a small table.
\<close>

section \<open>An example\<close>

text \<open>
  A user table whose root is at page 3, with one table at page 4, one at page 5 and the leaf of the page at
  \<open>0x400000\<close> in it.
\<close>

definition table_token :: "nat \<Rightarrow> PageAllocation" where
  "table_token p = \<lparr>pa_start = \<lparr>pf_start = p * PAGE_SIZE\<rparr>, pa_order = 0, pa_zone = Dma32\<rparr>"

definition demo_memory :: "64 word \<Rightarrow> memory" where
  "demo_memory v = (\<lambda>_. 0)(0x5000 + 8 * 0 := v, 0x4000 + 8 * 2 := 0x1401, 0x3000 + 8 * 0 := 0x1001)"

definition demo :: "64 word \<Rightarrow> table_machine" where
  "demo v = \<lparr>mc_page_allocator = Some two_pages, mc_memory = demo_memory v, mc_translation = True, mc_debug = True,
     tm_borrowers = 1, tm_self = \<lparr>rpt_root = \<lparr>pf_start = 0x3000\<rparr>, rpt_tables = [table_token 4, table_token 5],
       rpt_owner = Some (table_token 3)\<rparr>, tm_retired = []\<rparr>"

definition demo_page :: VirtPage where
  "demo_page = \<lparr>vp_start = 0x400000\<rparr>"

lemma demo_simps [simp]:
  "mc_page_allocator (demo v) = Some two_pages" "mc_memory (demo v) = demo_memory v" "root_of (demo v) = 0x3000"
  "rpt_owner (tm_self (demo v)) = Some (table_token 3)" "rpt_root (tm_self (demo v)) = \<lparr>pf_start = 0x3000\<rparr>"
  "rpt_tables (tm_self (demo v)) = [table_token 4, table_token 5]" "mc_translation (demo v) = True"
  by (simp_all add: demo_def)

lemma zero_tree:
  assumes "table_ok r"
  shows "tree (\<lambda>_. 0) r" "tables (\<lambda>_. 0) r = {r}" "leaf_at (\<lambda>_. 0) r i j k = 0"
proof -
  have s: "sub_table (\<lambda>_. 0) t a = None" for t a by (simp add: empty_entry ent_def)
  then have n: "node (\<lambda>_. 0) r p = (if p = [] then Some r else None)" for p by (cases p) auto
  then show "tables (\<lambda>_. 0) r = {r}" by (auto simp: tables_def intro: exI [of _ "[]"])
  then show "tree (\<lambda>_. 0) r" using assms n by (auto simp: tree_def split: if_splits)
  show "leaf_at (\<lambda>_. 0) r i j k = 0" by (simp add: leaf_at_def s)
qed

lemma demo_entries: "links 0x1001 0x4000" "links 0x1401 0x5000"
  by (simp_all add: links_def PageTableEntry_is_table_def PageTableEntry_is_valid_def PTE_VALID_def LEAF_MASK_def PTE_READ_def
      PTE_WRITE_def PTE_EXECUTE_def pte_frame_Some PageTableEntry_physical_address_def Let_def PPN_SHIFT_def PPN_MASK_def
      PPN_VALUE_MASK_def PPN_BITS_def PAGE_SHIFT_def)

lemma demo_tree:
  shows "tree (demo_memory v) 0x3000" "tables (demo_memory v) 0x3000 = {0x4000, 0x5000, 0x3000}"
    "a < 512 \<Longrightarrow> b < 512 \<Longrightarrow> c < 512 \<Longrightarrow>
      leaf_at (demo_memory v) 0x3000 a b c = (if a = 0 \<and> b = 2 \<and> c = 0 then v else 0)"
proof -
  have ok: "table_ok 0x3000" "table_ok 0x4000" "table_ok 0x5000" by (simp_all add: table_ok_def PAGE_SIZE_eq)
  note z = zero_tree [OF ok(1)]
  have "tree (demo_memory v) 0x3000 \<and> tables (demo_memory v) 0x3000 = {0x4000, 0x5000} \<union> tables (\<lambda>_. 0) 0x3000
    \<and> (\<forall>a b c. a < 512 \<and> b < 512 \<and> c < 512 \<longrightarrow> leaf_at (demo_memory v) 0x3000 a b c =
        (if a = 0 \<and> b = 2 \<and> c = 0 then v else leaf_at (\<lambda>_. 0) 0x3000 a b c))"
    unfolding demo_memory_def
    by (intro conjI allI impI store_two [OF z(1)]) (auto simp: ent_def z ok demo_entries)
  then show "tree (demo_memory v) 0x3000" "tables (demo_memory v) 0x3000 = {0x4000, 0x5000, 0x3000}"
    "a < 512 \<Longrightarrow> b < 512 \<Longrightarrow> c < 512 \<Longrightarrow> leaf_at (demo_memory v) 0x3000 a b c = (if a = 0 \<and> b = 2 \<and> c = 0 then v else 0)"
    by (simp_all add: z) auto
qed

lemma demo_inv: "pt_inv (demo v)"
  by (auto simp: pt_inv_def demo_tree two_pages_mapped two_pages_free PAGE_SIZE_eq)

lemma demo_page_indices: "indices 0x400000 = Some [0, 2, 0]"
  by (simp add: indices_Some is_canonical_def layout_constants index_of_def)

lemma demo_page_ok: "page_ok demo_page"
  by (simp add: page_ok_def demo_page_def PAGE_SIZE_eq usize_MAX_def)

lemma demo_entry: "entry_of (demo v) demo_page = v"
  by (simp add: entry_of_def demo_page_def demo_page_indices demo_tree)

text \<open>The next page, whose leaf table exists but whose entry is empty.\<close>

definition next_page :: VirtPage where
  "next_page = \<lparr>vp_start = 0x401000\<rparr>"

definition demo_frame :: PhysFrame where
  "demo_frame = \<lparr>pf_start = 0x80200000\<rparr>"

lemma next_page_indices: "indices 0x401000 = Some [0, 2, 1]"
  by (simp add: indices_Some is_canonical_def layout_constants index_of_def)

lemma next_page_ok: "page_ok next_page" "frame_ok demo_frame" "options_ok MappingOptions_user_data"
  by (simp_all add: page_ok_def frame_ok_def next_page_def demo_frame_def PAGE_SIZE_eq usize_MAX_def options_ok_def
      MappingOptions_user_data_def mapping_option_defs permission_defs)

lemma demo_leaf: "PageTableEntry_leaf demo_frame MappingOptions_user_data = Ok 0x200800d7"
  by (simp add: demo_frame_def PageTableEntry_leaf_def encode_frame_def Let_def MappingOptions_validate_def MappingOptions_user_data_def
      mapping_option_defs permission_defs pte_flags PHYSICAL_ADDRESS_LIMIT_def PHYSICAL_ADDRESS_BITS_def PAGE_SHIFT_def
      PPN_BITS_def PPN_SHIFT_def PPN_MASK_def PPN_VALUE_MASK_def)

lemma demo_cells: "ent (demo_memory v) 0x3000 0 = 0x1001" "ent (demo_memory v) 0x4000 2 = 0x1401"
  "ent (demo_memory v) 0x5000 0 = v" "ent (demo_memory v) 0x5000 (Suc 0) = 0"
  by (simp_all add: ent_def demo_memory_def)

lemma demo_tables: "table_ok 0x3000" "table_ok 0x4000" "table_ok 0x5000"
  by (simp_all add: table_ok_def PAGE_SIZE_eq)

lemma links_next: "links e t \<Longrightarrow> next_table l e = Ok \<lparr>pf_start = t\<rparr>"
  by (simp add: links_def next_table_def PageTableEntry_is_leaf_def PageTableEntry_is_table_def)

lemma demo_map:
  "\<exists>s'. RuntimePageTable_map_page True next_page demo_frame MappingOptions_user_data (demo v) = (Ok (), s')"
proof -
  have "map_walk True [0, 2, 1] 0x200800d7 0 \<lparr>pf_start = 0x3000\<rparr> (demo v) = map_walk True [0, 2, 1] 0x200800d7 1 \<lparr>pf_start = 0x4000\<rparr> (demo v)"
    by (subst map_walk_level) (simp add: sbind_def slift_def read_entry_Ok [OF demo_tables(1)] demo_cells links_next [OF demo_entries(1)])
  also have "\<dots> = map_walk True [0, 2, 1] 0x200800d7 2 \<lparr>pf_start = 0x5000\<rparr> (demo v)"
    by (subst map_walk_level) (simp add: sbind_def slift_def read_entry_Ok [OF demo_tables(2)] demo_cells links_next [OF demo_entries(2)] numeral_2_eq_2 [symmetric])
  also have "fst \<dots> = Ok ()"
    by (subst map_walk_level) (simp add: sbind_def read_entry_Ok [OF demo_tables(3)] write_entry_Ok [OF demo_tables(3)] demo_cells)
  finally obtain s' where "map_walk True [0, 2, 1] 0x200800d7 0 \<lparr>pf_start = 0x3000\<rparr> (demo v) = (Ok (), s')" by (metis prod.collapse)
  then show ?thesis
    by (auto simp: RuntimePageTable_map_page_def ensure_mutable_page_eq denied_def next_page_def VirtRange_contains_def USER_RANGE_def
        imp_map_page_def sbind_def slift_def sget_def next_page_indices demo_leaf)
qed

section \<open>Properties\<close>

text \<open>
  C2. Mapping a page refines the update of one entry. When \<open>map_page\<close> succeeds the page was not mapped, its entry
  is now the leaf for the frame and the options, every other page keeps its entry, and the pages taken for new
  tables were free; memory is written only in pages that were free and in tables on the path of the page.
  When it fails, at whatever point, no entry has changed and every page taken for a table is free again.
  Kernel pages of a user table and mapped pages are refused. There is no panic.
\<close>

theorem RuntimePageTable_map_page_correct:
  assumes "pt_inv s" "page_ok page" "frame_ok frame"
  shows "case RuntimePageTable_map_page reserve_ok page frame options s of
      (Ok _, s') \<Rightarrow> \<not> denied s page \<and> is_canonical (vp_start page) \<and> entry_of s page = 0 \<and> (\<exists>v new.
        PageTableEntry_leaf frame options = Ok v \<and> pt_step s ((entry_of s)(page := v)) (path_tables s page) new s')
    | (Err e, s') \<Rightarrow> pt_step s (entry_of s) {} [] s' \<and> (entry_of s page \<noteq> 0 \<longrightarrow>
        e = KernelMappingMutationDenied \<or> e = PageTableEntryRejected \<or> e = AlreadyMapped)
    | (Panic, s') \<Rightarrow> False"
  by (rule RuntimePageTable_map_page_cases [OF assms])

theorem RuntimePageTable_map_page_witness:
  "\<exists>s'. RuntimePageTable_map_page True next_page demo_frame MappingOptions_user_data (demo 0x200800d7) = (Ok (), s')
    \<and> entry_of s' next_page = 0x200800d7 \<and> entry_of s' demo_page = 0x200800d7 \<and> pt_inv s'"
proof -
  obtain s' where s': "RuntimePageTable_map_page True next_page demo_frame MappingOptions_user_data (demo 0x200800d7) = (Ok (), s')"
    using demo_map by blast
  obtain new where "pt_step (demo 0x200800d7) ((entry_of (demo 0x200800d7))(next_page := 0x200800d7))
      (path_tables (demo 0x200800d7) next_page) new s'"
    using RuntimePageTable_map_page_correct [OF demo_inv [of "0x200800d7"] next_page_ok(1,2),
      where reserve_ok = True and options = MappingOptions_user_data] s'
    by (auto simp: demo_leaf)
  note st = pt_stepD [OF this]
  have "demo_page \<noteq> next_page" by (simp add: demo_page_def next_page_def)
  then show ?thesis using s' st(1) st(3) [OF next_page_ok(1)] st(3) [OF demo_page_ok] by (simp add: demo_entry)
qed

text \<open>
  C17. What has been mapped is what the hardware walk finds. After a successful \<open>map_page\<close>, every address of the page
  translates to the same offset in the frame, and every address outside the page translates exactly to what it
  did before.
\<close>

theorem map_page_translate:
  assumes "pt_inv s" "page_ok page" "frame_ok frame" "options_ok options"
    and "RuntimePageTable_map_page reserve_ok page frame options s = (Ok (), s')" "a \<le> usize_MAX"
  shows "(VirtPage_containing_address a = page \<longrightarrow> rpt_translate a s' = (Ok (Some (pf_start frame + a mod PAGE_SIZE)), s'))
    \<and> (VirtPage_containing_address a \<noteq> page \<longrightarrow>
        (\<forall>x. fst (rpt_translate a s') = Ok (Some x) \<longleftrightarrow> fst (rpt_translate a s) = Ok (Some x)))"
proof -
  obtain v new where v: "PageTableEntry_leaf frame options = Ok v"
    and st: "pt_step s ((entry_of s)(page := v)) (path_tables s page) new s'"
    using RuntimePageTable_map_page_cases [OF assms(1-3), of options reserve_ok] unfolding assms(5) by auto
  let ?q = "VirtPage_containing_address a"
  have e: "entry_of s' ?q = ((entry_of s)(page := v)) ?q" by (rule pt_stepD(3) [OF st page_of_address(2) [OF assms(6)]])
  obtain r where r: "rpt_translate a s = (r, s)"
    "\<forall>x. r = Ok (Some x) \<longleftrightarrow> PageTableEntry_is_leaf (entry_of s ?q) \<and> x = PageTableEntry_physical_address (entry_of s ?q) + a mod PAGE_SIZE"
    using rpt_translate_cases [OF assms(1,6)] by blast
  obtain r' where r': "rpt_translate a s' = (r', s')"
    "\<forall>x. r' = Ok (Some x) \<longleftrightarrow> PageTableEntry_is_leaf (entry_of s' ?q) \<and> x = PageTableEntry_physical_address (entry_of s' ?q) + a mod PAGE_SIZE"
    using rpt_translate_cases [OF pt_stepD(1) [OF st] assms(6)] by blast
  show ?thesis using r r' e PageTableEntry_leaf_decode [OF assms(3,4) v] by simp
qed

theorem map_page_translate_witness:
  "\<exists>s'. RuntimePageTable_map_page True next_page demo_frame MappingOptions_user_data (demo 0) = (Ok (), s')
    \<and> rpt_translate 0x401abc s' = (Ok (Some 0x80200abc), s')"
proof -
  obtain s' where s': "RuntimePageTable_map_page True next_page demo_frame MappingOptions_user_data (demo 0) = (Ok (), s')"
    using demo_map by blast
  have "VirtPage_containing_address 0x401abc = next_page"
    using page_of_address(1) [of "0x401abc"] by (cases "VirtPage_containing_address 0x401abc")
      (simp add: next_page_def PAGE_SIZE_eq usize_MAX_def)
  with s' map_page_translate [OF demo_inv next_page_ok s', where a = "0x401abc"] show ?thesis
    by (simp add: demo_frame_def PAGE_SIZE_eq usize_MAX_def)
qed

text \<open>
  C21. Unmapping clears exactly one entry. \<open>unmap_page\<close> succeeds exactly when the page has a leaf entry that the table
  may change; it returns the frame of the entry, after it no address of the page translates, and every other
  page keeps its entry. Otherwise nothing changes. No table is freed and there is no panic.
\<close>

theorem RuntimePageTable_unmap_page_correct:
  assumes "pt_inv s" "page_ok page"
  shows "if \<not> denied s page \<and> PageTableEntry_is_leaf (entry_of s page)
    then \<exists>s'. RuntimePageTable_unmap_page page s = (Ok \<lparr>pf_start = PageTableEntry_physical_address (entry_of s page)\<rparr>, s')
      \<and> pt_step s ((entry_of s)(page := 0)) (path_tables s page) [] s'
      \<and> (\<forall>a x. a \<le> usize_MAX \<and> VirtPage_containing_address a = page \<longrightarrow> fst (rpt_translate a s') \<noteq> Ok (Some x))
    else \<exists>e. RuntimePageTable_unmap_page page s = (Err e, s)"
proof (cases "\<not> denied s page \<and> PageTableEntry_is_leaf (entry_of s page)")
  case True
  let ?f = "\<lparr>pf_start = PageTableEntry_physical_address (entry_of s page)\<rparr>"
  let ?mod = "\<lambda>old. rbind (frame_of_leaf old) (\<lambda>f. Ok (0, f))"
  obtain r s' where r: "RuntimePageTable_unmap_page page s = (r, s')" by fastforce
  have f: "?mod (entry_of s page) = Ok (0, ?f)" using True by (simp add: frame_of_leaf_Ok)
  have "sseq (ensure_mutable_page page) (modify_leaf page ?mod) s = (r, s')"
    using r by (simp add: RuntimePageTable_unmap_page_def imp_unmap_page_modify)
  with wrapped_modify_cases [OF assms, of ?mod] f True
  have "r = Ok ?f" and st: "pt_step s ((entry_of s)(page := 0)) (path_tables s page) [] s'" by (cases r; auto)+
  moreover have "fst (rpt_translate a s') \<noteq> Ok (Some x)" if "a \<le> usize_MAX" "VirtPage_containing_address a = page" for a x
    using rpt_translate_cases [OF pt_stepD(1) [OF st] that(1)] that(2) pt_stepD(3) [OF st assms(2)] by auto
  ultimately show ?thesis using True r by auto
next
  case False
  then have "denied s page \<or> (\<exists>e. leaf_entry page s = (Err e, s))" using leaf_entry_cases [OF assms(1), of page] by auto
  then show ?thesis using False
    by (auto simp: RuntimePageTable_unmap_page_def ensure_mutable_page_eq imp_unmap_page_def sbind_def)
qed

lemma demo_allowed: "\<not> denied (demo v) demo_page"
  by (simp add: denied_def demo_page_def VirtRange_contains_def USER_RANGE_def)

lemma demo_leaf_entry: "PageTableEntry_is_leaf 0x200800d7" "PageTableEntry_physical_address 0x200800d7 = 0x80200000"
  using PageTableEntry_leaf_decode [OF next_page_ok(2,3) demo_leaf] by (simp_all add: demo_frame_def)

theorem RuntimePageTable_unmap_page_witness:
  "\<exists>s'. RuntimePageTable_unmap_page demo_page (demo 0x200800d7) = (Ok demo_frame, s') \<and> entry_of s' demo_page = 0 \<and> pt_inv s'"
proof -
  obtain s' where s': "RuntimePageTable_unmap_page demo_page (demo 0x200800d7) = (Ok demo_frame, s')"
    "pt_step (demo 0x200800d7) ((entry_of (demo 0x200800d7))(demo_page := 0)) (path_tables (demo 0x200800d7) demo_page) [] s'"
    using RuntimePageTable_unmap_page_correct [OF demo_inv demo_page_ok, of "0x200800d7"]
    by (auto simp: demo_allowed demo_entry demo_leaf_entry demo_frame_def)
  then show ?thesis using pt_stepD(1) [OF s'(2)] pt_stepD(3) [OF s'(2) demo_page_ok] by auto
qed

text \<open>
  Changing protections keeps the frame. A successful \<open>protect_page\<close> replaces the entry of a mapped page by the leaf
  for the same frame with the new options, so its rights are the new ones, and leaves every other page alone; a
  failure changes nothing. There is no panic.
\<close>

theorem RuntimePageTable_protect_page_correct:
  assumes "pt_inv s" "page_ok page" "options_ok options"
  shows "case RuntimePageTable_protect_page page options s of
      (Ok _, s') \<Rightarrow> \<not> denied s page \<and> PageTableEntry_is_leaf (entry_of s page)
        \<and> (\<exists>v. pt_step s ((entry_of s)(page := v)) (path_tables s page) [] s' \<and> PageTableEntry_is_leaf v
             \<and> PageTableEntry_frame v = PageTableEntry_frame (entry_of s page)
             \<and> PageTableEntry_is_writable v = PagePermissions_is_writable (mo_permissions options)
             \<and> PageTableEntry_is_executable v = PagePermissions_is_executable (mo_permissions options)
             \<and> PageTableEntry_is_user v = mo_user options)
    | (Err e, s') \<Rightarrow> s' = s
    | (Panic, s') \<Rightarrow> False"
proof -
  let ?mod = "\<lambda>old. rbind (frame_of_leaf old) (\<lambda>f. rbind (new_leaf f options) (\<lambda>v. Ok (v, ())))"
  let ?f = "\<lparr>pf_start = PageTableEntry_physical_address (entry_of s page)\<rparr>"
  obtain r s' where r: "RuntimePageTable_protect_page page options s = (r, s')" by fastforce
  then have m: "sseq (ensure_mutable_page page) (modify_leaf page ?mod) s = (r, s')"
    by (simp add: RuntimePageTable_protect_page_def imp_protect_page_modify)
  have np: "?mod (entry_of s page) \<noteq> Panic" if "PageTableEntry_is_leaf (entry_of s page)"
    using that new_leaf_no_panic [OF leaf_frame_ok] by (auto simp: frame_of_leaf_Ok rbind_case split: result.splits)
  note c = wrapped_modify_cases [OF assms(1,2), of ?mod, unfolded m]
  show ?thesis
  proof (cases r)
    case (Ok x)
    then obtain v where v: "PageTableEntry_is_leaf (entry_of s page)" "\<not> denied s page" "?mod (entry_of s page) = Ok (v, ())"
      "pt_step s ((entry_of s)(page := v)) (path_tables s page) [] s'" using c by auto
    then have "PageTableEntry_leaf ?f options = Ok v"
      by (cases "PageTableEntry_leaf ?f options") (auto simp: frame_of_leaf_Ok new_leaf_def)
    note d = PageTableEntry_leaf_decode [OF leaf_frame_ok assms(3) this]
    have "PageTableEntry_frame (entry_of s page) = Some ?f" using v(1) by (simp add: pte_frame_Some PageTableEntry_is_leaf_def)
    with Ok r v d show ?thesis by auto
  next
    case Panic
    then show ?thesis using modify_step [OF assms(1,2) np m] by simp
  qed (use c r in auto)
qed

theorem RuntimePageTable_protect_page_witness:
  "\<exists>s' v. RuntimePageTable_protect_page demo_page MappingOptions_user_data (demo 0x200800d7) = (Ok (), s')
    \<and> entry_of s' demo_page = v \<and> PageTableEntry_frame v = Some demo_frame \<and> PageTableEntry_is_writable v"
proof -
  let ?d = "demo 0x200800d7"
  have o: "options_ok MappingOptions_user_data" by (rule next_page_ok)
  let ?mod = "\<lambda>old. rbind (frame_of_leaf old) (\<lambda>f. rbind (new_leaf f MappingOptions_user_data) (\<lambda>v. Ok (v, ())))"
  have "?mod (entry_of ?d demo_page) = Ok (0x200800d7, ())"
    by (simp add: demo_entry frame_of_leaf_Ok demo_leaf_entry new_leaf_def demo_leaf [unfolded demo_frame_def])
  then have run: "\<exists>s'. RuntimePageTable_protect_page demo_page MappingOptions_user_data ?d = (Ok (), s')"
    using wrapped_modify_cases [OF demo_inv [of "0x200800d7"] demo_page_ok, of ?mod]
    by (auto simp: RuntimePageTable_protect_page_def imp_protect_page_modify demo_allowed demo_entry demo_leaf_entry
        split: prod.splits result.splits)
  then obtain s' where s': "RuntimePageTable_protect_page demo_page MappingOptions_user_data ?d = (Ok (), s')" by blast
  have w: "PagePermissions_is_writable (mo_permissions MappingOptions_user_data)"
    by (simp add: MappingOptions_user_data_def mapping_option_defs permission_defs)
  obtain v where v: "pt_step ?d ((entry_of ?d)(demo_page := v)) (path_tables ?d demo_page) [] s'"
    "PageTableEntry_frame v = PageTableEntry_frame (entry_of ?d demo_page)" "PageTableEntry_is_writable v"
    using RuntimePageTable_protect_page_correct [OF demo_inv [of "0x200800d7"] demo_page_ok o] w unfolding s' by auto
  have "PageTableEntry_frame 0x200800d7 = Some demo_frame" using PageTableEntry_leaf_decode(1) [OF next_page_ok(2,3) demo_leaf] .
  then show ?thesis using s' v pt_stepD(3) [OF v(1) demo_page_ok] by (auto simp: demo_entry)
qed

text \<open>
  C27. Reclaiming empty tables is invisible. It changes no entry of any page and frees nothing itself: each table it
  moves to the retired list belonged to this table, was reachable from the root before and is not reachable
  any more, so that it can be freed once stale translations are gone; the owned tables are split between the
  remaining ones and the retired ones. While the kernel root is borrowed its shared tables are not taken out.
\<close>

theorem RuntimePageTable_reclaim_empty_tables_correct:
  assumes "pt_inv s"
  shows "case RuntimePageTable_reclaim_empty_tables page s of
      (Ok _, s') \<Rightarrow> \<exists>gone. reclaimed s (path_tables s page) gone s'
        \<and> (\<not> VirtRange_contains USER_RANGE (vp_start page) \<longrightarrow> gone = [] \<or> rpt_owner (tm_self s) = None \<and> tm_borrowers s = 0)
    | (Err e, s') \<Rightarrow> s' = s
    | (Panic, s') \<Rightarrow> False"
proof -
  have run: "RuntimePageTable_reclaim_empty_tables page s =
    (if denied s page then (Err KernelMappingMutationDenied, s)
     else if rpt_owner (tm_self s) = None \<and> tm_borrowers s \<noteq> 0 \<and> \<not> VirtRange_contains USER_RANGE (vp_start page) then (Ok (), s)
     else imp_reclaim_empty_tables page s)"
    by (simp add: RuntimePageTable_reclaim_empty_tables_def ensure_mutable_page_eq sbind_def sget_def sreturn_def)
  show ?thesis
    using imp_reclaim_empty_tables_cases [OF assms, of page] reclaimed_refl [OF assms]
    unfolding run by (auto simp: denied_def split: prod.splits result.splits)
qed

lemma demo_empty: "\<forall>c < 512. ent (demo_memory 0) 0x5000 c = 0" "\<forall>c < 512. ent ((demo_memory 0)(0x4010 := 0)) 0x4000 c = 0"
  by (auto simp: ent_def demo_memory_def)

lemma demo_reclaim:
  "\<exists>s'. RuntimePageTable_reclaim_empty_tables demo_page (demo 0) = (Ok (), s') \<and> tm_retired s' = [table_token 5, table_token 4]"
proof -
  let ?fs = "[\<lparr>pf_start = 0x3000\<rparr>, \<lparr>pf_start = 0x4000\<rparr>, \<lparr>pf_start = 0x5000\<rparr>]"
  have lv: "[0..<LEVELS - 1] = [0, 1]" "rev [1..<LEVELS] = [2, 1]" by (simp_all add: LEVELS_def upt_rec)
  have sub: "sub_table (demo_memory 0) 0x4000 2 = Some 0x5000" "sub_table ((demo_memory 0)(0x4010 := 0)) 0x3000 0 = Some 0x4000"
    by (rule links_sub [OF demo_entries(2)] links_sub [OF demo_entries(1)], simp add: ent_def demo_memory_def)+
  note e = demo_entries [unfolded links_def]
  have leaf: "\<not> PageTableEntry_is_leaf 0x1001" "\<not> PageTableEntry_is_leaf 0x1401"
    using e by (auto simp: PageTableEntry_is_table_def PageTableEntry_is_leaf_def)
  have w: "reclaim_walk [0, 2, 0] [0, 1] \<lparr>pf_start = 0x3000\<rparr> [\<lparr>pf_start = 0x3000\<rparr>] (demo 0) = (Ok (Some ?fs), demo 0)"
    using e leaf by (simp add: sbind_def slift_def sreturn_def read_entry_Ok demo_tables demo_cells)
  define s1 where "s1 = (demo 0)\<lparr>mc_memory := (demo_memory 0)(0x4010 := 0), tm_self := (tm_self (demo 0))\<lparr>rpt_tables := [table_token 4]\<rparr>,
    tm_retired := [table_token 5]\<rparr>"
  have turn: "reclaim_turn 0x5000 0x4000 2 (demo 0) = Some s1"
    using demo_empty(1) by (simp add: reclaim_turn_def s1_def table_token_def PAGE_SIZE_eq vec_swap_remove_def) (simp add: demo_def)
  have "\<exists>s2. reclaim_turn 0x4000 0x3000 0 s1 = Some s2 \<and> tm_retired s2 = [table_token 5, table_token 4]"
    using demo_empty(2) by (simp add: reclaim_turn_def s1_def table_token_def PAGE_SIZE_eq)
  then obtain s2 where s2: "reclaim_turn 0x4000 0x3000 0 s1 = Some s2" "tm_retired s2 = [table_token 5, table_token 4]" by blast
  have "reclaim_loop [0, 2, 0] ?fs [2, 1] (demo 0) = reclaim_loop [0, 2, 0] ?fs [1] s1"
    by (subst reclaim_loop_turn [where t = "0x5000" and u = "0x4000" and i = 2]) (simp_all add: demo_tables sub turn)
  also have "\<dots> = reclaim_loop [0, 2, 0] ?fs [] s2"
    by (subst reclaim_loop_turn [where t = "0x4000" and u = "0x3000" and i = 0]) (simp_all add: demo_tables sub s2(1), simp add: s1_def sub)
  also have "\<dots> = (Ok (), s2)" by (simp add: sreturn_def)
  finally have "imp_reclaim_empty_tables demo_page (demo 0) = (Ok (), s2)"
    using w by (simp add: imp_reclaim_empty_tables_def lv demo_page_def demo_page_indices sbind_def sget_def slift_def
        del: One_nat_def reclaim_loop.simps reclaim_walk.simps)
  then show ?thesis using s2(2)
    by (simp add: RuntimePageTable_reclaim_empty_tables_def ensure_mutable_page_eq demo_allowed sbind_def sget_def)
qed

theorem RuntimePageTable_reclaim_empty_tables_witness:
  "\<exists>s'. RuntimePageTable_reclaim_empty_tables demo_page (demo 0) = (Ok (), s')
    \<and> tm_retired s' = [table_token 5, table_token 4] \<and> 0x5000 \<notin> tables (mc_memory s') 0x3000
    \<and> entry_of s' demo_page = 0"
proof -
  obtain s' where s': "RuntimePageTable_reclaim_empty_tables demo_page (demo 0) = (Ok (), s')" "tm_retired s' = [table_token 5, table_token 4]"
    using demo_reclaim by blast
  obtain gone where g: "reclaimed (demo 0) (path_tables (demo 0) demo_page) gone s'"
    using RuntimePageTable_reclaim_empty_tables_correct [OF demo_inv [of 0], of demo_page] unfolding s'(1) by auto
  have "tm_retired (demo 0) = []" by (simp add: demo_def)
  then have "gone = [table_token 5, table_token 4]" using g s'(2) by (auto simp: reclaimed_def)
  moreover have "entry_of s' demo_page = 0" using g by (simp add: reclaimed_def demo_entry)
  ultimately show ?thesis using s' g by (auto simp: reclaimed_def table_token_def PAGE_SIZE_eq)
qed

text \<open>
  C28. A new user root sees the kernel and nothing else. It has the entries of the kernel root for kernel pages and no
  entry for any user page, its private tables are disjoint from those of the kernel, the kernel root keeps all
  its entries, and one more borrower is counted. If no page is left for the root nothing changes.
\<close>

theorem RuntimePageTable_new_user_correct:
  assumes "pt_inv (s\<lparr>tm_self := kernel_table\<rparr>)" "rpt_owner kernel_table = None"
  shows "case RuntimePageTable_new_user kernel_table s of
      (Ok u, s') \<Rightarrow> pt_inv (s'\<lparr>tm_self := u\<rparr>) \<and> separate_root (s'\<lparr>tm_self := u\<rparr>) (pf_start (rpt_root kernel_table))
        \<and> rpt_owner u \<noteq> None \<and> rpt_tables u = [] \<and> tm_borrowers s' = (tm_borrowers s + 1) mod 2 ^ 64
        \<and> (\<forall>q. page_ok q \<longrightarrow>
             entry_of (s'\<lparr>tm_self := u\<rparr>) q = (if user_page q then 0 else entry_of (s\<lparr>tm_self := kernel_table\<rparr>) q)
             \<and> entry_of (s'\<lparr>tm_self := kernel_table\<rparr>) q = entry_of (s\<lparr>tm_self := kernel_table\<rparr>) q)
    | (Err e, s') \<Rightarrow> s' = s
    | (Panic, s') \<Rightarrow> False"
  by (rule new_user_cases [OF assms])

text \<open>The same tables as those of a kernel root.\<close>

definition demo_kernel :: RuntimePageTable where
  "demo_kernel = \<lparr>rpt_root = \<lparr>pf_start = 0x3000\<rparr>, rpt_tables = [], rpt_owner = None\<rparr>"

lemma demo_kernel_inv: "pt_inv ((demo v)\<lparr>tm_self := demo_kernel\<rparr>)"
  using demo_inv [of v] by (simp add: pt_inv_def demo_kernel_def)

lemma demo_kernel_entry: "entry_of ((demo v)\<lparr>tm_self := demo_kernel\<rparr>) demo_page = v"
  by (simp add: entry_of_def demo_page_def demo_page_indices demo_tree demo_kernel_def)

lemma demo_new_user: "\<exists>u s'. RuntimePageTable_new_user demo_kernel (demo v) = (Ok u, s')"
proof -
  have "can_serve two_pages Dma32 0"
    by (auto simp: can_serve_def free_set_def two_pages_zone two_pages_free block_def intro!: exI [of _ 16])
  then obtain a s1 where a: "allocate_zeroed_table (demo v) = (Ok a, s1)"
    using page_alloc_allocate_cases [of "demo v" two_pages 0 PageAllocationOptions_kernel_zeroed] two_pages_mapped
    by (auto simp: allocate_zeroed_table_def smap_err_def MAX_ORDER_def split: prod.splits result.splits)
  then obtain b' where f: "fresh_table (demo v) two_pages a s1 b'"
    using allocate_zeroed_table_cases [of "demo v" two_pages] two_pages_mapped by auto
  obtain m where "imp_synchronize_kernel_mappings (pa_start a) (rpt_root demo_kernel) s1 = (Ok (), (set_buddy b' (demo v))\<lparr>mc_memory := m\<rparr>)"
    by (rule new_root_memory [OF demo_kernel_inv _ f]) auto
  then show ?thesis using a
    by (simp add: RuntimePageTable_new_user_def demo_kernel_def sbind_def sseq_def scatch_def Let_def
        borrow_shared_kernel_root_def smodify_def sreturn_def)
qed

theorem RuntimePageTable_new_user_witness:
  "\<exists>u s'. RuntimePageTable_new_user demo_kernel (demo 0x200800d7) = (Ok u, s')
    \<and> entry_of (s'\<lparr>tm_self := u\<rparr>) demo_page = 0 \<and> entry_of (s'\<lparr>tm_self := demo_kernel\<rparr>) demo_page = 0x200800d7"
proof -
  obtain u s' where u: "RuntimePageTable_new_user demo_kernel (demo 0x200800d7) = (Ok u, s')" using demo_new_user by blast
  have own: "rpt_owner demo_kernel = None" by (simp add: demo_kernel_def)
  have "user_page demo_page" by (simp add: user_page_def demo_page_def VirtRange_contains_def USER_RANGE_def)
  then show ?thesis
    using demo_kernel_entry [of "0x200800d7"] RuntimePageTable_new_user_correct [OF demo_kernel_inv own, of "0x200800d7"] demo_page_ok u by auto
qed

text \<open>
  C4. No operation on a user table reaches a mapping of the kernel. For every sequence of \<open>map_page\<close>,
  \<open>protect_page\<close>, \<open>replace_page\<close> and \<open>unmap_page\<close> calls on a user table, whatever pages they name and whatever
  their outcome, every leaf entry seen from another root whose tables are not private to this table, such as the
  kernel root, is the same as before, and the invariant of the user table holds.
\<close>

theorem user_table_keeps_kernel:
  assumes "pt_inv s" "rpt_owner (tm_self s) \<noteq> None" "separate_root s K" "list_all op_ok ops" "i < 512" "j < 512" "k < 512"
  shows "pt_inv (table_run ops s) \<and> leaf_at (mc_memory (table_run ops s)) K i j k = leaf_at (mc_memory s) K i j k"
  using table_run_separate [OF assms(1-4)] assms(5-7) by blast

theorem user_table_keeps_kernel_witness:
  "\<exists>s. pt_inv s \<and> rpt_owner (tm_self s) \<noteq> None \<and> separate_root s 0x3000
    \<and> leaf_at (mc_memory (table_run [MapPage True next_page demo_frame MappingOptions_user_data, UnmapPage demo_page] s)) 0x3000 0 2 0
      = 0x200800d7"
proof -
  let ?d = "demo 0x200800d7" and ?ops = "[MapPage True next_page demo_frame MappingOptions_user_data, UnmapPage demo_page]"
  obtain u s' where u: "RuntimePageTable_new_user demo_kernel ?d = (Ok u, s')" using demo_new_user by blast
  have own: "rpt_owner demo_kernel = None" "pf_start (rpt_root demo_kernel) = 0x3000" by (simp_all add: demo_kernel_def)
  note new = new_user_cases [OF demo_kernel_inv [of "0x200800d7"] own(1), unfolded u]
  let ?s = "s'\<lparr>tm_self := u\<rparr>"
  have s: "pt_inv ?s" "separate_root ?s 0x3000" "rpt_owner (tm_self ?s) \<noteq> None"
    "entry_of (s'\<lparr>tm_self := demo_kernel\<rparr>) demo_page = entry_of (?d\<lparr>tm_self := demo_kernel\<rparr>) demo_page"
    using new demo_page_ok own(2) by auto
  then have "leaf_at (mc_memory ?s) 0x3000 0 2 0 = 0x200800d7"
    using s(4) unfolding demo_kernel_entry by (simp add: entry_of_def demo_page_def demo_page_indices demo_kernel_def)
  moreover have "list_all op_ok ?ops" using next_page_ok demo_page_ok by simp
  ultimately show ?thesis using s user_table_keeps_kernel [OF s(1,3,2), of ?ops 0 2 0] by (intro exI [of _ ?s]) simp
qed

end
