(* ===== verification/Bytes.thy ===== *)
theory Bytes
  imports Prelude
begin

text \<open>
  Byte slices as the parsers of the kernel use them: indexing and slicing with the panics of Rust, big and little
  endian integers, \<open>chunks_exact\<close>, and the validity of UTF-8 that \<open>str::from_utf8\<close> checks. A \<open>str\<close> is its list of bytes.
\<close>

section \<open>Definitions\<close>

type_synonym bytes = "u8 list"

definition byte_at :: "bytes \<Rightarrow> usize \<Rightarrow> (u8, 'e) result" where
  "byte_at bs i = (if i < length bs then Ok (bs ! i) else Panic)"

definition slice_get :: "bytes \<Rightarrow> usize \<Rightarrow> usize \<Rightarrow> bytes option" where
  "slice_get bs a b = (if a \<le> b \<and> b \<le> length bs then Some (take (b - a) (drop a bs)) else None)"

definition slice :: "bytes \<Rightarrow> usize \<Rightarrow> usize \<Rightarrow> (bytes, 'e) result" where
  "slice bs a b = (case slice_get bs a b of Some x \<Rightarrow> Ok x | None \<Rightarrow> Panic)"

text \<open>The number that \<open>from_be_bytes\<close> reads.\<close>

definition from_be :: "bytes \<Rightarrow> nat" where
  "from_be bs = foldl (\<lambda>v b. v * 256 + unat b) 0 bs"

definition from_le :: "bytes \<Rightarrow> nat" where
  "from_le bs = from_be (rev bs)"

fun to_be :: "nat \<Rightarrow> nat \<Rightarrow> bytes" where
  "to_be 0 v = []"
| "to_be (Suc n) v = to_be n (v div 256) @ [of_nat v]"

text \<open>The bytes that \<open>to_le_bytes\<close> gives.\<close>

definition to_le :: "nat \<Rightarrow> nat \<Rightarrow> bytes" where
  "to_le n v = rev (to_be n v)"

function chunks_exact :: "nat \<Rightarrow> 'a list \<Rightarrow> 'a list list" where
  "chunks_exact n xs = (if n = 0 \<or> length xs < n then [] else take n xs # chunks_exact n (drop n xs))"
  by pat_completeness auto
termination by (relation "measure (\<lambda>(_, xs). length xs)") auto

declare chunks_exact.simps [simp del]

definition str :: "string \<Rightarrow> bytes" where
  "str s = map of_char s"

definition utf8_cont :: "u8 \<Rightarrow> bool" where
  "utf8_cont b \<longleftrightarrow> 0x80 \<le> b \<and> b \<le> 0xbf"

definition utf8_second :: "u8 \<Rightarrow> u8 \<Rightarrow> bool" where
  "utf8_second a b \<longleftrightarrow> utf8_cont b \<and> (a = 0xe0 \<longrightarrow> 0xa0 \<le> b) \<and> (a = 0xed \<longrightarrow> b \<le> 0x9f) \<and> (a = 0xf0 \<longrightarrow> 0x90 \<le> b)
     \<and> (a = 0xf4 \<longrightarrow> b \<le> 0x8f)"

definition utf8_width :: "u8 \<Rightarrow> nat" where
  "utf8_width a = (if a < 0x80 then 1 else if 0xc2 \<le> a \<and> a \<le> 0xdf then 2 else if 0xe0 \<le> a \<and> a \<le> 0xef then 3
     else if 0xf0 \<le> a \<and> a \<le> 0xf4 then 4 else 0)"

function utf8_valid :: "bytes \<Rightarrow> bool" where
  "utf8_valid bs = (case bs of [] \<Rightarrow> True
     | a # rest \<Rightarrow>
         (let w = utf8_width a in
          if w = 0 \<or> length rest < w - 1 then False
          else (1 < w \<longrightarrow> utf8_second a (hd rest) \<and> list_all utf8_cont (take (w - 1) rest)) \<and> utf8_valid (drop (w - 1) rest)))"
  by pat_completeness auto
termination by (relation "measure length") auto

declare utf8_valid.simps [simp del]

definition from_utf8 :: "bytes \<Rightarrow> bytes option" where
  "from_utf8 bs = (if utf8_valid bs then Some bs else None)"

section \<open>Lemmas\<close>

lemma from_be_Nil [simp]: "from_be [] = 0"
  by (simp add: from_be_def)

lemma from_be_append: "from_be (bs @ [b]) = from_be bs * 256 + unat b"
  by (simp add: from_be_def)

lemma from_be_app: "from_be (xs @ ys) = from_be xs * 256 ^ length ys + from_be ys"
proof (induction ys rule: rev_induct)
  case (snoc b ys)
  then show ?case using from_be_append [of "xs @ ys" b] by (simp add: from_be_append algebra_simps)
qed simp

lemma from_be_less: "from_be bs < 256 ^ length bs"
proof (induction bs rule: rev_induct)
  case (snoc b bs)
  have "unat b < 256" using unsigned_less [of b] by simp
  then have "from_be bs * 256 + unat b < Suc (from_be bs) * 256" by simp
  also have "\<dots> \<le> 256 ^ length bs * 256" using snoc by (intro mult_le_mono1) simp
  finally show ?case by (simp add: from_be_append mult.commute)
qed simp

lemma length_to_be [simp]: "length (to_be n v) = n"
  by (induction n arbitrary: v) auto

lemma from_be_to_be [simp]: "from_be (to_be n v) = v mod 256 ^ n"
proof (induction n arbitrary: v)
  case (Suc n)
  have "unat (of_nat v :: u8) = v mod 256" by (simp add: unat_of_nat)
  then show ?case using Suc by (simp add: from_be_append mod_mult2_eq)
qed simp

lemma length_to_le [simp]: "length (to_le n v) = n"
  by (simp add: to_le_def)

lemma from_le_to_le [simp]: "from_le (to_le n v) = v mod 256 ^ n"
  by (simp add: from_le_def to_le_def)

lemma slice_get_Some: "slice_get bs a b = Some x \<longleftrightarrow> a \<le> b \<and> b \<le> length bs \<and> x = take (b - a) (drop a bs)"
  by (auto simp: slice_get_def)

lemma slice_Ok [simp]: "slice bs a b = Ok x \<longleftrightarrow> slice_get bs a b = Some x"
  by (auto simp: slice_def split: option.splits)

lemma slice_not_Err [simp]: "slice bs a b \<noteq> Err e"
  by (auto simp: slice_def split: option.splits)

lemma slice_Panic: "slice bs a b = Panic \<longleftrightarrow> slice_get bs a b = None"
  by (auto simp: slice_def split: option.splits)

lemma chunks_exact_Nil [simp]: "chunks_exact n [] = []"
  by (subst chunks_exact.simps) auto

lemma chunks_exact_append:
  assumes "length x = n" "0 < n"
  shows "chunks_exact n (x @ xs) = x # chunks_exact n xs"
  using assms by (subst chunks_exact.simps) auto

lemma chunks_exact_concat:
  assumes "\<And>x. x \<in> set xss \<Longrightarrow> length x = n" "0 < n"
  shows "chunks_exact n (concat xss) = xss"
  using assms by (induction xss) (simp_all add: chunks_exact_append)

lemma length_chunks_exact: "c \<in> set (chunks_exact n xs) \<Longrightarrow> length c = n"
proof (induction n xs rule: chunks_exact.induct)
  case (1 n xs)
  then show ?case by (subst (asm) (2) chunks_exact.simps) (auto split: if_splits)
qed

end
