(* ===== verification/Fdt.thy ===== *)
theory Fdt
  imports Bytes
begin

text \<open>
  The flattened device tree: validation of the blob that the boot loader passes, the memory reservation block
  (\<open>firmware/fdt/src/blob.rs\<close>) and the reading of properties (\<open>firmware/fdt/src/tree.rs\<close>). The tree itself is parsed by
  a vendored third-party package (\<open>vendor/fdt-reader\<close>), whose queries are the fields of the record \<open>Fdt\<close>.
\<close>

section \<open>Regions and errors\<close>

record MemoryRegion =
  mr_start :: usize
  mr_size :: usize

definition MemoryRegion_end :: "MemoryRegion \<Rightarrow> usize option" where
  "MemoryRegion_end self = checked_add (mr_start self) (mr_size self)"

definition MemoryRegion_is_empty :: "MemoryRegion \<Rightarrow> bool" where
  "MemoryRegion_is_empty self \<longleftrightarrow> mr_size self = 0"

record VirtioMmioRegion =
  vmr_name :: bytes
  vmr_base :: usize
  vmr_size :: usize

definition VirtioMmioRegion_end :: "VirtioMmioRegion \<Rightarrow> usize option" where
  "VirtioMmioRegion_end self = checked_add (vmr_base self) (vmr_size self)"

record PciHostBridge =
  phb_name :: bytes
  phb_ecam :: MemoryRegion
  phb_mem32 :: MemoryRegion
  phb_first_bus :: u8
  phb_last_bus :: u8

datatype FdtError =
    HeaderTooSmall
  | InvalidMagic u32
  | TotalSizeTooSmall usize
  | TotalSizeTooLarge usize
  | Truncated usize usize
  | InvalidStructureRange
  | InvalidStringsRange
  | InvalidReservationMap
  | FdtAddressOverflow
  | ParserRejected
  | TruncatedReservationMap
  | UnterminatedReservationMap
  | InvalidReservedMemoryLayout
  | UnsupportedCellCount u32 u32
  | InvalidRegLength
  | DynamicReservedMemoryUnsupported

section \<open>The blob\<close>

definition FDT_MAGIC :: u32 where "FDT_MAGIC = 0xd00dfeed"

definition FDT_HEADER_SIZE :: usize where "FDT_HEADER_SIZE = 40"

definition MAX_FDT_SIZE :: usize where "MAX_FDT_SIZE = 16 * 1024 * 1024"

record FdtHeader =
  fh_total_size :: usize
  fh_structure_offset :: usize
  fh_strings_offset :: usize
  fh_reservation_map_offset :: usize
  fh_version :: u32
  fh_last_compatible_version :: u32
  fh_boot_cpu_id :: u32
  fh_strings_size :: usize
  fh_structure_size :: usize

record FdtBlob =
  fb_bytes :: bytes
  fb_header :: FdtHeader

text \<open>Indexing four or eight bytes panics at the first index out of range.\<close>

definition read_be_u32 :: "bytes \<Rightarrow> usize \<Rightarrow> (u32, FdtError) result" where
  "read_be_u32 bs off = (if off + 3 < length bs then Ok (from_be (take 4 (drop off bs))) else Panic)"

definition read_be_u64 :: "bytes \<Rightarrow> usize \<Rightarrow> (u64, FdtError) result" where
  "read_be_u64 bs off = (if off + 7 < length bs then Ok (from_be (take 8 (drop off bs))) else Panic)"

definition range_is_inside :: "usize \<Rightarrow> usize \<Rightarrow> usize \<Rightarrow> bool" where
  "range_is_inside off len limit = (case checked_add off len of None \<Rightarrow> False | Some e \<Rightarrow> e \<le> limit)"

definition parse_header :: "bytes \<Rightarrow> (FdtHeader, FdtError) result" where
  "parse_header bs =
     (if length bs < FDT_HEADER_SIZE then Err HeaderTooSmall
      else
        rbind (read_be_u32 bs 0) (\<lambda>magic.
        if magic \<noteq> FDT_MAGIC then Err (InvalidMagic magic)
        else
          rbind (read_be_u32 bs 4) (\<lambda>total_size.
          if total_size < FDT_HEADER_SIZE then Err (TotalSizeTooSmall total_size)
          else if MAX_FDT_SIZE < total_size then Err (TotalSizeTooLarge total_size)
          else
            rbind (read_be_u32 bs 8) (\<lambda>structure_offset.
            rbind (read_be_u32 bs 12) (\<lambda>strings_offset.
            rbind (read_be_u32 bs 16) (\<lambda>reservation_map_offset.
            rbind (read_be_u32 bs 20) (\<lambda>version.
            rbind (read_be_u32 bs 24) (\<lambda>last_compatible_version.
            rbind (read_be_u32 bs 28) (\<lambda>boot_cpu_id.
            rbind (read_be_u32 bs 32) (\<lambda>strings_size.
            rbind (read_be_u32 bs 36) (\<lambda>structure_size.
            Ok \<lparr>fh_total_size = total_size, fh_structure_offset = structure_offset, fh_strings_offset = strings_offset,
              fh_reservation_map_offset = reservation_map_offset, fh_version = version,
              fh_last_compatible_version = last_compatible_version, fh_boot_cpu_id = boot_cpu_id,
              fh_strings_size = strings_size, fh_structure_size = structure_size\<rparr>)))))))))))"

definition validate_header :: "FdtHeader \<Rightarrow> (unit, FdtError) result" where
  "validate_header header =
     (if \<not> range_is_inside (fh_structure_offset header) (fh_structure_size header) (fh_total_size header)
      then Err InvalidStructureRange
      else if \<not> range_is_inside (fh_strings_offset header) (fh_strings_size header) (fh_total_size header)
      then Err InvalidStringsRange
      else
        let reservation_offset = fh_reservation_map_offset header; reservation_end = fh_structure_offset header in
        if \<not> 8 dvd reservation_offset \<or> reservation_end \<le> reservation_offset \<or> fh_total_size header < reservation_end
           \<or> reservation_end - reservation_offset < 16
        then Err InvalidReservationMap
        else Ok ())"

definition FdtBlob_from_bytes :: "bytes \<Rightarrow> (FdtBlob, FdtError) result" where
  "FdtBlob_from_bytes bs =
     rbind (parse_header bs) (\<lambda>header.
     if length bs < fh_total_size header then Err (Truncated (fh_total_size header) (length bs))
     else
       rbind (validate_header header) (\<lambda>_.
       rbind (slice bs 0 (fh_total_size header)) (\<lambda>blob_bytes.
       Ok \<lparr>fb_bytes = blob_bytes, fb_header = header\<rparr>)))"

text \<open>The blob at a pointer, read from a memory of bytes.\<close>

definition FdtBlob_from_ptr :: "(usize \<Rightarrow> u8) \<Rightarrow> usize \<Rightarrow> (FdtBlob, FdtError) result" where
  "FdtBlob_from_ptr mem base =
     rbind (ok_or (checked_add base FDT_HEADER_SIZE) FdtAddressOverflow) (\<lambda>_.
     rbind (parse_header (map (\<lambda>off. mem (base + off)) [0..<FDT_HEADER_SIZE])) (\<lambda>header.
     rbind (ok_or (checked_add base (fh_total_size header)) FdtAddressOverflow) (\<lambda>_.
     FdtBlob_from_bytes (map (\<lambda>off. mem (base + off)) [0..<fh_total_size header]))))"

section \<open>Memory reservations\<close>

record MemoryReservationIter =
  mri_bytes :: bytes
  mri_offset :: usize
  mri_end :: usize
  mri_finished :: bool

definition FdtBlob_memory_reservations :: "FdtBlob \<Rightarrow> MemoryReservationIter" where
  "FdtBlob_memory_reservations self =
     \<lparr>mri_bytes = fb_bytes self, mri_offset = fh_reservation_map_offset (fb_header self),
      mri_end = fh_structure_offset (fb_header self), mri_finished = False\<rparr>"

definition usize_try_from :: "nat \<Rightarrow> usize option" where
  "usize_try_from v = (if v \<le> usize_MAX then Some v else None)"

function reservation_loop ::
  "MemoryReservationIter \<Rightarrow> ((MemoryRegion, FdtError) result option, FdtError) result \<times> MemoryReservationIter" where
  "reservation_loop self =
     (case checked_add (mri_offset self) 16 of
        None \<Rightarrow> (Ok (Some (Err FdtAddressOverflow)), self\<lparr>mri_finished := True\<rparr>)
      | Some entry_end \<Rightarrow>
          if mri_end self < entry_end \<or> length (mri_bytes self) < entry_end
          then (Ok (Some (Err UnterminatedReservationMap)), self\<lparr>mri_finished := True\<rparr>)
          else
            (case read_be_u64 (mri_bytes self) (mri_offset self) of
               Ok address \<Rightarrow>
                 (case read_be_u64 (mri_bytes self) (mri_offset self + 8) of
                    Ok len \<Rightarrow>
                      let self = self\<lparr>mri_offset := entry_end\<rparr> in
                      if address = 0 \<and> len = 0 then (Ok None, self\<lparr>mri_finished := True\<rparr>)
                      else if len = 0 then reservation_loop self
                      else
                        (case usize_try_from address of
                           None \<Rightarrow> (Ok (Some (Err FdtAddressOverflow)), self\<lparr>mri_finished := True\<rparr>)
                         | Some start \<Rightarrow>
                             (case usize_try_from len of
                                None \<Rightarrow> (Ok (Some (Err FdtAddressOverflow)), self\<lparr>mri_finished := True\<rparr>)
                              | Some len \<Rightarrow>
                                  if checked_add start len = None
                                  then (Ok (Some (Err FdtAddressOverflow)), self\<lparr>mri_finished := True\<rparr>)
                                  else (Ok (Some (Ok \<lparr>mr_start = start, mr_size = len\<rparr>)), self)))
                  | _ \<Rightarrow> (Panic, self))
             | _ \<Rightarrow> (Panic, self)))"
  by pat_completeness auto
termination
  by (relation "measure (\<lambda>self. mri_end self - mri_offset self)") (auto simp: checked_add_def split: if_splits)

declare reservation_loop.simps [simp del]

definition MemoryReservationIter_next ::
  "MemoryReservationIter \<Rightarrow> ((MemoryRegion, FdtError) result option, FdtError) result \<times> MemoryReservationIter" where
  "MemoryReservationIter_next self = (if mri_finished self then (Ok None, self) else reservation_loop self)"

section \<open>Properties of nodes\<close>

text \<open>
  The queries of the parser package: a node by path, the value of a property, children, names, all nodes, the
  compatible strings, the \<open>reg\<close> of the memory node and of other nodes, and the cpu nodes with their failed status and
  first register. The package is used in its panicking mode: where a query meets a malformed tree, or a node or
  property that the package requires is missing, the call panics. Such a query has no answer, which is \<open>None\<close> of
  the outer option; an iterator panics at an item that is \<open>None\<close>.

  The entries of a \<open>reg\<close> property are pairs of an address and a length. An entry that does not fit into 64 bits is \<open>None\<close>.
  The iterator over the entries does not move past such an entry, so it returns the same error again on every call.
\<close>

type_synonym 'a answer = "'a option"

type_synonym Reg = "(u64 \<times> u64) option list"

record 'n Fdt =
  fdt_find_node :: "bytes \<Rightarrow> 'n option answer"
  fdt_raw_property :: "'n \<Rightarrow> bytes \<Rightarrow> bytes option answer"
  fdt_children :: "'n \<Rightarrow> 'n answer list answer"
  fdt_name :: "'n \<Rightarrow> bytes answer"
  fdt_all_nodes :: "'n answer list answer"
  fdt_compatible :: "'n \<Rightarrow> bytes list option answer"
  fdt_memory_reg :: "Reg answer"
  fdt_node_reg :: "'n \<Rightarrow> Reg option answer"
  fdt_cpus :: "'n answer list answer"
  fdt_cpu_failed :: "'n \<Rightarrow> bool answer"
  fdt_cpu_first_id :: "'n \<Rightarrow> usize option answer"

text \<open>The operator \<open>?\<close> on an optional value of a call that may panic.\<close>

definition obind :: "('a option, 'e) result \<Rightarrow> ('a \<Rightarrow> ('b option, 'e) result) \<Rightarrow> ('b option, 'e) result" where
  "obind m k = rbind m (\<lambda>x. case x of None \<Rightarrow> Ok None | Some y \<Rightarrow> k y)"

text \<open>An iterator with \<open>filter_map\<close>, run to its end.\<close>

fun filter_map_nodes :: "('n \<Rightarrow> ('a option, 'e) result) \<Rightarrow> 'n answer list \<Rightarrow> ('a list, 'e) result" where
  "filter_map_nodes f [] = Ok []"
| "filter_map_nodes f (item # rest) =
     rbind (expect item) (\<lambda>node.
     rbind (f node) (\<lambda>x.
     rbind (filter_map_nodes f rest) (\<lambda>xs. Ok (case x of None \<Rightarrow> xs | Some y \<Rightarrow> y # xs))))"

definition property_u64 :: "bytes \<Rightarrow> u64 option" where
  "property_u64 bs = (if length bs = 4 \<or> length bs = 8 then Some (from_be bs) else None)"

definition property_string :: "bytes \<Rightarrow> bytes option" where
  "property_string bs =
     (let end = (case position (\<lambda>b. b = 0) bs of Some i \<Rightarrow> i | None \<Rightarrow> length bs) in from_utf8 (take end bs))"

definition node_is_compatible :: "'n Fdt \<Rightarrow> 'n \<Rightarrow> bytes \<Rightarrow> (bool, 'e) result" where
  "node_is_compatible dt node expected =
     rbind (expect (fdt_compatible dt node)) (\<lambda>compatible.
     Ok (case compatible of None \<Rightarrow> False | Some all \<Rightarrow> list_ex (\<lambda>v. v = expected) all))"

definition node_is_available :: "'n Fdt \<Rightarrow> 'n \<Rightarrow> (bool, 'e) result" where
  "node_is_available dt node =
     rbind (expect (fdt_raw_property dt node (str ''status''))) (\<lambda>property.
     Ok (case Option.bind property property_string of
        None \<Rightarrow> True
      | Some s \<Rightarrow> s = str ''ok'' \<or> s = str ''okay''))"

definition read_cell_count :: "'n Fdt \<Rightarrow> 'n \<Rightarrow> bytes \<Rightarrow> (u32 option, 'e) result" where
  "read_cell_count dt node property_name =
     rbind (expect (fdt_raw_property dt node property_name)) (\<lambda>property.
     Ok (case property of
        None \<Rightarrow> None
      | Some v \<Rightarrow> if length v \<noteq> 4 then None else Some (from_be v)))"

definition validate_cell_counts :: "u32 \<Rightarrow> u32 \<Rightarrow> (unit, FdtError) result" where
  "validate_cell_counts address_cells size_cells =
     (if \<not> (1 \<le> address_cells \<and> address_cells \<le> 2) \<or> \<not> (1 \<le> size_cells \<and> size_cells \<le> 2)
      then Err (UnsupportedCellCount address_cells size_cells)
      else Ok ())"

text \<open>One or two cells of 32 bits; the shift by 32 never fails for a 64-bit value.\<close>

definition read_cells :: "bytes \<Rightarrow> (u64, FdtError) result" where
  "read_cells bs =
     (if length bs \<noteq> 4 \<and> length bs \<noteq> 8 then Err InvalidRegLength
      else Ok (foldl (\<lambda>v cell. (take_bit 64 (push_bit 32 v)) OR from_be cell) 0 (chunks_exact 4 bs)))"

fun reg_entries :: "nat \<Rightarrow> (MemoryRegion \<Rightarrow> 's \<Rightarrow> 's) \<Rightarrow> bytes list \<Rightarrow> ('s, unit, FdtError) action" where
  "reg_entries address_cells visitor [] = sreturn ()"
| "reg_entries address_cells visitor (entry # rest) =
     sbind (slift (slice entry 0 (address_cells * 4))) (\<lambda>address_bytes.
     sbind (slift (slice entry (address_cells * 4) (length entry))) (\<lambda>size_bytes.
     sbind (slift (read_cells address_bytes)) (\<lambda>address.
     sbind (slift (read_cells size_bytes)) (\<lambda>len.
     sbind (slift (ok_or (usize_try_from address) FdtAddressOverflow)) (\<lambda>address.
     sbind (slift (ok_or (usize_try_from len) FdtAddressOverflow)) (\<lambda>len.
     if len = 0 then reg_entries address_cells visitor rest
     else
       sbind (slift (ok_or (checked_add address len) FdtAddressOverflow)) (\<lambda>_.
       sseq (smodify (visitor \<lparr>mr_start = address, mr_size = len\<rparr>)) (reg_entries address_cells visitor rest))))))))"

definition parse_reg_property :: "bytes \<Rightarrow> u32 \<Rightarrow> u32 \<Rightarrow> (MemoryRegion \<Rightarrow> 's \<Rightarrow> 's) \<Rightarrow> ('s, unit, FdtError) action" where
  "parse_reg_property bs address_cells size_cells visitor =
     sbind (slift (validate_cell_counts address_cells size_cells)) (\<lambda>_.
     sbind (slift (ok_or (checked_add address_cells size_cells) FdtAddressOverflow)) (\<lambda>entry_cells.
     sbind (slift (ok_or (checked_mul entry_cells 4) FdtAddressOverflow)) (\<lambda>entry_size.
     if entry_size = 0 \<or> bs = [] \<or> \<not> entry_size dvd length bs then sfail InvalidRegLength
     else reg_entries address_cells visitor (chunks_exact entry_size bs))))"

definition parse_first_region :: "bytes \<Rightarrow> u32 \<Rightarrow> u32 \<Rightarrow> (MemoryRegion, FdtError) result" where
  "parse_first_region bs address_cells size_cells =
     (case parse_reg_property bs address_cells size_cells
             (\<lambda>region first. if first = None then Some region else first) None of
        (Ok _, first) \<Rightarrow> ok_or first InvalidRegLength
      | (Err e, _) \<Rightarrow> Err e
      | (Panic, _) \<Rightarrow> Panic)"

text \<open>Later windows replace the best one only when they are larger.\<close>

fun pci_entries :: "nat \<Rightarrow> bytes list \<Rightarrow> MemoryRegion option \<Rightarrow> (MemoryRegion option, FdtError) result" where
  "pci_entries parent_address_cells [] best = Ok best"
| "pci_entries parent_address_cells (entry # rest) best =
     rbind (rbind (slice entry 0 4) read_cells) (\<lambda>child_hi.
     let prefetchable = child_hi AND 0x40000000 \<noteq> 0; space = drop_bit 24 child_hi AND 0x03 in
     rbind (rbind (slice entry (3 * 4) ((3 + parent_address_cells) * 4)) read_cells) (\<lambda>parent_start.
     rbind (rbind (slice entry ((3 + parent_address_cells) * 4) (length entry)) read_cells) (\<lambda>len.
     if prefetchable \<or> \<not> (space = 0x02 \<or> space = 0x03) \<or> len = 0 then pci_entries parent_address_cells rest best
     else
       rbind (ok_or (usize_try_from parent_start) FdtAddressOverflow) (\<lambda>start.
       rbind (ok_or (usize_try_from len) FdtAddressOverflow) (\<lambda>len.
       rbind (ok_or (checked_add start len) FdtAddressOverflow) (\<lambda>_.
       let region = \<lparr>mr_start = start, mr_size = len\<rparr> in
       pci_entries parent_address_cells rest
         (case best of None \<Rightarrow> Some region | Some old \<Rightarrow> if mr_size old < mr_size region then Some region else best)))))))"

definition parse_pci_memory_range :: "bytes \<Rightarrow> u32 \<Rightarrow> u32 \<Rightarrow> (MemoryRegion, FdtError) result" where
  "parse_pci_memory_range bs parent_address_cells size_cells =
     rbind (validate_cell_counts parent_address_cells size_cells) (\<lambda>_.
     rbind (ok_or (Option.bind (checked_add 3 parent_address_cells) (\<lambda>cells. checked_add cells size_cells)) FdtAddressOverflow) (\<lambda>entry_cells.
     rbind (ok_or (checked_mul entry_cells 4) FdtAddressOverflow) (\<lambda>entry_size.
     if entry_size = 0 \<or> bs = [] \<or> \<not> entry_size dvd length bs then Err InvalidRegLength
     else
       rbind (pci_entries parent_address_cells (chunks_exact entry_size bs) None) (\<lambda>best.
       ok_or best InvalidRegLength))))"

definition parse_bus_range :: "bytes \<Rightarrow> (u8 \<times> u8) option" where
  "parse_bus_range bs =
     (if length bs \<noteq> 8 then None
      else
        let first = from_be (take 4 bs); last_bus = from_be (drop 4 bs) in
        if first < 256 \<and> last_bus < 256 then Some (of_nat first, of_nat last_bus) else None)"

section \<open>The device tree\<close>

definition DeviceTree_model :: "'n Fdt \<Rightarrow> (bytes option, 'e) result" where
  "DeviceTree_model dt =
     obind (expect (fdt_find_node dt (str ''/''))) (\<lambda>root.
     obind (expect (fdt_raw_property dt root (str ''model''))) (\<lambda>property. Ok (property_string property)))"

definition DeviceTree_first_compatible :: "'n Fdt \<Rightarrow> (bytes option, 'e) result" where
  "DeviceTree_first_compatible dt =
     obind (expect (fdt_find_node dt (str ''/''))) (\<lambda>root.
     obind (expect (fdt_compatible dt root)) (\<lambda>all. Ok (find (\<lambda>v. v \<noteq> []) all)))"

definition DeviceTree_cpu_hardware_ids :: "'n Fdt \<Rightarrow> (usize list, 'e) result" where
  "DeviceTree_cpu_hardware_ids dt =
     rbind (expect (fdt_cpus dt)) (filter_map_nodes (\<lambda>cpu.
       rbind (expect (fdt_cpu_failed dt cpu)) (\<lambda>failed.
       if failed then Ok None else expect (fdt_cpu_first_id dt cpu))))"

definition DeviceTree_cpu_count :: "'n Fdt \<Rightarrow> (usize, 'e) result" where
  "DeviceTree_cpu_count dt = rbind (DeviceTree_cpu_hardware_ids dt) (\<lambda>ids. Ok (length ids))"

definition DeviceTree_timebase_frequency_hz :: "'n Fdt \<Rightarrow> (u64 option, 'e) result" where
  "DeviceTree_timebase_frequency_hz dt =
     obind (expect (fdt_find_node dt (str ''/cpus''))) (\<lambda>cpus.
     obind (expect (fdt_raw_property dt cpus (str ''timebase-frequency''))) (\<lambda>property.
     obind (Ok (property_u64 property)) (\<lambda>frequency.
     Ok (if frequency \<noteq> 0 then Some frequency else None))))"

definition DeviceTree_bootargs :: "'n Fdt \<Rightarrow> (bytes option, 'e) result" where
  "DeviceTree_bootargs dt =
     obind (expect (fdt_find_node dt (str ''/chosen''))) (\<lambda>chosen.
     obind (expect (fdt_raw_property dt chosen (str ''bootargs''))) (\<lambda>property. Ok (property_string property)))"

definition DeviceTree_linux_initrd_range :: "'n Fdt \<Rightarrow> (MemoryRegion option, FdtError) result" where
  "DeviceTree_linux_initrd_range dt =
     obind (expect (fdt_find_node dt (str ''/chosen''))) (\<lambda>chosen.
     rbind (expect (fdt_raw_property dt chosen (str ''linux,initrd-start''))) (\<lambda>start.
     rbind (expect (fdt_raw_property dt chosen (str ''linux,initrd-end''))) (\<lambda>end.
     case (start, end) of
       (Some start, Some end) \<Rightarrow>
         rbind (read_cells start) (\<lambda>start.
         rbind (ok_or (usize_try_from start) FdtAddressOverflow) (\<lambda>start.
         rbind (read_cells end) (\<lambda>end.
         rbind (ok_or (usize_try_from end) FdtAddressOverflow) (\<lambda>end.
         if end \<le> start then Err InvalidRegLength
         else Ok (Some \<lparr>mr_start = start, mr_size = end - start\<rparr>)))))
     | _ \<Rightarrow> if start \<noteq> None \<or> end \<noteq> None then Err InvalidRegLength else Ok None)))"

text \<open>
  The regions that the iterator yields, and whether it ends: at an entry that does not fit, the filter asks for the next
  item for ever.
\<close>

definition DeviceTree_memory_regions :: "'n Fdt \<Rightarrow> (MemoryRegion list \<times> bool, 'e) result" where
  "DeviceTree_memory_regions dt =
     rbind (expect (fdt_memory_reg dt)) (\<lambda>reg.
     Ok (filter (\<lambda>region. \<not> MemoryRegion_is_empty region)
       (List.map_filter (\<lambda>entry.
          Option.bind entry (\<lambda>(address, len).
          Option.bind (usize_try_from address) (\<lambda>start.
          Option.bind (usize_try_from len) (\<lambda>len.
          Some \<lparr>mr_start = start, mr_size = len\<rparr>)))) (takeWhile (\<lambda>entry. entry \<noteq> None) reg)),
       None \<notin> set reg))"

definition DeviceTree_virtio_mmio_regions :: "'n Fdt \<Rightarrow> (VirtioMmioRegion list, 'e) result" where
  "DeviceTree_virtio_mmio_regions dt =
     rbind (expect (fdt_all_nodes dt)) (filter_map_nodes (\<lambda>node.
       rbind (node_is_available dt node) (\<lambda>available.
       if \<not> available then Ok None
       else
         rbind (node_is_compatible dt node (str ''virtio,mmio'')) (\<lambda>compatible.
         if \<not> compatible then Ok None
         else
           obind (expect (fdt_node_reg dt node)) (\<lambda>regions.
           obind (Ok (case regions of [] \<Rightarrow> None | region # _ \<Rightarrow> region)) (\<lambda>(address, len).
           obind (Ok (usize_try_from address)) (\<lambda>base.
           obind (Ok (usize_try_from len)) (\<lambda>len.
           rbind (expect (fdt_name dt node)) (\<lambda>name.
           Ok (Some \<lparr>vmr_name = name, vmr_base = base, vmr_size = len\<rparr>))))))))))"

text \<open>The method \<open>ok\<close> of a result.\<close>

definition result_ok :: "('a, 'e) result \<Rightarrow> ('a option, 'f) result" where
  "result_ok r = (case r of Ok x \<Rightarrow> Ok (Some x) | Err e \<Rightarrow> Ok None | Panic \<Rightarrow> Panic)"

definition root_cells :: "'n Fdt \<Rightarrow> string \<Rightarrow> u32 \<Rightarrow> (u32, 'e) result" where
  "root_cells dt property_name fallback =
     rbind (obind (expect (fdt_find_node dt (str ''/''))) (\<lambda>root. read_cell_count dt root (str property_name))) (\<lambda>cells.
     Ok (case cells of Some v \<Rightarrow> v | None \<Rightarrow> fallback))"

definition DeviceTree_pci_host_bridges :: "'n Fdt \<Rightarrow> (PciHostBridge list, 'e) result" where
  "DeviceTree_pci_host_bridges dt =
     rbind (root_cells dt ''#address-cells'' 2) (\<lambda>root_address_cells.
     rbind (root_cells dt ''#size-cells'' 1) (\<lambda>root_size_cells.
     rbind (expect (fdt_all_nodes dt)) (filter_map_nodes (\<lambda>node.
       rbind (node_is_available dt node) (\<lambda>available.
       if \<not> available then Ok None
       else
         rbind (node_is_compatible dt node (str ''pci-host-ecam-generic'')) (\<lambda>compatible.
         if \<not> compatible then Ok None
         else
           obind (read_cell_count dt node (str ''#address-cells'')) (\<lambda>address_cells.
           obind (read_cell_count dt node (str ''#size-cells'')) (\<lambda>size_cells.
           if address_cells \<noteq> 3 \<or> \<not> (1 \<le> size_cells \<and> size_cells \<le> 2) then Ok None
           else if \<not> is_ok (validate_cell_counts root_address_cells root_size_cells) then Ok None
           else
             obind (expect (fdt_raw_property dt node (str ''reg''))) (\<lambda>reg.
             obind (result_ok (parse_first_region reg root_address_cells root_size_cells)) (\<lambda>ecam.
             obind (expect (fdt_raw_property dt node (str ''ranges''))) (\<lambda>ranges.
             obind (result_ok (parse_pci_memory_range ranges root_address_cells size_cells)) (\<lambda>mem32.
             obind (expect (fdt_raw_property dt node (str ''bus-range''))) (\<lambda>bus_range.
             obind (Ok (parse_bus_range bus_range)) (\<lambda>(first_bus, last_bus).
             if last_bus < first_bus then Ok None
             else
               rbind (expect (fdt_name dt node)) (\<lambda>name.
               Ok (Some \<lparr>phb_name = name, phb_ecam = ecam, phb_mem32 = mem32,
                 phb_first_bus = first_bus, phb_last_bus = last_bus\<rparr>))))))))))))))))"

fun reserved_children ::
  "'n Fdt \<Rightarrow> u32 \<Rightarrow> u32 \<Rightarrow> (bytes \<Rightarrow> MemoryRegion \<Rightarrow> 's \<Rightarrow> 's) \<Rightarrow> 'n answer list \<Rightarrow> ('s, unit, FdtError) action" where
  "reserved_children dt address_cells size_cells visitor [] = sreturn ()"
| "reserved_children dt address_cells size_cells visitor (item # rest) =
     sbind (slift (expect item)) (\<lambda>child.
     sbind (slift (node_is_available dt child)) (\<lambda>available.
     if \<not> available then reserved_children dt address_cells size_cells visitor rest
     else
       sbind (slift (expect (fdt_name dt child))) (\<lambda>name.
       sbind (slift (expect (fdt_raw_property dt child (str ''reg'')))) (\<lambda>reg.
       case reg of
         Some property \<Rightarrow>
           sseq (parse_reg_property property address_cells size_cells (visitor name))
             (reserved_children dt address_cells size_cells visitor rest)
       | None \<Rightarrow>
           sbind (slift (expect (fdt_raw_property dt child (str ''size'')))) (\<lambda>dynamic.
           if dynamic \<noteq> None then sfail DynamicReservedMemoryUnsupported
           else reserved_children dt address_cells size_cells visitor rest)))))"

text \<open>The cell counts and the children of \<open>/reserved-memory\<close>, unless there is no such node.\<close>

definition reserved_plan :: "'n Fdt \<Rightarrow> ((u32 \<times> u32 \<times> 'n answer list) option, FdtError) result" where
  "reserved_plan dt =
     rbind (expect (fdt_find_node dt (str ''/''))) (\<lambda>root.
     rbind (ok_or root InvalidReservedMemoryLayout) (\<lambda>root.
     obind (expect (fdt_find_node dt (str ''/reserved-memory''))) (\<lambda>reserved.
     rbind (read_cell_count dt root (str ''#address-cells'')) (\<lambda>root_address_cells.
     rbind (read_cell_count dt root (str ''#size-cells'')) (\<lambda>root_size_cells.
     rbind (read_cell_count dt reserved (str ''#address-cells'')) (\<lambda>address_cells.
     rbind (ok_or address_cells InvalidReservedMemoryLayout) (\<lambda>address_cells.
     rbind (read_cell_count dt reserved (str ''#size-cells'')) (\<lambda>size_cells.
     rbind (ok_or size_cells InvalidReservedMemoryLayout) (\<lambda>size_cells.
     if address_cells \<noteq> (case root_address_cells of Some v \<Rightarrow> v | None \<Rightarrow> 2)
        \<or> size_cells \<noteq> (case root_size_cells of Some v \<Rightarrow> v | None \<Rightarrow> 1)
     then Err InvalidReservedMemoryLayout
     else
       rbind (expect (fdt_raw_property dt reserved (str ''ranges''))) (\<lambda>ranges.
       if ranges = None then Err InvalidReservedMemoryLayout
       else
         rbind (validate_cell_counts address_cells size_cells) (\<lambda>_.
         rbind (expect (fdt_children dt reserved)) (\<lambda>children.
         Ok (Some (address_cells, size_cells, children))))))))))))))"

definition DeviceTree_for_each_reserved_memory_region ::
  "'n Fdt \<Rightarrow> (bytes \<Rightarrow> MemoryRegion \<Rightarrow> 's \<Rightarrow> 's) \<Rightarrow> ('s, unit, FdtError) action" where
  "DeviceTree_for_each_reserved_memory_region dt visitor =
     sbind (slift (reserved_plan dt)) (\<lambda>plan.
     case plan of
       None \<Rightarrow> sreturn ()
     | Some (address_cells, size_cells, children) \<Rightarrow> reserved_children dt address_cells size_cells visitor children)"

text \<open>The package answers every query that the layout of the memory at boot makes.\<close>

definition parser_answers :: "'n Fdt \<Rightarrow> bool" where
  "parser_answers dt \<longleftrightarrow> fdt_memory_reg dt \<noteq> None \<and> (\<forall>p. fdt_find_node dt p \<noteq> None) \<and> (\<forall>n p. fdt_raw_property dt n p \<noteq> None)
     \<and> (\<forall>n. fdt_name dt n \<noteq> None) \<and> (\<forall>n. \<exists>cs. fdt_children dt n = Some cs \<and> None \<notin> set cs)"

section \<open>Lemmas: the blob\<close>

text \<open>A validated blob: every block that later code reads lies inside its bytes.\<close>

definition blob_ok :: "FdtBlob \<Rightarrow> bool" where
  "blob_ok blob \<longleftrightarrow> (let h = fb_header blob; n = length (fb_bytes blob) in
     n = fh_total_size h \<and> FDT_HEADER_SIZE \<le> n \<and> n \<le> MAX_FDT_SIZE
     \<and> fh_structure_offset h + fh_structure_size h \<le> n \<and> fh_strings_offset h + fh_strings_size h \<le> n
     \<and> 8 dvd fh_reservation_map_offset h \<and> fh_reservation_map_offset h + 16 \<le> fh_structure_offset h)"

lemma read_be_u32_cases: "read_be_u32 bs off = (if off + 4 \<le> length bs then Ok (from_be (take 4 (drop off bs))) else Panic)"
  by (auto simp: read_be_u32_def)

lemma read_be_u64_cases: "read_be_u64 bs off = (if off + 8 \<le> length bs then Ok (from_be (take 8 (drop off bs))) else Panic)"
  by (auto simp: read_be_u64_def)

lemma parse_header_no_panic: "parse_header bs \<noteq> Panic"
  by (auto simp: parse_header_def read_be_u32_cases FDT_HEADER_SIZE_def)

lemma parse_header_Ok:
  "parse_header bs = Ok h \<Longrightarrow> FDT_HEADER_SIZE \<le> fh_total_size h \<and> fh_total_size h \<le> MAX_FDT_SIZE"
  by (auto simp: parse_header_def split: if_splits)

lemma FdtBlob_from_bytes_cases:
  "case FdtBlob_from_bytes bs of
     Ok blob \<Rightarrow> blob_ok blob \<and> fb_bytes blob = take (fh_total_size (fb_header blob)) bs
   | Err e \<Rightarrow> True
   | Panic \<Rightarrow> False"
proof (cases "parse_header bs")
  case (Ok h)
  note p = parse_header_Ok [OF Ok]
  show ?thesis
    using p by (auto simp: FdtBlob_from_bytes_def Ok validate_header_def Let_def range_is_inside_def checked_add_def
        slice_def slice_get_def blob_ok_def split: if_splits)
qed (simp_all add: FdtBlob_from_bytes_def parse_header_no_panic)

section \<open>Lemmas: memory reservations\<close>

lemma reservation_loop_cases:
  assumes "reservation_loop it = (r, it')"
  shows "mri_bytes it' = mri_bytes it \<and> mri_end it' = mri_end it \<and> (case r of
      Ok None \<Rightarrow> mri_finished it'
    | Ok (Some (Ok m)) \<Rightarrow> mri_finished it' = mri_finished it \<and> mri_offset it + 16 \<le> mri_offset it' \<and> mri_offset it' \<le> mri_end it
        \<and> 0 < mr_size m \<and> mr_start m + mr_size m \<le> usize_MAX
    | Ok (Some (Err e)) \<Rightarrow> mri_finished it'
    | _ \<Rightarrow> False)"
  using assms
proof (induction "mri_end it - mri_offset it" arbitrary: it r it' rule: less_induct)
  case less
  show ?case
  proof (cases "mri_offset it + 16 \<le> mri_end it \<and> mri_offset it + 16 \<le> length (mri_bytes it) \<and> mri_offset it + 16 \<le> usize_MAX")
    case False
    then show ?thesis using less.prems by (subst (asm) reservation_loop.simps) (auto simp: checked_add_def split: if_splits)
  next
    case True
    let ?a = "from_be (take 8 (drop (mri_offset it) (mri_bytes it)))" and ?l = "from_be (take 8 (drop (mri_offset it + 8) (mri_bytes it)))"
    have step: "reservation_loop it = (let self = it\<lparr>mri_offset := mri_offset it + 16\<rparr> in
        if ?a = 0 \<and> ?l = 0 then (Ok None, self\<lparr>mri_finished := True\<rparr>)
        else if ?l = 0 then reservation_loop self
        else if ?a + ?l \<le> usize_MAX then (Ok (Some (Ok \<lparr>mr_start = ?a, mr_size = ?l\<rparr>)), self)
        else (Ok (Some (Err FdtAddressOverflow)), self\<lparr>mri_finished := True\<rparr>))"
      using True by (subst reservation_loop.simps)
        (auto simp: checked_add_def read_be_u64_cases Let_def usize_try_from_def add.commute add.left_commute split: if_splits)
    show ?thesis
    proof (cases "?l = 0 \<and> ?a \<noteq> 0")
      case l0: True
      have "reservation_loop (it\<lparr>mri_offset := mri_offset it + 16\<rparr>) = (r, it')" using less.prems step l0 by (simp add: Let_def)
      moreover have "mri_end it - (mri_offset it + 16) < mri_end it - mri_offset it" using True by linarith
      ultimately show ?thesis using less.hyps [of "it\<lparr>mri_offset := mri_offset it + 16\<rparr>" r it'] by (auto split: result.splits option.splits)
    next
      case False
      then show ?thesis using less.prems True unfolding step by (auto simp: Let_def split: if_splits)
    qed
  qed
qed

definition reservations_left :: "MemoryReservationIter \<Rightarrow> nat" where
  "reservations_left it = (if mri_finished it then 0 else Suc ((mri_end it - mri_offset it) div 16))"

lemma MemoryReservationIter_next_cases:
  assumes "MemoryReservationIter_next it = (r, it')"
  shows "(r = Ok None \<and> mri_finished it') \<or> (\<exists>x. r = Ok (Some x) \<and> \<not> mri_finished it \<and> reservations_left it' < reservations_left it
    \<and> (case x of Ok m \<Rightarrow> 0 < mr_size m \<and> mr_start m + mr_size m \<le> usize_MAX | Err e \<Rightarrow> mri_finished it' | Panic \<Rightarrow> False))"
proof (cases "mri_finished it")
  case False
  then have l: "reservation_loop it = (r, it')" using assms by (simp add: MemoryReservationIter_next_def)
  note c = reservation_loop_cases [OF l]
  show ?thesis
  proof (cases r)
    case (Ok x)
    show ?thesis
    proof (cases x)
      case (Some y)
      show ?thesis
      proof (cases y)
        case m: (Ok m)
        have o: "mri_offset it + 16 \<le> mri_offset it'" "mri_offset it' \<le> mri_end it" "mri_end it' = mri_end it" "\<not> mri_finished it'"
          using c False Ok Some m by auto
        have "(mri_end it - mri_offset it' + 16) div 16 \<le> (mri_end it - mri_offset it) div 16" using o by (intro div_le_mono) linarith
        then show ?thesis using c False Ok Some m o by (simp add: reservations_left_def)
      qed (use c False Ok Some in \<open>auto simp: reservations_left_def\<close>)
    qed (use c Ok in auto)
  qed (use c in auto)
qed (use assms in \<open>auto simp: MemoryReservationIter_next_def\<close>)

text \<open>The state after a number of calls.\<close>

fun next_calls :: "nat \<Rightarrow> MemoryReservationIter \<Rightarrow> MemoryReservationIter" where
  "next_calls 0 it = it"
| "next_calls (Suc n) it = next_calls n (snd (MemoryReservationIter_next it))"

lemma next_calls_end:
  "\<exists>n \<le> reservations_left it. fst (MemoryReservationIter_next (next_calls n it)) = Ok None"
proof (induction "reservations_left it" arbitrary: it rule: less_induct)
  case less
  obtain r it' where n: "MemoryReservationIter_next it = (r, it')" by fastforce
  from MemoryReservationIter_next_cases [OF n] show ?case
  proof (elim disjE exE conjE)
    assume "r = Ok None"
    then show ?thesis using n by (intro exI [of _ 0]) simp
  next
    fix x
    assume "reservations_left it' < reservations_left it"
    with less [OF this] obtain k where "k \<le> reservations_left it'" "fst (MemoryReservationIter_next (next_calls k it')) = Ok None" by blast
    then show ?thesis using n \<open>reservations_left it' < reservations_left it\<close> by (intro exI [of _ "Suc k"]) simp
  qed
qed

section \<open>Lemmas: cells and regions\<close>

lemma read_cells_eq:
  "read_cells bs = (if length bs = 4 \<or> length bs = 8 then Ok (from_be bs) else Err InvalidRegLength)"
proof (cases "length bs = 8")
  case True
  define xs ys where "xs = take 4 bs" and "ys = drop 4 bs"
  have bs: "bs = xs @ ys" "length xs = 4" "length ys = 4" using True by (simp_all add: xs_def ys_def)
  have lt: "from_be xs < 2 ^ 32" "from_be ys < 2 ^ 32" using from_be_less [of xs] from_be_less [of ys] bs by simp_all
  have "\<not> bit (from_be ys) n" if "32 \<le> n" for n using lt(2) that by (metis bit_take_bit_iff not_le take_bit_nat_eq_self)
  then have "push_bit 32 (from_be xs) AND from_be ys = 0"
    by (intro bit_eqI) (auto simp: bit_and_iff bit_push_bit_iff)
  then have "push_bit 32 (from_be xs) OR from_be ys = from_be xs * 2 ^ 32 + from_be ys"
    by (metis disjunctive_add_eq_or push_bit_eq_mult)
  moreover have "take_bit 64 (push_bit 32 (from_be xs)) = push_bit 32 (from_be xs)"
    using lt(1) by (simp add: push_bit_eq_mult take_bit_nat_eq_self_iff)
  moreover have "chunks_exact 4 bs = [xs, ys]"
    using chunks_exact_append [of xs 4 ys] chunks_exact_append [of ys 4 "[]"] bs by simp
  ultimately show ?thesis using True bs by (simp add: read_cells_def from_be_app)
next
  case False
  have "chunks_exact 4 bs = [bs]" if "length bs = 4" using chunks_exact_append [of bs 4 "[]"] that by simp
  then show ?thesis using False by (simp add: read_cells_def)
qed

text \<open>What one entry of a \<open>reg\<close> property says, and the regions that a list of entries describes up to the first error.\<close>

definition reg_entry :: "nat \<Rightarrow> bytes \<Rightarrow> (MemoryRegion, FdtError) result" where
  "reg_entry address_cells entry =
     rbind (slice entry 0 (address_cells * 4)) (\<lambda>address_bytes.
     rbind (slice entry (address_cells * 4) (length entry)) (\<lambda>size_bytes.
     rbind (read_cells address_bytes) (\<lambda>address.
     rbind (read_cells size_bytes) (\<lambda>len.
     rbind (ok_or (usize_try_from address) FdtAddressOverflow) (\<lambda>address.
     rbind (ok_or (usize_try_from len) FdtAddressOverflow) (\<lambda>len.
     if len = 0 \<or> checked_add address len \<noteq> None then Ok \<lparr>mr_start = address, mr_size = len\<rparr> else Err FdtAddressOverflow))))))"

fun reg_regions :: "nat \<Rightarrow> bytes list \<Rightarrow> MemoryRegion list \<times> (unit, FdtError) result" where
  "reg_regions address_cells [] = ([], Ok ())"
| "reg_regions address_cells (entry # rest) =
     (case reg_entry address_cells entry of
        Ok m \<Rightarrow> (if mr_size m = 0 then reg_regions address_cells rest
          else (m # fst (reg_regions address_cells rest), snd (reg_regions address_cells rest)))
      | Err e \<Rightarrow> ([], Err e)
      | Panic \<Rightarrow> ([], Panic))"

lemma reg_entries_regions:
  "reg_entries address_cells visitor es s =
     (snd (reg_regions address_cells es), fold visitor (fst (reg_regions address_cells es)) s)"
proof (induction es arbitrary: s)
  case (Cons e es)
  have step: "reg_entries address_cells visitor (e # es) s = (case reg_entry address_cells e of
        Ok m \<Rightarrow> (if mr_size m = 0 then reg_entries address_cells visitor es s
          else reg_entries address_cells visitor es (visitor m s))
      | Err x \<Rightarrow> (Err x, s) | Panic \<Rightarrow> (Panic, s))"
    by (cases "slice_get e 0 (address_cells * 4)"; cases "slice_get e (address_cells * 4) (length e)")
      (auto simp: reg_entry_def slice_def read_cells_eq usize_try_from_def sbind_def slift_def sseq_def smodify_def
        checked_add_def)
  show ?case unfolding step using Cons by (auto split: result.splits)
qed (simp add: sreturn_def)

lemma reg_entry_eq:
  assumes "address_cells = 1 \<or> address_cells = 2" "size_cells = 1 \<or> size_cells = 2" "length e = (address_cells + size_cells) * 4"
  defines "a \<equiv> from_be (take (address_cells * 4) e)" and "l \<equiv> from_be (drop (address_cells * 4) e)"
  shows "reg_entry address_cells e =
    (if l = 0 \<or> a + l \<le> usize_MAX then Ok \<lparr>mr_start = a, mr_size = l\<rparr> else Err FdtAddressOverflow)"
proof -
  let ?a = "take (address_cells * 4) e" and ?l = "drop (address_cells * 4) e"
  have len: "length ?a = 4 \<or> length ?a = 8" "length ?l = 4 \<or> length ?l = 8" "address_cells * 4 \<le> length e" using assms by auto
  have sl: "slice e 0 (address_cells * 4) = (Ok ?a :: (bytes, FdtError) result)"
    "slice e (address_cells * 4) (length e) = (Ok ?l :: (bytes, FdtError) result)" using len(3) by (auto simp: slice_get_Some)
  have b: "from_be x \<le> usize_MAX" if "length x = 4 \<or> length x = 8" for x
  proof -
    have "from_be x < 2 ^ 64" using from_be_less [of x] that by auto
    then show ?thesis by (simp add: usize_MAX_def)
  qed
  show ?thesis using len b [OF len(1)] b [OF len(2)]
    by (auto simp: reg_entry_def sl read_cells_eq usize_try_from_def checked_add_def a_def l_def)
qed

definition encode_region :: "nat \<Rightarrow> nat \<Rightarrow> MemoryRegion \<Rightarrow> bytes" where
  "encode_region address_cells size_cells m = to_be (address_cells * 4) (mr_start m) @ to_be (size_cells * 4) (mr_size m)"

lemma reg_regions_encoded:
  assumes cells: "address_cells = 1 \<or> address_cells = 2" "size_cells = 1 \<or> size_cells = 2"
    and ms: "\<forall>m \<in> set ms. mr_start m < 2 ^ (32 * address_cells) \<and> mr_size m < 2 ^ (32 * size_cells) \<and> mr_start m + mr_size m \<le> usize_MAX"
  shows "reg_regions address_cells (map (encode_region address_cells size_cells) ms) = (filter (\<lambda>m. mr_size m \<noteq> 0) ms, Ok ())"
  using ms
proof (induction ms)
  case (Cons m ms)
  let ?e = "encode_region address_cells size_cells m"
  have p: "(256 :: nat) ^ (n * 4) = 2 ^ (32 * n)" for n
  proof -
    have "(256 :: nat) ^ (n * 4) = (2 ^ 8) ^ (n * 4)" by simp
    also have "\<dots> = 2 ^ (8 * (n * 4))" by (rule power_mult [symmetric])
    finally show ?thesis by (simp add: mult.commute)
  qed
  have e: "from_be (take (address_cells * 4) ?e) = mr_start m" "from_be (drop (address_cells * 4) ?e) = mr_size m"
    "length ?e = (address_cells + size_cells) * 4"
    using Cons.prems by (simp_all add: encode_region_def p algebra_simps)
  have "reg_entry address_cells ?e = Ok m"
    using Cons.prems unfolding reg_entry_eq [OF cells e(3)] e(1,2) by simp
  then show ?case using Cons by simp
qed simp

text \<open>A region that a parser reports: not empty and inside the address space.\<close>

definition region_ok :: "MemoryRegion \<Rightarrow> bool" where
  "region_ok m \<longleftrightarrow> 0 < mr_size m \<and> mr_start m + mr_size m \<le> usize_MAX"

lemma reg_regions_ok:
  assumes "address_cells = 1 \<or> address_cells = 2" "size_cells = 1 \<or> size_cells = 2"
    and "\<forall>e \<in> set es. length e = (address_cells + size_cells) * 4"
  shows "list_all region_ok (fst (reg_regions address_cells es)) \<and> snd (reg_regions address_cells es) \<noteq> Panic"
  using assms(3)
proof (induction es)
  case (Cons e es)
  then have e: "length e = (address_cells + size_cells) * 4" by simp
  show ?case using Cons unfolding reg_regions.simps reg_entry_eq [OF assms(1,2) e] by (simp add: region_ok_def)
qed simp

definition property_regions :: "bytes \<Rightarrow> u32 \<Rightarrow> u32 \<Rightarrow> MemoryRegion list \<times> (unit, FdtError) result" where
  "property_regions bs address_cells size_cells =
     (if \<not> is_ok (validate_cell_counts address_cells size_cells) then ([], Err (UnsupportedCellCount address_cells size_cells))
      else if bs = [] \<or> \<not> (address_cells + size_cells) * 4 dvd length bs then ([], Err InvalidRegLength)
      else reg_regions address_cells (chunks_exact ((address_cells + size_cells) * 4) bs))"

lemma parse_reg_property_regions:
  "parse_reg_property bs address_cells size_cells visitor s =
     (snd (property_regions bs address_cells size_cells), fold visitor (fst (property_regions bs address_cells size_cells)) s)"
  "list_all region_ok (fst (property_regions bs address_cells size_cells))" "snd (property_regions bs address_cells size_cells) \<noteq> Panic"
proof -
  let ?n = "(address_cells + size_cells) * 4" and ?es = "chunks_exact ((address_cells + size_cells) * 4) bs"
  consider "1 \<le> address_cells" "address_cells \<le> 2" "1 \<le> size_cells" "size_cells \<le> 2"
      "validate_cell_counts address_cells size_cells = Ok ()"
    | "validate_cell_counts address_cells size_cells = Err (UnsupportedCellCount address_cells size_cells)"
    by (cases "1 \<le> address_cells \<and> address_cells \<le> 2 \<and> 1 \<le> size_cells \<and> size_cells \<le> 2") (auto simp: validate_cell_counts_def)
  then have "parse_reg_property bs address_cells size_cells visitor s =
      (snd (property_regions bs address_cells size_cells), fold visitor (fst (property_regions bs address_cells size_cells)) s)
    \<and> list_all region_ok (fst (property_regions bs address_cells size_cells)) \<and> snd (property_regions bs address_cells size_cells) \<noteq> Panic"
  proof cases
    case 1
    then have c: "address_cells = 1 \<or> address_cells = 2" "size_cells = 1 \<or> size_cells = 2" by auto
    have len: "\<forall>e \<in> set ?es. length e = ?n" using length_chunks_exact by blast
    have a: "checked_add address_cells size_cells = Some (address_cells + size_cells)" "checked_mul (address_cells + size_cells) 4 = Some ?n"
      using c by (auto simp: checked_add_def checked_mul_def usize_MAX_def)
    show ?thesis using reg_regions_ok [OF c len] 1
      by (auto simp: parse_reg_property_def property_regions_def sbind_def slift_def a sfail_def reg_entries_regions)
  qed (simp add: parse_reg_property_def property_regions_def sbind_def slift_def)
  then show "parse_reg_property bs address_cells size_cells visitor s =
      (snd (property_regions bs address_cells size_cells), fold visitor (fst (property_regions bs address_cells size_cells)) s)"
    "list_all region_ok (fst (property_regions bs address_cells size_cells))" "snd (property_regions bs address_cells size_cells) \<noteq> Panic"
    by auto
qed

text \<open>The named regions that \<open>/reserved-memory\<close> describes up to the first error.\<close>

lemma expect_eq_Panic: "expect x = Panic \<longleftrightarrow> x = None"
  by (cases x) simp_all

lemma rbind_no_panic: "m \<noteq> Panic \<Longrightarrow> (\<And>x. m = Ok x \<Longrightarrow> k x \<noteq> Panic) \<Longrightarrow> rbind m k \<noteq> Panic"
  by (cases m) auto

lemma obind_no_panic: "m \<noteq> Panic \<Longrightarrow> (\<And>x. m = Ok (Some x) \<Longrightarrow> k x \<noteq> Panic) \<Longrightarrow> obind m k \<noteq> Panic"
  unfolding obind_def by (rule rbind_no_panic) (auto split: option.splits)

lemma parser_answered:
  assumes "parser_answers dt"
  shows "expect (fdt_memory_reg dt) \<noteq> Panic" "expect (fdt_find_node dt path) \<noteq> Panic" "expect (fdt_raw_property dt n p) \<noteq> Panic"
    "expect (fdt_name dt n) \<noteq> Panic" "expect (fdt_children dt n) \<noteq> Panic" "read_cell_count dt n p \<noteq> Panic"
  using assms by (auto simp: parser_answers_def expect_eq_Panic read_cell_count_def rbind_eq_Panic)

definition child_property :: "'n Fdt \<Rightarrow> 'n answer \<Rightarrow> ((bytes \<times> bytes) option, FdtError) result" where
  "child_property dt item =
     rbind (expect item) (\<lambda>child. rbind (node_is_available dt child) (\<lambda>available.
     if \<not> available then Ok None
     else rbind (expect (fdt_name dt child)) (\<lambda>name. rbind (expect (fdt_raw_property dt child (str ''reg''))) (\<lambda>reg.
       case reg of Some property \<Rightarrow> Ok (Some (name, property))
       | None \<Rightarrow> rbind (expect (fdt_raw_property dt child (str ''size''))) (\<lambda>dynamic.
           if dynamic \<noteq> None then Err DynamicReservedMemoryUnsupported else Ok None)))))"

fun children_regions :: "'n Fdt \<Rightarrow> u32 \<Rightarrow> u32 \<Rightarrow> 'n answer list \<Rightarrow> (bytes \<times> MemoryRegion) list \<times> (unit, FdtError) result" where
  "children_regions dt address_cells size_cells [] = ([], Ok ())"
| "children_regions dt address_cells size_cells (item # rest) =
     (case child_property dt item of
        Ok (Some (name, property)) \<Rightarrow>
          (case property_regions property address_cells size_cells of
             (ms, Ok _) \<Rightarrow> (map (Pair name) ms @ fst (children_regions dt address_cells size_cells rest),
               snd (children_regions dt address_cells size_cells rest))
           | (ms, r) \<Rightarrow> (map (Pair name) ms, r))
      | Ok None \<Rightarrow> children_regions dt address_cells size_cells rest
      | Err e \<Rightarrow> ([], Err e)
      | Panic \<Rightarrow> ([], Panic))"

lemma slift_simps:
  "sbind (slift (Ok x)) k = k x" "sbind (slift (Err e)) k = sfail e" "sbind (slift Panic) k = (\<lambda>s. (Panic, s))"
  by (auto simp: sbind_def slift_def sfail_def)

lemma reserved_children_Cons:
  "reserved_children dt address_cells size_cells visitor (item # rest) =
     sbind (slift (child_property dt item)) (\<lambda>x. case x of
       None \<Rightarrow> reserved_children dt address_cells size_cells visitor rest
     | Some (name, property) \<Rightarrow> sseq (parse_reg_property property address_cells size_cells (visitor name))
         (reserved_children dt address_cells size_cells visitor rest))"
proof (cases item)
  case (Some n)
  show ?thesis
  proof (cases "fdt_raw_property dt n (str ''status'')")
    case None
    then show ?thesis by (simp add: Some child_property_def node_is_available_def slift_simps)
  next
    case status: (Some st)
    then obtain b where b: "node_is_available dt n = (Ok b :: (bool, FdtError) result)" by (simp add: node_is_available_def)
    show ?thesis
      by (cases "fdt_name dt n"; cases "fdt_raw_property dt n (str ''reg'')"; cases "fdt_raw_property dt n (str ''size'')")
        (auto simp: Some b child_property_def slift_simps split: option.split)
  qed
qed (simp add: child_property_def slift_simps)

lemma reserved_children_regions:
  "reserved_children dt address_cells size_cells visitor cs s =
     (snd (children_regions dt address_cells size_cells cs), fold (\<lambda>(n, m). visitor n m) (fst (children_regions dt address_cells size_cells cs)) s)"
proof (induction cs arbitrary: s)
  case (Cons c cs)
  have f: "fold (\<lambda>(n, m). visitor n m) (map (Pair x) ms) s = fold (visitor x) ms s" for x ms s
    by (induction ms arbitrary: s) auto
  show ?case
    by (cases "child_property dt c")
      (auto simp: Cons reserved_children_Cons slift_simps sseq_def sbind_def sfail_def parse_reg_property_regions(1) f
        simp del: reserved_children.simps split: option.splits prod.splits result.splits)
qed (simp add: sreturn_def)

lemma children_regions_ok: "list_all region_ok (map snd (fst (children_regions dt address_cells size_cells cs)))"
proof (induction cs)
  case (Cons c cs)
  have "list_all region_ok (fst (property_regions p address_cells size_cells))" for p by (rule parse_reg_property_regions(2))
  then have "property_regions p address_cells size_cells = (ms, r) \<Longrightarrow> list_all region_ok ms" for p ms r by (metis fst_conv)
  then show ?case using Cons by (auto simp: comp_def split: result.splits option.splits prod.splits)
qed simp

lemma child_property_no_panic: "parser_answers dt \<Longrightarrow> child_property dt (Some n) \<noteq> Panic"
  unfolding child_property_def node_is_available_def
  by (auto simp: rbind_eq_Panic parser_answered split: option.splits)

lemma children_regions_no_panic:
  assumes "parser_answers dt" "None \<notin> set cs"
  shows "snd (children_regions dt address_cells size_cells cs) \<noteq> Panic"
  using assms(2)
proof (induction cs)
  case (Cons c cs)
  obtain n where n: "c = Some n" using Cons.prems by (cases c) auto
  have "snd (property_regions p address_cells size_cells) \<noteq> Panic" for p by (rule parse_reg_property_regions(3))
  then have "property_regions p address_cells size_cells \<noteq> (ms, Panic)" for p ms by (metis snd_conv)
  then show ?case using Cons child_property_no_panic [OF assms(1), of n]
    by (auto simp: n split: option.splits prod.splits result.splits)
qed simp

lemma reserved_plan_no_panic: "parser_answers dt \<Longrightarrow> reserved_plan dt \<noteq> Panic"
  unfolding reserved_plan_def
  by (intro rbind_no_panic obind_no_panic; simp add: parser_answered)
    (auto simp: rbind_eq_Panic parser_answered validate_cell_counts_def)

lemma reserved_plan_children:
  assumes "parser_answers dt" "reserved_plan dt = Ok (Some (a, l, cs))"
  shows "None \<notin> set cs"
proof -
  obtain n where "fdt_children dt n = Some cs"
    using assms(2) unfolding reserved_plan_def obind_def by (auto simp: rbind_eq_Ok split: option.split_asm if_split_asm)
  then show ?thesis using assms(1) unfolding parser_answers_def by (metis option.inject)
qed

definition reserved_regions :: "'n Fdt \<Rightarrow> (bytes \<times> MemoryRegion) list \<times> (unit, FdtError) result" where
  "reserved_regions dt =
     (case reserved_plan dt of
        Ok None \<Rightarrow> ([], Ok ()) | Ok (Some (a, l, cs)) \<Rightarrow> children_regions dt a l cs | Err e \<Rightarrow> ([], Err e) | Panic \<Rightarrow> ([], Panic))"

lemma for_each_reserved_memory_region_regions:
  "DeviceTree_for_each_reserved_memory_region dt visitor s =
     (snd (reserved_regions dt), fold (\<lambda>(n, m). visitor n m) (fst (reserved_regions dt)) s)"
  "list_all region_ok (map snd (fst (reserved_regions dt)))" "parser_answers dt \<Longrightarrow> snd (reserved_regions dt) \<noteq> Panic"
proof -
  show "DeviceTree_for_each_reserved_memory_region dt visitor s =
     (snd (reserved_regions dt), fold (\<lambda>(n, m). visitor n m) (fst (reserved_regions dt)) s)"
    by (simp add: DeviceTree_for_each_reserved_memory_region_def reserved_regions_def reserved_children_regions sbind_def slift_def sreturn_def
        split: result.splits option.splits prod.splits)
  show "list_all region_ok (map snd (fst (reserved_regions dt)))"
    by (auto simp: reserved_regions_def children_regions_ok split: result.splits option.splits)
  show "snd (reserved_regions dt) \<noteq> Panic" if "parser_answers dt"
    using reserved_plan_no_panic [OF that] reserved_plan_children [OF that] children_regions_no_panic [OF that]
    by (auto simp: reserved_regions_def split: result.splits option.splits)
qed

section \<open>Validation, termination and round trip\<close>

text \<open>What the bytes of an acceptable blob look like.\<close>

definition fdt_field :: "bytes \<Rightarrow> nat \<Rightarrow> nat" where
  "fdt_field bs off = from_be (take 4 (drop off bs))"

definition fdt_wellformed :: "bytes \<Rightarrow> bool" where
  "fdt_wellformed bs \<longleftrightarrow> 40 \<le> length bs \<and> fdt_field bs 0 = 0xd00dfeed
     \<and> 40 \<le> fdt_field bs 4 \<and> fdt_field bs 4 \<le> 2 ^ 24 \<and> fdt_field bs 4 \<le> length bs
     \<and> fdt_field bs 8 + fdt_field bs 36 \<le> fdt_field bs 4 \<and> fdt_field bs 12 + fdt_field bs 32 \<le> fdt_field bs 4
     \<and> 8 dvd fdt_field bs 16 \<and> fdt_field bs 16 + 16 \<le> fdt_field bs 8"

lemma fdt_field_bound: "fdt_field bs off < 2 ^ 32"
proof -
  have "fdt_field bs off < 256 ^ length (take 4 (drop off bs))" unfolding fdt_field_def by (rule from_be_less)
  also have "\<dots> \<le> 256 ^ 4" by (rule power_increasing) auto
  finally show ?thesis by simp
qed

text \<open>
  C24. The validation of the device tree blob: for any bytes it never panics, it accepts exactly those with a header of
  forty bytes, the magic number, a total size between the header and 16 MiB that is not larger than the bytes given, and
  structure, strings and reservation blocks inside that size. What it accepts is a blob whose bytes are cut to the total
  size and whose blocks can be read without leaving them.
\<close>

theorem FdtBlob_from_bytes_correct:
  "case FdtBlob_from_bytes bs of
     Ok blob \<Rightarrow> fdt_wellformed bs \<and> blob_ok blob \<and> fb_bytes blob = take (fdt_field bs 4) bs
   | Err e \<Rightarrow> \<not> fdt_wellformed bs
   | Panic \<Rightarrow> False"
proof -
  have f: "read_be_u32 bs off = Ok (fdt_field bs off)" if "40 \<le> length bs" "off \<le> 36" for off
    using that by (simp add: read_be_u32_cases fdt_field_def)
  have b: "fdt_field bs x + fdt_field bs y \<le> usize_MAX" for x y
    using fdt_field_bound [of bs x] fdt_field_bound [of bs y] by (simp add: usize_MAX_def)
  show ?thesis
    using FdtBlob_from_bytes_cases [of bs] b
    by (cases "40 \<le> length bs")
      (auto simp: FdtBlob_from_bytes_def parse_header_def f FDT_HEADER_SIZE_def FDT_MAGIC_def MAX_FDT_SIZE_def validate_header_def Let_def
        range_is_inside_def checked_add_def fdt_wellformed_def slice_def slice_get_def split: if_splits)
qed

lemma next_calls_finished: "mri_finished it \<Longrightarrow> next_calls k it = it"
  by (induction k) (simp_all add: MemoryReservationIter_next_def)

lemma next_calls_add: "next_calls (n + k) it = next_calls k (next_calls n it)"
  by (induction n arbitrary: it) simp_all

text \<open>
  C26. The iterator over the memory reservations ends: after at most one call for each entry of sixteen bytes between the
  reservation map and the structure block and one more, every further call gives nothing, also when the map is damaged.
\<close>

theorem memory_reservations_end:
  "\<exists>n. n \<le> Suc ((fh_structure_offset (fb_header blob) - fh_reservation_map_offset (fb_header blob)) div 16)
     \<and> (\<forall>k. fst (MemoryReservationIter_next (next_calls (n + k) (FdtBlob_memory_reservations blob))) = Ok None)"
proof -
  let ?it = "FdtBlob_memory_reservations blob"
  have left: "reservations_left ?it = Suc ((fh_structure_offset (fb_header blob) - fh_reservation_map_offset (fb_header blob)) div 16)"
    by (simp add: reservations_left_def FdtBlob_memory_reservations_def)
  obtain n where n: "n \<le> reservations_left ?it" "fst (MemoryReservationIter_next (next_calls n ?it)) = Ok None"
    using next_calls_end by blast
  obtain it' where it': "MemoryReservationIter_next (next_calls n ?it) = (Ok None, it')" using n(2) by (metis prod.collapse)
  then have fin: "mri_finished it'" using MemoryReservationIter_next_cases by fastforce
  have "fst (MemoryReservationIter_next (next_calls (n + k) ?it)) = Ok None" for k
  proof (cases k)
    case (Suc j)
    have "next_calls (n + k) ?it = it'" by (simp add: next_calls_add Suc it' next_calls_finished [OF fin] del: add_Suc_right)
    then show ?thesis using fin by (simp add: MemoryReservationIter_next_def)
  qed (use n(2) in simp)
  then show ?thesis using n(1) left by auto
qed

definition region_encodable :: "nat \<Rightarrow> nat \<Rightarrow> MemoryRegion \<Rightarrow> bool" where
  "region_encodable address_cells size_cells m \<longleftrightarrow>
     mr_start m < 2 ^ (32 * address_cells) \<and> mr_size m < 2 ^ (32 * size_cells) \<and> mr_start m + mr_size m \<le> usize_MAX"

text \<open>
  C31. Reading a property of regions gives back what was written: for one or two cells of addresses and sizes and
  regions that fit in them, the visitor is called with exactly the regions that are not empty, in order.
\<close>

theorem parse_reg_property_roundtrip:
  assumes "1 \<le> address_cells" "address_cells \<le> 2" "1 \<le> size_cells" "size_cells \<le> 2" "ms \<noteq> []"
    and "list_all (region_encodable address_cells size_cells) ms"
  shows "parse_reg_property (concat (map (encode_region address_cells size_cells) ms)) address_cells size_cells visitor s
    = (Ok (), fold visitor (filter (\<lambda>m. mr_size m \<noteq> 0) ms) s)"
proof -
  let ?n = "(address_cells + size_cells) * 4" and ?es = "map (encode_region address_cells size_cells) ms"
  have cells: "address_cells = 1 \<or> address_cells = 2" "size_cells = 1 \<or> size_cells = 2" using assms(1-4) by auto
  have len: "length e = ?n" if "e \<in> set ?es" for e using that by (auto simp: encode_region_def)
  have "chunks_exact ?n (concat ?es) = ?es" by (rule chunks_exact_concat) (use len assms(1) in auto)
  moreover have total: "length (concat ?es) = ?n * length ms" using len by (induction ms) (simp_all add: encode_region_def algebra_simps)
  moreover have "concat ?es \<noteq> []" using total assms(1,5) by (metis length_greater_0_conv list.size(3) mult_is_0 add_is_0 not_one_le_zero zero_neq_numeral)
  moreover have "is_ok (validate_cell_counts address_cells size_cells)" using assms(1-4) by (simp add: validate_cell_counts_def)
  moreover have "reg_regions address_cells ?es = (filter (\<lambda>m. mr_size m \<noteq> 0) ms, Ok ())"
    using assms(6) by (intro reg_regions_encoded [OF cells]) (auto simp: region_encodable_def list_all_iff)
  ultimately have "property_regions (concat ?es) address_cells size_cells = (filter (\<lambda>m. mr_size m \<noteq> 0) ms, Ok ())"
    by (simp add: property_regions_def)
  then show ?thesis by (simp add: parse_reg_property_regions(1))
qed

theorem parse_reg_property_witness:
  "parse_reg_property (to_be 8 0x80000000 @ to_be 4 0x100000 @ to_be 8 0x90000000 @ to_be 4 0) 2 1 (\<lambda>m ms. ms @ [m]) []
    = (Ok (), [\<lparr>mr_start = 0x80000000, mr_size = 0x100000\<rparr>])"
  using parse_reg_property_roundtrip [of 2 1 "[\<lparr>mr_start = 0x80000000, mr_size = 0x100000\<rparr>, \<lparr>mr_start = 0x90000000, mr_size = 0\<rparr>]"
    "\<lambda>m ms. ms @ [m]" "[]"]
  by (simp add: region_encodable_def encode_region_def usize_MAX_def)

end
