(* ===== verification/Boot_Memory.thy ===== *)
theory Boot_Memory
  imports Fdt Memory_Map
begin

text \<open>
  The memory layout at boot, \<open>kernel/src/memory.rs\<close>: usable memory from the device tree, from which every reservation,
  the initial ram disk, the kernel image and the device tree itself are taken out.
\<close>

definition MEMORY_MAP_CAPACITY :: usize where "MEMORY_MAP_CAPACITY = 64"

datatype BootMemoryError =
    InvalidPhysicalRange
  | NoUsableMemory
  | BootFdt FdtError
  | BootMemoryMap MemoryMapError

record BootMemoryLayout =
  bl_ram :: MemoryMap
  bl_free :: MemoryMap

type_synonym 'a boot_action = "(MemoryMap, 'a, BootMemoryError) action"

definition to_phys_range :: "MemoryRegion \<Rightarrow> (PhysRange, BootMemoryError) result" where
  "to_phys_range region = ok_or (PhysRange_from_start_size (mr_start region) (mr_size region)) InvalidPhysicalRange"

definition reserve_region :: "MemoryRegion \<Rightarrow> unit boot_action" where
  "reserve_region region = sbind (slift (to_phys_range region)) (\<lambda>r. smap_err BootMemoryMap (MemoryMap_reserve r))"

definition add_region :: "MemoryRegion \<Rightarrow> unit boot_action" where
  "add_region region = sbind (slift (to_phys_range region)) (\<lambda>r. smap_err BootMemoryMap (MemoryMap_add_usable r))"

text \<open>The loop over the reservation block; the iterator shrinks with every item.\<close>

function reserve_reservations :: "MemoryReservationIter \<Rightarrow> unit boot_action" where
  "reserve_reservations it s =
     (case MemoryReservationIter_next it of
        (Ok None, _) \<Rightarrow> (Ok (), s)
      | (Ok (Some reservation), it') \<Rightarrow>
          (case sbind (slift (map_err BootFdt reservation)) reserve_region s of
             (Ok _, s') \<Rightarrow> reserve_reservations it' s'
           | (Err e, s') \<Rightarrow> (Err e, s')
           | (Panic, s') \<Rightarrow> (Panic, s'))
      | (_, _) \<Rightarrow> (Panic, s))"
  by pat_completeness auto
termination
  by (relation "measure (\<lambda>(it, s). reservations_left it)") (auto dest!: MemoryReservationIter_next_cases [OF sym])

declare reserve_reservations.simps [simp del]

text \<open>What the visitor of \<open>/reserved-memory\<close> does: it remembers the first error and reserves nothing after it.\<close>

definition reserve_visitor ::
  "bytes \<Rightarrow> MemoryRegion \<Rightarrow> MemoryMap \<times> BootMemoryError option \<Rightarrow> MemoryMap \<times> BootMemoryError option" where
  "reserve_visitor name region state =
     (case state of (free, reserve_error) \<Rightarrow>
        if reserve_error \<noteq> None then state
        else
          (case to_phys_range region of
             Ok r \<Rightarrow>
               (case MemoryMap_reserve r free of
                  (Err e, free') \<Rightarrow> (free', Some (BootMemoryMap e))
                | (_, free') \<Rightarrow> (free', None))
           | Err e \<Rightarrow> (free, Some e)
           | Panic \<Rightarrow> state))"

definition reserve_reserved_memory :: "'n Fdt \<Rightarrow> unit boot_action" where
  "reserve_reserved_memory tree free =
     (case DeviceTree_for_each_reserved_memory_region tree reserve_visitor (free, None) of
        (Ok _, (free', None)) \<Rightarrow> (Ok (), free')
      | (Ok _, (free', Some e)) \<Rightarrow> (Err e, free')
      | (Err e, (free', _)) \<Rightarrow> (Err (BootFdt e), free')
      | (Panic, (free', _)) \<Rightarrow> (Panic, free'))"

definition reserve_initrd :: "'n Fdt \<Rightarrow> unit boot_action" where
  "reserve_initrd tree =
     sbind (slift (map_err BootFdt (DeviceTree_linux_initrd_range tree))) (\<lambda>initrd.
     case initrd of Some region \<Rightarrow> reserve_region region | None \<Rightarrow> sreturn ())"

text \<open>Nothing has to be reserved for the RISC-V platform.\<close>

definition reserve_early_platform_memory :: "(MemoryMap, unit, MemoryMapError) action" where
  "reserve_early_platform_memory = sreturn ()"

text \<open>
  The image is the range between the symbols of the linker script. Building the layout does not return, which is \<open>None\<close>,
  when the loop over the memory regions has added all of them and the iterator does not end.
\<close>

definition build_boot_memory_layout ::
  "PhysRange \<Rightarrow> usize \<Rightarrow> FdtBlob \<Rightarrow> 'n Fdt \<Rightarrow> (BootMemoryLayout, BootMemoryError) result option" where
  "build_boot_memory_layout kernel_image fdt_address blob tree =
     (case DeviceTree_memory_regions tree of
        Ok (regions, ends) \<Rightarrow>
          (case sforeach add_region regions (MemoryMap_new MEMORY_MAP_CAPACITY) of
             (Ok _, ram) \<Rightarrow>
               if \<not> ends then None
               else Some (case sseq (reserve_reservations (FdtBlob_memory_reservations blob))
                      (sseq (reserve_reserved_memory tree)
                      (sseq (reserve_initrd tree)
                      (sseq (smap_err BootMemoryMap reserve_early_platform_memory)
                      (sseq (smap_err BootMemoryMap (MemoryMap_reserve kernel_image))
                      (sbind (slift (ok_or (PhysRange_from_start_size fdt_address (fh_total_size (fb_header blob))) InvalidPhysicalRange))
                        (\<lambda>fdt_range. smap_err BootMemoryMap (MemoryMap_reserve fdt_range))))))) ram of
                  (Ok _, free) \<Rightarrow>
                    if MemoryMap_is_empty free then Err NoUsableMemory else Ok \<lparr>bl_ram = ram, bl_free = free\<rparr>
                | (Err e, _) \<Rightarrow> Err e
                | (Panic, _) \<Rightarrow> Panic)
           | (Err e, _) \<Rightarrow> Some (Err e)
           | (Panic, _) \<Rightarrow> Some Panic)
      | Err e \<Rightarrow> Some (Err e)
      | Panic \<Rightarrow> Some Panic)"

section \<open>Lemmas\<close>

text \<open>The addresses of a region, the pages inside it and the pages it meets.\<close>

definition region_set :: "MemoryRegion \<Rightarrow> PhysAddr set" where
  "region_set m = {mr_start m..<mr_start m + mr_size m}"

definition inside_pages :: "MemoryRegion \<Rightarrow> PhysAddr set" where
  "inside_pages m = {a. page_of a \<subseteq> region_set m}"

definition touched_pages :: "MemoryRegion \<Rightarrow> PhysAddr set" where
  "touched_pages m = {a. page_of a \<inter> region_set m \<noteq> {}}"

text \<open>A region whose pages end below the top of the address space.\<close>

definition region_fits :: "MemoryRegion \<Rightarrow> bool" where
  "region_fits m \<longleftrightarrow> 0 < mr_size m \<and> mr_start m + mr_size m + (PAGE_SIZE - 1) \<le> usize_MAX"

definition takes_out :: "MemoryMap \<Rightarrow> PhysAddr set \<Rightarrow> MemoryMap \<Rightarrow> bool" where
  "takes_out s gone s' \<longleftrightarrow> MemoryMap_inv s' \<and> MemoryMap_addrs s' = MemoryMap_addrs s - gone"

lemma to_phys_range_Ok:
  "to_phys_range m = Ok r \<longleftrightarrow> mr_start m + mr_size m \<le> usize_MAX \<and> r = \<lparr>pr_start = mr_start m, pr_end = mr_start m + mr_size m\<rparr>"
  by (auto simp: to_phys_range_def PhysRange_from_start_size_def PhysRange_new_def checked_add_def split: option.splits if_splits)

lemma to_phys_range_no_panic [simp]: "to_phys_range m \<noteq> Panic"
  by (simp add: to_phys_range_def)

lemma reserve_takes_out:
  assumes "MemoryMap_inv s" "pr_start r < pr_end r" "pr_end r + (PAGE_SIZE - 1) \<le> usize_MAX" "MemoryMap_reserve r s = (Ok (), s')"
  shows "takes_out s {a. page_of a \<inter> PhysRange_set r \<noteq> {}} s'"
  using MemoryMap_reserve_commits [OF assms(1-3)] assms(4) by (simp add: commits_def takes_out_def)

lemma reserve_region_takes_out:
  assumes "MemoryMap_inv s" "region_fits m" "reserve_region m s = (Ok (), s')"
  shows "takes_out s (touched_pages m) s'"
proof -
  let ?r = "\<lparr>pr_start = mr_start m, pr_end = mr_start m + mr_size m\<rparr>"
  have r: "to_phys_range m = Ok ?r" using assms(2) by (simp add: to_phys_range_Ok region_fits_def)
  then have "MemoryMap_reserve ?r s = (Ok (), s')"
    using assms(3) by (auto simp: reserve_region_def sbind_def slift_def smap_err_def split: prod.splits)
  from reserve_takes_out [OF assms(1) _ _ this] assms(2) show ?thesis
    by (simp add: region_fits_def touched_pages_def region_set_def PhysRange_set_def)
qed

text \<open>The reservation of a range never panics.\<close>

lemma MemoryMap_reserve_no_panic: "fst (MemoryMap_reserve r m) \<noteq> Panic"
proof -
  have push: "push_entry x out \<noteq> Panic" for x out by (simp add: push_entry_def split: prod.splits)
  have loop: "reserve_loop c rs out \<noteq> Panic" for c rs out
  proof (induction rs arbitrary: out)
    case (Cons x rs)
    then show ?case by (auto simp: rbind_eq_Panic push PhysRange_new_def split: if_splits)
  qed simp
  show ?thesis by (auto simp: MemoryMap_reserve_def loop split: option.splits result.splits prod.splits)
qed

text \<open>A range that ends in the last page of the address space has no covering pages, and the request to reserve it has no effect.\<close>

lemma MemoryMap_reserve_top:
  assumes "pr_start r \<le> pr_end r" "pr_end r \<le> usize_MAX" "usize_MAX < pr_end r + (PAGE_SIZE - 1)"
  shows "MemoryMap_reserve r m = (Ok (), m)"
  using assms by (simp add: MemoryMap_reserve_def PhysRange_covering_pages_eq PhysRange_ok_def PAGE_SIZE_eq)

lemma takes_out_trans: "takes_out s a s1 \<Longrightarrow> takes_out s1 b s2 \<Longrightarrow> takes_out s (a \<union> b) s2"
  by (auto simp: takes_out_def)

lemma takes_out_inv: "takes_out s a s' \<Longrightarrow> MemoryMap_inv s'"
  by (simp add: takes_out_def)

text \<open>The regions that the reservation block lists.\<close>

function reservation_items :: "MemoryReservationIter \<Rightarrow> MemoryRegion list" where
  "reservation_items it =
     (case MemoryReservationIter_next it of
        (Ok (Some (Ok m)), it') \<Rightarrow> m # reservation_items it'
      | _ \<Rightarrow> [])"
  by pat_completeness auto
termination
  by (relation "measure reservations_left") (auto dest!: MemoryReservationIter_next_cases [OF sym])

declare reservation_items.simps [simp del]

abbreviation all_touched :: "MemoryRegion list \<Rightarrow> PhysAddr set" where
  "all_touched ms \<equiv> (\<Union>m \<in> set ms. touched_pages m)"

lemma reserve_reservations_takes_out:
  assumes "MemoryMap_inv s" "\<forall>m \<in> set (reservation_items it). region_fits m" "reserve_reservations it s = (Ok (), s')"
  shows "takes_out s (all_touched (reservation_items it)) s'"
  using assms
proof (induction it s arbitrary: s' rule: reserve_reservations.induct)
  case (1 it s)
  obtain r it' where n: "MemoryReservationIter_next it = (r, it')" by fastforce
  note c = MemoryReservationIter_next_cases [OF n]
  show ?case
  proof (cases "r = Ok None")
    case True
    then show ?thesis using 1(2,4) n by (subst reservation_items.simps, subst (asm) reserve_reservations.simps) (simp add: takes_out_def)
  next
    case False
    then obtain x where x: "r = Ok (Some x)" using c by auto
    show ?thesis
    proof (cases x)
      case (Ok m)
      have items: "reservation_items it = m # reservation_items it'"
        by (subst reservation_items.simps) (simp add: n x Ok)
      have step: "sbind (slift (map_err BootFdt x)) reserve_region s = reserve_region m s" by (simp add: Ok sbind_def slift_def)
      obtain s1 where s1: "reserve_region m s = (Ok (), s1)" "reserve_reservations it' s1 = (Ok (), s')"
        using 1(4) n x step by (subst (asm) reserve_reservations.simps) (auto split: prod.splits result.splits)
      have eq: "(Ok (), s1) = sbind (slift (map_err BootFdt x)) reserve_region s" using step s1(1) by simp
      have t: "takes_out s (touched_pages m) s1" using reserve_region_takes_out [OF 1(2) _ s1(1)] 1(3) items by simp
      have "takes_out s1 (all_touched (reservation_items it')) s'"
        using 1(1) [OF n [symmetric] x refl eq refl takes_out_inv [OF t] _ s1(2)] 1(3) items by simp
      from takes_out_trans [OF t this] show ?thesis by (simp add: items)
    qed (use 1(4) n x c in \<open>subst (asm) reserve_reservations.simps, auto simp: sbind_def slift_def\<close>)
  qed
qed

lemma reserve_visitor_takes_out:
  assumes "MemoryMap_inv s" "\<forall>(n, m) \<in> set nms. region_fits m" "fold (\<lambda>(n, m). reserve_visitor n m) nms (s, None) = (s', None)"
  shows "takes_out s (all_touched (map snd nms)) s'"
  using assms
proof (induction nms arbitrary: s)
  case Nil
  then show ?case by (simp add: takes_out_def)
next
  case (Cons nm nms)
  obtain n m where nm: "nm = (n, m)" by fastforce
  have stuck: "fold (\<lambda>(n, m). reserve_visitor n m) nms (x, Some e) = (x, Some e)" for x e
    by (induction nms) (auto simp: reserve_visitor_def)
  let ?r = "\<lparr>pr_start = mr_start m, pr_end = mr_start m + mr_size m\<rparr>"
  have fits: "region_fits m" using Cons.prems(2) nm by auto
  then have r: "to_phys_range m = Ok ?r" by (simp add: to_phys_range_Ok region_fits_def)
  obtain q s1 where q: "MemoryMap_reserve ?r s = (q, s1)" by fastforce
  have v: "reserve_visitor n m (s, None) = (s1, case q of Err e \<Rightarrow> Some (BootMemoryMap e) | _ \<Rightarrow> None)"
    by (simp add: reserve_visitor_def r q split: result.splits)
  have "q \<noteq> Panic" using MemoryMap_reserve_no_panic [of ?r s] q by simp
  then have ok: "q = Ok ()" using Cons.prems(3) nm v stuck by (cases q) auto
  have "reserve_region m s = (Ok (), s1)" by (simp add: reserve_region_def sbind_def slift_def r smap_err_def q ok)
  from reserve_region_takes_out [OF Cons.prems(1) fits this] have t: "takes_out s (touched_pages m) s1" .
  have "takes_out s1 (all_touched (map snd nms)) s'"
    using Cons.IH [OF takes_out_inv [OF t]] Cons.prems(2,3) nm v ok by simp
  from takes_out_trans [OF t this] show ?case by (simp add: nm)
qed

lemma reserve_reserved_memory_takes_out:
  assumes "MemoryMap_inv s" "\<forall>m \<in> set (map snd (fst (reserved_regions tree))). region_fits m" "reserve_reserved_memory tree s = (Ok (), s')"
  shows "takes_out s (all_touched (map snd (fst (reserved_regions tree)))) s'"
proof (rule reserve_visitor_takes_out [OF assms(1)])
  show "fold (\<lambda>(n, m). reserve_visitor n m) (fst (reserved_regions tree)) (s, None) = (s', None)"
    using assms(3) by (auto simp: reserve_reserved_memory_def for_each_reserved_memory_region_regions(1) split: result.splits prod.splits option.splits)
qed (use assms(2) in auto)

definition initrd_list :: "'n Fdt \<Rightarrow> MemoryRegion list" where
  "initrd_list tree = (case DeviceTree_linux_initrd_range tree of Ok (Some m) \<Rightarrow> [m] | _ \<Rightarrow> [])"

lemma reserve_initrd_takes_out:
  assumes "MemoryMap_inv s" "\<forall>m \<in> set (initrd_list tree). region_fits m" "reserve_initrd tree s = (Ok (), s')"
  shows "takes_out s (all_touched (initrd_list tree)) s'"
proof (cases "DeviceTree_linux_initrd_range tree")
  case (Ok x)
  show ?thesis
  proof (cases x)
    case None
    then show ?thesis using assms Ok by (simp add: reserve_initrd_def sbind_def slift_def sreturn_def initrd_list_def takes_out_def)
  next
    case (Some m)
    then show ?thesis using assms Ok reserve_region_takes_out [OF assms(1), of m s'] by (simp add: reserve_initrd_def sbind_def slift_def initrd_list_def)
  qed
qed (use assms in \<open>simp_all add: reserve_initrd_def sbind_def slift_def\<close>)

lemma add_regions:
  assumes "MemoryMap_inv s" "sforeach add_region ms s = (Ok (), s')"
  shows "MemoryMap_inv s' \<and> MemoryMap_addrs s' = MemoryMap_addrs s \<union> (\<Union>m \<in> set ms. inside_pages m)"
  using assms
proof (induction ms arbitrary: s)
  case (Cons m ms)
  obtain s1 where s1: "add_region m s = (Ok (), s1)" "sforeach add_region ms s1 = (Ok (), s')"
    using Cons.prems(2) by (auto simp: sseq_def sbind_def split: prod.splits result.splits)
  then obtain r where r: "to_phys_range m = Ok r" "MemoryMap_add_usable r s = (Ok (), s1)"
    by (cases "to_phys_range m") (auto simp: add_region_def sbind_def slift_def smap_err_def split: prod.splits)
  have ok: "PhysRange_ok r" "PhysRange_set r = region_set m"
    using r(1) by (auto simp: to_phys_range_Ok PhysRange_ok_def PhysRange_set_def region_set_def)
  have "MemoryMap_inv s1 \<and> MemoryMap_addrs s1 = MemoryMap_addrs s \<union> inside_pages m"
    using MemoryMap_add_usable_commits [OF Cons.prems(1) ok(1)] r(2) ok(2) by (simp add: commits_def inside_pages_def)
  then show ?case using Cons.IH [OF _ s1(2)] by auto
qed (simp add: sreturn_def)

section \<open>The layout\<close>

text \<open>Everything that must not be handed out.\<close>

definition boot_reserved :: "PhysRange \<Rightarrow> usize \<Rightarrow> FdtBlob \<Rightarrow> 'n Fdt \<Rightarrow> MemoryRegion list" where
  "boot_reserved kernel_image fdt_address blob tree =
     reservation_items (FdtBlob_memory_reservations blob) @ map snd (fst (reserved_regions tree)) @ initrd_list tree
     @ [\<lparr>mr_start = pr_start kernel_image, mr_size = pr_end kernel_image - pr_start kernel_image\<rparr>,
        \<lparr>mr_start = fdt_address, mr_size = fh_total_size (fb_header blob)\<rparr>]"

abbreviation boot_regions :: "'n Fdt \<Rightarrow> (MemoryRegion list \<times> bool, BootMemoryError) result" where
  "boot_regions tree \<equiv> DeviceTree_memory_regions tree"

lemma build_boot_memory_layout_steps:
  assumes "build_boot_memory_layout kernel_image fdt_address blob tree = Some (Ok layout)"
  obtains regions s1 s2 s3 s4 r where "boot_regions tree = Ok (regions, True)"
    "sforeach add_region regions (MemoryMap_new MEMORY_MAP_CAPACITY) = (Ok (), bl_ram layout)"
    "reserve_reservations (FdtBlob_memory_reservations blob) (bl_ram layout) = (Ok (), s1)" "reserve_reserved_memory tree s1 = (Ok (), s2)"
    "reserve_initrd tree s2 = (Ok (), s3)" "MemoryMap_reserve kernel_image s3 = (Ok (), s4)"
    "PhysRange_from_start_size fdt_address (fh_total_size (fb_header blob)) = Some r" "MemoryMap_reserve r s4 = (Ok (), bl_free layout)"
    "\<not> MemoryMap_is_empty (bl_free layout)"
  using assms
  by (auto simp: build_boot_memory_layout_def sseq_def sbind_def slift_def smap_err_def reserve_early_platform_memory_def sreturn_def
      split: prod.splits result.splits if_splits)

lemma build_boot_memory_layout_Ok:
  assumes ok: "build_boot_memory_layout kernel_image fdt_address blob tree = Some (Ok layout)"
    and fits: "\<forall>m \<in> set (boot_reserved kernel_image fdt_address blob tree). region_fits m"
  shows "MemoryMap_inv (bl_ram layout) \<and> MemoryMap_inv (bl_free layout)
    \<and> (\<exists>regions. boot_regions tree = Ok (regions, True) \<and> MemoryMap_addrs (bl_ram layout) = (\<Union>m \<in> set regions. inside_pages m))
    \<and> MemoryMap_addrs (bl_free layout) = MemoryMap_addrs (bl_ram layout) - all_touched (boot_reserved kernel_image fdt_address blob tree)
    \<and> MemoryMap_addrs (bl_free layout) \<noteq> {}"
proof -
  obtain regions s1 s2 s3 s4 r where regions: "boot_regions tree = Ok (regions, True)"
    and s: "sforeach add_region regions (MemoryMap_new MEMORY_MAP_CAPACITY) = (Ok (), bl_ram layout)"
    "reserve_reservations (FdtBlob_memory_reservations blob) (bl_ram layout) = (Ok (), s1)" "reserve_reserved_memory tree s1 = (Ok (), s2)"
    "reserve_initrd tree s2 = (Ok (), s3)" "MemoryMap_reserve kernel_image s3 = (Ok (), s4)"
    "PhysRange_from_start_size fdt_address (fh_total_size (fb_header blob)) = Some r" "MemoryMap_reserve r s4 = (Ok (), bl_free layout)"
    "\<not> MemoryMap_is_empty (bl_free layout)"
    by (rule build_boot_memory_layout_steps [OF ok])
  let ?k = "\<lparr>mr_start = pr_start kernel_image, mr_size = pr_end kernel_image - pr_start kernel_image\<rparr>"
  let ?f = "\<lparr>mr_start = fdt_address, mr_size = fh_total_size (fb_header blob)\<rparr>"
  have ram: "MemoryMap_inv (bl_ram layout)" "MemoryMap_addrs (bl_ram layout) = (\<Union>m \<in> set regions. inside_pages m)"
    using add_regions [OF MemoryMap_inv_new s(1)] by (auto simp: MemoryMap_addrs_def MemoryMap_iter_def MemoryMap_new_def)
  have t1: "takes_out (bl_ram layout) (all_touched (reservation_items (FdtBlob_memory_reservations blob))) s1"
    using reserve_reservations_takes_out [OF ram(1) _ s(2)] fits by (simp add: boot_reserved_def)
  have t2: "takes_out s1 (all_touched (map snd (fst (reserved_regions tree)))) s2"
    using reserve_reserved_memory_takes_out [OF takes_out_inv [OF t1] _ s(3)] fits by (simp add: boot_reserved_def)
  have t3: "takes_out s2 (all_touched (initrd_list tree)) s3"
    using reserve_initrd_takes_out [OF takes_out_inv [OF t2] _ s(4)] fits by (simp add: boot_reserved_def)
  have k: "region_fits ?k" "region_fits ?f" using fits by (simp_all add: boot_reserved_def)
  have ke: "pr_start kernel_image + (pr_end kernel_image - pr_start kernel_image) = pr_end kernel_image"
    using k(1) by (simp add: region_fits_def)
  have t4: "takes_out s3 (touched_pages ?k) s4"
    using reserve_takes_out [OF takes_out_inv [OF t3] _ _ s(5)] k(1) ke
    by (simp add: region_fits_def touched_pages_def region_set_def PhysRange_set_def)
  have "to_phys_range ?f = Ok r" using s(6) by (simp add: to_phys_range_def)
  then have "reserve_region ?f s4 = (Ok (), bl_free layout)"
    using s(7) by (simp add: reserve_region_def sbind_def slift_def smap_err_def)
  from reserve_region_takes_out [OF takes_out_inv [OF t4] k(2) this] have t5: "takes_out s4 (touched_pages ?f) (bl_free layout)" .
  have "takes_out (bl_ram layout) (all_touched (boot_reserved kernel_image fdt_address blob tree)) (bl_free layout)"
    using takes_out_trans [OF takes_out_trans [OF takes_out_trans [OF takes_out_trans [OF t1 t2] t3] t4] t5]
    by (simp add: boot_reserved_def Un_ac)
  moreover obtain x where x: "x \<in> set (MemoryMap_iter (bl_free layout))"
    using s(8) by (cases "MemoryMap_iter (bl_free layout)") (auto simp: MemoryMap_is_empty_def MemoryMap_len_def)
  then have "pr_start x < pr_end x" using MemoryMap_inv_nonempty [OF takes_out_inv [OF t5]] by blast
  with x have "pr_start x \<in> MemoryMap_addrs (bl_free layout)"
    by (auto simp: MemoryMap_addrs_def ranges_addrs_def PhysRange_set_def intro!: bexI [of _ x])
  ultimately show ?thesis using ram regions by (auto simp: takes_out_def)
qed

lemma panic_free_MemoryMap_reserve: "panic_free (MemoryMap_reserve r)"
  by (simp add: panic_free_def MemoryMap_reserve_no_panic)

lemma panic_free_reserve_region: "panic_free (reserve_region m)"
  by (simp add: reserve_region_def panic_free_sbind panic_free_slift panic_free_smap_err panic_free_MemoryMap_reserve)

lemma panic_free_reserve_reservations: "panic_free (reserve_reservations it)"
proof -
  have "fst (reserve_reservations it s) \<noteq> Panic" for s
  proof (induction it s rule: reserve_reservations.induct)
    case (1 it s)
    obtain r it' where n: "MemoryReservationIter_next it = (r, it')" by fastforce
    note c = MemoryReservationIter_next_cases [OF n]
    show ?case
    proof (cases "\<exists>x. r = Ok (Some x)")
      case True
      then obtain x where x: "r = Ok (Some x)" by blast
      obtain q s' where q: "sbind (slift (map_err BootFdt x)) reserve_region s = (q, s')" by fastforce
      have "map_err BootFdt x \<noteq> Panic" using c x by (cases x) auto
      then have "panic_free (sbind (slift (map_err BootFdt x)) reserve_region)"
        by (intro panic_free_sbind panic_free_slift panic_free_reserve_region) 
      then have "q \<noteq> Panic" using q unfolding panic_free_def by (metis fst_conv)
      then show ?thesis using 1 [OF n [symmetric] x refl q [symmetric]] n x q
        by (subst reserve_reservations.simps) (auto split: result.splits)
    qed (use c n in \<open>subst reserve_reservations.simps, auto\<close>)
  qed
  then show ?thesis by (simp add: panic_free_def)
qed

lemma panic_free_reserve_reserved_memory: "parser_answers tree \<Longrightarrow> panic_free (reserve_reserved_memory tree)"
  using for_each_reserved_memory_region_regions(3) [of tree]
  by (auto simp: panic_free_def reserve_reserved_memory_def for_each_reserved_memory_region_regions(1) split: result.splits prod.splits option.splits)

lemma panic_free_reserve_initrd:
  assumes "parser_answers tree"
  shows "panic_free (reserve_initrd tree)"
proof -
  have "DeviceTree_linux_initrd_range tree \<noteq> Panic"
    unfolding DeviceTree_linux_initrd_range_def
    by (intro rbind_no_panic obind_no_panic parser_answered [OF assms])
      (auto simp: read_cells_eq rbind_eq_Panic panic_free_ok_or split: option.splits if_splits)
  then have "map_err BootFdt (DeviceTree_linux_initrd_range tree) \<noteq> Panic" by (cases "DeviceTree_linux_initrd_range tree") auto
  then show ?thesis
    by (auto simp: reserve_initrd_def intro!: panic_free_sbind panic_free_slift panic_free_reserve_region panic_free_sreturn split: option.splits)
qed

lemma add_regions_no_panic:
  assumes "MemoryMap_inv s"
  shows "fst (sforeach add_region ms s) \<noteq> Panic"
  using assms
proof (induction ms arbitrary: s)
  case (Cons m ms)
  obtain q s1 where q: "add_region m s = (q, s1)" by fastforce
  have "commits s (MemoryMap_addrs s \<union> {a. page_of a \<subseteq> PhysRange_set r}) (MemoryMap_add_usable r s)" if "to_phys_range m = Ok r" for r
    using that by (intro MemoryMap_add_usable_commits [OF Cons.prems]) (auto simp: to_phys_range_Ok PhysRange_ok_def)
  then have "q \<noteq> Panic" "q = Ok () \<Longrightarrow> MemoryMap_inv s1"
    using q by (auto simp: add_region_def sbind_def slift_def smap_err_def commits_def split: result.splits prod.splits)
  with Cons.IH q show ?case by (auto simp: sseq_def sbind_def split: result.splits)
qed (simp add: sreturn_def)

lemma build_boot_memory_layout_no_panic:
  assumes "parser_answers tree"
  shows "build_boot_memory_layout kernel_image fdt_address blob tree \<noteq> Some Panic"
proof -
  have "panic_free (sseq (reserve_reservations (FdtBlob_memory_reservations blob))
                 (sseq (reserve_reserved_memory tree)
                 (sseq (reserve_initrd tree)
                 (sseq (smap_err BootMemoryMap reserve_early_platform_memory)
                 (sseq (smap_err BootMemoryMap (MemoryMap_reserve kernel_image))
                 (sbind (slift (ok_or (PhysRange_from_start_size fdt_address (fh_total_size (fb_header blob))) InvalidPhysicalRange))
                   (\<lambda>fdt_range. smap_err BootMemoryMap (MemoryMap_reserve fdt_range))))))))" (is "panic_free ?m")
    unfolding reserve_early_platform_memory_def
    by (intro panic_free_sseq panic_free_sbind panic_free_slift panic_free_smap_err panic_free_reserve_reservations panic_free_reserve_reserved_memory
        [OF assms] panic_free_reserve_initrd [OF assms] panic_free_sreturn panic_free_MemoryMap_reserve panic_free_ok_or)
  then have m: "?m ram \<noteq> (Panic, free)" for ram free unfolding panic_free_def by (metis fst_conv)
  have a: "sforeach add_region regions (MemoryMap_new MEMORY_MAP_CAPACITY) \<noteq> (Panic, s)" for regions s
    using add_regions_no_panic [OF MemoryMap_inv_new] by (metis fst_conv)
  have "boot_regions tree \<noteq> Panic" using parser_answered(1) [OF assms] by (simp add: DeviceTree_memory_regions_def rbind_eq_Panic)
  then show ?thesis using a m by (auto simp: build_boot_memory_layout_def split: result.splits prod.splits)
qed

lemma build_boot_memory_layout_endless:
  assumes "build_boot_memory_layout kernel_image fdt_address blob tree = None"
  shows "\<exists>reg. fdt_memory_reg tree = Some reg \<and> None \<in> set reg"
  using assms by (auto simp: build_boot_memory_layout_def DeviceTree_memory_regions_def rbind_eq_Ok split: result.splits prod.splits if_splits)

lemma build_boot_memory_layout_no_memory:
  "fdt_memory_reg tree = None \<Longrightarrow> build_boot_memory_layout kernel_image fdt_address blob tree = Some Panic"
  by (simp add: build_boot_memory_layout_def DeviceTree_memory_regions_def)

text \<open>
  C15. The memory layout at boot, where no reservation, reserved-memory region, initial ram disk, kernel image or device
  tree is empty or ends in the last page of the address space. When building the layout succeeds, the loop over the memory
  regions has ended, the map of the memory holds exactly the whole pages inside those regions, and the map of the free
  memory holds exactly those pages that none of the reserved regions touches; both maps are in the documented form, and
  some memory is free. Building the layout panics only when the parser of the tree has no answer to some query, and it
  does panic when the tree has no memory node with a \<open>reg\<close> property. It runs for ever only when some entry of that
  property does not fit into 64 bits.
\<close>

theorem build_boot_memory_layout_correct:
  assumes "\<forall>m \<in> set (boot_reserved kernel_image fdt_address blob tree). region_fits m"
  shows "(case build_boot_memory_layout kernel_image fdt_address blob tree of
      Some (Ok layout) \<Rightarrow> MemoryMap_inv (bl_ram layout) \<and> MemoryMap_inv (bl_free layout)
        \<and> (\<exists>regions. boot_regions tree = Ok (regions, True) \<and> MemoryMap_addrs (bl_ram layout) = (\<Union>m \<in> set regions. inside_pages m))
        \<and> MemoryMap_addrs (bl_free layout) = MemoryMap_addrs (bl_ram layout) - all_touched (boot_reserved kernel_image fdt_address blob tree)
        \<and> MemoryMap_addrs (bl_free layout) \<noteq> {}
    | Some (Err e) \<Rightarrow> fdt_memory_reg tree \<noteq> None
    | Some Panic \<Rightarrow> \<not> parser_answers tree
    | None \<Rightarrow> (\<exists>reg. fdt_memory_reg tree = Some reg \<and> None \<in> set reg))
    \<and> (fdt_memory_reg tree = None \<longrightarrow> build_boot_memory_layout kernel_image fdt_address blob tree = Some Panic)"
proof (cases "fdt_memory_reg tree")
  case None
  then show ?thesis by (simp add: build_boot_memory_layout_no_memory parser_answers_def)
next
  case reg: (Some reg)
  show ?thesis
  proof (cases "\<exists>layout. build_boot_memory_layout kernel_image fdt_address blob tree = Some (Ok layout)")
    case True
    then show ?thesis using build_boot_memory_layout_Ok [OF _ assms] reg by fastforce
  next
    case False
    then show ?thesis
      using reg build_boot_memory_layout_endless [of kernel_image fdt_address blob tree]
        build_boot_memory_layout_no_panic [of tree kernel_image fdt_address blob]
      by (auto split: option.splits result.splits)
  qed
qed

text \<open>A device tree with one memory region and a blob with one reservation.\<close>

definition demo_tree :: "nat Fdt" where
  "demo_tree = \<lparr>fdt_find_node = (\<lambda>p. Some (if p = str ''/'' then Some 0 else None)), fdt_raw_property = (\<lambda>_ _. Some None),
     fdt_children = (\<lambda>_. Some []), fdt_name = (\<lambda>_. Some []), fdt_all_nodes = Some [Some 0], fdt_compatible = (\<lambda>_. Some None),
     fdt_memory_reg = Some [Some (0x80000000, 0x100000)], fdt_node_reg = (\<lambda>_. Some None), fdt_cpus = Some [],
     fdt_cpu_failed = (\<lambda>_. Some False), fdt_cpu_first_id = (\<lambda>_. Some None)\<rparr>"

definition demo_blob :: FdtBlob where
  "demo_blob = \<lparr>fb_bytes = replicate 40 0 @ to_be 8 0x80000000 @ to_be 8 0x1000 @ to_be 8 0 @ to_be 8 0,
     fb_header = \<lparr>fh_total_size = 72, fh_structure_offset = 72, fh_strings_offset = 72, fh_reservation_map_offset = 40,
       fh_version = 17, fh_last_compatible_version = 16, fh_boot_cpu_id = 0, fh_strings_size = 0, fh_structure_size = 0\<rparr>\<rparr>"

abbreviation demo_image :: PhysRange where
  "demo_image \<equiv> \<lparr>pr_start = 0x80020000, pr_end = 0x80040000\<rparr>"

abbreviation demo_map :: "PhysRange list \<Rightarrow> MemoryMap" where
  "demo_map rs \<equiv> \<lparr>mm_free = packed 64 rs\<rparr>"

lemma demo_iter: "MemoryMap_iter (demo_map rs) = rs"
  by (simp add: MemoryMap_iter_def packed_def)

lemma demo_reserve:
  assumes "PhysRange_covering_pages r = Some c" "\<forall>x \<in> set rs. pr_start x < pr_end x" "length rs \<le> 64" "concat (map (cut_range c) rs) = rs'" "length rs' \<le> 64"
  shows "MemoryMap_reserve r (demo_map rs) = (Ok (), demo_map rs')"
  using assms reserve_loop_packed [of rs "[]" 64 c] by (simp add: MemoryMap_reserve_def demo_iter commit_entries_def)

lemmas demo_eval = PhysRange_covering_pages_eq PhysRange_ok_def usize_MAX_def PAGE_SIZE_eq round_up_def round_down_def cut_range_def
  PhysRange_overlaps_def

lemma demo_reads:
  "read_be_u64 (fb_bytes demo_blob) 40 = Ok 0x80000000" "read_be_u64 (fb_bytes demo_blob) 48 = Ok 0x1000"
  "read_be_u64 (fb_bytes demo_blob) 56 = Ok 0" "read_be_u64 (fb_bytes demo_blob) 64 = Ok 0"
  by (simp_all add: read_be_u64_def demo_blob_def del: to_be.simps)

lemma demo_regions: "DeviceTree_memory_regions demo_tree = Ok ([\<lparr>mr_start = 0x80000000, mr_size = 0x100000\<rparr>], True)"
  by (simp add: DeviceTree_memory_regions_def demo_tree_def usize_try_from_def usize_MAX_def MemoryRegion_is_empty_def)

lemma demo_add: "sforeach add_region [\<lparr>mr_start = 0x80000000, mr_size = 0x100000\<rparr>] (MemoryMap_new MEMORY_MAP_CAPACITY)
   = (Ok (), demo_map [\<lparr>pr_start = 0x80000000, pr_end = 0x80100000\<rparr>])"
proof -
  have "to_phys_range \<lparr>mr_start = 0x80000000, mr_size = 0x100000\<rparr> = Ok \<lparr>pr_start = 0x80000000, pr_end = 0x80100000\<rparr>"
    by (simp add: to_phys_range_Ok usize_MAX_def)
  moreover have "MemoryMap_add_usable \<lparr>pr_start = 0x80000000, pr_end = 0x80100000\<rparr> (MemoryMap_new 64)
     = (Ok (), demo_map [\<lparr>pr_start = 0x80000000, pr_end = 0x80100000\<rparr>])"
    using replicate_Suc [of 63 "None :: PhysRange option"] by (simp add: MemoryMap_eval packed_def)
  ultimately show ?thesis
    by (simp add: add_region_def MEMORY_MAP_CAPACITY_def sseq_def sbind_def slift_def smap_err_def sreturn_def)
qed

definition demo_iter_at :: "usize \<Rightarrow> bool \<Rightarrow> MemoryReservationIter" where
  "demo_iter_at off fin = \<lparr>mri_bytes = fb_bytes demo_blob, mri_offset = off, mri_end = 72, mri_finished = fin\<rparr>"

lemma demo_next:
  "FdtBlob_memory_reservations demo_blob = demo_iter_at 40 False"
  "MemoryReservationIter_next (demo_iter_at 40 False) = (Ok (Some (Ok \<lparr>mr_start = 0x80000000, mr_size = 0x1000\<rparr>)), demo_iter_at 56 False)"
  "MemoryReservationIter_next (demo_iter_at 56 False) = (Ok None, demo_iter_at 72 True)"
proof -
  have len: "length (fb_bytes demo_blob) = 72" by (simp add: demo_blob_def)
  show "FdtBlob_memory_reservations demo_blob = demo_iter_at 40 False"
    by (simp add: FdtBlob_memory_reservations_def demo_iter_at_def demo_blob_def)
  show "MemoryReservationIter_next (demo_iter_at 40 False) = (Ok (Some (Ok \<lparr>mr_start = 0x80000000, mr_size = 0x1000\<rparr>)), demo_iter_at 56 False)"
    "MemoryReservationIter_next (demo_iter_at 56 False) = (Ok None, demo_iter_at 72 True)"
    by (simp_all add: MemoryReservationIter_next_def demo_iter_at_def reservation_loop.simps demo_reads len checked_add_def usize_MAX_def usize_try_from_def)
qed

lemma demo_reserved: "reserve_reservations (FdtBlob_memory_reservations demo_blob) (demo_map [\<lparr>pr_start = 0x80000000, pr_end = 0x80100000\<rparr>])
   = (Ok (), demo_map [\<lparr>pr_start = 0x80001000, pr_end = 0x80100000\<rparr>])"
  "reservation_items (FdtBlob_memory_reservations demo_blob) = [\<lparr>mr_start = 0x80000000, mr_size = 0x1000\<rparr>]"
proof -
  have "to_phys_range \<lparr>mr_start = 0x80000000, mr_size = 0x1000\<rparr> = Ok \<lparr>pr_start = 0x80000000, pr_end = 0x80001000\<rparr>"
    by (simp add: to_phys_range_Ok usize_MAX_def)
  moreover have "MemoryMap_reserve \<lparr>pr_start = 0x80000000, pr_end = 0x80001000\<rparr> (demo_map [\<lparr>pr_start = 0x80000000, pr_end = 0x80100000\<rparr>])
     = (Ok (), demo_map [\<lparr>pr_start = 0x80001000, pr_end = 0x80100000\<rparr>])"
    by (rule demo_reserve [where c = "\<lparr>pr_start = 0x80000000, pr_end = 0x80001000\<rparr>"]) (simp_all add: demo_eval)
  ultimately show "reserve_reservations (FdtBlob_memory_reservations demo_blob) (demo_map [\<lparr>pr_start = 0x80000000, pr_end = 0x80100000\<rparr>])
   = (Ok (), demo_map [\<lparr>pr_start = 0x80001000, pr_end = 0x80100000\<rparr>])"
    by (simp add: demo_next reserve_reservations.simps sbind_def slift_def reserve_region_def smap_err_def)
  show "reservation_items (FdtBlob_memory_reservations demo_blob) = [\<lparr>mr_start = 0x80000000, mr_size = 0x1000\<rparr>]"
    by (simp add: demo_next reservation_items.simps)
qed

lemma demo_nodes: "fdt_find_node demo_tree (str ''/'') = Some (Some 0)" "fdt_find_node demo_tree (str ''/chosen'') = Some None"
  "fdt_find_node demo_tree (str ''/reserved-memory'') = Some None"
  by (simp_all add: demo_tree_def str_def)

definition demo_layout :: BootMemoryLayout where
  "demo_layout = \<lparr>bl_ram = demo_map [\<lparr>pr_start = 0x80000000, pr_end = 0x80100000\<rparr>],
     bl_free = demo_map [\<lparr>pr_start = 0x80001000, pr_end = 0x80010000\<rparr>, \<lparr>pr_start = 0x80011000, pr_end = 0x80020000\<rparr>,
       \<lparr>pr_start = 0x80040000, pr_end = 0x80100000\<rparr>]\<rparr>"

lemma demo_build: "build_boot_memory_layout demo_image 0x80010000 demo_blob demo_tree = Some (Ok demo_layout)"
proof -
  let ?m1 = "demo_map [\<lparr>pr_start = 0x80001000, pr_end = 0x80100000\<rparr>]"
  let ?m2 = "demo_map [\<lparr>pr_start = 0x80001000, pr_end = 0x80020000\<rparr>, \<lparr>pr_start = 0x80040000, pr_end = 0x80100000\<rparr>]"
  have "MemoryMap_reserve demo_image ?m1 = (Ok (), ?m2)"
    by (rule demo_reserve [where c = demo_image]) (simp_all add: demo_eval)
  moreover have "MemoryMap_reserve \<lparr>pr_start = 0x80010000, pr_end = 0x80010048\<rparr> ?m2 = (Ok (), bl_free demo_layout)"
    unfolding demo_layout_def BootMemoryLayout.simps
    by (rule demo_reserve [where c = "\<lparr>pr_start = 0x80010000, pr_end = 0x80011000\<rparr>"]) (simp_all add: demo_eval)
  moreover have "\<not> MemoryMap_is_empty (bl_free demo_layout)"
    by (simp add: demo_layout_def MemoryMap_is_empty_def MemoryMap_len_def demo_iter)
  moreover have "PhysRange_from_start_size 0x80010000 (fh_total_size (fb_header demo_blob)) = Some \<lparr>pr_start = 0x80010000, pr_end = 0x80010048\<rparr>"
    by (simp add: demo_blob_def PhysRange_from_start_size_def PhysRange_new_def checked_add_def usize_MAX_def)
  moreover have "reserve_reserved_memory demo_tree ?m1 = (Ok (), ?m1)" "reserve_initrd demo_tree ?m1 = (Ok (), ?m1)"
    by (simp_all add: reserve_reserved_memory_def DeviceTree_for_each_reserved_memory_region_def reserved_plan_def obind_def demo_nodes sreturn_def
        reserve_initrd_def DeviceTree_linux_initrd_range_def sbind_def slift_def)
  ultimately show ?thesis
    by (simp add: build_boot_memory_layout_def demo_regions demo_add demo_reserved(1) sseq_def sbind_def slift_def smap_err_def
        reserve_early_platform_memory_def sreturn_def demo_layout_def del: sforeach.simps)
qed

theorem build_boot_memory_layout_witness:
  "MemoryMap_addrs (bl_free demo_layout) = MemoryMap_addrs (bl_ram demo_layout) - all_touched (boot_reserved demo_image 0x80010000 demo_blob demo_tree)
    \<and> MemoryMap_addrs (bl_free demo_layout) \<noteq> {}"
proof -
  have "boot_reserved demo_image 0x80010000 demo_blob demo_tree =
    [\<lparr>mr_start = 0x80000000, mr_size = 0x1000\<rparr>, \<lparr>mr_start = 0x80020000, mr_size = 0x20000\<rparr>, \<lparr>mr_start = 0x80010000, mr_size = 72\<rparr>]"
    by (simp add: boot_reserved_def demo_reserved(2) reserved_regions_def reserved_plan_def obind_def demo_nodes initrd_list_def
        DeviceTree_linux_initrd_range_def) (simp add: demo_blob_def)
  then have "\<forall>m \<in> set (boot_reserved demo_image 0x80010000 demo_blob demo_tree). region_fits m"
    by (simp add: region_fits_def usize_MAX_def PAGE_SIZE_eq)
  from build_boot_memory_layout_correct [OF this] show ?thesis unfolding demo_build result.case option.case by blast
qed

end
