(* ===== verification/Vfs.thy ===== *)
theory Vfs
  imports Bytes
begin

text \<open>
  The file interface of crate \<open>vfs\<close> (\<open>vfs/src/lib.rs\<close>): error numbers, flags, buffers, directory records, open files and
  tables of descriptors. Flag sets are words; \<open>i64\<close> values are integers with their range checked. The methods of a
  \<open>FileOperations\<close> object are the fields of a record of actions on an open file, its buffer and the state of the object.
\<close>

unbundle bit_operations_syntax

section \<open>Error numbers and flags\<close>

datatype Errno =
    Eperm | Enoent | Esrch | Eintr | Eio | Ebadf | Echild | Eagain | Enomem | Eacces | Efault | Eexist | Enodev | Ebusy
  | Enotdir | Eisdir | Enoexec | Einval | Emfile | Enotty | Enospc | Espipe | Epipe | Erofs | Enosys | Enotempty | Eloop
  | Enametoolong | Eoverflow | Eafnosupport | Enotsock

fun Errno_number :: "Errno \<Rightarrow> int" where
  "Errno_number Eperm = 1"
| "Errno_number Enoent = 2"
| "Errno_number Esrch = 3"
| "Errno_number Eintr = 4"
| "Errno_number Eio = 5"
| "Errno_number Ebadf = 9"
| "Errno_number Echild = 10"
| "Errno_number Eagain = 11"
| "Errno_number Enomem = 12"
| "Errno_number Eacces = 13"
| "Errno_number Efault = 14"
| "Errno_number Eexist = 17"
| "Errno_number Enodev = 19"
| "Errno_number Ebusy = 16"
| "Errno_number Enotdir = 20"
| "Errno_number Eisdir = 21"
| "Errno_number Enoexec = 8"
| "Errno_number Einval = 22"
| "Errno_number Emfile = 24"
| "Errno_number Enotty = 25"
| "Errno_number Enospc = 28"
| "Errno_number Espipe = 29"
| "Errno_number Epipe = 32"
| "Errno_number Erofs = 30"
| "Errno_number Enosys = 38"
| "Errno_number Enotempty = 39"
| "Errno_number Eloop = 40"
| "Errno_number Enametoolong = 36"
| "Errno_number Eoverflow = 75"
| "Errno_number Eafnosupport = 97"
| "Errno_number Enotsock = 88"

definition Errno_to_isize :: "Errno \<Rightarrow> int" where
  "Errno_to_isize self = - Errno_number self"

type_synonym OpenFlags = "32 word"

text \<open>The constants are written in hexadecimal.\<close>

abbreviation O_RDONLY :: OpenFlags where "O_RDONLY \<equiv> 0x0"
abbreviation O_WRONLY :: OpenFlags where "O_WRONLY \<equiv> 0x1"
abbreviation O_RDWR :: OpenFlags where "O_RDWR \<equiv> 0x2"
abbreviation O_ACCMODE :: OpenFlags where "O_ACCMODE \<equiv> 0x3"
abbreviation O_CREAT :: OpenFlags where "O_CREAT \<equiv> 0x40"
abbreviation O_EXCL :: OpenFlags where "O_EXCL \<equiv> 0x80"
abbreviation O_TRUNC :: OpenFlags where "O_TRUNC \<equiv> 0x200"
abbreviation O_APPEND :: OpenFlags where "O_APPEND \<equiv> 0x400"
abbreviation O_NONBLOCK :: OpenFlags where "O_NONBLOCK \<equiv> 0x800"
abbreviation O_DIRECTORY :: OpenFlags where "O_DIRECTORY \<equiv> 0x10000"
abbreviation O_NOFOLLOW :: OpenFlags where "O_NOFOLLOW \<equiv> 0x20000"
abbreviation O_CLOEXEC :: OpenFlags where "O_CLOEXEC \<equiv> 0x80000"

definition OpenFlags_contains :: "OpenFlags \<Rightarrow> OpenFlags \<Rightarrow> bool" where
  "OpenFlags_contains self other \<longleftrightarrow> self AND other = other"

datatype AccessMode = ReadOnly | WriteOnly | ReadWrite | InvalidAccess

definition OpenFlags_access_mode :: "OpenFlags \<Rightarrow> AccessMode" where
  "OpenFlags_access_mode self =
     (let mode = self AND O_ACCMODE in
      if mode = 0 then ReadOnly else if mode = 1 then WriteOnly else if mode = 2 then ReadWrite else InvalidAccess)"

definition AccessMode_is_readable :: "AccessMode \<Rightarrow> bool" where
  "AccessMode_is_readable self \<longleftrightarrow> self = ReadOnly \<or> self = ReadWrite"

definition AccessMode_is_writable :: "AccessMode \<Rightarrow> bool" where
  "AccessMode_is_writable self \<longleftrightarrow> self = WriteOnly \<or> self = ReadWrite"

type_synonym FileMode = "32 word"

abbreviation S_IFMT :: FileMode where "S_IFMT \<equiv> 0xf000"
abbreviation S_IFREG :: FileMode where "S_IFREG \<equiv> 0x8000"
abbreviation S_IFDIR :: FileMode where "S_IFDIR \<equiv> 0x4000"
abbreviation S_IFIFO :: FileMode where "S_IFIFO \<equiv> 0x1000"
abbreviation S_IFCHR :: FileMode where "S_IFCHR \<equiv> 0x2000"
abbreviation S_IFBLK :: FileMode where "S_IFBLK \<equiv> 0x6000"
abbreviation S_IFLNK :: FileMode where "S_IFLNK \<equiv> 0xa000"

datatype FileType = Regular | Directory | CharDevice | BlockDevice | Symlink | UnknownType

definition FileMode_file_type :: "FileMode \<Rightarrow> FileType" where
  "FileMode_file_type self =
     (let kind = self AND S_IFMT in
      if kind = S_IFREG then Regular else if kind = S_IFDIR then Directory else if kind = S_IFCHR then CharDevice
      else if kind = S_IFBLK then BlockDevice else if kind = S_IFLNK then Symlink else UnknownType)"

fun FileType_dirent_type :: "FileType \<Rightarrow> u8" where
  "FileType_dirent_type UnknownType = 0"
| "FileType_dirent_type Directory = 4"
| "FileType_dirent_type CharDevice = 2"
| "FileType_dirent_type BlockDevice = 6"
| "FileType_dirent_type Regular = 8"
| "FileType_dirent_type Symlink = 10"

type_synonym PollEvents = "16 word"

abbreviation POLL_IN :: PollEvents where "POLL_IN \<equiv> 0x1"
abbreviation POLL_OUT :: PollEvents where "POLL_OUT \<equiv> 0x4"
abbreviation POLL_ERR :: PollEvents where "POLL_ERR \<equiv> 0x8"
abbreviation POLL_HUP :: PollEvents where "POLL_HUP \<equiv> 0x10"

datatype SeekWhence = SeekSet | SeekCurrent | SeekEnd

definition SeekWhence_from_raw :: "usize \<Rightarrow> SeekWhence option" where
  "SeekWhence_from_raw raw =
     (if raw = 0 then Some SeekSet else if raw = 1 then Some SeekCurrent else if raw = 2 then Some SeekEnd else None)"

record Stat =
  st_dev :: u64
  st_ino :: u64
  st_mode :: FileMode
  st_nlink :: u32
  st_uid :: u32
  st_gid :: u32
  st_rdev :: u64
  st_pad1 :: u64
  st_size :: int
  st_blksize :: int
  st_pad2 :: int
  st_blocks :: int
  st_atime_sec :: int
  st_atime_nsec :: int
  st_mtime_sec :: int
  st_mtime_nsec :: int
  st_ctime_sec :: int
  st_ctime_nsec :: int
  st_unused :: "int list"

definition Stat_zeroed :: Stat where
  "Stat_zeroed = \<lparr>st_dev = 0, st_ino = 0, st_mode = 0, st_nlink = 0, st_uid = 0, st_gid = 0, st_rdev = 0, st_pad1 = 0,
     st_size = 0, st_blksize = 4096, st_pad2 = 0, st_blocks = 0, st_atime_sec = 0, st_atime_nsec = 0, st_mtime_sec = 0,
     st_mtime_nsec = 0, st_ctime_sec = 0, st_ctime_nsec = 0, st_unused = [0, 0]\<rparr>"

section \<open>Buffers and directory records\<close>

text \<open>
  The input of a write is a list of bytes. The output buffer of a read counts how much of it is filled, which never
  exceeds its length, so the subtraction does not overflow.
\<close>

record MutableIoBuffer =
  mb_data :: bytes
  mb_filled :: usize

definition MutableIoBuffer_new :: "bytes \<Rightarrow> MutableIoBuffer" where
  "MutableIoBuffer_new d = \<lparr>mb_data = d, mb_filled = 0\<rparr>"

definition MutableIoBuffer_remaining :: "MutableIoBuffer \<Rightarrow> usize" where
  "MutableIoBuffer_remaining self = length (mb_data self) - mb_filled self"

definition MutableIoBuffer_push :: "bytes \<Rightarrow> MutableIoBuffer \<Rightarrow> usize \<times> MutableIoBuffer" where
  "MutableIoBuffer_push bs self =
     (let count = min (length bs) (MutableIoBuffer_remaining self) in
      (count, self\<lparr>mb_data := take (mb_filled self) (mb_data self) @ take count bs @ drop (mb_filled self + count) (mb_data self),
                   mb_filled := mb_filled self + count\<rparr>))"

definition MutableIoBuffer_advance :: "usize \<Rightarrow> (MutableIoBuffer, unit, Errno) action" where
  "MutableIoBuffer_advance count self =
     (if MutableIoBuffer_remaining self < count then (Err Einval, self)
      else (Ok (), self\<lparr>mb_filled := mb_filled self + count\<rparr>))"

definition MutableIoBuffer_filled_bytes :: "MutableIoBuffer \<Rightarrow> bytes" where
  "MutableIoBuffer_filled_bytes self = take (mb_filled self) (mb_data self)"

record DirEntry =
  de_ino :: u64
  de_offset :: int
  de_file_type :: FileType
  de_name :: bytes

definition vfs_align_up :: "usize \<Rightarrow> usize \<Rightarrow> usize option" where
  "vfs_align_up v align = map_option (\<lambda>x. x AND usize_not (align - 1)) (checked_add v (align - 1))"

text \<open>Native byte order is little endian; a negative offset is its two's complement.\<close>

definition emit_dirent64 :: "DirEntry \<Rightarrow> (MutableIoBuffer, bool, Errno) action" where
  "emit_dirent64 entry buf =
     (if 0 \<in> set (de_name entry) then (Err Einval, buf)
      else
        (case Option.bind (checked_add 19 (length (de_name entry))) (\<lambda>len. checked_add len 1) of
           None \<Rightarrow> (Err Eoverflow, buf)
         | Some raw_len \<Rightarrow>
             (case vfs_align_up raw_len 8 of
                None \<Rightarrow> (Err Eoverflow, buf)
              | Some record_len \<Rightarrow>
                  if 2 ^ 16 \<le> record_len then (Err Eoverflow, buf)
                  else if MutableIoBuffer_remaining buf < record_len
                  then (if mb_filled buf = 0 then (Err Einval, buf) else (Ok False, buf))
                  else
                    let header = to_le 8 (de_ino entry) @ to_le 8 (nat (de_offset entry mod 2 ^ 64)) @ to_le 2 record_len
                          @ [FileType_dirent_type (de_file_type entry)];
                        buf = snd (MutableIoBuffer_push header buf);
                        buf = snd (MutableIoBuffer_push (de_name entry) buf);
                        buf = snd (MutableIoBuffer_push [0] buf);
                        buf = snd (MutableIoBuffer_push (take (record_len - raw_len) (replicate 8 0)) buf) in
                    (Ok True, buf))))"

section \<open>Open files\<close>

record File =
  file_flags :: OpenFlags
  file_path :: "bytes option"
  file_position :: u64

text \<open>The state of an operation: the object behind the file, the open file and the output buffer.\<close>

record 'w io =
  io_object :: 'w
  io_file :: File
  io_buf :: MutableIoBuffer

record 'w FileOperations =
  ops_serialize_operations :: bool
  ops_read :: "('w io, usize, Errno) action"
  ops_write :: "bytes \<Rightarrow> ('w io, usize, Errno) action"
  ops_seek :: "int \<Rightarrow> SeekWhence \<Rightarrow> ('w io, u64, Errno) action"
  ops_fstat :: "('w io, Stat, Errno) action"
  ops_truncate :: "u64 \<Rightarrow> ('w io, unit, Errno) action"
  ops_readdir :: "('w io, usize, Errno) action"
  ops_ioctl :: "usize \<Rightarrow> usize \<Rightarrow> ('w io, usize, Errno) action"
  ops_poll :: "PollEvents \<Rightarrow> 'w io \<Rightarrow> PollEvents"
  ops_sync :: "('w io, unit, Errno) action"
  ops_release :: "'w io \<Rightarrow> 'w io"
  ops_process_exit :: "'w io \<Rightarrow> 'w io"

definition i64_try_from :: "nat \<Rightarrow> int option" where
  "i64_try_from v = (if v < 2 ^ 63 then Some (int v) else None)"

definition checked_add_i64 :: "int \<Rightarrow> int \<Rightarrow> int option" where
  "checked_add_i64 a b = (if - (2 ^ 63) \<le> a + b \<and> a + b < 2 ^ 63 then Some (a + b) else None)"

definition File_seek_position :: "int \<Rightarrow> SeekWhence \<Rightarrow> u64 option \<Rightarrow> (File, u64, Errno) action" where
  "File_seek_position offset whence end self =
     (let base = (case whence of
          SeekSet \<Rightarrow> Ok 0
        | SeekCurrent \<Rightarrow> ok_or (i64_try_from (file_position self)) Eoverflow
        | SeekEnd \<Rightarrow> rbind (ok_or end Espipe) (\<lambda>e. ok_or (i64_try_from e) Eoverflow)) in
      case rbind base (\<lambda>base. ok_or (checked_add_i64 base offset) Eoverflow) of
        Ok pos \<Rightarrow>
          if pos < 0 then (Err Einval, self) else (Ok (nat pos), self\<lparr>file_position := nat pos\<rparr>)
      | Err e \<Rightarrow> (Err e, self)
      | Panic \<Rightarrow> (Panic, self))"

text \<open>An action on the file as an action on the whole state.\<close>

definition on_file :: "(File, 'a, 'e) action \<Rightarrow> ('w io, 'a, 'e) action" where
  "on_file m s = (let (r, f) = m (io_file s) in (r, s\<lparr>io_file := f\<rparr>))"

definition default_FileOperations :: "'w FileOperations" where
  "default_FileOperations =
     \<lparr>ops_serialize_operations = True,
      ops_read = sfail Einval,
      ops_write = (\<lambda>_. sfail Einval),
      ops_seek = (\<lambda>offset whence. on_file (File_seek_position offset whence None)),
      ops_fstat = sfail Einval,
      ops_truncate = (\<lambda>_. sfail Einval),
      ops_readdir = sfail Enotdir,
      ops_ioctl = (\<lambda>_ _. sfail Enotty),
      ops_poll = (\<lambda>requested s.
        let mode = OpenFlags_access_mode (file_flags (io_file s));
            ready = (if AccessMode_is_readable mode then POLL_IN else 0) in
        (if AccessMode_is_writable mode then ready OR POLL_OUT else ready) AND requested),
      ops_sync = sreturn (),
      ops_release = (\<lambda>s. s),
      ops_process_exit = (\<lambda>s. s)\<rparr>"

definition File_new :: "OpenFlags \<Rightarrow> File" where
  "File_new flags = \<lparr>file_flags = flags, file_path = None, file_position = 0\<rparr>"

definition File_new_with_path :: "OpenFlags \<Rightarrow> bytes \<Rightarrow> File" where
  "File_new_with_path flags path = \<lparr>file_flags = flags, file_path = Some path, file_position = 0\<rparr>"

text \<open>The loop around the exchange ends with this update of the value it last observed.\<close>

definition File_set_status_flags :: "OpenFlags \<Rightarrow> File \<Rightarrow> File" where
  "File_set_status_flags flags self =
     (let changeable = O_APPEND OR O_NONBLOCK in
      self\<lparr>file_flags := (file_flags self AND NOT changeable) OR (flags AND changeable)\<rparr>)"

definition is_readable :: "'w io \<Rightarrow> bool" where
  "is_readable s \<longleftrightarrow> AccessMode_is_readable (OpenFlags_access_mode (file_flags (io_file s)))"

definition is_writable :: "'w io \<Rightarrow> bool" where
  "is_writable s \<longleftrightarrow> AccessMode_is_writable (OpenFlags_access_mode (file_flags (io_file s)))"

text \<open>The lock that serialises operations has no effect on the result of one of them.\<close>

definition File_read :: "'w FileOperations \<Rightarrow> ('w io, usize, Errno) action" where
  "File_read ops s = (if \<not> is_readable s then (Err Ebadf, s) else ops_read ops s)"

definition File_write :: "'w FileOperations \<Rightarrow> bytes \<Rightarrow> ('w io, usize, Errno) action" where
  "File_write ops buf s = (if \<not> is_writable s then (Err Ebadf, s) else ops_write ops buf s)"

definition File_seek :: "'w FileOperations \<Rightarrow> int \<Rightarrow> SeekWhence \<Rightarrow> ('w io, u64, Errno) action" where
  "File_seek ops offset whence = ops_seek ops offset whence"

text \<open>What positioned reads and writes have in common: move, operate, move again.\<close>

definition transfer_at :: "'w FileOperations \<Rightarrow> u64 \<Rightarrow> ('w io, usize, Errno) action \<Rightarrow> ('w io, usize, Errno) action" where
  "transfer_at ops offset transfer s =
     (let saved = file_position (io_file s) in
      sbind (slift (ok_or (i64_try_from offset) Eoverflow)) (\<lambda>offset.
      sseq (ops_seek ops offset SeekSet) (\<lambda>s.
        case transfer s of
          (Panic, s) \<Rightarrow> (Panic, s)
        | (result, s) \<Rightarrow>
            (case i64_try_from saved of
               None \<Rightarrow> (Err Eoverflow, s)
             | Some pos \<Rightarrow>
                 (case ops_seek ops pos SeekSet s of
                    (Ok _, s) \<Rightarrow> (result, s)
                  | (Err e, s) \<Rightarrow> (case result of Err e' \<Rightarrow> (Err e', s) | _ \<Rightarrow> (Err e, s))
                  | (Panic, s) \<Rightarrow> (Panic, s))))) s)"

definition File_read_at :: "'w FileOperations \<Rightarrow> u64 \<Rightarrow> ('w io, usize, Errno) action" where
  "File_read_at ops offset s =
     (if \<not> is_readable s then (Err Ebadf, s) else transfer_at ops offset (ops_read ops) s)"

definition File_write_at :: "'w FileOperations \<Rightarrow> u64 \<Rightarrow> bytes \<Rightarrow> ('w io, usize, Errno) action" where
  "File_write_at ops offset buf s =
     (if \<not> is_writable s then (Err Ebadf, s) else transfer_at ops offset (ops_write ops buf) s)"

definition File_truncate :: "'w FileOperations \<Rightarrow> u64 \<Rightarrow> ('w io, unit, Errno) action" where
  "File_truncate ops len s = (if \<not> is_writable s then (Err Ebadf, s) else ops_truncate ops len s)"

section \<open>Lemmas: buffers\<close>

definition buf_ok :: "MutableIoBuffer \<Rightarrow> bool" where
  "buf_ok b \<longleftrightarrow> mb_filled b \<le> length (mb_data b)"

lemma MutableIoBuffer_push_eq:
  assumes "buf_ok b" "length bs \<le> MutableIoBuffer_remaining b"
  defines "b' \<equiv> snd (MutableIoBuffer_push bs b)"
  shows "buf_ok b'" "MutableIoBuffer_filled_bytes b' = MutableIoBuffer_filled_bytes b @ bs"
    "length (mb_data b') = length (mb_data b)" "MutableIoBuffer_remaining b' = MutableIoBuffer_remaining b - length bs"
    "fst (MutableIoBuffer_push bs b) = length bs" "mb_filled b' = mb_filled b + length bs"
  using assms by (auto simp: buf_ok_def MutableIoBuffer_push_def MutableIoBuffer_remaining_def MutableIoBuffer_filled_bytes_def Let_def)

lemma MutableIoBuffer_push_take:
  fixes bs b
  assumes "buf_ok b"
  defines "b' \<equiv> snd (MutableIoBuffer_push bs b)"
  shows "buf_ok b'" "MutableIoBuffer_filled_bytes b' = MutableIoBuffer_filled_bytes b @ take (MutableIoBuffer_remaining b) bs"
    "length (mb_data b') = length (mb_data b)" "fst (MutableIoBuffer_push bs b) = min (length bs) (MutableIoBuffer_remaining b)"
  using assms
  by (auto simp: buf_ok_def MutableIoBuffer_push_def MutableIoBuffer_remaining_def MutableIoBuffer_filled_bytes_def Let_def min_def)

section \<open>Lemmas: directory records\<close>

lemma vfs_align_up_8: "vfs_align_up v 8 = (if v + 7 \<le> usize_MAX then Some (round_up 8 v) else None)"
proof -
  have "n AND usize_not (8 - 1) = n div 8 * 8" if "n \<le> usize_MAX" for n
    using that by (intro align_mask) (auto simp: is_power_of_two_def usize_MAX_def)
  then show ?thesis by (simp add: vfs_align_up_def checked_add_def round_up_def)
qed

text \<open>How a reader of directory records decodes one.\<close>

record Dirent =
  dr_ino :: nat
  dr_offset :: int
  dr_reclen :: nat
  dr_type :: u8
  dr_name :: bytes

definition decode_dirent :: "bytes \<Rightarrow> Dirent" where
  "decode_dirent bs =
     \<lparr>dr_ino = from_le (take 8 bs),
      dr_offset = (let v = int (from_le (take 8 (drop 8 bs))) in if v < 2 ^ 63 then v else v - 2 ^ 64),
      dr_reclen = from_le (take 2 (drop 16 bs)), dr_type = bs ! 18,
      dr_name = takeWhile (\<lambda>b. b \<noteq> 0) (drop 19 bs)\<rparr>"

abbreviation dirent_length :: "DirEntry \<Rightarrow> nat" where
  "dirent_length entry \<equiv> round_up 8 (length (de_name entry) + 20)"

definition dirent_bytes :: "DirEntry \<Rightarrow> bytes" where
  "dirent_bytes entry = to_le 8 (de_ino entry) @ to_le 8 (nat (de_offset entry mod 2 ^ 64)) @ to_le 2 (dirent_length entry)
     @ [FileType_dirent_type (de_file_type entry)] @ de_name entry @ [0]
     @ replicate (dirent_length entry - (length (de_name entry) + 20)) 0"

lemma length_dirent_bytes [simp]: "length (dirent_bytes entry) = dirent_length entry"
  using le_round_up [of 8 "length (de_name entry) + 20"] by (simp add: dirent_bytes_def)

lemma decode_dirent_bytes:
  assumes "de_ino entry < 2 ^ 64" "- (2 ^ 63) \<le> de_offset entry" "de_offset entry < 2 ^ 63" "0 \<notin> set (de_name entry)"
    and "dirent_length entry < 2 ^ 16"
  shows "decode_dirent (dirent_bytes entry) = \<lparr>dr_ino = de_ino entry, dr_offset = de_offset entry,
    dr_reclen = dirent_length entry, dr_type = FileType_dirent_type (de_file_type entry), dr_name = de_name entry\<rparr>"
proof -
  have off: "nat (de_offset entry mod 2 ^ 64) < 2 ^ 64" "int (nat (de_offset entry mod 2 ^ 64)) = de_offset entry mod 2 ^ 64" by simp_all
  have "de_offset entry mod 2 ^ 64 = (if 0 \<le> de_offset entry then de_offset entry else de_offset entry + 2 ^ 64)"
  proof (cases "0 \<le> de_offset entry")
    case False
    have "de_offset entry mod 2 ^ 64 = (de_offset entry + 2 ^ 64) mod 2 ^ 64" by simp
    also have "\<dots> = de_offset entry + 2 ^ 64" using False assms(2) by (intro mod_pos_pos_trivial) auto
    finally show ?thesis using False by simp
  qed (use assms(3) in simp)
  then have dec: "(let v = int (nat (de_offset entry mod 2 ^ 64)) in if v < 2 ^ 63 then v else v - 2 ^ 64) = de_offset entry"
    using assms(2,3) by (auto simp: Let_def)
  have "takeWhile (\<lambda>b. b \<noteq> 0) (de_name entry @ 0 # zs) = de_name entry" for zs :: bytes
    using assms(4) by (subst takeWhile_append2) auto
  then show ?thesis using assms(1,5) off(1) dec
    by (simp add: decode_dirent_def dirent_bytes_def nth_append)
qed

lemma MutableIoBuffer_push_all:
  assumes "buf_ok b" "length (concat bss) \<le> MutableIoBuffer_remaining b"
  shows "buf_ok (fold (\<lambda>bs b. snd (MutableIoBuffer_push bs b)) bss b)
    \<and> MutableIoBuffer_filled_bytes (fold (\<lambda>bs b. snd (MutableIoBuffer_push bs b)) bss b) = MutableIoBuffer_filled_bytes b @ concat bss
    \<and> length (mb_data (fold (\<lambda>bs b. snd (MutableIoBuffer_push bs b)) bss b)) = length (mb_data b)"
  using assms
proof (induction bss arbitrary: b)
  case (Cons bs bss)
  then have l: "length bs \<le> MutableIoBuffer_remaining b" by simp
  note p = MutableIoBuffer_push_eq [OF Cons.prems(1) l]
  show ?case using Cons.IH [OF p(1)] Cons.prems(2) p(2-4) by simp
qed simp

lemma emit_dirent64_eq:
  "emit_dirent64 entry buf =
    (if 0 \<in> set (de_name entry) then (Err Einval, buf)
     else if 2 ^ 16 \<le> dirent_length entry then (Err Eoverflow, buf)
     else if MutableIoBuffer_remaining buf < dirent_length entry then (if mb_filled buf = 0 then Err Einval else Ok False, buf)
     else (Ok True, fold (\<lambda>bs b. snd (MutableIoBuffer_push bs b))
       [to_le 8 (de_ino entry) @ to_le 8 (nat (de_offset entry mod 2 ^ 64)) @ to_le 2 (dirent_length entry)
          @ [FileType_dirent_type (de_file_type entry)], de_name entry, [0],
        replicate (dirent_length entry - (length (de_name entry) + 20)) 0] buf))"
proof -
  let ?n = "length (de_name entry)"
  have up: "?n + 20 \<le> dirent_length entry" "dirent_length entry \<le> ?n + 27"
    using le_round_up [of 8 "?n + 20"] round_up_le [of 8 "?n + 20"] by simp_all
  have pad: "take (dirent_length entry - (?n + 20)) (replicate 8 0) = replicate (dirent_length entry - (?n + 20)) (0 :: u8)"
    using up by (simp add: take_replicate min_def)
  show ?thesis
  proof (cases "?n + 27 \<le> usize_MAX")
    case True
    then have "Option.bind (checked_add 19 ?n) (\<lambda>len. checked_add len 1) = Some (?n + 20)"
      "vfs_align_up (?n + 20) 8 = Some (dirent_length entry)" by (simp_all add: checked_add_def vfs_align_up_8)
    then show ?thesis unfolding emit_dirent64_def Let_def by (simp add: pad del: take_replicate)
  next
    case False
    moreover have "2 ^ 16 \<le> dirent_length entry" using False up(1) by (simp add: usize_MAX_def)
    ultimately show ?thesis by (auto simp: emit_dirent64_def checked_add_def vfs_align_up_8)
  qed
qed

text \<open>
  C32. A directory record that is written can be read back: \<open>emit_dirent64\<close> appends one record, whose length is a multiple
  of eight and is stored in it, and from which the inode number, the offset, the type and the name are recovered. When
  the record does not fit, or when the name is too long or contains a zero byte, the buffer is as it was.
\<close>

theorem emit_dirent64_roundtrip:
  assumes "buf_ok buf" "de_ino entry < 2 ^ 64" "- (2 ^ 63) \<le> de_offset entry" "de_offset entry < 2 ^ 63"
  shows "case emit_dirent64 entry buf of
      (Ok True, buf') \<Rightarrow> buf_ok buf' \<and> length (mb_data buf') = length (mb_data buf)
        \<and> (\<exists>bs. MutableIoBuffer_filled_bytes buf' = MutableIoBuffer_filled_bytes buf @ bs \<and> 8 dvd length bs
          \<and> decode_dirent bs = \<lparr>dr_ino = de_ino entry, dr_offset = de_offset entry, dr_reclen = length bs,
              dr_type = FileType_dirent_type (de_file_type entry), dr_name = de_name entry\<rparr>)
    | (Ok False, buf') \<Rightarrow> buf' = buf \<and> mb_filled buf \<noteq> 0 \<and> MutableIoBuffer_remaining buf < dirent_length entry
    | (Err e, buf') \<Rightarrow> buf' = buf \<and> (0 \<in> set (de_name entry) \<or> 2 ^ 16 \<le> dirent_length entry
        \<or> (mb_filled buf = 0 \<and> MutableIoBuffer_remaining buf < dirent_length entry))
    | (Panic, _) \<Rightarrow> False"
proof (cases "0 \<notin> set (de_name entry) \<and> dirent_length entry < 2 ^ 16 \<and> dirent_length entry \<le> MutableIoBuffer_remaining buf")
  case True
  let ?xs = "[to_le 8 (de_ino entry) @ to_le 8 (nat (de_offset entry mod 2 ^ 64)) @ to_le 2 (dirent_length entry)
      @ [FileType_dirent_type (de_file_type entry)], de_name entry, [0],
      replicate (dirent_length entry - (length (de_name entry) + 20)) 0]"
  have c: "concat ?xs = dirent_bytes entry" by (simp add: dirent_bytes_def)
  have "length (concat ?xs) \<le> MutableIoBuffer_remaining buf" unfolding c using True by simp
  from MutableIoBuffer_push_all [OF assms(1) this, unfolded c]
  have "emit_dirent64 entry buf = (Ok True, fold (\<lambda>bs b. snd (MutableIoBuffer_push bs b)) ?xs buf)"
    "buf_ok (fold (\<lambda>bs b. snd (MutableIoBuffer_push bs b)) ?xs buf)" 
    "MutableIoBuffer_filled_bytes (fold (\<lambda>bs b. snd (MutableIoBuffer_push bs b)) ?xs buf) = MutableIoBuffer_filled_bytes buf @ dirent_bytes entry"
    "length (mb_data (fold (\<lambda>bs b. snd (MutableIoBuffer_push bs b)) ?xs buf)) = length (mb_data buf)"
    using True unfolding emit_dirent64_eq by simp_all
  then show ?thesis using decode_dirent_bytes [OF assms(2-4)] True by (auto intro!: exI [of _ "dirent_bytes entry"])
next
  case False
  then show ?thesis unfolding emit_dirent64_eq by auto
qed

theorem emit_dirent64_witness:
  "\<exists>buf' bs. emit_dirent64 \<lparr>de_ino = 7, de_offset = -1, de_file_type = Directory, de_name = [0x61, 0x62]\<rparr>
      \<lparr>mb_data = replicate 64 0, mb_filled = 0\<rparr> = (Ok True, buf')
    \<and> MutableIoBuffer_filled_bytes buf' = bs
    \<and> decode_dirent bs = \<lparr>dr_ino = 7, dr_offset = -1, dr_reclen = length bs, dr_type = 4, dr_name = [0x61, 0x62]\<rparr>"
proof -
  let ?e = "\<lparr>de_ino = 7, de_offset = -1, de_file_type = Directory, de_name = [0x61, 0x62]\<rparr>"
  let ?b = "\<lparr>mb_data = replicate 64 0, mb_filled = 0\<rparr>"
  obtain buf' where b: "emit_dirent64 ?e ?b = (Ok True, buf')"
    unfolding emit_dirent64_eq by (simp add: round_up_def MutableIoBuffer_remaining_def)
  have "buf_ok ?b" by (simp add: buf_ok_def)
  from emit_dirent64_roundtrip [OF this, of ?e] show ?thesis
    unfolding b by (auto simp: MutableIoBuffer_filled_bytes_def)
qed

section \<open>Positioned reads and writes\<close>

text \<open>A file whose absolute seek is the one of the open file.\<close>

locale seekable_file =
  fixes ops :: "'w FileOperations"
  assumes seek_set: "ops_seek ops pos SeekSet = on_file (File_seek_position pos SeekSet None)"
begin

lemma seek_to:
  assumes "n < 2 ^ 63"
  shows "ops_seek ops (int n) SeekSet s = (Ok n, s\<lparr>io_file := (io_file s)\<lparr>file_position := n\<rparr>\<rparr>)"
proof -
  have "checked_add_i64 0 (int n) = Some (int n)" using assms by (simp add: checked_add_i64_def)
  then show ?thesis by (simp add: seek_set on_file_def File_seek_position_def)
qed

lemma transfer_at_position:
  assumes "file_position (io_file s) < 2 ^ 63" "transfer_at ops offset transfer s = (r, s')" "r \<noteq> Panic"
  shows "file_position (io_file s') = file_position (io_file s)"
proof (cases "offset < 2 ^ 63")
  case True
  obtain q t where q: "transfer (s\<lparr>io_file := (io_file s)\<lparr>file_position := offset\<rparr>\<rparr>) = (q, t)" by fastforce
  show ?thesis
    using assms True q seek_to [OF True, of s] seek_to [OF assms(1), of t]
    by (cases q) (auto simp: transfer_at_def i64_try_from_def sbind_def slift_def sseq_def)
next
  case False
  then show ?thesis using assms by (auto simp: transfer_at_def i64_try_from_def sbind_def slift_def)
qed

end

interpretation plain_file: seekable_file "default_FileOperations\<lparr>ops_read := rd, ops_write := wr\<rparr>" for rd wr
  by unfold_locales (simp add: default_FileOperations_def)

text \<open>
  A positioned read or write leaves the position of the open file where it was, whatever the read or write
  operation of the object does to it and whether it succeeds or fails.
\<close>

theorem positioned_io_keeps_position:
  assumes "file_position (io_file s) < 2 ^ 63"
    and "m \<in> {File_read_at (default_FileOperations\<lparr>ops_read := rd, ops_write := wr\<rparr>) offset,
      File_write_at (default_FileOperations\<lparr>ops_read := rd, ops_write := wr\<rparr>) offset buf}"
    and "fst (m s) \<noteq> Panic"
  shows "file_position (io_file (snd (m s))) = file_position (io_file s)"
  using assms(2,3) plain_file.transfer_at_position [OF assms(1) prod.collapse [symmetric]]
  by (auto simp: File_read_at_def File_write_at_def split: if_splits)

end
