(* ===== verification/File_Table.thy ===== *)
theory File_Table
  imports Vfs
begin

text \<open>
  The table of file descriptors of a process (\<open>vfs/src/lib.rs\<close>). The type parameter stands for the shared pointer to an
  open file. The table is shown to implement a finite map from descriptors to files under any sequence of calls.
\<close>

section \<open>Definitions\<close>

record 'f FileDescriptor =
  fd_file :: 'f
  fd_close_on_exec :: bool

record 'f FileTable =
  ft_slots :: "'f FileDescriptor option list"

definition FileTable_new :: "nat \<Rightarrow> 'f FileTable" where
  "FileTable_new MAX_FDS = \<lparr>ft_slots = replicate MAX_FDS None\<rparr>"

definition FileTable_capacity :: "'f FileTable \<Rightarrow> usize" where
  "FileTable_capacity self = length (ft_slots self)"

definition FileTable_open_count :: "'f FileTable \<Rightarrow> usize" where
  "FileTable_open_count self = length (filter (\<lambda>slot. slot \<noteq> None) (ft_slots self))"

text \<open>An index out of range is a panic.\<close>

fun find_free_loop :: "'f FileDescriptor option list \<Rightarrow> usize list \<Rightarrow> (usize, Errno) result" where
  "find_free_loop slots [] = Err Emfile"
| "find_free_loop slots (fd # fds) =
     (if length slots \<le> fd then Panic else if slots ! fd = None then Ok fd else find_free_loop slots fds)"

definition FileTable_find_free_fd :: "'f FileTable \<Rightarrow> usize \<Rightarrow> (usize, Errno) result" where
  "FileTable_find_free_fd self min_fd =
     (if FileTable_capacity self \<le> min_fd then Err Emfile
      else find_free_loop (ft_slots self) [min_fd..<FileTable_capacity self])"

definition FileTable_allocate_fd_from :: "'f \<Rightarrow> bool \<Rightarrow> usize \<Rightarrow> ('f FileTable, usize, Errno) action" where
  "FileTable_allocate_fd_from file close_on_exec min_fd self =
     (case FileTable_find_free_fd self min_fd of
        Ok fd \<Rightarrow>
          if fd < length (ft_slots self)
          then (Ok fd, self\<lparr>ft_slots := (ft_slots self)[fd := Some \<lparr>fd_file = file, fd_close_on_exec = close_on_exec\<rparr>]\<rparr>)
          else (Panic, self)
      | Err e \<Rightarrow> (Err e, self)
      | Panic \<Rightarrow> (Panic, self))"

definition FileTable_allocate_fd :: "'f \<Rightarrow> bool \<Rightarrow> ('f FileTable, usize, Errno) action" where
  "FileTable_allocate_fd file close_on_exec = FileTable_allocate_fd_from file close_on_exec 0"

definition FileTable_replace_fd_take :: "usize \<Rightarrow> 'f \<Rightarrow> bool \<Rightarrow> ('f FileTable, 'f option, Errno) action" where
  "FileTable_replace_fd_take fd file close_on_exec self =
     (if length (ft_slots self) \<le> fd then (Err Ebadf, self)
      else (Ok (map_option fd_file (ft_slots self ! fd)),
            self\<lparr>ft_slots := (ft_slots self)[fd := Some \<lparr>fd_file = file, fd_close_on_exec = close_on_exec\<rparr>]\<rparr>))"

definition FileTable_replace_fd :: "usize \<Rightarrow> 'f \<Rightarrow> bool \<Rightarrow> ('f FileTable, unit, Errno) action" where
  "FileTable_replace_fd fd file close_on_exec = sseq (FileTable_replace_fd_take fd file close_on_exec) (sreturn ())"

text \<open>The entry of a descriptor, if it is in range and open.\<close>

definition slot_at :: "'f FileTable \<Rightarrow> usize \<Rightarrow> 'f FileDescriptor option" where
  "slot_at self fd = (if fd < length (ft_slots self) then ft_slots self ! fd else None)"

definition FileTable_get_file :: "'f FileTable \<Rightarrow> usize \<Rightarrow> ('f, Errno) result" where
  "FileTable_get_file self fd = ok_or (map_option fd_file (slot_at self fd)) Ebadf"

definition FileTable_fd_flags :: "'f FileTable \<Rightarrow> usize \<Rightarrow> (u32, Errno) result" where
  "FileTable_fd_flags self fd = ok_or (map_option (\<lambda>d. if fd_close_on_exec d then 1 else 0) (slot_at self fd)) Ebadf"

definition FileTable_set_close_on_exec :: "usize \<Rightarrow> bool \<Rightarrow> ('f FileTable, unit, Errno) action" where
  "FileTable_set_close_on_exec fd close_on_exec self =
     (case slot_at self fd of
        None \<Rightarrow> (Err Ebadf, self)
      | Some descriptor \<Rightarrow>
          (Ok (), self\<lparr>ft_slots := (ft_slots self)[fd := Some (descriptor\<lparr>fd_close_on_exec := close_on_exec\<rparr>)]\<rparr>))"

text \<open>The flags of the open file are read through the pointer.\<close>

definition FileTable_file_flags :: "('f \<Rightarrow> OpenFlags) \<Rightarrow> 'f FileTable \<Rightarrow> usize \<Rightarrow> (OpenFlags, Errno) result" where
  "FileTable_file_flags flags self fd = ok_or (map_option (\<lambda>d. flags (fd_file d)) (slot_at self fd)) Ebadf"

definition FileTable_take_fd :: "usize \<Rightarrow> ('f FileTable, 'f, Errno) action" where
  "FileTable_take_fd fd self =
     (if length (ft_slots self) \<le> fd then (Err Ebadf, self)
      else (ok_or (map_option fd_file (ft_slots self ! fd)) Ebadf, self\<lparr>ft_slots := (ft_slots self)[fd := None]\<rparr>))"

definition FileTable_close :: "usize \<Rightarrow> ('f FileTable, unit, Errno) action" where
  "FileTable_close fd = sseq (FileTable_take_fd fd) (sreturn ())"

definition FileTable_dup_from :: "usize \<Rightarrow> usize \<Rightarrow> bool \<Rightarrow> ('f FileTable, usize, Errno) action" where
  "FileTable_dup_from old_fd min_fd cloexec =
     sbind (sread (\<lambda>self. FileTable_get_file self old_fd)) (\<lambda>file. FileTable_allocate_fd_from file cloexec min_fd)"

definition FileTable_dup_to_take :: "usize \<Rightarrow> usize \<Rightarrow> bool \<Rightarrow> ('f FileTable, usize \<times> 'f option, Errno) action" where
  "FileTable_dup_to_take old_fd new_fd cloexec =
     sbind (sread (\<lambda>self. FileTable_get_file self old_fd)) (\<lambda>file.
     sbind (FileTable_replace_fd_take new_fd file cloexec) (\<lambda>old.
     sreturn (new_fd, old)))"

definition FileTable_dup_to :: "usize \<Rightarrow> usize \<Rightarrow> bool \<Rightarrow> ('f FileTable, usize, Errno) action" where
  "FileTable_dup_to old_fd new_fd cloexec =
     sbind (FileTable_dup_to_take old_fd new_fd cloexec) (\<lambda>(fd, _). sreturn fd)"

definition closes_on_exec :: "'f FileDescriptor option \<Rightarrow> bool" where
  "closes_on_exec slot = (case slot of None \<Rightarrow> False | Some d \<Rightarrow> fd_close_on_exec d)"

definition FileTable_close_on_exec :: "'f FileTable \<Rightarrow> 'f FileTable" where
  "FileTable_close_on_exec self =
     self\<lparr>ft_slots := map (\<lambda>slot. if closes_on_exec slot then None else slot) (ft_slots self)\<rparr>"

text \<open>The loops that empty slots and collect their files.\<close>

fun take_slots :: "('f FileDescriptor option \<Rightarrow> bool) \<Rightarrow> 'f FileDescriptor option list \<Rightarrow> 'f list
    \<Rightarrow> 'f FileDescriptor option list \<times> 'f list" where
  "take_slots wanted [] output = ([], output)"
| "take_slots wanted (slot # slots) output =
     (case slot of
        Some descriptor \<Rightarrow>
          if wanted slot
          then (let (rest, out) = take_slots wanted slots (output @ [fd_file descriptor]) in (None # rest, out))
          else (let (rest, out) = take_slots wanted slots output in (slot # rest, out))
      | None \<Rightarrow> (let (rest, out) = take_slots wanted slots output in (None # rest, out)))"

definition FileTable_take_close_on_exec :: "'f list \<Rightarrow> 'f FileTable \<Rightarrow> 'f list \<times> 'f FileTable" where
  "FileTable_take_close_on_exec output self =
     (let (slots, out) = take_slots closes_on_exec (ft_slots self) output in (out, self\<lparr>ft_slots := slots\<rparr>))"

definition FileTable_take_all :: "'f list \<Rightarrow> 'f FileTable \<Rightarrow> 'f list \<times> 'f FileTable" where
  "FileTable_take_all output self =
     (let (slots, out) = take_slots (\<lambda>_. True) (ft_slots self) output in (out, self\<lparr>ft_slots := slots\<rparr>))"

definition FileTable_fork_clone :: "'f FileTable \<Rightarrow> 'f FileTable" where
  "FileTable_fork_clone self =
     \<lparr>ft_slots = map (\<lambda>index. map_option (\<lambda>d. \<lparr>fd_file = fd_file d, fd_close_on_exec = fd_close_on_exec d\<rparr>) (ft_slots self ! index))
        [0..<length (ft_slots self)]\<rparr>"

section \<open>The abstract table\<close>

text \<open>A map from descriptors to files with their flag.\<close>

type_synonym 'f fd_map = "nat \<Rightarrow> ('f \<times> bool) option"

definition fd_view :: "'f FileTable \<Rightarrow> 'f fd_map" where
  "fd_view t fd = map_option (\<lambda>d. (fd_file d, fd_close_on_exec d)) (slot_at t fd)"

datatype 'f fd_call =
    AllocateFrom 'f bool nat
  | ReplaceTake nat 'f bool
  | GetFile nat
  | FdFlags nat
  | SetCloseOnExec nat bool
  | TakeFd nat
  | DupFrom nat nat bool
  | DupTo nat nat bool
  | TakeCloseOnExec
  | TakeAll
  | ForkClone

datatype 'f fd_answer = Fd nat | OldFile "'f option" | TheFile 'f | Flags nat | Done | Files "'f list" | Failed Errno | Panicked

fun answer :: "('a \<Rightarrow> 'f fd_answer) \<Rightarrow> ('a, Errno) result \<Rightarrow> 'f fd_answer" where
  "answer f (Ok x) = f x"
| "answer f (Err e) = Failed e"
| "answer f Panic = Panicked"

fun fd_exec :: "'f fd_call \<Rightarrow> 'f FileTable \<Rightarrow> 'f fd_answer \<times> 'f FileTable" where
  "fd_exec (AllocateFrom f c k) t = apfst (answer Fd) (FileTable_allocate_fd_from f c k t)"
| "fd_exec (ReplaceTake fd f c) t = apfst (answer OldFile) (FileTable_replace_fd_take fd f c t)"
| "fd_exec (GetFile fd) t = (answer TheFile (FileTable_get_file t fd), t)"
| "fd_exec (FdFlags fd) t = (answer Flags (FileTable_fd_flags t fd), t)"
| "fd_exec (SetCloseOnExec fd c) t = apfst (answer (\<lambda>_. Done)) (FileTable_set_close_on_exec fd c t)"
| "fd_exec (TakeFd fd) t = apfst (answer TheFile) (FileTable_take_fd fd t)"
| "fd_exec (DupFrom fd k c) t = apfst (answer Fd) (FileTable_dup_from fd k c t)"
| "fd_exec (DupTo old fd c) t = apfst (answer (OldFile \<circ> snd)) (FileTable_dup_to_take old fd c t)"
| "fd_exec TakeCloseOnExec t = apfst Files (FileTable_take_close_on_exec [] t)"
| "fd_exec TakeAll t = apfst Files (FileTable_take_all [] t)"
| "fd_exec ForkClone t = (Done, FileTable_fork_clone t)"

text \<open>What each call means for the map, when descriptors are the numbers below \<open>n\<close>.\<close>

definition spec_allocate :: "nat \<Rightarrow> 'f \<Rightarrow> bool \<Rightarrow> nat \<Rightarrow> 'f fd_map \<Rightarrow> 'f fd_answer \<times> 'f fd_map" where
  "spec_allocate n f c k m =
     (if \<exists>fd. k \<le> fd \<and> fd < n \<and> m fd = None
      then let fd = (LEAST fd. k \<le> fd \<and> fd < n \<and> m fd = None) in (Fd fd, m(fd \<mapsto> (f, c)))
      else (Failed Emfile, m))"

definition open_files :: "nat \<Rightarrow> ('f \<times> bool \<Rightarrow> bool) \<Rightarrow> 'f fd_map \<Rightarrow> 'f list" where
  "open_files n P m = concat (map (\<lambda>fd. case m fd of Some e \<Rightarrow> if P e then [fst e] else [] | None \<Rightarrow> []) [0..<n])"

fun fd_spec :: "nat \<Rightarrow> 'f fd_call \<Rightarrow> 'f fd_map \<Rightarrow> 'f fd_answer \<times> 'f fd_map" where
  "fd_spec n (AllocateFrom f c k) m = spec_allocate n f c k m"
| "fd_spec n (ReplaceTake fd f c) m =
     (if fd < n then (OldFile (map_option fst (m fd)), m(fd \<mapsto> (f, c))) else (Failed Ebadf, m))"
| "fd_spec n (GetFile fd) m = (case m fd of Some (f, c) \<Rightarrow> (TheFile f, m) | None \<Rightarrow> (Failed Ebadf, m))"
| "fd_spec n (FdFlags fd) m = (case m fd of Some (f, c) \<Rightarrow> (Flags (of_bool c), m) | None \<Rightarrow> (Failed Ebadf, m))"
| "fd_spec n (SetCloseOnExec fd c) m = (case m fd of Some (f, _) \<Rightarrow> (Done, m(fd \<mapsto> (f, c))) | None \<Rightarrow> (Failed Ebadf, m))"
| "fd_spec n (TakeFd fd) m = (case m fd of Some (f, c) \<Rightarrow> (TheFile f, m(fd := None)) | None \<Rightarrow> (Failed Ebadf, m))"
| "fd_spec n (DupFrom fd k c) m = (case m fd of Some (f, _) \<Rightarrow> spec_allocate n f c k m | None \<Rightarrow> (Failed Ebadf, m))"
| "fd_spec n (DupTo old fd c) m =
     (case m old of
        Some (f, _) \<Rightarrow> if fd < n then (OldFile (map_option fst (m fd)), m(fd \<mapsto> (f, c))) else (Failed Ebadf, m)
      | None \<Rightarrow> (Failed Ebadf, m))"
| "fd_spec n TakeCloseOnExec m = (Files (open_files n snd m), \<lambda>fd. case m fd of Some (f, True) \<Rightarrow> None | e \<Rightarrow> e)"
| "fd_spec n TakeAll m = (Files (open_files n (\<lambda>_. True) m), \<lambda>_. None)"
| "fd_spec n ForkClone m = (Done, m)"

text \<open>Sequences of calls with all answers.\<close>

fun fd_run :: "('c \<Rightarrow> 's \<Rightarrow> 'a \<times> 's) \<Rightarrow> 'c list \<Rightarrow> 's \<Rightarrow> 'a list \<times> 's" where
  "fd_run step [] s = ([], s)"
| "fd_run step (c # cs) s = (let (a, s') = step c s; (as, s'') = fd_run step cs s' in (a # as, s''))"

section \<open>Refinement\<close>

lemma slot_at_update:
  "slot_at (t\<lparr>ft_slots := (ft_slots t)[fd := d]\<rparr>) k = (if k = fd \<and> fd < length (ft_slots t) then d else slot_at t k)"
  by (auto simp: slot_at_def)

lemma fd_view_update:
  "fd < length (ft_slots t) \<Longrightarrow>
    fd_view (t\<lparr>ft_slots := (ft_slots t)[fd := d]\<rparr>) = (fd_view t)(fd := map_option (\<lambda>d. (fd_file d, fd_close_on_exec d)) d)"
  by (auto simp: fd_view_def slot_at_update)

lemma fd_view_None: "fd_view t fd = None \<longleftrightarrow> slot_at t fd = None"
  by (simp add: fd_view_def)

lemma fd_view_outside: "length (ft_slots t) \<le> fd \<Longrightarrow> fd_view t fd = None"
  by (simp add: fd_view_def slot_at_def)

lemma find_free_loop_cases:
  assumes "\<forall>fd \<in> set fds. fd < length slots"
  shows "find_free_loop slots fds = (case find (\<lambda>fd. slots ! fd = None) fds of Some fd \<Rightarrow> Ok fd | None \<Rightarrow> Err Emfile)"
  using assms by (induction fds) auto

lemma find_upt_Some:
  "find P [k..<n] = Some fd \<Longrightarrow> k \<le> fd \<and> fd < n \<and> P fd \<and> (\<forall>j. k \<le> j \<longrightarrow> j < fd \<longrightarrow> \<not> P j)"
  by (auto simp: find_Some_iff) (metis le_add_diff_inverse nat_add_left_cancel_less)

lemma find_free_fd_spec:
  "FileTable_find_free_fd t k = (let n = length (ft_slots t); free = (\<lambda>fd. k \<le> fd \<and> fd < n \<and> fd_view t fd = None) in
     if \<exists>fd. free fd then Ok (LEAST fd. free fd) else Err Emfile)"
proof -
  let ?n = "length (ft_slots t)" and ?s = "ft_slots t"
  have free: "k \<le> fd \<and> fd < ?n \<and> fd_view t fd = None \<longleftrightarrow> k \<le> fd \<and> fd < ?n \<and> ?s ! fd = None" for fd
    by (auto simp: fd_view_None slot_at_def)
  have loop: "find_free_loop ?s [k..<?n] = (case find (\<lambda>fd. ?s ! fd = None) [k..<?n] of Some fd \<Rightarrow> Ok fd | None \<Rightarrow> Err Emfile)"
    by (rule find_free_loop_cases) simp
  show ?thesis
  proof (cases "find (\<lambda>fd. ?s ! fd = None) [k..<?n]")
    case None
    then have "\<not> (\<exists>fd. k \<le> fd \<and> fd < ?n \<and> ?s ! fd = None)" by (auto simp: find_None_iff)
    then show ?thesis using loop None unfolding Let_def free by (simp add: FileTable_find_free_fd_def FileTable_capacity_def)
  next
    case (Some fd)
    note f = find_upt_Some [OF Some]
    then have "(LEAST fd. k \<le> fd \<and> fd < ?n \<and> ?s ! fd = None) = fd" by (intro Least_equality) (auto simp: not_less)
    then show ?thesis using loop Some f unfolding Let_def free
      by (auto simp: FileTable_find_free_fd_def FileTable_capacity_def)
  qed
qed

lemma allocate_spec:
  "(apfst (answer Fd) (FileTable_allocate_fd_from f c k t)) = (r, t') \<Longrightarrow>
    spec_allocate (length (ft_slots t)) f c k (fd_view t) = (r, fd_view t') \<and> length (ft_slots t') = length (ft_slots t)"
proof -
  let ?free = "\<lambda>fd. k \<le> fd \<and> fd < length (ft_slots t) \<and> fd_view t fd = None"
  assume eq: "(apfst (answer Fd) (FileTable_allocate_fd_from f c k t)) = (r, t')"
  show ?thesis
  proof (cases "\<exists>fd. ?free fd")
    case True
    then have l: "?free (LEAST fd. ?free fd)" by (rule LeastI_ex)
    then have "t' = t\<lparr>ft_slots := (ft_slots t)[(LEAST fd. ?free fd) := Some \<lparr>fd_file = f, fd_close_on_exec = c\<rparr>]\<rparr>"
      "r = Fd (LEAST fd. ?free fd)"
      using eq True by (auto simp: FileTable_allocate_fd_from_def find_free_fd_spec Let_def)
    then show ?thesis using True l by (simp add: spec_allocate_def Let_def fd_view_update)
  next
    case False
    then have "FileTable_find_free_fd t k = Err Emfile" by (simp only: find_free_fd_spec Let_def if_False)
    moreover have "spec_allocate (length (ft_slots t)) f c k (fd_view t) = (Failed Emfile, fd_view t)"
      unfolding spec_allocate_def using False by (simp only: if_False)
    ultimately show ?thesis using eq by (auto simp: FileTable_allocate_fd_from_def)
  qed
qed

lemma take_slots_eq:
  assumes "\<not> P None"
  shows "take_slots P slots out =
    (map (\<lambda>slot. if P slot then None else slot) slots,
     out @ concat (map (\<lambda>slot. case slot of Some d \<Rightarrow> if P slot then [fd_file d] else [] | None \<Rightarrow> []) slots))"
  using assms by (induction slots arbitrary: out) (auto split: option.splits)

lemma take_slots_all:
  "take_slots (\<lambda>_. True) slots out =
    (map (\<lambda>_. None) slots, out @ concat (map (\<lambda>slot. case slot of Some d \<Rightarrow> if True then [fd_file d] else [] | None \<Rightarrow> []) slots))"
  by (induction slots arbitrary: out) (auto split: option.splits)

lemma fd_view_fst: "map_option fst (fd_view t fd) = map_option fd_file (slot_at t fd)"
  by (simp add: fd_view_def option.map_comp comp_def)

lemma replace_spec:
  assumes "FileTable_replace_fd_take fd f b t = (r, t')"
  shows "length (ft_slots t') = length (ft_slots t)
    \<and> (if fd < length (ft_slots t) then r = Ok (map_option fst (fd_view t fd)) \<and> fd_view t' = (fd_view t)(fd \<mapsto> (f, b))
       else r = Err Ebadf \<and> t' = t)"
  using assms unfolding fd_view_fst
  by (auto simp: FileTable_replace_fd_take_def fd_view_update slot_at_def split: if_splits)

lemma open_files_slots:
  "open_files (length (ft_slots t)) P (fd_view t) =
     concat (map (\<lambda>slot. case slot of Some d \<Rightarrow> if P (fd_file d, fd_close_on_exec d) then [fd_file d] else [] | None \<Rightarrow> []) (ft_slots t))"
proof -
  have "map (\<lambda>fd. g (fd_view t fd)) [0..<length (ft_slots t)]
      = map (\<lambda>slot. g (map_option (\<lambda>d. (fd_file d, fd_close_on_exec d)) slot)) (ft_slots t)" for g :: "_ \<Rightarrow> 'a list"
    by (rule nth_equalityI) (auto simp: fd_view_def slot_at_def)
  from this [of "\<lambda>e. case e of Some e \<Rightarrow> if P e then [fst e] else [] | None \<Rightarrow> []"] show ?thesis
    unfolding open_files_def by (auto intro!: arg_cong [of _ _ concat] split: option.splits)
qed

lemma fd_view_map:
  "fd_view (t\<lparr>ft_slots := map g (ft_slots t)\<rparr>) fd
    = (if fd < length (ft_slots t) then map_option (\<lambda>d. (fd_file d, fd_close_on_exec d)) (g (ft_slots t ! fd)) else None)"
  by (simp add: fd_view_def slot_at_def)

lemma fd_exec_refines:
  assumes "fd_exec c t = (r, t')"
  shows "fd_spec (length (ft_slots t)) c (fd_view t) = (r, fd_view t') \<and> length (ft_slots t') = length (ft_slots t)"
proof (cases c)
  case (AllocateFrom f b k)
  then show ?thesis using allocate_spec assms by simp
next
  case (ReplaceTake fd f b)
  obtain q s where q: "FileTable_replace_fd_take fd f b t = (q, s)" by fastforce
  then show ?thesis using ReplaceTake assms replace_spec [OF q] by (auto split: if_splits)
next
  case (GetFile fd)
  then show ?thesis using assms by (cases "slot_at t fd") (auto simp: FileTable_get_file_def fd_view_def)
next
  case (FdFlags fd)
  then show ?thesis using assms by (cases "slot_at t fd") (auto simp: FileTable_fd_flags_def fd_view_def)
next
  case (SetCloseOnExec fd b)
  then show ?thesis using assms
    by (cases "slot_at t fd") (auto simp: FileTable_set_close_on_exec_def fd_view_def slot_at_update fun_eq_iff slot_at_def split: if_splits) 
next
  case (TakeFd fd)
  have "fd_view (t\<lparr>ft_slots := (ft_slots t)[fd := None]\<rparr>) = (fd_view t)(fd := None)"
    by (auto simp: fd_view_def slot_at_update fun_eq_iff) (auto simp: slot_at_def)
  then show ?thesis using TakeFd assms
    by (cases "slot_at t fd") (auto simp: FileTable_take_fd_def slot_at_def fd_view_None fd_view_def fun_upd_idem split: if_splits)
next
  case (DupFrom fd k b)
  show ?thesis
  proof (cases "slot_at t fd")
    case None
    then show ?thesis using DupFrom assms by (auto simp: FileTable_dup_from_def FileTable_get_file_def sbind_def sread_def fd_view_def)
  next
    case (Some d)
    then have "apfst (answer Fd) (FileTable_allocate_fd_from (fd_file d) b k t) = (r, t')"
      using DupFrom assms by (simp add: FileTable_dup_from_def FileTable_get_file_def sbind_def sread_def)
    from allocate_spec [OF this] show ?thesis using Some DupFrom by (simp add: fd_view_def)
  qed
next
  case (DupTo old fd b)
  show ?thesis
  proof (cases "slot_at t old")
    case None
    then show ?thesis using DupTo assms by (auto simp: FileTable_dup_to_take_def FileTable_get_file_def sbind_def sread_def fd_view_def)
  next
    case (Some d)
    then have "fd_view t old = Some (fd_file d, fd_close_on_exec d)" by (simp add: fd_view_def)
    moreover obtain q s where q: "FileTable_replace_fd_take fd (fd_file d) b t = (q, s)" by fastforce
    ultimately show ?thesis using DupTo assms Some replace_spec [OF q]
      by (auto simp: FileTable_dup_to_take_def FileTable_get_file_def sbind_def sread_def sreturn_def split: if_splits)
  qed
next
  case TakeCloseOnExec
  have sl: "take_slots closes_on_exec (ft_slots t) [] = (map (\<lambda>slot. if closes_on_exec slot then None else slot) (ft_slots t),
      open_files (length (ft_slots t)) snd (fd_view t))"
    unfolding open_files_slots by (subst take_slots_eq) (auto simp: closes_on_exec_def intro!: arg_cong [of _ _ concat] split: option.splits)
  then have "r = Files (open_files (length (ft_slots t)) snd (fd_view t))"
    "t' = t\<lparr>ft_slots := map (\<lambda>slot. if closes_on_exec slot then None else slot) (ft_slots t)\<rparr>"
    using TakeCloseOnExec assms by (auto simp: FileTable_take_close_on_exec_def)
  then show ?thesis using TakeCloseOnExec
    by (auto simp: fun_eq_iff fd_view_map fd_view_def slot_at_def closes_on_exec_def split: option.splits bool.splits)
next
  case TakeAll
  have sl: "take_slots (\<lambda>_. True) (ft_slots t) [] = (map (\<lambda>_. None) (ft_slots t), open_files (length (ft_slots t)) (\<lambda>_. True) (fd_view t))"
    unfolding open_files_slots take_slots_all by simp
  then have "r = Files (open_files (length (ft_slots t)) (\<lambda>_. True) (fd_view t))" "t' = t\<lparr>ft_slots := map (\<lambda>_. None) (ft_slots t)\<rparr>"
    using TakeAll assms by (auto simp: FileTable_take_all_def)
  then show ?thesis using TakeAll by (auto simp: fun_eq_iff fd_view_map)
next
  case ForkClone
  have "map_option (\<lambda>d. \<lparr>fd_file = fd_file d, fd_close_on_exec = fd_close_on_exec d\<rparr>) x = x" for x
    by (cases x) auto
  then have "ft_slots (FileTable_fork_clone t) = ft_slots t"
    by (intro nth_equalityI) (auto simp: FileTable_fork_clone_def)
  then show ?thesis using ForkClone assms by (auto simp: fd_view_def slot_at_def fun_eq_iff)
qed

lemma fd_run_refines:
  assumes "fd_run fd_exec cs t = (rs, t')"
  shows "fd_run (fd_spec (length (ft_slots t))) cs (fd_view t) = (rs, fd_view t')"
  using assms
proof (induction cs arbitrary: t rs)
  case (Cons c cs)
  obtain r s where c: "fd_exec c t = (r, s)" by fastforce
  obtain rs' where rs: "fd_run fd_exec cs s = (rs', t')" "rs = r # rs'" using Cons.prems c by (auto split: prod.splits)
  note f = fd_exec_refines [OF c]
  show ?case using f Cons.IH [OF rs(1)] rs(2) by simp
qed simp

text \<open>
  C18. A table of descriptors implements a finite map: for every sequence of calls on a new table, the answers and the
  final table are those of the map in which a new descriptor is the smallest free number that is not below the
  requested one, a duplicate refers to the same file, closing removes exactly one entry, and \<open>exec\<close> removes exactly the
  entries marked for it and returns their files in order. No call panics.
\<close>

theorem FileTable_refines_map:
  assumes "fd_run fd_exec calls (FileTable_new n) = (answers, t)"
  shows "fd_run (fd_spec n) calls (\<lambda>_. None) = (answers, fd_view t) \<and> Panicked \<notin> set answers"
proof -
  have new: "fd_view (FileTable_new n) = (\<lambda>_. None)" "length (ft_slots (FileTable_new n)) = n"
    by (auto simp: fd_view_def slot_at_def FileTable_new_def)
  have step: "fst (fd_spec n c m) \<noteq> Panicked" for c :: "'a fd_call" and m
    by (cases c) (auto simp: spec_allocate_def Let_def split: option.splits)
  have run: "Panicked \<notin> set (fst (fd_run (fd_spec n) cs m))" for cs :: "'a fd_call list" and m
  proof (induction cs arbitrary: m)
    case (Cons c cs)
    then show ?case using step [of c m] by (auto split: prod.splits) (metis fst_conv)
  qed simp
  have "fd_run (fd_spec n) calls (\<lambda>_. None) = (answers, fd_view t)"
    using fd_run_refines [OF assms] unfolding new by simp
  then show ?thesis using run [of calls "\<lambda>_. None"] by simp
qed

theorem FileTable_refines_map_witness:
  "fst (fd_run (fd_spec 3) [AllocateFrom (7 :: nat) True 0, DupFrom 0 0 False, TakeCloseOnExec, GetFile 1, DupTo 1 5 False, AllocateFrom 8 False 0]
      (\<lambda>_. None))
    = [Fd 0, Fd 1, Files [7], TheFile 7, Failed Ebadf, Fd 0]"
proof -
  let ?cs = "[AllocateFrom (7 :: nat) True 0, DupFrom 0 0 False, TakeCloseOnExec, GetFile 1, DupTo 1 5 False, AllocateFrom 8 False 0]"
  have "fst (fd_run fd_exec ?cs (FileTable_new 3)) = [Fd 0, Fd 1, Files [7], TheFile 7, Failed Ebadf, Fd 0]"
    by code_simp
  with FileTable_refines_map [OF prod.collapse [symmetric], where calls = ?cs and n = 3] show ?thesis by simp
qed

end
