(* ===== verification/Pipe.thy ===== *)
theory Pipe
  imports Vfs
begin

text \<open>
  Pipes (\<open>kernel/src/pipe.rs\<close>). A call runs as a sequence of critical sections of the state lock; between two of them a
  thread may sleep on one of two wait queues. The definitions give the critical sections and the loops inside them;
  the step relation interleaves threads at the granularity of the locks and of the two counters that guard against
  lost wake-ups.
\<close>

section \<open>State and critical sections\<close>

definition PIPE_CAPACITY :: usize where
  "PIPE_CAPACITY = 4096"

record PipeState =
  ps_buffer :: bytes
  ps_head :: usize
  ps_len :: usize
  ps_readers :: usize
  ps_writers :: usize

record Pipe =
  pipe_state :: PipeState
  pipe_read_epoch :: u64
  pipe_write_epoch :: u64

definition Pipe_new :: Pipe where
  "Pipe_new = \<lparr>pipe_state = \<lparr>ps_buffer = replicate PIPE_CAPACITY 0, ps_head = 0, ps_len = 0, ps_readers = 1, ps_writers = 1\<rparr>,
     pipe_read_epoch = 0, pipe_write_epoch = 0\<rparr>"

text \<open>The copy loop of a read: the ring buffer is drained in at most two pieces.\<close>

function read_loop :: "PipeState \<Rightarrow> MutableIoBuffer \<Rightarrow> usize \<Rightarrow> (usize \<times> PipeState \<times> MutableIoBuffer, Errno) result" where
  "read_loop state buf copied =
     (if 0 < ps_len state \<and> 0 < MutableIoBuffer_remaining buf
      then if PIPE_CAPACITY < ps_head state then Panic
      else
        let available = min (ps_len state) (PIPE_CAPACITY - ps_head state);
            chunk = min available (MutableIoBuffer_remaining buf);
            start = ps_head state in
        (case slice_get (ps_buffer state) start (start + chunk) of
           None \<Rightarrow> Panic
         | Some bs \<Rightarrow>
             (let (n, buf') = MutableIoBuffer_push bs buf in
              read_loop (state\<lparr>ps_head := (ps_head state + chunk) mod PIPE_CAPACITY, ps_len := ps_len state - chunk\<rparr>) buf' (copied + n)))
      else Ok (copied, state, buf))"
  by pat_completeness auto
termination
proof (relation "measure (\<lambda>(state, buf, copied). 2 * ps_len state + (if ps_head state = PIPE_CAPACITY then 1 else 0))", goal_cases)
  case (2 state buf copied available chunk start bs x n buf')
  have less: "(ps_head state + chunk) mod PIPE_CAPACITY < PIPE_CAPACITY" by (simp add: PIPE_CAPACITY_def)
  show ?case
  proof (cases "ps_head state = PIPE_CAPACITY")
    case True
    then have "chunk = 0" using 2(3,4) by simp
    then show ?thesis using less True by simp
  next
    case False
    then have "0 < chunk" using 2(1-4) by simp
    moreover have "chunk \<le> ps_len state" using 2(3,4) by simp
    ultimately show ?thesis using less False by simp
  qed
qed simp

declare read_loop.simps [simp del]

text \<open>What a critical section of a call ends with.\<close>

datatype section_end =
    Return "(usize, Errno) result"
  | Block u64
  | Copied usize
  | Full usize

text \<open>One turn of the loop of \<open>read\<close>; \<open>can_block\<close> says that the scheduler runs and the caller is a user thread.\<close>

definition read_section :: "bool \<Rightarrow> bool \<Rightarrow> Pipe \<Rightarrow> MutableIoBuffer \<Rightarrow> section_end \<times> Pipe \<times> MutableIoBuffer" where
  "read_section nonblock can_block self buf =
     (let state = pipe_state self in
      if ps_len state = 0
      then
        if ps_writers state = 0 then (Return (Ok 0), self, buf)
        else if nonblock \<or> \<not> can_block then (Return (Err Eagain), self, buf)
        else (Block (pipe_read_epoch self), self, buf)
      else
        (case read_loop state buf 0 of
           Ok (copied, state', buf') \<Rightarrow> (Copied copied, self\<lparr>pipe_state := state'\<rparr>, buf')
         | Err e \<Rightarrow> (Return (Err e), self, buf)
         | Panic \<Rightarrow> (Return Panic, self, buf)))"

function write_loop :: "bytes \<Rightarrow> PipeState \<Rightarrow> usize \<Rightarrow> (usize \<times> PipeState, Errno) result" where
  "write_loop input state copied =
     (if copied < length input \<and> ps_len state < PIPE_CAPACITY
      then
        let tail = (ps_head state + ps_len state) mod PIPE_CAPACITY;
            writable = (if ps_head state \<le> tail then PIPE_CAPACITY - tail else ps_head state - tail);
            writable = min writable (PIPE_CAPACITY - ps_len state);
            chunk = min writable (length input - copied) in
        if length (ps_buffer state) < tail + chunk then Panic
        else write_loop input
          (state\<lparr>ps_buffer := take tail (ps_buffer state) @ take chunk (drop copied input) @ drop (tail + chunk) (ps_buffer state),
                 ps_len := ps_len state + chunk\<rparr>) (copied + chunk)
      else Ok (copied, state))"
  by pat_completeness auto
termination
proof (relation "measure (\<lambda>(input, state, copied). length input - copied)", goal_cases)
  case (2 input state copied tail writable writable' chunk)
  have "tail < PIPE_CAPACITY" unfolding 2(2) by (simp add: PIPE_CAPACITY_def)
  then have "0 < chunk" using 2(1,3-5) by (simp split: if_splits)
  then show ?case using 2(1) by (simp, linarith)
qed simp

declare write_loop.simps [simp del]

text \<open>One turn of the loop of \<open>write\<close> that is entered with input left.\<close>

definition write_section :: "bool \<Rightarrow> bool \<Rightarrow> bytes \<Rightarrow> usize \<Rightarrow> Pipe \<Rightarrow> section_end \<times> Pipe" where
  "write_section nonblock can_block input copied self =
     (let state = pipe_state self in
      if ps_readers state = 0 then (Return (if copied = 0 then Err Epipe else Ok copied), self)
      else if ps_len state = PIPE_CAPACITY
      then
        if copied \<noteq> 0 then (Full copied, self)
        else if nonblock \<or> \<not> can_block then (Return (Err Eagain), self)
        else (Block (pipe_write_epoch self), self)
      else
        (case write_loop input state copied of
           Ok (copied', state') \<Rightarrow> (Copied copied', self\<lparr>pipe_state := state'\<rparr>)
         | Err e \<Rightarrow> (Return (Err e), self)
         | Panic \<Rightarrow> (Return Panic, self)))"

definition on_state :: "(PipeState \<Rightarrow> PipeState) \<Rightarrow> Pipe \<Rightarrow> Pipe" where
  "on_state f self = self\<lparr>pipe_state := f (pipe_state self)\<rparr>"

definition Pipe_close_reader :: "Pipe \<Rightarrow> Pipe" where
  "Pipe_close_reader = on_state (\<lambda>st. st\<lparr>ps_readers := saturating_sub (ps_readers st) 1\<rparr>)"

definition Pipe_exit_reader :: "Pipe \<Rightarrow> Pipe" where
  "Pipe_exit_reader = on_state (\<lambda>st. st\<lparr>ps_readers := 0\<rparr>)"

definition Pipe_close_writer :: "Pipe \<Rightarrow> Pipe" where
  "Pipe_close_writer = on_state (\<lambda>st. st\<lparr>ps_writers := saturating_sub (ps_writers st) 1\<rparr>)"

definition Pipe_exit_writer :: "Pipe \<Rightarrow> Pipe" where
  "Pipe_exit_writer = on_state (\<lambda>st. st\<lparr>ps_writers := 0\<rparr>)"

definition Pipe_reader_poll :: "Pipe \<Rightarrow> PollEvents \<Rightarrow> PollEvents" where
  "Pipe_reader_poll self requested =
     (let state = pipe_state self;
          ready = (if ps_len state \<noteq> 0 \<or> ps_writers state = 0 then POLL_IN else 0);
          ready = (if ps_writers state = 0 then ready OR POLL_HUP else ready) in
      ready AND (requested OR POLL_HUP))"

definition Pipe_writer_poll :: "Pipe \<Rightarrow> PollEvents \<Rightarrow> PollEvents" where
  "Pipe_writer_poll self requested =
     (let state = pipe_state self;
          ready = (if ps_readers state = 0 then POLL_ERR else if ps_len state < PIPE_CAPACITY then POLL_OUT else 0) in
      ready AND (requested OR POLL_ERR))"

text \<open>The counters wrap around; waking the queue itself is a step of the scheduler.\<close>

definition bump_read_epoch :: "Pipe \<Rightarrow> Pipe" where
  "bump_read_epoch self = self\<lparr>pipe_read_epoch := (pipe_read_epoch self + 1) mod 2 ^ 64\<rparr>"

definition bump_write_epoch :: "Pipe \<Rightarrow> Pipe" where
  "bump_write_epoch self = self\<lparr>pipe_write_epoch := (pipe_write_epoch self + 1) mod 2 ^ 64\<rparr>"

definition pipe_fstat :: Stat where
  "pipe_fstat = Stat_zeroed\<lparr>st_mode := S_IFIFO OR 0x180, st_nlink := 1\<rparr>"

text \<open>The two open files and the pipe they share.\<close>

definition create_pipe :: "OpenFlags \<Rightarrow> (File \<times> File \<times> Pipe, Errno) result" where
  "create_pipe flags =
     (if flags AND NOT (O_CLOEXEC OR O_NONBLOCK) \<noteq> 0 then Err Einval
      else
        let status_flags = (if OpenFlags_contains flags O_NONBLOCK then O_NONBLOCK else 0) in
        Ok (File_new (O_RDONLY OR status_flags), File_new (O_WRONLY OR status_flags), Pipe_new))"

section \<open>The ring buffer as a queue\<close>

definition pipe_content :: "PipeState \<Rightarrow> bytes" where
  "pipe_content st = map (\<lambda>i. ps_buffer st ! ((ps_head st + i) mod PIPE_CAPACITY)) [0..<ps_len st]"

definition pipe_ok :: "PipeState \<Rightarrow> bool" where
  "pipe_ok st \<longleftrightarrow> length (ps_buffer st) = PIPE_CAPACITY \<and> ps_head st < PIPE_CAPACITY \<and> ps_len st \<le> PIPE_CAPACITY"

lemma PIPE_CAPACITY_pos [simp]: "0 < PIPE_CAPACITY"
  by (simp add: PIPE_CAPACITY_def)

lemma length_pipe_content [simp]: "length (pipe_content st) = ps_len st"
  by (simp add: pipe_content_def)

lemma ring_index_le:
  assumes "i \<le> j" "j < PIPE_CAPACITY" "(h + i) mod PIPE_CAPACITY = (h + j) mod PIPE_CAPACITY"
  shows "i = j"
proof -
  have "PIPE_CAPACITY dvd (h + j) - (h + i)" using assms(1,3) by (subst mod_eq_dvd_iff_nat [symmetric]) auto
  then have "PIPE_CAPACITY dvd j - i" by simp
  then have "j - i = 0" using assms(2) by (meson dvd_imp_le less_imp_diff_less neq0_conv not_le)
  then show ?thesis using assms(1) by simp
qed

lemma ring_index_eq:
  assumes "i < PIPE_CAPACITY" "j < PIPE_CAPACITY" "(h + i) mod PIPE_CAPACITY = (h + j) mod PIPE_CAPACITY"
  shows "i = j"
  using assms ring_index_le [of i j h] ring_index_le [of j i h] by (cases "i \<le> j") auto

text \<open>Taking a piece from the front.\<close>

lemma pipe_content_chunk:
  assumes "pipe_ok st" "chunk \<le> ps_len st" "ps_head st + chunk \<le> PIPE_CAPACITY"
  shows "take chunk (drop (ps_head st) (ps_buffer st)) = take chunk (pipe_content st)"
    and "pipe_content (st\<lparr>ps_head := (ps_head st + chunk) mod PIPE_CAPACITY, ps_len := ps_len st - chunk\<rparr>) = drop chunk (pipe_content st)"
proof -
  show "take chunk (drop (ps_head st) (ps_buffer st)) = take chunk (pipe_content st)"
    using assms by (intro nth_equalityI) (auto simp: pipe_ok_def pipe_content_def)
  show "pipe_content (st\<lparr>ps_head := (ps_head st + chunk) mod PIPE_CAPACITY, ps_len := ps_len st - chunk\<rparr>) = drop chunk (pipe_content st)"
    using assms by (intro nth_equalityI) (auto simp: pipe_content_def mod_add_left_eq add.assoc)
qed

lemma read_loop_spec:
  assumes "pipe_ok st" "buf_ok buf"
  defines "n \<equiv> min (ps_len st) (MutableIoBuffer_remaining buf)"
  shows "\<exists>st' buf'. read_loop st buf copied = Ok (copied + n, st', buf') \<and> pipe_ok st' \<and> buf_ok buf'
    \<and> MutableIoBuffer_filled_bytes buf' = MutableIoBuffer_filled_bytes buf @ take n (pipe_content st)
    \<and> pipe_content st' = drop n (pipe_content st) \<and> ps_readers st' = ps_readers st \<and> ps_writers st' = ps_writers st"
  using assms(1,2) unfolding n_def
proof (induction "ps_len st" arbitrary: st buf copied rule: less_induct)
  case less
  note 1 = less.hyps less.prems
  show ?case
  proof (cases "0 < ps_len st \<and> 0 < MutableIoBuffer_remaining buf")
    case True
    define chunk where "chunk = min (min (ps_len st) (PIPE_CAPACITY - ps_head st)) (MutableIoBuffer_remaining buf)"
    define bs where "bs = take chunk (drop (ps_head st) (ps_buffer st))"
    define st1 where "st1 = st\<lparr>ps_head := (ps_head st + chunk) mod PIPE_CAPACITY, ps_len := ps_len st - chunk\<rparr>"
    define buf1 where "buf1 = snd (MutableIoBuffer_push bs buf)"
    have h: "ps_head st < PIPE_CAPACITY" "length (ps_buffer st) = PIPE_CAPACITY" using 1(2) by (auto simp: pipe_ok_def)
    have c: "chunk \<le> ps_len st" "ps_head st + chunk \<le> PIPE_CAPACITY" "chunk \<le> MutableIoBuffer_remaining buf" "0 < chunk"
      using h(1) True by (auto simp: chunk_def)
    have len: "length bs = chunk" using c(2) h(2) by (simp add: bs_def)
    note p = MutableIoBuffer_push_eq [OF 1(3), of bs, unfolded len, OF c(3), folded buf1_def]
    have push: "MutableIoBuffer_push bs buf = (chunk, buf1)" using p(5) by (simp add: buf1_def prod_eq_iff)
    have sl: "slice_get (ps_buffer st) (ps_head st) (ps_head st + chunk) = Some bs" using c(2) h(2) by (simp add: slice_get_def bs_def)
    have step: "read_loop st buf copied = read_loop st1 buf1 (copied + chunk)"
      using True h(1) sl push by (subst read_loop.simps) (simp add: Let_def chunk_def [symmetric] st1_def [symmetric])
    have ok1: "pipe_ok st1" using 1(2) by (auto simp: pipe_ok_def st1_def)
    have front: "bs = take chunk (pipe_content st)" "pipe_content st1 = drop chunk (pipe_content st)"
      using pipe_content_chunk [OF 1(2) c(1,2)] by (simp_all add: bs_def st1_def)
    have len1: "ps_len st1 < ps_len st" "ps_len st1 = ps_len st - chunk" using c(1,4) by (simp_all add: st1_def)
    have n: "min (ps_len st) (MutableIoBuffer_remaining buf) = chunk + min (ps_len st1) (MutableIoBuffer_remaining buf1)"
      using c(1,3) p(4) len1(2) by simp
    show ?thesis unfolding step n
      using 1(1) [OF len1(1) ok1 p(1), of "copied + chunk"] p(2) front
      by (auto simp: add.assoc take_add [symmetric] add.commute [of chunk] st1_def)
  next
    case False
    then have "min (ps_len st) (MutableIoBuffer_remaining buf) = 0" by auto
    then show ?thesis using False 1(2,3) by (subst read_loop.simps) auto
  qed
qed

text \<open>Adding a piece at the end: the cells that are written are not part of the content.\<close>

lemma pipe_content_append:
  assumes ok: "pipe_ok st" and tail: "tail = (ps_head st + ps_len st) mod PIPE_CAPACITY"
    and fits: "tail + length bs \<le> PIPE_CAPACITY" "ps_len st + length bs \<le> PIPE_CAPACITY"
  defines "st' \<equiv> st\<lparr>ps_buffer := take tail (ps_buffer st) @ bs @ drop (tail + length bs) (ps_buffer st), ps_len := ps_len st + length bs\<rparr>"
  shows "pipe_content st' = pipe_content st @ bs" "pipe_ok st'"
proof -
  have len: "length (ps_buffer st) = PIPE_CAPACITY" "ps_len st \<le> PIPE_CAPACITY" using ok by (auto simp: pipe_ok_def)
  have cell: "ps_buffer st' ! k = (if tail \<le> k \<and> k < tail + length bs then bs ! (k - tail) else ps_buffer st ! k)"
    if "k < PIPE_CAPACITY" for k
    using that len fits(1) by (auto simp: st'_def nth_append min_def)
  have inside: "(ps_head st + (ps_len st + j)) mod PIPE_CAPACITY = tail + j" if "j < length bs" for j
  proof -
    have "(ps_head st + (ps_len st + j)) mod PIPE_CAPACITY = (tail + j) mod PIPE_CAPACITY"
      unfolding tail by (simp add: mod_add_left_eq add.assoc)
    then show ?thesis using that fits(1) by simp
  qed
  have outside: "\<not> (tail \<le> (ps_head st + i) mod PIPE_CAPACITY \<and> (ps_head st + i) mod PIPE_CAPACITY < tail + length bs)" if "i < ps_len st" for i
  proof
    assume a: "tail \<le> (ps_head st + i) mod PIPE_CAPACITY \<and> (ps_head st + i) mod PIPE_CAPACITY < tail + length bs"
    define j where "j = (ps_head st + i) mod PIPE_CAPACITY - tail"
    have j: "j < length bs" "(ps_head st + i) mod PIPE_CAPACITY = tail + j" using a by (auto simp: j_def)
    have "i = ps_len st + j"
      by (rule ring_index_eq [of _ _ "ps_head st"]) (use that len j inside [OF j(1)] fits(2) in auto)
    then show False using that by simp
  qed
  show "pipe_content st' = pipe_content st @ bs"
  proof (rule nth_equalityI)
    fix i assume "i < length (pipe_content st')"
    then have i: "i < ps_len st + length bs" by (simp add: st'_def)
    have "pipe_content st' ! i = ps_buffer st' ! ((ps_head st + i) mod PIPE_CAPACITY)" using i by (simp add: pipe_content_def st'_def)
    also have "\<dots> = (pipe_content st @ bs) ! i"
    proof (cases "i < ps_len st")
      case True
      then show ?thesis using outside [OF True] by (subst cell) (auto simp: pipe_content_def nth_append)
    next
      case False
      then have "(ps_head st + i) mod PIPE_CAPACITY = tail + (i - ps_len st)" using inside [of "i - ps_len st"] i by simp
      then show ?thesis using False i fits(1) by (subst cell) (auto simp: nth_append)
    qed
    finally show "pipe_content st' ! i = (pipe_content st @ bs) ! i" .
  qed (simp add: st'_def)
  show "pipe_ok st'" using ok len fits by (auto simp: pipe_ok_def st'_def)
qed

lemma write_loop_spec:
  assumes "pipe_ok st" "copied \<le> length input"
  defines "n \<equiv> min (length input - copied) (PIPE_CAPACITY - ps_len st)"
  shows "\<exists>st'. write_loop input st copied = Ok (copied + n, st') \<and> pipe_ok st'
    \<and> pipe_content st' = pipe_content st @ take n (drop copied input) \<and> ps_readers st' = ps_readers st \<and> ps_writers st' = ps_writers st"
  using assms(1,2) unfolding n_def
proof (induction "length input - copied" arbitrary: st copied rule: less_induct)
  case less
  show ?case
  proof (cases "copied < length input \<and> ps_len st < PIPE_CAPACITY")
    case True
    define tail where "tail = (ps_head st + ps_len st) mod PIPE_CAPACITY"
    define w where "w = (if ps_head st \<le> tail then PIPE_CAPACITY - tail else ps_head st - tail)"
    define chunk where "chunk = min (min w (PIPE_CAPACITY - ps_len st)) (length input - copied)"
    define bs where "bs = take chunk (drop copied input)"
    define st1 where "st1 = st\<lparr>ps_buffer := take tail (ps_buffer st) @ bs @ drop (tail + chunk) (ps_buffer st), ps_len := ps_len st + chunk\<rparr>"
    have t: "tail < PIPE_CAPACITY" "ps_head st < PIPE_CAPACITY" using less.prems(1) by (auto simp: tail_def pipe_ok_def)
    have c: "0 < chunk" "tail + chunk \<le> PIPE_CAPACITY" "ps_len st + chunk \<le> PIPE_CAPACITY" "copied + chunk \<le> length input"
      using t True by (auto simp: chunk_def w_def)
    have len: "length bs = chunk" using c(4) by (simp add: bs_def)
    note app = pipe_content_append [OF less.prems(1) tail_def, of bs, unfolded len, OF c(2,3), folded st1_def]
    have step: "write_loop input st copied = write_loop input st1 (copied + chunk)"
      using True c(2) less.prems(1)
      by (subst write_loop.simps) (simp add: Let_def tail_def [symmetric] w_def [symmetric] chunk_def [symmetric] bs_def [symmetric]
          st1_def [symmetric] pipe_ok_def)
    have n: "min (length input - copied) (PIPE_CAPACITY - ps_len st) = chunk + min (length input - (copied + chunk)) (PIPE_CAPACITY - ps_len st1)"
      using c(3,4) by (auto simp: st1_def)
    define m where "m = min (length input - (copied + chunk)) (PIPE_CAPACITY - ps_len st1)"
    have "length input - (copied + chunk) < length input - copied" using c(1,4) by linarith
    from less.hyps [OF this app(2) c(4)] obtain st' where
      st': "write_loop input st1 (copied + chunk) = Ok (copied + chunk + m, st')" "pipe_ok st'"
        "pipe_content st' = pipe_content st1 @ take m (drop (copied + chunk) input)" "ps_readers st' = ps_readers st" "ps_writers st' = ps_writers st"
      by (auto simp: m_def st1_def)
    have "take (chunk + m) (drop copied input) = bs @ take m (drop (copied + chunk) input)"
      by (simp add: take_add bs_def add.commute)
    then show ?thesis unfolding step n m_def [symmetric] using st' app(1) by (simp add: add.assoc)
  next
    case False
    then have "min (length input - copied) (PIPE_CAPACITY - ps_len st) = 0" by auto
    then show ?thesis using False less.prems by (subst write_loop.simps) auto
  qed
qed

end
