(* ===== verification/Pipe_Threads.thy ===== *)
theory Pipe_Threads
  imports Pipe
begin

text \<open>
  Threads that share a pipe. A step is one critical section of the state lock, one change of a counter, or one
  transaction of the scheduler on a wait queue; steps of different threads interleave arbitrarily. The bytes accepted
  and the bytes delivered are recorded, and so is the number of changes of each counter.
\<close>

section \<open>The step relation\<close>

datatype pipe_thread =
    Idle
  | Reading bool MutableIoBuffer
  | ReadSleeping MutableIoBuffer u64
  | ReadBlocked MutableIoBuffer
  | ReadResumed MutableIoBuffer
  | Writing bool bytes usize
  | WriteSleeping bytes u64
  | WriteBlocked bytes
  | WriteResumed bytes
  | BumpReaders pipe_thread
  | WakeReaders pipe_thread
  | BumpWriters pipe_thread
  | WakeWriters pipe_thread

record pipe_sys =
  sys_pipe :: Pipe
  sys_threads :: "nat \<Rightarrow> pipe_thread"
  sys_written :: bytes
  sys_read :: bytes
  sys_read_bumps :: nat
  sys_write_bumps :: nat

abbreviation goto :: "nat \<Rightarrow> pipe_thread \<Rightarrow> pipe_sys \<Rightarrow> pipe_sys" where
  "goto t th s \<equiv> s\<lparr>sys_threads := (sys_threads s)(t := th)\<rparr>"

fun resume_reader :: "pipe_thread \<Rightarrow> pipe_thread" where
  "resume_reader (ReadBlocked buf) = ReadResumed buf"
| "resume_reader th = th"

fun resume_writer :: "pipe_thread \<Rightarrow> pipe_thread" where
  "resume_writer (WriteBlocked input) = WriteResumed input"
| "resume_writer th = th"

inductive pipe_step :: "pipe_sys \<Rightarrow> pipe_sys \<Rightarrow> bool" where
  start_read: "sys_threads s t = Idle \<Longrightarrow> buf_ok buf \<Longrightarrow> pipe_step s (goto t (Reading nonblock buf) s)"
| read_return: "sys_threads s t = Reading nonblock buf \<Longrightarrow> read_section nonblock can_block (sys_pipe s) buf = (Return r, p, buf')
    \<Longrightarrow> pipe_step s (goto t Idle s)"
| read_block: "sys_threads s t = Reading nonblock buf \<Longrightarrow> read_section nonblock can_block (sys_pipe s) buf = (Block e, p, buf')
    \<Longrightarrow> pipe_step s (goto t (ReadSleeping buf e) s)"
| read_copied: "sys_threads s t = Reading nonblock buf \<Longrightarrow> read_section nonblock can_block (sys_pipe s) buf = (Copied n, p, buf')
    \<Longrightarrow> pipe_step s (goto t (BumpWriters Idle) s\<lparr>sys_pipe := p,
          sys_read := sys_read s @ drop (length (MutableIoBuffer_filled_bytes buf)) (MutableIoBuffer_filled_bytes buf')\<rparr>)"
| read_sleep: "sys_threads s t = ReadSleeping buf e \<Longrightarrow> pipe_read_epoch (sys_pipe s) = e \<Longrightarrow> pipe_step s (goto t (ReadBlocked buf) s)"
| read_stay: "sys_threads s t = ReadSleeping buf e \<Longrightarrow> pipe_read_epoch (sys_pipe s) \<noteq> e \<Longrightarrow> pipe_step s (goto t (ReadResumed buf) s)"
| read_again: "sys_threads s t = ReadResumed buf \<Longrightarrow> pipe_step s (goto t (Reading False buf) s)"
| read_interrupted: "sys_threads s t = ReadResumed buf \<Longrightarrow> pipe_step s (goto t Idle s)"
| start_write: "sys_threads s t = Idle \<Longrightarrow> pipe_step s (goto t (Writing nonblock input 0) s)"
| write_done: "sys_threads s t = Writing nonblock input copied \<Longrightarrow> length input \<le> copied \<Longrightarrow> pipe_step s (goto t Idle s)"
| write_return: "sys_threads s t = Writing nonblock input copied \<Longrightarrow> copied < length input
    \<Longrightarrow> write_section nonblock can_block input copied (sys_pipe s) = (Return r, p) \<Longrightarrow> pipe_step s (goto t Idle s)"
| write_full: "sys_threads s t = Writing nonblock input copied \<Longrightarrow> copied < length input
    \<Longrightarrow> write_section nonblock can_block input copied (sys_pipe s) = (Full n, p) \<Longrightarrow> pipe_step s (goto t (BumpReaders Idle) s)"
| write_block: "sys_threads s t = Writing nonblock input copied \<Longrightarrow> copied < length input
    \<Longrightarrow> write_section nonblock can_block input copied (sys_pipe s) = (Block e, p) \<Longrightarrow> pipe_step s (goto t (WriteSleeping input e) s)"
| write_copied: "sys_threads s t = Writing nonblock input copied \<Longrightarrow> copied < length input
    \<Longrightarrow> write_section nonblock can_block input copied (sys_pipe s) = (Copied n, p)
    \<Longrightarrow> pipe_step s (goto t (BumpReaders (Writing nonblock input n)) s\<lparr>sys_pipe := p,
          sys_written := sys_written s @ take (n - copied) (drop copied input)\<rparr>)"
| write_sleep: "sys_threads s t = WriteSleeping input e \<Longrightarrow> pipe_write_epoch (sys_pipe s) = e \<Longrightarrow> pipe_step s (goto t (WriteBlocked input) s)"
| write_stay: "sys_threads s t = WriteSleeping input e \<Longrightarrow> pipe_write_epoch (sys_pipe s) \<noteq> e \<Longrightarrow> pipe_step s (goto t (WriteResumed input) s)"
| write_again: "sys_threads s t = WriteResumed input \<Longrightarrow> pipe_step s (goto t (Writing False input 0) s)"
| write_interrupted: "sys_threads s t = WriteResumed input \<Longrightarrow> pipe_step s (goto t Idle s)"
| close_reader: "sys_threads s t = Idle \<Longrightarrow> f \<in> {Pipe_close_reader, Pipe_exit_reader}
    \<Longrightarrow> pipe_step s (goto t (BumpWriters Idle) s\<lparr>sys_pipe := f (sys_pipe s)\<rparr>)"
| close_writer: "sys_threads s t = Idle \<Longrightarrow> f \<in> {Pipe_close_writer, Pipe_exit_writer}
    \<Longrightarrow> pipe_step s (goto t (BumpReaders Idle) s\<lparr>sys_pipe := f (sys_pipe s)\<rparr>)"
| bump_readers: "sys_threads s t = BumpReaders k
    \<Longrightarrow> pipe_step s (goto t (WakeReaders k) s\<lparr>sys_pipe := bump_read_epoch (sys_pipe s), sys_read_bumps := Suc (sys_read_bumps s)\<rparr>)"
| wake_readers: "sys_threads s t = WakeReaders k
    \<Longrightarrow> pipe_step s (s\<lparr>sys_threads := (\<lambda>u. resume_reader (sys_threads s u))(t := k)\<rparr>)"
| bump_writers: "sys_threads s t = BumpWriters k
    \<Longrightarrow> pipe_step s (goto t (WakeWriters k) s\<lparr>sys_pipe := bump_write_epoch (sys_pipe s), sys_write_bumps := Suc (sys_write_bumps s)\<rparr>)"
| wake_writers: "sys_threads s t = WakeWriters k
    \<Longrightarrow> pipe_step s (s\<lparr>sys_threads := (\<lambda>u. resume_writer (sys_threads s u))(t := k)\<rparr>)"

definition pipe_init :: pipe_sys where
  "pipe_init = \<lparr>sys_pipe = Pipe_new, sys_threads = (\<lambda>_. Idle), sys_written = [], sys_read = [],
     sys_read_bumps = 0, sys_write_bumps = 0\<rparr>"

definition pipe_reachable :: "pipe_sys \<Rightarrow> bool" where
  "pipe_reachable s \<longleftrightarrow> pipe_step\<^sup>*\<^sup>* pipe_init s"

section \<open>The content\<close>

text \<open>The data a thread carries: buffers are well formed and no more is copied than there is; only top level calls continue.\<close>

fun thread_ok :: "pipe_thread \<Rightarrow> bool" where
  "thread_ok (Reading _ buf) = buf_ok buf"
| "thread_ok (ReadSleeping buf _) = buf_ok buf"
| "thread_ok (ReadBlocked buf) = buf_ok buf"
| "thread_ok (ReadResumed buf) = buf_ok buf"
| "thread_ok (Writing _ input copied) = (copied \<le> length input)"
| "thread_ok (BumpReaders k) = (case k of Idle \<Rightarrow> True | Writing _ input copied \<Rightarrow> copied \<le> length input | _ \<Rightarrow> False)"
| "thread_ok (WakeReaders k) = (case k of Idle \<Rightarrow> True | Writing _ input copied \<Rightarrow> copied \<le> length input | _ \<Rightarrow> False)"
| "thread_ok (BumpWriters k) = (k = Idle)"
| "thread_ok (WakeWriters k) = (k = Idle)"
| "thread_ok _ = True"

definition stream_inv :: "pipe_sys \<Rightarrow> bool" where
  "stream_inv s \<longleftrightarrow> pipe_ok (pipe_state (sys_pipe s)) \<and> (\<forall>t. thread_ok (sys_threads s t))
     \<and> sys_written s = sys_read s @ pipe_content (pipe_state (sys_pipe s))"

lemma read_section_Copied:
  assumes "read_section nb cb p buf = (Copied n, p', buf')" "pipe_ok (pipe_state p)" "buf_ok buf"
  shows "n = min (ps_len (pipe_state p)) (MutableIoBuffer_remaining buf)" "ps_len (pipe_state p) \<noteq> 0" "pipe_ok (pipe_state p')"
    "MutableIoBuffer_filled_bytes buf' = MutableIoBuffer_filled_bytes buf @ take n (pipe_content (pipe_state p))"
    "pipe_content (pipe_state p') = drop n (pipe_content (pipe_state p))"
    "ps_readers (pipe_state p') = ps_readers (pipe_state p)" "ps_writers (pipe_state p') = ps_writers (pipe_state p)"
    "pipe_read_epoch p' = pipe_read_epoch p" "pipe_write_epoch p' = pipe_write_epoch p"
  using read_loop_spec [OF assms(2,3), of 0] assms(1) by (auto simp: read_section_def Let_def split: if_splits)

lemma write_section_Copied:
  assumes "write_section nb cb input c p = (Copied n, p')" "pipe_ok (pipe_state p)" "c \<le> length input"
  shows "n = c + min (length input - c) (PIPE_CAPACITY - ps_len (pipe_state p))" "ps_readers (pipe_state p) \<noteq> 0" "pipe_ok (pipe_state p')"
    "pipe_content (pipe_state p') = pipe_content (pipe_state p) @ take (n - c) (drop c input)"
    "ps_readers (pipe_state p') = ps_readers (pipe_state p)" "ps_writers (pipe_state p') = ps_writers (pipe_state p)"
    "pipe_read_epoch p' = pipe_read_epoch p" "pipe_write_epoch p' = pipe_write_epoch p"
  using write_loop_spec [OF assms(2,3)] assms(1) by (auto simp: write_section_def Let_def split: if_splits)

lemma read_section_no_panic:
  "pipe_ok (pipe_state p) \<Longrightarrow> buf_ok buf \<Longrightarrow> fst (read_section nb cb p buf) \<noteq> Return Panic"
  using read_loop_spec [of "pipe_state p" buf 0] by (auto simp: read_section_def Let_def)

lemma write_section_no_panic:
  "pipe_ok (pipe_state p) \<Longrightarrow> c \<le> length input \<Longrightarrow> fst (write_section nb cb input c p) \<noteq> Return Panic"
  using write_loop_spec [of "pipe_state p" c input] by (auto simp: write_section_def Let_def)

lemma close_state:
  assumes "f \<in> {Pipe_close_reader, Pipe_exit_reader}" shows "pipe_ok (pipe_state (f p)) = pipe_ok (pipe_state p)"
    "pipe_content (pipe_state (f p)) = pipe_content (pipe_state p)" "ps_writers (pipe_state (f p)) = ps_writers (pipe_state p)"
    "ps_len (pipe_state (f p)) = ps_len (pipe_state p)"
    "pipe_read_epoch (f p) = pipe_read_epoch p" "pipe_write_epoch (f p) = pipe_write_epoch p"
  using assms by (auto simp: Pipe_close_reader_def Pipe_exit_reader_def on_state_def pipe_ok_def pipe_content_def)

lemma close_writer_state:
  assumes "f \<in> {Pipe_close_writer, Pipe_exit_writer}" shows "pipe_ok (pipe_state (f p)) = pipe_ok (pipe_state p)"
    "pipe_content (pipe_state (f p)) = pipe_content (pipe_state p)" "ps_readers (pipe_state (f p)) = ps_readers (pipe_state p)"
    "ps_len (pipe_state (f p)) = ps_len (pipe_state p)"
    "pipe_read_epoch (f p) = pipe_read_epoch p" "pipe_write_epoch (f p) = pipe_write_epoch p"
  using assms by (auto simp: Pipe_close_writer_def Pipe_exit_writer_def on_state_def pipe_ok_def pipe_content_def)

lemma bump_state [simp]:
  "pipe_state (bump_read_epoch p) = pipe_state p" "pipe_state (bump_write_epoch p) = pipe_state p"
  "pipe_write_epoch (bump_read_epoch p) = pipe_write_epoch p" "pipe_read_epoch (bump_write_epoch p) = pipe_read_epoch p"
  by (simp_all add: bump_read_epoch_def bump_write_epoch_def)

lemma thread_ok_resume: "thread_ok (resume_reader th) = thread_ok th" "thread_ok (resume_writer th) = thread_ok th"
  by (cases th; simp)+

lemma thread_ok_next:
  "thread_ok (WakeReaders k) \<Longrightarrow> thread_ok k" "thread_ok (WakeWriters k) \<Longrightarrow> thread_ok k"
  "thread_ok (BumpReaders k) \<Longrightarrow> thread_ok (WakeReaders k)" "thread_ok (BumpWriters k) \<Longrightarrow> thread_ok (WakeWriters k)"
  by (cases k; simp)+

lemma stream_inv_goto: "stream_inv s \<Longrightarrow> thread_ok th \<Longrightarrow> stream_inv (goto t th s)"
  by (simp add: stream_inv_def)

lemma stream_thread: "stream_inv s \<Longrightarrow> sys_threads s t = th \<Longrightarrow> thread_ok th"
  by (auto simp: stream_inv_def)

lemma stream_inv_step:
  assumes "pipe_step s s'" "stream_inv s"
  shows "stream_inv s'"
  using assms(1)
proof cases
  case (read_copied t nonblock buf can_block n p buf')
  from stream_thread [OF assms(2) read_copied(2)] have ok: "pipe_ok (pipe_state (sys_pipe s))" "buf_ok buf" using assms(2) by (auto simp: stream_inv_def)
  note c = read_section_Copied [OF read_copied(3) ok]
  show ?thesis using assms(2) unfolding read_copied(1) by (simp add: stream_inv_def c(3-5))
next
  case (write_copied t nonblock input copied can_block n p)
  have ok: "pipe_ok (pipe_state (sys_pipe s))" "copied \<le> length input" using assms(2) write_copied(3) by (auto simp: stream_inv_def)
  note c = write_section_Copied [OF write_copied(4) ok]
  have "n \<le> length input" using c(1) ok(2) by auto
  then show ?thesis using assms(2) unfolding write_copied(1) by (simp add: stream_inv_def c(3,4))
next
  case (bump_readers t k)
  then have "thread_ok (BumpReaders k)" using stream_thread [OF assms(2)] by blast
  then show ?thesis using assms(2) thread_ok_next(3) unfolding bump_readers(1) by (simp add: stream_inv_def)
next
  case (wake_readers t k)
  then have "thread_ok (WakeReaders k)" using stream_thread [OF assms(2)] by blast
  then show ?thesis using assms(2) thread_ok_next(1) unfolding wake_readers(1) by (simp add: stream_inv_def thread_ok_resume)
next
  case (bump_writers t k)
  then have "thread_ok (BumpWriters k)" using stream_thread [OF assms(2)] by blast
  then show ?thesis using assms(2) thread_ok_next(4) unfolding bump_writers(1) by (simp add: stream_inv_def)
next
  case (wake_writers t k)
  then have "thread_ok (WakeWriters k)" using stream_thread [OF assms(2)] by blast
  then show ?thesis using assms(2) thread_ok_next(2) unfolding wake_writers(1) by (simp add: stream_inv_def thread_ok_resume)
next
  case (close_reader t f)
  then show ?thesis using assms(2) by (simp add: stream_inv_def close_state)
next
  case (close_writer t f)
  then show ?thesis using assms(2) by (simp add: stream_inv_def close_writer_state)
qed (use assms(2) in \<open>auto intro!: stream_inv_goto dest: stream_thread\<close>)

lemma reachable_stream_inv:
  assumes "pipe_reachable s"
  shows "stream_inv s"
  using assms unfolding pipe_reachable_def
proof (induction rule: rtranclp_induct)
  case base
  then show ?case by (simp add: stream_inv_def pipe_init_def Pipe_new_def pipe_ok_def pipe_content_def)
qed (rule stream_inv_step)

section \<open>Sleeping and waking\<close>

text \<open>
  One side of the protocol. A thread that found nothing to do has noted the counter (\<open>sleeping\<close>); it sleeps if the
  counter has not moved (\<open>blocked\<close>); a thread that made the condition true moves the counter (\<open>bumping\<close>) and then
  wakes the queue (\<open>waking\<close>).
\<close>

locale wake_protocol =
  fixes sleeping :: "'th \<Rightarrow> nat option" and blocked bumping waking :: "'th \<Rightarrow> bool"
  assumes exclusive: "bumping x \<or> waking x \<Longrightarrow> sleeping x = None \<and> \<not> blocked x"
begin

definition wait_ok :: "bool \<Rightarrow> nat \<Rightarrow> (nat \<Rightarrow> 'th) \<Rightarrow> bool" where
  "wait_ok ready n th \<longleftrightarrow>
     (\<forall>t e. sleeping (th t) = Some e \<longrightarrow> e \<le> n \<and> (ready \<longrightarrow> e = n \<longrightarrow> (\<exists>u. bumping (th u))))
     \<and> (ready \<longrightarrow> (\<exists>t. blocked (th t)) \<longrightarrow> (\<exists>u. bumping (th u) \<or> waking (th u)))"

text \<open>A thread that takes no part in the protocol, or that makes the condition true and announces it.\<close>

lemma wait_ok_other:
  assumes "wait_ok ready n th" "\<not> bumping (th t)" "\<not> waking (th t)" "sleeping x = None" "\<not> blocked x" "ready' \<Longrightarrow> ready \<or> bumping x"
  shows "wait_ok ready' n (th(t := x))"
  using assms unfolding wait_ok_def by (metis fun_upd_apply option.distinct(1))

lemma wait_ok_same:
  assumes "wait_ok ready n th" "\<not> bumping (th t)" "\<not> waking (th t)" "sleeping x = None" "\<not> blocked x"
  shows "wait_ok ready n (th(t := x))"
  using wait_ok_other [OF assms] by blast

lemma wait_ok_sleep:
  assumes "wait_ok ready n th" "\<not> ready" "sleeping x = Some n" "\<not> blocked x"
  shows "wait_ok ready n (th(t := x))"
  using assms unfolding wait_ok_def by auto

lemma wait_ok_block:
  assumes "wait_ok ready n th" "sleeping (th t) = Some n" "sleeping x = None" "blocked x"
  shows "wait_ok ready n (th(t := x))"
proof -
  have b: "ready \<Longrightarrow> \<exists>u. u \<noteq> t \<and> bumping (th u)" using assms(1,2) exclusive unfolding wait_ok_def by (metis option.distinct(1))
  then show ?thesis using assms unfolding wait_ok_def by (metis fun_upd_apply option.distinct(1))
qed

lemma wait_ok_bump:
  assumes "wait_ok ready n th" "waking x"
  shows "wait_ok ready (Suc n) (th(t := x))"
  using assms exclusive [of x] unfolding wait_ok_def
  by (metis Suc_n_not_le_n fun_upd_apply le_SucI option.distinct(1))

lemma wait_ok_wake:
  assumes "wait_ok ready n th" "\<not> bumping (th t)" "\<And>u. u \<noteq> t \<Longrightarrow> sleeping (th' u) = sleeping (th u) \<and> bumping (th' u) = bumping (th u)"
    and "\<And>u. \<not> blocked (th' u)" "sleeping (th' t) = None"
  shows "wait_ok ready n th'"
  using assms unfolding wait_ok_def by (metis option.distinct(1))

lemma no_lost_wakeup:
  assumes "wait_ok ready n th" "\<And>u. \<not> bumping (th u) \<and> \<not> waking (th u)" "blocked (th t)"
  shows "\<not> ready"
  using assms unfolding wait_ok_def by blast

end

text \<open>The two sides of a pipe.\<close>

fun read_sleeping :: "pipe_thread \<Rightarrow> nat option" where
  "read_sleeping (ReadSleeping _ e) = Some e"
| "read_sleeping _ = None"

fun write_sleeping :: "pipe_thread \<Rightarrow> nat option" where
  "write_sleeping (WriteSleeping _ e) = Some e"
| "write_sleeping _ = None"

fun read_blocked :: "pipe_thread \<Rightarrow> bool" where
  "read_blocked (ReadBlocked _) = True"
| "read_blocked _ = False"

fun write_blocked :: "pipe_thread \<Rightarrow> bool" where
  "write_blocked (WriteBlocked _) = True"
| "write_blocked _ = False"

fun bumping_readers :: "pipe_thread \<Rightarrow> bool" where
  "bumping_readers (BumpReaders _) = True"
| "bumping_readers _ = False"

fun bumping_writers :: "pipe_thread \<Rightarrow> bool" where
  "bumping_writers (BumpWriters _) = True"
| "bumping_writers _ = False"

fun waking_readers :: "pipe_thread \<Rightarrow> bool" where
  "waking_readers (WakeReaders _) = True"
| "waking_readers _ = False"

fun waking_writers :: "pipe_thread \<Rightarrow> bool" where
  "waking_writers (WakeWriters _) = True"
| "waking_writers _ = False"

interpretation reader: wake_protocol read_sleeping read_blocked bumping_readers waking_readers
proof
  fix x assume "bumping_readers x \<or> waking_readers x"
  then show "read_sleeping x = None \<and> \<not> read_blocked x" by (cases x) auto
qed

interpretation writer: wake_protocol write_sleeping write_blocked bumping_writers waking_writers
proof
  fix x assume "bumping_writers x \<or> waking_writers x"
  then show "write_sleeping x = None \<and> \<not> write_blocked x" by (cases x) auto
qed

definition can_read :: "PipeState \<Rightarrow> bool" where
  "can_read st \<longleftrightarrow> ps_len st \<noteq> 0 \<or> ps_writers st = 0"

definition can_write :: "PipeState \<Rightarrow> bool" where
  "can_write st \<longleftrightarrow> ps_len st < PIPE_CAPACITY \<or> ps_readers st = 0"

definition sync_inv :: "pipe_sys \<Rightarrow> bool" where
  "sync_inv s \<longleftrightarrow> pipe_read_epoch (sys_pipe s) = sys_read_bumps s mod 2 ^ 64 \<and> pipe_write_epoch (sys_pipe s) = sys_write_bumps s mod 2 ^ 64
     \<and> reader.wait_ok (can_read (pipe_state (sys_pipe s))) (sys_read_bumps s) (sys_threads s)
     \<and> writer.wait_ok (can_write (pipe_state (sys_pipe s))) (sys_write_bumps s) (sys_threads s)"

fun active :: "pipe_thread \<Rightarrow> bool" where
  "active (BumpReaders _) = True"
| "active (WakeReaders _) = True"
| "active (BumpWriters _) = True"
| "active (WakeWriters _) = True"
| "active _ = False"

lemma not_active: "\<not> active th \<Longrightarrow> \<not> bumping_readers th \<and> \<not> waking_readers th \<and> \<not> bumping_writers th \<and> \<not> waking_writers th"
  by (cases th) auto

text \<open>Steps that leave the counters alone and change one thread that is not waking others.\<close>

lemma sync_inv_thread:
  assumes "sync_inv s" "\<not> active (sys_threads s t)"
    and "read_sleeping th = None" "\<not> read_blocked th" "write_sleeping th = None" "\<not> write_blocked th"
    and "pipe_read_epoch p = pipe_read_epoch (sys_pipe s)" "pipe_write_epoch p = pipe_write_epoch (sys_pipe s)"
    and "can_read (pipe_state p) \<Longrightarrow> can_read (pipe_state (sys_pipe s)) \<or> bumping_readers th"
    and "can_write (pipe_state p) \<Longrightarrow> can_write (pipe_state (sys_pipe s)) \<or> bumping_writers th"
  shows "sync_inv (goto t th s\<lparr>sys_pipe := p, sys_written := a, sys_read := b\<rparr>)"
proof -
  have "reader.wait_ok (can_read (pipe_state (sys_pipe s))) (sys_read_bumps s) (sys_threads s)"
    "writer.wait_ok (can_write (pipe_state (sys_pipe s))) (sys_write_bumps s) (sys_threads s)" using assms(1) by (auto simp: sync_inv_def)
  from reader.wait_ok_other [OF this(1) _ _ assms(3,4,9)] writer.wait_ok_other [OF this(2) _ _ assms(5,6,10)]
  show ?thesis using assms(1,7,8) not_active [OF assms(2)] by (simp add: sync_inv_def)
qed

lemma sync_inv_goto:
  assumes "sync_inv s" "\<not> active (sys_threads s t)"
    and "read_sleeping th = None" "\<not> read_blocked th" "write_sleeping th = None" "\<not> write_blocked th"
  shows "sync_inv (goto t th s)"
  using sync_inv_thread [OF assms, where p = "sys_pipe s" and a = "sys_written s" and b = "sys_read s"] by simp

lemma resume_classes:
  "read_sleeping (resume_reader x) = read_sleeping x" "bumping_readers (resume_reader x) = bumping_readers x" "\<not> read_blocked (resume_reader x)"
  "write_sleeping (resume_reader x) = write_sleeping x" "write_blocked (resume_reader x) = write_blocked x"
  "bumping_writers (resume_reader x) = bumping_writers x" "waking_writers (resume_reader x) = waking_writers x"
  "write_sleeping (resume_writer x) = write_sleeping x" "bumping_writers (resume_writer x) = bumping_writers x" "\<not> write_blocked (resume_writer x)"
  "read_sleeping (resume_writer x) = read_sleeping x" "read_blocked (resume_writer x) = read_blocked x"
  "bumping_readers (resume_writer x) = bumping_readers x" "waking_readers (resume_writer x) = waking_readers x"
  by (cases x; simp)+

lemma resume_other_side:
  "writer.wait_ok ready n (\<lambda>u. resume_reader (th u)) = writer.wait_ok ready n th"
  "reader.wait_ok ready n (\<lambda>u. resume_writer (th u)) = reader.wait_ok ready n th"
  by (simp_all add: writer.wait_ok_def reader.wait_ok_def resume_classes)

lemma thread_ok_awake:
  "thread_ok (WakeReaders k) \<or> thread_ok (WakeWriters k) \<Longrightarrow>
    read_sleeping k = None \<and> \<not> read_blocked k \<and> write_sleeping k = None \<and> \<not> write_blocked k"
  by (cases k) auto

lemma sync_inv_step:
  assumes "pipe_step s s'" "stream_inv s" "sync_inv s" "sys_read_bumps s' < 2 ^ 64" "sys_write_bumps s' < 2 ^ 64"
  shows "sync_inv s'"
  using assms(1)
proof cases
  case (read_block t nonblock buf can_block e p buf')
  then have "e = sys_read_bumps s" "\<not> can_read (pipe_state (sys_pipe s))"
    using assms(3-5) by (auto simp: read_section_def Let_def can_read_def sync_inv_def split: if_splits result.splits)
  then show ?thesis using assms(3) read_block(1,2) 
    by (simp add: sync_inv_def reader.wait_ok_sleep writer.wait_ok_same)
next
  case (read_copied t nonblock buf can_block n p buf')
  from stream_thread [OF assms(2) read_copied(2)] have ok: "pipe_ok (pipe_state (sys_pipe s))" "buf_ok buf"
    using assms(2) by (auto simp: stream_inv_def)
  note c = read_section_Copied [OF read_copied(3) ok]
  have "can_read (pipe_state p) \<Longrightarrow> can_read (pipe_state (sys_pipe s))" using c(2) by (simp add: can_read_def)
  then show ?thesis unfolding read_copied(1)
    using sync_inv_thread [OF assms(3), where t = t and th = "BumpWriters Idle" and p = p and a = "sys_written s"] read_copied(2) c(8,9) by simp
next
  case (read_sleep t buf e)
  then show ?thesis using assms(3-5) by (simp add: sync_inv_def reader.wait_ok_block writer.wait_ok_same)
next
  case (write_block t nonblock input copied can_block e p)
  then have "e = sys_write_bumps s" "\<not> can_write (pipe_state (sys_pipe s))"
    using assms(3-5) by (auto simp: write_section_def Let_def can_write_def sync_inv_def split: if_splits result.splits)
  then show ?thesis using assms(3) write_block(1,2) 
    by (simp add: sync_inv_def writer.wait_ok_sleep reader.wait_ok_same)
next
  case (write_copied t nonblock input copied can_block n p)
  have ok: "pipe_ok (pipe_state (sys_pipe s))" "copied \<le> length input" using assms(2) write_copied(3) by (auto simp: stream_inv_def)
  note c = write_section_Copied [OF write_copied(4) ok]
  have "ps_len (pipe_state (sys_pipe s)) \<le> ps_len (pipe_state p)" using arg_cong [OF c(4), of length] by simp
  then have "can_write (pipe_state p) \<Longrightarrow> can_write (pipe_state (sys_pipe s))" using c(5) by (auto simp: can_write_def)
  then show ?thesis unfolding write_copied(1)
    using sync_inv_thread [OF assms(3), where t = t and th = "BumpReaders (Writing nonblock input n)" and p = p and b = "sys_read s"] write_copied(2) c(7,8) by simp
next
  case (write_sleep t input e)
  then show ?thesis using assms(3-5) by (simp add: sync_inv_def writer.wait_ok_block reader.wait_ok_same)
next
  case (close_reader t f)
  then show ?thesis
    using sync_inv_thread [OF assms(3), where t = t and th = "BumpWriters Idle" and p = "f (sys_pipe s)" and a = "sys_written s" and b = "sys_read s"] close_state [OF close_reader(3)]
    by (simp add: can_read_def)
next
  case (close_writer t f)
  then show ?thesis
    using sync_inv_thread [OF assms(3), where t = t and th = "BumpReaders Idle" and p = "f (sys_pipe s)" and a = "sys_written s" and b = "sys_read s"] close_writer_state [OF close_writer(3)]
    by (simp add: can_write_def)
next
  case (bump_readers t k)
  then have "reader.wait_ok (can_read (pipe_state (sys_pipe s))) (Suc (sys_read_bumps s)) ((sys_threads s)(t := WakeReaders k))"
    using assms(3) by (simp add: sync_inv_def reader.wait_ok_bump)
  then show ?thesis using assms(3) bump_readers
    by (simp add: sync_inv_def writer.wait_ok_same bump_read_epoch_def mod_Suc_eq)
next
  case (wake_readers t k)
  note k = thread_ok_awake [OF disjI1 [OF stream_thread [OF assms(2) wake_readers(2)]]]
  have "reader.wait_ok (can_read (pipe_state (sys_pipe s))) (sys_read_bumps s) ((\<lambda>u. resume_reader (sys_threads s u))(t := k))"
    by (rule reader.wait_ok_wake [where th = "sys_threads s" and t = t])
      (use assms(3) wake_readers(2) k in \<open>auto simp: sync_inv_def resume_classes\<close>)
  moreover have "writer.wait_ok (can_write (pipe_state (sys_pipe s))) (sys_write_bumps s) ((\<lambda>u. resume_reader (sys_threads s u))(t := k))"
    by (rule writer.wait_ok_same) (use assms(3) wake_readers(2) k in \<open>auto simp: sync_inv_def resume_other_side\<close>)
  ultimately show ?thesis using assms(3) wake_readers(1) by (simp add: sync_inv_def)
next
  case (bump_writers t k)
  then have "writer.wait_ok (can_write (pipe_state (sys_pipe s))) (Suc (sys_write_bumps s)) ((sys_threads s)(t := WakeWriters k))"
    using assms(3) by (simp add: sync_inv_def writer.wait_ok_bump)
  then show ?thesis using assms(3) bump_writers
    by (simp add: sync_inv_def reader.wait_ok_same bump_write_epoch_def mod_Suc_eq)
next
  case (wake_writers t k)
  note k = thread_ok_awake [OF disjI2 [OF stream_thread [OF assms(2) wake_writers(2)]]]
  have "writer.wait_ok (can_write (pipe_state (sys_pipe s))) (sys_write_bumps s) ((\<lambda>u. resume_writer (sys_threads s u))(t := k))"
    by (rule writer.wait_ok_wake [where th = "sys_threads s" and t = t])
      (use assms(3) wake_writers(2) k in \<open>auto simp: sync_inv_def resume_classes\<close>)
  moreover have "reader.wait_ok (can_read (pipe_state (sys_pipe s))) (sys_read_bumps s) ((\<lambda>u. resume_writer (sys_threads s u))(t := k))"
    by (rule reader.wait_ok_same) (use assms(3) wake_writers(2) k in \<open>auto simp: sync_inv_def resume_other_side\<close>)
  ultimately show ?thesis using assms(3) wake_writers(1) by (simp add: sync_inv_def)
qed (use assms(3) in \<open>auto intro!: sync_inv_goto\<close>)

lemma bumps_mono: "pipe_step s s' \<Longrightarrow> sys_read_bumps s \<le> sys_read_bumps s' \<and> sys_write_bumps s \<le> sys_write_bumps s'"
  by (erule pipe_step.cases) auto

lemma reachable_sync_inv:
  assumes "pipe_reachable s" "sys_read_bumps s < 2 ^ 64" "sys_write_bumps s < 2 ^ 64"
  shows "sync_inv s"
  using assms unfolding pipe_reachable_def
proof (induction rule: rtranclp_induct)
  case base
  then show ?case by (simp add: sync_inv_def pipe_init_def Pipe_new_def reader.wait_ok_def writer.wait_ok_def)
next
  case (step s s')
  have "stream_inv s" using step(1) by (simp add: reachable_stream_inv pipe_reachable_def)
  then show ?case using step bumps_mono [OF step(2)] by (intro sync_inv_step [OF step(2)]) auto
qed

section \<open>Properties\<close>

text \<open>
  C5. A pipe is a first-in first-out stream under concurrency: in every interleaving of readers, writers, wake-ups and
  closing of ends, the bytes delivered to readers followed by the bytes in the buffer are exactly the bytes accepted
  from writers, in order; the buffer never holds more than its capacity and no critical section panics.
\<close>

theorem pipe_stream:
  assumes "pipe_reachable s"
  shows "sys_written s = sys_read s @ pipe_content (pipe_state (sys_pipe s)) \<and> pipe_ok (pipe_state (sys_pipe s))
    \<and> (sys_threads s t = Reading nonblock buf \<longrightarrow> fst (read_section nonblock can_block (sys_pipe s) buf) \<noteq> Return Panic)
    \<and> (sys_threads s t = Writing nonblock input copied \<longrightarrow> fst (write_section nonblock can_block input copied (sys_pipe s)) \<noteq> Return Panic)"
proof -
  note inv = reachable_stream_inv [OF assms]
  show ?thesis using inv stream_thread [OF inv, of t "Reading nonblock buf"] stream_thread [OF inv, of t "Writing nonblock input copied"]
    by (auto simp: stream_inv_def dest: read_section_no_panic write_section_no_panic)
qed

theorem pipe_stream_witness:
  "\<exists>s. pipe_reachable s \<and> sys_written s = [1, 2] \<and> sys_read s @ pipe_content (pipe_state (sys_pipe s)) = [1, 2]"
proof -
  let ?s1 = "goto 0 (Writing True [1, 2] 0) pipe_init"
  have s1: "pipe_step pipe_init ?s1" by (rule start_write) (simp add: pipe_init_def)
  have ok: "pipe_ok (pipe_state Pipe_new)" by (simp add: Pipe_new_def pipe_ok_def)
  obtain p where p: "write_section True False [1, 2] 0 Pipe_new = (Copied 2, p)"
    using write_loop_spec [OF ok, of 0 "[1, 2]"] by (auto simp: write_section_def Pipe_new_def PIPE_CAPACITY_def Let_def)
  let ?s2 = "goto 0 (BumpReaders (Writing True [1, 2] 2)) ?s1\<lparr>sys_pipe := p, sys_written := sys_written ?s1 @ take (2 - 0) (drop 0 [1, 2])\<rparr>"
  have "pipe_step ?s1 ?s2" by (rule write_copied [where can_block = False]) (use p in \<open>simp_all add: pipe_init_def\<close>)
  with s1 have r: "pipe_reachable ?s2" unfolding pipe_reachable_def by (meson converse_rtranclp_into_rtranclp r_into_rtranclp)
  moreover have "sys_written ?s2 = [1, 2]" by (simp add: pipe_init_def)
  ultimately show ?thesis using pipe_stream [OF r] by (intro exI [of _ ?s2]) metis
qed

text \<open>
  C6. No wake-up is lost: whenever no thread is between changing the pipe and waking the queue, a reader sleeps only
  while the pipe is empty and has a writer, and a writer sleeps only while the pipe is full and has a reader. So a reader
  and a writer never sleep at the same time. The counters may have moved fewer than \<open>2 ^ 64\<close> times.
\<close>

theorem pipe_no_lost_wakeup:
  assumes "pipe_reachable s" "sys_read_bumps s < 2 ^ 64" "sys_write_bumps s < 2 ^ 64" "\<And>u. \<not> active (sys_threads s u)"
  shows "(sys_threads s t = ReadBlocked buf \<longrightarrow> ps_len (pipe_state (sys_pipe s)) = 0 \<and> ps_writers (pipe_state (sys_pipe s)) \<noteq> 0)
    \<and> (sys_threads s t = WriteBlocked input \<longrightarrow>
        ps_len (pipe_state (sys_pipe s)) = PIPE_CAPACITY \<and> ps_readers (pipe_state (sys_pipe s)) \<noteq> 0)
    \<and> \<not> (sys_threads s t = ReadBlocked buf \<and> sys_threads s u = WriteBlocked input)"
proof -
  have inv: "sync_inv s" "stream_inv s" using assms reachable_sync_inv reachable_stream_inv by auto
  have quiet: "\<not> bumping_readers (sys_threads s u) \<and> \<not> waking_readers (sys_threads s u)"
    "\<not> bumping_writers (sys_threads s u) \<and> \<not> waking_writers (sys_threads s u)" for u
    using not_active [OF assms(4)] by auto
  have r: "\<not> can_read (pipe_state (sys_pipe s))" if "sys_threads s t = ReadBlocked buf" for t buf
    using inv(1) that by (intro reader.no_lost_wakeup [of _ "sys_read_bumps s" "sys_threads s" t]) (auto simp: sync_inv_def quiet)
  have w: "\<not> can_write (pipe_state (sys_pipe s))" if "sys_threads s t = WriteBlocked input" for t input
    using inv(1) that by (intro writer.no_lost_wakeup [of _ "sys_write_bumps s" "sys_threads s" t]) (auto simp: sync_inv_def quiet)
  have "ps_len (pipe_state (sys_pipe s)) \<le> PIPE_CAPACITY" using inv(2) by (simp add: stream_inv_def pipe_ok_def)
  then show ?thesis using r [of t buf] w [of t input] w [of u input] by (auto simp: can_read_def can_write_def PIPE_CAPACITY_def)
qed

theorem pipe_no_lost_wakeup_witness:
  "\<exists>s. pipe_reachable s \<and> sys_threads s 0 = ReadBlocked (MutableIoBuffer_new [0]) \<and> ps_writers (pipe_state (sys_pipe s)) \<noteq> 0"
proof -
  let ?b = "MutableIoBuffer_new [0]"
  let ?s1 = "goto 0 (Reading False ?b) pipe_init" and ?s2 = "goto 0 (ReadSleeping ?b 0) pipe_init" and ?s3 = "goto 0 (ReadBlocked ?b) pipe_init"
  have "pipe_step pipe_init ?s1" by (rule start_read) (simp_all add: pipe_init_def buf_ok_def MutableIoBuffer_new_def)
  moreover have "pipe_step ?s1 ?s2"
    using read_block [of ?s1 0 False ?b True 0 Pipe_new ?b] by (simp add: pipe_init_def read_section_def Pipe_new_def)
  moreover have "pipe_step ?s2 ?s3" using read_sleep [of ?s2 0 ?b 0] by (simp add: pipe_init_def Pipe_new_def)
  ultimately have r: "pipe_reachable ?s3"
    unfolding pipe_reachable_def by (meson converse_rtranclp_into_rtranclp r_into_rtranclp)
  have "ps_writers (pipe_state (sys_pipe ?s3)) \<noteq> 0"
    using pipe_no_lost_wakeup [OF r, of 0 ?b] by (simp add: pipe_init_def)
  with r show ?thesis by (intro exI [of _ ?s3]) simp
qed

end
