(* ===== verification/Elf.thy ===== *)
theory Elf
  imports Bytes Vma Riscv_Layout
begin

text \<open>
  The ELF loader's parser (\<open>kernel/src/elf.rs\<close>) for the RISC-V target, and the builder of static images that the kernel
  uses in its own checks. The argument \<open>reserve_ok\<close> gives for every program header whether the allocations made for it
  succeed. Strings are lists of bytes.
\<close>

section \<open>Constants and types\<close>

abbreviation ELFCLASS64 :: u8 where "ELFCLASS64 \<equiv> 2"
abbreviation ELFDATA2LSB :: u8 where "ELFDATA2LSB \<equiv> 1"
abbreviation EV_CURRENT :: u8 where "EV_CURRENT \<equiv> 1"
abbreviation ET_EXEC :: u16 where "ET_EXEC \<equiv> 2"
abbreviation ET_DYN :: u16 where "ET_DYN \<equiv> 3"
abbreviation TARGET_MACHINE :: u16 where "TARGET_MACHINE \<equiv> 243"
abbreviation PT_LOAD :: u32 where "PT_LOAD \<equiv> 1"
abbreviation PT_DYNAMIC :: u32 where "PT_DYNAMIC \<equiv> 2"
abbreviation PT_INTERP :: u32 where "PT_INTERP \<equiv> 3"
abbreviation PT_PHDR :: u32 where "PT_PHDR \<equiv> 6"
abbreviation PF_X :: u32 where "PF_X \<equiv> 1"
abbreviation PF_W :: u32 where "PF_W \<equiv> 2"
abbreviation PF_R :: u32 where "PF_R \<equiv> 4"
abbreviation ELF_HEADER_LEN :: usize where "ELF_HEADER_LEN \<equiv> 64"
abbreviation PROGRAM_HEADER_LEN :: usize where "PROGRAM_HEADER_LEN \<equiv> 56"
abbreviation MAX_PHDRS :: usize where "MAX_PHDRS \<equiv> 32"
abbreviation MAX_INTERP_PATH :: usize where "MAX_INTERP_PATH \<equiv> 256"
abbreviation ET_DYN_LOAD_BIAS :: usize where "ET_DYN_LOAD_BIAS \<equiv> 0x40000000"

datatype ElfError =
    ElfAddressOverflow
  | ElfInvalidAlignment
  | ElfInvalidHeader
  | ElfInvalidMachine
  | ElfInvalidProgramHeader
  | ElfInvalidSegment
  | ElfNoLoadSegments
  | ElfOutOfMemory
  | ElfUnsupported

datatype ElfKind = Executable | PositionIndependent

record LoadSegment =
  ls_virtual_address :: VirtAddr
  ls_memory_size :: usize
  ls_file_offset :: usize
  ls_file_size :: usize

record ProgramHeaderInfo =
  ph_virtual_address :: VirtAddr
  ph_entry_size :: usize
  ph_count :: usize

record DynamicInfo =
  dyn_virtual_address :: VirtAddr
  dyn_memory_size :: usize
  dyn_file_offset :: usize

record ElfImage =
  elf_kind :: ElfKind
  elf_entry :: VirtAddr
  elf_load_bias :: usize
  elf_program_headers :: "ProgramHeaderInfo option"
  elf_interpreter :: "bytes option"
  elf_dynamic :: "DynamicInfo option"
  elf_areas :: "VmArea list"
  elf_segments :: "LoadSegment list"

section \<open>Helpers\<close>

text \<open>A little-endian field of \<open>n\<close> bytes: the three readers differ only in the width.\<close>

definition read_le :: "nat \<Rightarrow> bytes \<Rightarrow> usize \<Rightarrow> (nat, ElfError) result" where
  "read_le n bs off = (case slice_get bs off (off + n) of Some x \<Rightarrow> Ok (from_le x) | None \<Rightarrow> Err ElfInvalidHeader)"

abbreviation read_u16 :: "bytes \<Rightarrow> usize \<Rightarrow> (u16, ElfError) result" where "read_u16 \<equiv> read_le 2"
abbreviation read_u32 :: "bytes \<Rightarrow> usize \<Rightarrow> (u32, ElfError) result" where "read_u32 \<equiv> read_le 4"
abbreviation read_u64 :: "bytes \<Rightarrow> usize \<Rightarrow> (u64, ElfError) result" where "read_u64 \<equiv> read_le 8"

definition elf_align_down :: "usize \<Rightarrow> usize \<Rightarrow> usize" where
  "elf_align_down v align = v AND usize_not (align - 1)"

definition elf_align_up :: "usize \<Rightarrow> usize \<Rightarrow> usize option" where
  "elf_align_up v align = map_option (\<lambda>x. x AND usize_not (align - 1)) (checked_add v (align - 1))"

definition apply_load_bias :: "usize \<Rightarrow> usize \<Rightarrow> (usize, ElfError) result" where
  "apply_load_bias v load_bias = ok_or (checked_add v load_bias) ElfAddressOverflow"

definition validate_segment :: "bytes \<Rightarrow> usize \<Rightarrow> usize \<Rightarrow> usize \<Rightarrow> usize \<Rightarrow> usize \<Rightarrow> (unit, ElfError) result" where
  "validate_segment img file_offset virtual_address file_size memory_size align =
     (if memory_size = 0 \<or> memory_size < file_size then Err ElfInvalidSegment
      else
        rbind (case checked_add file_offset file_size of
            Some end \<Rightarrow> if end \<le> length img then Ok end else Err ElfInvalidSegment
          | None \<Rightarrow> Err ElfInvalidSegment) (\<lambda>_.
        rbind (ok_or (checked_add virtual_address memory_size) ElfAddressOverflow) (\<lambda>_.
        if 1 < align
        then
          if \<not> is_power_of_two align then Err ElfInvalidAlignment
          else if file_offset AND (align - 1) \<noteq> virtual_address AND (align - 1) then Err ElfInvalidAlignment
          else Ok ()
        else Ok ())))"

text \<open>The end of the path is computed without a check.\<close>

definition read_interpreter :: "bool \<Rightarrow> bytes \<Rightarrow> usize \<Rightarrow> usize \<Rightarrow> (bytes, ElfError) result" where
  "read_interpreter reserve_ok img file_offset file_size =
     (if file_size = 0 \<or> MAX_INTERP_PATH < file_size then Err ElfInvalidProgramHeader
      else
        rbind (add_usize file_offset file_size) (\<lambda>end.
        rbind (ok_or (slice_get img file_offset end) ElfInvalidProgramHeader) (\<lambda>bs.
        rbind (ok_or (position (\<lambda>b. b = 0) bs) ElfInvalidProgramHeader) (\<lambda>nul.
        if nul = 0 then Err ElfInvalidProgramHeader
        else
          rbind (slice bs 0 nul) (\<lambda>path_bytes.
          rbind (ok_or (from_utf8 path_bytes) ElfInvalidProgramHeader) (\<lambda>path.
          if reserve_ok then Ok path else Err ElfOutOfMemory))))))"

fun reject_area_overlap :: "VmArea list \<Rightarrow> VirtRange \<Rightarrow> (unit, ElfError) result" where
  "reject_area_overlap [] rng = Ok ()"
| "reject_area_overlap (area # areas) rng =
     (let existing = va_range area in
      if vr_start rng < vr_end existing \<and> vr_start existing < vr_end rng then Err ElfInvalidSegment
      else reject_area_overlap areas rng)"

definition segment_flags :: "u32 \<Rightarrow> VmAreaFlags" where
  "segment_flags raw =
     (let flags = VmAreaFlags_union VmAreaFlags_USER VmAreaFlags_PRIVATE;
          flags = (if raw AND PF_R \<noteq> 0 \<or> raw AND (PF_W OR PF_X) \<noteq> 0 then VmAreaFlags_union flags VmAreaFlags_READ else flags);
          flags = (if raw AND PF_W \<noteq> 0 then VmAreaFlags_union flags VmAreaFlags_WRITE else flags) in
      if raw AND PF_X \<noteq> 0 then VmAreaFlags_union flags VmAreaFlags_EXECUTE else flags)"

section \<open>Parsing\<close>

text \<open>What the loop over the program headers collects, and what it knows about the table.\<close>

record ElfScan =
  es_areas :: "VmArea list"
  es_segments :: "LoadSegment list"
  es_program_headers :: "ProgramHeaderInfo option"
  es_interpreter :: "bytes option"
  es_dynamic :: "DynamicInfo option"

record ElfTable =
  et_load_bias :: usize
  et_phoff :: usize
  et_phnum :: usize
  et_phdr_length :: usize
  et_phdr_end :: usize

record Phdr =
  p_type :: u32
  p_flags :: u32
  p_offset :: usize
  p_vaddr :: usize
  p_filesz :: usize
  p_memsz :: usize
  p_align :: usize

definition read_phdr :: "bytes \<Rightarrow> (Phdr, ElfError) result" where
  "read_phdr phdr =
     rbind (read_u32 phdr 0) (\<lambda>segment_type.
     rbind (read_u32 phdr 4) (\<lambda>raw_flags.
     rbind (read_u64 phdr 8) (\<lambda>file_offset.
     rbind (read_u64 phdr 16) (\<lambda>virtual_address.
     rbind (read_u64 phdr 32) (\<lambda>file_size.
     rbind (read_u64 phdr 40) (\<lambda>memory_size.
     rbind (read_u64 phdr 48) (\<lambda>align.
     Ok \<lparr>p_type = segment_type, p_flags = raw_flags, p_offset = file_offset, p_vaddr = virtual_address,
       p_filesz = file_size, p_memsz = memory_size, p_align = align\<rparr>)))))))"

definition detect_program_headers :: "ElfTable \<Rightarrow> Phdr \<Rightarrow> usize \<Rightarrow> ElfScan \<Rightarrow> (ElfScan, ElfError) result" where
  "detect_program_headers table ph adjusted_virtual_address st =
     (if es_program_headers st = None \<and> p_offset ph \<le> et_phoff table
      then
        rbind (ok_or (checked_add (p_offset ph) (p_filesz ph)) ElfAddressOverflow) (\<lambda>file_end.
        if et_phdr_end table \<le> file_end
        then
          rbind (ok_or (checked_add adjusted_virtual_address (et_phoff table - p_offset ph)) ElfAddressOverflow) (\<lambda>phdr_virtual.
          if VirtRange_contains USER_RANGE phdr_virtual
          then Ok (st\<lparr>es_program_headers := Some \<lparr>ph_virtual_address = phdr_virtual, ph_entry_size = PROGRAM_HEADER_LEN,
            ph_count = et_phnum table\<rparr>\<rparr>)
          else Ok st)
        else Ok st)
      else Ok st)"

definition scan_load :: "bool \<Rightarrow> bytes \<Rightarrow> ElfTable \<Rightarrow> Phdr \<Rightarrow> ElfScan \<Rightarrow> (ElfScan, ElfError) result" where
  "scan_load reserve_ok img table ph st =
     rbind (validate_segment img (p_offset ph) (p_vaddr ph) (p_filesz ph) (p_memsz ph) (p_align ph)) (\<lambda>_.
     rbind (apply_load_bias (p_vaddr ph) (et_load_bias table)) (\<lambda>adjusted_virtual_address.
     let start = elf_align_down adjusted_virtual_address PAGE_SIZE in
     rbind (ok_or (checked_add adjusted_virtual_address (p_memsz ph)) ElfAddressOverflow) (\<lambda>segment_end.
     rbind (ok_or (elf_align_up segment_end PAGE_SIZE) ElfAddressOverflow) (\<lambda>end.
     rbind (VirtRange_from_bounds start end) (\<lambda>rng.
     if \<not> VirtRange_contains_range USER_RANGE rng then Err ElfInvalidSegment
     else
       let area = VmArea_new rng (segment_flags (p_flags ph)) (FileBacked 1 (elf_align_down (p_offset ph) PAGE_SIZE)) in
       rbind (reject_area_overlap (es_areas st) (va_range area)) (\<lambda>_.
       if \<not> reserve_ok then Err ElfOutOfMemory
       else
         detect_program_headers table ph adjusted_virtual_address
           (st\<lparr>es_areas := es_areas st @ [area],
               es_segments := es_segments st @ [\<lparr>ls_virtual_address = adjusted_virtual_address, ls_memory_size = p_memsz ph,
                 ls_file_offset = p_offset ph, ls_file_size = p_filesz ph\<rparr>]\<rparr>)))))))"

definition scan_interp :: "bool \<Rightarrow> bytes \<Rightarrow> Phdr \<Rightarrow> ElfScan \<Rightarrow> (ElfScan, ElfError) result" where
  "scan_interp reserve_ok img ph st =
     (if es_interpreter st \<noteq> None \<or> p_memsz ph < p_filesz ph then Err ElfInvalidProgramHeader
      else
        rbind (read_interpreter reserve_ok img (p_offset ph) (p_filesz ph)) (\<lambda>path.
        Ok (st\<lparr>es_interpreter := Some path\<rparr>)))"

definition scan_phdr :: "ElfTable \<Rightarrow> Phdr \<Rightarrow> ElfScan \<Rightarrow> (ElfScan, ElfError) result" where
  "scan_phdr table ph st =
     (if es_program_headers st \<noteq> None \<or> p_memsz ph < et_phdr_length table then Err ElfInvalidProgramHeader
      else
        rbind (apply_load_bias (p_vaddr ph) (et_load_bias table)) (\<lambda>phdr_virtual.
        if \<not> VirtRange_contains USER_RANGE phdr_virtual then Err ElfInvalidProgramHeader
        else Ok (st\<lparr>es_program_headers := Some \<lparr>ph_virtual_address = phdr_virtual, ph_entry_size = PROGRAM_HEADER_LEN,
          ph_count = et_phnum table\<rparr>\<rparr>)))"

definition scan_dynamic :: "ElfTable \<Rightarrow> Phdr \<Rightarrow> ElfScan \<Rightarrow> (ElfScan, ElfError) result" where
  "scan_dynamic table ph st =
     (if es_dynamic st \<noteq> None \<or> p_memsz ph = 0 then Err ElfInvalidProgramHeader
      else
        rbind (apply_load_bias (p_vaddr ph) (et_load_bias table)) (\<lambda>dynamic_virtual.
        if \<not> VirtRange_contains USER_RANGE dynamic_virtual then Err ElfInvalidProgramHeader
        else Ok (st\<lparr>es_dynamic := Some \<lparr>dyn_virtual_address = dynamic_virtual, dyn_memory_size = p_memsz ph,
          dyn_file_offset = p_offset ph\<rparr>\<rparr>)))"

definition scan_header :: "(nat \<Rightarrow> bool) \<Rightarrow> bytes \<Rightarrow> ElfTable \<Rightarrow> nat \<Rightarrow> ElfScan \<Rightarrow> (ElfScan, ElfError) result" where
  "scan_header reserve_ok img table index st =
     rbind (ok_or (checked_mul index PROGRAM_HEADER_LEN) ElfAddressOverflow) (\<lambda>rel.
     rbind (ok_or (checked_add (et_phoff table) rel) ElfAddressOverflow) (\<lambda>off.
     rbind (add_usize off PROGRAM_HEADER_LEN) (\<lambda>end.
     rbind (ok_or (slice_get img off end) ElfInvalidProgramHeader) (\<lambda>phdr.
     rbind (read_phdr phdr) (\<lambda>ph.
     if p_type ph = PT_LOAD then scan_load (reserve_ok index) img table ph st
     else if p_type ph = PT_INTERP then scan_interp (reserve_ok index) img ph st
     else if p_type ph = PT_PHDR then scan_phdr table ph st
     else if p_type ph = PT_DYNAMIC then scan_dynamic table ph st
     else Ok st)))))"

fun scan_headers :: "(nat \<Rightarrow> bool) \<Rightarrow> bytes \<Rightarrow> ElfTable \<Rightarrow> nat list \<Rightarrow> ElfScan \<Rightarrow> (ElfScan, ElfError) result" where
  "scan_headers reserve_ok img table [] st = Ok st"
| "scan_headers reserve_ok img table (index # rest) st =
     rbind (scan_header reserve_ok img table index st) (scan_headers reserve_ok img table rest)"

definition parse_impl :: "(nat \<Rightarrow> bool) \<Rightarrow> bytes \<Rightarrow> usize option \<Rightarrow> (ElfImage, ElfError) result" where
  "parse_impl reserve_ok img bias_override =
     rbind (ok_or (slice_get img 0 ELF_HEADER_LEN) ElfInvalidHeader) (\<lambda>header.
     if slice_get header 0 4 \<noteq> Some [0x7f, 0x45, 0x4c, 0x46] \<or> header ! 4 \<noteq> ELFCLASS64 \<or> header ! 5 \<noteq> ELFDATA2LSB
        \<or> header ! 6 \<noteq> EV_CURRENT
     then Err ElfInvalidHeader
     else
       rbind (read_u16 header 16) (\<lambda>file_type.
       rbind (if file_type = ET_EXEC then Ok (Executable, 0)
          else if file_type = ET_DYN
          then Ok (PositionIndependent, case bias_override of Some b \<Rightarrow> b | None \<Rightarrow> ET_DYN_LOAD_BIAS)
          else Err ElfUnsupported) (\<lambda>(kind, load_bias).
       rbind (read_u16 header 18) (\<lambda>machine.
       if machine \<noteq> TARGET_MACHINE then Err ElfInvalidMachine
       else
         rbind (read_u32 header 20) (\<lambda>version.
         if version \<noteq> unat EV_CURRENT then Err ElfInvalidHeader
         else
           rbind (read_u64 header 24) (\<lambda>raw_entry.
           rbind (apply_load_bias raw_entry load_bias) (\<lambda>entry.
           if \<not> VirtRange_contains USER_RANGE entry then Err ElfInvalidHeader
           else
             rbind (read_u64 header 32) (\<lambda>phoff.
             rbind (read_u16 header 52) (\<lambda>ehsize.
             rbind (read_u16 header 54) (\<lambda>phentsize.
             rbind (read_u16 header 56) (\<lambda>phnum.
             if ehsize \<noteq> ELF_HEADER_LEN \<or> phentsize \<noteq> PROGRAM_HEADER_LEN \<or> phnum = 0 \<or> MAX_PHDRS < phnum
             then Err ElfInvalidProgramHeader
             else
               rbind (ok_or (checked_mul phentsize phnum) ElfAddressOverflow) (\<lambda>phdr_length.
               rbind (ok_or (checked_add phoff phdr_length) ElfAddressOverflow) (\<lambda>phdr_end.
               if length img < phdr_end then Err ElfInvalidProgramHeader
               else
                 let table = \<lparr>et_load_bias = load_bias, et_phoff = phoff, et_phnum = phnum, et_phdr_length = phdr_length,
                       et_phdr_end = phdr_end\<rparr> in
                 rbind (scan_headers reserve_ok img table [0..<phnum]
                   \<lparr>es_areas = [], es_segments = [], es_program_headers = None, es_interpreter = None, es_dynamic = None\<rparr>) (\<lambda>st.
                 if es_segments st = [] then Err ElfNoLoadSegments
                 else Ok \<lparr>elf_kind = kind, elf_entry = entry, elf_load_bias = load_bias,
                   elf_program_headers = es_program_headers st, elf_interpreter = es_interpreter st,
                   elf_dynamic = es_dynamic st, elf_areas = es_areas st, elf_segments = es_segments st\<rparr>))))))))))))))"

definition elf_parse :: "(nat \<Rightarrow> bool) \<Rightarrow> bytes \<Rightarrow> (ElfImage, ElfError) result" where
  "elf_parse reserve_ok img = parse_impl reserve_ok img None"

definition parse_with_bias :: "(nat \<Rightarrow> bool) \<Rightarrow> bytes \<Rightarrow> usize \<Rightarrow> (ElfImage, ElfError) result" where
  "parse_with_bias reserve_ok img load_bias = parse_impl reserve_ok img (Some load_bias)"

section \<open>Building\<close>

text \<open>Writing outside of the slice panics.\<close>

definition write_le :: "nat \<Rightarrow> usize \<Rightarrow> nat \<Rightarrow> bytes \<Rightarrow> (bytes, ElfError) result" where
  "write_le n off v bs =
     (if off + n \<le> length bs then Ok (take off bs @ to_le n v @ drop (off + n) bs) else Panic)"

abbreviation write_u16 :: "usize \<Rightarrow> u16 \<Rightarrow> bytes \<Rightarrow> (bytes, ElfError) result" where "write_u16 \<equiv> write_le 2"
abbreviation write_u32 :: "usize \<Rightarrow> u32 \<Rightarrow> bytes \<Rightarrow> (bytes, ElfError) result" where "write_u32 \<equiv> write_le 4"
abbreviation write_u64 :: "usize \<Rightarrow> u64 \<Rightarrow> bytes \<Rightarrow> (bytes, ElfError) result" where "write_u64 \<equiv> write_le 8"

definition write_elf_header :: "VirtAddr \<Rightarrow> bytes \<Rightarrow> (bytes, ElfError) result" where
  "write_elf_header entry header =
     (if length header < 7 then Panic
      else
        rbind (write_u16 16 ET_EXEC ([0x7f, 0x45, 0x4c, 0x46, ELFCLASS64, ELFDATA2LSB, EV_CURRENT] @ drop 7 header)) (\<lambda>h.
        rbind (write_u16 18 TARGET_MACHINE h) (\<lambda>h.
        rbind (write_u32 20 (unat EV_CURRENT) h) (\<lambda>h.
        rbind (write_u64 24 entry h) (\<lambda>h.
        rbind (write_u64 32 ELF_HEADER_LEN h) (\<lambda>h.
        rbind (write_u16 52 ELF_HEADER_LEN h) (\<lambda>h.
        rbind (write_u16 54 PROGRAM_HEADER_LEN h) (\<lambda>h.
        write_u16 56 2 h))))))))"

definition write_program_header :: "u32 \<Rightarrow> usize \<Rightarrow> usize \<Rightarrow> usize \<Rightarrow> usize \<Rightarrow> bytes \<Rightarrow> (bytes, ElfError) result" where
  "write_program_header flags off vaddr file_size memory_size header =
     rbind (write_u32 0 PT_LOAD header) (\<lambda>h.
     rbind (write_u32 4 flags h) (\<lambda>h.
     rbind (write_u64 8 off h) (\<lambda>h.
     rbind (write_u64 16 vaddr h) (\<lambda>h.
     rbind (write_u64 24 0 h) (\<lambda>h.
     rbind (write_u64 32 file_size h) (\<lambda>h.
     rbind (write_u64 40 memory_size h) (\<lambda>h.
     write_u64 48 PAGE_SIZE h)))))))"

text \<open>An update of a part of the image.\<close>

definition on_slice :: "usize \<Rightarrow> usize \<Rightarrow> (bytes \<Rightarrow> (bytes, ElfError) result) \<Rightarrow> bytes \<Rightarrow> (bytes, ElfError) result" where
  "on_slice a b f img = rbind (slice img a b) (\<lambda>part. rbind (f part) (\<lambda>part'. Ok (take a img @ part' @ drop b img)))"

definition vec_resize :: "nat \<Rightarrow> 'a \<Rightarrow> 'a list \<Rightarrow> 'a list" where
  "vec_resize n x xs = take n xs @ replicate (n - length xs) x"

definition build_static_exec :: "bool \<Rightarrow> VirtAddr \<Rightarrow> bytes \<Rightarrow> VirtAddr \<Rightarrow> (bytes, ElfError) result" where
  "build_static_exec reserve_ok entry code data_vaddr =
     (if code = [] \<or> PAGE_SIZE < length code then Err ElfInvalidSegment
      else if \<not> reserve_ok then Err ElfOutOfMemory
      else
        let code_offset = PAGE_SIZE; data_offset = PAGE_SIZE * 2 in
        rbind (on_slice 0 ELF_HEADER_LEN (write_elf_header entry) (vec_resize PAGE_SIZE 0 [])) (\<lambda>img.
        rbind (on_slice ELF_HEADER_LEN (ELF_HEADER_LEN + PROGRAM_HEADER_LEN)
            (write_program_header (PF_R OR PF_X) code_offset (elf_align_down entry PAGE_SIZE) (length code) PAGE_SIZE) img) (\<lambda>img.
        rbind (on_slice (ELF_HEADER_LEN + PROGRAM_HEADER_LEN) (ELF_HEADER_LEN + PROGRAM_HEADER_LEN * 2)
            (write_program_header (PF_R OR PF_W) data_offset data_vaddr PAGE_SIZE PAGE_SIZE) img) (\<lambda>img.
        Ok (vec_resize (data_offset + PAGE_SIZE) 0 (vec_resize data_offset 0 (img @ code)))))))"

section \<open>Lemmas: what parsing accepts\<close>

lemma elf_align_down_eq: "v \<le> usize_MAX \<Longrightarrow> elf_align_down v PAGE_SIZE = round_down PAGE_SIZE v"
  by (simp add: elf_align_down_def align_mask_round)

lemma elf_align_up_Some:
  "elf_align_up v PAGE_SIZE = Some e \<longleftrightarrow> v + (PAGE_SIZE - 1) \<le> usize_MAX \<and> e = round_up PAGE_SIZE v"
  by (auto simp: elf_align_up_def checked_add_def align_mask_round round_up_eq_down)

text \<open>A load segment and its area: the area is the pages of the segment, in user space; the bytes come from the file.\<close>

definition segment_ok :: "bytes \<Rightarrow> LoadSegment \<Rightarrow> VmArea \<Rightarrow> bool" where
  "segment_ok img seg area \<longleftrightarrow>
     va_range area = \<lparr>vr_start = round_down PAGE_SIZE (ls_virtual_address seg),
       vr_end = round_up PAGE_SIZE (ls_virtual_address seg + ls_memory_size seg)\<rparr>
     \<and> VirtRange_contains_range USER_RANGE (va_range area)
     \<and> 0 < ls_memory_size seg \<and> ls_file_size seg \<le> ls_memory_size seg \<and> ls_file_offset seg + ls_file_size seg \<le> length img
     \<and> VmAreaFlags_is_user (va_flags area) \<and> va_kind area = FileBacked 1 (round_down PAGE_SIZE (ls_file_offset seg))"

definition path_ok :: "bytes \<Rightarrow> bool" where
  "path_ok path \<longleftrightarrow> path \<noteq> [] \<and> length path < MAX_INTERP_PATH \<and> 0 \<notin> set path \<and> utf8_valid path"

definition scan_ok :: "bytes \<Rightarrow> ElfScan \<Rightarrow> bool" where
  "scan_ok img st \<longleftrightarrow> list_all2 (segment_ok img) (es_segments st) (es_areas st)
     \<and> sorted_wrt (\<lambda>a b. \<not> VirtRange_overlaps (va_range a) (va_range b)) (es_areas st)
     \<and> pred_option (\<lambda>h. VirtRange_contains USER_RANGE (ph_virtual_address h)) (es_program_headers st)
     \<and> pred_option path_ok (es_interpreter st)
     \<and> pred_option (\<lambda>d. VirtRange_contains USER_RANGE (dyn_virtual_address d)) (es_dynamic st)"

lemma segment_flags_user: "VmAreaFlags_is_user (segment_flags raw)"
proof -
  have keep: "VmAreaFlags_is_user (VmAreaFlags_union f g)" if "VmAreaFlags_is_user f" for f g
    using that unfolding VmAreaFlags_is_user_def VmAreaFlags_contains_def VmAreaFlags_union_def
    by (auto simp: bit_eq_iff bit_and_iff bit_or_iff)
  have "VmAreaFlags_is_user (VmAreaFlags_union VmAreaFlags_USER VmAreaFlags_PRIVATE)" by code_simp
  then show ?thesis unfolding segment_flags_def Let_def by (simp add: keep)
qed

lemma reject_area_overlap_cases:
  "reject_area_overlap areas rng = (if \<exists>a \<in> set areas. VirtRange_overlaps (va_range a) rng then Err ElfInvalidSegment else Ok ())"
  by (induction areas) (auto simp: VirtRange_overlaps_def Let_def)

lemma validate_segment_Ok:
  "validate_segment img fo va fs ms al = Ok () \<Longrightarrow> 0 < ms \<and> fs \<le> ms \<and> fo + fs \<le> length img \<and> fo + fs \<le> usize_MAX"
  by (auto simp: validate_segment_def checked_add_def split: if_splits option.splits)

lemma validate_segment_no_panic: "validate_segment img fo va fs ms al \<noteq> Panic"
  by (auto simp: validate_segment_def rbind_eq_Panic checked_add_def split: if_splits option.splits)

lemma detect_program_headers_ok:
  assumes "detect_program_headers table ph va st = Ok st'" "scan_ok img st"
  shows "scan_ok img st'"
  using assms by (auto simp: detect_program_headers_def scan_ok_def split: if_splits)

lemma scan_load_ok:
  assumes "scan_load rok img table ph st = Ok st'" "scan_ok img st"
  shows "scan_ok img st'"
proof -
  let ?va = "p_vaddr ph + et_load_bias table"
  define seg where "seg = \<lparr>ls_virtual_address = ?va, ls_memory_size = p_memsz ph, ls_file_offset = p_offset ph, ls_file_size = p_filesz ph\<rparr>"
  define rng where "rng = \<lparr>vr_start = round_down PAGE_SIZE ?va, vr_end = round_up PAGE_SIZE (?va + p_memsz ph)\<rparr>"
  define area where "area = VmArea_new rng (segment_flags (p_flags ph)) (FileBacked 1 (round_down PAGE_SIZE (p_offset ph)))"
  note v = validate_segment_Ok [of img "p_offset ph" "p_vaddr ph" "p_filesz ph" "p_memsz ph" "p_align ph"]
  have "validate_segment img (p_offset ph) (p_vaddr ph) (p_filesz ph) (p_memsz ph) (p_align ph) = Ok ()"
    "VirtRange_contains_range USER_RANGE rng" "\<forall>a \<in> set (es_areas st). \<not> VirtRange_overlaps (va_range a) rng"
    "detect_program_headers table ph ?va (st\<lparr>es_areas := es_areas st @ [area], es_segments := es_segments st @ [seg]\<rparr>) = Ok st'"
    using assms(1) v
    by (auto simp: scan_load_def apply_load_bias_def checked_add_def Let_def elf_align_up_Some elf_align_down_eq VirtRange_from_bounds_def
        reject_area_overlap_cases VmArea_new_def area_def rng_def seg_def split: if_splits option.splits)
  moreover from this have "segment_ok img seg area"
    using v segment_flags_user by (simp add: segment_ok_def seg_def area_def rng_def VmArea_new_def)
  ultimately have "scan_ok img (st\<lparr>es_areas := es_areas st @ [area], es_segments := es_segments st @ [seg]\<rparr>)"
    using assms(2) by (auto simp: scan_ok_def sorted_wrt_append area_def VmArea_new_def list_all2_appendI)
  then show ?thesis using \<open>detect_program_headers table ph ?va _ = Ok st'\<close> by (rule detect_program_headers_ok [rotated])
qed

lemma position_first:
  "position P xs = Some i \<Longrightarrow> i < length xs \<and> P (xs ! i) \<and> (\<forall>x \<in> set (take i xs). \<not> P x)"
  by (induction xs arbitrary: i) (auto split: if_splits option.splits)

lemma read_interpreter_ok: "read_interpreter rok img fo fs = Ok path \<Longrightarrow> path_ok path"
  by (auto simp: read_interpreter_def path_ok_def slice_get_def from_utf8_def Let_def add_usize_def dest!: position_first split: if_splits option.splits)

lemma scan_header_ok:
  assumes "scan_header rok img table index st = Ok st'" "scan_ok img st"
  shows "scan_ok img st'"
proof -
  obtain ph where "scan_load (rok index) img table ph st = Ok st' \<or> scan_interp (rok index) img ph st = Ok st'
      \<or> scan_phdr table ph st = Ok st' \<or> scan_dynamic table ph st = Ok st' \<or> st' = st"
    using assms(1) by (auto simp: scan_header_def split: if_splits)
  then show ?thesis using assms(2) scan_load_ok
    by (auto simp: scan_interp_def scan_phdr_def scan_dynamic_def scan_ok_def split: if_splits dest: read_interpreter_ok)
qed

lemma scan_headers_ok:
  "scan_headers rok img table is st = Ok st' \<Longrightarrow> scan_ok img st \<Longrightarrow> scan_ok img st'"
  by (induction "is" arbitrary: st) (auto dest: scan_header_ok)

text \<open>What an accepted image satisfies.\<close>

definition image_ok :: "bytes \<Rightarrow> ElfImage \<Rightarrow> bool" where
  "image_ok img elf \<longleftrightarrow> VirtRange_contains USER_RANGE (elf_entry elf) \<and> elf_segments elf \<noteq> []
     \<and> list_all2 (segment_ok img) (elf_segments elf) (elf_areas elf)
     \<and> sorted_wrt (\<lambda>a b. \<not> VirtRange_overlaps (va_range a) (va_range b)) (elf_areas elf)
     \<and> pred_option (\<lambda>h. VirtRange_contains USER_RANGE (ph_virtual_address h)) (elf_program_headers elf)
     \<and> pred_option path_ok (elf_interpreter elf)
     \<and> pred_option (\<lambda>d. VirtRange_contains USER_RANGE (dyn_virtual_address d)) (elf_dynamic elf)"

lemma parse_impl_ok:
  assumes "parse_impl rok img bias = Ok elf"
  shows "image_ok img elf"
proof -
  obtain table phnum st entry where st: "VirtRange_contains USER_RANGE entry" "es_segments st \<noteq> []"
    "scan_headers rok img table [0..<phnum]
       \<lparr>es_areas = [], es_segments = [], es_program_headers = None, es_interpreter = None, es_dynamic = None\<rparr> = Ok st"
    "elf_entry elf = entry" "elf_segments elf = es_segments st" "elf_areas elf = es_areas st"
    "elf_program_headers elf = es_program_headers st" "elf_interpreter elf = es_interpreter st" "elf_dynamic elf = es_dynamic st"
    using assms by (auto simp: parse_impl_def Let_def split: if_splits prod.splits)
  have "scan_ok img st" by (rule scan_headers_ok [OF st(3)]) (simp add: scan_ok_def)
  then show ?thesis using st by (simp add: image_ok_def scan_ok_def)
qed

section \<open>Lemmas: panics\<close>

text \<open>The program header at an index, as far as it can be read.\<close>

definition phdr_at :: "bytes \<Rightarrow> usize \<Rightarrow> (Phdr, ElfError) result" where
  "phdr_at img off = rbind (ok_or (slice_get img off (off + PROGRAM_HEADER_LEN)) ElfInvalidProgramHeader) read_phdr"

definition interp_overflow_at :: "bytes \<Rightarrow> usize \<Rightarrow> bool" where
  "interp_overflow_at img off \<longleftrightarrow> (\<exists>ph. phdr_at img off = Ok ph \<and> p_type ph = PT_INTERP \<and> 0 < p_filesz ph
     \<and> p_filesz ph \<le> MAX_INTERP_PATH \<and> usize_MAX < p_offset ph + p_filesz ph)"

text \<open>Some entry of the table of program headers that the header of the file describes has such a header.\<close>

definition interp_overflow :: "bytes \<Rightarrow> bool" where
  "interp_overflow img \<longleftrightarrow> (\<exists>phoff phnum index. read_u64 (take ELF_HEADER_LEN img) 32 = Ok phoff
     \<and> read_u16 (take ELF_HEADER_LEN img) 56 = Ok phnum \<and> index < phnum \<and> interp_overflow_at img (phoff + index * PROGRAM_HEADER_LEN))"

lemma read_le_no_panic [simp]: "read_le n bs off \<noteq> Panic"
  by (simp add: read_le_def split: option.splits)

lemma read_phdr_no_panic [simp]: "read_phdr bs \<noteq> Panic"
  by (simp add: read_phdr_def rbind_eq_Panic)

lemma apply_load_bias_no_panic [simp]: "apply_load_bias v b \<noteq> Panic"
  by (simp add: apply_load_bias_def)

lemma add_usize_cases: "add_usize a b = (if a + b \<le> usize_MAX then Ok (a + b) else Panic)"
  by (simp add: add_usize_def checked_add_def)

lemma read_interpreter_panic:
  "read_interpreter rok img fo fs = Panic \<longleftrightarrow> 0 < fs \<and> fs \<le> MAX_INTERP_PATH \<and> usize_MAX < fo + fs"
  by (auto simp: read_interpreter_def rbind_eq_Panic add_usize_cases slice_def slice_get_def dest: position_first split: if_splits option.splits)

lemma scan_load_no_panic: "scan_load rok img table ph st \<noteq> Panic"
proof -
  have "VirtRange_from_bounds (elf_align_down v PAGE_SIZE) e \<noteq> (Panic :: (VirtRange, ElfError) result)"
    if "checked_add v m = Some w" "elf_align_up w PAGE_SIZE = Some e" for v m w e
  proof -
    have "round_down PAGE_SIZE v \<le> v" "w \<le> round_up PAGE_SIZE w" "v \<le> w" "v \<le> usize_MAX"
      using that(1) by (auto simp: round_down_le le_round_up checked_add_def split: if_splits)
    then show ?thesis using that by (auto simp: VirtRange_from_bounds_def elf_align_down_eq elf_align_up_Some)
  qed
  then show ?thesis
    by (auto simp: scan_load_def rbind_eq_Panic validate_segment_no_panic Let_def reject_area_overlap_cases detect_program_headers_def
        split: if_splits)
qed

lemma scan_header_panic:
  assumes "scan_header rok img table index st = Panic" "et_phoff table + 56 * et_phnum table \<le> length img" "length img \<le> usize_MAX"
    "index < et_phnum table"
  shows "interp_overflow_at img (et_phoff table + index * PROGRAM_HEADER_LEN)"
proof -
  have "et_phoff table + index * 56 + 56 \<le> usize_MAX" using assms(2-4) by linarith
  then obtain ph where ph: "phdr_at img (et_phoff table + index * 56) = Ok ph"
    "p_type ph = PT_INTERP" "scan_interp (rok index) img ph st = Panic"
    using assms(1)
    by (auto simp: scan_header_def rbind_eq_Panic add_usize_cases checked_mul_def checked_add_def phdr_at_def scan_load_no_panic
        scan_phdr_def scan_dynamic_def split: if_splits)
  then have "0 < p_filesz ph" "p_filesz ph \<le> MAX_INTERP_PATH" "usize_MAX < p_offset ph + p_filesz ph"
    by (auto simp: scan_interp_def rbind_eq_Panic read_interpreter_panic split: if_splits)
  then show ?thesis unfolding interp_overflow_at_def using ph by blast
qed

lemma scan_headers_panic:
  assumes "scan_headers rok img table is st = Panic" "et_phoff table + 56 * et_phnum table \<le> length img" "length img \<le> usize_MAX"
    "\<forall>i \<in> set is. i < et_phnum table"
  shows "\<exists>i < et_phnum table. interp_overflow_at img (et_phoff table + i * PROGRAM_HEADER_LEN)"
  using assms(1,4)
proof (induction "is" arbitrary: st)
  case (Cons i "is")
  then show ?case using scan_header_panic [OF _ assms(2,3)] by (auto simp: rbind_eq_Panic)
qed simp

lemma parse_impl_panic:
  assumes "parse_impl rok img bias = Panic" "length img \<le> usize_MAX"
  shows "interp_overflow img"
proof -
  obtain table phoff phnum st where "scan_headers rok img table [0..<phnum] st = Panic" "et_phnum table = phnum" "et_phoff table = phoff"
    "phoff + 56 * phnum \<le> length img" "read_u64 (take ELF_HEADER_LEN img) 32 = Ok phoff" "read_u16 (take ELF_HEADER_LEN img) 56 = Ok phnum"
    using assms(1)
    by (auto simp: parse_impl_def rbind_eq_Panic Let_def checked_mul_def checked_add_def slice_get_def split: if_splits prod.splits)
  then show ?thesis using scan_headers_panic [of rok img table "[0..<phnum]" st] assms(2) by (auto simp: interp_overflow_def)
qed

end
