(* ===== verification/Elf_Theorems.thy ===== *)
theory Elf_Theorems
  imports Elf
begin

text \<open>
  Properties of the ELF parser: what it accepts is safe to load, the one way in which it panics, and that an image made
  by the kernel's own builder is parsed to the segments it was built from.
\<close>

section \<open>The built image\<close>

definition built_header :: "VirtAddr \<Rightarrow> bytes" where
  "built_header entry = [0x7f, 0x45, 0x4c, 0x46, 2, 1, 1] @ replicate 9 0 @ to_le 2 2 @ to_le 2 243 @ to_le 4 1 @ to_le 8 entry
     @ to_le 8 64 @ replicate 12 0 @ to_le 2 64 @ to_le 2 56 @ to_le 2 2 @ replicate 6 0"

definition built_phdr :: "u32 \<Rightarrow> usize \<Rightarrow> usize \<Rightarrow> usize \<Rightarrow> usize \<Rightarrow> bytes" where
  "built_phdr flags off vaddr fs ms = to_le 4 1 @ to_le 4 flags @ to_le 8 off @ to_le 8 vaddr @ to_le 8 0 @ to_le 8 fs @ to_le 8 ms @ to_le 8 PAGE_SIZE"

lemma length_built [simp]: "length (built_header entry) = 64" "length (built_phdr f off v fs ms) = 56"
  by (simp_all add: built_header_def built_phdr_def)

lemma write_elf_header_built: "write_elf_header entry (replicate 64 0) = Ok (built_header entry)"
  by (simp add: write_elf_header_def write_le_def built_header_def)

lemma write_program_header_built: "write_program_header f off v fs ms (replicate 56 0) = Ok (built_phdr f off v fs ms)"
  by (simp add: write_program_header_def write_le_def built_phdr_def)

lemma on_slice_Ok:
  assumes "a + length part = b" "b \<le> length img" "f (take (b - a) (drop a img)) = Ok part"
  shows "on_slice a b f img = Ok (take a img @ part @ drop b img)"
  using assms by (auto simp: on_slice_def slice_def slice_get_def)

text \<open>The code and data of the image at their pages.\<close>

definition built_image :: "VirtAddr \<Rightarrow> bytes \<Rightarrow> VirtAddr \<Rightarrow> bytes" where
  "built_image entry code data_vaddr =
     built_header entry @ built_phdr 5 PAGE_SIZE (round_down PAGE_SIZE entry) (length code) PAGE_SIZE
     @ built_phdr 6 (PAGE_SIZE * 2) data_vaddr PAGE_SIZE PAGE_SIZE @ replicate (PAGE_SIZE - 176) 0
     @ code @ replicate (PAGE_SIZE * 2 - length code) 0"

lemma build_static_exec_image:
  assumes "code \<noteq> []" "length code \<le> PAGE_SIZE" "entry \<le> usize_MAX"
  shows "build_static_exec True entry code data_vaddr = Ok (built_image entry code data_vaddr)"
proof -
  have flags: "PF_R OR PF_X = 5" "PF_R OR PF_W = 6" by simp_all
  have 1: "on_slice 0 64 (write_elf_header entry) (vec_resize PAGE_SIZE 0 []) = Ok (built_header entry @ replicate (PAGE_SIZE - 64) 0)"
    using on_slice_Ok [of 0 "built_header entry" 64 "replicate PAGE_SIZE 0"]
    by (simp add: vec_resize_def write_elf_header_built PAGE_SIZE_eq min_def)
  have 2: "on_slice 64 120 (write_program_header 5 PAGE_SIZE v fs PAGE_SIZE) (built_header entry @ replicate (PAGE_SIZE - 64) 0)
      = Ok (built_header entry @ built_phdr 5 PAGE_SIZE v fs PAGE_SIZE @ replicate (PAGE_SIZE - 120) 0)" for v fs
    using on_slice_Ok [of 64 "built_phdr 5 PAGE_SIZE v fs PAGE_SIZE" 120] by (simp add: write_program_header_built PAGE_SIZE_eq)
  have 3: "on_slice 120 176 (write_program_header 6 (PAGE_SIZE * 2) data_vaddr PAGE_SIZE PAGE_SIZE) (built_header entry @ p @ replicate (PAGE_SIZE - 120) 0)
      = Ok (built_header entry @ p @ built_phdr 6 (PAGE_SIZE * 2) data_vaddr PAGE_SIZE PAGE_SIZE @ replicate (PAGE_SIZE - 176) 0)"
    if "length p = 56" for p
    using on_slice_Ok [of 120 "built_phdr 6 (PAGE_SIZE * 2) data_vaddr PAGE_SIZE PAGE_SIZE" 176] that
    by (simp add: write_program_header_built PAGE_SIZE_eq)
  show ?thesis
    using assms by (simp add: build_static_exec_def Let_def flags 1 2 3 elf_align_down_eq) (simp add: vec_resize_def built_image_def PAGE_SIZE_eq replicate_add [symmetric])
qed

section \<open>Parsing the built image\<close>

lemma read_built_header:
  "read_u16 (built_header entry) 16 = Ok 2" "read_u16 (built_header entry) 18 = Ok 243" "read_u32 (built_header entry) 20 = Ok 1"
  "entry \<le> usize_MAX \<Longrightarrow> read_u64 (built_header entry) 24 = Ok entry" "read_u64 (built_header entry) 32 = Ok 64"
  "read_u16 (built_header entry) 52 = Ok 64" "read_u16 (built_header entry) 54 = Ok 56" "read_u16 (built_header entry) 56 = Ok 2"
  by (simp_all add: read_le_def slice_get_def built_header_def usize_MAX_def)

lemma read_built_phdr:
  assumes "flags < 2 ^ 32" "off \<le> usize_MAX" "v \<le> usize_MAX" "fs \<le> usize_MAX" "ms \<le> usize_MAX"
  shows "read_phdr (built_phdr flags off v fs ms) = Ok \<lparr>p_type = 1, p_flags = flags, p_offset = off, p_vaddr = v, p_filesz = fs,
    p_memsz = ms, p_align = PAGE_SIZE\<rparr>"
  using assms by (simp add: read_phdr_def read_le_def slice_get_def built_phdr_def usize_MAX_def PAGE_SIZE_eq)

text \<open>The area and the segment of one page that the builder describes.\<close>

definition page_area :: "u32 \<Rightarrow> usize \<Rightarrow> VirtAddr \<Rightarrow> VmArea" where
  "page_area flags off v = \<lparr>va_range = \<lparr>vr_start = v, vr_end = v + PAGE_SIZE\<rparr>, va_flags = segment_flags flags, va_kind = FileBacked 1 off\<rparr>"

definition page_segment :: "usize \<Rightarrow> VirtAddr \<Rightarrow> usize \<Rightarrow> LoadSegment" where
  "page_segment off v fs = \<lparr>ls_virtual_address = v, ls_memory_size = PAGE_SIZE, ls_file_offset = off, ls_file_size = fs\<rparr>"

lemma scan_load_page:
  assumes ph: "p_offset ph = off" "p_vaddr ph = v" "p_filesz ph = fs" "p_memsz ph = PAGE_SIZE" "p_align ph = PAGE_SIZE"
    and table: "et_load_bias table = 0" "et_phoff table < off"
    and img: "off + fs \<le> length img" "length img \<le> usize_MAX" "fs \<le> PAGE_SIZE"
    and aligned: "PAGE_SIZE dvd v" "PAGE_SIZE dvd off" and user: "v + PAGE_SIZE \<le> vr_end USER_RANGE"
    and apart: "\<And>a. a \<in> set (es_areas st) \<Longrightarrow> \<not> VirtRange_overlaps (va_range a) \<lparr>vr_start = v, vr_end = v + PAGE_SIZE\<rparr>"
  shows "scan_load True img table ph st = Ok (st\<lparr>es_areas := es_areas st @ [page_area (p_flags ph) off v],
    es_segments := es_segments st @ [page_segment off v fs]\<rparr>)"
proof -
  have u: "v + PAGE_SIZE + (PAGE_SIZE - 1) \<le> usize_MAX" using user by (simp add: USER_RANGE_def usize_MAX_def PAGE_SIZE_eq)
  have low: "off AND (PAGE_SIZE - 1) = 0" "v AND (PAGE_SIZE - 1) = 0" using aligned by (simp_all only: and_pred_mod PAGE_SIZE_power_of_two dvd_imp_mod_0)
  have valid: "validate_segment img off v fs PAGE_SIZE PAGE_SIZE = Ok ()"
    using img u low by (auto simp: validate_segment_def checked_add_def)
  have up: "elf_align_up (v + PAGE_SIZE) PAGE_SIZE = Some (v + PAGE_SIZE)" using u aligned by (simp add: elf_align_up_Some)
  have down: "elf_align_down v PAGE_SIZE = v" "elf_align_down off PAGE_SIZE = off"
    using u img aligned by (simp_all add: elf_align_down_eq)
  have inside: "VirtRange_contains_range USER_RANGE \<lparr>vr_start = v, vr_end = v + PAGE_SIZE\<rparr>"
    using user by (simp add: VirtRange_contains_range_def USER_RANGE_def)
  have reject: "reject_area_overlap (es_areas st) \<lparr>vr_start = v, vr_end = v + PAGE_SIZE\<rparr> = Ok ()"
    using apart by (auto simp: reject_area_overlap_cases)
  show ?thesis using u table
    by (simp add: scan_load_def ph valid apply_load_bias_def checked_add_def down up inside reject VirtRange_from_bounds_def
        VmArea_new_def detect_program_headers_def page_area_def page_segment_def)
qed

lemma scan_header_page:
  assumes at: "slice_get img (64 + 56 * i) (64 + 56 * i + 56) = Some (built_phdr flags off v fs PAGE_SIZE)" "flags < 2 ^ 32"
    and table: "et_load_bias table = 0" "et_phoff table = 64" "64 < off"
    and img: "off + fs \<le> length img" "length img \<le> usize_MAX" "fs \<le> PAGE_SIZE"
    and aligned: "PAGE_SIZE dvd v" "PAGE_SIZE dvd off" and user: "v + PAGE_SIZE \<le> vr_end USER_RANGE"
    and apart: "\<And>a. a \<in> set (es_areas st) \<Longrightarrow> \<not> VirtRange_overlaps (va_range a) \<lparr>vr_start = v, vr_end = v + PAGE_SIZE\<rparr>"
  shows "scan_header (\<lambda>_. True) img table i st = Ok (st\<lparr>es_areas := es_areas st @ [page_area flags off v],
    es_segments := es_segments st @ [page_segment off v fs]\<rparr>)"
proof -
  let ?ph = "\<lparr>p_type = 1, p_flags = flags, p_offset = off, p_vaddr = v, p_filesz = fs, p_memsz = PAGE_SIZE, p_align = PAGE_SIZE\<rparr>"
  have "v \<le> usize_MAX" "PAGE_SIZE \<le> usize_MAX" using user by (simp_all add: USER_RANGE_def usize_MAX_def PAGE_SIZE_eq)
  then have ph: "read_phdr (built_phdr flags off v fs PAGE_SIZE) = Ok ?ph" using at(2) img by (intro read_built_phdr) simp_all
  have "64 + 56 * i + 56 \<le> usize_MAX" using at(1) img by (auto simp: slice_get_Some)
  then show ?thesis
    using scan_load_page [of ?ph off v fs table img st] assms
    by (simp add: scan_header_def checked_mul_def checked_add_def add_usize_cases ph mult.commute)
qed

lemma elf_parse_built:
  assumes code: "code \<noteq> []" "length code \<le> PAGE_SIZE" and entry: "entry < vr_end USER_RANGE"
    and data: "PAGE_SIZE dvd data_vaddr" "data_vaddr + PAGE_SIZE \<le> vr_end USER_RANGE" "round_down PAGE_SIZE entry \<noteq> data_vaddr"
  shows "elf_parse (\<lambda>_. True) (built_image entry code data_vaddr) = Ok \<lparr>elf_kind = Executable, elf_entry = entry, elf_load_bias = 0,
    elf_program_headers = None, elf_interpreter = None, elf_dynamic = None,
    elf_areas = [page_area 5 PAGE_SIZE (round_down PAGE_SIZE entry), page_area 6 (PAGE_SIZE * 2) data_vaddr],
    elf_segments = [page_segment PAGE_SIZE (round_down PAGE_SIZE entry) (length code), page_segment (PAGE_SIZE * 2) data_vaddr PAGE_SIZE]\<rparr>"
proof -
  let ?img = "built_image entry code data_vaddr" and ?v = "round_down PAGE_SIZE entry"
  let ?table = "\<lparr>et_load_bias = 0, et_phoff = 64, et_phnum = 2, et_phdr_length = 112, et_phdr_end = 176\<rparr>"
  let ?empty = "\<lparr>es_areas = [], es_segments = [], es_program_headers = None, es_interpreter = None, es_dynamic = None\<rparr>"
  have len: "length ?img = PAGE_SIZE * 3" using code by (simp add: built_image_def PAGE_SIZE_eq)
  have big: "length ?img \<le> usize_MAX" "64 < PAGE_SIZE" by (simp_all add: len PAGE_SIZE_eq usize_MAX_def)
  have small: "entry \<le> usize_MAX" "VirtRange_contains USER_RANGE entry"
    using entry by (simp_all add: USER_RANGE_def usize_MAX_def VirtRange_contains_def)
  have dv: "PAGE_SIZE dvd ?v" by simp
  have v: "?v + PAGE_SIZE \<le> vr_end USER_RANGE"
  proof -
    have "?v < vr_end USER_RANGE" using entry round_down_le [of PAGE_SIZE entry] by simp
    moreover have "PAGE_SIZE dvd vr_end USER_RANGE" by (simp add: USER_RANGE_def PAGE_SIZE_eq)
    ultimately show ?thesis using dv by (auto simp: dvd_def PAGE_SIZE_eq)
  qed
  have apart: "\<not> VirtRange_overlaps \<lparr>vr_start = ?v, vr_end = ?v + PAGE_SIZE\<rparr> \<lparr>vr_start = data_vaddr, vr_end = data_vaddr + PAGE_SIZE\<rparr>"
    using data(1,3) dv by (auto simp: VirtRange_overlaps_def dvd_def PAGE_SIZE_eq)
  have ph: "slice_get ?img 64 120 = Some (built_phdr 5 PAGE_SIZE ?v (length code) PAGE_SIZE)"
    "slice_get ?img 120 176 = Some (built_phdr 6 (PAGE_SIZE * 2) data_vaddr PAGE_SIZE PAGE_SIZE)"
    "slice_get ?img 0 64 = Some (built_header entry)"
    using code by (simp_all add: slice_get_def built_image_def PAGE_SIZE_eq)
  have 1: "scan_header (\<lambda>_. True) ?img ?table 0 ?empty = Ok (?empty\<lparr>es_areas := [page_area 5 PAGE_SIZE ?v], es_segments := [page_segment PAGE_SIZE ?v (length code)]\<rparr>)"
    using scan_header_page [of ?img 0 5 PAGE_SIZE ?v "length code" ?table ?empty] code v len big ph by simp
  have 2: "scan_header (\<lambda>_. True) ?img ?table 1 st = Ok (st\<lparr>es_areas := es_areas st @ [page_area 6 (PAGE_SIZE * 2) data_vaddr],
      es_segments := es_segments st @ [page_segment (PAGE_SIZE * 2) data_vaddr PAGE_SIZE]\<rparr>)"
    if "es_areas st = [page_area 5 PAGE_SIZE ?v]" for st
    using scan_header_page [of ?img 1 6 "PAGE_SIZE * 2" data_vaddr PAGE_SIZE ?table st] that apart data len big ph
    by (simp add: page_area_def)
  have head: "slice_get (built_header entry) 0 4 = Some [0x7f, 0x45, 0x4c, 0x46]" "built_header entry ! 4 = 2" "built_header entry ! 5 = 1"
    "built_header entry ! 6 = 1" by (simp_all add: slice_get_def built_header_def)
  have fits: "176 \<le> length ?img" by (simp add: len PAGE_SIZE_eq)
  have two: "[0..<2] = [0, 1::nat]" by code_simp
  show ?thesis
    using small big fits
    by (simp add: elf_parse_def parse_impl_def ph head read_built_header apply_load_bias_def checked_add_def checked_mul_def two
        1 2 [unfolded One_nat_def] usize_MAX_def)
qed

section \<open>A header that stops the kernel\<close>

text \<open>An executable of 120 bytes: the ELF header and one interpreter header at the end of the 64-bit offsets.\<close>

definition crafted_image :: bytes where
  "crafted_image = [0x7f, 0x45, 0x4c, 0x46, 2, 1, 1] @ replicate 9 0 @ to_le 2 2 @ to_le 2 243 @ to_le 4 1 @ to_le 8 0x1000
     @ to_le 8 64 @ replicate 12 0 @ to_le 2 64 @ to_le 2 56 @ to_le 2 1 @ replicate 6 0
     @ to_le 4 3 @ to_le 4 4 @ to_le 8 usize_MAX @ to_le 8 0 @ to_le 8 0 @ to_le 8 1 @ to_le 8 1 @ to_le 8 1"

lemma parse_impl_crafted: "parse_impl rok crafted_image bias = Panic"
proof -
  let ?table = "\<lparr>et_load_bias = 0, et_phoff = 64, et_phnum = 1, et_phdr_length = 56, et_phdr_end = 120\<rparr>"
  have "slice_get crafted_image 64 120 = Some (drop 64 crafted_image)" by (simp add: slice_get_def crafted_image_def)
  moreover have "read_phdr (drop 64 crafted_image) = Ok \<lparr>p_type = 3, p_flags = 4, p_offset = usize_MAX, p_vaddr = 0, p_filesz = 1,
      p_memsz = 1, p_align = 1\<rparr>"
    by (simp add: read_phdr_def read_le_def slice_get_def crafted_image_def usize_MAX_def)
  ultimately have scan: "scan_header rok crafted_image ?table 0 st = Panic" if "es_interpreter st = None" for st
    using that by (simp add: scan_header_def checked_mul_def checked_add_def add_usize_cases scan_interp_def read_interpreter_def usize_MAX_def)
  have one: "[0..<1] = [0::nat]" by simp
  have len: "length crafted_image = 120" by (simp add: crafted_image_def)
  have head: "slice_get crafted_image 0 64 = Some (take 64 crafted_image)" by (simp add: slice_get_def len)
  have reads: "read_u16 (take 64 crafted_image) 16 = Ok 2" "read_u16 (take 64 crafted_image) 18 = Ok 243"
    "read_u32 (take 64 crafted_image) 20 = Ok 1" "read_u64 (take 64 crafted_image) 24 = Ok 0x1000" "read_u64 (take 64 crafted_image) 32 = Ok 64"
    "read_u16 (take 64 crafted_image) 52 = Ok 64" "read_u16 (take 64 crafted_image) 54 = Ok 56" "read_u16 (take 64 crafted_image) 56 = Ok 1"
    by (simp_all add: read_le_def slice_get_def crafted_image_def)
  have magic: "slice_get (take 64 crafted_image) 0 4 = Some [0x7f, 0x45, 0x4c, 0x46]" "take 64 crafted_image ! 4 = 2"
    "take 64 crafted_image ! 5 = 1" "take 64 crafted_image ! 6 = 1"
    by (simp_all add: slice_get_def crafted_image_def)
  show ?thesis
    by (simp add: parse_impl_def head magic reads apply_load_bias_def checked_add_def checked_mul_def VirtRange_contains_def USER_RANGE_def
        usize_MAX_def len scan one Let_def del: One_nat_def)
qed

section \<open>Theorems\<close>



text \<open>
  C30. The exception is real: there is a file of 120 bytes on which the parser panics, because \<open>read_interpreter\<close> adds the
  offset and the size of the interpreter path without a check. The kernel is built with overflow checks and aborts on a
  panic, so executing such a file stops the kernel.
\<close>

theorem elf_parse_interpreter_panics:
  "\<exists>img. length img = 120 \<and> (\<forall>reserve_ok. elf_parse reserve_ok img = Panic)"
proof -
  have "length crafted_image = 120" by (simp add: crafted_image_def)
  then show ?thesis using parse_impl_crafted by (auto simp: elf_parse_def)
qed

text \<open>
  C29. The builder of static executables and the parser agree. For code of at most a page, an entry point in user space and
  a page-aligned data page in user space other than the page of the entry, the builder gives an image, and the parser reads
  from it an executable with that entry, no interpreter, the code page readable and executable and the data page
  readable and writable, each backed by the file offset at which the builder put its bytes; and at the file offset of
  the first segment the image has the code.
\<close>

theorem build_static_exec_parses:
  assumes "code \<noteq> []" "length code \<le> PAGE_SIZE" "entry < vr_end USER_RANGE"
    and "PAGE_SIZE dvd data_vaddr" "data_vaddr + PAGE_SIZE \<le> vr_end USER_RANGE" "round_down PAGE_SIZE entry \<noteq> data_vaddr"
  shows "\<exists>img. build_static_exec True entry code data_vaddr = Ok img
    \<and> elf_parse (\<lambda>_. True) img = Ok \<lparr>elf_kind = Executable, elf_entry = entry, elf_load_bias = 0,
        elf_program_headers = None, elf_interpreter = None, elf_dynamic = None,
        elf_areas = [page_area 5 PAGE_SIZE (round_down PAGE_SIZE entry), page_area 6 (PAGE_SIZE * 2) data_vaddr],
        elf_segments = [page_segment PAGE_SIZE (round_down PAGE_SIZE entry) (length code), page_segment (PAGE_SIZE * 2) data_vaddr PAGE_SIZE]\<rparr>
    \<and> slice_get img PAGE_SIZE (PAGE_SIZE + length code) = Some code"
proof -
  have "entry \<le> usize_MAX" using assms(3) by (simp add: USER_RANGE_def usize_MAX_def)
  then have "build_static_exec True entry code data_vaddr = Ok (built_image entry code data_vaddr)"
    using assms by (simp add: build_static_exec_image)
  moreover have "slice_get (built_image entry code data_vaddr) PAGE_SIZE (PAGE_SIZE + length code) = Some code"
    using assms(2) by (simp add: slice_get_def built_image_def PAGE_SIZE_eq)
  ultimately show ?thesis using elf_parse_built [OF assms] by blast
qed

theorem build_static_exec_parses_witness:
  "\<exists>img elf. build_static_exec True 0x10004 [0x13, 0, 0, 0, 0x73, 0, 0, 0] 0x20000 = Ok img \<and> elf_parse (\<lambda>_. True) img = Ok elf
     \<and> elf_entry elf = 0x10004 \<and> map va_range (elf_areas elf) = [\<lparr>vr_start = 0x10000, vr_end = 0x11000\<rparr>, \<lparr>vr_start = 0x20000, vr_end = 0x21000\<rparr>]"
  using build_static_exec_parses [of "[0x13, 0, 0, 0, 0x73, 0, 0, 0]" "0x10004" "0x20000"]
  by (auto simp: USER_RANGE_def PAGE_SIZE_eq round_down_def page_area_def)

end
