(* ===== verification/Slab.thy ===== *)
theory Slab
  imports Page_Alloc
begin

text \<open>
  The slab allocator of the kernel heap, \<open>mm/src/slab\<close>. A slab is one page: a header and then objects of one size
  class. The headers are a map from page addresses to header records; all other memory is a map from
  addresses to bytes, in which a free object holds the index of the next free object in its first two bytes. The
  provider of pages is a record of functions on its own state, as in the trait \<open>PageProvider\<close>.
\<close>

section \<open>Size classes\<close>

record Layout =
  layout_size :: usize
  layout_align :: usize

type_synonym SizeClass = nat

definition SIZE_CLASS_COUNT :: usize where "SIZE_CLASS_COUNT = 9"

definition MIN_SLAB_OBJECT_SIZE :: usize where "MIN_SLAB_OBJECT_SIZE = 8"

definition CLASS_SIZES :: "usize list" where
  "CLASS_SIZES = [8, 16, 32, 64, 128, 256, 512, 1024, 2048]"

definition SizeClass_size :: "SizeClass \<Rightarrow> usize" where
  "SizeClass_size self = CLASS_SIZES ! self"

definition SizeClass_for_layout :: "Layout \<Rightarrow> SizeClass option" where
  "SizeClass_for_layout layout =
     (let required = max (max (layout_size layout) 1) (layout_align layout) in
      position (\<lambda>sz. required \<le> sz) CLASS_SIZES)"

definition SizeClass_from_index :: "usize \<Rightarrow> SizeClass option" where
  "SizeClass_from_index index = (if index < SIZE_CLASS_COUNT then Some index else None)"

section \<open>The provider and the memory\<close>

record ('p, 'e) PageProvider =
  pp_allocate_pages :: "nat \<Rightarrow> ('p, PageAllocation, 'e) action"
  pp_free_pages :: "PageAllocation \<Rightarrow> ('p, unit, 'e) action"
  pp_allocation_pointer :: "'p \<Rightarrow> PageAllocation \<Rightarrow> (usize, 'e) result"

definition allocate_slab_page :: "('p, 'e) PageProvider \<Rightarrow> ('p, PageAllocation, 'e) action" where
  "allocate_slab_page provider = pp_allocate_pages provider 0"

definition free_slab_page :: "('p, 'e) PageProvider \<Rightarrow> PageAllocation \<Rightarrow> ('p, unit, 'e) action" where
  "free_slab_page provider allocation = pp_free_pages provider allocation"

datatype 'e SlabError =
    SlabProvider 'e
  | ProviderReturnedWrongOrder usize
  | ProviderReturnedMisalignedPage
  | HeaderTooLarge
  | CorruptHeader
  | SlabCorruptFreeList
  | InvalidObjectPointer
  | WrongSizeClass usize usize
  | DoubleFree
  | SlabCounterOverflow

definition SLAB_MAGIC :: "64 word" where "SLAB_MAGIC = 0x534c41424d594f53"

definition DEAD_SLAB_MAGIC :: "64 word" where "DEAD_SLAB_MAGIC = 0x44454144534c4142"

abbreviation (input) NULL_SLAB_LINK :: usize where "NULL_SLAB_LINK \<equiv> 0"

definition INVALID_SLOT :: u16 where "INVALID_SLOT = u16_MAX"

definition MAX_OBJECTS_PER_SLAB :: usize where "MAX_OBJECTS_PER_SLAB = PAGE_SIZE div MIN_SLAB_OBJECT_SIZE"

definition BITMAP_WORDS :: usize where "BITMAP_WORDS = (MAX_OBJECTS_PER_SLAB + 63) div 64"

definition ALLOCATED_OBJECT_POISON :: u8 where "ALLOCATED_OBJECT_POISON = 0xa7"

definition FREED_OBJECT_POISON :: u8 where "FREED_OBJECT_POISON = 0xd7"

record SlabHeader =
  sh_magic :: "64 word"
  sh_partial_previous :: usize
  sh_partial_next :: usize
  sh_allocation :: PageAllocation
  sh_allocated_bitmap :: "64 word list"
  sh_capacity :: u16
  sh_free_count :: u16
  sh_first_free :: u16
  sh_class_index :: nat
  sh_listed_partial :: nat

text \<open>The size of the header: three words, the token in two words, eight words of bitmap and a word of small fields.\<close>

definition size_of_SlabHeader :: usize where "size_of_SlabHeader = 112"

record 'p slab_world =
  sw_provider :: 'p
  sw_header :: "usize \<Rightarrow> SlabHeader"
  sw_memory :: "usize \<Rightarrow> u8"
  sw_debug :: bool

definition on_provider :: "('p, 'a, 'e) action \<Rightarrow> (('p, 'z) slab_world_scheme, 'a, 'e SlabError) action" where
  "on_provider act s = (let (r, p) = act (sw_provider s) in (map_err SlabProvider r, s\<lparr>sw_provider := p\<rparr>))"

definition update_header :: "usize \<Rightarrow> (SlabHeader \<Rightarrow> SlabHeader) \<Rightarrow> (('p, 'z) slab_world_scheme, unit, 'e SlabError) action" where
  "update_header slab f = smodify (\<lambda>s. s\<lparr>sw_header := (sw_header s)(slab := f (sw_header s slab))\<rparr>)"

definition write_bytes :: "usize \<Rightarrow> u8 \<Rightarrow> usize \<Rightarrow> (usize \<Rightarrow> u8) \<Rightarrow> usize \<Rightarrow> u8" where
  "write_bytes a v n m = (\<lambda>x. if a \<le> x \<and> x < a + n then v else m x)"

definition read_link :: "(usize \<Rightarrow> u8) \<Rightarrow> usize \<Rightarrow> u16" where
  "read_link m a = unat (m a) + 256 * unat (m (a + 1))"

definition write_link :: "usize \<Rightarrow> u16 \<Rightarrow> (usize \<Rightarrow> u8) \<Rightarrow> usize \<Rightarrow> u8" where
  "write_link a v m = m(a := of_nat v, a + 1 := of_nat (v div 256))"

section \<open>One slab\<close>

definition slab_align_up :: "usize \<Rightarrow> usize \<Rightarrow> usize option" where
  "slab_align_up v alignment = map_option (\<lambda>x. x AND usize_not (alignment - 1)) (checked_add v (alignment - 1))"

definition object_offset :: "SizeClass \<Rightarrow> usize option" where
  "object_offset class = slab_align_up size_of_SlabHeader (SizeClass_size class)"

definition SlabHeader_class :: "SlabHeader \<Rightarrow> (SizeClass, 'e SlabError) result" where
  "SlabHeader_class self = ok_or (SizeClass_from_index (sh_class_index self)) CorruptHeader"

definition SlabHeader_is_empty :: "SlabHeader \<Rightarrow> bool" where
  "SlabHeader_is_empty self \<longleftrightarrow> sh_free_count self = sh_capacity self"

definition SlabHeader_is_full :: "SlabHeader \<Rightarrow> bool" where
  "SlabHeader_is_full self \<longleftrightarrow> sh_free_count self = 0"

definition SlabHeader_object_pointer :: "usize \<Rightarrow> SlabHeader \<Rightarrow> usize \<Rightarrow> (usize, 'e SlabError) result" where
  "SlabHeader_object_pointer base self index =
     rbind (expect (SizeClass_from_index (sh_class_index self))) (\<lambda>class.
     rbind (expect (object_offset class)) (\<lambda>offset.
     rbind (mul_usize index (SizeClass_size class)) (\<lambda>rel.
     rbind (add_usize offset rel) (\<lambda>delta. Ok (base + delta)))))"

definition SlabHeader_object_index :: "usize \<Rightarrow> SlabHeader \<Rightarrow> usize \<Rightarrow> SizeClass \<Rightarrow> (usize, 'e SlabError) result" where
  "SlabHeader_object_index base self address class =
     rbind (ok_or (object_offset class) CorruptHeader) (\<lambda>offset.
     rbind (ok_or (checked_add base offset) CorruptHeader) (\<lambda>object_start.
     rbind (ok_or (checked_mul (sh_capacity self) (SizeClass_size class)) CorruptHeader) (\<lambda>object_bytes.
     rbind (ok_or (checked_add object_start object_bytes) CorruptHeader) (\<lambda>object_end.
     if address < object_start \<or> object_end \<le> address then Err InvalidObjectPointer
     else
       let relative = address - object_start in
       if relative mod SizeClass_size class \<noteq> 0 then Err InvalidObjectPointer
       else
         let index = relative div SizeClass_size class in
         if sh_capacity self \<le> index then Err InvalidObjectPointer else Ok index))))"

definition SlabHeader_is_allocated :: "SlabHeader \<Rightarrow> usize \<Rightarrow> (bool, 'e SlabError) result" where
  "SlabHeader_is_allocated self index =
     (if index div 64 < length (sh_allocated_bitmap self)
      then Ok (sh_allocated_bitmap self ! (index div 64) AND push_bit (index mod 64) 1 \<noteq> 0)
      else Panic)"

definition SlabHeader_set_allocated :: "SlabHeader \<Rightarrow> usize \<Rightarrow> bool \<Rightarrow> (SlabHeader, 'e SlabError) result" where
  "SlabHeader_set_allocated self index allocated =
     (if index div 64 < length (sh_allocated_bitmap self)
      then
        let word = sh_allocated_bitmap self ! (index div 64); mask = push_bit (index mod 64) 1 in
        Ok (self\<lparr>sh_allocated_bitmap := (sh_allocated_bitmap self)[index div 64 := if allocated then word OR mask else word AND NOT mask]\<rparr>)
      else Panic)"

definition release_page :: "('p, 'e) PageProvider \<Rightarrow> PageAllocation \<Rightarrow> 'e SlabError \<Rightarrow> (('p, 'z) slab_world_scheme, 'a, 'e SlabError) action" where
  "release_page provider allocation error = sseq (on_provider (free_slab_page provider allocation)) (sfail error)"

definition link_slot :: "usize \<Rightarrow> usize \<Rightarrow> usize \<Rightarrow> (('p, 'z) slab_world_scheme, unit, 'e SlabError) action" where
  "link_slot base capacity index =
     sbind (sget (\<lambda>s. sw_header s base)) (\<lambda>header.
     sbind (slift (SlabHeader_object_pointer base header index)) (\<lambda>object.
     smodify (\<lambda>s. s\<lparr>sw_memory := write_link object (if index + 1 < capacity then index + 1 else INVALID_SLOT) (sw_memory s)\<rparr>)))"

definition SlabHeader_create :: "('p, 'e) PageProvider \<Rightarrow> SizeClass \<Rightarrow> (('p, 'z) slab_world_scheme, usize, 'e SlabError) action" where
  "SlabHeader_create provider class =
     sbind (on_provider (allocate_slab_page provider)) (\<lambda>allocation.
     if pa_order allocation \<noteq> 0
     then release_page provider allocation (ProviderReturnedWrongOrder (pa_order allocation))
     else
       sbind (\<lambda>s. case pp_allocation_pointer provider (sw_provider s) allocation of
           Ok pointer \<Rightarrow> (Ok pointer, s)
         | Err error \<Rightarrow> release_page provider allocation (SlabProvider error) s
         | Panic \<Rightarrow> (Panic, s)) (\<lambda>base.
       if base mod PAGE_SIZE \<noteq> 0 then release_page provider allocation ProviderReturnedMisalignedPage
       else
         sbind (slift (ok_or (object_offset class) HeaderTooLarge)) (\<lambda>offset.
         if PAGE_SIZE \<le> offset then release_page provider allocation HeaderTooLarge
         else
           let capacity = (PAGE_SIZE - offset) div SizeClass_size class in
           if capacity = 0 \<or> MAX_OBJECTS_PER_SLAB < capacity \<or> u16_MAX < capacity
           then release_page provider allocation HeaderTooLarge
           else
             sseq (update_header base (\<lambda>_. \<lparr>sh_magic = SLAB_MAGIC, sh_partial_previous = NULL_SLAB_LINK, sh_partial_next = NULL_SLAB_LINK,
                 sh_allocation = allocation, sh_allocated_bitmap = replicate BITMAP_WORDS 0, sh_capacity = capacity,
                 sh_free_count = capacity, sh_first_free = 0, sh_class_index = class, sh_listed_partial = 0\<rparr>))
             (sseq (sforeach (link_slot base capacity) [0..<capacity]) (sreturn base)))))"

definition SlabHeader_from_object :: "usize \<Rightarrow> (('p, 'z) slab_world_scheme, usize, 'e SlabError) action" where
  "SlabHeader_from_object object =
     (let page_base = object AND usize_not (PAGE_SIZE - 1) in
      if page_base = 0 then sfail InvalidObjectPointer
      else
        sbind (sget (\<lambda>s. sw_header s page_base)) (\<lambda>header.
        if sh_magic header \<noteq> SLAB_MAGIC then sfail CorruptHeader else sreturn page_base))"

definition SlabHeader_allocate_object :: "usize \<Rightarrow> (('p, 'z) slab_world_scheme, usize, 'e SlabError) action" where
  "SlabHeader_allocate_object slab =
     sbind (sget (\<lambda>s. sw_header s slab)) (\<lambda>self.
     if sh_magic self \<noteq> SLAB_MAGIC then sfail CorruptHeader
     else if SlabHeader_is_full self then sfail SlabCorruptFreeList
     else
       let index = sh_first_free self in
       if sh_capacity self \<le> index then sfail SlabCorruptFreeList
       else
         sbind (slift (SlabHeader_is_allocated self index)) (\<lambda>allocated.
         if allocated then sfail SlabCorruptFreeList
         else
           sbind (slift (SlabHeader_object_pointer slab self index)) (\<lambda>object.
           sbind (sget (\<lambda>s. read_link (sw_memory s) object)) (\<lambda>next_free.
           if next_free \<noteq> INVALID_SLOT \<and> sh_capacity self \<le> next_free then sfail SlabCorruptFreeList
           else
             sseq (update_header slab (\<lambda>h. h\<lparr>sh_first_free := next_free\<rparr>))
             (sbind (slift (ok_or (checked_sub (sh_free_count self) 1) SlabCorruptFreeList)) (\<lambda>free_count.
             sseq (update_header slab (\<lambda>h. h\<lparr>sh_free_count := free_count\<rparr>))
             (sbind (sread (\<lambda>s. SlabHeader_set_allocated (sw_header s slab) index True)) (\<lambda>self'.
             sseq (update_header slab (\<lambda>_. self'))
             (sbind (sget sw_debug) (\<lambda>debug.
             sseq (swhen debug (sbind (slift (SlabHeader_class self')) (\<lambda>class.
               smodify (\<lambda>s. s\<lparr>sw_memory := write_bytes object ALLOCATED_OBJECT_POISON (SizeClass_size class) (sw_memory s)\<rparr>))))
             (if object = 0 then sfail CorruptHeader else sreturn object)))))))))))"

record SlabFreeOutcome =
  was_full :: bool
  became_empty :: bool

definition SlabHeader_free_object :: "usize \<Rightarrow> usize \<Rightarrow> (('p, 'z) slab_world_scheme, SlabFreeOutcome, 'e SlabError) action" where
  "SlabHeader_free_object slab object =
     sbind (sget (\<lambda>s. sw_header s slab)) (\<lambda>self.
     if sh_magic self \<noteq> SLAB_MAGIC then sfail CorruptHeader
     else
       sbind (slift (SlabHeader_class self)) (\<lambda>class.
       sbind (slift (SlabHeader_object_index slab self object class)) (\<lambda>index.
       sbind (slift (SlabHeader_is_allocated self index)) (\<lambda>allocated.
       if \<not> allocated then sfail DoubleFree
       else if sh_capacity self \<le> sh_free_count self then sfail SlabCorruptFreeList
       else
         sbind (slift (SlabHeader_set_allocated self index False)) (\<lambda>self'.
         sseq (update_header slab (\<lambda>_. self'))
         (sbind (sget sw_debug) (\<lambda>debug.
         sseq (swhen debug (smodify (\<lambda>s. s\<lparr>sw_memory := write_bytes object FREED_OBJECT_POISON (SizeClass_size class) (sw_memory s)\<rparr>)))
         (sseq (smodify (\<lambda>s. s\<lparr>sw_memory := write_link object (sh_first_free self') (sw_memory s)\<rparr>))
         (sseq (update_header slab (\<lambda>h. h\<lparr>sh_first_free := index\<rparr>))
         (sbind (slift (if sh_free_count self' + 1 \<le> u16_MAX then Ok (sh_free_count self' + 1) else Err SlabCounterOverflow)) (\<lambda>free_count.
         sseq (update_header slab (\<lambda>h. h\<lparr>sh_free_count := free_count\<rparr>))
         (sbind (sget (\<lambda>s. SlabHeader_is_empty (sw_header s slab))) (\<lambda>empty.
         sreturn \<lparr>was_full = SlabHeader_is_full self, became_empty = empty\<rparr>)))))))))))))"

definition SlabHeader_take_allocation :: "usize \<Rightarrow> (('p, 'z) slab_world_scheme, PageAllocation, 'e SlabError) action" where
  "SlabHeader_take_allocation slab =
     sseq (update_header slab (\<lambda>h. h\<lparr>sh_magic := DEAD_SLAB_MAGIC\<rparr>)) (sget (\<lambda>s. sh_allocation (sw_header s slab)))"

section \<open>The slabs of one size class\<close>

record SlabCacheStats =
  st_class_size :: usize
  st_slab_count :: usize
  st_empty_slabs :: usize
  st_allocated_objects :: usize

record SlabCache =
  sc_class :: SizeClass
  sc_partial_head :: usize
  sc_slab_count :: usize
  sc_empty_slabs :: usize
  sc_allocated_objects :: usize

text \<open>A cache at work: the cache next to the memory of its slabs and the provider it borrows.\<close>

record 'p cache_world = "'p slab_world" +
  cw_cache :: SlabCache

type_synonym ('p, 'a, 'e) cache_action = "('p cache_world, 'a, 'e SlabError) action"

definition SlabCache_new :: "SizeClass \<Rightarrow> SlabCache" where
  "SlabCache_new class = \<lparr>sc_class = class, sc_partial_head = NULL_SLAB_LINK, sc_slab_count = 0, sc_empty_slabs = 0, sc_allocated_objects = 0\<rparr>"

definition SlabCache_stats :: "SlabCache \<Rightarrow> SlabCacheStats" where
  "SlabCache_stats self = \<lparr>st_class_size = SizeClass_size (sc_class self), st_slab_count = sc_slab_count self,
     st_empty_slabs = sc_empty_slabs self, st_allocated_objects = sc_allocated_objects self\<rparr>"

definition update_cache :: "(SlabCache \<Rightarrow> (SlabCache, 'e SlabError) result) \<Rightarrow> ('p, unit, 'e) cache_action" where
  "update_cache f s =
     (case f (cw_cache s) of
        Ok c \<Rightarrow> (Ok (), s\<lparr>cw_cache := c\<rparr>)
      | Err e \<Rightarrow> (Err e, s)
      | Panic \<Rightarrow> (Panic, s))"

definition link_to_pointer :: "usize \<Rightarrow> (usize, 'e SlabError) result" where
  "link_to_pointer link = (if link = NULL_SLAB_LINK then Err CorruptHeader else Ok link)"

definition SlabCache_insert_partial :: "usize \<Rightarrow> ('p, unit, 'e) cache_action" where
  "SlabCache_insert_partial slab =
     sbind (sget (\<lambda>s. sh_listed_partial (sw_header s slab))) (\<lambda>listed.
     if listed \<noteq> 0 then sfail CorruptHeader
     else
       sbind (sget (\<lambda>s. sc_partial_head (cw_cache s))) (\<lambda>head.
       sseq (update_header slab (\<lambda>h. h\<lparr>sh_partial_previous := NULL_SLAB_LINK\<rparr>))
       (sseq (update_header slab (\<lambda>h. h\<lparr>sh_partial_next := head\<rparr>))
       (sseq (swhen (head \<noteq> NULL_SLAB_LINK)
          (sbind (slift (link_to_pointer head)) (\<lambda>previous_head.
           update_header previous_head (\<lambda>h. h\<lparr>sh_partial_previous := slab\<rparr>))))
       (sseq (update_header slab (\<lambda>h. h\<lparr>sh_listed_partial := 1\<rparr>))
       (update_cache (\<lambda>c. Ok (c\<lparr>sc_partial_head := slab\<rparr>))))))))"

definition SlabCache_remove_partial :: "usize \<Rightarrow> ('p, unit, 'e) cache_action" where
  "SlabCache_remove_partial slab =
     sbind (sget (\<lambda>s. sw_header s slab)) (\<lambda>self.
     if sh_listed_partial self = 0 then sfail CorruptHeader
     else
       let previous = sh_partial_previous self; following = sh_partial_next self in
       sseq
         (if previous = NULL_SLAB_LINK
          then sbind (sget (\<lambda>s. sc_partial_head (cw_cache s))) (\<lambda>head.
            if head \<noteq> slab then sfail CorruptHeader
            else update_cache (\<lambda>c. Ok (c\<lparr>sc_partial_head := following\<rparr>)))
          else sbind (slift (link_to_pointer previous)) (\<lambda>previous_pointer.
            update_header previous_pointer (\<lambda>h. h\<lparr>sh_partial_next := following\<rparr>)))
       (sseq (swhen (following \<noteq> NULL_SLAB_LINK)
          (sbind (slift (link_to_pointer following)) (\<lambda>next_pointer.
           update_header next_pointer (\<lambda>h. h\<lparr>sh_partial_previous := previous\<rparr>))))
       (update_header slab (\<lambda>h. h\<lparr>sh_partial_previous := NULL_SLAB_LINK, sh_partial_next := NULL_SLAB_LINK, sh_listed_partial := 0\<rparr>))))"

definition add_slab :: "('p, 'e) PageProvider \<Rightarrow> ('p, unit, 'e) cache_action" where
  "add_slab provider =
     sbind (sget (\<lambda>s. sc_class (cw_cache s))) (\<lambda>class.
     sbind (SlabHeader_create provider class) (\<lambda>slab.
     sseq (SlabCache_insert_partial slab)
     (sseq (update_cache (\<lambda>c. rbind (ok_or (checked_add (sc_slab_count c) 1) SlabCounterOverflow) (\<lambda>n. Ok (c\<lparr>sc_slab_count := n\<rparr>))))
     (update_cache (\<lambda>c. rbind (ok_or (checked_add (sc_empty_slabs c) 1) SlabCounterOverflow) (\<lambda>n. Ok (c\<lparr>sc_empty_slabs := n\<rparr>)))))))"

definition SlabCache_allocate :: "('p, 'e) PageProvider \<Rightarrow> ('p, usize, 'e) cache_action" where
  "SlabCache_allocate provider =
     sbind (sget (\<lambda>s. sc_partial_head (cw_cache s))) (\<lambda>head.
     sseq (swhen (head = NULL_SLAB_LINK) (add_slab provider))
     (sbind (sread (\<lambda>s. link_to_pointer (sc_partial_head (cw_cache s)))) (\<lambda>slab.
     sbind (sget (\<lambda>s. SlabHeader_is_empty (sw_header s slab))) (\<lambda>was_empty.
     sbind (SlabHeader_allocate_object slab) (\<lambda>object.
     sbind (sget (\<lambda>s. SlabHeader_is_full (sw_header s slab))) (\<lambda>became_full.
     sseq (swhen was_empty
       (update_cache (\<lambda>c. rbind (ok_or (checked_sub (sc_empty_slabs c) 1) CorruptHeader) (\<lambda>n. Ok (c\<lparr>sc_empty_slabs := n\<rparr>)))))
     (sseq (swhen became_full (SlabCache_remove_partial slab))
     (sseq (update_cache (\<lambda>c. rbind (ok_or (checked_add (sc_allocated_objects c) 1) SlabCounterOverflow) (\<lambda>n.
       Ok (c\<lparr>sc_allocated_objects := n\<rparr>))))
     (sreturn object)))))))))"

text \<open>The release of an empty slab that has been taken from the list.\<close>

definition drop_slab :: "('p, 'e) PageProvider \<Rightarrow> bool \<Rightarrow> usize \<Rightarrow> ('p, unit, 'e) cache_action" where
  "drop_slab provider counted slab =
     sseq (SlabCache_remove_partial slab)
     (sbind (SlabHeader_take_allocation slab) (\<lambda>allocation.
     sseq (update_cache (\<lambda>c. rbind (ok_or (checked_sub (sc_slab_count c) 1) CorruptHeader) (\<lambda>n. Ok (c\<lparr>sc_slab_count := n\<rparr>))))
     (sseq (swhen counted
       (update_cache (\<lambda>c. rbind (ok_or (checked_sub (sc_empty_slabs c) 1) CorruptHeader) (\<lambda>n. Ok (c\<lparr>sc_empty_slabs := n\<rparr>)))))
     (on_provider (free_slab_page provider allocation)))))"

definition SlabCache_deallocate :: "('p, 'e) PageProvider \<Rightarrow> usize \<Rightarrow> ('p, unit, 'e) cache_action" where
  "SlabCache_deallocate provider object =
     sbind (SlabHeader_from_object object) (\<lambda>slab.
     sbind (sread (\<lambda>s. SlabHeader_class (sw_header s slab))) (\<lambda>actual_class.
     sbind (sget (\<lambda>s. sc_class (cw_cache s))) (\<lambda>class.
     if actual_class \<noteq> class then sfail (WrongSizeClass (SizeClass_size class) (SizeClass_size actual_class))
     else
       sbind (SlabHeader_free_object slab object) (\<lambda>outcome.
       sseq (swhen (was_full outcome) (SlabCache_insert_partial slab))
       (sseq (update_cache (\<lambda>c. rbind (ok_or (checked_sub (sc_allocated_objects c) 1) CorruptHeader) (\<lambda>n.
         Ok (c\<lparr>sc_allocated_objects := n\<rparr>))))
       (swhen (became_empty outcome)
         (sbind (sget (\<lambda>s. sc_empty_slabs (cw_cache s))) (\<lambda>empty_slabs.
          if empty_slabs = 0 then update_cache (\<lambda>c. Ok (c\<lparr>sc_empty_slabs := 1\<rparr>))
          else drop_slab provider False slab))))))))"

text \<open>The walk over the list ends when the list does, which a damaged list might not.\<close>

partial_function (option) shrink_loop :: "('p, 'e) PageProvider \<Rightarrow> usize \<Rightarrow> 'p cache_world \<Rightarrow> ((unit, 'e SlabError) result \<times> 'p cache_world) option" where
  "shrink_loop provider current s =
     (if current = NULL_SLAB_LINK then Some (Ok (), s)
      else
        let following = sh_partial_next (sw_header s current) in
        case swhen (SlabHeader_is_empty (sw_header s current)) (drop_slab provider True current) s of
          (Ok _, s') \<Rightarrow> shrink_loop provider following s'
        | (Err e, s') \<Rightarrow> Some (Err e, s')
        | (Panic, s') \<Rightarrow> Some (Panic, s'))"

definition SlabCache_shrink :: "('p, 'e) PageProvider \<Rightarrow> 'p cache_world \<Rightarrow> ((unit, 'e SlabError) result \<times> 'p cache_world) option" where
  "SlabCache_shrink provider s = shrink_loop provider (sc_partial_head (cw_cache s)) s"

section \<open>The allocator\<close>

record 'p SlabAllocator = "'p slab_world" +
  sa_caches :: "SlabCache list"

definition SlabAllocator_caches :: "SlabCache list" where
  "SlabAllocator_caches = map SlabCache_new [0..<SIZE_CLASS_COUNT]"

text \<open>The cache of a class is borrowed together with the provider.\<close>

definition borrow_cache :: "SizeClass \<Rightarrow> ('p, 'z) SlabAllocator_scheme \<Rightarrow> 'p cache_world" where
  "borrow_cache class self = \<lparr>sw_provider = sw_provider self, sw_header = sw_header self, sw_memory = sw_memory self,
     sw_debug = sw_debug self, cw_cache = sa_caches self ! class\<rparr>"

definition return_cache :: "SizeClass \<Rightarrow> 'p cache_world \<Rightarrow> ('p, 'z) SlabAllocator_scheme \<Rightarrow> ('p, 'z) SlabAllocator_scheme" where
  "return_cache class w self = self\<lparr>sw_provider := sw_provider w, sw_header := sw_header w, sw_memory := sw_memory w,
     sw_debug := sw_debug w, sa_caches := (sa_caches self)[class := cw_cache w]\<rparr>"

definition with_cache :: "SizeClass \<Rightarrow> ('p, 'a, 'e) cache_action \<Rightarrow> (('p, 'z) SlabAllocator_scheme, 'a, 'e SlabError) action" where
  "with_cache class act self =
     (if class < length (sa_caches self)
      then let (r, w) = act (borrow_cache class self) in (r, return_cache class w self)
      else (Panic, self))"

definition SlabAllocator_allocate ::
  "('p, 'e) PageProvider \<Rightarrow> Layout \<Rightarrow> (('p, 'z) SlabAllocator_scheme, usize option, 'e SlabError) action" where
  "SlabAllocator_allocate provider layout =
     (case SizeClass_for_layout layout of
        None \<Rightarrow> sreturn None
      | Some class \<Rightarrow> sbind (with_cache class (SlabCache_allocate provider)) (\<lambda>object. sreturn (Some object)))"

definition SlabAllocator_deallocate ::
  "('p, 'e) PageProvider \<Rightarrow> usize \<Rightarrow> Layout \<Rightarrow> (('p, 'z) SlabAllocator_scheme, bool, 'e SlabError) action" where
  "SlabAllocator_deallocate provider object layout =
     (case SizeClass_for_layout layout of
        None \<Rightarrow> sreturn False
      | Some class \<Rightarrow> sseq (with_cache class (SlabCache_deallocate provider object)) (sreturn True))"

fun shrink_caches ::
  "('p, 'e) PageProvider \<Rightarrow> SizeClass list \<Rightarrow> ('p, 'z) SlabAllocator_scheme \<Rightarrow> ((unit, 'e SlabError) result \<times> ('p, 'z) SlabAllocator_scheme) option" where
  "shrink_caches provider [] self = Some (Ok (), self)"
| "shrink_caches provider (class # rest) self =
     (case SlabCache_shrink provider (borrow_cache class self) of
        None \<Rightarrow> None
      | Some (r, w) \<Rightarrow>
          (case r of
             Ok _ \<Rightarrow> shrink_caches provider rest (return_cache class w self)
           | Err e \<Rightarrow> Some (Err e, return_cache class w self)
           | Panic \<Rightarrow> Some (Panic, return_cache class w self)))"

definition SlabAllocator_shrink ::
  "('p, 'e) PageProvider \<Rightarrow> ('p, 'z) SlabAllocator_scheme \<Rightarrow> ((unit, 'e SlabError) result \<times> ('p, 'z) SlabAllocator_scheme) option" where
  "SlabAllocator_shrink provider self = shrink_caches provider [0..<length (sa_caches self)] self"

definition SlabAllocator_stats :: "('p, 'z) SlabAllocator_scheme \<Rightarrow> SizeClass \<Rightarrow> SlabCacheStats" where
  "SlabAllocator_stats self class = SlabCache_stats (sa_caches self ! class)"

end
