(* ===== verification/Slab_Page.thy ===== *)
theory Slab_Page
  imports Slab
begin

text \<open>
  One slab: the geometry of its objects, the bitmap, the list of free objects inside the free objects, and what
  creating a slab, taking an object and giving it back do to them.
\<close>

section \<open>Geometry\<close>

definition slab_offset :: "SizeClass \<Rightarrow> usize" where
  "slab_offset c = round_up (SizeClass_size c) size_of_SlabHeader"

definition slab_capacity :: "SizeClass \<Rightarrow> usize" where
  "slab_capacity c = (PAGE_SIZE - slab_offset c) div SizeClass_size c"

definition slot :: "SizeClass \<Rightarrow> usize \<Rightarrow> nat \<Rightarrow> usize" where
  "slot c base i = base + slab_offset c + i * SizeClass_size c"

definition page_ok :: "usize \<Rightarrow> bool" where
  "page_ok base \<longleftrightarrow> base \<noteq> 0 \<and> PAGE_SIZE dvd base \<and> base + PAGE_SIZE \<le> usize_MAX"

lemma class_cases:
  assumes "c < SIZE_CLASS_COUNT"
  obtains k where "k < 9" "SizeClass_size c = 2 ^ (k + 3)" "slab_offset c = max (2 ^ (k + 3)) (if k \<le> 1 then 112 else 128)"
proof -
  have "c = 0 \<or> c = 1 \<or> c = 2 \<or> c = 3 \<or> c = 4 \<or> c = 5 \<or> c = 6 \<or> c = 7 \<or> c = 8"
    using assms unfolding SIZE_CLASS_COUNT_def by linarith
  then have "SizeClass_size c = 2 ^ (c + 3) \<and> slab_offset c = max (2 ^ (c + 3)) (if c \<le> 1 then 112 else 128)"
    by (elim disjE) (simp_all add: slab_offset_def SizeClass_size_def CLASS_SIZES_def round_up_def size_of_SlabHeader_def)
  with assms show thesis by (intro that [of c]) (simp_all add: SIZE_CLASS_COUNT_def)
qed

lemma class_facts:
  assumes "c < SIZE_CLASS_COUNT"
  shows "8 \<le> SizeClass_size c" "SizeClass_size c \<le> 2048" "SizeClass_size c dvd slab_offset c" "112 \<le> slab_offset c" "slab_offset c < PAGE_SIZE"
    "slab_offset c + slab_capacity c * SizeClass_size c = PAGE_SIZE" "0 < slab_capacity c" "slab_capacity c \<le> 512"
    "is_power_of_two (SizeClass_size c)" "SizeClass_size c dvd PAGE_SIZE"
proof -
  obtain k where k: "k < 9" "SizeClass_size c = 2 ^ (k + 3)" "slab_offset c = max (2 ^ (k + 3)) (if k \<le> 1 then 112 else 128)"
    by (rule class_cases [OF assms])
  then have "k = 0 \<or> k = 1 \<or> k = 2 \<or> k = 3 \<or> k = 4 \<or> k = 5 \<or> k = 6 \<or> k = 7 \<or> k = 8" by linarith
  then show "8 \<le> SizeClass_size c" "SizeClass_size c \<le> 2048" "SizeClass_size c dvd slab_offset c" "112 \<le> slab_offset c" "slab_offset c < PAGE_SIZE"
    "slab_offset c + slab_capacity c * SizeClass_size c = PAGE_SIZE" "0 < slab_capacity c" "slab_capacity c \<le> 512" "SizeClass_size c dvd PAGE_SIZE"
    by (elim disjE; simp add: slab_capacity_def k PAGE_SIZE_eq)+
  show "is_power_of_two (SizeClass_size c)" unfolding k(2) by (rule is_power_of_two_exp)
qed

lemma object_offset_eq: "c < SIZE_CLASS_COUNT \<Longrightarrow> object_offset c = Some (slab_offset c)"
  using class_facts [of c]
  by (simp add: object_offset_def slab_align_up_def checked_add_def slab_offset_def round_up_eq_down align_mask_round
      size_of_SlabHeader_def usize_MAX_def)

lemma slot_bounds:
  assumes "c < SIZE_CLASS_COUNT" "i < slab_capacity c"
  shows "base + 112 \<le> slot c base i" "slot c base i + SizeClass_size c \<le> base + PAGE_SIZE" "slot c base i < base + PAGE_SIZE"
proof -
  have "(i + 1) * SizeClass_size c \<le> slab_capacity c * SizeClass_size c" using assms(2) by (intro mult_le_mono1) simp
  then show "slot c base i + SizeClass_size c \<le> base + PAGE_SIZE" using class_facts(6) [OF assms(1)] by (simp add: slot_def)
  then show "slot c base i < base + PAGE_SIZE" using class_facts(1) [OF assms(1)] by simp
  show "base + 112 \<le> slot c base i" using class_facts(4) [OF assms(1)] by (simp add: slot_def)
qed

lemma slot_apart:
  assumes "i \<noteq> j"
  shows "slot c base i + SizeClass_size c \<le> slot c base j \<or> slot c base j + SizeClass_size c \<le> slot c base i"
proof -
  have *: "slot c base i + SizeClass_size c \<le> slot c base j" if "i < j" for i j
  proof -
    have "(i + 1) * SizeClass_size c \<le> j * SizeClass_size c" using that by (intro mult_le_mono1) simp
    then show ?thesis by (simp add: slot_def)
  qed
  show ?thesis using assms * [of i j] * [of j i] by linarith
qed

lemma slot_inj: "c < SIZE_CLASS_COUNT \<Longrightarrow> slot c base i = slot c base j \<longleftrightarrow> i = j"
  using slot_apart [of i j c base] class_facts(1) [of c] by (cases "i = j") auto

lemma slot_aligned: "c < SIZE_CLASS_COUNT \<Longrightarrow> PAGE_SIZE dvd base \<Longrightarrow> SizeClass_size c dvd slot c base i"
  using class_facts(3,10) [of c] by (auto simp: slot_def intro!: dvd_add intro: dvd_trans)

lemma slot_page:
  assumes "c < SIZE_CLASS_COUNT" "i < slab_capacity c" "PAGE_SIZE dvd base"
  shows "round_down PAGE_SIZE (slot c base i) = base"
proof (rule antisym)
  show "base \<le> round_down PAGE_SIZE (slot c base i)"
    using slot_bounds(1) [OF assms(1,2), of base] by (intro round_down_greatest [OF assms(3)]) simp
  have "slot c base i div PAGE_SIZE < base div PAGE_SIZE + 1"
    using slot_bounds(3) [OF assms(1,2), of base] assms(3) by (auto simp: dvd_def PAGE_SIZE_eq)
  then have "slot c base i div PAGE_SIZE * PAGE_SIZE \<le> base div PAGE_SIZE * PAGE_SIZE" by (intro mult_le_mono1) simp
  then show "round_down PAGE_SIZE (slot c base i) \<le> base" using assms(3) by (simp add: round_down_def)
qed

section \<open>Links and bits\<close>

lemma read_write_link: "v \<le> u16_MAX \<Longrightarrow> read_link (write_link a v m) a = v"
  by (simp add: read_link_def write_link_def unat_of_nat u16_MAX_def)

lemma read_link_other: "\<lbrakk>\<And>x. x = a \<or> x = a + 1 \<Longrightarrow> m x = m' x\<rbrakk> \<Longrightarrow> read_link m a = read_link m' a"
  by (simp add: read_link_def)

definition slot_used :: "SlabHeader \<Rightarrow> nat \<Rightarrow> bool" where
  "slot_used h i \<longleftrightarrow> bit (sh_allocated_bitmap h ! (i div 64)) (i mod 64)"

lemma is_allocated_eq:
  assumes "length (sh_allocated_bitmap h) = 8" "i < 512"
  shows "SlabHeader_is_allocated h i = Ok (slot_used h i)"
proof -
  have "i div 64 < 8" using assms(2) by (intro less_mult_imp_div_less) simp
  then show ?thesis using assms(1) by (simp add: SlabHeader_is_allocated_def slot_used_def and_exp_eq_0_iff_not_bit)
qed

lemma set_allocated_eq:
  assumes "length (sh_allocated_bitmap h) = 8" "i < 512"
  obtains bm where "SlabHeader_set_allocated h i v = Ok (h\<lparr>sh_allocated_bitmap := bm\<rparr>)" "length bm = 8"
    "\<And>h' j. sh_allocated_bitmap h' = bm \<Longrightarrow> slot_used h' j \<longleftrightarrow> (if j = i then v else slot_used h j)"
proof -
  let ?w = "sh_allocated_bitmap h ! (i div 64)" and ?mask = "push_bit (i mod 64) 1 :: 64 word"
  define w' where "w' = (if v then ?w OR ?mask else ?w AND NOT ?mask)"
  let ?bm = "(sh_allocated_bitmap h)[i div 64 := w']"
  have i: "i div 64 < 8" using assms(2) by (intro less_mult_imp_div_less) simp
  have w': "bit w' n \<longleftrightarrow> (if n = i mod 64 then v else bit ?w n)" if "n < 64" for n
    using that unfolding w'_def by (simp add: bit_or_iff bit_and_iff bit_not_iff bit_push_bit_iff bit_1_iff) (auto simp: bit_exp_iff)
  have used: "slot_used h' j \<longleftrightarrow> (if j = i then v else slot_used h j)" if "sh_allocated_bitmap h' = ?bm" for h' j
  proof (cases "j div 64 = i div 64")
    case True
    have "j = i \<longleftrightarrow> j mod 64 = i mod 64" using True div_mult_mod_eq [of i 64] div_mult_mod_eq [of j 64] by auto
    then show ?thesis using True i assms(1) w' [of "j mod 64"] by (simp add: slot_used_def that)
  next
    case False
    then show ?thesis by (auto simp: slot_used_def that)
  qed
  have "SlabHeader_set_allocated h i v = Ok (h\<lparr>sh_allocated_bitmap := ?bm\<rparr>)"
    using i assms(1) by (simp add: SlabHeader_set_allocated_def Let_def w'_def)
  with used assms(1) show thesis by (intro that [of ?bm]) simp_all
qed

section \<open>Objects\<close>

lemma slot_small:
  assumes "c < SIZE_CLASS_COUNT" "i < slab_capacity c" "page_ok base"
  shows "slot c base i \<le> usize_MAX" "0 < slot c base i"
  using slot_bounds(1,3) [OF assms(1,2), of base] assms(3) by (simp_all add: page_ok_def)

lemma object_pointer_eq:
  assumes "c < SIZE_CLASS_COUNT" "i < slab_capacity c" "sh_class_index h = c"
  shows "SlabHeader_object_pointer base h i = Ok (slot c base i)"
proof -
  have "slab_offset c + i * SizeClass_size c \<le> PAGE_SIZE" using slot_bounds(3) [OF assms(1,2), of 0] by (simp add: slot_def)
  then have "slab_offset c + i * SizeClass_size c \<le> usize_MAX" by (simp add: PAGE_SIZE_eq usize_MAX_def)
  then show ?thesis using assms
    by (simp add: SlabHeader_object_pointer_def SizeClass_from_index_def object_offset_eq mul_usize_def add_usize_def checked_mul_def
        checked_add_def slot_def)
qed

lemma object_index_cases:
  assumes "c < SIZE_CLASS_COUNT" "page_ok base" "sh_capacity h = slab_capacity c"
  shows "SlabHeader_object_index base h a c = (if \<exists>i < slab_capacity c. a = slot c base i then Ok ((a - slot c base 0) div SizeClass_size c) else Err InvalidObjectPointer)"
proof -
  let ?sz = "SizeClass_size c" and ?start = "base + slab_offset c"
  note cf = class_facts [OF assms(1)]
  have fits: "?start + slab_capacity c * ?sz \<le> usize_MAX" using assms(2) cf(6) by (simp add: page_ok_def add.assoc)
  have iff: "(\<exists>i < slab_capacity c. a = slot c base i) \<longleftrightarrow> ?start \<le> a \<and> a < ?start + slab_capacity c * ?sz \<and> (a - ?start) mod ?sz = 0"
  proof
    assume "\<exists>i < slab_capacity c. a = slot c base i"
    then obtain i where i: "i < slab_capacity c" "a = ?start + i * ?sz" by (auto simp: slot_def)
    have "i * ?sz < slab_capacity c * ?sz" using i(1) cf(1) by simp
    with i show "?start \<le> a \<and> a < ?start + slab_capacity c * ?sz \<and> (a - ?start) mod ?sz = 0" by simp
  next
    assume a: "?start \<le> a \<and> a < ?start + slab_capacity c * ?sz \<and> (a - ?start) mod ?sz = 0"
    have "a = ?start + (a - ?start) div ?sz * ?sz" using a div_mult_mod_eq [of "a - ?start" ?sz] by simp
    moreover have "(a - ?start) div ?sz < slab_capacity c" using a by (intro less_mult_imp_div_less) linarith
    ultimately show "\<exists>i < slab_capacity c. a = slot c base i" unfolding slot_def by blast
  qed
  have "(a - ?start) div ?sz < slab_capacity c" if "a < ?start + slab_capacity c * ?sz" "?start \<le> a"
    using that by (intro less_mult_imp_div_less) linarith
  then show ?thesis unfolding iff using fits assms(1,3)
    by (auto simp: SlabHeader_object_index_def object_offset_eq checked_add_def checked_mul_def Let_def slot_def not_le not_less)
qed

lemma object_index_slot:
  assumes "c < SIZE_CLASS_COUNT" "page_ok base" "sh_capacity h = slab_capacity c" "i < slab_capacity c"
  shows "SlabHeader_object_index base h (slot c base i) c = Ok i"
proof -
  have "\<exists>j < slab_capacity c. slot c base i = slot c base j" using assms(4) by blast
  moreover have "(slot c base i - slot c base 0) div SizeClass_size c = i" using class_facts(1) [OF assms(1)] by (simp add: slot_def)
  ultimately show ?thesis unfolding object_index_cases [OF assms(1-3)] by presburger
qed

text \<open>The indices of the free objects, from the first along the links.\<close>

fun free_chain :: "(usize \<Rightarrow> u8) \<Rightarrow> SizeClass \<Rightarrow> usize \<Rightarrow> u16 \<Rightarrow> nat list \<Rightarrow> bool" where
  "free_chain m c base f0 [] \<longleftrightarrow> f0 = INVALID_SLOT"
| "free_chain m c base f0 (i # is) \<longleftrightarrow> f0 = i \<and> i < slab_capacity c \<and> free_chain m c base (read_link m (slot c base i)) is"

definition same_outside :: "usize \<Rightarrow> usize \<Rightarrow> (usize \<Rightarrow> u8) \<Rightarrow> (usize \<Rightarrow> u8) \<Rightarrow> bool" where
  "same_outside a n m m' \<longleftrightarrow> (\<forall>x. a \<le> x \<and> x < a + n \<or> m x = m' x)"

lemma free_chain_cong:
  "(\<And>i. i \<in> set is \<Longrightarrow> read_link m (slot c base i) = read_link m' (slot c base i)) \<Longrightarrow> free_chain m c base f0 is \<longleftrightarrow> free_chain m' c base f0 is"
  by (induction "is" arbitrary: f0) auto

lemma same_outside_mono:
  assumes "same_outside b n m m1" "same_outside a k m1 m2" "b \<le> a" "a + k \<le> b + n"
  shows "same_outside b n m m2"
  unfolding same_outside_def
proof
  fix x
  show "b \<le> x \<and> x < b + n \<or> m x = m2 x"
  proof (cases "b \<le> x \<and> x < b + n")
    case False
    then have "\<not> (a \<le> x \<and> x < a + k)" using assms(3,4) by linarith
    then have "m1 x = m2 x" using assms(2) by (auto simp: same_outside_def)
    moreover have "m x = m1 x" using assms(1) False by (auto simp: same_outside_def)
    ultimately show ?thesis by simp
  qed simp
qed

lemma read_link_same:
  assumes "same_outside (slot c base i) (SizeClass_size c) m m'" "i \<noteq> j" "c < SIZE_CLASS_COUNT"
  shows "read_link m (slot c base j) = read_link m' (slot c base j)"
proof (rule read_link_other)
  fix x assume "x = slot c base j \<or> x = slot c base j + 1"
  then have "\<not> (slot c base i \<le> x \<and> x < slot c base i + SizeClass_size c)"
    using slot_apart [OF assms(2), of c base] class_facts(1) [OF assms(3)] by auto
  then show "m x = m' x" using assms(1) by (auto simp: same_outside_def)
qed

text \<open>A slab with its free objects.\<close>

definition slab_ok :: "(usize \<Rightarrow> u8) \<Rightarrow> SizeClass \<Rightarrow> usize \<Rightarrow> SlabHeader \<Rightarrow> nat list \<Rightarrow> bool" where
  "slab_ok m c base h fl \<longleftrightarrow> sh_magic h = SLAB_MAGIC \<and> sh_class_index h = c \<and> sh_capacity h = slab_capacity c
     \<and> length (sh_allocated_bitmap h) = 8 \<and> sh_free_count h = length fl \<and> distinct fl
     \<and> set fl = {i. i < slab_capacity c \<and> \<not> slot_used h i} \<and> free_chain m c base (sh_first_free h) fl"

text \<open>The fields of a header that belong to the list of slabs and to the provider.\<close>

definition same_place :: "SlabHeader \<Rightarrow> SlabHeader \<Rightarrow> bool" where
  "same_place h h' \<longleftrightarrow> sh_partial_previous h' = sh_partial_previous h \<and> sh_partial_next h' = sh_partial_next h
     \<and> sh_listed_partial h' = sh_listed_partial h \<and> sh_allocation h' = sh_allocation h"

lemma free_chain_first:
  assumes "c < SIZE_CLASS_COUNT" "free_chain m c base f0 fl"
  shows "f0 \<le> u16_MAX" "f0 \<noteq> INVALID_SLOT \<longrightarrow> f0 < slab_capacity c"
  using assms class_facts(8) [OF assms(1)] by (cases fl; auto simp: INVALID_SLOT_def u16_MAX_def)+

lemma allocate_object_ok:
  assumes c: "c < SIZE_CLASS_COUNT" and page: "page_ok base" and ok: "slab_ok (sw_memory s) c base (sw_header s base) (i # fl)"
  obtains h' m' where
    "SlabHeader_allocate_object base s = (Ok (slot c base i) :: (usize, 'e SlabError) result, s\<lparr>sw_header := (sw_header s)(base := h'), sw_memory := m'\<rparr>)"
    "slab_ok m' c base h' fl" "same_place (sw_header s base) h'" "\<And>j. slot_used h' j \<longleftrightarrow> j = i \<or> slot_used (sw_header s base) j"
    "same_outside (slot c base i) (SizeClass_size c) (sw_memory s) m'"
proof -
  let ?h = "sw_header s base" and ?m = "sw_memory s"
  define nx where "nx = read_link ?m (slot c base i)"
  note cf = class_facts [OF c]
  have h: "sh_magic ?h = SLAB_MAGIC" "sh_class_index ?h = c" "sh_capacity ?h = slab_capacity c" "length (sh_allocated_bitmap ?h) = 8"
    "sh_free_count ?h = Suc (length fl)" "distinct (i # fl)" "sh_first_free ?h = i" "i < slab_capacity c" "free_chain ?m c base nx fl"
    and fl: "set (i # fl) = {i. i < slab_capacity c \<and> \<not> slot_used ?h i}"
    using ok by (auto simp: slab_ok_def nx_def)
  have i: "i < 512" "\<not> slot_used ?h i" using h(8) cf(8) fl by auto
  have nx: "\<not> (nx \<noteq> INVALID_SLOT \<and> slab_capacity c \<le> nx)" using free_chain_first [OF c h(9)] by auto
  let ?h1 = "?h\<lparr>sh_first_free := nx, sh_free_count := length fl\<rparr>"
  obtain bm where bm: "SlabHeader_set_allocated ?h1 i True = (Ok (?h1\<lparr>sh_allocated_bitmap := bm\<rparr>) :: (SlabHeader, 'e SlabError) result)" "length bm = 8"
    "\<And>h' j. sh_allocated_bitmap h' = bm \<Longrightarrow> slot_used h' j \<longleftrightarrow> (if j = i then True else slot_used ?h1 j)"
    using set_allocated_eq [of ?h1 i True] h(4) i(1) by auto
  let ?h2 = "?h1\<lparr>sh_allocated_bitmap := bm\<rparr>"
  let ?m' = "if sw_debug s then write_bytes (slot c base i) ALLOCATED_OBJECT_POISON (SizeClass_size c) ?m else ?m"
  have used: "slot_used ?h2 j \<longleftrightarrow> j = i \<or> slot_used ?h j" for j
    using bm(3) [of ?h2 j] by (auto simp: slot_used_def)
  have out: "same_outside (slot c base i) (SizeClass_size c) ?m ?m'" by (auto simp: same_outside_def write_bytes_def)
  have "free_chain ?m' c base nx fl \<longleftrightarrow> free_chain ?m c base nx fl"
    by (rule free_chain_cong, rule read_link_same [OF _ _ c, symmetric, of _ i]) (use out h(6) in \<open>auto simp: eq_commute\<close>)
  then have "slab_ok ?m' c base ?h2 fl"
    using h bm(2) used fl by (auto simp: slab_ok_def)
  moreover have "SlabHeader_allocate_object base s
      = (Ok (slot c base i) :: (usize, 'e SlabError) result, s\<lparr>sw_header := (sw_header s)(base := ?h2), sw_memory := ?m'\<rparr>)"
    using h i nx slot_small [OF c h(8) page] bm(1)
    by (simp add: nx_def [symmetric] SlabHeader_allocate_object_def SlabHeader_is_full_def is_allocated_eq object_pointer_eq [OF c] update_header_def
        checked_sub_def SlabHeader_class_def SizeClass_from_index_def c swhen_def sreturn_def sseq_def sbind_def sget_def sread_def smodify_def slift_def) auto
  ultimately show thesis using that [of ?m' ?h2] used out by (simp add: same_place_def)
qed

lemma free_object_ok:
  assumes c: "c < SIZE_CLASS_COUNT" and page: "page_ok base" and ok: "slab_ok (sw_memory s) c base (sw_header s base) fl"
    and i: "i < slab_capacity c" "slot_used (sw_header s base) i"
  obtains h' m' where
    "SlabHeader_free_object base (slot c base i) s
       = (Ok \<lparr>was_full = (fl = []), became_empty = (Suc (length fl) = slab_capacity c)\<rparr> :: (SlabFreeOutcome, 'e SlabError) result,
          s\<lparr>sw_header := (sw_header s)(base := h'), sw_memory := m'\<rparr>)"
    "slab_ok m' c base h' (i # fl)" "same_place (sw_header s base) h'" "\<And>j. slot_used h' j \<longleftrightarrow> j \<noteq> i \<and> slot_used (sw_header s base) j"
    "same_outside (slot c base i) (SizeClass_size c) (sw_memory s) m'"
proof -
  let ?h = "sw_header s base" and ?m = "sw_memory s" and ?a = "slot c base i"
  note cf = class_facts [OF c]
  have h: "sh_magic ?h = SLAB_MAGIC" "sh_class_index ?h = c" "sh_capacity ?h = slab_capacity c" "length (sh_allocated_bitmap ?h) = 8"
    "sh_free_count ?h = length fl" "distinct fl" "free_chain ?m c base (sh_first_free ?h) fl"
    and fl: "set fl = {i. i < slab_capacity c \<and> \<not> slot_used ?h i}"
    using ok by (auto simp: slab_ok_def)
  have i': "i < 512" "i \<notin> set fl" using i cf(8) fl by auto
  have len: "length fl < slab_capacity c"
  proof -
    have "set fl \<subset> {..<slab_capacity c}" using fl i i'(2) by auto
    then have "card (set fl) < slab_capacity c" by (metis card_lessThan finite_lessThan psubset_card_mono)
    then show ?thesis using h(6) by (simp add: distinct_card)
  qed
  obtain bm where bm: "SlabHeader_set_allocated ?h i False = (Ok (?h\<lparr>sh_allocated_bitmap := bm\<rparr>) :: (SlabHeader, 'e SlabError) result)" "length bm = 8"
    "\<And>h' j. sh_allocated_bitmap h' = bm \<Longrightarrow> slot_used h' j \<longleftrightarrow> (if j = i then False else slot_used ?h j)"
    using set_allocated_eq [of ?h i False] h(4) i'(1) by auto
  let ?h2 = "?h\<lparr>sh_allocated_bitmap := bm, sh_first_free := i, sh_free_count := Suc (length fl)\<rparr>"
  let ?m1 = "if sw_debug s then write_bytes ?a FREED_OBJECT_POISON (SizeClass_size c) ?m else ?m"
  let ?m' = "write_link ?a (sh_first_free ?h) ?m1"
  have used: "slot_used ?h2 j \<longleftrightarrow> j \<noteq> i \<and> slot_used ?h j" for j using bm(3) [of ?h2 j] by auto
  have out: "same_outside ?a (SizeClass_size c) ?m ?m'"
    using cf(1) by (auto simp: same_outside_def write_bytes_def write_link_def)
  have "free_chain ?m' c base (sh_first_free ?h) fl \<longleftrightarrow> free_chain ?m c base (sh_first_free ?h) fl"
    by (rule free_chain_cong, rule read_link_same [OF _ _ c, symmetric, of _ i]) (use out i'(2) in auto)
  then have "free_chain ?m' c base i (i # fl)"
    using h(7) i(1) free_chain_first(1) [OF c h(7)] by (simp add: read_write_link)
  then have "slab_ok ?m' c base ?h2 (i # fl)"
    using h bm(2) used fl i i' by (auto simp: slab_ok_def)
  moreover have "SlabHeader_free_object base ?a s
       = (Ok \<lparr>was_full = (fl = []), became_empty = (Suc (length fl) = slab_capacity c)\<rparr> :: (SlabFreeOutcome, 'e SlabError) result,
          s\<lparr>sw_header := (sw_header s)(base := ?h2), sw_memory := ?m'\<rparr>)"
    using h i i' len cf(8) bm(1)
    by (simp add: SlabHeader_free_object_def SlabHeader_is_full_def SlabHeader_is_empty_def is_allocated_eq object_index_slot [OF c page] update_header_def
        SlabHeader_class_def SizeClass_from_index_def c swhen_def sreturn_def sseq_def sbind_def sget_def smodify_def slift_def u16_MAX_def)
  ultimately show thesis using that [of ?m' ?h2] used out by (simp add: same_place_def)
qed

lemma free_object_error:
  assumes c: "c < SIZE_CLASS_COUNT" and page: "page_ok base" and ok: "slab_ok (sw_memory s) c base (sw_header s base) fl"
    and a: "\<And>i. i < slab_capacity c \<Longrightarrow> slot_used (sw_header s base) i \<Longrightarrow> a \<noteq> slot c base i"
  shows "SlabHeader_free_object base a s = (Err (if \<exists>i < slab_capacity c. a = slot c base i then DoubleFree else InvalidObjectPointer)
    :: (SlabFreeOutcome, 'e SlabError) result, s)"
proof (cases "\<exists>i < slab_capacity c. a = slot c base i")
  case True
  then obtain i where i: "i < slab_capacity c" "a = slot c base i" by blast
  then have "\<not> slot_used (sw_header s base) i" using a by blast
  then show ?thesis using ok i class_facts(8) [OF c] True
    by (simp add: SlabHeader_free_object_def SlabHeader_class_def SizeClass_from_index_def c slab_ok_def object_index_slot [OF c page] is_allocated_eq
        sbind_def sget_def slift_def sfail_def)
next
  case False
  have cap: "sh_capacity (sw_header s base) = slab_capacity c" using ok by (simp add: slab_ok_def)
  have "SlabHeader_object_index base (sw_header s base) a c = (Err InvalidObjectPointer :: (usize, 'e SlabError) result)"
    unfolding object_index_cases [OF c page cap] by (rule if_not_P [OF False])
  then have "SlabHeader_free_object base a s = (Err InvalidObjectPointer :: (SlabFreeOutcome, 'e SlabError) result, s)"
    using ok by (simp add: SlabHeader_free_object_def SlabHeader_class_def SizeClass_from_index_def c slab_ok_def sbind_def sget_def slift_def)
  then show ?thesis unfolding if_not_P [OF False] .
qed

lemma from_object_eq:
  assumes "a \<le> usize_MAX"
  shows "SlabHeader_from_object a s = (let base = round_down PAGE_SIZE a in
    if base = 0 then (Err InvalidObjectPointer, s) else if sh_magic (sw_header s base) \<noteq> SLAB_MAGIC then (Err CorruptHeader, s) else (Ok base, s))"
  using assms by (simp add: SlabHeader_from_object_def align_mask_round Let_def sfail_def sreturn_def sbind_def sget_def)

section \<open>A new slab\<close>

lemma link_slots:
  assumes c: "c < SIZE_CLASS_COUNT" and "sh_class_index (sw_header s base) = c" and "n \<le> slab_capacity c"
  shows "\<exists>m'. sforeach (link_slot base (slab_capacity c)) [0..<n] s = (Ok () :: (unit, 'e SlabError) result, s\<lparr>sw_memory := m'\<rparr>)
    \<and> (\<forall>i < n. read_link m' (slot c base i) = (if i + 1 < slab_capacity c then i + 1 else INVALID_SLOT))
    \<and> same_outside base PAGE_SIZE (sw_memory s) m'"
  using assms(3)
proof (induction n)
  case 0
  show ?case by (rule exI [of _ "sw_memory s"]) (simp add: sreturn_def same_outside_def)
next
  case (Suc n)
  obtain m where m: "sforeach (link_slot base (slab_capacity c)) [0..<n] s = (Ok () :: (unit, 'e SlabError) result, s\<lparr>sw_memory := m\<rparr>)"
    "\<And>i. i < n \<Longrightarrow> read_link m (slot c base i) = (if i + 1 < slab_capacity c then i + 1 else INVALID_SLOT)"
    "same_outside base PAGE_SIZE (sw_memory s) m"
    using Suc.IH Suc.prems by auto
  let ?v = "if n + 1 < slab_capacity c then n + 1 else INVALID_SLOT" and ?a = "slot c base n"
  let ?m' = "write_link ?a ?v m"
  have n: "n < slab_capacity c" using Suc.prems by simp
  note cf = class_facts [OF c] and sb = slot_bounds [OF c n, of base]
  have step: "link_slot base (slab_capacity c) n (s\<lparr>sw_memory := m\<rparr>) = (Ok () :: (unit, 'e SlabError) result, s\<lparr>sw_memory := ?m'\<rparr>)"
    using assms(2) by (simp add: link_slot_def sbind_def sget_def slift_def smodify_def object_pointer_eq [OF c n])
  have out: "same_outside ?a (SizeClass_size c) m ?m'" using cf(1) by (auto simp: same_outside_def write_link_def)
  have "read_link ?m' (slot c base i) = (if i + 1 < slab_capacity c then i + 1 else INVALID_SLOT)" if "i < Suc n" for i
  proof (cases "i = n")
    case True
    have "?v \<le> u16_MAX" using cf(8) by (simp add: INVALID_SLOT_def u16_MAX_def)
    then show ?thesis unfolding True by (rule read_write_link)
  next
    case False
    then show ?thesis using read_link_same [OF out _ c, of i] m(2) [of i] that by simp
  qed
  moreover have "same_outside base PAGE_SIZE (sw_memory s) ?m'"
    by (rule same_outside_mono [OF m(3) out]) (use sb in simp_all)
  moreover have "sforeach (link_slot base (slab_capacity c)) [0..<Suc n] s = (Ok () :: (unit, 'e SlabError) result, s\<lparr>sw_memory := ?m'\<rparr>)"
    using m(1) step by (simp add: sforeach_append sseq_def sbind_def sreturn_def)
  ultimately show ?case by blast
qed

lemma free_chain_upt:
  assumes "\<And>i. i < slab_capacity c \<Longrightarrow> read_link m (slot c base i) = (if i + 1 < slab_capacity c then i + 1 else INVALID_SLOT)" "k < slab_capacity c"
  shows "free_chain m c base k [k..<slab_capacity c]"
  using assms(2)
proof (induction "slab_capacity c - k" arbitrary: k)
  case (Suc n)
  show ?case
  proof (cases "Suc k < slab_capacity c")
    case True
    then show ?thesis using Suc assms(1) [of k] Suc.hyps(1) [of "Suc k"] by (simp add: upt_conv_Cons)
  next
    case False
    then have "[k..<slab_capacity c] = [k]" using Suc.prems upt_conv_Cons [of k "slab_capacity c"] by simp
    then show ?thesis using False Suc.prems assms(1) [of k] by simp
  qed
qed simp

lemma create_ok:
  fixes PP :: "('p, 'e) PageProvider" and s :: "('p, 'z) slab_world_scheme"
  assumes c: "c < SIZE_CLASS_COUNT" and a: "allocate_slab_page PP (sw_provider s) = (Ok a, p)" "pa_order a = 0"
    and base: "pp_allocation_pointer PP p a = Ok base" "page_ok base"
  obtains h m where
    "SlabHeader_create PP c s = (Ok base, s\<lparr>sw_provider := p, sw_header := (sw_header s)(base := h), sw_memory := m\<rparr>)"
    "slab_ok m c base h [0..<slab_capacity c]" "sh_allocation h = a" "sh_listed_partial h = 0"
    "same_outside base PAGE_SIZE (sw_memory s) m"
proof -
  note cf = class_facts [OF c]
  let ?h = "\<lparr>sh_magic = SLAB_MAGIC, sh_partial_previous = NULL_SLAB_LINK, sh_partial_next = NULL_SLAB_LINK,
    sh_allocation = a, sh_allocated_bitmap = replicate BITMAP_WORDS 0, sh_capacity = slab_capacity c,
    sh_free_count = slab_capacity c, sh_first_free = 0, sh_class_index = c, sh_listed_partial = 0\<rparr>"
  let ?s1 = "s\<lparr>sw_provider := p, sw_header := (sw_header s)(base := ?h)\<rparr>"
  obtain m where m: "sforeach (link_slot base (slab_capacity c)) [0..<slab_capacity c] ?s1 = (Ok () :: (unit, 'e SlabError) result, ?s1\<lparr>sw_memory := m\<rparr>)"
    "\<And>i. i < slab_capacity c \<Longrightarrow> read_link m (slot c base i) = (if i + 1 < slab_capacity c then i + 1 else INVALID_SLOT)"
    "same_outside base PAGE_SIZE (sw_memory s) m"
    using link_slots [OF c, of ?s1 base "slab_capacity c"] by auto
  have bits: "BITMAP_WORDS = 8" by (simp add: BITMAP_WORDS_def MAX_OBJECTS_PER_SLAB_def MIN_SLAB_OBJECT_SIZE_def PAGE_SIZE_eq)
  have mo: "MAX_OBJECTS_PER_SLAB = 512" by (simp add: MAX_OBJECTS_PER_SLAB_def MIN_SLAB_OBJECT_SIZE_def PAGE_SIZE_eq)
  have aligned: "base mod PAGE_SIZE = 0" using base(2) by (simp add: page_ok_def)
  have unused: "\<not> slot_used ?h i" if "i < 512" for i
    using less_mult_imp_div_less [of i 8 64] that by (simp add: slot_used_def bits)
  have "slab_ok m c base ?h [0..<slab_capacity c]"
    using free_chain_upt [of c m base 0] m(2) cf(7,8) unused by (auto simp: slab_ok_def bits)
  moreover have "SlabHeader_create PP c s = (Ok base, ?s1\<lparr>sw_memory := m\<rparr>)"
    using a base(1) m(1) cf(5,7,8) mo aligned
    by (simp add: SlabHeader_create_def on_provider_def sbind_def sseq_def slift_def update_header_def smodify_def sreturn_def object_offset_eq c
        slab_capacity_def [symmetric] Let_def u16_MAX_def)
  ultimately show thesis using that [of m ?h] m(3) by simp
qed

end
