(* ===== verification/Slab_Cache.thy ===== *)
theory Slab_Cache
  imports Slab_Page
begin

text \<open>
  The slabs of one size class: the doubly linked list of the slabs with free objects, the invariant of a cache, and
  allocation from a slab that has a free object.
\<close>

section \<open>The list of partial slabs\<close>

fun plist :: "(usize \<Rightarrow> SlabHeader) \<Rightarrow> usize \<Rightarrow> usize \<Rightarrow> usize list \<Rightarrow> bool" where
  "plist hs p x [] \<longleftrightarrow> x = 0"
| "plist hs p x (y # ys) \<longleftrightarrow> x = y \<and> y \<noteq> 0 \<and> sh_partial_previous (hs y) = p \<and> plist hs y (sh_partial_next (hs y)) ys"

fun lseg :: "(usize \<Rightarrow> SlabHeader) \<Rightarrow> usize \<Rightarrow> usize \<Rightarrow> usize list \<Rightarrow> usize \<Rightarrow> bool" where
  "lseg hs p x [] z \<longleftrightarrow> x = z"
| "lseg hs p x (y # ys) z \<longleftrightarrow> x = y \<and> y \<noteq> 0 \<and> sh_partial_previous (hs y) = p \<and> lseg hs y (sh_partial_next (hs y)) ys z"

definition same_links :: "SlabHeader \<Rightarrow> SlabHeader \<Rightarrow> bool" where
  "same_links h h' \<longleftrightarrow> sh_partial_previous h' = sh_partial_previous h \<and> sh_partial_next h' = sh_partial_next h"

lemma plist_cong: "(\<And>y. y \<in> set ys \<Longrightarrow> same_links (hs y) (hs' y)) \<Longrightarrow> plist hs p x ys \<longleftrightarrow> plist hs' p x ys"
  by (induction ys arbitrary: p x) (auto simp: same_links_def)

lemma lseg_cong: "(\<And>y. y \<in> set ys \<Longrightarrow> same_links (hs y) (hs' y)) \<Longrightarrow> lseg hs p x ys z \<longleftrightarrow> lseg hs' p x ys z"
  by (induction ys arbitrary: p x) (auto simp: same_links_def)

lemma plist_append: "plist hs p x (ys @ zs) \<longleftrightarrow> (\<exists>z. lseg hs p x ys z \<and> plist hs (last (p # ys)) z zs)"
  by (induction ys arbitrary: p x) auto

lemma lseg_snoc: "lseg hs p x (ys @ [y]) z \<longleftrightarrow> lseg hs p x ys y \<and> y \<noteq> 0 \<and> sh_partial_previous (hs y) = last (p # ys) \<and> sh_partial_next (hs y) = z"
  by (induction ys arbitrary: p x) auto

lemma plist_head: "plist hs p x xs \<Longrightarrow> x = (case xs of [] \<Rightarrow> 0 | y # ys \<Rightarrow> y)"
  by (cases xs) auto

lemma plist_nonzero: "plist hs p x xs \<Longrightarrow> 0 \<notin> set xs"
  by (induction xs arbitrary: p x) auto

text \<open>Headers that differ at most in their place in the list.\<close>

definition same_body :: "SlabHeader \<Rightarrow> SlabHeader \<Rightarrow> bool" where
  "same_body h h' \<longleftrightarrow> h' = h\<lparr>sh_partial_previous := sh_partial_previous h', sh_partial_next := sh_partial_next h',
     sh_listed_partial := sh_listed_partial h'\<rparr>"

lemma same_body_fields:
  assumes "same_body h h'"
  shows "sh_magic h' = sh_magic h" "sh_allocation h' = sh_allocation h" "sh_allocated_bitmap h' = sh_allocated_bitmap h"
    "sh_capacity h' = sh_capacity h" "sh_free_count h' = sh_free_count h" "sh_first_free h' = sh_first_free h" "sh_class_index h' = sh_class_index h"
    "slot_used h' i = slot_used h i" "slab_ok m c base h' fl = slab_ok m c base h fl" "SlabHeader_is_empty h' = SlabHeader_is_empty h"
proof -
  obtain p n l where h': "h' = h\<lparr>sh_partial_previous := p, sh_partial_next := n, sh_listed_partial := l\<rparr>"
    using assms unfolding same_body_def by blast
  show "sh_magic h' = sh_magic h" "sh_allocation h' = sh_allocation h" "sh_allocated_bitmap h' = sh_allocated_bitmap h"
    "sh_capacity h' = sh_capacity h" "sh_free_count h' = sh_free_count h" "sh_first_free h' = sh_first_free h" "sh_class_index h' = sh_class_index h"
    "slot_used h' i = slot_used h i" "slab_ok m c base h' fl = slab_ok m c base h fl" "SlabHeader_is_empty h' = SlabHeader_is_empty h"
    by (simp_all add: h' slot_used_def slab_ok_def SlabHeader_is_empty_def)
qed

definition relisted :: "usize list \<Rightarrow> usize list \<Rightarrow> usize \<Rightarrow> nat \<Rightarrow> 'p cache_world \<Rightarrow> 'p cache_world \<Rightarrow> bool" where
  "relisted xs ys b l s s' \<longleftrightarrow> (\<exists>hs' x. s' = s\<lparr>sw_header := hs', cw_cache := (cw_cache s)\<lparr>sc_partial_head := x\<rparr>\<rparr>
     \<and> plist hs' 0 x ys \<and> (\<forall>y. same_body (sw_header s y) (hs' y))
     \<and> (\<forall>y. sh_listed_partial (hs' y) = (if y = b then l else sh_listed_partial (sw_header s y)))
     \<and> (\<forall>y. y \<notin> insert b (set xs) \<longrightarrow> hs' y = sw_header s y))"

lemma insert_partial_ok:
  assumes list: "plist (sw_header s) 0 (sc_partial_head (cw_cache s)) xs" and b: "b \<notin> set xs" "b \<noteq> 0" "sh_listed_partial (sw_header s b) = 0"
    and "distinct xs"
  obtains s' where "SlabCache_insert_partial b s = (Ok (), s')" "relisted xs (b # xs) b 1 s s'"
proof -
  let ?hs = "sw_header s" and ?x = "sc_partial_head (cw_cache s)"
  define hs1 where "hs1 = ?hs(b := (?hs b)\<lparr>sh_partial_previous := 0, sh_partial_next := ?x\<rparr>)"
  define hs2 where "hs2 = (if ?x = 0 then hs1 else hs1(?x := (hs1 ?x)\<lparr>sh_partial_previous := b\<rparr>))"
  define hs3 where "hs3 = hs2(b := (hs2 b)\<lparr>sh_listed_partial := 1\<rparr>)"
  let ?s = "s\<lparr>sw_header := hs3, cw_cache := (cw_cache s)\<lparr>sc_partial_head := b\<rparr>\<rparr>"
  have "SlabCache_insert_partial b s = (Ok (), ?s)" using b(3)
    by (simp add: SlabCache_insert_partial_def update_header_def update_cache_def link_to_pointer_def sseq_def sbind_def sget_def slift_def smodify_def
        sreturn_def swhen_def hs3_def hs2_def hs1_def)
  moreover have "plist hs3 0 b (b # xs)"
  proof (cases xs)
    case Nil
    then show ?thesis using list b(2) by (simp add: hs3_def hs2_def hs1_def)
  next
    case (Cons y ys)
    have y: "?x = y" "y \<noteq> 0" "plist ?hs y (sh_partial_next (?hs y)) ys" "b \<noteq> y" "y \<notin> set ys" "b \<notin> set ys"
      using list b(1) assms(5) Cons by auto
    have "plist ?hs y (sh_partial_next (?hs y)) ys \<longleftrightarrow> plist hs3 y (sh_partial_next (?hs y)) ys"
      using y by (intro plist_cong) (auto simp: same_links_def hs3_def hs2_def hs1_def)
    then show ?thesis using y b(2) Cons by (simp add: hs3_def hs2_def hs1_def)
  qed
  moreover have "?x \<in> set xs" if "?x \<noteq> 0" using plist_head [OF list] that by (cases xs) auto
  ultimately show thesis using b(1)
    by (intro that [of ?s]) (auto simp: relisted_def same_body_def hs3_def hs2_def hs1_def)
qed

lemma remove_partial_ok:
  assumes list: "plist (sw_header s) 0 (sc_partial_head (cw_cache s)) (xs @ b # ys)" and dist: "distinct (xs @ b # ys)"
    and b: "sh_listed_partial (sw_header s b) \<noteq> 0"
  obtains s' where "SlabCache_remove_partial b s = (Ok (), s')" "relisted (xs @ b # ys) (xs @ ys) b 0 s s'"
proof -
  let ?hs = "sw_header s" and ?c = "cw_cache s"
  define x where "x = sc_partial_head ?c"
  define q where "q = sh_partial_previous (?hs b)"
  define n where "n = sh_partial_next (?hs b)"
  obtain z where z: "lseg ?hs 0 x xs z" "plist ?hs (last (0 # xs)) z (b # ys)" using list unfolding x_def plist_append by blast
  then have seg: "lseg ?hs 0 x xs b" "b \<noteq> 0" "q = last (0 # xs)" "plist ?hs b n ys" by (auto simp: q_def n_def)
  define x' where "x' = (if q = 0 then n else x)"
  define hs1 where "hs1 = (if q = 0 then ?hs else ?hs(q := (?hs q)\<lparr>sh_partial_next := n\<rparr>))"
  define hs2 where "hs2 = (if n = 0 then hs1 else hs1(n := (hs1 n)\<lparr>sh_partial_previous := q\<rparr>))"
  define hs3 where "hs3 = hs2(b := (hs2 b)\<lparr>sh_partial_previous := 0, sh_partial_next := 0, sh_listed_partial := 0\<rparr>)"
  let ?s = "s\<lparr>sw_header := hs3, cw_cache := ?c\<lparr>sc_partial_head := x'\<rparr>\<rparr>"
  have zero: "0 \<notin> set xs" using plist_nonzero [OF list] by simp
  have q: "q = 0 \<longleftrightarrow> xs = []"
  proof
    assume "q = 0"
    then show "xs = []" using seg(3) zero last_in_set [of xs] by (metis last_ConsR)
  qed (use seg(3) in simp)
  have head: "x = b" if "q = 0" using that q seg(1) by simp
  have n: "n = (case ys of [] \<Rightarrow> 0 | y # _ \<Rightarrow> y)" using plist_head [OF seg(4)] .
  have qn: "q \<notin> set ys" "q \<noteq> b" "n \<notin> set xs" "n \<noteq> b" if "q \<noteq> 0 \<or> n \<noteq> 0" for t
    using dist seg(2,3) q zero n last_in_set [of xs] plist_nonzero [OF seg(4)] by (cases xs; cases ys; auto)+
  have "SlabCache_remove_partial b s = (Ok (), ?s)"
  proof (cases "q = 0")
    case True
    then show ?thesis using b head
      by (cases s) (simp add: SlabCache_remove_partial_def update_header_def update_cache_def link_to_pointer_def sseq_def sbind_def sget_def slift_def
          smodify_def sreturn_def swhen_def hs3_def hs2_def hs1_def x'_def x_def q_def n_def Let_def)
  next
    case False
    then show ?thesis using b
      by (simp add: SlabCache_remove_partial_def update_header_def update_cache_def link_to_pointer_def sseq_def sbind_def sget_def slift_def
          smodify_def sreturn_def swhen_def hs3_def hs2_def hs1_def x'_def x_def q_def n_def Let_def)
  qed
  moreover have "plist hs3 0 x' (xs @ ys)"
  proof -
    have tail: "plist hs3 q n ys"
    proof (cases ys)
      case (Cons y zs)
      have "plist ?hs y (sh_partial_next (?hs y)) zs \<longleftrightarrow> plist hs3 y (sh_partial_next (?hs y)) zs"
        using Cons n dist qn by (intro plist_cong) (auto simp: same_links_def hs3_def hs2_def hs1_def)
      then show ?thesis using Cons n seg(4) dist qn by (auto simp: hs3_def hs2_def hs1_def)
    qed (use n in simp)
    show ?thesis
    proof (cases xs rule: rev_cases)
      case Nil
      then show ?thesis using tail q by (simp add: x'_def)
    next
      case (snoc vs v)
      then have v: "q = v" "lseg ?hs 0 x vs v" "v \<noteq> 0" "sh_partial_previous (?hs v) = last (0 # vs)"
        using seg(1,3) by (auto simp: lseg_snoc)
      have "lseg ?hs 0 x vs v \<longleftrightarrow> lseg hs3 0 x vs v"
        using snoc dist qn v by (intro lseg_cong) (auto simp: same_links_def hs3_def hs2_def hs1_def)
      then have "lseg hs3 0 x xs n" using v snoc dist qn by (auto simp: lseg_snoc hs3_def hs2_def hs1_def)
      then show ?thesis using tail seg(3) v by (auto simp: plist_append x'_def)
    qed
  qed
  moreover have "same_body (?hs y) (hs3 y)" "sh_listed_partial (hs3 y) = (if y = b then 0 else sh_listed_partial (?hs y))" for y
    by (simp_all add: same_body_def hs3_def hs2_def hs1_def)
  moreover have "hs3 y = ?hs y" if "y \<notin> insert b (set (xs @ b # ys))" for y
  proof -
    have "q \<in> set xs" if "q \<noteq> 0" using that q seg(3) by (cases xs) auto
    moreover have "n \<in> set ys" if "n \<noteq> 0" using that n by (cases ys) auto
    ultimately show ?thesis using that by (auto simp: hs3_def hs2_def hs1_def)
  qed
  ultimately show thesis using that [of ?s] unfolding relisted_def by blast
qed

section \<open>The invariant of a cache\<close>

definition slab_objects :: "SizeClass \<Rightarrow> usize \<Rightarrow> SlabHeader \<Rightarrow> usize set" where
  "slab_objects c b h = slot c b ` {i. i < slab_capacity c \<and> slot_used h i}"

definition live_objects :: "(usize \<Rightarrow> SlabHeader) \<Rightarrow> SizeClass \<Rightarrow> usize set \<Rightarrow> usize set" where
  "live_objects hs c S = (\<Union>b \<in> S. slab_objects c b (hs b))"

definition slabs_ok :: "(usize \<Rightarrow> SlabHeader) \<Rightarrow> (usize \<Rightarrow> u8) \<Rightarrow> SizeClass \<Rightarrow> usize set \<Rightarrow> bool" where
  "slabs_ok hs m c S \<longleftrightarrow> c < SIZE_CLASS_COUNT \<and> finite S \<and> (\<forall>b \<in> S. page_ok b \<and> (\<exists>fl. slab_ok m c b (hs b) fl))"

definition counts_ok :: "(usize \<Rightarrow> SlabHeader) \<Rightarrow> SlabCache \<Rightarrow> usize set \<Rightarrow> bool" where
  "counts_ok hs c S \<longleftrightarrow> sc_slab_count c = card S \<and> sc_empty_slabs c = card {b \<in> S. SlabHeader_is_empty (hs b)}
     \<and> sc_empty_slabs c \<le> 1 \<and> sc_allocated_objects c = card (live_objects hs (sc_class c) S)"

definition list_ok :: "(usize \<Rightarrow> SlabHeader) \<Rightarrow> usize \<Rightarrow> usize set \<Rightarrow> usize list \<Rightarrow> bool" where
  "list_ok hs x S xs \<longleftrightarrow> distinct xs \<and> set xs = {b \<in> S. sh_free_count (hs b) \<noteq> 0} \<and> plist hs 0 x xs
     \<and> (\<forall>b \<in> S. sh_listed_partial (hs b) = (if b \<in> set xs then 1 else 0))"

definition cache_inv :: "'p cache_world \<Rightarrow> usize set \<Rightarrow> bool" where
  "cache_inv s S \<longleftrightarrow> slabs_ok (sw_header s) (sw_memory s) (sc_class (cw_cache s)) S \<and> counts_ok (sw_header s) (cw_cache s) S
     \<and> (\<exists>xs. list_ok (sw_header s) (sc_partial_head (cw_cache s)) S xs)"

abbreviation cache_objects :: "'p cache_world \<Rightarrow> usize set \<Rightarrow> usize set" where
  "cache_objects s S \<equiv> live_objects (sw_header s) (sc_class (cw_cache s)) S"

lemma slab_objects_facts:
  assumes "x \<in> slab_objects c b h" "c < SIZE_CLASS_COUNT" "page_ok b"
  shows "round_down PAGE_SIZE x = b" "0 < x" "x \<le> usize_MAX" "SizeClass_size c dvd x" "b + 112 \<le> x" "x + SizeClass_size c \<le> b + PAGE_SIZE"
proof -
  obtain i where i: "i < slab_capacity c" "x = slot c b i" using assms(1) by (auto simp: slab_objects_def)
  then show "round_down PAGE_SIZE x = b" "0 < x" "x \<le> usize_MAX" "SizeClass_size c dvd x" "b + 112 \<le> x" "x + SizeClass_size c \<le> b + PAGE_SIZE"
    using slot_page [OF assms(2) i(1)] slot_small [OF assms(2) i(1) assms(3)] slot_aligned [OF assms(2)] slot_bounds [OF assms(2) i(1)] assms(3)
    by (auto simp: page_ok_def)
qed

lemma live_objects_facts:
  assumes "slabs_ok hs m c S"
  shows "finite (live_objects hs c S)" "card (live_objects hs c S) \<le> usize_MAX" "card S \<le> usize_MAX"
proof -
  have fin: "finite S" and c: "c < SIZE_CLASS_COUNT" and page: "\<And>b. b \<in> S \<Longrightarrow> page_ok b" using assms by (auto simp: slabs_ok_def)
  have sub: "live_objects hs c S \<subseteq> {1..usize_MAX}"
    using slab_objects_facts(2,3) [OF _ c] page by (fastforce simp: live_objects_def)
  then show "finite (live_objects hs c S)" by (rule finite_subset) simp
  show "card (live_objects hs c S) \<le> usize_MAX" using card_mono [OF _ sub] by simp
  have "S \<subseteq> {1..usize_MAX}" using page by (fastforce simp: page_ok_def)
  then show "card S \<le> usize_MAX" using card_mono [of "{1..usize_MAX}" S] by simp
qed

lemma same_body_inv:
  assumes "\<And>y. same_body (hs y) (hs' y)"
  shows "live_objects hs' c S = live_objects hs c S" "slabs_ok hs' m c S = slabs_ok hs m c S"
    "{b \<in> S. SlabHeader_is_empty (hs' b)} = {b \<in> S. SlabHeader_is_empty (hs b)}" "{b \<in> S. sh_free_count (hs' b) \<noteq> 0} = {b \<in> S. sh_free_count (hs b) \<noteq> 0}"
  using same_body_fields [OF assms] by (simp_all add: live_objects_def slab_objects_def slabs_ok_def)

lemma live_objects_insert:
  assumes "b \<in> S" "\<And>j. slot_used h j \<longleftrightarrow> j = i \<or> slot_used (hs b) j" "i < slab_capacity c"
  shows "live_objects (hs(b := h)) c S = insert (slot c b i) (live_objects hs c S)"
proof -
  have "slab_objects c b h = insert (slot c b i) (slab_objects c b (hs b))" using assms(2,3) by (auto simp: slab_objects_def)
  then show ?thesis using assms(1) by (auto simp: live_objects_def split: if_splits)
qed

lemma live_objects_fresh:
  assumes "slabs_ok hs m c S" "b \<in> S" "i < slab_capacity c" "\<not> slot_used (hs b) i"
  shows "slot c b i \<notin> live_objects hs c S"
proof
  assume "slot c b i \<in> live_objects hs c S"
  then obtain b' where b': "b' \<in> S" "slot c b i \<in> slab_objects c b' (hs b')" by (auto simp: live_objects_def)
  have c: "c < SIZE_CLASS_COUNT" "page_ok b" "page_ok b'" using assms(1,2) b'(1) by (auto simp: slabs_ok_def)
  have "b' = b" using slab_objects_facts(1) [OF b'(2) c(1,3)] slot_page [OF c(1) assms(3)] c(2) by (simp add: page_ok_def)
  then show False using b'(2) assms(4) slot_inj [OF c(1)] by (auto simp: slab_objects_def)
qed

lemma live_objects_delete:
  assumes "slabs_ok hs m c S" "b \<in> S" "\<And>j. slot_used h j \<longleftrightarrow> j \<noteq> i \<and> slot_used (hs b) j" "i < slab_capacity c"
  shows "live_objects (hs(b := h)) c S = live_objects hs c S - {slot c b i}"
proof -
  have c: "c < SIZE_CLASS_COUNT" and page: "\<And>b. b \<in> S \<Longrightarrow> page_ok b" using assms(1) by (auto simp: slabs_ok_def)
  have "slab_objects c b h = slab_objects c b (hs b) - {slot c b i}" using assms(3) slot_inj [OF c] by (auto simp: slab_objects_def)
  moreover have "slot c b i \<notin> slab_objects c b' (hs b')" if "b' \<in> S" "b' \<noteq> b" for b'
    using slab_objects_facts(1) [OF _ c page [OF that(1)]] slot_page [OF c assms(4)] page [OF assms(2)] that(2) by (metis page_ok_def)
  ultimately show ?thesis using assms(2) by (auto simp: live_objects_def split: if_splits)
qed

lemma slabs_okE:
  assumes "slabs_ok hs m c S" "b \<in> S"
  obtains fl where "page_ok b" "slab_ok m c b (hs b) fl"
  using assms unfolding slabs_ok_def by blast

lemma update_cache_Ok: "f (cw_cache s) = Ok c \<Longrightarrow> update_cache f s = (Ok (), s\<lparr>cw_cache := c\<rparr>)"
  by (simp add: update_cache_def)

lemma pages_apart:
  assumes "page_ok b" "page_ok b'" "b \<noteq> b'"
  shows "b + PAGE_SIZE \<le> b' \<or> b' + PAGE_SIZE \<le> b"
  using assms by (auto simp: page_ok_def dvd_def PAGE_SIZE_eq)

lemma slab_ok_memory:
  assumes c: "c < SIZE_CLASS_COUNT" and out: "same_outside a n m m'" and apart: "a + n \<le> b \<or> b + PAGE_SIZE \<le> a"
  shows "slab_ok m c b h fl \<longleftrightarrow> slab_ok m' c b h fl"
proof (cases "set fl \<subseteq> {..<slab_capacity c}")
  case True
  have "read_link m (slot c b i) = read_link m' (slot c b i)" if "i \<in> set fl" for i
  proof (rule read_link_other)
    fix x assume x: "x = slot c b i \<or> x = slot c b i + 1"
    have "i < slab_capacity c" using that True by auto
    then have "b \<le> x" "x < b + PAGE_SIZE" using slot_bounds [OF c, of i b] class_facts(1) [OF c] x by auto
    then have "\<not> (a \<le> x \<and> x < a + n)" using apart by auto
    then show "m x = m' x" using out by (auto simp: same_outside_def)
  qed
  then show ?thesis unfolding slab_ok_def using free_chain_cong [of fl m c b m'] by blast
qed (auto simp: slab_ok_def)

lemma slabs_ok_update:
  assumes "slabs_ok hs m c S" "b \<in> S" "slab_ok m' c b h' fl" "same_outside a n m m'" "b \<le> a" "a + n \<le> b + PAGE_SIZE"
  shows "slabs_ok (hs(b := h')) m' c S"
proof -
  have c: "c < SIZE_CLASS_COUNT" and page: "\<And>b. b \<in> S \<Longrightarrow> page_ok b" using assms(1) by (auto simp: slabs_ok_def)
  have "\<exists>fl. slab_ok m' c b' (hs b') fl" if "b' \<in> S" "b' \<noteq> b" for b'
  proof -
    note b' = that
    obtain fl where "slab_ok m c b' (hs b') fl" using slabs_okE [OF assms(1) b'(1)] by blast
    moreover have "a + n \<le> b' \<or> b' + PAGE_SIZE \<le> a" using pages_apart [OF page [OF assms(2)] page [OF that(1)]] that(2) assms(5,6) by auto
    ultimately show ?thesis using slab_ok_memory [OF c assms(4)] by blast
  qed
  then show ?thesis using assms(1,3) by (auto simp: slabs_ok_def)
qed

lemma free_count_facts:
  assumes "slab_ok m c b h fl" "c < SIZE_CLASS_COUNT"
  shows "sh_free_count h = length fl" "SlabHeader_is_empty h \<longleftrightarrow> length fl = slab_capacity c" "SlabHeader_is_full h \<longleftrightarrow> fl = []"
    "fl = [] \<longrightarrow> \<not> SlabHeader_is_empty h"
  using assms class_facts(7) [OF assms(2)] by (auto simp: slab_ok_def SlabHeader_is_empty_def SlabHeader_is_full_def)

lemma free_count_le:
  assumes "slab_ok m c b h fl"
  shows "length fl \<le> slab_capacity c"
proof -
  have "set fl \<subseteq> {..<slab_capacity c}" using assms by (auto simp: slab_ok_def)
  then have "card (set fl) \<le> card {..<slab_capacity c}" by (intro card_mono) simp_all
  moreover have "distinct fl" using assms by (simp add: slab_ok_def)
  ultimately show ?thesis by (simp add: distinct_card)
qed

section \<open>Taking an object\<close>

lemma allocate_partial:
  fixes PP :: "('p, 'e) PageProvider"
  assumes inv: "cache_inv s S" and head: "sc_partial_head (cw_cache s) \<noteq> 0"
  obtains b x s' where "SlabCache_allocate PP s = (Ok x, s')" "cache_inv s' S" "sw_provider s' = sw_provider s" "sw_debug s' = sw_debug s"
    "sc_class (cw_cache s') = sc_class (cw_cache s)" "x \<notin> cache_objects s S" "cache_objects s' S = insert x (cache_objects s S)"
    "\<And>y. sh_allocation (sw_header s' y) = sh_allocation (sw_header s y)" "\<And>y. y \<notin> S \<Longrightarrow> sw_header s' y = sw_header s y"
    "same_outside x (SizeClass_size (sc_class (cw_cache s))) (sw_memory s) (sw_memory s')"
proof -
  let ?hs = "sw_header s" and ?c = "sc_class (cw_cache s)" and ?x = "sc_partial_head (cw_cache s)"
  obtain xs where ok: "slabs_ok ?hs (sw_memory s) ?c S" and cnt: "counts_ok ?hs (cw_cache s) S" and list: "list_ok ?hs ?x S xs"
    using inv by (auto simp: cache_inv_def)
  have c: "?c < SIZE_CLASS_COUNT" and fin: "finite S" using ok by (auto simp: slabs_ok_def)
  obtain b ys where xs: "xs = b # ys" "?x = b" using list head by (cases xs) (auto simp: list_ok_def)
  have b: "b \<in> S" "sh_free_count (?hs b) \<noteq> 0" "distinct (b # ys)" "plist ?hs 0 b (b # ys)"
    using list xs by (auto simp: list_ok_def)
  then have listed: "sh_listed_partial (?hs b) \<noteq> 0" using list xs by (simp add: list_ok_def)
  obtain fl where fl: "page_ok b" "slab_ok (sw_memory s) ?c b (?hs b) fl" using slabs_okE [OF ok b(1)] by blast
  then obtain i fl' where i: "fl = i # fl'" using b(2) by (cases fl) (auto simp: slab_ok_def)
  have i': "i < slab_capacity ?c" "\<not> slot_used (?hs b) i" using fl(2) unfolding i slab_ok_def by auto
  let ?a = "slot ?c b i"
  obtain h m where h: "SlabHeader_allocate_object b s = (Ok ?a :: (usize, 'e SlabError) result, s\<lparr>sw_header := ?hs(b := h), sw_memory := m\<rparr>)"
    "slab_ok m ?c b h fl'" "same_place (?hs b) h" "\<And>j. slot_used h j \<longleftrightarrow> j = i \<or> slot_used (?hs b) j"
    "same_outside ?a (SizeClass_size ?c) (sw_memory s) m"
    using allocate_object_ok [OF c fl(1) fl(2) [unfolded i]] by blast
  let ?hs1 = "?hs(b := h)" and ?e = "SlabHeader_is_empty (?hs b)"
  have ok1: "slabs_ok ?hs1 m ?c S"
    using slot_bounds [OF c i'(1), of b] by (intro slabs_ok_update [OF ok b(1) h(2,5)]) simp_all
  have objs: "live_objects ?hs1 ?c S = insert ?a (live_objects ?hs ?c S)" "?a \<notin> live_objects ?hs ?c S"
    using live_objects_insert [of b S h i ?hs ?c, OF b(1) h(4) i'(1)] live_objects_fresh [OF ok b(1) i'] by simp_all
  have E: "{y \<in> S. SlabHeader_is_empty (?hs1 y)} = {y \<in> S. SlabHeader_is_empty (?hs y)} - {b}"
  proof -
    have "length fl' < slab_capacity ?c" using free_count_le [OF fl(2)] unfolding i by simp
    then have "\<not> SlabHeader_is_empty h" using free_count_facts(2) [OF h(2) c] by simp
    then show ?thesis by auto
  qed
  define k where "k = card ({y \<in> S. SlabHeader_is_empty (?hs y)} - {b})"
  have k: "sc_empty_slabs (cw_cache s) = (if ?e then Suc k else k)" "k \<le> 1"
  proof -
    have *: "finite {y \<in> S. SlabHeader_is_empty (?hs y)}" using fin by simp
    show "sc_empty_slabs (cw_cache s) = (if ?e then Suc k else k)"
      using cnt b(1) card_Suc_Diff1 [OF *, of b] by (auto simp: counts_ok_def k_def)
    then show "k \<le> 1" using cnt by (auto simp: counts_ok_def split: if_splits)
  qed
  let ?s1 = "s\<lparr>sw_header := ?hs1, sw_memory := m\<rparr>"
  let ?s2 = "?s1\<lparr>cw_cache := (cw_cache s)\<lparr>sc_empty_slabs := k\<rparr>\<rparr>"
  have e2: "swhen ?e (update_cache (\<lambda>c. rbind (ok_or (checked_sub (sc_empty_slabs c) 1) CorruptHeader) (\<lambda>n. Ok (c\<lparr>sc_empty_slabs := n\<rparr>)))) ?s1
      = (Ok () :: (unit, 'e SlabError) result, ?s2)"
    using k(1) by (cases ?e) (simp_all add: update_cache_def checked_sub_def sreturn_def)
  have plist1: "plist ?hs1 0 ?x xs"
    using list h(3) plist_cong [of xs ?hs ?hs1 0 ?x] by (auto simp: list_ok_def same_links_def same_place_def)
  have listed1: "sh_listed_partial (?hs1 y) = sh_listed_partial (?hs y)" "sh_allocation (?hs1 y) = sh_allocation (?hs y)" for y
    using h(3) by (auto simp: same_place_def)
  obtain hs3 x3 where s3: "swhen (SlabHeader_is_full h) (SlabCache_remove_partial b) ?s2
      = (Ok () :: (unit, 'e SlabError) result, ?s2\<lparr>sw_header := hs3, cw_cache := (cw_cache ?s2)\<lparr>sc_partial_head := x3\<rparr>\<rparr>)"
    "\<And>y. same_body (?hs1 y) (hs3 y)" "\<exists>xs. list_ok hs3 x3 S xs" "\<And>y. y \<notin> S \<Longrightarrow> hs3 y = ?hs1 y"
  proof (cases "fl' = []")
    case False
    have full: "\<not> SlabHeader_is_full h" using free_count_facts(3) [OF h(2) c] False by simp
    have "sh_free_count h \<noteq> 0" using full by (simp add: SlabHeader_is_full_def)
    then have "list_ok ?hs1 ?x S xs" using list plist1 listed1 b(2) by (auto simp: list_ok_def)
    then show thesis using full
      by (intro that [of ?x ?hs1]) (auto simp: sreturn_def same_body_def)
  next
    case True
    have full: "SlabHeader_is_full h" "sh_free_count h = 0" using free_count_facts [OF h(2) c] True by simp_all
    obtain s3 where s3: "SlabCache_remove_partial b ?s2 = (Ok () :: (unit, 'e SlabError) result, s3)" "relisted ([] @ b # ys) ([] @ ys) b 0 ?s2 s3"
    proof (rule remove_partial_ok)
      show "plist (sw_header ?s2) 0 (sc_partial_head (cw_cache ?s2)) ([] @ b # ys)" using plist1 xs by simp
      show "distinct ([] @ b # ys)" using b(3) by simp
      show "sh_listed_partial (sw_header ?s2 b) \<noteq> 0" using listed listed1(1) [of b] by simp
    qed
    obtain hs3 x3 where h3: "s3 = ?s2\<lparr>sw_header := hs3, cw_cache := (cw_cache ?s2)\<lparr>sc_partial_head := x3\<rparr>\<rparr>" "plist hs3 0 x3 ys"
      "\<And>y. same_body (?hs1 y) (hs3 y)" "\<And>y. sh_listed_partial (hs3 y) = (if y = b then 0 else sh_listed_partial (?hs1 y))"
      "\<And>y. y \<notin> insert b (set (b # ys)) \<Longrightarrow> hs3 y = ?hs1 y"
      using s3(2) by (auto simp: relisted_def)
    have "set ys = {y \<in> S. sh_free_count (?hs1 y) \<noteq> 0}" using list xs b(3) full(2) by (auto simp: list_ok_def)
    then have "list_ok hs3 x3 S ys"
      using h3(2,4) listed1 list xs b(3) same_body_inv(4) [OF h3(3), of S] by (auto simp: list_ok_def)
    moreover have "hs3 y = ?hs1 y" if "y \<notin> S" for y using h3(5) [of y] that list xs by (auto simp: list_ok_def)
    ultimately show thesis using s3(1) h3(1,3) full(1) by (intro that [of x3 hs3]) auto
  qed
  let ?s3 = "?s2\<lparr>sw_header := hs3, cw_cache := (cw_cache ?s2)\<lparr>sc_partial_head := x3\<rparr>\<rparr>"
  let ?n = "sc_allocated_objects (cw_cache s) + 1"
  let ?s4 = "?s3\<lparr>cw_cache := (cw_cache ?s3)\<lparr>sc_allocated_objects := ?n\<rparr>\<rparr>"
  have n: "?n = card (live_objects ?hs1 ?c S)"
    using cnt objs live_objects_facts(1) [OF ok] by (simp add: counts_ok_def)
  have e4: "update_cache (\<lambda>c. rbind (ok_or (checked_add (sc_allocated_objects c) 1) SlabCounterOverflow) (\<lambda>n. Ok (c\<lparr>sc_allocated_objects := n\<rparr>))) ?s3
      = (Ok () :: (unit, 'e SlabError) result, ?s4)"
    using n live_objects_facts(2) [OF ok1] by (simp add: update_cache_def checked_add_def)
  have run: "SlabCache_allocate PP s = (Ok ?a, ?s4)"
    using head h(1) e2 s3(1) e4 xs(2) b(1)
    by (simp add: SlabCache_allocate_def link_to_pointer_def sseq_def sbind_def sget_def sread_def sreturn_def)
  note body = same_body_inv [where hs = ?hs1 and hs' = hs3, OF s3(2)]
  have "cache_inv ?s4 S"
    using ok1 n s3(3) k E cnt by (simp add: cache_inv_def counts_ok_def body k_def)
  moreover have "sh_allocation (hs3 y) = sh_allocation (?hs y)" for y using same_body_fields(2) [OF s3(2)] listed1(2) by simp
  moreover have "hs3 y = ?hs y" if "y \<notin> S" for y using s3(4) [OF that] b(1) that by auto
  ultimately show thesis using run objs h(5) by (intro that [of ?a ?s4]) (simp_all add: body)
qed

end
