(* ===== verification/Spec2Isabelle.thy ===== *)
theory Spec2Isabelle
  imports Tlb_Handshake Page_Table_Theorems Boot_Memory File_Table Pipe_Threads Elf_Theorems Slab_Cache
begin

text \<open>
  Verification library for SudoOS-Plus, an operating system kernel in Rust for RISC-V and LoongArch.

  \<^bold>\<open>Conventions.\<close> A Rust method \<open>Type::method\<close> is the definition \<open>Type_method\<close>. A function that can fail returns
  \<open>result\<close> with the constructors \<open>Ok\<close>, \<open>Err\<close> and \<open>Panic\<close>; the last is a failed assertion, an \<open>expect\<close> on
  nothing, an index out of range or an arithmetic overflow, since every profile of the workspace builds with
  overflow checks and aborts on panic. A method on \<open>&mut self\<close> is an \<open>action\<close> on the state record of the
  receiver (theory Prelude); the state reached is kept when an error is propagated. Const generics
  are record fields. The argument \<open>reserve_ok\<close> is the outcome of \<open>try_reserve\<close>. Addresses and \<open>usize\<close> are natural
  numbers with the bound \<open>usize_MAX\<close> checked where the source checks it; flag sets and page table entries are words.

  \<^bold>\<open>Memory management, crate mm.\<close>
  \<^item> Address: addresses, frames, pages, ranges and the check of a layout (\<open>address.rs\<close>, \<open>frame.rs\<close>, \<open>range.rs\<close>,
    \<open>virtual_*.rs\<close>, \<open>layout.rs\<close>), with the arithmetic of alignment.
  \<^item> Memory_Map, Early_Allocator: the boot memory map and the allocator that runs on it (\<open>map.rs\<close>, \<open>early_allocator.rs\<close>).
    The map is shown to denote exactly the sets of whole usable pages; allocation takes the highest fit.
  \<^item> Buddy and the theories Buddy_Lists (linked lists in the page array), Buddy_View (the pages of a state),
    Buddy_Free (the free lists), Buddy_Blocks (merging and splitting), Buddy_Ops, Buddy_Boot and Buddy_Properties:
    the buddy allocator (\<open>buddy/*.rs\<close>), its invariant on all reachable states, soundness and completeness of
    allocation, release, reference counts.
  \<^item> Mapping_Options, Vma, Vma_Facts, Vma_Search, Address_Space: mapping policies, the sorted set of areas of an address
    space and the operations on it (\<open>paging/mapping.rs\<close>, \<open>vma.rs\<close>, \<open>address_space.rs\<close>, \<open>vmalloc.rs\<close>). The set
    refines a map from addresses to attributes.
  \<^item> Page_Fault, Cpu_Mask, Asid, User_Space, Tlb_Handshake: fault classification, processor sets, address space
    identifiers, user address spaces, and the protocol by which processors enter and leave an address space while
    others request TLB invalidation (\<open>fault.rs\<close>, \<open>cpu_mask.rs\<close>, \<open>asid.rs\<close>, \<open>tlb.rs\<close>, \<open>user_space.rs\<close>). The protocol is a
    step relation whose atomic steps may interleave arbitrarily; the sequential functions are paths of it.

  \<^item> Slab: the allocator of small objects (\<open>slab/*.rs\<close>). Slab_Page: the layout of a slab page, its bitmap and its list of free
    objects, with what taking and returning an object does. Slab_Cache: the list of slabs of a size class and the
    invariant of a cache. The provider of pages is an argument, as in the source.

  \<^bold>\<open>Page tables.\<close>
  \<^item> Riscv_Layout: the RISC-V layout and the access to physical memory (\<open>arch/riscv64/src/memory/layout.rs\<close>,
    \<open>phys_access.rs\<close>). Sv39: geometry, raw tables and the entry format (\<open>mm/src/paging\<close>, \<open>arch/riscv64/src/memory/paging\<close>).
  \<^item> Page_Alloc: the global page allocator with zeroing and poisoning (\<open>kernel/src/page_alloc.rs\<close>), on a memory of
    64-bit cells. Its two critical sections of a release are shown to tolerate any interleaving.
  \<^item> Runtime_Page_Table: the run-time page tables on RISC-V (\<open>kernel/src/runtime_page_table.rs\<close>). Table_Tree views the
    cells as a tree of tables and says what a store, a graft of new tables and the removal of a table do to the
    mappings; Page_Table_Ops ties the tree to the page allocator and shows what each walk does;
    Page_Table_Properties treats user roots, sequences of operations and the removal of empty tables;
    Page_Table_Theorems states the properties: mapping and unmapping refine the update of one entry of the abstract
    table, failures undo everything, user roots cannot change kernel mappings.

  \<^bold>\<open>Firmware.\<close>
  \<^item> Bytes: byte slices, integers in big and little endian order, UTF-8. Fdt: the device tree (\<open>firmware/fdt\<close>): validation
    of the blob, the reservation block and the queries. The vendored package that parses the tree is a parameter: a record
    of the answers it gives, where no answer is a panic of the package. Validation accepts exactly the well-formed blobs and never panics, the iterator over
    reservations ends, and the reading of regions inverts their encoding.
  \<^item> Boot_Memory: the memory layout at boot (\<open>kernel/src/memory.rs\<close>), which composes the device tree with the boot memory
    map: what is left free is exactly what nothing reserves. It panics only where the parser of the tree does, and runs
    for ever only on a memory region that does not fit into 64 bits.

  \<^bold>\<open>Files, pipes and programs.\<close>
  \<^item> Vfs: errors, flags, buffers, directory records and the open file (\<open>vfs/src/lib.rs\<close>). The operations behind a file are a
    record of functions on the state of the device, with the defaults of the trait. A directory record decodes to its
    entry; a positioned read or write leaves the shared position alone. File_Table: the table of descriptors,
    which refines a finite map under every sequence of calls.
  \<^item> Pipe: the ring buffer and the critical sections of \<open>kernel/src/pipe.rs\<close>. Pipe_Threads: any number of threads that read,
    write and close, as a step relation over these sections, the counters of the wait protocol and the wake-ups:
    the pipe is first in first out, and no wake-up is lost.
  \<^item> Elf: the parser and the builder of executables (\<open>kernel/src/elf.rs\<close>). Elf_Theorems: what the parser accepts is
    safe to load, the one header on which it panics, and that it reads back what the builder makes.

  \<^bold>\<open>Interfaces.\<close> The locale \<open>frame_source\<close> is the contract of an allocator of frames, interpreted on the early
  and on the buddy allocator; the locale \<open>area_store\<close> is what an address space relies on, interpreted on the area set.
  The locale \<open>seekable_file\<close> is what positioned access relies on, interpreted on the default seek; the locale
  \<open>wake_protocol\<close> is the contract between the counter and the sleepers of one side of a pipe, interpreted on readers and on writers.

  \<^bold>\<open>Bounds.\<close> No definition uses fuel: loops of the source are structural recursions or functions with a measure, except
  the walk over the list of partial slabs, a partial function whose value is \<open>None\<close> if it does not return; the loop over the memory regions at
  boot, whose iterator may not end, has \<open>None\<close> as the value of the layout.

  \<^bold>\<open>Not modelled.\<close> Device drivers, the network stack, the ext4 reader, system call dispatch, scheduling and trap
  handling, which mix hardware access and third-party packages with the logic; the LoongArch back end of the page
  tables; assembly. Allocation failure of the kernel heap is modelled where the source handles it (\<open>try_reserve\<close>).
\<close>

end
